(* ===== verification/Oxen_Prelude.thy ===== *)
theory Oxen_Prelude
  imports
    Main
    "HOL-Library.Word"
    "HOL-Library.AList"
    "HOL-Library.Char_ord"
    "HOL-Library.List_Lexorder"
begin

text \<open>
  What the component theories share: the error type of \<open>crates/lib/src/error.rs\<close> and the
  chaining of fallible computations (the question-mark operator of the code), little-endian bytes,
  Rust's \<open>HashMap\<close> as an association list with distinct keys (the order of the list is the
  iteration order, which Rust leaves open), and Rust's \<open>HashSet\<close> over a type with its own equality.
\<close>

named_theorems res_simps \<open>unfolding fallible computations\<close>
named_theorems node_simps \<open>accessors and constructors of merkle tree nodes\<close>

section \<open>Errors and fallible computations\<close>

text \<open>
  The constructors of \<open>OxenError\<close> and \<open>MerkleDbError\<close> that the modelled functions return.
  A message built with \<open>format!\<close> keeps its fixed text only. \<open>Panic\<close> is a panic of the
  thread (\<open>unwrap\<close> on \<open>None\<close>, an index out of range), which is no \<open>OxenError\<close> but
  ends the call like one.
\<close>

datatype oxen_error =
    Basic string
  | BranchNotFound string
  | RevisionNotFound string
  | NoCommitsFound
  | HeadNotFound
  | UpstreamMergeConflict string
  | MergeInProgressMismatch string string
  | NoMergeInProgress
  | ParseIntError string
  | InvalidMerkleTreeNodeType nat
  | DbReadOnly
  | DbIllegalOperationWriteSizeFirst
  | DbWriteBeforeOpen
  | DbReadBeforeOpen
  | DbCloseBeforeOpen
  | DbIo string
  | DbOpen string
  | DbEncode
  | DbDecode
  | IO string
  | Panic string

type_synonym 'a res = "oxen_error + 'a"

definition rbind :: "'a res \<Rightarrow> ('a \<Rightarrow> 'b res) \<Rightarrow> 'b res" where
  "rbind m f = (case m of Inl e \<Rightarrow> Inl e | Inr x \<Rightarrow> f x)"

lemma rbind_simps [simp, res_simps]:
  "rbind (Inl e) f = Inl e"
  "rbind (Inr x) f = f x"
  by (simp_all add: rbind_def)

lemma rbind_eq_Inr: "rbind m f = Inr y \<longleftrightarrow> (\<exists>x. m = Inr x \<and> f x = Inr y)"
  by (cases m) auto

lemma rbind_cong [fundef_cong]:
  "m = m' \<Longrightarrow> (\<And>x. m' = Inr x \<Longrightarrow> f x = f' x) \<Longrightarrow> rbind m f = rbind m' f'"
  by (cases m') auto

text \<open>\<open>ok_or\<close> and \<open>ok_or_else\<close> of \<open>Option\<close>.\<close>

definition ok_or :: "oxen_error \<Rightarrow> 'a option \<Rightarrow> 'a res" where
  "ok_or e x = (case x of None \<Rightarrow> Inl e | Some y \<Rightarrow> Inr y)"

lemma ok_or_simps [simp, res_simps]: "ok_or e None = Inl e" "ok_or e (Some y) = Inr y"
  by (simp_all add: ok_or_def)

text \<open>A fallible function over the elements of a list, stopping at the first error.\<close>

fun rmap :: "('a \<Rightarrow> 'b res) \<Rightarrow> 'a list \<Rightarrow> 'b list res" where
  "rmap f [] = Inr []"
| "rmap f (x # xs) = rbind (f x) (\<lambda>y. rbind (rmap f xs) (\<lambda>ys. Inr (y # ys)))"

fun rfold :: "('a \<Rightarrow> 's \<Rightarrow> 's res) \<Rightarrow> 'a list \<Rightarrow> 's \<Rightarrow> 's res" where
  "rfold f [] s = Inr s"
| "rfold f (x # xs) s = rbind (f x s) (rfold f xs)"

lemma rmap_cong [fundef_cong]:
  "xs = ys \<Longrightarrow> (\<And>x. x \<in> set ys \<Longrightarrow> f x = g x) \<Longrightarrow> rmap f xs = rmap g ys"
proof (induction ys arbitrary: xs)
  case Nil
  then show ?case by simp
next
  case (Cons y ys)
  have "rmap f ys = rmap g ys" by (rule Cons.IH) (use Cons.prems in auto)
  then show ?case using Cons.prems by simp
qed

lemma rfold_cong [fundef_cong]:
  "xs = ys \<Longrightarrow> s = t \<Longrightarrow> (\<And>x u. x \<in> set ys \<Longrightarrow> f x u = g x u) \<Longrightarrow> rfold f xs s = rfold g ys t"
proof (induction ys arbitrary: xs s t)
  case (Cons y ys)
  have "rfold f ys = rfold g ys" by (rule ext) (rule Cons.IH, use Cons.prems(3) in auto)
  then show ?case using Cons.prems by simp
qed simp

lemma rmap_Inr_map: "(\<And>x. x \<in> set xs \<Longrightarrow> f x = Inr (g x)) \<Longrightarrow> rmap f xs = Inr (map g xs)"
  by (induction xs) auto

lemma rfold_append: "rfold f (xs @ ys) s = rbind (rfold f xs s) (rfold f ys)"
proof (induction xs arbitrary: s)
  case (Cons x xs)
  then show ?case by (cases "f x s") auto
qed simp

lemma rfold_invariant:
  assumes "rfold f xs s = Inr t" and "P s"
    and "\<And>x s t. x \<in> set xs \<Longrightarrow> P s \<Longrightarrow> f x s = Inr t \<Longrightarrow> P t"
  shows "P t"
  using assms
proof (induction xs arbitrary: s)
  case (Cons x xs)
  then obtain u where "f x s = Inr u" and "rfold f xs u = Inr t"
    by (auto simp: rbind_eq_Inr)
  with Cons show ?case by (metis list.set_intros)
qed simp

text \<open>
  A fallible computation over a state. An error keeps the state reached so far: the writes made
  before it stay on disk.
\<close>

type_synonym ('s, 'a) st = "'s \<Rightarrow> 'a res \<times> 's"

definition sbind :: "('s, 'a) st \<Rightarrow> ('a \<Rightarrow> ('s, 'b) st) \<Rightarrow> ('s, 'b) st" where
  "sbind m f = (\<lambda>s. case m s of (Inl e, t) \<Rightarrow> (Inl e, t) | (Inr x, t) \<Rightarrow> f x t)"

definition slift :: "'a res \<Rightarrow> ('s, 'a) st" where
  "slift r = (\<lambda>s. (r, s))"

fun sfor :: "('a \<Rightarrow> ('s, unit) st) \<Rightarrow> 'a list \<Rightarrow> ('s, unit) st" where
  "sfor f [] = slift (Inr ())"
| "sfor f (x # xs) = sbind (f x) (\<lambda>_. sfor f xs)"

fun smap :: "('a \<Rightarrow> ('s, 'b) st) \<Rightarrow> 'a list \<Rightarrow> ('s, 'b list) st" where
  "smap f [] = slift (Inr [])"
| "smap f (x # xs) = sbind (f x) (\<lambda>y. sbind (smap f xs) (\<lambda>ys. slift (Inr (y # ys))))"

lemma sfor_cong [fundef_cong]:
  "xs = ys \<Longrightarrow> (\<And>x. x \<in> set ys \<Longrightarrow> f x = g x) \<Longrightarrow> sfor f xs = sfor g ys"
proof (induction ys arbitrary: xs)
  case (Cons y ys)
  have "sfor f ys = sfor g ys" by (rule Cons.IH) (use Cons.prems in auto)
  then show ?case using Cons.prems by simp
qed simp

lemma smap_cong [fundef_cong]:
  "xs = ys \<Longrightarrow> (\<And>x. x \<in> set ys \<Longrightarrow> f x = g x) \<Longrightarrow> smap f xs = smap g ys"
proof (induction ys arbitrary: xs)
  case (Cons y ys)
  have "smap f ys = smap g ys" by (rule Cons.IH) (use Cons.prems in auto)
  then show ?case using Cons.prems by simp
qed simp

lemma sbind_cong [fundef_cong]:
  assumes "m = m'" and "\<And>x. f x = f' x"
  shows "sbind m f = sbind m' f'"
proof -
  have "f = f'" by (rule ext) (rule assms(2))
  with assms(1) show ?thesis by simp
qed

lemma slift_apply [simp]: "slift r s = (r, s)"
  by (simp add: slift_def)

lemma sbind_Inr: "m s = (Inr x, t) \<Longrightarrow> sbind m f s = f x t"
  by (simp add: sbind_def)

lemma sbind_Inl: "m s = (Inl e, t) \<Longrightarrow> sbind m f s = (Inl e, t)"
  by (simp add: sbind_def)

lemma sbind_eq_Inr:
  "sbind m f s = (Inr y, u) \<longleftrightarrow> (\<exists>x t. m s = (Inr x, t) \<and> f x t = (Inr y, u))"
  by (auto simp: sbind_def split: prod.splits sum.splits)

lemma sbind_slift [simp, res_simps]:
  "sbind (slift (Inr x)) f = f x"
  "sbind (slift (Inl e)) f = slift (Inl e)"
  by (simp_all add: sbind_def fun_eq_iff)

lemma sfor_invariant:
  assumes "sfor f xs s = (r, t)" and "P s"
    and "\<And>x s r t. x \<in> set xs \<Longrightarrow> P s \<Longrightarrow> f x s = (r, t) \<Longrightarrow> P t"
  shows "P t"
  using assms
proof (induction xs arbitrary: s)
  case Nil
  then show ?case by simp
next
  case (Cons x xs)
  obtain q u where u: "f x s = (q, u)" by force
  then have "P u" using Cons.prems(2) Cons.prems(3) [of x s q u] by simp
  show ?case
  proof (cases q)
    case (Inl e)
    with u Cons.prems(1) \<open>P u\<close> show ?thesis by (simp add: sbind_def)
  next
    case (Inr y)
    with u Cons.prems(1) have "sfor f xs u = (r, t)" by (simp add: sbind_def)
    from Cons.IH [OF this \<open>P u\<close>] Cons.prems(3) show ?thesis by (meson list.set_intros(2))
  qed
qed

section \<open>Bytes\<close>

type_synonym byte = "8 word"

text \<open>\<open>to_le_bytes\<close> and \<open>from_le_bytes\<close> of the integer types: \<open>k\<close> bytes, least significant first.\<close>

fun to_le :: "nat \<Rightarrow> nat \<Rightarrow> byte list" where
  "to_le 0 n = []"
| "to_le (Suc k) n = word_of_nat (n mod 256) # to_le k (n div 256)"

fun from_le :: "byte list \<Rightarrow> nat" where
  "from_le [] = 0"
| "from_le (b # bs) = unat b + 256 * from_le bs"

lemma length_to_le [simp]: "length (to_le k n) = k"
  by (induction k arbitrary: n) auto

lemma unat_byte_of_nat [simp]: "unat (word_of_nat (n mod 256) :: byte) = n mod 256"
  by (simp add: unat_of_nat take_bit_eq_mod)

lemma from_le_to_le: "from_le (to_le k n) = n mod 256 ^ k"
proof (induction k arbitrary: n)
  case (Suc k)
  then show ?case by (simp add: mod_mult2_eq mult.commute)
qed simp

lemma from_le_to_le_small [simp]: "n < 256 ^ k \<Longrightarrow> from_le (to_le k n) = n"
  by (simp add: from_le_to_le)

lemma from_le_bound: "from_le bs < 256 ^ length bs"
proof (induction bs)
  case (Cons b bs)
  have "unat b < 256" using unsigned_less [of b] by simp
  with Cons show ?case by simp
qed simp

text \<open>The text of a string as bytes (\<open>as_bytes\<close>): the model's characters are UTF-8 bytes.\<close>

definition as_bytes :: "string \<Rightarrow> byte list" where
  "as_bytes s = map (\<lambda>c. word_of_nat (of_char c)) s"

section \<open>Hash maps\<close>

text \<open>
  \<open>HashMap\<close>: an association list with distinct keys. \<open>AList.update\<close> is \<open>insert\<close>,
  \<open>map_of\<close> is \<open>get\<close>, \<open>AList.delete\<close> is \<open>remove\<close>.
\<close>

type_synonym ('k, 'v) hash_map = "('k \<times> 'v) list"

definition hm_wf :: "('k, 'v) hash_map \<Rightarrow> bool" where
  "hm_wf m \<longleftrightarrow> distinct (map fst m)"

definition hm_extend :: "('k, 'v) hash_map \<Rightarrow> ('k, 'v) hash_map \<Rightarrow> ('k, 'v) hash_map" where
  "hm_extend m n = fold (\<lambda>(k, v). AList.update k v) n m"

lemma hm_wf_Nil [simp, intro]: "hm_wf []"
  by (simp add: hm_wf_def)

lemma hm_wf_update [simp, intro]: "hm_wf m \<Longrightarrow> hm_wf (AList.update k v m)"
  unfolding hm_wf_def by (rule distinct_update)

lemma hm_wf_delete [simp, intro]: "hm_wf m \<Longrightarrow> hm_wf (AList.delete k m)"
  unfolding hm_wf_def by (rule distinct_delete)

lemma hm_wf_extend [simp, intro]: "hm_wf m \<Longrightarrow> hm_wf (hm_extend m n)"
  unfolding hm_extend_def by (induction n arbitrary: m) auto

lemma map_of_update [simp]: "map_of (AList.update k v m) = (map_of m)(k \<mapsto> v)"
  by (rule update_conv')

lemma map_of_delete: "map_of (AList.delete k m) = (map_of m)(k := None)"
  by (rule delete_conv')

lemma hm_wf_map_of: "hm_wf m \<Longrightarrow> (k, v) \<in> set m \<longleftrightarrow> map_of m k = Some v"
  by (simp add: hm_wf_def map_of_eq_Some_iff)

lemma map_of_extend: "hm_wf n \<Longrightarrow> map_of (hm_extend m n) = map_of m ++ map_of n"
proof (induction n arbitrary: m)
  case Nil
  then show ?case by (simp add: hm_extend_def)
next
  case (Cons kv n)
  obtain k v where kv: "kv = (k, v)" by force
  from Cons.prems kv have n: "hm_wf n" and k: "map_of n k = None"
    by (auto simp: hm_wf_def map_of_eq_None_iff)
  have "map_of (hm_extend m (kv # n)) = map_of (hm_extend (AList.update k v m) n)"
    by (simp add: hm_extend_def kv)
  also have "\<dots> = (map_of m)(k \<mapsto> v) ++ map_of n"
    by (simp only: Cons.IH [OF n] map_of_update)
  also have "\<dots> = map_of m ++ map_of (kv # n)"
    using k by (auto simp: kv map_add_def fun_eq_iff split: option.splits)
  finally show ?case .
qed

section \<open>Hash sets\<close>

text \<open>
  \<open>HashSet\<close> of a type with its own \<open>Eq\<close> and \<open>Hash\<close>: a list in insertion order, of which no
  code may rely on the order. \<open>insert\<close> keeps an element that is already found. Which element
  is found depends on the table: only an equal one, and surely one that is equal and feeds the same
  data to the hasher. Where \<open>Eq\<close> and \<open>Hash\<close> disagree the rest is left open by the standard
  library, so \<open>found\<close> is an argument of the definitions and these are its laws.
\<close>

definition insert_by :: "('a \<Rightarrow> 'a \<Rightarrow> bool) \<Rightarrow> 'a \<Rightarrow> 'a list \<Rightarrow> 'a list" where
  "insert_by found x xs = (if list_ex (\<lambda>y. found y x) xs then xs else xs @ [x])"

definition extend_by :: "('a \<Rightarrow> 'a \<Rightarrow> bool) \<Rightarrow> 'a list \<Rightarrow> 'a list \<Rightarrow> 'a list" where
  "extend_by found xs acc = fold (insert_by found) xs acc"

lemma set_insert_by: "set xs \<subseteq> set (insert_by found x xs)" "set (insert_by found x xs) \<subseteq> insert x (set xs)"
  by (auto simp: insert_by_def)

lemma extend_by_simps [simp]:
  "extend_by found [] acc = acc"
  "extend_by found (x # xs) acc = extend_by found xs (insert_by found x acc)"
  by (simp_all add: extend_by_def)

lemma set_extend_by1: "set acc \<subseteq> set (extend_by found xs acc)"
proof (induction xs arbitrary: acc)
  case (Cons x xs)
  show ?case unfolding extend_by_simps by (rule order_trans [OF set_insert_by(1) Cons.IH])
qed simp

lemma set_extend_by2: "set (extend_by found xs acc) \<subseteq> set acc \<union> set xs"
proof (induction xs arbitrary: acc)
  case (Cons x xs)
  have "set (extend_by found xs (insert_by found x acc)) \<subseteq> set (insert_by found x acc) \<union> set xs" by (rule Cons.IH)
  also have "\<dots> \<subseteq> insert x (set acc) \<union> set xs" by (rule Un_mono [OF set_insert_by(2) order_refl])
  finally show ?case by simp
qed simp

locale hash_set =
  fixes found :: "'a \<Rightarrow> 'a \<Rightarrow> bool" and eq :: "'a \<Rightarrow> 'a \<Rightarrow> bool" and hashed :: "'a \<Rightarrow> 'k"
  assumes found_eq: "found y x \<Longrightarrow> eq y x"
    and found_same: "eq y x \<Longrightarrow> hashed y = hashed x \<Longrightarrow> found y x"
    and eq_refl: "eq x x"
begin

lemma insert_has: "\<exists>y \<in> set (insert_by found x xs). eq y x"
  using found_eq eq_refl by (auto simp: insert_by_def list_ex_iff)

lemma extend_has: "x \<in> set xs \<Longrightarrow> \<exists>y \<in> set (extend_by found xs acc). eq y x"
proof (induction xs arbitrary: acc)
  case (Cons z xs)
  show ?case
  proof (cases "x = z")
    case True
    with insert_has [of x acc] set_extend_by1 [of "insert_by found z acc" found xs] show ?thesis by auto
  next
    case False
    with Cons show ?thesis by simp
  qed
qed simp

end

locale keyed_hash_set = hash_set +
  assumes eq_hashed: "eq y x \<longleftrightarrow> hashed y = hashed x"
begin

lemma found_iff: "found y x \<longleftrightarrow> hashed y = hashed x"
  using found_eq found_same eq_hashed by blast

lemma insert_distinct: "distinct (map hashed xs) \<Longrightarrow> distinct (map hashed (insert_by found x xs))"
  by (auto simp: insert_by_def list_ex_iff found_iff)

lemma set_insert_inj: "inj_on hashed (insert x (set xs)) \<Longrightarrow> set (insert_by found x xs) = insert x (set xs)"
  by (auto simp: insert_by_def list_ex_iff found_iff inj_on_def)

lemma extend_distinct: "distinct (map hashed acc) \<Longrightarrow> distinct (map hashed (extend_by found xs acc))"
  by (induction xs arbitrary: acc) (auto simp: insert_distinct)

lemma set_extend_inj: "inj_on hashed (set acc \<union> set xs) \<Longrightarrow> set (extend_by found xs acc) = set acc \<union> set xs"
proof (induction xs arbitrary: acc)
  case (Cons x xs)
  have "set (insert_by found x acc) = insert x (set acc)"
    by (rule set_insert_inj) (use Cons.prems in \<open>auto elim: inj_on_subset\<close>)
  then show ?case using Cons.IH [of "insert_by found x acc"] Cons.prems by simp
qed simp

lemma extend_distinct_id: "distinct (map hashed (acc @ xs)) \<Longrightarrow> extend_by found xs acc = acc @ xs"
proof (induction xs arbitrary: acc)
  case (Cons x xs)
  have "hashed y \<noteq> hashed x" if "y \<in> set acc" for y
    using Cons.prems imageI [OF that, of hashed] by auto
  then have "insert_by found x acc = acc @ [x]" by (auto simp: insert_by_def list_ex_iff found_iff)
  with Cons show ?case by simp
qed simp

end

end
