(* ===== verification/Rust_Path.thy ===== *)
theory Rust_Path
  imports Oxen_Prelude
begin

text \<open>
  \<open>std::path\<close> on Unix, as the code uses it. A \<open>Path\<close> is a text, but \<open>==\<close>, \<open>Hash\<close>, \<open>Ord\<close>,
  \<open>parent\<close>, \<open>file_name\<close>, \<open>starts_with\<close> and \<open>strip_prefix\<close> all read it through
  \<open>components()\<close>; the model is that list of components. \<open>path_to_str\<close> is the canonical
  text of a list of components.
\<close>

section \<open>Components\<close>

datatype component = RootDir | CurDir | ParentDir | Normal string

type_synonym path = "component list"

fun comp_rank :: "component \<Rightarrow> nat" where
  "comp_rank RootDir = 0"
| "comp_rank CurDir = 1"
| "comp_rank ParentDir = 2"
| "comp_rank (Normal s) = 3"

fun comp_name :: "component \<Rightarrow> string" where
  "comp_name (Normal s) = s"
| "comp_name _ = []"

text \<open>\<open>Component\<close> derives \<open>Ord\<close>: by variant, then by the bytes of the name.\<close>

instantiation component :: linorder
begin

definition less_eq_component :: "component \<Rightarrow> component \<Rightarrow> bool" where
  "less_eq_component a b \<longleftrightarrow>
     comp_rank a < comp_rank b \<or> comp_rank a = comp_rank b \<and> comp_name a \<le> comp_name b"

definition less_component :: "component \<Rightarrow> component \<Rightarrow> bool" where
  "less_component a b \<longleftrightarrow>
     comp_rank a < comp_rank b \<or> comp_rank a = comp_rank b \<and> comp_name a < comp_name b"

instance
proof
  fix a b c :: component
  show "(a < b) = (a \<le> b \<and> \<not> b \<le> a)"
    by (auto simp: less_eq_component_def less_component_def)
  show "a \<le> a"
    by (simp add: less_eq_component_def)
  show "a \<le> b \<Longrightarrow> b \<le> c \<Longrightarrow> a \<le> c"
    by (auto simp: less_eq_component_def)
  show "a \<le> b \<Longrightarrow> b \<le> a \<Longrightarrow> a = b"
    by (cases a; cases b) (auto simp: less_eq_component_def)
  show "a \<le> b \<or> b \<le> a"
    by (auto simp: less_eq_component_def)
qed

end

section \<open>Reading a text as a path\<close>

fun split_slash :: "string \<Rightarrow> string list" where
  "split_slash [] = [[]]"
| "split_slash (c # cs) =
     (if c = CHR ''/'' then [] # split_slash cs
      else (case split_slash cs of [] \<Rightarrow> [[c]] | p # ps \<Rightarrow> (c # p) # ps))"

definition comp_of_part :: "string \<Rightarrow> component" where
  "comp_of_part p = (if p = ''..'' then ParentDir else Normal p)"

text \<open>
  Empty parts and \<open>.\<close> parts are dropped, but for a \<open>.\<close> that starts a relative path.
\<close>

definition components :: "string \<Rightarrow> path" where
  "components s =
     (let parts = split_slash s;
          lead = (if s \<noteq> [] \<and> hd s = CHR ''/'' then [RootDir]
                  else if hd parts = ''.'' then [CurDir] else [])
      in lead @ map comp_of_part (filter (\<lambda>p. p \<noteq> [] \<and> p \<noteq> ''.'') parts))"

definition is_absolute :: "path \<Rightarrow> bool" where
  "is_absolute p \<longleftrightarrow> (case p of RootDir # _ \<Rightarrow> True | _ \<Rightarrow> False)"

text \<open>\<open>PathBuf::join\<close>: an absolute path replaces the base; a leading \<open>.\<close> disappears after a base.\<close>

definition path_join :: "path \<Rightarrow> path \<Rightarrow> path" where
  "path_join p q =
     (if is_absolute q then q
      else if p = [] then q
      else p @ (case q of CurDir # q' \<Rightarrow> q' | _ \<Rightarrow> q))"

definition join_str :: "path \<Rightarrow> string \<Rightarrow> path" where
  "join_str p s = path_join p (components s)"

text \<open>\<open>Path::parent\<close>, \<open>Path::file_name\<close>, \<open>Path::starts_with\<close>.\<close>

definition path_parent :: "path \<Rightarrow> path option" where
  "path_parent p = (if p = [] \<or> last p = RootDir then None else Some (butlast p))"

definition path_file_name :: "path \<Rightarrow> string option" where
  "path_file_name p =
     (if p = [] then None else (case last p of Normal s \<Rightarrow> Some s | _ \<Rightarrow> None))"

definition path_starts_with :: "path \<Rightarrow> path \<Rightarrow> bool" where
  "path_starts_with p base \<longleftrightarrow> take (length base) p = base"

fun comp_to_str :: "component \<Rightarrow> string" where
  "comp_to_str RootDir = ''''"
| "comp_to_str CurDir = ''.''"
| "comp_to_str ParentDir = ''..''"
| "comp_to_str (Normal s) = s"

fun join_slash :: "string list \<Rightarrow> string" where
  "join_slash [] = []"
| "join_slash [p] = p"
| "join_slash (p # ps) = p @ CHR ''/'' # join_slash ps"

definition path_to_str :: "path \<Rightarrow> string" where
  "path_to_str p = (if p = [RootDir] then ''/'' else join_slash (map comp_to_str p))"

text \<open>All ancestors of a path, the path first (\<open>Path::ancestors\<close>).\<close>

function path_ancestors :: "path \<Rightarrow> path list" where
  "path_ancestors p = p # (case path_parent p of None \<Rightarrow> [] | Some q \<Rightarrow> path_ancestors q)"
  by pat_completeness auto
termination
  by (relation "measure length") (auto simp: path_parent_def split: if_splits)

declare path_ancestors.simps [simp del]

section \<open>File names\<close>

text \<open>The names that the nodes of a committed tree carry: one normal component.\<close>

definition valid_name :: "string \<Rightarrow> bool" where
  "valid_name s \<longleftrightarrow> s \<noteq> [] \<and> s \<noteq> ''.'' \<and> s \<noteq> ''..'' \<and> CHR ''/'' \<notin> set s"

lemma split_slash_no_slash: "CHR ''/'' \<notin> set s \<Longrightarrow> split_slash s = [s]"
  by (induction s) auto

lemma split_slash_neq_Nil [simp]: "split_slash s \<noteq> []"
  by (induction s) (auto split: list.splits)

lemma split_slash_append:
  "CHR ''/'' \<notin> set s \<Longrightarrow> split_slash (s @ CHR ''/'' # t) = s # split_slash t"
  by (induction s) auto

lemma components_Nil [simp]: "components [] = []"
  by (simp add: components_def)

lemma components_valid_name [simp]: "valid_name s \<Longrightarrow> components s = [Normal s]"
  by (cases s) (auto simp: components_def valid_name_def split_slash_no_slash comp_of_part_def Let_def)

lemma path_join_Nil_right [simp]: "path_join p [] = p"
  by (simp add: path_join_def is_absolute_def)

lemma path_join_Nil_left [simp]: "path_join [] q = q"
  by (simp add: path_join_def)

lemma path_join_Normal [simp]: "path_join p [Normal s] = p @ [Normal s]"
  by (simp add: path_join_def is_absolute_def)

lemma join_str_Nil [simp]: "join_str p [] = p"
  by (simp add: join_str_def)

lemma join_str_name [simp]: "valid_name s \<Longrightarrow> join_str p s = p @ [Normal s]"
  by (simp add: join_str_def)

lemma path_parent_snoc [simp]: "path_parent (p @ [Normal s]) = Some p"
  by (simp add: path_parent_def)

lemma path_parent_Nil [simp]: "path_parent [] = None"
  by (simp add: path_parent_def)

lemma path_file_name_snoc [simp]: "path_file_name (p @ [Normal s]) = Some s"
  by (simp add: path_file_name_def)

lemma path_file_name_Nil [simp]: "path_file_name [] = None"
  by (simp add: path_file_name_def)

text \<open>A path of names only, as every path inside a tree is.\<close>

definition name_path :: "path \<Rightarrow> bool" where
  "name_path p \<longleftrightarrow> (\<forall>c \<in> set p. \<exists>s. c = Normal s \<and> valid_name s)"

lemma name_path_simps [simp]:
  "name_path []"
  "name_path (c # p) \<longleftrightarrow> (\<exists>s. c = Normal s \<and> valid_name s) \<and> name_path p"
  "name_path (p @ q) \<longleftrightarrow> name_path p \<and> name_path q"
  by (auto simp: name_path_def)

lemma join_slash_Cons: "ps \<noteq> [] \<Longrightarrow> join_slash (p # ps) = p @ CHR ''/'' # join_slash ps"
  by (cases ps) auto

lemma split_slash_path_to_str:
  "name_path p \<Longrightarrow> p \<noteq> [] \<Longrightarrow> split_slash (join_slash (map comp_to_str p)) = map comp_to_str p"
proof (induction p)
  case (Cons c p)
  then obtain s where c: "c = Normal s" "valid_name s" by auto
  then have s: "CHR ''/'' \<notin> set s" by (simp add: valid_name_def)
  show ?case
  proof (cases "p = []")
    case True
    with c s show ?thesis by (simp add: split_slash_no_slash)
  next
    case False
    with Cons c s show ?thesis by (simp add: join_slash_Cons split_slash_append)
  qed
qed simp

text \<open>The text of a path of names reads back as the same path.\<close>

lemma components_path_to_str:
  assumes "name_path p"
  shows "components (path_to_str p) = p"
proof (cases p)
  case Nil
  then show ?thesis by (simp add: path_to_str_def)
next
  case (Cons c q)
  with assms obtain s where c: "c = Normal s" "valid_name s" by auto
  let ?t = "join_slash (map comp_to_str p)"
  have ne: "p \<noteq> [RootDir]" "p \<noteq> []" using Cons c by auto
  have parts: "split_slash ?t = map comp_to_str p"
    using assms ne(2) by (rule split_slash_path_to_str)
  have s: "s \<noteq> []" "CHR ''/'' \<notin> set s" "s \<noteq> ''.''" using c by (auto simp: valid_name_def)
  have t: "?t \<noteq> []" "hd ?t \<noteq> CHR ''/''"
    using Cons c s by (cases q; cases s; auto)+
  have "filter (\<lambda>x. x \<noteq> [] \<and> x \<noteq> ''.'') (map comp_to_str p) = map comp_to_str p"
    using assms by (auto simp: filter_id_conv name_path_def valid_name_def)
  moreover have "map comp_of_part (map comp_to_str p) = p"
    using assms by (auto simp: name_path_def valid_name_def comp_of_part_def intro!: map_idI)
  moreover have "hd (map comp_to_str p) \<noteq> ''.''" using Cons c s by simp
  ultimately show ?thesis
    using t by (simp add: components_def path_to_str_def ne parts Let_def)
qed

lemma path_to_str_inj:
  "name_path p \<Longrightarrow> name_path q \<Longrightarrow> path_to_str p = path_to_str q \<longleftrightarrow> p = q"
  by (metis components_path_to_str)

end
