(* ===== verification/Merkle_Hash.thy ===== *)
theory Merkle_Hash
  imports Rust_Path
begin

text \<open>
  \<open>MerkleHash\<close>, a \<open>u128\<close>, with its hexadecimal text, the two-level directory name of a
  node on disk (\<open>merkle_hash.rs\<close>), and \<open>MerkleTreeNodeType\<close> with its stable byte
  (\<open>node_type.rs\<close>).
\<close>

type_synonym merkle_hash = "128 word"

section \<open>Hexadecimal text\<close>

definition hex_digit :: "nat \<Rightarrow> char" where
  "hex_digit d = char_of (if d < 10 then 48 + d else 87 + d)"

fun hex_digits :: "nat \<Rightarrow> string" where
  "hex_digits n = (if n < 16 then [hex_digit n] else hex_digits (n div 16) @ [hex_digit (n mod 16)])"

declare hex_digits.simps [simp del]

text \<open>\<open>Display\<close> writes the value with \<open>{:x}\<close>: lower case, no leading zeros, \<open>0\<close> for zero.\<close>

definition merkle_hash_to_string :: "merkle_hash \<Rightarrow> string" where
  "merkle_hash_to_string h = hex_digits (unat h)"

text \<open>\<open>char::to_digit(16)\<close>: both cases of the letters.\<close>

definition hex_value :: "char \<Rightarrow> nat option" where
  "hex_value c =
     (let n = of_char c :: nat in
      if 48 \<le> n \<and> n \<le> 57 then Some (n - 48)
      else if 97 \<le> n \<and> n \<le> 102 then Some (n - 87)
      else if 65 \<le> n \<and> n \<le> 70 then Some (n - 55)
      else None)"

text \<open>
  The loop of \<open>u128::from_str_radix(s, 16)\<close>: each step multiplies with an overflow check,
  reads the digit, then reports the overflow of the product and of the sum, in that order.
\<close>

fun radix_loop :: "nat \<Rightarrow> string \<Rightarrow> nat res" where
  "radix_loop acc [] = Inr acc"
| "radix_loop acc (c # cs) =
     (case hex_value c of
        None \<Rightarrow> Inl (ParseIntError ''InvalidDigit'')
      | Some d \<Rightarrow>
          if acc * 16 \<ge> 2 ^ 128 then Inl (ParseIntError ''PosOverflow'')
          else if acc * 16 + d \<ge> 2 ^ 128 then Inl (ParseIntError ''PosOverflow'')
          else radix_loop (acc * 16 + d) cs)"

text \<open>
  \<open>FromStr\<close>. An empty text, a lone sign and a minus sign are errors of
  \<open>from_str_radix\<close>; a leading plus sign is skipped.
\<close>

definition merkle_hash_from_str :: "string \<Rightarrow> merkle_hash res" where
  "merkle_hash_from_str s =
     (if s = [] then Inl (ParseIntError ''Empty'')
      else if s = ''+'' \<or> s = ''-'' then Inl (ParseIntError ''InvalidDigit'')
      else rbind (radix_loop 0 (if hd s = CHR ''+'' then tl s else s)) (\<lambda>n. Inr (word_of_nat n)))"

text \<open>\<open>to_short_str\<close>: the first ten characters of the text.\<close>

definition to_short_str :: "merkle_hash \<Rightarrow> string" where
  "to_short_str h =
     (let str = merkle_hash_to_string h in
      if length str > 10 then take 10 str else str)"

text \<open>\<open>HexHash::node_db_prefix\<close>: the first three characters, then the rest, as a relative path.\<close>

definition node_db_prefix :: "merkle_hash \<Rightarrow> path" where
  "node_db_prefix h =
     (let hash_str = merkle_hash_to_string h
      in join_str (components (take 3 hash_str)) (drop 3 hash_str))"

section \<open>Node types\<close>

datatype merkle_tree_node_type = TCommit | TFile | TDir | TVNode | TFileChunk

fun node_type_to_u8 :: "merkle_tree_node_type \<Rightarrow> byte" where
  "node_type_to_u8 TCommit = 0"
| "node_type_to_u8 TDir = 1"
| "node_type_to_u8 TVNode = 2"
| "node_type_to_u8 TFile = 3"
| "node_type_to_u8 TFileChunk = 4"

definition node_type_from_u8 :: "byte \<Rightarrow> merkle_tree_node_type res" where
  "node_type_from_u8 v =
     (if v = 0 then Inr TCommit
      else if v = 1 then Inr TDir
      else if v = 2 then Inr TVNode
      else if v = 3 then Inr TFile
      else if v = 4 then Inr TFileChunk
      else Inl (InvalidMerkleTreeNodeType (unat v)))"

lemma node_type_from_to [simp]: "node_type_from_u8 (node_type_to_u8 t) = Inr t"
  by (cases t) (simp_all add: node_type_from_u8_def)

section \<open>The text determines the hash\<close>

lemma hex_value_digit: "d < 16 \<Longrightarrow> hex_value (hex_digit d) = Some d"
  by (auto simp: hex_value_def hex_digit_def Let_def)

lemma hex_digit_ascii: "d < 16 \<Longrightarrow> hex_digit d \<noteq> CHR ''+'' \<and> hex_digit d \<noteq> CHR ''-'' \<and> hex_digit d \<noteq> CHR ''/'' \<and> hex_digit d \<noteq> CHR ''.''"
proof -
  assume d: "d < 16"
  have "hex_value (hex_digit d) = Some d" using d by (rule hex_value_digit)
  moreover have "hex_value CHR ''+'' = None" "hex_value CHR ''-'' = None"
      "hex_value CHR ''/'' = None" "hex_value CHR ''.'' = None"
    by (simp_all add: hex_value_def)
  ultimately show ?thesis by auto
qed

lemma hex_digits_neq_Nil [simp]: "hex_digits n \<noteq> []"
  by (subst hex_digits.simps) simp

lemma set_hex_digits: "c \<in> set (hex_digits n) \<Longrightarrow> \<exists>d < 16. c = hex_digit d"
proof (induction n rule: hex_digits.induct)
  case (1 n)
  show ?case
  proof (cases "n < 16")
    case True
    with 1 show ?thesis by (auto simp: hex_digits.simps [of n])
  next
    case False
    then have "n mod 16 < 16" by simp
    moreover have "c \<in> set (hex_digits (n div 16)) \<or> c = hex_digit (n mod 16)"
      using False 1 by (auto simp: hex_digits.simps [of n])
    ultimately show ?thesis using False 1 by metis
  qed
qed

lemma radix_loop_append:
  "radix_loop acc (xs @ ys) = rbind (radix_loop acc xs) (\<lambda>a. radix_loop a ys)"
  by (induction acc xs rule: radix_loop.induct) (auto split: option.splits)

lemma radix_loop_hex_digits: "n < 2 ^ 128 \<Longrightarrow> radix_loop 0 (hex_digits n) = Inr n"
proof (induction n rule: hex_digits.induct)
  case (1 n)
  show ?case
  proof (cases "n < 16")
    case True
    with 1 show ?thesis by (simp add: hex_digits.simps [of n] hex_value_digit)
  next
    case False
    have less: "n div 16 < 2 ^ 128" using 1 by linarith
    have "n div 16 * 16 \<le> n" by simp
    with 1 have bound: "n div 16 * 16 < 2 ^ 128" by linarith
    have "radix_loop 0 (hex_digits (n div 16)) = Inr (n div 16)"
      using False less "1.IH" by blast
    with False bound 1(2) show ?thesis
      by (simp add: hex_digits.simps [of n] radix_loop_append hex_value_digit)
  qed
qed

lemma hex_digits_hd: "hd (hex_digits n) \<noteq> CHR ''+''"
  using set_hex_digits [of "hd (hex_digits n)" n] hex_digit_ascii
  by (metis hd_in_set hex_digits_neq_Nil)

lemma from_str_to_string [simp]: "merkle_hash_from_str (merkle_hash_to_string h) = Inr h"
proof -
  have "unat h < 2 ^ 128" using unsigned_less [of h] by simp
  then have "radix_loop 0 (hex_digits (unat h)) = Inr (unat h)"
    by (rule radix_loop_hex_digits)
  moreover have "hex_digits (unat h) \<noteq> ''+''" "hex_digits (unat h) \<noteq> ''-''"
    using set_hex_digits [of _ "unat h"] hex_digit_ascii by (metis list.set_intros(1))+
  ultimately show ?thesis
    by (simp add: merkle_hash_from_str_def merkle_hash_to_string_def hex_digits_hd)
qed

lemma merkle_hash_to_string_inj [simp]:
  "merkle_hash_to_string g = merkle_hash_to_string h \<longleftrightarrow> g = h"
  by (metis from_str_to_string sum.inject(2))

lemma merkle_hash_to_string_neq_Nil [simp]: "merkle_hash_to_string h \<noteq> []"
  by (simp add: merkle_hash_to_string_def)

text \<open>A part of a hexadecimal text is a file name, or empty.\<close>

lemma hex_part_name:
  assumes "set s \<subseteq> set (merkle_hash_to_string h)"
  shows "s = [] \<or> valid_name s"
proof (cases s)
  case (Cons c cs)
  have c: "\<forall>c \<in> set s. \<exists>d < 16. c = hex_digit d"
    using assms set_hex_digits by (auto simp: merkle_hash_to_string_def)
  then have c: "\<forall>c \<in> set s. c \<noteq> CHR ''/'' \<and> c \<noteq> CHR ''.''"
    using hex_digit_ascii by metis
  then have "s \<noteq> ''.''" "s \<noteq> ''..''" "CHR ''/'' \<notin> set s"
    by (metis list.set_intros(1)) (metis c list.set_intros(1), metis c)
  with Cons show ?thesis by (simp add: valid_name_def)
qed simp

lemma node_db_prefix_eq:
  "node_db_prefix h =
     (let s = merkle_hash_to_string h
      in if drop 3 s = [] then [Normal (take 3 s)] else [Normal (take 3 s), Normal (drop 3 s)])"
proof -
  let ?s = "merkle_hash_to_string h"
  have "valid_name (take 3 ?s)"
    using hex_part_name [of "take 3 ?s" h] set_take_subset [of 3 ?s] by auto
  moreover have "drop 3 ?s = [] \<or> valid_name (drop 3 ?s)"
    using hex_part_name [of "drop 3 ?s" h] set_drop_subset [of 3 ?s] by blast
  ultimately show ?thesis
    by (auto simp: node_db_prefix_def Let_def)
qed

section \<open>Properties\<close>

lemma hex_digits_length: "k > 0 \<Longrightarrow> n < 16 ^ k \<Longrightarrow> length (hex_digits n) \<le> k"
proof (induction n arbitrary: k rule: hex_digits.induct)
  case (1 n)
  show ?case
  proof (cases "n < 16")
    case True
    with 1 show ?thesis by (simp add: hex_digits.simps [of n])
  next
    case False
    with 1 obtain j where k: "k = Suc j" "j > 0" by (cases k; cases "k - 1"; auto)
    then have "n div 16 < 16 ^ j" using 1 by (simp add: less_mult_imp_div_less mult.commute)
    with False k 1(1) [of j] show ?thesis by (simp add: hex_digits.simps [of n])
  qed
qed

lemma node_db_prefix_two_level:
  "node_db_prefix g = node_db_prefix h \<Longrightarrow> g = h"
proof -
  assume eq: "node_db_prefix g = node_db_prefix h"
  let ?s = "merkle_hash_to_string g" and ?t = "merkle_hash_to_string h"
  have "take 3 ?s = take 3 ?t \<and> drop 3 ?s = drop 3 ?t"
    using eq by (auto simp: node_db_prefix_eq Let_def split: if_splits)
  then have "?s = ?t" by (metis append_take_drop_id)
  then show ?thesis by simp
qed

text \<open>The text of a hash is at most 32 characters long and reads back as the same hash, so no
  two hashes share a text.\<close>

theorem hash_text_roundtrip:
  "merkle_hash_from_str (merkle_hash_to_string h) = Inr h \<and>
   0 < length (merkle_hash_to_string h) \<and> length (merkle_hash_to_string h) \<le> 32"
proof -
  have "unat h < 16 ^ 32" using unsigned_less [of h] by simp
  from hex_digits_length [OF _ this] show ?thesis by (simp add: merkle_hash_to_string_def del: from_str_to_string)
     (metis from_str_to_string merkle_hash_to_string_def)
qed

text \<open>The directory of a node on disk determines the node: distinct hashes have distinct
  relative paths, each of one or two plain file names.\<close>

theorem node_db_prefix_injective:
  "(node_db_prefix g = node_db_prefix h \<longleftrightarrow> g = h) \<and>
   name_path (node_db_prefix h) \<and> length (node_db_prefix h) \<in> {1, 2}"
proof -
  let ?s = "merkle_hash_to_string h"
  have "take 3 ?s = [] \<or> valid_name (take 3 ?s)" "drop 3 ?s = [] \<or> valid_name (drop 3 ?s)"
    using hex_part_name set_take_subset set_drop_subset by metis+
  then have "name_path (node_db_prefix h)"
    by (auto simp: node_db_prefix_eq Let_def)
  then show ?thesis
    using node_db_prefix_two_level by (auto simp: node_db_prefix_eq Let_def)
qed

text \<open>A byte is read as a node type if and only if it is the byte that type is written as; every
  other byte is reported as invalid, with its value.\<close>

theorem node_type_byte:
  "(node_type_from_u8 b = Inr t \<longleftrightarrow> b = node_type_to_u8 t) \<and>
   (node_type_from_u8 b = Inl e \<longleftrightarrow> b > 4 \<and> e = InvalidMerkleTreeNodeType (unat b))"
proof -
  have "b > 4 \<longleftrightarrow> b \<noteq> 0 \<and> b \<noteq> 1 \<and> b \<noteq> 2 \<and> b \<noteq> 3 \<and> b \<noteq> 4"
  proof -
    have "b > 4 \<longleftrightarrow> unat b > 4" by (simp add: word_less_nat_alt)
    moreover have "unat b > 4 \<longleftrightarrow> unat b \<noteq> 0 \<and> unat b \<noteq> 1 \<and> unat b \<noteq> 2 \<and> unat b \<noteq> 3 \<and> unat b \<noteq> 4"
      by arith
    ultimately show ?thesis by (simp add: word_unat_eq_iff)
  qed
  then show ?thesis by (cases t) (auto simp: node_type_from_u8_def)
qed

end
