(* ===== verification/Merkle_Nodes.thy ===== *)
theory Merkle_Nodes
  imports Merkle_Hash
begin

text \<open>
  The nodes of a Merkle tree (\<open>crates/lib/src/model/merkle_tree/node/\<close>): the versioned file,
  directory, vnode, commit and chunk nodes with their constructors and accessors, the sum
  \<open>EMerkleTreeNode\<close>, the tree \<open>MerkleTreeNode\<close>, and \<open>Commit\<close> (\<open>model/commit.rs\<close>).
  \<open>GenericMetadata\<close> is kept as its serialized bytes (nothing modelled here looks inside) and
  an \<open>OffsetDateTime\<close> as its nanoseconds since the epoch, the value its order compares.
\<close>

type_synonym u64 = "64 word"
type_synonym u32 = "32 word"
type_synonym i64 = int
type_synonym generic_metadata = "byte list"
type_synonym timestamp = int

datatype min_oxen_version = V0_10_0 | V0_19_0 | V0_25_0 | LATEST

datatype entry_data_type = EDir | EText | EImage | EVideo | EAudio | ETabular | EBinary

fun entry_data_type_to_string :: "entry_data_type \<Rightarrow> string" where
  "entry_data_type_to_string EDir = ''dir''"
| "entry_data_type_to_string EText = ''text''"
| "entry_data_type_to_string EImage = ''image''"
| "entry_data_type_to_string EVideo = ''video''"
| "entry_data_type_to_string EAudio = ''audio''"
| "entry_data_type_to_string ETabular = ''tabular''"
| "entry_data_type_to_string EBinary = ''binary''"

text \<open>
  \<open>Ord::cmp\<close> of \<open>EntryDataType\<close> asks \<open>partial_cmp\<close>, and \<open>partial_cmp\<close> asks \<open>cmp\<close>.
  The fuel counts the calls; \<open>None\<close> is a call that has not returned yet.
\<close>

datatype ordering = Less | Equal | Greater

fun entry_data_type_cmp :: "nat \<Rightarrow> entry_data_type \<Rightarrow> entry_data_type \<Rightarrow> ordering option"
  and entry_data_type_partial_cmp ::
    "nat \<Rightarrow> entry_data_type \<Rightarrow> entry_data_type \<Rightarrow> ordering option option" where
  "entry_data_type_cmp 0 a b = None"
| "entry_data_type_cmp (Suc k) a b =
     (case entry_data_type_partial_cmp k a b of
        None \<Rightarrow> None
      | Some r \<Rightarrow> Some (case r of None \<Rightarrow> Equal | Some ord \<Rightarrow> ord))"
| "entry_data_type_partial_cmp 0 a b = None"
| "entry_data_type_partial_cmp (Suc k) a b = map_option Some (entry_data_type_cmp k a b)"

text \<open>Comparing two \<open>EntryDataType\<close> values with their order never returns, however many calls
  are allowed: the two methods call each other without end.\<close>

theorem entry_data_type_cmp_diverges:
  "entry_data_type_cmp k a b = None \<and> entry_data_type_partial_cmp k a b = None"
proof (induction k)
  case (Suc k)
  then show ?case by simp
qed simp

datatype file_chunk_type = SingleFile | Chunked
datatype file_storage_type = Disk | S3

section \<open>File nodes\<close>

record file_node_data =
  fd_node_type :: merkle_tree_node_type
  fd_name :: string
  fd_metadata_hash :: "merkle_hash option"
  fd_hash :: merkle_hash
  fd_combined_hash :: merkle_hash
  fd_num_bytes :: u64
  fd_last_commit_id :: merkle_hash
  fd_last_modified_seconds :: i64
  fd_last_modified_nanoseconds :: u32
  fd_data_type :: entry_data_type
  fd_metadata :: "generic_metadata option"
  fd_mime_type :: string
  fd_extension :: string
  fd_chunk_hashes :: "merkle_hash list"
  fd_chunk_type :: file_chunk_type
  fd_storage_backend :: file_storage_type

datatype file_node = FileV0_25_0 (file_data: file_node_data)

record file_node_opts =
  fo_name :: string
  fo_hash :: merkle_hash
  fo_combined_hash :: merkle_hash
  fo_metadata_hash :: "merkle_hash option"
  fo_num_bytes :: u64
  fo_last_modified_seconds :: i64
  fo_last_modified_nanoseconds :: u32
  fo_data_type :: entry_data_type
  fo_metadata :: "generic_metadata option"
  fo_mime_type :: string
  fo_extension :: string

definition file_node_new :: "min_oxen_version \<Rightarrow> file_node_opts \<Rightarrow> file_node res" where
  "file_node_new v opts =
     (if v = LATEST \<or> v = V0_25_0 \<or> v = V0_19_0
      then Inr (FileV0_25_0
        \<lparr>fd_node_type = TFile,
         fd_name = fo_name opts,
         fd_metadata_hash = fo_metadata_hash opts,
         fd_hash = fo_hash opts,
         fd_combined_hash = fo_combined_hash opts,
         fd_num_bytes = fo_num_bytes opts,
         fd_last_commit_id = 0,
         fd_last_modified_seconds = fo_last_modified_seconds opts,
         fd_last_modified_nanoseconds = fo_last_modified_nanoseconds opts,
         fd_data_type = fo_data_type opts,
         fd_metadata = fo_metadata opts,
         fd_mime_type = fo_mime_type opts,
         fd_extension = fo_extension opts,
         fd_chunk_hashes = [],
         fd_chunk_type = SingleFile,
         fd_storage_backend = Disk\<rparr>)
      else Inl (Basic ''FileNode not supported in this version''))"

definition file_node_default :: file_node where
  "file_node_default = FileV0_25_0
     \<lparr>fd_node_type = TFile, fd_name = '''', fd_metadata_hash = None, fd_hash = 0,
      fd_combined_hash = 0, fd_num_bytes = 0, fd_last_commit_id = 0,
      fd_last_modified_seconds = 0, fd_last_modified_nanoseconds = 0, fd_data_type = EBinary,
      fd_metadata = None, fd_mime_type = '''', fd_extension = '''', fd_chunk_hashes = [],
      fd_chunk_type = SingleFile, fd_storage_backend = Disk\<rparr>"

definition fn_name :: "file_node \<Rightarrow> string" where
  "fn_name f = fd_name (file_data f)"

definition fn_set_name :: "string \<Rightarrow> file_node \<Rightarrow> file_node" where
  "fn_set_name s f = FileV0_25_0 ((file_data f)\<lparr>fd_name := s\<rparr>)"

definition fn_hash :: "file_node \<Rightarrow> merkle_hash" where
  "fn_hash f = fd_hash (file_data f)"

definition fn_combined_hash :: "file_node \<Rightarrow> merkle_hash" where
  "fn_combined_hash f = fd_combined_hash (file_data f)"

definition fn_num_bytes :: "file_node \<Rightarrow> u64" where
  "fn_num_bytes f = fd_num_bytes (file_data f)"

definition fn_last_commit_id :: "file_node \<Rightarrow> merkle_hash" where
  "fn_last_commit_id f = fd_last_commit_id (file_data f)"

definition fn_set_last_commit_id :: "merkle_hash \<Rightarrow> file_node \<Rightarrow> file_node" where
  "fn_set_last_commit_id h f = FileV0_25_0 ((file_data f)\<lparr>fd_last_commit_id := h\<rparr>)"

definition fn_data_type :: "file_node \<Rightarrow> entry_data_type" where
  "fn_data_type f = fd_data_type (file_data f)"

definition fn_set_chunk_hashes :: "merkle_hash list \<Rightarrow> file_node \<Rightarrow> file_node" where
  "fn_set_chunk_hashes cs f = FileV0_25_0 ((file_data f)\<lparr>fd_chunk_hashes := cs\<rparr>)"

definition fn_last_modified_seconds :: "file_node \<Rightarrow> i64" where
  "fn_last_modified_seconds f = fd_last_modified_seconds (file_data f)"

definition fn_last_modified_nanoseconds :: "file_node \<Rightarrow> u32" where
  "fn_last_modified_nanoseconds f = fd_last_modified_nanoseconds (file_data f)"

text \<open>\<open>PartialEq\<close> of \<open>FileNode\<close> compares the content hash only.\<close>

definition file_node_eq :: "file_node \<Rightarrow> file_node \<Rightarrow> bool" where
  "file_node_eq f g \<longleftrightarrow> fn_hash f = fn_hash g"

lemma fn_simps [simp, node_simps]:
  "fn_name (fn_set_name s f) = s"
  "fn_hash (fn_set_name s f) = fn_hash f"
  "fn_combined_hash (fn_set_name s f) = fn_combined_hash f"
  "fn_num_bytes (fn_set_name s f) = fn_num_bytes f"
  "fn_data_type (fn_set_name s f) = fn_data_type f"
  "fn_last_commit_id (fn_set_name s f) = fn_last_commit_id f"
  "fn_name (fn_set_last_commit_id h f) = fn_name f"
  "fn_hash (fn_set_last_commit_id h f) = fn_hash f"
  "fn_combined_hash (fn_set_last_commit_id h f) = fn_combined_hash f"
  "fn_last_commit_id (fn_set_last_commit_id h f) = h"
  "fn_name (fn_set_chunk_hashes cs f) = fn_name f"
  "fn_hash (fn_set_chunk_hashes cs f) = fn_hash f"
  "fn_combined_hash (fn_set_chunk_hashes cs f) = fn_combined_hash f"
  "fn_last_commit_id (fn_set_chunk_hashes cs f) = fn_last_commit_id f"
  by (simp_all add: fn_name_def fn_set_name_def fn_hash_def fn_combined_hash_def
      fn_num_bytes_def fn_data_type_def fn_last_commit_id_def fn_set_last_commit_id_def
      fn_set_chunk_hashes_def)

section \<open>Directory nodes\<close>

record dir_data_v19 =
  dd_node_type :: merkle_tree_node_type
  dd_name :: string
  dd_hash :: merkle_hash
  dd_num_bytes :: u64
  dd_last_commit_id :: merkle_hash
  dd_last_modified_seconds :: i64
  dd_last_modified_nanoseconds :: u32
  dd_data_type_counts :: "(string, u64) hash_map"
  dd_data_type_sizes :: "(string, u64) hash_map"

record dir_data_v25 = dir_data_v19 +
  dd_num_entries :: u64

datatype dir_node = DirV0_25_0 dir_data_v25 | DirV0_19_0 dir_data_v19

record dir_node_opts =
  do_name :: string
  do_hash :: merkle_hash
  do_num_entries :: u64
  do_num_bytes :: u64
  do_last_commit_id :: merkle_hash
  do_last_modified_seconds :: i64
  do_last_modified_nanoseconds :: u32
  do_data_type_counts :: "(string, u64) hash_map"
  do_data_type_sizes :: "(string, u64) hash_map"

definition dir_node_new :: "min_oxen_version \<Rightarrow> dir_node_opts \<Rightarrow> dir_node res" where
  "dir_node_new v opts =
     (if v = LATEST \<or> v = V0_25_0
      then Inr (DirV0_25_0
        \<lparr>dd_node_type = TDir, dd_name = do_name opts, dd_hash = do_hash opts,
         dd_num_bytes = do_num_bytes opts, dd_last_commit_id = do_last_commit_id opts,
         dd_last_modified_seconds = do_last_modified_seconds opts,
         dd_last_modified_nanoseconds = do_last_modified_nanoseconds opts,
         dd_data_type_counts = do_data_type_counts opts,
         dd_data_type_sizes = do_data_type_sizes opts,
         dd_num_entries = do_num_entries opts\<rparr>)
      else if v = V0_19_0
      then Inr (DirV0_19_0
        \<lparr>dd_node_type = TDir, dd_name = do_name opts, dd_hash = do_hash opts,
         dd_num_bytes = do_num_bytes opts, dd_last_commit_id = do_last_commit_id opts,
         dd_last_modified_seconds = do_last_modified_seconds opts,
         dd_last_modified_nanoseconds = do_last_modified_nanoseconds opts,
         dd_data_type_counts = do_data_type_counts opts,
         dd_data_type_sizes = do_data_type_sizes opts\<rparr>)
      else Inl (Basic ''Unsupported DirNode version''))"

fun dir_node_get_opts :: "dir_node \<Rightarrow> dir_node_opts" where
  "dir_node_get_opts (DirV0_25_0 d) =
     \<lparr>do_name = dd_name d, do_hash = dd_hash d, do_num_entries = dd_num_entries d,
      do_num_bytes = dd_num_bytes d, do_last_commit_id = dd_last_commit_id d,
      do_last_modified_seconds = dd_last_modified_seconds d,
      do_last_modified_nanoseconds = dd_last_modified_nanoseconds d,
      do_data_type_counts = dd_data_type_counts d, do_data_type_sizes = dd_data_type_sizes d\<rparr>"
| "dir_node_get_opts (DirV0_19_0 d) =
     \<lparr>do_name = dd_name d, do_hash = dd_hash d, do_num_entries = 0,
      do_num_bytes = dd_num_bytes d, do_last_commit_id = dd_last_commit_id d,
      do_last_modified_seconds = dd_last_modified_seconds d,
      do_last_modified_nanoseconds = dd_last_modified_nanoseconds d,
      do_data_type_counts = dd_data_type_counts d, do_data_type_sizes = dd_data_type_sizes d\<rparr>"

definition dir_node_default :: dir_node where
  "dir_node_default = DirV0_25_0
     \<lparr>dd_node_type = TDir, dd_name = '''', dd_hash = 0, dd_num_bytes = 0,
      dd_last_commit_id = 0, dd_last_modified_seconds = 0, dd_last_modified_nanoseconds = 0,
      dd_data_type_counts = [], dd_data_type_sizes = [], dd_num_entries = 0\<rparr>"

fun dn_name :: "dir_node \<Rightarrow> string" where
  "dn_name (DirV0_25_0 d) = dd_name d"
| "dn_name (DirV0_19_0 d) = dd_name d"

fun dn_set_name :: "string \<Rightarrow> dir_node \<Rightarrow> dir_node" where
  "dn_set_name s (DirV0_25_0 d) = DirV0_25_0 (d\<lparr>dd_name := s\<rparr>)"
| "dn_set_name s (DirV0_19_0 d) = DirV0_19_0 (d\<lparr>dd_name := s\<rparr>)"

fun dn_hash :: "dir_node \<Rightarrow> merkle_hash" where
  "dn_hash (DirV0_25_0 d) = dd_hash d"
| "dn_hash (DirV0_19_0 d) = dd_hash d"

fun dn_num_entries :: "dir_node \<Rightarrow> u64" where
  "dn_num_entries (DirV0_25_0 d) = dd_num_entries d"
| "dn_num_entries (DirV0_19_0 d) = 0"

fun dn_num_bytes :: "dir_node \<Rightarrow> u64" where
  "dn_num_bytes (DirV0_25_0 d) = dd_num_bytes d"
| "dn_num_bytes (DirV0_19_0 d) = dd_num_bytes d"

fun dn_last_commit_id :: "dir_node \<Rightarrow> merkle_hash" where
  "dn_last_commit_id (DirV0_25_0 d) = dd_last_commit_id d"
| "dn_last_commit_id (DirV0_19_0 d) = dd_last_commit_id d"

fun dn_data_type_counts :: "dir_node \<Rightarrow> (string, u64) hash_map" where
  "dn_data_type_counts (DirV0_25_0 d) = dd_data_type_counts d"
| "dn_data_type_counts (DirV0_19_0 d) = dd_data_type_counts d"

fun dn_data_type_sizes :: "dir_node \<Rightarrow> (string, u64) hash_map" where
  "dn_data_type_sizes (DirV0_25_0 d) = dd_data_type_sizes d"
| "dn_data_type_sizes (DirV0_19_0 d) = dd_data_type_sizes d"

text \<open>\<open>num_files\<close>: the sum of the counts per data type.\<close>

definition dn_num_files :: "dir_node \<Rightarrow> u64" where
  "dn_num_files d = sum_list (map snd (dn_data_type_counts d))"

lemma dn_simps [simp, node_simps]:
  "dn_name (dn_set_name s d) = s"
  "dn_hash (dn_set_name s d) = dn_hash d"
  "dn_num_entries (dn_set_name s d) = dn_num_entries d"
  "dn_num_bytes (dn_set_name s d) = dn_num_bytes d"
  "dn_last_commit_id (dn_set_name s d) = dn_last_commit_id d"
  by (cases d; simp)+

section \<open>Virtual nodes\<close>

record vnode_data_v19 =
  vd_hash :: merkle_hash
  vd_node_type :: merkle_tree_node_type

record vnode_data_v25 = vnode_data_v19 +
  vd_num_entries :: u64

datatype vnode = VNodeV0_19_0 vnode_data_v19 | VNodeV0_25_0 vnode_data_v25

record vnode_opts =
  vo_hash :: merkle_hash
  vo_num_entries :: u64

definition vnode_new :: "min_oxen_version \<Rightarrow> vnode_opts \<Rightarrow> vnode res" where
  "vnode_new v opts =
     (if v = V0_19_0
      then Inr (VNodeV0_19_0 \<lparr>vd_hash = vo_hash opts, vd_node_type = TVNode\<rparr>)
      else if v = LATEST \<or> v = V0_25_0
      then Inr (VNodeV0_25_0 \<lparr>vd_hash = vo_hash opts, vd_node_type = TVNode,
                 vd_num_entries = vo_num_entries opts\<rparr>)
      else Inl (Basic ''VNode not supported in this version''))"

fun vnode_get_opts :: "vnode \<Rightarrow> vnode_opts" where
  "vnode_get_opts (VNodeV0_25_0 v) = \<lparr>vo_hash = vd_hash v, vo_num_entries = vd_num_entries v\<rparr>"
| "vnode_get_opts (VNodeV0_19_0 v) = \<lparr>vo_hash = vd_hash v, vo_num_entries = 0\<rparr>"

fun vn_hash :: "vnode \<Rightarrow> merkle_hash" where
  "vn_hash (VNodeV0_25_0 v) = vd_hash v"
| "vn_hash (VNodeV0_19_0 v) = vd_hash v"

fun vn_num_entries :: "vnode \<Rightarrow> u64" where
  "vn_num_entries (VNodeV0_25_0 v) = vd_num_entries v"
| "vn_num_entries (VNodeV0_19_0 v) = 0"

section \<open>Commit nodes and commits\<close>

record commit_node_data =
  cd_hash :: merkle_hash
  cd_node_type :: merkle_tree_node_type
  cd_parent_ids :: "merkle_hash list"
  cd_message :: string
  cd_author :: string
  cd_email :: string
  cd_timestamp :: timestamp

datatype commit_node = CommitV0_25_0 commit_node_data | CommitV0_19_0 commit_node_data

record commit_node_opts =
  co_hash :: merkle_hash
  co_parent_ids :: "merkle_hash list"
  co_email :: string
  co_author :: string
  co_message :: string
  co_timestamp :: timestamp

record commit =
  cm_id :: string
  cm_parent_ids :: "string list"
  cm_message :: string
  cm_author :: string
  cm_email :: string
  cm_timestamp :: timestamp

text \<open>\<open>PartialEq\<close> and \<open>Hash\<close> of \<open>Commit\<close> read the id only.\<close>

definition commit_eq :: "commit \<Rightarrow> commit \<Rightarrow> bool" where
  "commit_eq a b \<longleftrightarrow> cm_id a = cm_id b"

definition commit_hash :: "commit \<Rightarrow> merkle_hash res" where
  "commit_hash c = merkle_hash_from_str (cm_id c)"

fun commit_data :: "commit_node \<Rightarrow> commit_node_data" where
  "commit_data (CommitV0_25_0 d) = d"
| "commit_data (CommitV0_19_0 d) = d"

definition cn_hash :: "commit_node \<Rightarrow> merkle_hash" where
  "cn_hash c = cd_hash (commit_data c)"

definition cn_parent_ids :: "commit_node \<Rightarrow> merkle_hash list" where
  "cn_parent_ids c = cd_parent_ids (commit_data c)"

definition commit_node_new :: "min_oxen_version \<Rightarrow> commit_node_opts \<Rightarrow> commit_node res" where
  "commit_node_new v opts =
     (let d = \<lparr>cd_hash = co_hash opts, cd_node_type = TCommit, cd_parent_ids = co_parent_ids opts,
               cd_message = co_message opts, cd_author = co_author opts, cd_email = co_email opts,
               cd_timestamp = co_timestamp opts\<rparr>
      in if v = V0_19_0 then Inr (CommitV0_19_0 d)
         else if v = LATEST \<or> v = V0_25_0 then Inr (CommitV0_25_0 d)
         else Inl (Basic ''CommitNode not supported in this version''))"

fun commit_node_get_opts :: "commit_node \<Rightarrow> commit_node_opts" where
  "commit_node_get_opts (CommitV0_25_0 d) =
     \<lparr>co_hash = cd_hash d, co_parent_ids = cd_parent_ids d, co_email = cd_email d,
      co_author = cd_author d, co_message = cd_message d, co_timestamp = cd_timestamp d\<rparr>"
| "commit_node_get_opts (CommitV0_19_0 d) =
     \<lparr>co_hash = cd_hash d, co_parent_ids = cd_parent_ids d, co_email = cd_email d,
      co_author = cd_author d, co_message = cd_message d, co_timestamp = cd_timestamp d\<rparr>"

definition commit_node_to_commit :: "commit_node \<Rightarrow> commit" where
  "commit_node_to_commit c =
     \<lparr>cm_id = merkle_hash_to_string (cn_hash c),
      cm_parent_ids = map merkle_hash_to_string (cn_parent_ids c),
      cm_message = cd_message (commit_data c),
      cm_author = cd_author (commit_data c),
      cm_email = cd_email (commit_data c),
      cm_timestamp = cd_timestamp (commit_data c)\<rparr>"

text \<open>\<open>CommitNode::from_commit\<close> unwraps the parsed ids: an id that is no hash is a panic.\<close>

definition commit_node_from_commit :: "commit \<Rightarrow> commit_node res" where
  "commit_node_from_commit c =
     (case (merkle_hash_from_str (cm_id c), rmap merkle_hash_from_str (cm_parent_ids c)) of
        (Inr h, Inr ps) \<Rightarrow> Inr (CommitV0_25_0
          \<lparr>cd_hash = h, cd_node_type = TCommit, cd_parent_ids = ps, cd_message = cm_message c,
           cd_author = cm_author c, cd_email = cm_email c, cd_timestamp = cm_timestamp c\<rparr>)
      | _ \<Rightarrow> Inl (Panic ''unwrap''))"

section \<open>The sum of the nodes and the tree\<close>

record file_chunk_node =
  fc_data :: "byte list"
  fc_node_type :: merkle_tree_node_type
  fc_hash :: merkle_hash

datatype e_merkle_tree_node =
    EFile file_node
  | EDirectory dir_node
  | EVNode vnode
  | EFileChunk file_chunk_node
  | ECommit commit_node

fun node_type :: "e_merkle_tree_node \<Rightarrow> merkle_tree_node_type" where
  "node_type (EFile _) = TFile"
| "node_type (EDirectory _) = TDir"
| "node_type (EVNode _) = TVNode"
| "node_type (EFileChunk _) = TFileChunk"
| "node_type (ECommit _) = TCommit"

fun node_hash :: "e_merkle_tree_node \<Rightarrow> merkle_hash" where
  "node_hash (EFile f) = fn_hash f"
| "node_hash (EDirectory d) = dn_hash d"
| "node_hash (EVNode v) = vn_hash v"
| "node_hash (EFileChunk c) = fc_hash c"
| "node_hash (ECommit c) = cn_hash c"

fun node_is_leaf :: "e_merkle_tree_node \<Rightarrow> bool" where
  "node_is_leaf (EFile _) = True"
| "node_is_leaf (EFileChunk _) = True"
| "node_is_leaf _ = False"

datatype merkle_tree_node =
  MTNode (t_hash: merkle_hash) (t_node: e_merkle_tree_node)
    (t_parent_id: "merkle_hash option") (t_children: "merkle_tree_node list")

text \<open>\<open>PartialEq\<close> of \<open>MerkleTreeNode\<close> compares the hash only.\<close>

definition merkle_tree_node_eq :: "merkle_tree_node \<Rightarrow> merkle_tree_node \<Rightarrow> bool" where
  "merkle_tree_node_eq a b \<longleftrightarrow> t_hash a = t_hash b"

text \<open>A node is put into a directory listing under the name it carries.\<close>

fun node_name :: "e_merkle_tree_node \<Rightarrow> string option" where
  "node_name (EDirectory d) = Some (dn_name d)"
| "node_name (EFile f) = Some (fn_name f)"
| "node_name _ = None"

lemma commit_hash_to_commit [simp]: "commit_hash (commit_node_to_commit c) = Inr (cn_hash c)"
  by (simp add: commit_hash_def commit_node_to_commit_def)

lemma commit_node_from_to_commit:
  "commit_node_from_commit (commit_node_to_commit c) = Inr (CommitV0_25_0 ((commit_data c)\<lparr>cd_node_type := TCommit\<rparr>))"
proof -
  have "rmap merkle_hash_from_str (map merkle_hash_to_string ps) = Inr ps" for ps
    by (induction ps) auto
  then show ?thesis
    by (simp add: commit_node_from_commit_def commit_node_to_commit_def cn_hash_def cn_parent_ids_def)
qed

lemma dir_node_opts_roundtrip:
  "dir_node_new v opts = Inr d \<Longrightarrow> v \<noteq> V0_19_0 \<Longrightarrow> dir_node_get_opts d = opts"
  by (auto simp: dir_node_new_def split: if_splits)

end
