(* ===== verification/Merkle_Tree_Ops.thy ===== *)
theory Merkle_Tree_Ops
  imports Merkle_Nodes
begin

text \<open>
  The operations of \<open>MerkleTreeNode\<close>
  (\<open>model/merkle_tree/node/merkle_tree_node.rs\<close>): predicates and constructors, the listings, the
  search by path with its binary search in a vnode, the walks over an explicit stack. A listing
  collects into a vector (a list), a \<open>HashSet\<close> (a set) or a \<open>HashMap\<close> (an association list),
  threaded through the recursion as the code threads its \<open>&mut\<close> argument. The helpers return
  \<open>Result\<close> but have no failing branch, so the model drops it. \<open>Merkle_Tree_Props\<close> proves
  them against a reference enumeration of the tree.
\<close>

section \<open>Predicates and constructors\<close>

definition is_leaf :: "merkle_tree_node \<Rightarrow> bool" where
  "is_leaf t = (case t_node t of EFile _ \<Rightarrow> True | EFileChunk _ \<Rightarrow> True | _ \<Rightarrow> False)"

definition has_children :: "merkle_tree_node \<Rightarrow> bool" where
  "has_children t \<longleftrightarrow> t_children t \<noteq> []"

definition is_file :: "merkle_tree_node \<Rightarrow> bool" where
  "is_file t = (case t_node t of EFile _ \<Rightarrow> True | _ \<Rightarrow> False)"

definition is_dir :: "merkle_tree_node \<Rightarrow> bool" where
  "is_dir t = (case t_node t of EDirectory _ \<Rightarrow> True | _ \<Rightarrow> False)"

definition is_vnode :: "merkle_tree_node \<Rightarrow> bool" where
  "is_vnode t = (case t_node t of EVNode _ \<Rightarrow> True | _ \<Rightarrow> False)"

fun total_vnodes :: "merkle_tree_node \<Rightarrow> nat" where
  "total_vnodes (MTNode h n p cs) =
     sum_list (map (\<lambda>c. (if is_vnode c then 1 else 0) + total_vnodes c) cs)"

definition num_vnodes :: "merkle_tree_node \<Rightarrow> nat" where
  "num_vnodes t = length (filter is_vnode (t_children t))"

definition latest_commit_id :: "merkle_tree_node \<Rightarrow> merkle_hash res" where
  "latest_commit_id t =
     (case t_node t of
        EFile f \<Rightarrow> Inr (fn_last_commit_id f)
      | EDirectory d \<Rightarrow> Inr (dn_last_commit_id d)
      | _ \<Rightarrow> Inl (Basic ''MerkleTreeNode::latest_commit_id called on invalid node type''))"

definition default_dir :: merkle_tree_node where
  "default_dir = MTNode 0 (EDirectory dir_node_default) None []"

definition default_dir_from_path :: "path \<Rightarrow> merkle_tree_node" where
  "default_dir_from_path p = MTNode 0 (EDirectory (dn_set_name (path_to_str p) dir_node_default)) None []"

definition default_file :: merkle_tree_node where
  "default_file = MTNode 0 (EFile file_node_default) None []"

definition from_file :: "file_node \<Rightarrow> merkle_tree_node" where
  "from_file f = MTNode (fn_hash f) (EFile f) None []"

definition from_dir :: "dir_node \<Rightarrow> merkle_tree_node" where
  "from_dir d = MTNode (dn_hash d) (EDirectory d) None []"

definition maybe_path :: "merkle_tree_node \<Rightarrow> path res" where
  "maybe_path t =
     (case t_node t of
        EDirectory d \<Rightarrow> Inr (components (dn_name d))
      | EFile f \<Rightarrow> Inr (components (fn_name f))
      | _ \<Rightarrow> Inl (Basic ''MerkleTreeNode::maybe_path called on non-file or non-dir node''))"

definition node_commit :: "merkle_tree_node \<Rightarrow> commit_node res" where
  "node_commit t = (case t_node t of ECommit c \<Rightarrow> Inr c
     | _ \<Rightarrow> Inl (Basic ''MerkleTreeNode::commit called on non-commit node''))"

definition node_vnode :: "merkle_tree_node \<Rightarrow> vnode res" where
  "node_vnode t = (case t_node t of EVNode v \<Rightarrow> Inr v
     | _ \<Rightarrow> Inl (Basic ''MerkleTreeNode::vnode called on non-vnode node''))"

definition node_dir :: "merkle_tree_node \<Rightarrow> dir_node res" where
  "node_dir t = (case t_node t of EDirectory d \<Rightarrow> Inr d
     | _ \<Rightarrow> Inl (Basic ''MerkleTreeNode::dir called on non-dir node''))"

definition node_file :: "merkle_tree_node \<Rightarrow> file_node res" where
  "node_file t = (case t_node t of EFile f \<Rightarrow> Inr f
     | _ \<Rightarrow> Inl (Basic ''MerkleTreeNode::file called on non-file node''))"

definition node_file_chunk :: "merkle_tree_node \<Rightarrow> file_chunk_node res" where
  "node_file_chunk t = (case t_node t of EFileChunk c \<Rightarrow> Inr c
     | _ \<Rightarrow> Inl (Basic ''MerkleTreeNode::file_chunk called on non-file_chunk node''))"

section \<open>Listings\<close>

text \<open>The path of a child: a directory extends the path with its name, other nodes keep it.\<close>

definition child_path :: "path \<Rightarrow> merkle_tree_node \<Rightarrow> path" where
  "child_path cur c = (case t_node c of EDirectory d \<Rightarrow> join_str cur (dn_name d) | _ \<Rightarrow> cur)"

fun list_paths_helper :: "merkle_tree_node \<Rightarrow> path \<Rightarrow> path list \<Rightarrow> path list" where
  "list_paths_helper (MTNode h n p cs) cur paths =
     fold (\<lambda>c acc.
         case t_node c of
           EDirectory d \<Rightarrow>
             (let new_path = join_str cur (dn_name d)
              in list_paths_helper c new_path (acc @ [new_path]))
         | _ \<Rightarrow> list_paths_helper c cur acc) cs
       (case n of EFile f \<Rightarrow> paths @ [join_str cur (fn_name f)] | _ \<Rightarrow> paths)"

definition list_paths :: "merkle_tree_node \<Rightarrow> path list" where
  "list_paths t = list_paths_helper t [] []"

fun list_dir_paths_helper :: "merkle_tree_node \<Rightarrow> path \<Rightarrow> path list \<Rightarrow> path list" where
  "list_dir_paths_helper (MTNode h n p cs) cur dirs =
     fold (\<lambda>c acc.
         case t_node c of
           EDirectory d \<Rightarrow> list_dir_paths_helper c (join_str cur (dn_name d)) acc
         | _ \<Rightarrow> list_dir_paths_helper c cur acc) cs
       (case n of EDirectory _ \<Rightarrow> dirs @ [cur] | _ \<Rightarrow> dirs)"

definition list_dir_paths :: "merkle_tree_node \<Rightarrow> path list" where
  "list_dir_paths t = list_dir_paths_helper t [] []"

fun list_file_hashes_helper :: "merkle_tree_node \<Rightarrow> path \<Rightarrow> merkle_hash set \<Rightarrow> merkle_hash set" where
  "list_file_hashes_helper (MTNode h n p cs) cur files =
     fold (\<lambda>c acc.
         case t_node c of
           EDirectory d \<Rightarrow> list_file_hashes_helper c (join_str cur (dn_name d)) acc
         | _ \<Rightarrow> list_file_hashes_helper c cur acc) cs
       (case n of EFile f \<Rightarrow> insert h files | _ \<Rightarrow> files)"

definition list_file_hashes :: "merkle_tree_node \<Rightarrow> merkle_hash set" where
  "list_file_hashes t = list_file_hashes_helper t [] {}"

fun list_file_paths_helper :: "merkle_tree_node \<Rightarrow> path \<Rightarrow> path set \<Rightarrow> path set" where
  "list_file_paths_helper (MTNode h n p cs) cur files =
     fold (\<lambda>c acc.
         case t_node c of
           EDirectory d \<Rightarrow> list_file_paths_helper c (join_str cur (dn_name d)) acc
         | _ \<Rightarrow> list_file_paths_helper c cur acc) cs
       (case n of EFile f \<Rightarrow> insert (join_str cur (fn_name f)) files | _ \<Rightarrow> files)"

definition list_file_paths :: "merkle_tree_node \<Rightarrow> path set" where
  "list_file_paths t = list_file_paths_helper t [] {}"

fun list_files_helper ::
  "merkle_tree_node \<Rightarrow> path \<Rightarrow> (path, merkle_tree_node) hash_map \<Rightarrow> (path, merkle_tree_node) hash_map" where
  "list_files_helper (MTNode h n p cs) cur files =
     fold (\<lambda>c acc.
         case t_node c of
           EDirectory d \<Rightarrow> list_files_helper c (join_str cur (dn_name d)) acc
         | _ \<Rightarrow> list_files_helper c cur acc) cs
       (case n of
          EFile f \<Rightarrow> AList.update (join_str cur (fn_name f)) (MTNode h n p cs) files
        | _ \<Rightarrow> files)"

definition list_files :: "merkle_tree_node \<Rightarrow> (path, merkle_tree_node) hash_map" where
  "list_files t = list_files_helper t [] []"

fun list_files_and_dirs_helper ::
  "merkle_tree_node \<Rightarrow> path \<Rightarrow> (path, merkle_tree_node) hash_map \<Rightarrow> (path, merkle_tree_node) hash_map" where
  "list_files_and_dirs_helper (MTNode h n p cs) cur nodes =
     fold (\<lambda>c acc.
         case t_node c of
           EDirectory d \<Rightarrow>
             (let new_path = join_str cur (dn_name d)
              in list_files_and_dirs_helper c new_path (AList.update new_path c acc))
         | _ \<Rightarrow> list_files_and_dirs_helper c cur acc) cs
       (case n of
          EFile f \<Rightarrow> AList.update (join_str cur (fn_name f)) (MTNode h n p cs) nodes
        | _ \<Rightarrow> nodes)"

definition list_files_and_dirs :: "merkle_tree_node \<Rightarrow> (path, merkle_tree_node) hash_map" where
  "list_files_and_dirs t =
     (case t_node t of
        EDirectory d \<Rightarrow>
          (let current_path = join_str [] (dn_name d)
           in list_files_and_dirs_helper t current_path (AList.update current_path t []))
      | _ \<Rightarrow> list_files_and_dirs_helper t [] [])"

fun list_dir_and_vnode_hashes_helper ::
  "merkle_tree_node \<Rightarrow> path \<Rightarrow> merkle_hash set \<Rightarrow> merkle_hash set" where
  "list_dir_and_vnode_hashes_helper (MTNode h n p cs) cur hashes =
     fold (\<lambda>c acc.
         case t_node c of
           EDirectory d \<Rightarrow> list_dir_and_vnode_hashes_helper c (join_str cur (dn_name d)) acc
         | _ \<Rightarrow> list_dir_and_vnode_hashes_helper c cur acc) cs
       (case n of EDirectory _ \<Rightarrow> insert h hashes | EVNode _ \<Rightarrow> insert h hashes | _ \<Rightarrow> hashes)"

definition list_dir_and_vnode_hashes :: "merkle_tree_node \<Rightarrow> merkle_hash set" where
  "list_dir_and_vnode_hashes t = list_dir_and_vnode_hashes_helper t [] {}"

fun list_shared_dir_and_vnode_hashes_helper ::
  "merkle_tree_node \<Rightarrow> path \<Rightarrow> merkle_hash set \<Rightarrow> merkle_hash set \<Rightarrow> merkle_hash set" where
  "list_shared_dir_and_vnode_hashes_helper (MTNode h n p cs) cur new_hashes old_hashes =
     (if (case n of EDirectory _ \<Rightarrow> True | EVNode _ \<Rightarrow> True | _ \<Rightarrow> False) \<and> h \<in> old_hashes
      then insert h new_hashes
      else fold (\<lambda>c acc.
         case t_node c of
           EDirectory d \<Rightarrow>
             list_shared_dir_and_vnode_hashes_helper c (join_str cur (dn_name d)) acc old_hashes
         | _ \<Rightarrow> list_shared_dir_and_vnode_hashes_helper c cur acc old_hashes) cs new_hashes)"

definition list_shared_dir_and_vnode_hashes ::
  "merkle_tree_node \<Rightarrow> merkle_hash set \<Rightarrow> merkle_hash set" where
  "list_shared_dir_and_vnode_hashes t old_hashes =
     list_shared_dir_and_vnode_hashes_helper t [] {} old_hashes"

text \<open>
  \<open>version_exists\<close> is the version store's answer for a hash, or its error; the first error
  ends the listing.
\<close>

definition list_missing_file_hashes ::
  "(merkle_hash \<Rightarrow> bool res) \<Rightarrow> merkle_tree_node \<Rightarrow> merkle_hash set res" where
  "list_missing_file_hashes version_exists t =
     rfold (\<lambda>c missing.
         case t_node c of
           EFile _ \<Rightarrow> rbind (version_exists (t_hash c))
             (\<lambda>b. Inr (if b then missing else insert (t_hash c) missing))
         | _ \<Rightarrow> Inr missing) (t_children t) {}"

fun get_all_children :: "merkle_tree_node \<Rightarrow> merkle_tree_node list" where
  "get_all_children (MTNode h n p cs) =
     concat (map (\<lambda>c. c # (case t_node c of EDirectory _ \<Rightarrow> get_all_children c | _ \<Rightarrow> [])) cs)"

section \<open>Search by path\<close>

text \<open>
  \<open>slice::binary_search_by\<close> of the standard library: \<open>cmp\<close> orders an element against the
  target, \<open>Inr i\<close> is a match, \<open>Inl i\<close> the insertion point.
\<close>

definition ord_cmp :: "'a::linorder \<Rightarrow> 'a \<Rightarrow> ordering" where
  "ord_cmp a b = (if a < b then Less else if a = b then Equal else Greater)"

function bs_loop :: "('a \<Rightarrow> ordering) \<Rightarrow> 'a list \<Rightarrow> nat \<Rightarrow> nat \<Rightarrow> nat" where
  "bs_loop cmp xs base sz =
     (if sz > 1
      then (let half = sz div 2; mid = base + half
            in bs_loop cmp xs (if cmp (xs ! mid) = Greater then base else mid) (sz - half))
      else base)"
  by pat_completeness auto
termination
  by (relation "measure (\<lambda>(cmp, xs, base, sz). sz)") auto

declare bs_loop.simps [simp del]

definition binary_search_by :: "('a \<Rightarrow> ordering) \<Rightarrow> 'a list \<Rightarrow> nat + nat" where
  "binary_search_by cmp xs =
     (if xs = [] then Inl 0
      else (let base = bs_loop cmp xs 0 (length xs)
            in case cmp (xs ! base) of
                 Equal \<Rightarrow> Inr base
               | Less \<Rightarrow> Inl (base + 1)
               | Greater \<Rightarrow> Inl base))"

definition child_search_name :: "merkle_tree_node \<Rightarrow> string" where
  "child_search_name c = (case node_name (t_node c) of Some s \<Rightarrow> s | None \<Rightarrow> '''')"

definition search_children :: "string \<Rightarrow> merkle_tree_node list \<Rightarrow> nat + nat" where
  "search_children target cs = binary_search_by (\<lambda>c. ord_cmp (child_search_name c) target) cs"

fun first_some :: "'a option list \<Rightarrow> 'a option" where
  "first_some [] = None"
| "first_some (Some x # xs) = Some x"
| "first_some (None # xs) = first_some xs"

text \<open>
  \<open>get_by_path_helper\<close>: \<open>visit\<close> holds the answer of each child, of which the vnode branch
  reads the one its binary search finds and the loop the first that is \<open>Some\<close>.
\<close>

fun get_by_path_helper :: "merkle_tree_node \<Rightarrow> path \<Rightarrow> path \<Rightarrow> merkle_tree_node option" where
  "get_by_path_helper (MTNode h n p cs) traversed_path pth =
     (if length traversed_path > length pth then None
      else
        (let visit = map (\<lambda>c. get_by_path_helper c (child_path traversed_path c) pth) cs;
             by_search =
               (case n of
                  EVNode _ \<Rightarrow>
                    (let target_name = (case path_file_name pth of Some s \<Rightarrow> s | None \<Rightarrow> '''')
                     in case search_children target_name cs of
                          Inr index \<Rightarrow> visit ! index
                        | Inl _ \<Rightarrow> None)
                | _ \<Rightarrow> None);
             by_loop = (case by_search of Some r \<Rightarrow> Some r | None \<Rightarrow> first_some visit)
         in case n of
              EFile f \<Rightarrow>
                (if join_str traversed_path (fn_name f) = pth then Some (MTNode h n p cs) else by_loop)
            | EDirectory d \<Rightarrow>
                (if traversed_path = pth then Some (MTNode h n p cs) else by_loop)
            | _ \<Rightarrow> by_loop))"

definition get_by_path :: "merkle_tree_node \<Rightarrow> path \<Rightarrow> merkle_tree_node option" where
  "get_by_path t pth = get_by_path_helper t [] pth"

definition get_vnodes_for_dir :: "merkle_tree_node \<Rightarrow> path \<Rightarrow> merkle_tree_node list res" where
  "get_vnodes_for_dir t pth =
     (case get_by_path t pth of
        None \<Rightarrow> Inl (Basic ''Merkle tree directory not found'')
      | Some node \<Rightarrow>
          if node_type (t_node node) \<noteq> TDir
          then Inl (Basic ''get_vnodes_for_dir Merkle tree node is not a directory'')
          else Inr (filter is_vnode (t_children node)))"

text \<open>
  \<open>get_nodes_along_paths_helper\<close>: as above, and the vnode branch drops the first of the
  remaining paths when its search finds a directory, for the search and for the loop after it.
\<close>

fun first_found :: "('a option \<times> 'b list) list \<Rightarrow> ('a \<times> 'b list) option" where
  "first_found [] = None"
| "first_found ((Some x, ys) # rs) = Some (x, ys)"
| "first_found ((None, ys) # rs) = first_found rs"

fun get_nodes_along_paths_helper ::
  "merkle_tree_node \<Rightarrow> path \<Rightarrow> path list \<Rightarrow> merkle_tree_node option \<times> merkle_tree_node list" where
  "get_nodes_along_paths_helper (MTNode h n p cs) traversed_path pcs =
     (let self = MTNode h n p cs;
          visit = map (\<lambda>c pcs'. get_nodes_along_paths_helper c (child_path traversed_path c) pcs') cs;
          loop = (\<lambda>pcs'. case first_found (map (\<lambda>v. v pcs') visit) of
                     Some (node, ns) \<Rightarrow> (Some node, self # ns)
                   | None \<Rightarrow> (None, []))
      in if length traversed_path > length pcs then (None, [])
         else if pcs = [] then (None, [])
         else if (case n of EFile f \<Rightarrow> join_str traversed_path (fn_name f) = last pcs | _ \<Rightarrow> False)
           then (Some self, [self])
         else if (case n of EDirectory _ \<Rightarrow> traversed_path = last pcs | _ \<Rightarrow> False)
           then (Some self, [self])
         else
           (case n of
              EVNode _ \<Rightarrow>
                (let target_name = (case path_file_name (hd pcs) of Some s \<Rightarrow> s | None \<Rightarrow> '''')
                 in case search_children target_name cs of
                      Inl _ \<Rightarrow> loop pcs
                    | Inr index \<Rightarrow>
                        (case t_node (cs ! index) of
                           EDirectory d \<Rightarrow>
                             (if dn_name d = target_name
                              then (case (visit ! index) (tl pcs) of
                                      (Some node, ns) \<Rightarrow> (Some node, self # ns)
                                    | (None, _) \<Rightarrow> loop (tl pcs))
                              else loop pcs)
                         | _ \<Rightarrow>
                             (case (visit ! index) pcs of
                                (Some node, ns) \<Rightarrow> (Some node, self # ns)
                              | (None, _) \<Rightarrow> loop pcs)))
            | _ \<Rightarrow> loop pcs))"

definition get_nodes_along_paths ::
  "merkle_tree_node \<Rightarrow> path list \<Rightarrow> merkle_tree_node option \<times> merkle_tree_node list" where
  "get_nodes_along_paths t paths = get_nodes_along_paths_helper t [] paths"

section \<open>Walks\<close>

text \<open>The nodes in the order in which the callback sees them: a stack, children pushed in reverse.\<close>

function walk_loop :: "merkle_tree_node list \<Rightarrow> merkle_tree_node list" where
  "walk_loop [] = []"
| "walk_loop (node # stack) = node # walk_loop (t_children node @ stack)"
  by pat_completeness auto

fun tree_size :: "merkle_tree_node \<Rightarrow> nat" where
  "tree_size (MTNode h n p cs) = Suc (sum_list (map tree_size cs))"

lemma tree_size_eq: "tree_size t = Suc (sum_list (map tree_size (t_children t)))"
  by (cases t) simp

termination walk_loop
  by (relation "measure (\<lambda>st. sum_list (map tree_size st))") (auto simp: tree_size_eq)

definition walk_tree :: "merkle_tree_node \<Rightarrow> merkle_tree_node list" where
  "walk_tree t = walk_loop [t]"

lemma sum_list_filter_le: "sum_list (map f (filter P xs)) \<le> sum_list (map (f :: 'a \<Rightarrow> nat) xs)"
  by (induction xs) auto

function walk_no_leaves_loop :: "merkle_tree_node list \<Rightarrow> merkle_tree_node list" where
  "walk_no_leaves_loop [] = []"
| "walk_no_leaves_loop (node # stack) =
     node # walk_no_leaves_loop (filter (\<lambda>c. \<not> is_leaf c) (t_children node) @ stack)"
  by pat_completeness auto
termination
proof (relation "measure (\<lambda>st. sum_list (map tree_size st))")
  fix node :: merkle_tree_node and stack :: "merkle_tree_node list"
  have "sum_list (map tree_size (filter (\<lambda>c. \<not> is_leaf c) (t_children node)))
      < tree_size node"
    using sum_list_filter_le [of tree_size "\<lambda>c. \<not> is_leaf c" "t_children node"]
    by (simp add: tree_size_eq)
  then show "(filter (\<lambda>c. \<not> is_leaf c) (t_children node) @ stack, node # stack)
      \<in> measure (\<lambda>st. sum_list (map tree_size st))"
    by simp
qed simp

definition walk_tree_without_leaves :: "merkle_tree_node \<Rightarrow> merkle_tree_node list" where
  "walk_tree_without_leaves t = walk_no_leaves_loop [t]"

end
