(* ===== verification/Node_Db.thy ===== *)
theory Node_Db
  imports Merkle_Nodes
begin

text \<open>
  \<open>MerkleNodeDB\<close> (\<open>core/db/merkle_node/merkle_node_db.rs\<close>): one directory per node with
  a \<open>node\<close> file (type, parent, data, then a lookup table of the children) and a
  \<open>children\<close> file (the serialized children one after the other). The file system is a set of
  directories and a map from paths to contents; a \<open>File\<close> is a path with its position. The
  MessagePack functions of \<open>rmp_serde\<close> are the fields of a \<open>codec\<close>, an argument of the
  definitions. Failures of the disk itself (a full disk, a denied access) are not modelled; a
  missing file and a short read are. So \<open>write_node\<close> and \<open>add_child\<close> are the code without the error
  returns of \<open>write_all\<close>: that a write fails half-way, with the entry of a child in the table and its
  data missing, is outside of the model.
\<close>

section \<open>The file system\<close>

record fs =
  fs_dirs :: "path set"
  fs_files :: "path \<Rightarrow> byte list option"

definition path_exists :: "path \<Rightarrow> fs \<Rightarrow> bool" where
  "path_exists p f \<longleftrightarrow> p \<in> fs_dirs f \<or> fs_files f p \<noteq> None"

definition create_dir_all :: "path \<Rightarrow> fs \<Rightarrow> fs" where
  "create_dir_all p f = (if path_exists p f then f else f\<lparr>fs_dirs := fs_dirs f \<union> set (path_ancestors p)\<rparr>)"

record file_handle =
  fh_path :: path
  fh_pos :: nat

text \<open>\<open>File::create\<close> truncates; \<open>File::open\<close> needs the file.\<close>

definition file_create :: "path \<Rightarrow> fs \<Rightarrow> file_handle \<times> fs" where
  "file_create p f = (\<lparr>fh_path = p, fh_pos = 0\<rparr>, f\<lparr>fs_files := (fs_files f)(p \<mapsto> [])\<rparr>)"

definition open_file :: "path \<Rightarrow> fs \<Rightarrow> file_handle res" where
  "open_file p f =
     (if fs_files f p = None then Inl (Basic ''Failed to open file'')
      else Inr \<lparr>fh_path = p, fh_pos = 0\<rparr>)"

definition file_content :: "path \<Rightarrow> fs \<Rightarrow> byte list" where
  "file_content p f = (case fs_files f p of None \<Rightarrow> [] | Some bs \<Rightarrow> bs)"

definition write_all :: "file_handle \<Rightarrow> byte list \<Rightarrow> fs \<Rightarrow> file_handle \<times> fs" where
  "write_all fh bs f =
     (let old = file_content (fh_path fh) f;
          new = take (fh_pos fh) old @ bs @ drop (fh_pos fh + length bs) old
      in (fh\<lparr>fh_pos := fh_pos fh + length bs\<rparr>, f\<lparr>fs_files := (fs_files f)(fh_path fh \<mapsto> new)\<rparr>))"

definition read_to_end :: "file_handle \<Rightarrow> fs \<Rightarrow> byte list \<times> file_handle" where
  "read_to_end fh f =
     (let bs = file_content (fh_path fh) f
      in (drop (fh_pos fh) bs, fh\<lparr>fh_pos := max (fh_pos fh) (length bs)\<rparr>))"

text \<open>\<open>read_exact\<close> on a cursor: \<open>n\<close> bytes and what is left, or the end of the input.\<close>

definition read_exact :: "nat \<Rightarrow> byte list \<Rightarrow> (byte list \<times> byte list) res" where
  "read_exact n bs =
     (if length bs < n then Inl (DbIo ''failed to fill whole buffer'')
      else Inr (take n bs, drop n bs))"

lemma read_exact_append [simp]: "length xs = n \<Longrightarrow> read_exact n (xs @ ys) = Inr (xs, ys)"
  by (simp add: read_exact_def)

lemma read_exact_Nil [simp]: "n > 0 \<Longrightarrow> read_exact n [] = Inl (DbIo ''failed to fill whole buffer'')"
  by (simp add: read_exact_def)

section \<open>Serialization\<close>

text \<open>
  \<open>to_msgpack_bytes\<close>, and \<open>rmp_serde::from_slice\<close> at the types of the nodes and at the older
  structures the \<open>deserialize\<close> functions fall back to.
\<close>

record codec =
  to_msgpack_bytes :: "e_merkle_tree_node \<Rightarrow> byte list res"
  slice_file :: "byte list \<Rightarrow> file_node option"
  slice_file_data :: "byte list \<Rightarrow> file_node_data option"
  slice_dir :: "byte list \<Rightarrow> dir_node option"
  slice_dir_data :: "byte list \<Rightarrow> dir_data_v19 option"
  slice_vnode :: "byte list \<Rightarrow> vnode option"
  slice_vnode_data :: "byte list \<Rightarrow> vnode_data_v19 option"
  slice_commit :: "byte list \<Rightarrow> commit_node option"
  slice_commit_data :: "byte list \<Rightarrow> commit_node_data option"
  slice_chunk :: "byte list \<Rightarrow> file_chunk_node option"

definition or_decode :: "('a \<Rightarrow> 'b) \<Rightarrow> 'a option \<Rightarrow> 'b res" where
  "or_decode f x = (case x of None \<Rightarrow> Inl DbDecode | Some y \<Rightarrow> Inr (f y))"

definition file_node_deserialize :: "codec \<Rightarrow> byte list \<Rightarrow> file_node res" where
  "file_node_deserialize c data =
     (case slice_file c data of
        Some n \<Rightarrow> Inr n
      | None \<Rightarrow> or_decode FileV0_25_0 (slice_file_data c data))"

definition dir_node_deserialize :: "codec \<Rightarrow> byte list \<Rightarrow> dir_node res" where
  "dir_node_deserialize c data =
     (case slice_dir c data of
        Some n \<Rightarrow> Inr n
      | None \<Rightarrow> or_decode DirV0_19_0 (slice_dir_data c data))"

definition vnode_deserialize :: "codec \<Rightarrow> byte list \<Rightarrow> vnode res" where
  "vnode_deserialize c data =
     (case slice_vnode c data of
        Some n \<Rightarrow> Inr n
      | None \<Rightarrow> or_decode VNodeV0_19_0 (slice_vnode_data c data))"

definition commit_node_deserialize :: "codec \<Rightarrow> byte list \<Rightarrow> commit_node res" where
  "commit_node_deserialize c data =
     (case slice_commit c data of
        Some n \<Rightarrow> Inr n
      | None \<Rightarrow> or_decode CommitV0_19_0 (slice_commit_data c data))"

definition file_chunk_node_deserialize :: "codec \<Rightarrow> byte list \<Rightarrow> file_chunk_node res" where
  "file_chunk_node_deserialize c data = or_decode (\<lambda>n. n) (slice_chunk c data)"

text \<open>\<open>MerkleNodeDB::to_node\<close> and \<open>MerkleTreeNode::deserialize_id\<close>.\<close>

fun db_to_node :: "codec \<Rightarrow> merkle_tree_node_type \<Rightarrow> byte list \<Rightarrow> e_merkle_tree_node res" where
  "db_to_node c TCommit data = rbind (commit_node_deserialize c data) (\<lambda>n. Inr (ECommit n))"
| "db_to_node c TDir data = rbind (dir_node_deserialize c data) (\<lambda>n. Inr (EDirectory n))"
| "db_to_node c TFile data = rbind (file_node_deserialize c data) (\<lambda>n. Inr (EFile n))"
| "db_to_node c TVNode data = rbind (vnode_deserialize c data) (\<lambda>n. Inr (EVNode n))"
| "db_to_node c TFileChunk data = rbind (file_chunk_node_deserialize c data) (\<lambda>n. Inr (EFileChunk n))"

fun deserialize_id :: "codec \<Rightarrow> byte list \<Rightarrow> merkle_tree_node_type \<Rightarrow> merkle_hash res" where
  "deserialize_id c data TCommit = rbind (commit_node_deserialize c data) (\<lambda>n. Inr (cn_hash n))"
| "deserialize_id c data TVNode = rbind (vnode_deserialize c data) (\<lambda>n. Inr (vn_hash n))"
| "deserialize_id c data TDir = rbind (dir_node_deserialize c data) (\<lambda>n. Inr (dn_hash n))"
| "deserialize_id c data TFile = rbind (file_node_deserialize c data) (\<lambda>n. Inr (fn_hash n))"
| "deserialize_id c data TFileChunk = rbind (file_chunk_node_deserialize c data) (\<lambda>n. Inr (fc_hash n))"

text \<open>\<open>MerkleTreeNodeIdType::node_type\<close> reads the type stored in the node's data.\<close>

fun id_node_type :: "e_merkle_tree_node \<Rightarrow> merkle_tree_node_type" where
  "id_node_type (EFile f) = fd_node_type (file_data f)"
| "id_node_type (EDirectory (DirV0_25_0 d)) = dd_node_type d"
| "id_node_type (EDirectory (DirV0_19_0 d)) = dd_node_type d"
| "id_node_type (EVNode (VNodeV0_19_0 v)) = vd_node_type v"
| "id_node_type (EVNode (VNodeV0_25_0 v)) = vd_node_type v"
| "id_node_type (EFileChunk c) = fc_node_type c"
| "id_node_type (ECommit c) = cd_node_type (commit_data c)"

lemma deserialize_id_node: "db_to_node c (node_type n) data = Inr n \<Longrightarrow> deserialize_id c data (node_type n) = Inr (node_hash n)"
  by (cases n) (auto simp: rbind_eq_Inr)

section \<open>The lookup table\<close>

text \<open>An entry of the table: hash, type byte, offset and length of the child's data.\<close>

type_synonym offset_entry = "merkle_hash \<times> byte \<times> u64 \<times> u64"

record merkle_node_lookup =
  lk_data_type :: byte
  lk_parent_id :: merkle_hash
  lk_data :: "byte list"
  lk_num_children :: u64
  lk_offsets :: "offset_entry list"

text \<open>The \<open>while\<close> loop of \<open>MerkleNodeLookup::load\<close>: it ends when no byte is left for a type.\<close>

function load_offsets :: "byte list \<Rightarrow> offset_entry list res" where
  "load_offsets bs =
     (case read_exact 1 bs of
        Inl _ \<Rightarrow> Inr []
      | Inr (dtype, r1) \<Rightarrow>
          rbind (read_exact 16 r1) (\<lambda>(hash, r2).
          rbind (read_exact 8 r2) (\<lambda>(offset, r3).
          rbind (read_exact 8 r3) (\<lambda>(len, r4).
          rbind (load_offsets r4) (\<lambda>offsets.
            Inr ((word_of_nat (from_le hash), hd dtype, word_of_nat (from_le offset),
                  word_of_nat (from_le len)) # offsets))))))"
  by pat_completeness auto
termination
  by (relation "measure length") (auto simp: read_exact_def split: if_splits)

declare load_offsets.simps [simp del]

definition lookup_load :: "byte list \<Rightarrow> merkle_node_lookup res" where
  "lookup_load bs =
     rbind (read_exact 1 bs) (\<lambda>(dtype, r1).
     rbind (read_exact 16 r1) (\<lambda>(parent_id, r2).
     rbind (read_exact 4 r2) (\<lambda>(data_len, r3).
     rbind (read_exact (from_le data_len) r3) (\<lambda>(data, r4).
     rbind (load_offsets r4) (\<lambda>offsets.
       Inr \<lparr>lk_data_type = hd dtype, lk_parent_id = word_of_nat (from_le parent_id), lk_data = data,
            lk_num_children = word_of_nat (length offsets), lk_offsets = offsets\<rparr>)))))"

section \<open>The database of one node\<close>

record merkle_node_db =
  db_dtype :: merkle_tree_node_type
  db_node_id :: merkle_hash
  db_parent_id :: "merkle_hash option"
  db_read_only :: bool
  db_path :: path
  db_node_file :: "file_handle option"
  db_children_file :: "file_handle option"
  db_lookup :: "merkle_node_lookup option"
  db_data :: "byte list"
  db_num_children :: u64
  db_data_offset :: u64

definition node_file_name :: component where
  "node_file_name = Normal ''node''"

definition children_file_name :: component where
  "children_file_name = Normal ''children''"

definition nodes_dir :: "path \<Rightarrow> path" where
  "nodes_dir repo_path = repo_path @ [Normal ''.oxen'', Normal ''tree'', Normal ''nodes'']"

definition node_db_path :: "path \<Rightarrow> merkle_hash \<Rightarrow> path" where
  "node_db_path repo_path hash = path_join (nodes_dir repo_path) (node_db_prefix hash)"

definition db_exists :: "path \<Rightarrow> merkle_hash \<Rightarrow> fs \<Rightarrow> bool" where
  "db_exists repo_path hash f =
     (let db_path = node_db_path repo_path hash
      in path_exists (path_join db_path [node_file_name]) f \<and>
         path_exists (path_join db_path [children_file_name]) f)"

definition db_get_num_children :: "merkle_node_db \<Rightarrow> u64" where
  "db_get_num_children db = (case db_lookup db of Some l \<Rightarrow> lk_num_children l | None \<Rightarrow> db_num_children db)"

definition db_get_data :: "merkle_node_db \<Rightarrow> byte list" where
  "db_get_data db = (case db_lookup db of Some l \<Rightarrow> lk_data l | None \<Rightarrow> db_data db)"

definition db_node :: "codec \<Rightarrow> merkle_node_db \<Rightarrow> e_merkle_tree_node res" where
  "db_node c db = db_to_node c (db_dtype db) (db_get_data db)"

text \<open>\<open>open\<close>: a missing directory is created, also by a reader.\<close>

definition db_open :: "path \<Rightarrow> bool \<Rightarrow> (fs, merkle_node_db) st" where
  "db_open path read_only f =
     (let f1 = (if path_exists path f then f else create_dir_all path f);
          node_path = path_join path [node_file_name];
          children_path = path_join path [children_file_name];
          mk = (\<lambda>nf cf lookup dtype.
            \<lparr>db_dtype = dtype, db_node_id = 0, db_parent_id = map_option lk_parent_id lookup,
             db_read_only = read_only, db_path = path, db_node_file = Some nf,
             db_children_file = Some cf, db_lookup = lookup, db_data = [], db_num_children = 0,
             db_data_offset = 0\<rparr>)
      in if read_only
         then (rbind (open_file node_path f1) (\<lambda>nf.
               rbind (open_file children_path f1) (\<lambda>cf.
                 (let (bs, nf') = read_to_end nf f1
                  in rbind (lookup_load bs) (\<lambda>l.
                     rbind (node_type_from_u8 (lk_data_type l)) (\<lambda>dtype.
                       Inr (mk nf' cf (Some l) dtype)))))), f1)
         else (let (nf, f2) = file_create node_path f1;
                   (cf, f3) = file_create children_path f2
               in (Inr (mk nf cf None TCommit), f3)))"

definition open_read_only :: "path \<Rightarrow> merkle_hash \<Rightarrow> (fs, merkle_node_db) st" where
  "open_read_only repo_path hash = db_open (node_db_path repo_path hash) True"

text \<open>\<open>close\<close> only drops the handles: what was written is on disk already in this model.\<close>

definition db_close :: "merkle_node_db \<Rightarrow> unit res \<times> merkle_node_db" where
  "db_close db =
     (if db_node_file db = None then (Inl DbCloseBeforeOpen, db)
      else if db_children_file db = None then (Inl DbCloseBeforeOpen, db)
      else (Inr (), db\<lparr>db_node_file := None, db_children_file := None, db_lookup := None\<rparr>))"

text \<open>A method of an open database works on its fields and on the file system.\<close>

type_synonym 'a db_method = "(merkle_node_db \<times> fs, 'a) st"

text \<open>
  \<open>write_node\<close>: type, parent (16 zero bytes for none), the length of the data as 32 bits (a
  longer length is cut), the data. The first two fields are written before the node is serialized.
\<close>

definition write_node :: "codec \<Rightarrow> e_merkle_tree_node \<Rightarrow> merkle_hash option \<Rightarrow> unit db_method" where
  "write_node c node parent_id = (\<lambda>(db, f).
     if db_read_only db then (Inl DbReadOnly, db, f)
     else if db_data_offset db > 0 then (Inl DbIllegalOperationWriteSizeFirst, db, f)
     else case db_node_file db of
       None \<Rightarrow> (Inl DbWriteBeforeOpen, db, f)
     | Some nf \<Rightarrow>
         (let head = node_type_to_u8 (id_node_type node) #
                (case parent_id of Some p \<Rightarrow> to_le 16 (unat p) | None \<Rightarrow> replicate 16 0);
              (nf1, f1) = write_all nf head f
          in case to_msgpack_bytes c node of
               Inl e \<Rightarrow> (Inl e, db\<lparr>db_node_file := Some nf1\<rparr>, f1)
             | Inr buf \<Rightarrow>
                 (let (nf2, f2) = write_all nf1 (to_le 4 (length buf mod 2 ^ 32)) f1;
                      (nf3, f3) = write_all nf2 buf f2
                  in (Inr (), db\<lparr>db_node_file := Some nf3, db_dtype := id_node_type node,
                                db_node_id := node_hash node, db_parent_id := parent_id\<rparr>, f3))))"

definition add_child :: "codec \<Rightarrow> e_merkle_tree_node \<Rightarrow> unit db_method" where
  "add_child c item = (\<lambda>(db, f).
     if db_read_only db then (Inl DbReadOnly, db, f)
     else case (db_node_file db, db_children_file db) of
       (Some nf, Some cf) \<Rightarrow>
         (case to_msgpack_bytes c item of
            Inl e \<Rightarrow> (Inl e, db, f)
          | Inr buf \<Rightarrow>
              (let data_len = word_of_nat (length buf) :: u64;
                   entry = node_type_to_u8 (id_node_type item) # to_le 16 (unat (node_hash item)) @
                     to_le 8 (unat (db_data_offset db)) @ to_le 8 (unat data_len);
                   (nf', f1) = write_all nf entry f;
                   (cf', f2) = write_all cf buf f1
               in (Inr (), db\<lparr>db_node_file := Some nf', db_children_file := Some cf',
                             db_data_offset := db_data_offset db + data_len\<rparr>, f2)))
     | _ \<Rightarrow> (Inl DbWriteBeforeOpen, db, f))"

definition open_read_write ::
  "codec \<Rightarrow> path \<Rightarrow> e_merkle_tree_node \<Rightarrow> merkle_hash option \<Rightarrow> (fs, merkle_node_db) st" where
  "open_read_write c repo_path node parent_id f =
     (let path = node_db_path repo_path (node_hash node);
          f1 = (if path_exists path f then f else create_dir_all path f)
      in case db_open path False f1 of
           (Inl e, f2) \<Rightarrow> (Inl e, f2)
         | (Inr db, f2) \<Rightarrow>
             (case write_node c node parent_id (db, f2) of
                (Inl e, db', f3) \<Rightarrow> (Inl e, f3)
              | (Inr _, db', f3) \<Rightarrow> (Inr db', f3)))"

text \<open>One child of \<open>map\<close>: seek to the offset, read the length, decode.\<close>

definition map_entry ::
  "codec \<Rightarrow> merkle_hash \<Rightarrow> byte list \<Rightarrow> offset_entry \<Rightarrow> (merkle_hash \<times> merkle_tree_node) res" where
  "map_entry c parent_id blob = (\<lambda>(hash, dtype, offset, len).
     rbind (read_exact (unat len) (drop (unat offset) blob)) (\<lambda>(data, _).
     rbind (node_type_from_u8 dtype) (\<lambda>ty.
     rbind (db_to_node c ty data) (\<lambda>node.
       Inr (hash, MTNode hash node (Some parent_id) [])))))"

definition db_map :: "codec \<Rightarrow> (merkle_hash \<times> merkle_tree_node) list db_method" where
  "db_map c = (\<lambda>(db, f).
     case db_lookup db of
       None \<Rightarrow> (Inl DbReadBeforeOpen, db, f)
     | Some lookup \<Rightarrow>
         (case db_children_file db of
            None \<Rightarrow> (Inl DbWriteBeforeOpen, db, f)
          | Some cf \<Rightarrow>
              (case rbind (node_type_from_u8 (lk_data_type lookup)) (deserialize_id c (lk_data lookup)) of
                 Inl e \<Rightarrow> (Inl e, db, f)
               | Inr parent_id \<Rightarrow>
                   (let (blob, cf') = read_to_end cf f
                    in (rmap (map_entry c parent_id blob) (lk_offsets lookup),
                        db\<lparr>db_children_file := Some cf'\<rparr>, f)))))"

section \<open>Reading and writing whole nodes\<close>

text \<open>\<open>MerkleTreeNode::from_hash_uncached\<close> and \<open>read_children_from_hash_uncached\<close>.\<close>

definition from_hash_uncached :: "codec \<Rightarrow> path \<Rightarrow> merkle_hash \<Rightarrow> (fs, merkle_tree_node) st" where
  "from_hash_uncached c repo_path hash f =
     (case open_read_only repo_path hash f of
        (Inl e, f1) \<Rightarrow> (Inl e, f1)
      | (Inr db, f1) \<Rightarrow>
          (rbind (db_node c db) (\<lambda>node. Inr (MTNode hash node (db_parent_id db) [])), f1))"

definition read_children_from_hash_uncached ::
  "codec \<Rightarrow> path \<Rightarrow> merkle_hash \<Rightarrow> (fs, (merkle_hash \<times> merkle_tree_node) list) st" where
  "read_children_from_hash_uncached c repo_path hash f =
     (case open_read_only repo_path hash f of
        (Inl e, f1) \<Rightarrow> (Inr [], f1)
      | (Inr db, f1) \<Rightarrow> (case db_map c (db, f1) of (r, db', f2) \<Rightarrow> (r, f2)))"

text \<open>The sequence every writer follows: open for writing, add the children, close.\<close>

definition write_node_db ::
  "codec \<Rightarrow> path \<Rightarrow> e_merkle_tree_node \<Rightarrow> merkle_hash option \<Rightarrow> e_merkle_tree_node list \<Rightarrow> (fs, unit) st" where
  "write_node_db c repo_path node parent_id kids f =
     (case open_read_write c repo_path node parent_id f of
        (Inl e, f1) \<Rightarrow> (Inl e, f1)
      | (Inr db, f1) \<Rightarrow> (case sfor (add_child c) kids (db, f1) of (r, db', f2) \<Rightarrow> (r, f2)))"

end
