(* ===== verification/Merkle_Tree_Props.thy ===== *)
theory Merkle_Tree_Props
  imports Merkle_Tree_Ops
begin

text \<open>
  The shape of the trees the commit writer produces (\<open>wf_tree\<close>), the reference enumeration of
  their files and directories (\<open>tree_entries\<close>), and the operations of \<open>Merkle_Tree_Ops\<close>
  proved against it.
\<close>

section \<open>Well-formed trees\<close>

text \<open>
  A commit has one child, the root directory with an empty name; a directory has vnodes, whose
  children together have distinct names; a vnode has files and directories with valid names in
  strictly increasing order; files and chunks have no children; the stored hash is the node's.
\<close>

fun wf_tree :: "merkle_tree_node \<Rightarrow> bool" where
  "wf_tree (MTNode h n p cs) \<longleftrightarrow>
     h = node_hash n \<and> list_all wf_tree cs \<and>
     (case n of
        EFile _ \<Rightarrow> cs = []
      | EFileChunk _ \<Rightarrow> cs = []
      | ECommit _ \<Rightarrow> (case cs of [d] \<Rightarrow> is_dir d \<and> child_search_name d = '''' | _ \<Rightarrow> False)
      | EDirectory _ \<Rightarrow>
          list_all is_vnode cs \<and>
          distinct (concat (map (\<lambda>v. map child_search_name (t_children v)) cs))
      | EVNode _ \<Rightarrow>
          list_all (\<lambda>c. (is_file c \<or> is_dir c) \<and> valid_name (child_search_name c)) cs \<and>
          sorted_wrt (<) (map child_search_name cs))"

text \<open>Every file and every directory of a tree with its path, in depth-first order.\<close>

fun tree_entries :: "merkle_tree_node \<Rightarrow> path \<Rightarrow> (path \<times> merkle_tree_node) list" where
  "tree_entries (MTNode h n p cs) cur =
     (case n of
        EFile f \<Rightarrow> [(join_str cur (fn_name f), MTNode h n p cs)]
      | EDirectory _ \<Rightarrow> [(cur, MTNode h n p cs)]
      | _ \<Rightarrow> []) @
     concat (map (\<lambda>c. tree_entries c (child_path cur c)) cs)"

fun tree_nodes :: "merkle_tree_node \<Rightarrow> merkle_tree_node list" where
  "tree_nodes (MTNode h n p cs) = MTNode h n p cs # concat (map tree_nodes cs)"

lemmas kind_defs = is_file_def is_dir_def is_vnode_def is_leaf_def

lemma first_some_map_of: "first_some (map (\<lambda>c. map_of (f c) x) cs) = map_of (concat (map f cs)) x"
proof (induction cs)
  case (Cons c cs)
  then show ?case by (cases "map_of (f c) x") (auto simp: map_add_def)
qed simp

lemma bs_loop_bound: "sz > 0 \<Longrightarrow> bs_loop cmp xs base sz < base + sz"
proof (induction cmp xs base sz rule: bs_loop.induct)
  case (1 cmp xs base sz)
  show ?case
  proof (cases "sz > 1")
    case True
    let ?b = "if cmp (xs ! (base + sz div 2)) = Greater then base else base + sz div 2"
    have "bs_loop cmp xs ?b (sz - sz div 2) < ?b + (sz - sz div 2)"
      using 1 True by auto
    moreover have "?b + (sz - sz div 2) \<le> base + sz" by auto
    ultimately show ?thesis using True by (simp add: bs_loop.simps [of cmp xs base sz] Let_def)
  next
    case False
    with 1 show ?thesis by (simp add: bs_loop.simps [of cmp xs base sz])
  qed
qed

lemma binary_search_by_InrD: "binary_search_by cmp xs = Inr i \<Longrightarrow> i < length xs \<and> cmp (xs ! i) = Equal"
  using bs_loop_bound [of "length xs" cmp xs 0]
  by (auto simp: binary_search_by_def Let_def split: if_splits ordering.splits)

lemma search_children_InrD:
  "search_children s cs = Inr i \<Longrightarrow> i < length cs \<and> child_search_name (cs ! i) = s"
  unfolding search_children_def
  by (drule binary_search_by_InrD) (auto simp: ord_cmp_def split: if_splits)

section \<open>Paths of the entries\<close>

text \<open>Every entry under \<open>cur\<close> lies below \<open>cur\<close>; a named node's entries lie below its own path.\<close>

definition node_path :: "path \<Rightarrow> merkle_tree_node \<Rightarrow> path" where
  "node_path cur c = (if is_file c \<or> is_dir c then join_str cur (child_search_name c) else cur)"

lemma child_path_not_dir: "\<not> is_dir c \<Longrightarrow> child_path cur c = cur"
  by (auto simp: child_path_def is_dir_def split: e_merkle_tree_node.splits)

lemma child_path_dir: "is_dir c \<Longrightarrow> child_path cur c = join_str cur (child_search_name c)"
  by (auto simp: child_path_def is_dir_def child_search_name_def split: e_merkle_tree_node.splits)

lemma tree_entries_below:
  "wf_tree t \<Longrightarrow> (q, x) \<in> set (tree_entries t cur) \<Longrightarrow>
   (is_file t \<longrightarrow> q = join_str cur (child_search_name t)) \<and>
   (\<not> is_file t \<longrightarrow> take (length cur) q = cur)"
proof (induction t cur arbitrary: q x rule: tree_entries.induct)
  case (1 h n p cs cur)
  show ?case
  proof (cases "is_file (MTNode h n p cs)")
    case True
    with 1 show ?thesis by (auto simp: is_file_def child_search_name_def split: e_merkle_tree_node.splits)
  next
    case False
    have "take (length cur) q = cur" if c: "c \<in> set cs" "(q, x) \<in> set (tree_entries c (child_path cur c))" for c
    proof -
      have wf: "wf_tree c" using 1(2) c by (auto simp: list_all_iff)
      have IH: "(is_file c \<longrightarrow> q = join_str (child_path cur c) (child_search_name c)) \<and>
          (\<not> is_file c \<longrightarrow> take (length (child_path cur c)) q = child_path cur c)"
        using 1(1) [OF c(1) wf c(2)] .
      have name: "child_search_name c = '''' \<or> valid_name (child_search_name c) \<or> is_vnode c"
        using 1(2) c(1) False
        by (auto simp: list_all_iff is_file_def split: e_merkle_tree_node.splits list.splits)
      show ?thesis
      proof (cases "is_file c")
        case True
        then have "child_path cur c = cur" "\<not> is_vnode c"
          by (auto simp: kind_defs child_path_def split: e_merkle_tree_node.splits)
        with IH True name show ?thesis by auto
      next
        case nf: False
        show ?thesis
        proof (cases "is_dir c")
          case True
          then have "\<not> is_vnode c" by (auto simp: kind_defs split: e_merkle_tree_node.splits)
          with True name have "take (length cur) (child_path cur c) = cur"
            by (auto simp: child_path_dir)
          moreover have "length cur \<le> length (child_path cur c)"
            using True name \<open>\<not> is_vnode c\<close> by (auto simp: child_path_dir)
          ultimately show ?thesis using IH nf by (metis min.absorb1 take_take)
        next
          case False
          with IH nf show ?thesis by (simp add: child_path_not_dir)
        qed
      qed
    qed
    with 1(3) False show ?thesis
      by (auto simp: is_file_def split: e_merkle_tree_node.splits)
  qed
qed

lemma tree_entries_child_below:
  assumes "wf_tree c" "is_file c \<or> is_dir c" "valid_name (child_search_name c)"
    and "(q, x) \<in> set (tree_entries c (child_path cur c))"
  shows "take (Suc (length cur)) q = cur @ [Normal (child_search_name c)]"
proof (cases "is_file c")
  case True
  then have "child_path cur c = cur"
    by (auto simp: kind_defs child_path_def split: e_merkle_tree_node.splits)
  with tree_entries_below [OF assms(1,4)] True assms(3) show ?thesis by simp
next
  case False
  with assms have "child_path cur c = cur @ [Normal (child_search_name c)]" by (simp add: child_path_dir)
  with tree_entries_below [OF assms(1,4)] False show ?thesis by simp
qed

lemma map_of_concat_unique:
  assumes "i < length cs" and "map_of (f (cs ! i)) x = Some r"
    and "\<And>j. j < length cs \<Longrightarrow> j \<noteq> i \<Longrightarrow> map_of (f (cs ! j)) x = None"
  shows "map_of (concat (map f cs)) x = Some r"
  using assms
proof (induction cs arbitrary: i)
  case (Cons c cs)
  show ?case
  proof (cases i)
    case 0
    with Cons.prems show ?thesis by simp
  next
    case (Suc k)
    have "map_of (concat (map f cs)) x = Some r"
    proof (rule Cons.IH [of k])
      show "map_of (f (cs ! j)) x = None" if "j < length cs" "j \<noteq> k" for j
        using Cons.prems(3) [of "Suc j"] Suc that by simp
    qed (use Cons.prems Suc in auto)
    moreover have "map_of (f c) x = None" using Cons.prems(3) [of 0] Suc by simp
    ultimately show ?thesis by (simp add: map_add_def)
  qed
qed simp

section \<open>Search by path\<close>

lemma vnode_search:
  assumes wf: "wf_tree (MTNode h (EVNode v) p cs)" and s: "search_children s cs = Inr i"
    and r: "map_of (tree_entries (cs ! i) (child_path cur (cs ! i))) pth = Some r"
  shows "map_of (concat (map (\<lambda>c. tree_entries c (child_path cur c)) cs)) pth = Some r"
proof (rule map_of_concat_unique)
  show i: "i < length cs" using search_children_InrD [OF s] by simp
  show "map_of (tree_entries (cs ! i) (child_path cur (cs ! i))) pth = Some r" by (rule r)
  have kid: "wf_tree (cs ! j) \<and> (is_file (cs ! j) \<or> is_dir (cs ! j)) \<and>
      valid_name (child_search_name (cs ! j))" if "j < length cs" for j
    using wf that by (auto simp: list_all_iff)
  have dist: "distinct (map child_search_name cs)"
    using wf by (simp add: strict_sorted_iff)
  fix j assume j: "j < length cs" "j \<noteq> i"
  show "map_of (tree_entries (cs ! j) (child_path cur (cs ! j))) pth = None"
  proof (cases "map_of (tree_entries (cs ! j) (child_path cur (cs ! j))) pth")
    case (Some y)
    have "take (Suc (length cur)) pth = cur @ [Normal (child_search_name (cs ! j))]"
      using tree_entries_child_below kid [OF j(1)] map_of_SomeD [OF Some] by blast
    moreover have "take (Suc (length cur)) pth = cur @ [Normal (child_search_name (cs ! i))]"
      using tree_entries_child_below kid [OF i] map_of_SomeD [OF r] by blast
    ultimately have "child_search_name (cs ! j) = child_search_name (cs ! i)" by simp
    with dist i j have False by (metis length_map nth_eq_iff_index_eq nth_map)
    then show ?thesis ..
  qed
qed

lemma tree_entries_too_deep:
  assumes "wf_tree t" and "length pth < length cur" and "is_file t \<longrightarrow> child_search_name t = '''' \<or> valid_name (child_search_name t)"
  shows "map_of (tree_entries t cur) pth = None"
proof (cases "map_of (tree_entries t cur) pth")
  case (Some x)
  from tree_entries_below [OF assms(1) map_of_SomeD [OF Some]] assms(2,3) show ?thesis
    by (cases "is_file t") (auto dest!: arg_cong [where f = length])
qed

definition named_ok :: "merkle_tree_node \<Rightarrow> bool" where
  "named_ok t \<longleftrightarrow> (is_file t \<longrightarrow> child_search_name t = '''' \<or> valid_name (child_search_name t))"

lemma wf_child:
  assumes "wf_tree (MTNode h n p cs)" "c \<in> set cs"
  shows "wf_tree c" and "named_ok c"
  using assms by (auto simp: list_all_iff named_ok_def kind_defs split: e_merkle_tree_node.splits list.splits)

lemma get_by_path_helper_entries:
  "wf_tree t \<Longrightarrow> named_ok t \<Longrightarrow> get_by_path_helper t cur pth = map_of (tree_entries t cur) pth"
proof (induction t cur pth rule: get_by_path_helper.induct)
  case (1 h n p cs cur pth)
  let ?t = "MTNode h n p cs"
  let ?rest = "concat (map (\<lambda>c. tree_entries c (child_path cur c)) cs)"
  show ?case
  proof (cases "length cur > length pth")
    case True
    have "map_of (tree_entries ?t cur) pth = None"
      using 1(3) by (intro tree_entries_too_deep 1(2) True) (simp only: named_ok_def)
    moreover have "get_by_path_helper ?t cur pth = None" using True by simp
    ultimately show ?thesis by (simp only:)
  next
    case False
    let ?visit = "map (\<lambda>c. get_by_path_helper c (child_path cur c) pth) cs"
    have visit: "?visit = map (\<lambda>c. map_of (tree_entries c (child_path cur c)) pth) cs"
    proof (rule map_cong [OF refl])
      fix c assume c: "c \<in> set cs"
      show "get_by_path_helper c (child_path cur c) pth = map_of (tree_entries c (child_path cur c)) pth"
        using 1(1) [OF False c] wf_child [OF 1(2) c] by blast
    qed
    have loop: "first_some ?visit = map_of ?rest pth"
      unfolding visit by (rule first_some_map_of)
    show ?thesis
    proof (cases n)
      case (EVNode v)
      let ?s = "case path_file_name pth of None \<Rightarrow> '''' | Some s \<Rightarrow> s"
      show ?thesis
      proof (cases "search_children ?s cs")
        case (Inl k)
        with EVNode False loop show ?thesis by (simp add: Let_def)
      next
        case (Inr i)
        then have i: "i < length cs" using search_children_InrD by blast
        show ?thesis
        proof (cases "?visit ! i")
          case None
          with EVNode False Inr loop show ?thesis by (simp add: Let_def)
        next
          case (Some r)
          then have "map_of (tree_entries (cs ! i) (child_path cur (cs ! i))) pth = Some r"
            using i by (simp add: visit)
          then have "map_of ?rest pth = Some r"
            using vnode_search 1(2) Inr unfolding EVNode by blast
          with EVNode False Inr Some show ?thesis by (simp add: Let_def)
        qed
      qed
    qed (use False loop in \<open>auto simp: Let_def\<close>)
  qed
qed

section \<open>Distinct paths\<close>

lemma distinct_concat_map_fst:
  assumes "\<And>c. c \<in> set cs \<Longrightarrow> distinct (map fst (f c))"
    and "\<And>i j q. i < j \<Longrightarrow> j < length cs \<Longrightarrow> q \<in> fst ` set (f (cs ! i)) \<Longrightarrow> q \<notin> fst ` set (f (cs ! j))"
  shows "distinct (map fst (concat (map f cs)))"
  using assms
proof (induction cs)
  case (Cons c cs)
  have "distinct (map fst (concat (map f cs)))"
  proof (rule Cons.IH)
    show "q \<notin> fst ` set (f (cs ! j))" if "i < j" "j < length cs" "q \<in> fst ` set (f (cs ! i))" for i j q
      using Cons.prems(2) [of "Suc i" "Suc j" q] that by simp
  qed (use Cons.prems in auto)
  moreover have "q \<notin> fst ` set (concat (map f cs))" if "q \<in> fst ` set (f c)" for q
  proof
    assume "q \<in> fst ` set (concat (map f cs))"
    then obtain c' where "c' \<in> set cs" "q \<in> fst ` set (f c')" by auto
    then obtain j where "j < length cs" "q \<in> fst ` set (f (cs ! j))"
      by (metis in_set_conv_nth)
    with Cons.prems(2) [of 0 "Suc j" q] that show False by simp
  qed
  ultimately show ?case using Cons.prems(1) [of c] by auto
qed simp

text \<open>The entries of a vnode's children start with the child's name.\<close>

lemma vnode_entries_name:
  assumes wf: "wf_tree (MTNode h (EVNode v) p cs)"
    and q: "q \<in> fst ` set (tree_entries (MTNode h (EVNode v) p cs) cur)"
  shows "\<exists>c \<in> set cs. take (Suc (length cur)) q = cur @ [Normal (child_search_name c)]"
proof -
  from q obtain x c where c: "c \<in> set cs" "(q, x) \<in> set (tree_entries c (child_path cur c))" by auto
  with wf have "wf_tree c" "is_file c \<or> is_dir c" "valid_name (child_search_name c)"
    by (auto simp: list_all_iff)
  from tree_entries_child_below [OF this c(2)] c(1) show ?thesis by blast
qed

lemma is_vnodeE:
  assumes "is_vnode t"
  obtains h v p cs where "t = MTNode h (EVNode v) p cs"
  using assms by (cases t) (auto simp: is_vnode_def split: e_merkle_tree_node.splits)

lemma distinct_concat_disjoint:
  "distinct (concat xss) \<Longrightarrow> i < j \<Longrightarrow> j < length xss \<Longrightarrow> set (xss ! i) \<inter> set (xss ! j) = {}"
proof (induction xss arbitrary: i j)
  case (Cons xs xss)
  then obtain k where k: "j = Suc k" by (cases j) auto
  show ?case
  proof (cases i)
    case 0
    with Cons.prems k show ?thesis by (auto dest: nth_mem)
  next
    case (Suc l)
    with Cons.IH [of l k] Cons.prems k show ?thesis by simp
  qed
qed simp

lemma vnode_entry_child_name:
  assumes wf: "wf_tree (MTNode h (EVNode v) p cs)" and i: "i < length cs"
    and q: "q \<in> fst ` set (tree_entries (cs ! i) (child_path cur (cs ! i)))"
  shows "take (Suc (length cur)) q = cur @ [Normal (child_search_name (cs ! i))]"
proof -
  have "cs ! i \<in> set cs" using i by simp
  then have c: "wf_tree (cs ! i)" "is_file (cs ! i) \<or> is_dir (cs ! i)" "valid_name (child_search_name (cs ! i))"
    using wf by (auto simp: list_all_iff)
  obtain x where x: "(q, x) \<in> set (tree_entries (cs ! i) (child_path cur (cs ! i)))"
    using q by (metis imageE prod.collapse)
  show ?thesis by (rule tree_entries_child_below [OF c x])
qed

lemma vnode_entries_disjoint:
  assumes wf: "wf_tree (MTNode h (EVNode v) p cs)" and ij: "i < j" "j < length cs"
    and q: "q \<in> fst ` set (tree_entries (cs ! i) (child_path cur (cs ! i)))"
  shows "q \<notin> fst ` set (tree_entries (cs ! j) (child_path cur (cs ! j)))"
proof
  assume q2: "q \<in> fst ` set (tree_entries (cs ! j) (child_path cur (cs ! j)))"
  have i: "i < length cs" using ij by simp
  have dist: "distinct (map child_search_name cs)" using wf by (simp add: strict_sorted_iff)
  have "map child_search_name cs ! i \<noteq> map child_search_name cs ! j"
    using nth_eq_iff_index_eq [OF dist, of i j] i ij by simp
  moreover have "cur @ [Normal (child_search_name (cs ! i))] = cur @ [Normal (child_search_name (cs ! j))]"
    using vnode_entry_child_name [OF wf i q] vnode_entry_child_name [OF wf ij(2) q2] by (rule trans [OF sym])
  ultimately show False using i ij by simp
qed

lemma distinct_vnode_entries:
  assumes wf: "wf_tree (MTNode h (EVNode v) p cs)"
    and kids: "\<And>c. c \<in> set cs \<Longrightarrow> distinct (map fst (tree_entries c (child_path cur c)))"
  shows "distinct (map fst (concat (map (\<lambda>c. tree_entries c (child_path cur c)) cs)))"
proof (rule distinct_concat_map_fst)
  show "distinct (map fst (tree_entries c (child_path cur c)))" if "c \<in> set cs" for c
    using that by (rule kids)
  show "q \<notin> fst ` set (tree_entries (cs ! j) (child_path cur (cs ! j)))"
    if "i < j" "j < length cs" "q \<in> fst ` set (tree_entries (cs ! i) (child_path cur (cs ! i)))" for i j q
    by (rule vnode_entries_disjoint [OF wf that])
qed

lemma dir_entries_name:
  assumes wf: "wf_tree (MTNode h (EDirectory d) p cs)" and c: "c \<in> set cs"
    and q: "q \<in> fst ` set (tree_entries c (child_path cur c))"
  shows "\<exists>s \<in> set (map child_search_name (t_children c)). take (Suc (length cur)) q = cur @ [Normal s]"
proof -
  have vc: "is_vnode c" "wf_tree c" using wf c by (auto simp: list_all_iff)
  obtain h' v' p' cs' where v: "c = MTNode h' (EVNode v') p' cs'" using vc(1) by (rule is_vnodeE)
  have "child_path cur c = cur" unfolding v child_path_def by simp
  then have q': "q \<in> fst ` set (tree_entries (MTNode h' (EVNode v') p' cs') cur)"
    using q unfolding v by metis
  obtain c' where c': "c' \<in> set cs'" "take (Suc (length cur)) q = cur @ [Normal (child_search_name c')]"
    using vnode_entries_name [OF vc(2) [unfolded v] q'] by blast
  have "t_children c = cs'" unfolding v by simp
  then have "child_search_name c' \<in> set (map child_search_name (t_children c))" using c'(1) by simp
  with c'(2) show ?thesis by blast
qed

lemma dir_entries_disjoint:
  assumes wf: "wf_tree (MTNode h (EDirectory d) p cs)" and ij: "i < j" "j < length cs"
    and q: "q \<in> fst ` set (tree_entries (cs ! i) (child_path cur (cs ! i)))"
  shows "q \<notin> fst ` set (tree_entries (cs ! j) (child_path cur (cs ! j)))"
proof
  let ?names = "\<lambda>v. map child_search_name (t_children v)"
  assume q2: "q \<in> fst ` set (tree_entries (cs ! j) (child_path cur (cs ! j)))"
  have "distinct (concat (map ?names cs))" using wf by simp
  from distinct_concat_disjoint [OF this ij(1)] ij
  have disj: "set (?names (cs ! i)) \<inter> set (?names (cs ! j)) = {}" by simp
  have mem: "cs ! i \<in> set cs" "cs ! j \<in> set cs" using ij by simp_all
  obtain s where s: "s \<in> set (?names (cs ! j))" "take (Suc (length cur)) q = cur @ [Normal s]"
    using dir_entries_name [OF wf mem(2) q2] by blast
  obtain s' where s': "s' \<in> set (?names (cs ! i))" "take (Suc (length cur)) q = cur @ [Normal s']"
    using dir_entries_name [OF wf mem(1) q] by blast
  from s(2) s'(2) have "s = s'" by simp
  with s(1) s'(1) disj show False by blast
qed

lemma distinct_dir_entries:
  assumes wf: "wf_tree (MTNode h (EDirectory d) p cs)"
    and kids: "\<And>c. c \<in> set cs \<Longrightarrow> distinct (map fst (tree_entries c (child_path cur c)))"
  shows "distinct (cur # map fst (concat (map (\<lambda>c. tree_entries c (child_path cur c)) cs)))"
proof -
  have "distinct (map fst (concat (map (\<lambda>c. tree_entries c (child_path cur c)) cs)))"
  proof (rule distinct_concat_map_fst)
    show "distinct (map fst (tree_entries c (child_path cur c)))" if "c \<in> set cs" for c
      using that by (rule kids)
    show "q \<notin> fst ` set (tree_entries (cs ! j) (child_path cur (cs ! j)))"
      if "i < j" "j < length cs" "q \<in> fst ` set (tree_entries (cs ! i) (child_path cur (cs ! i)))" for i j q
      by (rule dir_entries_disjoint [OF wf that])
  qed
  moreover have "cur \<notin> fst ` set (concat (map (\<lambda>c. tree_entries c (child_path cur c)) cs))"
  proof
    assume "cur \<in> fst ` set (concat (map (\<lambda>c. tree_entries c (child_path cur c)) cs))"
    then obtain c where c: "c \<in> set cs" "cur \<in> fst ` set (tree_entries c (child_path cur c))"
      by (auto simp del: tree_entries.simps)
    obtain s where "take (Suc (length cur)) cur = cur @ [Normal s]"
      using dir_entries_name [OF wf c] by blast
    then show False by simp
  qed
  ultimately show ?thesis by (simp only: distinct.simps set_map) simp
qed

lemma distinct_tree_entries: "wf_tree t \<Longrightarrow> distinct (map fst (tree_entries t cur))"
proof (induction t cur rule: tree_entries.induct)
  case (1 h n p cs cur)
  have kids: "distinct (map fst (tree_entries c (child_path cur c)))" if "c \<in> set cs" for c
    using 1(1) [OF that] wf_child(1) [OF 1(2) that] by blast
  show ?case
  proof (cases n)
    case (EVNode v)
    with distinct_vnode_entries [OF _ kids] 1(2) show ?thesis by simp
  next
    case (EDirectory d)
    with distinct_dir_entries [OF _ kids] 1(2) show ?thesis by simp
  next
    case (ECommit c)
    then obtain d where "cs = [d]" using 1(2) by (auto split: list.splits)
    with ECommit kids show ?thesis by simp
  qed (use 1(2) in auto)
qed

section \<open>Walks and listings against the enumeration\<close>

lemma walk_loop_tree_nodes: "walk_loop ts = concat (map tree_nodes ts)"
proof (induction ts rule: walk_loop.induct)
  case (2 node stack)
  then show ?case by (cases node) simp
qed simp

lemma tree_nodes_leaf: "wf_tree t \<Longrightarrow> is_leaf t \<Longrightarrow> tree_nodes t = [t]"
  by (cases t) (auto simp: is_leaf_def split: e_merkle_tree_node.splits)

lemma walk_no_leaves_tree_nodes:
  "\<forall>t \<in> set ts. wf_tree t \<and> \<not> is_leaf t \<Longrightarrow>
   walk_no_leaves_loop ts = filter (\<lambda>c. \<not> is_leaf c) (concat (map tree_nodes ts))"
proof (induction ts rule: walk_no_leaves_loop.induct)
  case (2 node stack)
  obtain h n p cs where node: "node = MTNode h n p cs" by (cases node)
  have kids: "\<forall>c \<in> set cs. wf_tree c" using 2(2) by (auto simp: node list_all_iff)
  have drop: "filter (\<lambda>c. \<not> is_leaf c) (concat (map tree_nodes (filter (\<lambda>c. \<not> is_leaf c) cs)))
      = filter (\<lambda>c. \<not> is_leaf c) (concat (map tree_nodes cs))"
    using kids by (induction cs) (auto simp: tree_nodes_leaf)
  have prem: "\<forall>t \<in> set (filter (\<lambda>c. \<not> is_leaf c) (t_children node) @ stack). wf_tree t \<and> \<not> is_leaf t"
    using 2(2) kids by (auto simp: node simp del: wf_tree.simps)
  have "\<not> is_leaf node" using 2(2) by simp
  then show ?case using 2(1) [OF prem] drop by (simp add: node)
qed simp

lemma fold_insert_Un:
  assumes "\<And>c acc. c \<in> set cs \<Longrightarrow> f c acc = acc \<union> g c"
  shows "fold f cs acc = acc \<union> (\<Union>c \<in> set cs. g c)"
  using assms by (induction cs arbitrary: acc) auto

definition file_paths_in :: "merkle_tree_node \<Rightarrow> path \<Rightarrow> path set" where
  "file_paths_in t cur = {q. \<exists>x. (q, x) \<in> set (tree_entries t cur) \<and> is_file x}"

lemma file_paths_in_node:
  "file_paths_in (MTNode h n p cs) cur =
     (case n of EFile f \<Rightarrow> {join_str cur (fn_name f)} | _ \<Rightarrow> {}) \<union>
     (\<Union>c \<in> set cs. file_paths_in c (child_path cur c))"
  unfolding file_paths_in_def
  by (cases n) (auto simp: is_file_def)

lemma list_file_paths_helper_eq:
  "list_file_paths_helper t cur acc = acc \<union> file_paths_in t cur"
proof (induction t cur acc rule: list_file_paths_helper.induct)
  case (1 h n p cs cur files)
  have kid: "(case t_node c of EDirectory d \<Rightarrow> list_file_paths_helper c (join_str cur (dn_name d)) acc
        | _ \<Rightarrow> list_file_paths_helper c cur acc) = acc \<union> file_paths_in c (child_path cur c)"
    if "c \<in> set cs" for c acc
    using 1 that by (cases "t_node c") (auto simp: child_path_def)
  show ?case
    by (simp add: fold_insert_Un [OF kid] file_paths_in_node Un_assoc Un_left_commute split: e_merkle_tree_node.splits)
qed

lemma map_of_fold_updates:
  assumes "\<And>c acc. c \<in> set cs \<Longrightarrow> map_of (f c acc) = map_of acc ++ map_of (rev (g c))"
  shows "map_of (fold f cs acc) = map_of acc ++ map_of (rev (concat (map g cs)))"
  using assms
proof (induction cs arbitrary: acc)
  case (Cons c cs)
  then show ?case by (simp add: map_add_assoc)
qed simp

lemma list_files_helper_eq:
  "map_of (list_files_helper t cur acc) = map_of acc ++ map_of (rev (filter (\<lambda>e. is_file (snd e)) (tree_entries t cur)))"
proof (induction t cur acc rule: list_files_helper.induct)
  case (1 h n p cs cur files)
  let ?g = "\<lambda>c. filter (\<lambda>e. is_file (snd e)) (tree_entries c (child_path cur c))"
  have kid: "map_of (case t_node c of EDirectory d \<Rightarrow> list_files_helper c (join_str cur (dn_name d)) acc
        | _ \<Rightarrow> list_files_helper c cur acc) = map_of acc ++ map_of (rev (?g c))"
    if "c \<in> set cs" for c acc
    using 1 that by (cases "t_node c") (auto simp: child_path_def)
  have g: "filter (\<lambda>e. is_file (snd e)) (concat (map (\<lambda>c. tree_entries c (child_path cur c)) cs)) = concat (map ?g cs)"
    by (induction cs) auto
  show ?case
    by (simp add: map_of_fold_updates [OF kid] g del: map_of_append split: e_merkle_tree_node.splits)
       (auto simp: is_file_def map_add_def fun_eq_iff split: option.splits)
qed

lemma map_of_rev_distinct: "distinct (map fst xs) \<Longrightarrow> map_of (rev xs) = map_of xs"
  by (subst map_of_inject_set) (simp_all add: rev_map [symmetric])

lemma list_files_in:
  assumes "wf_tree t"
  shows "map_of (list_files t) q = Some x \<longleftrightarrow> (q, x) \<in> set (tree_entries t []) \<and> is_file x"
proof -
  have "distinct (map fst (filter (\<lambda>e. is_file (snd e)) (tree_entries t [])))"
    using distinct_tree_entries [OF assms] by (rule distinct_map_filter)
  then show ?thesis
    by (simp add: list_files_def list_files_helper_eq map_of_rev_distinct)
qed

section \<open>Hashes shared with an older tree\<close>

definition is_dir_or_vnode :: "merkle_tree_node \<Rightarrow> bool" where
  "is_dir_or_vnode t \<longleftrightarrow> is_dir t \<or> is_vnode t"

text \<open>The topmost directories and vnodes whose hash is in the older set.\<close>

fun topmost_shared :: "merkle_hash set \<Rightarrow> merkle_tree_node \<Rightarrow> merkle_hash set" where
  "topmost_shared old (MTNode h n p cs) =
     (if is_dir_or_vnode (MTNode h n p cs) \<and> h \<in> old then {h}
      else (\<Union>c \<in> set cs. topmost_shared old c))"

lemma topmost_shared_down:
  "\<not> (is_dir_or_vnode (MTNode h n p cs) \<and> h \<in> old) \<Longrightarrow>
   topmost_shared old (MTNode h n p cs) = (\<Union>c \<in> set cs. topmost_shared old c)"
  by (simp only: topmost_shared.simps if_False)

lemma list_shared_helper_eq:
  "list_shared_dir_and_vnode_hashes_helper t cur acc old = acc \<union> topmost_shared old t"
proof (induction t cur acc old rule: list_shared_dir_and_vnode_hashes_helper.induct)
  case (1 h n p cs cur acc old)
  let ?shared = "(case n of EDirectory _ \<Rightarrow> True | EVNode _ \<Rightarrow> True | _ \<Rightarrow> False) \<and> h \<in> old"
  have cond: "?shared \<longleftrightarrow> is_dir_or_vnode (MTNode h n p cs) \<and> h \<in> old"
    by (auto simp: is_dir_or_vnode_def kind_defs split: e_merkle_tree_node.splits)
  show ?case
  proof (cases ?shared)
    case True
    then show ?thesis using cond by simp
  next
    case False
    have kid: "(case t_node c of
          EDirectory d \<Rightarrow> list_shared_dir_and_vnode_hashes_helper c (join_str cur (dn_name d)) acc old
        | _ \<Rightarrow> list_shared_dir_and_vnode_hashes_helper c cur acc old) = acc \<union> topmost_shared old c"
      if "c \<in> set cs" for c acc
      using 1 False that by (cases "t_node c") auto
    have "list_shared_dir_and_vnode_hashes_helper (MTNode h n p cs) cur acc old
        = acc \<union> (\<Union>c \<in> set cs. topmost_shared old c)"
      using False fold_insert_Un [OF kid]
      by (simp only: list_shared_dir_and_vnode_hashes_helper.simps if_False)
    moreover have "topmost_shared old (MTNode h n p cs) = (\<Union>c \<in> set cs. topmost_shared old c)"
      using False cond by (intro topmost_shared_down) blast
    ultimately show ?thesis by (simp only:)
  qed
qed

lemma topmost_shared_sub:
  "topmost_shared old t \<subseteq> {t_hash x | x. x \<in> set (tree_nodes t) \<and> is_dir_or_vnode x} \<inter> old"
proof (induction old t rule: topmost_shared.induct)
  case (1 old h n p cs)
  show ?case
  proof (cases "is_dir_or_vnode (MTNode h n p cs) \<and> h \<in> old")
    case True
    then show ?thesis by force
  next
    case False
    then have "topmost_shared old (MTNode h n p cs) = (\<Union>c \<in> set cs. topmost_shared old c)"
      by (rule topmost_shared_down)
    then show ?thesis using 1 [OF False] by (simp add: UN_subset_iff) blast
  qed
qed

lemma topmost_shared_covers:
  "x \<in> set (tree_nodes t) \<Longrightarrow> is_dir_or_vnode x \<Longrightarrow> t_hash x \<in> old \<Longrightarrow>
   \<exists>y \<in> set (tree_nodes t). x \<in> set (tree_nodes y) \<and> t_hash y \<in> topmost_shared old t"
proof (induction old t rule: topmost_shared.induct)
  case (1 old h n p cs)
  let ?t = "MTNode h n p cs"
  show ?case
  proof (cases "is_dir_or_vnode ?t \<and> h \<in> old")
    case True
    then have "t_hash ?t \<in> topmost_shared old ?t" by simp
    with 1(2) show ?thesis by (intro bexI [of _ ?t]) simp_all
  next
    case False
    then have "x \<noteq> ?t" using 1(3,4) by auto
    then obtain c where c: "c \<in> set cs" "x \<in> set (tree_nodes c)" using 1(2) by auto
    obtain y where "y \<in> set (tree_nodes c)" "x \<in> set (tree_nodes y)" "t_hash y \<in> topmost_shared old c"
      using 1(1) [OF False c 1(3,4)] by blast
    moreover have "topmost_shared old ?t = (\<Union>c \<in> set cs. topmost_shared old c)"
      using False by (rule topmost_shared_down)
    ultimately show ?thesis using c(1) by (intro bexI [of _ y]) auto
  qed
qed

section \<open>Chains from the root\<close>

fun chain_from :: "merkle_tree_node \<Rightarrow> merkle_tree_node list \<Rightarrow> bool" where
  "chain_from t [] = False"
| "chain_from t [x] \<longleftrightarrow> x = t"
| "chain_from t (x # y # ys) \<longleftrightarrow> x = t \<and> (\<exists>c \<in> set (t_children t). chain_from c (y # ys))"

lemma chain_from_Cons: "c \<in> set (t_children t) \<Longrightarrow> chain_from c ns \<Longrightarrow> chain_from t (t # ns)"
  by (cases ns) auto

lemma first_found_Some: "first_found rs = Some (x, ys) \<Longrightarrow> (Some x, ys) \<in> set rs"
  by (induction rs rule: first_found.induct) auto

text \<open>What \<open>get_nodes_along_paths\<close> answers for the last of its paths.\<close>

definition good_chain :: "merkle_tree_node \<Rightarrow> path \<Rightarrow> path \<Rightarrow> merkle_tree_node \<Rightarrow> merkle_tree_node list \<Rightarrow> bool" where
  "good_chain t cur goal node ns \<longleftrightarrow>
     chain_from t ns \<and> last ns = node \<and> (goal, node) \<in> set (tree_entries t cur)"

lemma good_chain_child:
  assumes "c \<in> set cs" and "good_chain c (child_path cur c) goal node ns"
  shows "good_chain (MTNode h n p cs) cur goal node (MTNode h n p cs # ns)"
proof -
  have "ns \<noteq> []" using assms(2) by (auto simp: good_chain_def)
  moreover have "chain_from (MTNode h n p cs) (MTNode h n p cs # ns)"
    using assms by (intro chain_from_Cons [of c]) (auto simp: good_chain_def)
  ultimately show ?thesis using assms by (auto simp: good_chain_def)
qed

lemma last_tl: "tl xs \<noteq> [] \<Longrightarrow> last (tl xs) = last xs"
  by (cases xs) auto

lemma get_nodes_along_paths_helper_Nil: "get_nodes_along_paths_helper t cur [] = (None, [])"
  by (cases t) (simp add: Let_def)


lemma good_chain_loop:
  assumes "first_found (map (\<lambda>c. get_nodes_along_paths_helper c (child_path cur c) pcs) cs) = Some (node, ns)"
    and "\<And>c. c \<in> set cs \<Longrightarrow> get_nodes_along_paths_helper c (child_path cur c) pcs = (Some node, ns) \<Longrightarrow>
      good_chain c (child_path cur c) goal node ns"
  shows "good_chain (MTNode h n p cs) cur goal node (MTNode h n p cs # ns)"
proof -
  have "(Some node, ns) \<in> set (map (\<lambda>c. get_nodes_along_paths_helper c (child_path cur c) pcs) cs)"
    using assms(1) by (rule first_found_Some)
  then obtain c where c: "c \<in> set cs" "get_nodes_along_paths_helper c (child_path cur c) pcs = (Some node, ns)"
    by (metis (no_types, lifting) imageE set_map)
  show ?thesis by (rule good_chain_child [OF c(1) assms(2) [OF c]])
qed

lemma good_chain_self:
  "(case n of EFile f \<Rightarrow> join_str cur (fn_name f) = goal | EDirectory _ \<Rightarrow> cur = goal | _ \<Rightarrow> False) \<Longrightarrow>
   good_chain (MTNode h n p cs) cur goal (MTNode h n p cs) [MTNode h n p cs]"
  by (auto simp: good_chain_def split: e_merkle_tree_node.splits)

lemma get_nodes_along_paths_helper_chain:
  "pcs \<noteq> [] \<Longrightarrow> get_nodes_along_paths_helper t cur pcs = (Some node, ns) \<Longrightarrow>
   good_chain t cur (last pcs) node ns"
proof (induction t arbitrary: cur pcs node ns)
  case (MTNode h n p cs)
  let ?self = "MTNode h n p cs"
  let ?visit = "\<lambda>c pcs'. get_nodes_along_paths_helper c (child_path cur c) pcs'"
  have IH: "good_chain c (child_path cur c) (last pcs) nd ms"
    if c: "c \<in> set cs" and qs: "qs = pcs \<or> qs = tl pcs" and v: "?visit c qs = (Some nd, ms)" for c qs nd ms
  proof -
    have "qs \<noteq> []" using v by (auto simp: get_nodes_along_paths_helper_Nil)
    moreover from this have "last qs = last pcs" using qs by (auto simp: last_tl)
    ultimately show ?thesis using MTNode.IH [OF c _ v] by simp
  qed
  have loop: "good_chain ?self cur (last pcs) node ns"
    if qs: "qs = pcs \<or> qs = tl pcs"
      and v: "(case first_found (map (\<lambda>c. ?visit c qs) cs) of
        Some (node, ns) \<Rightarrow> (Some node, ?self # ns) | None \<Rightarrow> (None, [])) = (Some node, ns)" for qs
  proof -
    obtain ms where "first_found (map (\<lambda>c. ?visit c qs) cs) = Some (node, ms)" "ns = ?self # ms"
      using v by (auto split: option.splits)
    then show ?thesis using good_chain_loop IH [OF _ qs] by blast
  qed
  have down: "good_chain ?self cur (last pcs) node (?self # ms)"
    if "i < length cs" "qs = pcs \<or> qs = tl pcs" "?visit (cs ! i) qs = (Some node, ms)" for i qs ms
    using good_chain_child [OF nth_mem [OF that(1)] IH [OF nth_mem [OF that(1)] that(2,3)]] .
  note res = MTNode.prems(2) [unfolded get_nodes_along_paths_helper.simps Let_def]
  show ?case
  proof (cases "case n of EFile f \<Rightarrow> join_str cur (fn_name f) = last pcs | EDirectory _ \<Rightarrow> cur = last pcs | _ \<Rightarrow> False")
    case True
    then have "node = ?self" "ns = [?self]"
      using res by (auto split: if_splits e_merkle_tree_node.splits)
    with good_chain_self [OF True] show ?thesis by simp
  next
    case False
    show ?thesis
    proof (cases n)
      case (EVNode v)
      let ?s = "case path_file_name (hd pcs) of Some s \<Rightarrow> s | None \<Rightarrow> ''''"
      show ?thesis
      proof (cases "search_children ?s cs")
        case (Inl k)
        with EVNode res loop [of pcs] show ?thesis
          by (simp add: comp_def split: if_splits)
      next
        case (Inr i)
        have i: "i < length cs" using Inr search_children_InrD by blast
        obtain r ms where vt: "?visit (cs ! i) (tl pcs) = (r, ms)" by force
        obtain r' ms' where vp: "?visit (cs ! i) pcs = (r', ms')" by force
        show ?thesis
          using res EVNode Inr i loop [of pcs] loop [of "tl pcs"] down [OF i, of "tl pcs"] down [OF i, of pcs] vt vp
          by (cases r; cases r')
             (auto simp: comp_def split: if_splits e_merkle_tree_node.splits)
      qed
    qed (use res False loop [of pcs] in \<open>auto simp: comp_def split: if_splits\<close>)
  qed
qed

section \<open>A sample tree\<close>

text \<open>A commit whose root holds the file \<open>a\<close> and the directory \<open>d\<close> with the file \<open>b\<close>.\<close>

definition sample_file :: "string \<Rightarrow> merkle_hash \<Rightarrow> file_node" where
  "sample_file s h = FileV0_25_0
     ((file_data file_node_default)\<lparr>fd_name := s, fd_hash := h, fd_combined_hash := h\<rparr>)"

definition sample_dir :: "string \<Rightarrow> merkle_hash \<Rightarrow> dir_node" where
  "sample_dir s h = DirV0_19_0
     \<lparr>dd_node_type = TDir, dd_name = s, dd_hash = h, dd_num_bytes = 0, dd_last_commit_id = 0,
      dd_last_modified_seconds = 0, dd_last_modified_nanoseconds = 0, dd_data_type_counts = [],
      dd_data_type_sizes = []\<rparr>"

definition sample_vnode :: "merkle_hash \<Rightarrow> vnode" where
  "sample_vnode h = VNodeV0_19_0 \<lparr>vd_hash = h, vd_node_type = TVNode\<rparr>"

definition sample_commit :: "merkle_hash \<Rightarrow> merkle_hash list \<Rightarrow> timestamp \<Rightarrow> commit_node" where
  "sample_commit h ps ts = CommitV0_25_0
     \<lparr>cd_hash = h, cd_node_type = TCommit, cd_parent_ids = ps, cd_message = ''m'',
      cd_author = ''ox'', cd_email = ''ox@oxen.ai'', cd_timestamp = ts\<rparr>"

lemma sample_node_simps [simp]:
  "fn_name (sample_file s h) = s" "fn_hash (sample_file s h) = h"
  "dn_name (sample_dir s h) = s" "dn_hash (sample_dir s h) = h"
  "vn_hash (sample_vnode h) = h"
  "cn_hash (sample_commit h ps ts) = h" "cn_parent_ids (sample_commit h ps ts) = ps"
  by (simp_all add: fn_name_def fn_hash_def sample_file_def sample_dir_def sample_vnode_def
      sample_commit_def cn_hash_def cn_parent_ids_def)

definition sample_tree :: merkle_tree_node where
  "sample_tree =
     MTNode 9 (ECommit (sample_commit 9 [] 0)) None
       [MTNode 8 (EDirectory (sample_dir '''' 8)) (Some 9)
         [MTNode 7 (EVNode (sample_vnode 7)) (Some 8)
           [MTNode 1 (EFile (sample_file ''a'' 1)) (Some 7) [],
            MTNode 5 (EDirectory (sample_dir ''d'' 5)) (Some 7)
              [MTNode 4 (EVNode (sample_vnode 4)) (Some 5)
                [MTNode 2 (EFile (sample_file ''b'' 2)) (Some 4) []]]]]]"

lemma sample_kinds [simp]:
  "is_file (MTNode h (EFile f) p cs)" "\<not> is_file (MTNode h (EDirectory d) p cs)"
  "\<not> is_file (MTNode h (EVNode v) p cs)" "\<not> is_file (MTNode h (ECommit c) p cs)"
  "is_dir (MTNode h (EDirectory d) p cs)" "\<not> is_dir (MTNode h (EFile f) p cs)"
  "\<not> is_dir (MTNode h (EVNode v) p cs)" "\<not> is_dir (MTNode h (ECommit c) p cs)"
  "is_vnode (MTNode h (EVNode v) p cs)" "\<not> is_vnode (MTNode h (EDirectory d) p cs)"
  "\<not> is_vnode (MTNode h (EFile f) p cs)" "\<not> is_vnode (MTNode h (ECommit c) p cs)"
  by (simp_all add: kind_defs)

lemma sample_search_name [simp]:
  "child_search_name (MTNode h (EFile f) p cs) = fn_name f"
  "child_search_name (MTNode h (EDirectory d) p cs) = dn_name d"
  by (simp_all add: child_search_name_def)

lemma valid_name_a [simp]: "valid_name ''a''" "valid_name ''b''" "valid_name ''d''"
  by (simp_all add: valid_name_def)

lemma sample_child_path [simp]:
  "child_path cur (MTNode h (EFile f) p cs) = cur"
  "child_path cur (MTNode h (EDirectory d) p cs) = join_str cur (dn_name d)"
  "child_path cur (MTNode h (EVNode v) p cs) = cur"
  by (simp_all add: child_path_def)

lemma wf_sample_tree [simp]: "wf_tree sample_tree"
  by (simp add: sample_tree_def)

lemma sample_not_file [simp]: "\<not> is_file sample_tree" "\<not> is_leaf sample_tree"
  by (simp_all add: sample_tree_def is_leaf_def)

lemma sample_entries:
  "([Normal ''d'', Normal ''b''], MTNode 2 (EFile (sample_file ''b'' 2)) (Some 4) [])
     \<in> set (tree_entries sample_tree [])"
  by (simp add: sample_tree_def)

lemma get_by_path_entries:
  assumes "wf_tree t" and "\<not> is_file t"
  shows "get_by_path t pth = map_of (tree_entries t []) pth"
  using assms by (simp add: get_by_path_def get_by_path_helper_entries named_ok_def)

section \<open>Properties\<close>

text \<open>C36: \<open>get_by_path\<close> finds exactly the files and directories of a committed tree: it answers
  \<open>Some x\<close> for a path if and only if \<open>x\<close> stands at that path in the enumeration of the tree
  (so binary search in a vnode, the fallback loop over the children and the depth cut-off never
  lose or confuse an entry).\<close>

theorem get_by_path_correct:
  assumes "wf_tree t" and "\<not> is_file t"
  shows "get_by_path t pth = Some x \<longleftrightarrow> (pth, x) \<in> set (tree_entries t [])"
  using distinct_tree_entries [OF assms(1), of "[]"] by (simp add: get_by_path_entries [OF assms])

lemma get_by_path_correct_witness:
  "get_by_path sample_tree [Normal ''d'', Normal ''b''] = Some (MTNode 2 (EFile (sample_file ''b'' 2)) (Some 4) [])"
  using get_by_path_correct [OF wf_sample_tree sample_not_file(1)] sample_entries by blast

text \<open>\<open>list_files\<close>, which walks the tree and collects a map, and \<open>get_by_path\<close>, which searches
  it, agree: the map holds exactly the paths at which the search finds a file, with that file.\<close>

lemma list_files_agrees_with_search:
  assumes "wf_tree t" and "\<not> is_file t"
  shows "map_of (list_files t) pth = Some x \<longleftrightarrow> get_by_path t pth = Some x \<and> is_file x"
  using distinct_tree_entries [OF assms(1), of "[]"] list_files_in [OF assms(1)]
  by (simp add: get_by_path_entries [OF assms])

lemma list_files_agrees_with_search_witness:
  "map_of (list_files sample_tree) [Normal ''d''] = None"
proof -
  have "\<not> is_file x" if "get_by_path sample_tree [Normal ''d''] = Some x" for x
    using that
    by (simp add: sample_tree_def get_by_path_def path_file_name_def search_children_def
        binary_search_by_def bs_loop.simps ord_cmp_def numeral_2_eq_2)
       (auto split: if_splits)
  then show ?thesis
    using list_files_agrees_with_search [OF wf_sample_tree sample_not_file(1), of "[Normal ''d'']"]
    by (cases "map_of (list_files sample_tree) [Normal ''d'']") blast+
qed

text \<open>\<open>list_file_paths\<close> is exactly the set of the paths of the files in the tree.\<close>

theorem list_file_paths_complete:
  "list_file_paths t = {q. \<exists>x. (q, x) \<in> set (tree_entries t []) \<and> is_file x}"
  by (simp add: list_file_paths_def list_file_paths_helper_eq file_paths_in_def)

text \<open>The walk over an explicit stack visits every node of the tree once, in depth-first
  preorder, and the walk without leaves visits the same nodes in the same order, less the files
  and chunks.\<close>

lemma walks_are_preorder:
  assumes "wf_tree t" and "\<not> is_leaf t"
  shows "walk_tree t = tree_nodes t \<and>
    walk_tree_without_leaves t = filter (\<lambda>c. \<not> is_leaf c) (walk_tree t)"
  using assms walk_no_leaves_tree_nodes [of "[t]"]
  by (simp_all add: walk_tree_def walk_tree_without_leaves_def walk_loop_tree_nodes)

lemma walks_are_preorder_witness:
  "map t_hash (walk_tree sample_tree) = [9, 8, 7, 1, 5, 4, 2] \<and>
   map t_hash (walk_tree_without_leaves sample_tree) = [9, 8, 7, 5, 4]"
  using walks_are_preorder [OF wf_sample_tree sample_not_file(2)]
  by (simp add: sample_tree_def is_leaf_def)

text \<open>\<open>list_shared_dir_and_vnode_hashes\<close> returns hashes of directories and vnodes of the tree
  that the older set holds, and it misses nothing: every directory or vnode of the tree with a
  known hash lies in the subtree of a node whose hash is in the result.\<close>

theorem list_shared_sound_and_covering:
  "list_shared_dir_and_vnode_hashes t old \<subseteq>
     {t_hash x | x. x \<in> set (tree_nodes t) \<and> is_dir_or_vnode x} \<inter> old \<and>
   (\<forall>x. x \<in> set (tree_nodes t) \<and> is_dir_or_vnode x \<and> t_hash x \<in> old \<longrightarrow>
     (\<exists>y. y \<in> set (tree_nodes t) \<and> x \<in> set (tree_nodes y) \<and>
        t_hash y \<in> list_shared_dir_and_vnode_hashes t old))"
proof -
  have "list_shared_dir_and_vnode_hashes t old = topmost_shared old t"
    by (simp add: list_shared_dir_and_vnode_hashes_def list_shared_helper_eq)
  then show ?thesis using topmost_shared_sub topmost_shared_covers by (metis (no_types, lifting))
qed

lemma list_shared_sound_and_covering_witness:
  "5 \<in> list_shared_dir_and_vnode_hashes sample_tree {5} \<and>
   list_shared_dir_and_vnode_hashes sample_tree {5} \<subseteq> {5}"
proof -
  let ?d = "MTNode 5 (EDirectory (sample_dir ''d'' 5)) (Some 7)
    [MTNode 4 (EVNode (sample_vnode 4)) (Some 5) [MTNode 2 (EFile (sample_file ''b'' 2)) (Some 4) []]]"
  note cov = list_shared_sound_and_covering [of sample_tree "{5}"]
  have d: "?d \<in> set (tree_nodes sample_tree) \<and> is_dir_or_vnode ?d \<and> t_hash ?d \<in> {5}"
    by (simp add: sample_tree_def is_dir_or_vnode_def)
  from conjunct2 [OF cov, THEN spec, THEN mp, OF d]
  obtain y where y: "t_hash y \<in> list_shared_dir_and_vnode_hashes sample_tree {5}" by (elim exE conjE)
  have sub: "list_shared_dir_and_vnode_hashes sample_tree {5} \<subseteq> {5}"
    using conjunct1 [OF cov] by (rule subset_trans) (rule Int_lower2)
  then have "t_hash y = 5" using y by (metis singletonD subsetD)
  with y sub show ?thesis by metis
qed

text \<open>When \<open>get_nodes_along_paths\<close> finds a node, the nodes it returns are the chain from the
  root of the tree down to that node, each a child of the one before, and the node stands at the
  last of the given paths.\<close>

lemma get_nodes_along_paths_chain:
  assumes "get_nodes_along_paths t paths = (Some node, ns)" and "paths \<noteq> []"
  shows "chain_from t ns \<and> last ns = node \<and> (last paths, node) \<in> set (tree_entries t [])"
  using get_nodes_along_paths_helper_chain [OF assms(2)] assms(1)
  by (simp add: get_nodes_along_paths_def good_chain_def)

lemma sample_chain:
  "get_nodes_along_paths sample_tree [[Normal ''d''], [Normal ''d'', Normal ''b'']] =
     (Some (MTNode 2 (EFile (sample_file ''b'' 2)) (Some 4) []),
      [sample_tree, hd (t_children sample_tree), hd (t_children (hd (t_children sample_tree))),
       tree_nodes sample_tree ! 4, tree_nodes sample_tree ! 5, tree_nodes sample_tree ! 6])"
  by (simp add: sample_tree_def get_nodes_along_paths_def path_file_name_def search_children_def
      binary_search_by_def bs_loop.simps ord_cmp_def Let_def)

lemma get_nodes_along_paths_chain_witness:
  "([Normal ''d'', Normal ''b''], MTNode 2 (EFile (sample_file ''b'' 2)) (Some 4) [])
     \<in> set (tree_entries sample_tree [])"
  using get_nodes_along_paths_chain [OF sample_chain] by simp

end
