(* ===== verification/Node_Db_Props.thy ===== *)
theory Node_Db_Props
  imports Node_Db Merkle_Tree_Props
begin

text \<open>
  The on-disk format of a node reads back as what was written, and the disk refines a map from
  hashes to nodes with their children: writing a node updates that map at the node's hash only.
\<close>

section \<open>What the serialization is assumed to do\<close>

text \<open>
  \<open>node_codec_ok\<close>: the node serializes, to less than 4 GiB, and its type's \<open>deserialize\<close> gives it
  back; the type stored in its data is its own.
\<close>

definition node_codec_ok :: "codec \<Rightarrow> e_merkle_tree_node \<Rightarrow> bool" where
  "node_codec_ok c n \<longleftrightarrow>
     id_node_type n = node_type n \<and>
     (case to_msgpack_bytes c n of
        Inl _ \<Rightarrow> False
      | Inr bs \<Rightarrow> length bs < 2 ^ 32 \<and> db_to_node c (node_type n) bs = Inr n)"

definition node_bytes :: "codec \<Rightarrow> e_merkle_tree_node \<Rightarrow> byte list" where
  "node_bytes c n = (case to_msgpack_bytes c n of Inl _ \<Rightarrow> [] | Inr bs \<Rightarrow> bs)"

lemma node_codec_okD:
  assumes "node_codec_ok c n"
  shows "id_node_type n = node_type n" "to_msgpack_bytes c n = Inr (node_bytes c n)"
    "length (node_bytes c n) < 2 ^ 32" "db_to_node c (node_type n) (node_bytes c n) = Inr n"
  using assms by (auto simp: node_codec_ok_def node_bytes_def split: sum.splits)

section \<open>The encoded table\<close>

definition enc_entry :: "offset_entry \<Rightarrow> byte list" where
  "enc_entry = (\<lambda>(hash, dtype, offset, len).
     dtype # to_le 16 (unat hash) @ to_le 8 (unat offset) @ to_le 8 (unat len))"

fun child_table :: "codec \<Rightarrow> u64 \<Rightarrow> e_merkle_tree_node list \<Rightarrow> offset_entry list" where
  "child_table c off [] = []"
| "child_table c off (n # ns) =
     (let len = word_of_nat (length (node_bytes c n))
      in (node_hash n, node_type_to_u8 (id_node_type n), off, len) # child_table c (off + len) ns)"

definition node_header :: "codec \<Rightarrow> e_merkle_tree_node \<Rightarrow> merkle_hash option \<Rightarrow> byte list" where
  "node_header c n parent_id =
     node_type_to_u8 (id_node_type n) #
     to_le 16 (case parent_id of Some p \<Rightarrow> unat p | None \<Rightarrow> 0) @
     to_le 4 (length (node_bytes c n) mod 2 ^ 32) @ node_bytes c n"

lemma unat_less_256 [simp]:
  "unat (h :: 128 word) < 256 ^ 16" "unat (w :: 64 word) < 256 ^ 8" "unat (v :: 32 word) < 256 ^ 4"
  using unsigned_less [of h] unsigned_less [of w] unsigned_less [of v] by simp_all

lemma from_le_to_le_word [simp]:
  "from_le (to_le 16 (unat (h :: 128 word))) = unat h"
  "from_le (to_le 8 (unat (w :: 64 word))) = unat w"
  by (rule from_le_to_le_small, rule unat_less_256)+

lemma read_exact_1 [simp]: "read_exact (Suc 0) (b # bs) = Inr ([b], bs)"
  by (simp add: read_exact_def)

lemma load_offsets_enc: "load_offsets (enc_entry e @ bs) = rbind (load_offsets bs) (\<lambda>os. Inr (e # os))"
proof -
  obtain h d off len where e: "e = (h, d, off, len)" by (cases e)
  show ?thesis by (subst load_offsets.simps) (simp add: e enc_entry_def)
qed

lemma load_offsets_table: "load_offsets (concat (map enc_entry es)) = Inr es"
proof (induction es)
  case Nil
  then show ?case by (simp add: load_offsets.simps)
next
  case (Cons e es)
  then show ?case by (simp add: load_offsets_enc)
qed

lemma lookup_load_header:
  assumes "node_codec_ok c n"
  shows "lookup_load (node_header c n p @ concat (map enc_entry es)) =
    Inr \<lparr>lk_data_type = node_type_to_u8 (node_type n),
         lk_parent_id = (case p of Some h \<Rightarrow> h | None \<Rightarrow> 0), lk_data = node_bytes c n,
         lk_num_children = word_of_nat (length es), lk_offsets = es\<rparr>"
proof -
  have "length (node_bytes c n) < 256 ^ 4" using node_codec_okD(3) [OF assms] by simp
  then have len: "from_le (to_le 4 (length (node_bytes c n) mod 2 ^ 32)) = length (node_bytes c n)"
    using node_codec_okD(3) [OF assms] by simp
  have "from_le (to_le 16 (case p of Some h \<Rightarrow> unat h | None \<Rightarrow> 0)) = (case p of Some h \<Rightarrow> unat h | None \<Rightarrow> 0)"
    by (cases p) simp_all
  then have par: "word_of_nat (from_le (to_le 16 (case p of Some h \<Rightarrow> unat h | None \<Rightarrow> 0)))
      = (case p of Some h \<Rightarrow> h | None \<Rightarrow> (0 :: merkle_hash))"
    by (cases p) simp_all
  show ?thesis
    using par len node_codec_okD(1) [OF assms]
    by (simp add: lookup_load_def node_header_def load_offsets_table)
qed

lemma map_entry_table:
  assumes "\<forall>k \<in> set kids. node_codec_ok c k"
    and "length pre + length (concat (map (node_bytes c) kids)) < 2 ^ 64"
  shows "rmap (map_entry c pid (pre @ concat (map (node_bytes c) kids)))
      (child_table c (word_of_nat (length pre)) kids)
    = Inr (map (\<lambda>k. (node_hash k, MTNode (node_hash k) k (Some pid) [])) kids)"
  using assms
proof (induction kids arbitrary: pre)
  case (Cons k kids)
  let ?b = "node_bytes c k"
  have ok: "node_codec_ok c k" using Cons.prems by simp
  have fits: "length pre < 2 ^ 64" "length ?b < 2 ^ 64" using Cons.prems(2) by simp_all
  then have off: "unat (word_of_nat (length pre) :: u64) = length pre" "unat (word_of_nat (length ?b) :: u64) = length ?b"
    by (simp_all add: unat_of_nat take_bit_eq_mod)
  have sum: "word_of_nat (length pre) + word_of_nat (length ?b) = (word_of_nat (length (pre @ ?b)) :: u64)"
    by simp
  have IH: "rmap (map_entry c pid ((pre @ ?b) @ concat (map (node_bytes c) kids)))
      (child_table c (word_of_nat (length (pre @ ?b))) kids)
    = Inr (map (\<lambda>k. (node_hash k, MTNode (node_hash k) k (Some pid) [])) kids)"
    by (rule Cons.IH) (use Cons.prems in auto)
  have "map_entry c pid (pre @ ?b @ concat (map (node_bytes c) kids))
      (node_hash k, node_type_to_u8 (id_node_type k), word_of_nat (length pre), word_of_nat (length ?b))
    = Inr (node_hash k, MTNode (node_hash k) k (Some pid) [])"
    using off node_codec_okD [OF ok] by (simp add: map_entry_def)
  with IH show ?case by (simp only: child_table.simps Let_def sum list.map concat.simps append_assoc rmap.simps rbind_simps)
qed simp

section \<open>Writing\<close>

text \<open>An open writer whose two files hold \<open>nb\<close> and \<open>cb\<close>, both handles at the end.\<close>

definition writing :: "merkle_node_db \<Rightarrow> fs \<Rightarrow> path \<Rightarrow> byte list \<Rightarrow> byte list \<Rightarrow> bool" where
  "writing db f p nb cb \<longleftrightarrow>
     \<not> db_read_only db \<and>
     db_node_file db = Some \<lparr>fh_path = path_join p [node_file_name], fh_pos = length nb\<rparr> \<and>
     db_children_file db = Some \<lparr>fh_path = path_join p [children_file_name], fh_pos = length cb\<rparr> \<and>
     fs_files f (path_join p [node_file_name]) = Some nb \<and>
     fs_files f (path_join p [children_file_name]) = Some cb \<and>
     db_data_offset db = word_of_nat (length cb)"

definition same_elsewhere :: "path \<Rightarrow> fs \<Rightarrow> fs \<Rightarrow> bool" where
  "same_elsewhere p f g \<longleftrightarrow>
     (\<forall>q. q \<noteq> path_join p [node_file_name] \<and> q \<noteq> path_join p [children_file_name] \<longrightarrow> fs_files g q = fs_files f q)"

lemma same_elsewhere_refl [simp]: "same_elsewhere p f f"
  by (simp add: same_elsewhere_def)

lemma same_elsewhere_trans: "same_elsewhere p f g \<Longrightarrow> same_elsewhere p g h \<Longrightarrow> same_elsewhere p f h"
  by (simp add: same_elsewhere_def)

lemma file_names_differ [simp]:
  "path_join p [node_file_name] \<noteq> path_join p [children_file_name]"
  "path_join p [children_file_name] \<noteq> path_join p [node_file_name]"
  by (simp_all add: node_file_name_def children_file_name_def)

lemma write_all_end:
  assumes "fs_files f q = Some bs"
  shows "write_all \<lparr>fh_path = q, fh_pos = length bs\<rparr> xs f =
    (\<lparr>fh_path = q, fh_pos = length bs + length xs\<rparr>, f\<lparr>fs_files := (fs_files f)(q \<mapsto> bs @ xs)\<rparr>)"
  using assms by (simp add: write_all_def file_content_def Let_def)

lemma add_child_writing:
  assumes w: "writing db f p nb cb" and ser: "to_msgpack_bytes c n = Inr buf"
    and res: "add_child c n (db, f) = (r, db', f')"
  shows "r = Inr () \<and> same_elsewhere p f f' \<and>
    writing db' f' p
      (nb @ enc_entry (node_hash n, node_type_to_u8 (id_node_type n), word_of_nat (length cb), word_of_nat (length buf)))
      (cb @ buf)"
proof -
  let ?e = "enc_entry (node_hash n, node_type_to_u8 (id_node_type n), word_of_nat (length cb), word_of_nat (length buf))"
  let ?n = "path_join p [node_file_name]" and ?c = "path_join p [children_file_name]"
  let ?f1 = "f\<lparr>fs_files := (fs_files f)(?n \<mapsto> nb @ ?e)\<rparr>"
  note w' = w [unfolded writing_def]
  have w1: "write_all \<lparr>fh_path = ?n, fh_pos = length nb\<rparr> ?e f = (\<lparr>fh_path = ?n, fh_pos = length nb + length ?e\<rparr>, ?f1)"
    using w' by (intro write_all_end) simp
  have w2: "write_all \<lparr>fh_path = ?c, fh_pos = length cb\<rparr> buf ?f1 =
      (\<lparr>fh_path = ?c, fh_pos = length cb + length buf\<rparr>, ?f1\<lparr>fs_files := (fs_files ?f1)(?c \<mapsto> cb @ buf)\<rparr>)"
    using w' by (intro write_all_end) simp
  have "add_child c n (db, f) =
      (Inr (), db\<lparr>db_node_file := Some \<lparr>fh_path = ?n, fh_pos = length nb + length ?e\<rparr>,
                 db_children_file := Some \<lparr>fh_path = ?c, fh_pos = length cb + length buf\<rparr>,
                 db_data_offset := db_data_offset db + word_of_nat (length buf)\<rparr>,
       ?f1\<lparr>fs_files := (fs_files ?f1)(?c \<mapsto> cb @ buf)\<rparr>)"
    using w' ser w1 w2 by (simp add: add_child_def enc_entry_def Let_def)
  with res w' show ?thesis by (auto simp: writing_def same_elsewhere_def)
qed

lemma add_children_writing:
  assumes "writing db f p nb cb" and "\<forall>k \<in> set kids. node_codec_ok c k"
    and "sfor (add_child c) kids (db, f) = (r, db', f')"
  shows "r = Inr () \<and> same_elsewhere p f f' \<and>
    writing db' f' p (nb @ concat (map enc_entry (child_table c (word_of_nat (length cb)) kids)))
      (cb @ concat (map (node_bytes c) kids))"
  using assms
proof (induction kids arbitrary: db f nb cb)
  case Nil
  then show ?case by (simp add: slift_def)
next
  case (Cons k kids)
  have ok: "node_codec_ok c k" using Cons.prems by simp
  obtain q db1 f1 where s: "add_child c k (db, f) = (q, db1, f1)" by (metis prod_cases3)
  let ?e = "enc_entry (node_hash k, node_type_to_u8 (id_node_type k), word_of_nat (length cb),
    word_of_nat (length (node_bytes c k)))"
  have w: "q = Inr ()" "same_elsewhere p f f1" "writing db1 f1 p (nb @ ?e) (cb @ node_bytes c k)"
    using add_child_writing [OF Cons.prems(1) node_codec_okD(2) [OF ok] s] by blast+
  have "sfor (add_child c) kids (db1, f1) = (r, db', f')"
    using Cons.prems(3) s w(1) by (simp add: sbind_def)
  from Cons.IH [OF w(3) _ this] Cons.prems(2) w(2) show ?case
    by (auto intro: same_elsewhere_trans simp: Let_def)
qed

lemma create_dir_all_files [simp]: "fs_files (create_dir_all p f) = fs_files f"
  by (simp add: create_dir_all_def)

lemma db_open_writing:
  assumes "db_open p False f = (r, f')"
  shows "\<exists>db. r = Inr db \<and> same_elsewhere p f f' \<and> writing db f' p [] []"
proof -
  define f1 where "f1 = (if path_exists p f then f else create_dir_all p f)"
  have f1: "fs_files f1 = fs_files f" by (simp add: f1_def)
  have "r = Inr \<lparr>db_dtype = TCommit, db_node_id = 0, db_parent_id = None, db_read_only = False,
      db_path = p, db_node_file = Some \<lparr>fh_path = path_join p [node_file_name], fh_pos = 0\<rparr>,
      db_children_file = Some \<lparr>fh_path = path_join p [children_file_name], fh_pos = 0\<rparr>,
      db_lookup = None, db_data = [], db_num_children = 0, db_data_offset = 0\<rparr> \<and>
    f' = f1\<lparr>fs_files := (fs_files f1)(path_join p [node_file_name] \<mapsto> [], path_join p [children_file_name] \<mapsto> [])\<rparr>"
    using assms unfolding db_open_def f1_def [symmetric] by (simp add: file_create_def Let_def)
  then show ?thesis using f1 by (simp add: writing_def same_elsewhere_def)
qed

lemma to_le_0: "to_le k 0 = replicate k 0"
  by (induction k) simp_all

lemma write_node_writing:
  assumes w: "writing db f p [] []" and ok: "node_codec_ok c n"
    and res: "write_node c n pid (db, f) = (r, db', f')"
  shows "r = Inr () \<and> same_elsewhere p f f' \<and> writing db' f' p (node_header c n pid) []"
proof -
  let ?n = "path_join p [node_file_name]"
  let ?b = "node_bytes c n"
  define head where "head = node_type_to_u8 (id_node_type n) #
      (case pid of Some p \<Rightarrow> to_le 16 (unat p) | None \<Rightarrow> replicate 16 0)"
  define len where "len = to_le 4 (length ?b mod 2 ^ 32)"
  have header: "node_header c n pid = (head @ len) @ ?b"
    by (cases pid) (simp_all add: node_header_def head_def len_def to_le_0)
  define f1 where "f1 = f\<lparr>fs_files := (fs_files f)(?n \<mapsto> [] @ head)\<rparr>"
  define f2 where "f2 = f1\<lparr>fs_files := (fs_files f1)(?n \<mapsto> head @ len)\<rparr>"
  define f3 where "f3 = f2\<lparr>fs_files := (fs_files f2)(?n \<mapsto> (head @ len) @ ?b)\<rparr>"
  have w1: "write_all \<lparr>fh_path = ?n, fh_pos = 0\<rparr> head f = (\<lparr>fh_path = ?n, fh_pos = length head\<rparr>, f1)"
    using write_all_end [of f ?n "[]" head] w by (simp add: writing_def f1_def)
  have w2: "write_all \<lparr>fh_path = ?n, fh_pos = length head\<rparr> len f1 = (\<lparr>fh_path = ?n, fh_pos = length (head @ len)\<rparr>, f2)"
    using write_all_end [of f1 ?n head len] by (simp add: f1_def f2_def)
  have w3: "write_all \<lparr>fh_path = ?n, fh_pos = length (head @ len)\<rparr> ?b f2 =
      (\<lparr>fh_path = ?n, fh_pos = length ((head @ len) @ ?b)\<rparr>, f3)"
    using write_all_end [of f2 ?n "head @ len" ?b] by (simp add: f2_def f3_def)
  have len': "to_le 4 (length ?b mod 4294967296) = len" by (simp add: len_def)
  have "write_node c n pid (db, f) =
      (Inr (), db\<lparr>db_node_file := Some \<lparr>fh_path = ?n, fh_pos = length ((head @ len) @ ?b)\<rparr>,
                 db_dtype := id_node_type n, db_node_id := node_hash n, db_parent_id := pid\<rparr>, f3)"
    using w w1 w2 w3 node_codec_okD(2) [OF ok]
    unfolding writing_def write_node_def head_def [symmetric] len_def [symmetric]
    by (simp add: Let_def len' del: append_assoc)
  with res w show ?thesis
    by (simp add: header writing_def same_elsewhere_def f1_def f2_def f3_def del: append_assoc)
       (auto simp: same_elsewhere_def)
qed

lemma same_elsewhere_same [simp]: "same_elsewhere p (create_dir_all q f) g \<longleftrightarrow> same_elsewhere p f g"
  by (simp add: same_elsewhere_def)

lemma open_read_write_writing:
  assumes ok: "node_codec_ok c n" and res: "open_read_write c rp n pid f = (r, f')"
  shows "\<exists>db. r = Inr db \<and> same_elsewhere (node_db_path rp (node_hash n)) f f' \<and>
    writing db f' (node_db_path rp (node_hash n)) (node_header c n pid) []"
proof -
  let ?p = "node_db_path rp (node_hash n)"
  define f1 where "f1 = (if path_exists ?p f then f else create_dir_all ?p f)"
  have same1: "same_elsewhere ?p f f1" by (simp add: f1_def same_elsewhere_def)
  obtain q f2 where o: "db_open ?p False f1 = (q, f2)" by force
  obtain db where db: "q = Inr db" "same_elsewhere ?p f1 f2" "writing db f2 ?p [] []"
    using db_open_writing [OF o] by blast
  obtain q3 db3 f3 where w: "write_node c n pid (db, f2) = (q3, db3, f3)" by (metis prod_cases3)
  note w3 = write_node_writing [OF db(3) ok w]
  have "r = Inr db3 \<and> f' = f3"
    using res o db(1) w w3 by (simp add: open_read_write_def f1_def Let_def)
  with w3 same1 db(2) show ?thesis by (blast intro: same_elsewhere_trans)
qed

text \<open>The two files a completed write leaves.\<close>

lemma write_node_db_files:
  assumes ok: "node_codec_ok c n" "\<forall>k \<in> set kids. node_codec_ok c k"
    and res: "write_node_db c rp n pid kids f = (r, f')"
  shows "r = Inr () \<and> same_elsewhere (node_db_path rp (node_hash n)) f f' \<and>
    fs_files f' (path_join (node_db_path rp (node_hash n)) [node_file_name]) =
      Some (node_header c n pid @ concat (map enc_entry (child_table c 0 kids))) \<and>
    fs_files f' (path_join (node_db_path rp (node_hash n)) [children_file_name]) =
      Some (concat (map (node_bytes c) kids))"
proof -
  let ?p = "node_db_path rp (node_hash n)"
  obtain q f1 where o: "open_read_write c rp n pid f = (q, f1)" by force
  obtain db where db: "q = Inr db" "same_elsewhere ?p f f1" "writing db f1 ?p (node_header c n pid) []"
    using open_read_write_writing [OF ok(1) o] by blast
  obtain q2 db2 f2 where s: "sfor (add_child c) kids (db, f1) = (q2, db2, f2)" by (metis prod_cases3)
  note w = add_children_writing [OF db(3) ok(2) s]
  have "r = q2 \<and> f' = f2" using res o db(1) s by (simp add: write_node_db_def)
  with w db(2) show ?thesis by (auto simp: writing_def intro: same_elsewhere_trans)
qed

section \<open>Reading\<close>

text \<open>What a reader of a node sees depends on its two files only.\<close>

lemma db_open_read:
  "fst (db_open p True f) =
     (case (fs_files f (path_join p [node_file_name]), fs_files f (path_join p [children_file_name])) of
        (Some nb, Some cb) \<Rightarrow>
          rbind (lookup_load nb) (\<lambda>l.
          rbind (node_type_from_u8 (lk_data_type l)) (\<lambda>dtype.
            Inr \<lparr>db_dtype = dtype, db_node_id = 0, db_parent_id = Some (lk_parent_id l),
                 db_read_only = True, db_path = p,
                 db_node_file = Some \<lparr>fh_path = path_join p [node_file_name], fh_pos = length nb\<rparr>,
                 db_children_file = Some \<lparr>fh_path = path_join p [children_file_name], fh_pos = 0\<rparr>,
                 db_lookup = Some l, db_data = [], db_num_children = 0, db_data_offset = 0\<rparr>))
      | _ \<Rightarrow> Inl (Basic ''Failed to open file''))"
proof -
  define f1 where "f1 = (if path_exists p f then f else create_dir_all p f)"
  have f1: "fs_files f1 = fs_files f" by (simp add: f1_def)
  show ?thesis
    unfolding db_open_def f1_def [symmetric]
    by (auto simp: Let_def open_file_def read_to_end_def file_content_def f1 split: option.splits)
qed

lemma db_open_read_files: "fs_files (snd (db_open p True f)) = fs_files f"
  by (simp add: db_open_def Let_def)

definition read_view :: "codec \<Rightarrow> path \<Rightarrow> fs \<Rightarrow> merkle_hash \<Rightarrow>
    merkle_tree_node res \<times> (merkle_hash \<times> merkle_tree_node) list res" where
  "read_view c rp f h =
     (fst (from_hash_uncached c rp h f), fst (read_children_from_hash_uncached c rp h f))"

lemma from_hash_uncached_fst:
  "fst (from_hash_uncached c rp h f) =
     rbind (fst (db_open (node_db_path rp h) True f))
       (\<lambda>db. rbind (db_node c db) (\<lambda>node. Inr (MTNode h node (db_parent_id db) [])))"
  by (auto simp: from_hash_uncached_def open_read_only_def rbind_def split: prod.splits sum.splits)

lemma db_map_cong:
  "fs_files f = fs_files g \<Longrightarrow> fst (db_map c (db, f)) = fst (db_map c (db, g))"
  by (auto simp: db_map_def read_to_end_def file_content_def Let_def split: option.splits sum.splits)

lemma read_children_fst:
  "fst (read_children_from_hash_uncached c rp h f) =
     (case fst (db_open (node_db_path rp h) True f) of
        Inl e \<Rightarrow> Inr []
      | Inr db \<Rightarrow> fst (db_map c (db, f)))"
proof -
  obtain r f1 where o: "db_open (node_db_path rp h) True f = (r, f1)" by force
  have "fs_files f1 = fs_files f" using db_open_read_files [of "node_db_path rp h" f] o by simp
  then have "fst (db_map c (db, f1)) = fst (db_map c (db, f))" for db by (rule db_map_cong)
  then show ?thesis
    using o by (auto simp: read_children_from_hash_uncached_def open_read_only_def split: sum.splits prod.splits)
       (metis fst_conv)
qed

lemma node_db_path_eq: "node_db_path rp h = nodes_dir rp @ node_db_prefix h"
proof -
  have "node_db_prefix h = [Normal (take 3 (merkle_hash_to_string h))] \<or>
      node_db_prefix h = [Normal (take 3 (merkle_hash_to_string h)), Normal (drop 3 (merkle_hash_to_string h))]"
    by (simp add: node_db_prefix_eq Let_def)
  then show ?thesis by (auto simp: node_db_path_def path_join_def nodes_dir_def is_absolute_def)
qed

lemma node_db_path_inj:
  assumes "node_db_path rp g = node_db_path rp h"
  shows "g = h"
proof -
  from assms have "node_db_prefix g = node_db_prefix h" by (simp add: node_db_path_eq)
  then show ?thesis by (rule node_db_prefix_two_level)
qed

lemma read_view_files:
  assumes "\<And>x. x \<in> {node_file_name, children_file_name} \<Longrightarrow>
    fs_files f' (path_join (node_db_path rp g) [x]) = fs_files f (path_join (node_db_path rp g) [x])"
  shows "read_view c rp f' g = read_view c rp f g"
proof -
  let ?p = "node_db_path rp g"
  have o: "fst (db_open ?p True f') = fst (db_open ?p True f)" using assms by (simp add: db_open_read)
  have "fst (db_map c (db, f')) = fst (db_map c (db, f))"
    if "fst (db_open ?p True f) = Inr db" for db
  proof -
    have "db_children_file db = Some \<lparr>fh_path = path_join ?p [children_file_name], fh_pos = 0\<rparr>"
      using that by (auto simp: db_open_read rbind_eq_Inr split: option.splits)
    then show ?thesis
      using assms by (auto simp: db_map_def read_to_end_def file_content_def Let_def split: option.splits sum.splits)
  qed
  then show ?thesis
    by (auto simp: read_view_def from_hash_uncached_fst read_children_fst o split: sum.splits)
qed

lemma read_view_other:
  assumes "same_elsewhere (node_db_path rp h) f f'" and "g \<noteq> h"
  shows "read_view c rp f' g = read_view c rp f g"
proof (rule read_view_files)
  fix x
  assume x: "x \<in> {node_file_name, children_file_name}"
  let ?p = "node_db_path rp g"
  have "?p \<noteq> node_db_path rp h" using node_db_path_inj assms(2) by blast
  then have "path_join ?p [x] \<noteq> path_join (node_db_path rp h) [node_file_name]"
      "path_join ?p [x] \<noteq> path_join (node_db_path rp h) [children_file_name]"
    using x by (auto simp: node_file_name_def children_file_name_def)
  with assms(1) show "fs_files f' (path_join ?p [x]) = fs_files f (path_join ?p [x])" unfolding same_elsewhere_def by blast
qed

lemma read_view_written:
  assumes ok: "node_codec_ok c n" "\<forall>k \<in> set kids. node_codec_ok c k"
    and small: "length (concat (map (node_bytes c) kids)) < 2 ^ 64"
    and nf: "fs_files f (path_join (node_db_path rp (node_hash n)) [node_file_name]) =
      Some (node_header c n pid @ concat (map enc_entry (child_table c 0 kids)))"
    and cf: "fs_files f (path_join (node_db_path rp (node_hash n)) [children_file_name]) =
      Some (concat (map (node_bytes c) kids))"
  shows "read_view c rp f (node_hash n) =
    (Inr (MTNode (node_hash n) n (Some (case pid of Some p \<Rightarrow> p | None \<Rightarrow> 0)) []),
     Inr (map (\<lambda>k. (node_hash k, MTNode (node_hash k) k (Some (node_hash n)) [])) kids))"
proof -
  note load = lookup_load_header [OF ok(1), of pid "child_table c 0 kids"]
  have entries: "rmap (map_entry c (node_hash n) (concat (map (node_bytes c) kids))) (child_table c 0 kids) =
      Inr (map (\<lambda>k. (node_hash k, MTNode (node_hash k) k (Some (node_hash n)) [])) kids)"
    using map_entry_table [OF ok(2), of "[]"] small by simp
  show ?thesis
    using node_codec_okD(4) [OF ok(1)] deserialize_id_node [OF node_codec_okD(4) [OF ok(1)]] entries
    by (simp add: read_view_def from_hash_uncached_fst read_children_fst db_open_read nf cf load
        db_node_def db_get_data_def db_map_def read_to_end_def file_content_def Let_def)
qed

section \<open>Incomplete files\<close>

lemma length_enc_entry [simp]: "length (enc_entry e) = 33"
  by (cases e) (simp add: enc_entry_def)

lemma load_offsets_short:
  assumes "bs \<noteq> []" and "length bs < 33"
  shows "load_offsets bs = Inl (DbIo ''failed to fill whole buffer'')"
  using assms
  by (subst load_offsets.simps) (auto simp: read_exact_def)

lemma load_offsets_take:
  "k \<le> 33 * length es \<Longrightarrow> load_offsets (take k (concat (map enc_entry es))) =
     (if k mod 33 = 0 then Inr (take (k div 33) es) else Inl (DbIo ''failed to fill whole buffer''))"
proof (induction es arbitrary: k)
  case Nil
  then show ?case by (simp add: load_offsets.simps)
next
  case (Cons e es)
  show ?case
  proof (cases "k < 33")
    case True
    show ?thesis
    proof (cases "k = 0")
      case False
      with True have "load_offsets (take k (enc_entry e)) = Inl (DbIo ''failed to fill whole buffer'')"
        by (intro load_offsets_short) (auto simp: enc_entry_def split: prod.splits)
      with True False show ?thesis by simp
    qed (simp add: load_offsets.simps)
  next
    case False
    then obtain j where k: "k = 33 + j" by (metis le_add_diff_inverse not_less)
    with Cons have "load_offsets (take j (concat (map enc_entry es))) =
      (if j mod 33 = 0 then Inr (take (j div 33) es) else Inl (DbIo ''failed to fill whole buffer''))" by simp
    moreover have "(33 + j) div 33 = Suc (j div 33)" by presburger
    ultimately show ?thesis by (simp add: k load_offsets_enc)
  qed
qed

lemma lookup_load_no_header: "length bs < 21 \<Longrightarrow> lookup_load bs = Inl (DbIo ''failed to fill whole buffer'')"
  by (auto simp: lookup_load_def read_exact_def)

lemma lookup_load_no_data:
  assumes "length d < n" and "n < 256 ^ 4"
  shows "lookup_load (t # to_le 16 p @ to_le 4 n @ d) = Inl (DbIo ''failed to fill whole buffer'')"
proof -
  have "read_exact (from_le (to_le 4 n)) d = Inl (DbIo ''failed to fill whole buffer'')"
    unfolding from_le_to_le_small [OF assms(2)] using assms(1) by (simp add: read_exact_def)
  then show ?thesis by (simp add: lookup_load_def)
qed

lemma lookup_load_short:
  assumes "k < length (node_header c n pid)" and "length (node_bytes c n) < 2 ^ 32"
  shows "lookup_load (take k (node_header c n pid)) = Inl (DbIo ''failed to fill whole buffer'')"
proof -
  let ?d = "node_bytes c n"
  define head where "head = node_type_to_u8 (id_node_type n) #
    to_le 16 (case pid of Some p \<Rightarrow> unat p | None \<Rightarrow> 0) @ to_le 4 (length ?d mod 2 ^ 32)"
  have h1: "node_header c n pid = head @ ?d" by (simp only: node_header_def head_def append_Cons append_assoc)
  have h2: "length head = 21" by (simp add: head_def)
  note h = h1 h2
  show ?thesis
  proof (cases "k < 21")
    case True
    then have "length (take k (node_header c n pid)) < 21" by simp
    then show ?thesis by (rule lookup_load_no_header)
  next
    case False
    define j where "j = k - 21"
    have k: "k = 21 + j" using False by (simp add: j_def)
    have "length (node_header c n pid) = 21 + length ?d" by (simp only: h length_append)
    then have j: "j < length ?d" using assms(1) k by linarith
    have small: "length ?d mod 2 ^ 32 = length ?d" "length ?d < 256 ^ 4" using assms(2) by simp_all
    have "take k (node_header c n pid) = head @ take j ?d"
      unfolding h(1) k take_append h(2) by (simp add: h(2))
    also have "\<dots> = node_type_to_u8 (id_node_type n) # to_le 16 (case pid of Some p \<Rightarrow> unat p | None \<Rightarrow> 0) @
        to_le 4 (length ?d) @ take j ?d"
      by (simp only: head_def small(1) append_Cons append_assoc)
    finally have eq: "take k (node_header c n pid) = node_type_to_u8 (id_node_type n) #
        to_le 16 (case pid of Some p \<Rightarrow> unat p | None \<Rightarrow> 0) @ to_le 4 (length ?d) @ take j ?d" .
    show ?thesis
      unfolding eq
    proof (rule lookup_load_no_data)
      show "length (take j ?d) < length ?d" using j by simp
      show "length ?d < 256 ^ 4" by (rule small(2))
    qed
  qed
qed

section \<open>Properties\<close>

text \<open>C37: writing a node with its children refines a map update. After the write the disk reads,
  at the node's hash, as that node with its parent (zero for none) and as the list of its children
  in order, each with the node as parent; at every other hash it reads as before.\<close>

theorem write_node_db_refines_update:
  assumes "node_codec_ok c n" and "\<forall>k \<in> set kids. node_codec_ok c k"
    and "length (concat (map (node_bytes c) kids)) < 2 ^ 64"
    and "write_node_db c rp n pid kids f = (r, f')"
  shows "r = Inr () \<and>
    read_view c rp f' = (read_view c rp f)(node_hash n :=
      (Inr (MTNode (node_hash n) n (Some (case pid of Some p \<Rightarrow> p | None \<Rightarrow> 0)) []),
       Inr (map (\<lambda>k. (node_hash k, MTNode (node_hash k) k (Some (node_hash n)) [])) kids)))"
proof -
  note files = write_node_db_files [OF assms(1,2,4)]
  have "read_view c rp f' (node_hash n) =
    (Inr (MTNode (node_hash n) n (Some (case pid of Some p \<Rightarrow> p | None \<Rightarrow> 0)) []),
     Inr (map (\<lambda>k. (node_hash k, MTNode (node_hash k) k (Some (node_hash n)) [])) kids))"
    using read_view_written [OF assms(1-3)] files by blast
  moreover have "read_view c rp f' g = read_view c rp f g" if "g \<noteq> node_hash n" for g
    using read_view_other that files by blast
  ultimately show ?thesis using files by (simp add: fun_eq_iff)
qed

text \<open>A codec that knows two nodes, and an empty disk.\<close>

definition sample_codec :: codec where
  "sample_codec =
     \<lparr>to_msgpack_bytes = (\<lambda>n. case n of
        EVNode v \<Rightarrow> Inr [1, 2] | EFile f \<Rightarrow> Inr [3] | _ \<Rightarrow> Inl DbEncode),
      slice_file = (\<lambda>bs. if bs = [3] then Some (sample_file ''b'' 2) else None),
      slice_file_data = (\<lambda>_. None), slice_dir = (\<lambda>_. None), slice_dir_data = (\<lambda>_. None),
      slice_vnode = (\<lambda>bs. if bs = [1, 2] then Some (sample_vnode 4) else None),
      slice_vnode_data = (\<lambda>_. None), slice_commit = (\<lambda>_. None), slice_commit_data = (\<lambda>_. None),
      slice_chunk = (\<lambda>_. None)\<rparr>"

definition empty_fs :: fs where
  "empty_fs = \<lparr>fs_dirs = {}, fs_files = (\<lambda>_. None)\<rparr>"

lemma sample_codec_ok [simp]:
  "node_codec_ok sample_codec (EVNode (sample_vnode 4))"
  "node_codec_ok sample_codec (EFile (sample_file ''b'' 2))"
  by (simp_all add: node_codec_ok_def sample_codec_def sample_vnode_def sample_file_def
      vnode_deserialize_def file_node_deserialize_def file_node_default_def)

lemma write_node_db_refines_update_witness:
  "snd (read_view sample_codec [] (snd (write_node_db sample_codec [] (EVNode (sample_vnode 4)) None
      [EFile (sample_file ''b'' 2)] empty_fs)) 4) =
   Inr [(2, MTNode 2 (EFile (sample_file ''b'' 2)) (Some 4) [])]"
proof -
  obtain r f' where w: "write_node_db sample_codec [] (EVNode (sample_vnode 4)) None
      [EFile (sample_file ''b'' 2)] empty_fs = (r, f')" by force
  have small: "length (concat (map (node_bytes sample_codec) [EFile (sample_file ''b'' 2)])) < 2 ^ 64"
    by (simp add: node_bytes_def sample_codec_def)
  show ?thesis
    using write_node_db_refines_update [OF _ _ small w] by (simp add: w)
qed

text \<open>C39: a node file cut short is never misread. A cut inside the header, the node's data or an
  entry of the table is an error; a cut between two entries loads the entries before it.\<close>

theorem lookup_load_truncated:
  assumes "node_codec_ok c n" and "k \<le> length (node_header c n pid) + 33 * length es"
  shows "lookup_load (take k (node_header c n pid @ concat (map enc_entry es))) =
    (let m = k - length (node_header c n pid)
     in if k < length (node_header c n pid) \<or> m mod 33 \<noteq> 0
        then Inl (DbIo ''failed to fill whole buffer'')
        else Inr \<lparr>lk_data_type = node_type_to_u8 (node_type n),
             lk_parent_id = (case pid of Some h \<Rightarrow> h | None \<Rightarrow> 0), lk_data = node_bytes c n,
             lk_num_children = word_of_nat (m div 33), lk_offsets = take (m div 33) es\<rparr>)"
proof (cases "k < length (node_header c n pid)")
  case True
  with lookup_load_short [OF True node_codec_okD(3) [OF assms(1)]] show ?thesis by simp
next
  case False
  define m where "m = k - length (node_header c n pid)"
  have m: "m \<le> 33 * length es" "take k (node_header c n pid @ concat (map enc_entry es))
      = node_header c n pid @ take m (concat (map enc_entry es))"
    using False assms(2) by (simp_all add: m_def)
  have all: "concat (map enc_entry (take (m div 33) es)) = take m (concat (map enc_entry es))" if "m mod 33 = 0"
  proof -
    have "concat (map enc_entry (take j es)) = take (33 * j) (concat (map enc_entry es))" if "j \<le> length es" for j
      using that by (induction es arbitrary: j) (auto simp: take_Cons' right_diff_distrib')
    from this [of "m div 33"] that m(1) show ?thesis by (simp add: mod_0_imp_dvd)
  qed
  show ?thesis
  proof (cases "m mod 33 = 0")
    case True
    have "length (take (m div 33) es) = m div 33" using m(1) by simp
    with lookup_load_header [OF assms(1), of pid "take (m div 33) es"] True all False show ?thesis
      by (simp add: m(2) Let_def m_def [symmetric])
  next
    case bad: False
    have len: "length (node_bytes c n) < 256 ^ 4" using node_codec_okD(3) [OF assms(1)] by simp
    have "load_offsets (take m (concat (map enc_entry es))) = Inl (DbIo ''failed to fill whole buffer'')"
      using load_offsets_take [OF m(1)] bad by simp
    then show ?thesis using bad False node_codec_okD(3) [OF assms(1)]
      by (simp add: m(2) Let_def m_def [symmetric]) (simp add: lookup_load_def node_header_def)
  qed
qed

lemma lookup_load_truncated_witness:
  "lookup_load (take 30 (node_header sample_codec (EVNode (sample_vnode 4)) None @
     concat (map enc_entry [(2, 3, 0, 1)]))) = Inl (DbIo ''failed to fill whole buffer'')"
proof -
  have len: "length (node_header sample_codec (EVNode (sample_vnode 4)) None) = 23"
    by (simp add: node_header_def node_bytes_def sample_codec_def)
  show ?thesis
    using lookup_load_truncated [OF sample_codec_ok(1), of 30 None "[(2, 3, 0, 1)]"] by (simp add: len)
qed

end
