(* ===== verification/Node_Cache.thy ===== *)
theory Node_Cache
  imports Node_Db_Props
begin

text \<open>
  The caches of \<open>merkle_tree_node_cache.rs\<close> and the cached reads of \<open>MerkleTreeNode\<close>: per
  repository one cache of nodes and one of children lists, a global switch and a switch of the
  thread. \<open>LruCache\<close> of the crate \<open>lru\<close> is a parameter: its operations are the fields of
  \<open>lru_ops\<close>, and \<open>lru_laws\<close> states what its documentation says of them. The locks are not
  modelled: an operation holds them for its whole body.
\<close>

section \<open>The crate's cache\<close>

record ('c, 'v) lru_ops =
  lru_new :: 'c
  lru_get :: "merkle_hash \<Rightarrow> 'c \<Rightarrow> 'v option \<times> 'c"
  lru_put :: "merkle_hash \<Rightarrow> 'v \<Rightarrow> 'c \<Rightarrow> 'c"

text \<open>
  \<open>holds\<close> is the content of a cache. A new cache is empty; \<open>get\<close> answers from the content and
  keeps it (it changes the order of use only); after \<open>put\<close> the key has the value and every other
  key either its old value or none (it was evicted).
\<close>

definition lru_laws :: "('c, 'v) lru_ops \<Rightarrow> ('c \<Rightarrow> merkle_hash \<Rightarrow> 'v option) \<Rightarrow> bool" where
  "lru_laws ops holds \<longleftrightarrow>
     (\<forall>k. holds (lru_new ops) k = None) \<and>
     (\<forall>k c. fst (lru_get ops k c) = holds c k) \<and>
     (\<forall>k c. holds (snd (lru_get ops k c)) = holds c) \<and>
     (\<forall>k v c. holds (lru_put ops k v c) k = Some v) \<and>
     (\<forall>k v c j w. j \<noteq> k \<longrightarrow> holds (lru_put ops k v c) j = Some w \<longrightarrow> holds c j = Some w)"

type_synonym child_list = "(merkle_hash \<times> merkle_tree_node) list"

section \<open>The caches of all repositories\<close>

record ('n, 'c) cache_state =
  cache_enabled :: bool
  thread_cache_disabled :: bool
  node_caches :: "path \<Rightarrow> 'n option"
  children_caches :: "path \<Rightarrow> 'c option"

record ('n, 'c) cache_ops =
  node_ops :: "('n, merkle_tree_node) lru_ops"
  children_ops :: "('c, child_list) lru_ops"

definition enable :: "('n, 'c) cache_state \<Rightarrow> ('n, 'c) cache_state" where
  "enable s = s\<lparr>cache_enabled := True\<rparr>"

definition is_cache_enabled :: "('n, 'c) cache_state \<Rightarrow> bool" where
  "is_cache_enabled s \<longleftrightarrow> cache_enabled s \<and> \<not> thread_cache_disabled s"

text \<open>The guard's \<open>drop\<close> clears the flag after the closure.\<close>

definition with_cache_disabled ::
  "(('n, 'c) cache_state \<Rightarrow> 'r \<times> ('n, 'c) cache_state) \<Rightarrow> ('n, 'c) cache_state \<Rightarrow> 'r \<times> ('n, 'c) cache_state" where
  "with_cache_disabled g s =
     (let (r, s') = g (s\<lparr>thread_cache_disabled := True\<rparr>)
      in (r, s'\<lparr>thread_cache_disabled := False\<rparr>))"

definition get_node_cache :: "('n, 'c) cache_ops \<Rightarrow> path \<Rightarrow> ('n, 'c) cache_state \<Rightarrow> 'n" where
  "get_node_cache ops rp s = (case node_caches s rp of Some c \<Rightarrow> c | None \<Rightarrow> lru_new (node_ops ops))"

definition get_children_cache :: "('n, 'c) cache_ops \<Rightarrow> path \<Rightarrow> ('n, 'c) cache_state \<Rightarrow> 'c" where
  "get_children_cache ops rp s =
     (case children_caches s rp of Some c \<Rightarrow> c | None \<Rightarrow> lru_new (children_ops ops))"

definition get_cached_node ::
  "('n, 'c) cache_ops \<Rightarrow> path \<Rightarrow> merkle_hash \<Rightarrow> ('n, 'c) cache_state \<Rightarrow> merkle_tree_node option \<times> ('n, 'c) cache_state" where
  "get_cached_node ops rp h s =
     (if \<not> is_cache_enabled s then (None, s)
      else (let (r, c) = lru_get (node_ops ops) h (get_node_cache ops rp s)
            in (r, s\<lparr>node_caches := (node_caches s)(rp \<mapsto> c)\<rparr>)))"

definition cache_node ::
  "('n, 'c) cache_ops \<Rightarrow> path \<Rightarrow> merkle_hash \<Rightarrow> merkle_tree_node \<Rightarrow> ('n, 'c) cache_state \<Rightarrow> ('n, 'c) cache_state" where
  "cache_node ops rp h n s =
     (if \<not> is_cache_enabled s then s
      else s\<lparr>node_caches := (node_caches s)(rp \<mapsto> lru_put (node_ops ops) h n (get_node_cache ops rp s))\<rparr>)"

definition get_cached_children ::
  "('n, 'c) cache_ops \<Rightarrow> path \<Rightarrow> merkle_hash \<Rightarrow> ('n, 'c) cache_state \<Rightarrow> child_list option \<times> ('n, 'c) cache_state" where
  "get_cached_children ops rp h s =
     (if \<not> is_cache_enabled s then (None, s)
      else (let (r, c) = lru_get (children_ops ops) h (get_children_cache ops rp s)
            in (r, s\<lparr>children_caches := (children_caches s)(rp \<mapsto> c)\<rparr>)))"

definition cache_children ::
  "('n, 'c) cache_ops \<Rightarrow> path \<Rightarrow> merkle_hash \<Rightarrow> child_list \<Rightarrow> ('n, 'c) cache_state \<Rightarrow> ('n, 'c) cache_state" where
  "cache_children ops rp h cs s =
     (if \<not> is_cache_enabled s then s
      else s\<lparr>children_caches := (children_caches s)(rp \<mapsto> lru_put (children_ops ops) h cs (get_children_cache ops rp s))\<rparr>)"

definition remove_from_cache :: "path \<Rightarrow> ('n, 'c) cache_state \<Rightarrow> ('n, 'c) cache_state" where
  "remove_from_cache rp s =
     s\<lparr>node_caches := (node_caches s)(rp := None), children_caches := (children_caches s)(rp := None)\<rparr>"

section \<open>Cached reads\<close>

text \<open>\<open>MerkleTreeNode::from_hash\<close> and \<open>read_children_from_hash\<close>; only a successful read is cached.\<close>

definition from_hash ::
  "codec \<Rightarrow> ('n, 'c) cache_ops \<Rightarrow> path \<Rightarrow> merkle_hash \<Rightarrow> (('n, 'c) cache_state \<times> fs, merkle_tree_node) st" where
  "from_hash c ops rp h = (\<lambda>(s, f).
     case get_cached_node ops rp h s of
       (Some n, s1) \<Rightarrow> (Inr n, s1, f)
     | (None, s1) \<Rightarrow>
         (case from_hash_uncached c rp h f of
            (Inl e, f1) \<Rightarrow> (Inl e, s1, f1)
          | (Inr n, f1) \<Rightarrow> (Inr n, cache_node ops rp h n s1, f1)))"

definition read_children_from_hash ::
  "codec \<Rightarrow> ('n, 'c) cache_ops \<Rightarrow> path \<Rightarrow> merkle_hash \<Rightarrow> (('n, 'c) cache_state \<times> fs, child_list) st" where
  "read_children_from_hash c ops rp h = (\<lambda>(s, f).
     case get_cached_children ops rp h s of
       (Some cs, s1) \<Rightarrow> (Inr cs, s1, f)
     | (None, s1) \<Rightarrow>
         (case read_children_from_hash_uncached c rp h f of
            (Inl e, f1) \<Rightarrow> (Inl e, s1, f1)
          | (Inr cs, f1) \<Rightarrow> (Inr cs, cache_children ops rp h cs s1, f1)))"

section \<open>Coherence\<close>

text \<open>Every cached value of the repository is what the disk reads.\<close>

definition coherent ::
  "codec \<Rightarrow> ('n, 'c) cache_ops \<Rightarrow> ('n \<Rightarrow> merkle_hash \<Rightarrow> merkle_tree_node option) \<Rightarrow>
   ('c \<Rightarrow> merkle_hash \<Rightarrow> child_list option) \<Rightarrow> path \<Rightarrow> ('n, 'c) cache_state \<Rightarrow> fs \<Rightarrow> bool" where
  "coherent c ops hn hc rp s f \<longleftrightarrow>
     (\<forall>h n. hn (get_node_cache ops rp s) h = Some n \<longrightarrow> fst (read_view c rp f h) = Inr n) \<and>
     (\<forall>h cs. hc (get_children_cache ops rp s) h = Some cs \<longrightarrow> snd (read_view c rp f h) = Inr cs)"

lemma read_view_fs_files: "fs_files f = fs_files g \<Longrightarrow> read_view c rp f = read_view c rp g"
  using db_map_cong [of f g]
  by (auto simp: read_view_def from_hash_uncached_fst read_children_fst db_open_read fun_eq_iff split: sum.splits)

lemma from_hash_uncached_files: "fs_files (snd (from_hash_uncached c rp h f)) = fs_files f"
  using db_open_read_files [of "node_db_path rp h" f]
  by (auto simp: from_hash_uncached_def open_read_only_def split: prod.splits sum.splits)

lemma db_map_files: "snd (snd (db_map c (db, f))) = f"
  by (auto simp: db_map_def Let_def split: option.splits sum.splits prod.splits)

lemma read_children_uncached_files: "fs_files (snd (read_children_from_hash_uncached c rp h f)) = fs_files f"
proof -
  obtain r f1 where o: "db_open (node_db_path rp h) True f = (r, f1)" by force
  then have "fs_files f1 = fs_files f" using db_open_read_files [of "node_db_path rp h" f] by simp
  moreover have "db_map c (db, f1) = (r, db', f2) \<Longrightarrow> f2 = f1" for db r db' f2
    using db_map_files [of c db f1] by simp
  ultimately show ?thesis
    using o by (auto simp: read_children_from_hash_uncached_def open_read_only_def split: prod.splits sum.splits)
qed

lemma node_cache_updates [simp]:
  "get_node_cache ops rp (s\<lparr>node_caches := (node_caches s)(rp \<mapsto> c)\<rparr>) = c"
  "get_children_cache ops rp (s\<lparr>node_caches := m\<rparr>) = get_children_cache ops rp s"
  "get_children_cache ops rp (s\<lparr>children_caches := (children_caches s)(rp \<mapsto> d)\<rparr>) = d"
  "get_node_cache ops rp (s\<lparr>children_caches := k\<rparr>) = get_node_cache ops rp s"
  by (simp_all add: get_node_cache_def get_children_cache_def)

text \<open>What the four cache operations do to the contents.\<close>

lemma get_cached_node_contents:
  assumes "lru_laws (node_ops ops) hn" and "get_cached_node ops rp h s = (m, s1)"
  shows "(m = None \<or> m = hn (get_node_cache ops rp s) h) \<and>
    hn (get_node_cache ops rp s1) = hn (get_node_cache ops rp s) \<and>
    get_children_cache ops rp s1 = get_children_cache ops rp s"
proof (cases "is_cache_enabled s")
  case True
  obtain r c where g: "lru_get (node_ops ops) h (get_node_cache ops rp s) = (r, c)" by force
  have "r = hn (get_node_cache ops rp s) h" "hn c = hn (get_node_cache ops rp s)"
    using assms(1) g unfolding lru_laws_def by (metis fst_conv, metis snd_conv)
  with True g assms(2) show ?thesis by (auto simp: get_cached_node_def)
next
  case False
  with assms(2) show ?thesis by (simp add: get_cached_node_def)
qed

lemma cache_node_contents:
  assumes "lru_laws (node_ops ops) hn"
  shows "(hn (get_node_cache ops rp (cache_node ops rp h n s)) j = Some w \<longrightarrow>
      j = h \<and> w = n \<or> hn (get_node_cache ops rp s) j = Some w) \<and>
    get_children_cache ops rp (cache_node ops rp h n s) = get_children_cache ops rp s"
proof -
  have "hn (lru_put (node_ops ops) h n cc) j = Some w \<longrightarrow> j = h \<and> w = n \<or> hn cc j = Some w" for cc
    using assms unfolding lru_laws_def by (metis option.inject)
  then show ?thesis by (simp add: cache_node_def)
qed

lemma get_cached_children_contents:
  assumes "lru_laws (children_ops ops) hc" and "get_cached_children ops rp h s = (m, s1)"
  shows "(m = None \<or> m = hc (get_children_cache ops rp s) h) \<and>
    hc (get_children_cache ops rp s1) = hc (get_children_cache ops rp s) \<and>
    get_node_cache ops rp s1 = get_node_cache ops rp s"
proof (cases "is_cache_enabled s")
  case True
  obtain r c where g: "lru_get (children_ops ops) h (get_children_cache ops rp s) = (r, c)" by force
  have "r = hc (get_children_cache ops rp s) h" "hc c = hc (get_children_cache ops rp s)"
    using assms(1) g unfolding lru_laws_def by (metis fst_conv, metis snd_conv)
  with True g assms(2) show ?thesis by (auto simp: get_cached_children_def)
next
  case False
  with assms(2) show ?thesis by (simp add: get_cached_children_def)
qed

lemma cache_children_contents:
  assumes "lru_laws (children_ops ops) hc"
  shows "(hc (get_children_cache ops rp (cache_children ops rp h n s)) j = Some w \<longrightarrow>
      j = h \<and> w = n \<or> hc (get_children_cache ops rp s) j = Some w) \<and>
    get_node_cache ops rp (cache_children ops rp h n s) = get_node_cache ops rp s"
proof -
  have "hc (lru_put (children_ops ops) h n cc) j = Some w \<longrightarrow> j = h \<and> w = n \<or> hc cc j = Some w" for cc
    using assms unfolding lru_laws_def by (metis option.inject)
  then show ?thesis by (simp add: cache_children_def)
qed

lemma coherent_same:
  assumes "coherent c ops hn hc rp s f" and "hn (get_node_cache ops rp s1) = hn (get_node_cache ops rp s)"
    and "hc (get_children_cache ops rp s1) = hc (get_children_cache ops rp s)"
    and "read_view c rp f1 = read_view c rp f"
  shows "coherent c ops hn hc rp s1 f1"
  using assms by (simp add: coherent_def)

lemma coherent_node_put:
  assumes "coherent c ops hn hc rp s f"
    and "\<And>j w. hn (get_node_cache ops rp s1) j = Some w \<longrightarrow> j = h \<and> w = n \<or> hn (get_node_cache ops rp s) j = Some w"
    and "get_children_cache ops rp s1 = get_children_cache ops rp s"
    and "fst (read_view c rp f h) = Inr n"
  shows "coherent c ops hn hc rp s1 f"
  unfolding coherent_def
proof (intro conjI allI impI)
  fix j w assume "hn (get_node_cache ops rp s1) j = Some w"
  with assms(2) have "j = h \<and> w = n \<or> hn (get_node_cache ops rp s) j = Some w" by blast
  with assms(1,4) show "fst (read_view c rp f j) = Inr w" by (auto simp: coherent_def)
qed (use assms(1,3) in \<open>simp add: coherent_def\<close>)

lemma coherent_children_put:
  assumes "coherent c ops hn hc rp s f"
    and "\<And>j w. hc (get_children_cache ops rp s1) j = Some w \<longrightarrow> j = h \<and> w = n \<or> hc (get_children_cache ops rp s) j = Some w"
    and "get_node_cache ops rp s1 = get_node_cache ops rp s"
    and "snd (read_view c rp f h) = Inr n"
  shows "coherent c ops hn hc rp s1 f"
  unfolding coherent_def
proof (intro conjI allI impI)
  fix j w assume "hc (get_children_cache ops rp s1) j = Some w"
  with assms(2) have "j = h \<and> w = n \<or> hc (get_children_cache ops rp s) j = Some w" by blast
  with assms(1,4) show "snd (read_view c rp f j) = Inr w" by (auto simp: coherent_def)
qed (use assms(1,3) in \<open>simp add: coherent_def\<close>)

text \<open>A cached read answers what an uncached read answers and keeps the caches coherent.\<close>

lemma from_hash_coherent:
  assumes laws: "lru_laws (node_ops ops) hn" and co: "coherent c ops hn hc rp s f"
    and res: "from_hash c ops rp h (s, f) = (r, s', f')"
  shows "r = fst (read_view c rp f h) \<and> coherent c ops hn hc rp s' f' \<and> fs_files f' = fs_files f"
proof -
  obtain m s1 where g: "get_cached_node ops rp h s = (m, s1)" by force
  note gc = get_cached_node_contents [OF laws g]
  have co1: "coherent c ops hn hc rp s1 f" by (rule coherent_same [OF co]) (use gc in simp_all)
  show ?thesis
  proof (cases m)
    case (Some n)
    with gc have "hn (get_node_cache ops rp s) h = Some n" by auto
    with co have "fst (read_view c rp f h) = Inr n" by (simp add: coherent_def)
    with res g Some co1 show ?thesis by (simp add: from_hash_def)
  next
    case None
    obtain q f1 where u: "from_hash_uncached c rp h f = (q, f1)" by force
    have files: "fs_files f1 = fs_files f" using from_hash_uncached_files [of c rp h f] u by simp
    then have view: "read_view c rp f1 = read_view c rp f" by (rule read_view_fs_files)
    have q: "fst (read_view c rp f h) = q" using u by (simp add: read_view_def)
    have co2: "coherent c ops hn hc rp s1 f1" by (rule coherent_same [OF co1]) (use view in simp_all)
    have "coherent c ops hn hc rp (cache_node ops rp h n s1) f1" if "q = Inr n" for n
      by (rule coherent_node_put [OF co2]) (use cache_node_contents [OF laws] q that view in simp_all)
    with res g None u q co2 files show ?thesis by (cases q) (auto simp: from_hash_def)
  qed
qed

lemma read_children_coherent:
  assumes laws: "lru_laws (children_ops ops) hc" and co: "coherent c ops hn hc rp s f"
    and res: "read_children_from_hash c ops rp h (s, f) = (r, s', f')"
  shows "r = snd (read_view c rp f h) \<and> coherent c ops hn hc rp s' f' \<and> fs_files f' = fs_files f"
proof -
  obtain m s1 where g: "get_cached_children ops rp h s = (m, s1)" by force
  note gc = get_cached_children_contents [OF laws g]
  have co1: "coherent c ops hn hc rp s1 f" by (rule coherent_same [OF co]) (use gc in simp_all)
  show ?thesis
  proof (cases m)
    case (Some n)
    with gc have "hc (get_children_cache ops rp s) h = Some n" by auto
    with co have "snd (read_view c rp f h) = Inr n" by (simp add: coherent_def)
    with res g Some co1 show ?thesis by (simp add: read_children_from_hash_def)
  next
    case None
    obtain q f1 where u: "read_children_from_hash_uncached c rp h f = (q, f1)" by force
    have files: "fs_files f1 = fs_files f" using read_children_uncached_files [of c rp h f] u by simp
    then have view: "read_view c rp f1 = read_view c rp f" by (rule read_view_fs_files)
    have q: "snd (read_view c rp f h) = q" using u by (simp add: read_view_def)
    have co2: "coherent c ops hn hc rp s1 f1" by (rule coherent_same [OF co1]) (use view in simp_all)
    have "coherent c ops hn hc rp (cache_children ops rp h n s1) f1" if "q = Inr n" for n
      by (rule coherent_children_put [OF co2]) (use cache_children_contents [OF laws] q that view in simp_all)
    with res g None u q co2 files show ?thesis by (cases q) (auto simp: read_children_from_hash_def)
  qed
qed

section \<open>Properties\<close>

text \<open>C38: on coherent caches a cached read of a node and a cached read of its children answer exactly
  what the disk reads, errors included, and leave the caches coherent and the files untouched,
  whether the cache is on or off and whatever it has evicted.\<close>

theorem cached_reads_refine_disk:
  assumes "lru_laws (node_ops ops) hn" and "lru_laws (children_ops ops) hc"
    and "coherent c ops hn hc rp s f"
    and "from_hash c ops rp h (s, f) = (r, s1, f1)"
    and "read_children_from_hash c ops rp h (s1, f1) = (q, s2, f2)"
  shows "r = fst (read_view c rp f h) \<and> q = snd (read_view c rp f h) \<and>
    coherent c ops hn hc rp s2 f2 \<and> fs_files f2 = fs_files f"
proof -
  note 1 = from_hash_coherent [OF assms(1,3,4)]
  have co: "coherent c ops hn hc rp s1 f1" using 1 by blast
  note 2 = read_children_coherent [OF assms(2) co assms(5)]
  have "fs_files f1 = fs_files f" using 1 by blast
  then have "read_view c rp f1 = read_view c rp f" by (rule read_view_fs_files)
  with 1 2 show ?thesis by simp
qed

text \<open>A cache that never evicts.\<close>

definition map_lru :: "(merkle_hash \<Rightarrow> 'v option, 'v) lru_ops" where
  "map_lru = \<lparr>lru_new = (\<lambda>_. None), lru_get = (\<lambda>k c. (c k, c)), lru_put = (\<lambda>k v c. c(k \<mapsto> v))\<rparr>"

lemma map_lru_laws [simp]: "lru_laws map_lru (\<lambda>c. c)"
  by (auto simp: lru_laws_def map_lru_def)

definition sample_cache ::
  "bool \<Rightarrow> (merkle_hash \<Rightarrow> merkle_tree_node option, merkle_hash \<Rightarrow> child_list option) cache_state" where
  "sample_cache on = \<lparr>cache_enabled = on, thread_cache_disabled = False,
     node_caches = (\<lambda>_. None), children_caches = (\<lambda>_. None)\<rparr>"

definition sample_ops ::
  "(merkle_hash \<Rightarrow> merkle_tree_node option, merkle_hash \<Rightarrow> child_list option) cache_ops" where
  "sample_ops = \<lparr>node_ops = map_lru, children_ops = map_lru\<rparr>"

lemma sample_coherent: "coherent c sample_ops (\<lambda>c. c) (\<lambda>c. c) rp (sample_cache on) f"
  by (simp add: coherent_def sample_cache_def sample_ops_def get_node_cache_def get_children_cache_def map_lru_def)

lemma cached_reads_refine_disk_witness:
  "fst (read_children_from_hash sample_codec sample_ops [] 4
     (snd (from_hash sample_codec sample_ops [] 4 (sample_cache True, empty_fs)))) = Inr []"
proof -
  obtain r s1 f1 where 1: "from_hash sample_codec sample_ops [] 4 (sample_cache True, empty_fs) = (r, s1, f1)"
    by (metis prod_cases3)
  obtain q s2 f2 where 2: "read_children_from_hash sample_codec sample_ops [] 4 (s1, f1) = (q, s2, f2)"
    by (metis prod_cases3)
  have "q = snd (read_view sample_codec [] empty_fs 4)"
    using cached_reads_refine_disk [OF _ _ sample_coherent 1 2] by (simp add: sample_ops_def)
  then show ?thesis
    using 1 2 by (simp add: read_view_def read_children_fst db_open_read empty_fs_def)
qed

text \<open>The cache can hide data. Reading the children of a node that is not on disk answers an
  empty list and caches it; once the node is written (by a fetch, say) the disk lists its children,
  but the cached read of the same process still answers the empty list.\<close>

theorem cached_missing_children_stay_empty:
  assumes "lru_laws (children_ops ops) hc" and "is_cache_enabled s"
    and "hc (get_children_cache ops rp s) (node_hash n) = None"
    and "fs_files f (path_join (node_db_path rp (node_hash n)) [node_file_name]) = None"
    and "node_codec_ok c n" and "\<forall>k \<in> set kids. node_codec_ok c k"
    and "length (concat (map (node_bytes c) kids)) < 2 ^ 64"
    and "read_children_from_hash c ops rp (node_hash n) (s, f) = (r, s1, f1)"
    and "write_node_db c rp n pid kids f1 = (w, f2)"
    and "read_children_from_hash c ops rp (node_hash n) (s1, f2) = (r', s2, f3)"
  shows "r = Inr [] \<and> r' = Inr [] \<and>
    snd (read_view c rp f2 (node_hash n)) =
      Inr (map (\<lambda>k. (node_hash k, MTNode (node_hash k) k (Some (node_hash n)) [])) kids)"
proof -
  let ?h = "node_hash n"
  obtain m sa where g: "get_cached_children ops rp ?h s = (m, sa)" by force
  note gc = get_cached_children_contents [OF assms(1) g]
  have m: "m = None" using gc assms(3) by auto
  have on: "is_cache_enabled sa" using g assms(2) by (auto simp: get_cached_children_def is_cache_enabled_def split: prod.splits)
  obtain q fa where u: "read_children_from_hash_uncached c rp ?h f = (q, fa)" by force
  have q: "q = Inr []"
    using u read_children_fst [of c rp ?h f] assms(4) by (simp add: db_open_read)
  have r: "r = Inr []" "s1 = cache_children ops rp ?h [] sa"
    using assms(8) g m u q by (simp_all add: read_children_from_hash_def)
  have "hc (lru_put (children_ops ops) ?h [] (get_children_cache ops rp sa)) ?h = Some []"
    using assms(1) by (simp add: lru_laws_def)
  with on r(2) have hit: "hc (get_children_cache ops rp s1) ?h = Some []" "is_cache_enabled s1"
    by (simp_all add: cache_children_def is_cache_enabled_def)
  obtain m2 sb where g2: "get_cached_children ops rp ?h s1 = (m2, sb)" by force
  have "fst (lru_get (children_ops ops) ?h (get_children_cache ops rp s1)) = Some []"
    using assms(1) hit(1) by (simp add: lru_laws_def)
  then have "m2 = Some []" using g2 hit(2) by (auto simp: get_cached_children_def split: prod.splits)
  then have "r' = Inr []" using assms(10) g2 by (simp add: read_children_from_hash_def)
  moreover have "snd (read_view c rp f2 ?h) = Inr (map (\<lambda>k. (node_hash k, MTNode (node_hash k) k (Some ?h) [])) kids)"
    using write_node_db_files [OF assms(5,6,9)] read_view_written [OF assms(5,6,7), of f2 rp pid] by simp
  ultimately show ?thesis using r by blast
qed

lemma cached_missing_children_stay_empty_witness:
  "\<exists>s1 f1 f2. read_children_from_hash sample_codec sample_ops [] 4 (sample_cache True, empty_fs) = (Inr [], s1, f1) \<and>
     snd (write_node_db sample_codec [] (EVNode (sample_vnode 4)) None [EFile (sample_file ''b'' 2)] f1) = f2 \<and>
     fst (read_children_from_hash sample_codec sample_ops [] 4 (s1, f2)) = Inr []"
proof -
  obtain r s1 f1 where 1: "read_children_from_hash sample_codec sample_ops [] (node_hash (EVNode (sample_vnode 4)))
      (sample_cache True, empty_fs) = (r, s1, f1)" by (metis prod_cases3)
  obtain w f2 where 2: "write_node_db sample_codec [] (EVNode (sample_vnode 4)) None [EFile (sample_file ''b'' 2)] f1 = (w, f2)"
    by force
  obtain r' s2 f3 where 3: "read_children_from_hash sample_codec sample_ops [] (node_hash (EVNode (sample_vnode 4))) (s1, f2)
      = (r', s2, f3)" by (metis prod_cases3)
  have "lru_laws (children_ops sample_ops) (\<lambda>c. c)" by (simp add: sample_ops_def)
  moreover have "is_cache_enabled (sample_cache True)" by (simp add: sample_cache_def is_cache_enabled_def)
  moreover have "get_children_cache sample_ops [] (sample_cache True) (node_hash (EVNode (sample_vnode 4))) = None"
    by (simp add: get_children_cache_def sample_cache_def sample_ops_def map_lru_def)
  moreover have "fs_files empty_fs (path_join (node_db_path [] (node_hash (EVNode (sample_vnode 4)))) [node_file_name]) = None"
    by (simp add: empty_fs_def)
  moreover have "length (concat (map (node_bytes sample_codec) [EFile (sample_file ''b'' 2)])) < 2 ^ 64"
    by (simp add: node_bytes_def sample_codec_def)
  ultimately have "r = Inr [] \<and> r' = Inr []"
    using cached_missing_children_stay_empty [OF _ _ _ _ sample_codec_ok(1) _ _ 1 2 3] by simp
  with 1 2 3 show ?thesis by simp
qed

end
