(* ===== verification/Tree_Loader.thy ===== *)
theory Tree_Loader
  imports Merkle_Tree_Ops Node_Cache
begin

text \<open>
  \<open>CommitMerkleTree\<close> (\<open>core/v_latest/index/commit_merkle_tree.rs\<close>): loading trees from the node
  store, to a depth or whole, collecting hashes, paths or partial nodes on the way, and skipping to
  a directory or file by the commit's directory hashes. The store is an argument: what
  \<open>exists\<close>, \<open>from_hash\<close> and \<open>read_children_from_hash\<close> answer per hash (\<open>disk_store\<close> gives the
  answers of \<open>Node_Db\<close>, which the reads of \<open>Node_Cache\<close> agree with), and the entries of the
  directory-hash database (a RocksDB, third-party code). The answers are pure: opening the database of a
  node that is not there makes its directory, which no read looks at; \<open>Prune\<close>, which does look, adds
  these directories (\<open>after_reading\<close>). The recursion over the store is bounded
  by a fuel that stands for the stack: a store whose nodes contain themselves makes the code
  overflow its stack, and an acyclic store needs no more fuel than the height of the tree.
\<close>

section \<open>The store\<close>

record node_store =
  st_exists :: "merkle_hash \<Rightarrow> bool"
  st_from_hash :: "merkle_hash \<Rightarrow> merkle_tree_node res"
  st_children :: "merkle_hash \<Rightarrow> child_list res"
  st_dir_hashes :: "string \<Rightarrow> (string \<times> string) list res"

definition disk_store :: "codec \<Rightarrow> path \<Rightarrow> fs \<Rightarrow> (string \<Rightarrow> (string \<times> string) list res) \<Rightarrow> node_store" where
  "disk_store c rp f dhs =
     \<lparr>st_exists = (\<lambda>h. db_exists rp h f), st_from_hash = (\<lambda>h. fst (read_view c rp f h)),
      st_children = (\<lambda>h. snd (read_view c rp f h)), st_dir_hashes = dhs\<rparr>"

type_synonym dir_hash_map = "(path, merkle_hash) hash_map"

text \<open>\<open>dir_hashes\<close>: every value is parsed as a hash, the first that is none is the error.\<close>

definition dir_hashes :: "node_store \<Rightarrow> commit \<Rightarrow> dir_hash_map res" where
  "dir_hashes st commit =
     rbind (st_dir_hashes st (cm_id commit)) (\<lambda>kvs.
       rfold (\<lambda>(k, v) m. rbind (merkle_hash_from_str v) (\<lambda>h. Inr (AList.update (components k) h m))) kvs [])"

section \<open>Loading children\<close>

definition may_have_children :: "merkle_tree_node \<Rightarrow> bool" where
  "may_have_children t \<longleftrightarrow>
     node_type (t_node t) = TCommit \<or> node_type (t_node t) = TDir \<or> node_type (t_node t) = TVNode"

text \<open>Whether a child is loaded too: vnodes do not count in the depth, \<open>-1\<close> is no limit.\<close>

definition descends :: "int \<Rightarrow> int \<Rightarrow> merkle_tree_node \<Rightarrow> bool" where
  "descends requested traversed child \<longleftrightarrow>
     requested > traversed \<or> requested = -1 \<or> (requested = 0 \<and> node_type (t_node child) = TVNode)"

definition child_depth :: "int \<Rightarrow> merkle_tree_node \<Rightarrow> int" where
  "child_depth traversed child = (if node_type (t_node child) = TVNode then traversed else traversed + 1)"

record hash_sets =
  hs_unique :: "merkle_hash set option"
  hs_shared :: "merkle_hash set option"

definition note_unique :: "merkle_hash \<Rightarrow> hash_sets \<Rightarrow> hash_sets" where
  "note_unique h s = s\<lparr>hs_unique := map_option (insert h) (hs_unique s)\<rparr>"

definition note_shared :: "merkle_hash \<Rightarrow> hash_sets \<Rightarrow> hash_sets" where
  "note_shared h s = s\<lparr>hs_shared := map_option (insert h) (hs_shared s)\<rparr>"

definition in_base :: "'a set option \<Rightarrow> 'a \<Rightarrow> bool" where
  "in_base base x \<longleftrightarrow> (case base of None \<Rightarrow> False | Some b \<Rightarrow> x \<in> b)"

definition push_children :: "merkle_tree_node \<Rightarrow> merkle_tree_node list \<Rightarrow> merkle_tree_node" where
  "push_children t cs = MTNode (t_hash t) (t_node t) (t_parent_id t) (t_children t @ cs)"

fun load_children ::
  "node_store \<Rightarrow> merkle_hash set option \<Rightarrow> int \<Rightarrow> nat \<Rightarrow> int \<Rightarrow> merkle_tree_node \<Rightarrow> (hash_sets, merkle_tree_node) st" where
  "load_children st base req 0 trav node = slift (Inl (Panic ''stack overflow''))"
| "load_children st base req (Suc k) trav node =
     (if \<not> may_have_children node then slift (Inr node)
      else if in_base base (t_hash node) then (\<lambda>s. (Inr node, note_shared (t_hash node) s))
      else (\<lambda>s.
        sbind (slift (st_children st (t_hash node))) (\<lambda>children.
        sbind (smap (\<lambda>(_, child).
            if may_have_children child \<and> descends req trav child
            then load_children st base req k (child_depth trav child) child
            else slift (Inr child)) children) (\<lambda>cs.
          slift (Inr (push_children node cs)))) (note_unique (t_hash node) s)))"

section \<open>Loading with paths\<close>

type_synonym path_key = "merkle_hash \<times> merkle_tree_node_type"

record path_maps =
  pm_unique :: "(path_key, path) hash_map option"
  pm_shared :: "(path_key, path) hash_map option"

definition path_key :: "merkle_tree_node \<Rightarrow> path_key" where
  "path_key t = (t_hash t, node_type (t_node t))"

fun load_children_and_collect_paths ::
  "node_store \<Rightarrow> (path_key, path) hash_map option \<Rightarrow> int \<Rightarrow> nat \<Rightarrow> int \<Rightarrow> path \<Rightarrow> merkle_tree_node \<Rightarrow>
   (path_maps, merkle_tree_node) st" where
  "load_children_and_collect_paths st base req 0 trav cur node = slift (Inl (Panic ''stack overflow''))"
| "load_children_and_collect_paths st base req (Suc k) trav cur node =
     (if \<not> may_have_children node then slift (Inr node)
      else if in_base (map_option (dom \<circ> map_of) base) (path_key node)
      then (\<lambda>s. (Inr node, s\<lparr>pm_shared := map_option (AList.update (path_key node) cur) (pm_shared s)\<rparr>))
      else (\<lambda>s.
        sbind (slift (st_children st (t_hash node))) (\<lambda>children.
        sbind (smap (\<lambda>(_, child).
            if may_have_children child \<and> descends req trav child
            then load_children_and_collect_paths st base req k (child_depth trav child) (child_path cur child) child
            else slift (Inr child)) children) (\<lambda>cs.
          slift (Inr (push_children node cs))))
        (s\<lparr>pm_unique := map_option (AList.update (path_key node) cur) (pm_unique s)\<rparr>)))"

section \<open>Loading with partial nodes\<close>

text \<open>
  \<open>last_modified_time\<close>: seconds and nanoseconds since the epoch; negative seconds, read as an
  unsigned number, overflow the clock and panic.
\<close>

definition last_modified_time :: "i64 \<Rightarrow> u32 \<Rightarrow> (int \<times> nat) res" where
  "last_modified_time s ns =
     (if s < 0 then Inl (Panic ''overflow when adding duration to instant'')
      else Inr (s + int (unat ns div 10 ^ 9), unat ns mod 10 ^ 9))"

record partial_node =
  pn_hash :: merkle_hash
  pn_last_modified :: "int \<times> nat"
  pn_size :: u64

definition partial_node_from :: "file_node \<Rightarrow> partial_node res" where
  "partial_node_from f =
     rbind (last_modified_time (fn_last_modified_seconds f) (fn_last_modified_nanoseconds f)) (\<lambda>t.
       Inr \<lparr>pn_hash = fn_hash f, pn_last_modified = t, pn_size = fn_num_bytes f\<rparr>)"

type_synonym partial_state = "hash_sets \<times> (path, partial_node) hash_map"

fun load_children_and_collect_partial_nodes ::
  "node_store \<Rightarrow> merkle_hash set option \<Rightarrow> int \<Rightarrow> nat \<Rightarrow> int \<Rightarrow> path \<Rightarrow> merkle_tree_node \<Rightarrow>
   (partial_state, merkle_tree_node) st" where
  "load_children_and_collect_partial_nodes st base req 0 trav cur node = slift (Inl (Panic ''stack overflow''))"
| "load_children_and_collect_partial_nodes st base req (Suc k) trav cur node =
     (if \<not> may_have_children node then slift (Inr node)
      else if in_base base (t_hash node) then (\<lambda>(s, ps). (Inr node, note_shared (t_hash node) s, ps))
      else (\<lambda>(s, ps).
        sbind (slift (st_children st (t_hash node))) (\<lambda>children.
        sbind (smap (\<lambda>(_, child).
            if may_have_children child
            then if descends req trav child
                 then load_children_and_collect_partial_nodes st base req k (child_depth trav child)
                        (child_path cur child) child
                 else slift (Inr child)
            else (case t_node child of
                EFile f \<Rightarrow> sbind (slift (partial_node_from f)) (\<lambda>pn (s', ps').
                  (Inr child, s', AList.update (join_str cur (fn_name f)) pn ps'))
              | _ \<Rightarrow> slift (Inr child))) children) (\<lambda>cs.
          slift (Inr (push_children node cs)))) (note_unique (t_hash node) s, ps)))"

section \<open>Loading the unique children\<close>

text \<open>The list holds each visited node as it was before its children were loaded.\<close>

fun load_unique_children_list ::
  "(merkle_hash \<times> merkle_tree_node \<Rightarrow> merkle_hash \<times> merkle_tree_node \<Rightarrow> bool) \<Rightarrow> node_store \<Rightarrow> merkle_hash set \<Rightarrow> nat \<Rightarrow> merkle_tree_node \<Rightarrow>
   (merkle_hash set \<times> (merkle_hash \<times> merkle_tree_node) list, merkle_tree_node) st" where
  "load_unique_children_list found st shared 0 node = slift (Inl (Panic ''stack overflow''))"
| "load_unique_children_list found st shared (Suc k) node =
     (if \<not> may_have_children node then slift (Inr node)
      else if t_hash node \<in> shared then slift (Inr node)
      else (\<lambda>(unique, list).
        (case st_children st (t_hash node) of
           Inl e \<Rightarrow> (Inl e, insert (t_hash node) unique, list)
         | Inr children \<Rightarrow>
             sbind (smap (\<lambda>(_, child).
                 if may_have_children child then load_unique_children_list found st shared k child
                 else slift (Inr child)) children) (\<lambda>cs.
               slift (Inr (push_children node cs)))
             (insert (t_hash node) unique, insert_by found (t_hash node, node) list))))"

section \<open>Reading by hash\<close>

definition no_sets :: hash_sets where
  "no_sets = \<lparr>hs_unique = None, hs_shared = None\<rparr>"

definition read_depth :: "node_store \<Rightarrow> nat \<Rightarrow> merkle_hash \<Rightarrow> int \<Rightarrow> merkle_tree_node option res" where
  "read_depth st fuel h depth =
     (if \<not> st_exists st h then Inr None
      else rbind (st_from_hash st h) (\<lambda>node.
           rbind (fst (load_children st None depth fuel 0 node no_sets)) (\<lambda>t. Inr (Some t))))"

definition read_depth_and_collect_hashes ::
  "node_store \<Rightarrow> nat \<Rightarrow> merkle_hash \<Rightarrow> merkle_hash set option \<Rightarrow> int \<Rightarrow> (hash_sets, merkle_tree_node option) st" where
  "read_depth_and_collect_hashes st fuel h base depth =
     (if \<not> st_exists st h then slift (Inr None)
      else sbind (slift (st_from_hash st h)) (\<lambda>node.
           sbind (load_children st base depth fuel 0 node) (\<lambda>t. slift (Inr (Some t)))))"

text \<open>
  \<open>read_depth_and_collect_paths\<close> has the parameters (base, shared, unique) and passes them on in
  that order to a function whose parameters are (base, unique, shared): the map the caller gave for
  the shared hashes collects the unique ones and the other way round.
\<close>

definition swap_maps :: "path_maps \<Rightarrow> path_maps" where
  "swap_maps s = \<lparr>pm_unique = pm_shared s, pm_shared = pm_unique s\<rparr>"

definition read_depth_and_collect_paths ::
  "node_store \<Rightarrow> nat \<Rightarrow> merkle_hash \<Rightarrow> (path_key, path) hash_map option \<Rightarrow> int \<Rightarrow> (path_maps, merkle_tree_node option) st" where
  "read_depth_and_collect_paths st fuel h base depth =
     (if \<not> st_exists st h then slift (Inr None)
      else sbind (slift (st_from_hash st h)) (\<lambda>node s.
        (case load_children_and_collect_paths st base depth fuel 0 [] node (swap_maps s) of
           (Inl e, s') \<Rightarrow> (Inl e, swap_maps s')
         | (Inr t, s') \<Rightarrow> (Inr (Some t), swap_maps s'))))"

definition read_depth_and_collect_partial_nodes ::
  "node_store \<Rightarrow> nat \<Rightarrow> merkle_hash \<Rightarrow> merkle_hash set option \<Rightarrow> int \<Rightarrow> (partial_state, merkle_tree_node option) st" where
  "read_depth_and_collect_partial_nodes st fuel h base depth =
     (if \<not> st_exists st h then slift (Inr None)
      else sbind (slift (st_from_hash st h)) (\<lambda>node.
           sbind (load_children_and_collect_partial_nodes st base depth fuel 0 [] node) (\<lambda>t.
             slift (Inr (Some t)))))"

definition read_node :: "node_store \<Rightarrow> nat \<Rightarrow> merkle_hash \<Rightarrow> bool \<Rightarrow> merkle_tree_node option res" where
  "read_node st fuel h recurse = read_depth st fuel h (if recurse then -1 else 1)"

definition read_node_and_collect_hashes ::
  "node_store \<Rightarrow> nat \<Rightarrow> merkle_hash \<Rightarrow> merkle_hash set option \<Rightarrow> (hash_sets, merkle_tree_node option) st" where
  "read_node_and_collect_hashes st fuel h base =
     (if \<not> st_exists st h then slift (Inr None) else read_depth_and_collect_hashes st fuel h base (-1))"

definition read_node_and_collect_paths ::
  "node_store \<Rightarrow> nat \<Rightarrow> merkle_hash \<Rightarrow> (path_key, path) hash_map option \<Rightarrow> (path_maps, merkle_tree_node option) st" where
  "read_node_and_collect_paths st fuel h base =
     (if \<not> st_exists st h then slift (Inr None) else read_depth_and_collect_paths st fuel h base (-1))"

definition read_node_and_collect_partial_nodes ::
  "node_store \<Rightarrow> nat \<Rightarrow> merkle_hash \<Rightarrow> merkle_hash set option \<Rightarrow> (partial_state, merkle_tree_node option) st" where
  "read_node_and_collect_partial_nodes st fuel h base =
     (if \<not> st_exists st h then slift (Inr None)
      else read_depth_and_collect_partial_nodes st fuel h base (-1))"

section \<open>Reading by commit\<close>

definition root_with_children :: "node_store \<Rightarrow> nat \<Rightarrow> commit \<Rightarrow> merkle_tree_node option res" where
  "root_with_children st fuel commit =
     rbind (merkle_hash_from_str (cm_id commit)) (\<lambda>h. read_node st fuel h True)"

definition root_without_children :: "node_store \<Rightarrow> nat \<Rightarrow> commit \<Rightarrow> merkle_tree_node option res" where
  "root_without_children st fuel commit =
     rbind (merkle_hash_from_str (cm_id commit)) (\<lambda>h. read_node st fuel h False)"

definition root_with_children_and_node_hashes ::
  "node_store \<Rightarrow> nat \<Rightarrow> commit \<Rightarrow> merkle_hash set option \<Rightarrow> (hash_sets, merkle_tree_node option) st" where
  "root_with_children_and_node_hashes st fuel commit base =
     sbind (slift (merkle_hash_from_str (cm_id commit))) (\<lambda>h. read_node_and_collect_hashes st fuel h base)"

definition root_with_children_and_partial_nodes ::
  "node_store \<Rightarrow> nat \<Rightarrow> commit \<Rightarrow> merkle_hash set option \<Rightarrow> (partial_state, merkle_tree_node option) st" where
  "root_with_children_and_partial_nodes st fuel commit base =
     sbind (slift (merkle_hash_from_str (cm_id commit))) (\<lambda>h. read_node_and_collect_partial_nodes st fuel h base)"

definition read_nodes :: "node_store \<Rightarrow> nat \<Rightarrow> commit \<Rightarrow> path list \<Rightarrow> (path, merkle_tree_node) hash_map res" where
  "read_nodes st fuel commit paths =
     rbind (dir_hashes st commit) (\<lambda>dhs.
       rfold (\<lambda>p nodes.
         case map_of dhs p of
           None \<Rightarrow> Inr nodes
         | Some h \<Rightarrow> rbind (read_depth st fuel h 1) (\<lambda>r.
             Inr (case r of None \<Rightarrow> nodes | Some node \<Rightarrow> AList.update p node nodes))) paths [])"

section \<open>Reading by path\<close>

text \<open>
  \<open>read_file\<close>: the vnode of a file is the hash of its path modulo the number of vnodes.
  \<open>hash128\<close> is \<open>xxh3_128\<close>, third-party code.
\<close>

definition read_file ::
  "(byte list \<Rightarrow> merkle_hash) \<Rightarrow> node_store \<Rightarrow> nat \<Rightarrow> dir_hash_map \<Rightarrow> path \<Rightarrow> merkle_tree_node option res" where
  "read_file hash128 st fuel dhs path =
     (case path_parent path of
        None \<Rightarrow> Inr None
      | Some parent_path \<Rightarrow>
          (case path_file_name path of
             None \<Rightarrow> Inl (Panic ''unwrap'')
           | Some file_name \<Rightarrow>
               (case map_of dhs parent_path of
                  None \<Rightarrow> Inr None
                | Some dir_hash \<Rightarrow>
                    rbind (read_depth st fuel dir_hash 0) (\<lambda>dir.
                      case dir of
                        None \<Rightarrow> Inr None
                      | Some dir_node \<Rightarrow>
                          (let vnodes = t_children dir_node
                           in if vnodes = [] then Inr None
                              else (let bucket = unat (hash128 (as_bytes (path_to_str path))) mod length vnodes
                                    in rbind (read_depth st fuel (t_hash (vnodes ! bucket)) 0) (\<lambda>v.
                                         case v of
                                           None \<Rightarrow> Inr None
                                         | Some vnode \<Rightarrow> Inr (get_by_path vnode (components file_name)))))))))"

definition node_path_of :: "path \<Rightarrow> path" where
  "node_path_of p = (if p = [CurDir] then [] else p)"

definition read_depth_from_path ::
  "(byte list \<Rightarrow> merkle_hash) \<Rightarrow> node_store \<Rightarrow> nat \<Rightarrow> commit \<Rightarrow> path \<Rightarrow> int \<Rightarrow> merkle_tree_node option res" where
  "read_depth_from_path hash128 st fuel commit path depth =
     (let node_path = node_path_of path
      in rbind (dir_hashes st commit) (\<lambda>dhs.
           case map_of dhs node_path of
             Some h \<Rightarrow> rbind (read_depth st fuel h depth) (\<lambda>r.
               case r of None \<Rightarrow> Inl (Basic ''Merkle tree hash not found for dir'') | Some root \<Rightarrow> Inr (Some root))
           | None \<Rightarrow> rbind (read_file hash128 st fuel dhs node_path) (\<lambda>r.
               case r of None \<Rightarrow> Inl (Basic ''Merkle tree hash not found for file'') | Some root \<Rightarrow> Inr (Some root))))"

definition read_depth_from_path_and_collect_hashes ::
  "(byte list \<Rightarrow> merkle_hash) \<Rightarrow> node_store \<Rightarrow> nat \<Rightarrow> commit \<Rightarrow> path \<Rightarrow> merkle_hash set option \<Rightarrow> int \<Rightarrow>
   (hash_sets, merkle_tree_node option) st" where
  "read_depth_from_path_and_collect_hashes hash128 st fuel commit path base depth =
     (let node_path = node_path_of path
      in sbind (slift (dir_hashes st commit)) (\<lambda>dhs.
           case map_of dhs node_path of
             Some h \<Rightarrow> sbind (read_depth_and_collect_hashes st fuel h base depth) (\<lambda>r.
               slift (case r of None \<Rightarrow> Inl (Basic ''Merkle tree hash not found for dir'') | Some root \<Rightarrow> Inr (Some root)))
           | None \<Rightarrow> sbind (slift (read_file hash128 st fuel dhs node_path)) (\<lambda>r.
               slift (case r of None \<Rightarrow> Inl (Basic ''Merkle tree hash not found for file'') | Some root \<Rightarrow> Inr (Some root)))))"

text \<open>Here the two maps are swapped once more on the way down, so they end in the right places.\<close>

definition read_depth_from_path_and_collect_paths ::
  "(byte list \<Rightarrow> merkle_hash) \<Rightarrow> node_store \<Rightarrow> nat \<Rightarrow> commit \<Rightarrow> path \<Rightarrow> (path_key, path) hash_map option \<Rightarrow> int \<Rightarrow>
   (path_maps, merkle_tree_node option) st" where
  "read_depth_from_path_and_collect_paths hash128 st fuel commit path base depth =
     (let node_path = node_path_of path
      in sbind (slift (dir_hashes st commit)) (\<lambda>dhs.
           case map_of dhs node_path of
             Some h \<Rightarrow> (\<lambda>s.
               (case read_depth_and_collect_paths st fuel h base depth (swap_maps s) of
                  (Inl e, s') \<Rightarrow> (Inl e, swap_maps s')
                | (Inr None, s') \<Rightarrow> (Inl (Basic ''Merkle tree hash not found for dir''), swap_maps s')
                | (Inr (Some root), s') \<Rightarrow> (Inr (Some root), swap_maps s')))
           | None \<Rightarrow> sbind (slift (read_file hash128 st fuel dhs node_path)) (\<lambda>r.
               slift (case r of None \<Rightarrow> Inl (Basic ''Merkle tree hash not found for file'') | Some root \<Rightarrow> Inr (Some root)))))"

definition read_from_path ::
  "(byte list \<Rightarrow> merkle_hash) \<Rightarrow> node_store \<Rightarrow> nat \<Rightarrow> commit \<Rightarrow> path \<Rightarrow> bool \<Rightarrow> merkle_tree_node option res" where
  "read_from_path hash128 st fuel commit path load_recursive =
     read_depth_from_path hash128 st fuel commit path (if load_recursive then -1 else 1)"

definition read_from_path_maybe ::
  "(byte list \<Rightarrow> merkle_hash) \<Rightarrow> node_store \<Rightarrow> nat \<Rightarrow> commit \<Rightarrow> path \<Rightarrow> bool \<Rightarrow> merkle_tree_node option res" where
  "read_from_path_maybe hash128 st fuel commit path load_recursive =
     (case read_from_path hash128 st fuel commit path load_recursive of
        Inr node \<Rightarrow> Inr node
      | Inl (Panic p) \<Rightarrow> Inl (Panic p)
      | Inl _ \<Rightarrow> Inr None)"

text \<open>A directory by its path, at three depths, with the directory hashes given or read.\<close>

definition given_or_read :: "node_store \<Rightarrow> commit \<Rightarrow> dir_hash_map option \<Rightarrow> dir_hash_map res" where
  "given_or_read st commit dhs = (case dhs of Some m \<Rightarrow> Inr m | None \<Rightarrow> dir_hashes st commit)"

definition dir_at_depth ::
  "node_store \<Rightarrow> nat \<Rightarrow> commit \<Rightarrow> path \<Rightarrow> dir_hash_map option \<Rightarrow> int \<Rightarrow> merkle_tree_node option res" where
  "dir_at_depth st fuel commit path dhs depth =
     rbind (given_or_read st commit dhs) (\<lambda>m.
       case map_of m path of Some h \<Rightarrow> read_depth st fuel h depth | None \<Rightarrow> Inr None)"

definition dir_without_children ::
  "node_store \<Rightarrow> nat \<Rightarrow> commit \<Rightarrow> path \<Rightarrow> dir_hash_map option \<Rightarrow> merkle_tree_node option res" where
  "dir_without_children st fuel commit path dhs = dir_at_depth st fuel commit path dhs 0"

definition dir_with_children ::
  "node_store \<Rightarrow> nat \<Rightarrow> commit \<Rightarrow> path \<Rightarrow> dir_hash_map option \<Rightarrow> merkle_tree_node option res" where
  "dir_with_children st fuel commit path dhs = dir_at_depth st fuel commit path dhs 1"

definition dir_with_children_recursive ::
  "node_store \<Rightarrow> nat \<Rightarrow> commit \<Rightarrow> path \<Rightarrow> dir_hash_map option \<Rightarrow> merkle_tree_node option res" where
  "dir_with_children_recursive st fuel commit path dhs = dir_at_depth st fuel commit path dhs (-1)"

section \<open>A loaded tree\<close>

record commit_merkle_tree =
  cmt_root :: merkle_tree_node
  cmt_dir_hashes :: dir_hash_map

definition from_commit :: "node_store \<Rightarrow> nat \<Rightarrow> commit \<Rightarrow> commit_merkle_tree res" where
  "from_commit st fuel commit =
     rbind (root_with_children st fuel commit) (\<lambda>r.
     rbind (ok_or (Basic ''Merkle tree hash not found for commit'') r) (\<lambda>root.
     rbind (dir_hashes st commit) (\<lambda>dhs. Inr \<lparr>cmt_root = root, cmt_dir_hashes = dhs\<rparr>)))"

definition from_path ::
  "(byte list \<Rightarrow> merkle_hash) \<Rightarrow> node_store \<Rightarrow> nat \<Rightarrow> commit \<Rightarrow> path \<Rightarrow> bool \<Rightarrow> commit_merkle_tree res" where
  "from_path hash128 st fuel commit path load_recursive =
     rbind (read_from_path hash128 st fuel commit path load_recursive) (\<lambda>r.
     rbind (ok_or (Basic ''Merkle tree hash not found for commit'') r) (\<lambda>node.
     rbind (dir_hashes st commit) (\<lambda>dhs. Inr \<lparr>cmt_root = node, cmt_dir_hashes = dhs\<rparr>)))"

definition has_dir :: "commit_merkle_tree \<Rightarrow> path \<Rightarrow> bool" where
  "has_dir t path \<longleftrightarrow> map_of (cmt_dir_hashes t) path \<noteq> None"

definition has_path :: "commit_merkle_tree \<Rightarrow> path \<Rightarrow> bool" where
  "has_path t path \<longleftrightarrow> get_by_path (cmt_root t) path \<noteq> None"

text \<open>The nodes of \<open>files_and_folders\<close> form a \<open>HashSet\<close>.\<close>

definition files_and_folders ::
  "(merkle_tree_node \<Rightarrow> merkle_tree_node \<Rightarrow> bool) \<Rightarrow> commit_merkle_tree \<Rightarrow> path \<Rightarrow> merkle_tree_node list res" where
  "files_and_folders found t path =
     (case get_by_path (cmt_root t) path of
        None \<Rightarrow> Inl (Basic ''Merkle tree hash not found for parent'')
      | Some node \<Rightarrow>
          Inr (fold (\<lambda>child acc. extend_by found (t_children child) acc) (t_children node) []))"

fun dir_entries :: "merkle_tree_node \<Rightarrow> file_node list res" where
  "dir_entries (MTNode h n p cs) =
     (case n of
        EFile f \<Rightarrow> Inr [f]
      | EFileChunk _ \<Rightarrow> Inl (Basic ''Unexpected node type'')
      | ECommit _ \<Rightarrow> Inl (Basic ''Unexpected node type'')
      | _ \<Rightarrow> rbind (rmap (\<lambda>c. case t_node c of
                EFile f \<Rightarrow> Inr [f]
              | EDirectory _ \<Rightarrow> dir_entries c
              | EVNode _ \<Rightarrow> dir_entries c
              | _ \<Rightarrow> Inr []) cs) (\<lambda>xss. Inr (concat xss)))"

end
