(* ===== verification/Tree_Queries.thy ===== *)
theory Tree_Queries
  imports Tree_Loader
begin

text \<open>
  The queries of \<open>repositories/tree.rs\<close>: lookups by path, the listings of a loaded tree with full
  paths, and the node hashes a push or a fetch has to transfer. Repositories of the versions after
  0.19.0, whose trees \<open>Tree_Loader\<close> reads; the branch for 0.19.0 calls an older copy of the loader.
  Listings collect into hash sets of records that compare by path (\<open>FileNodeWithDir\<close>,
  \<open>DirNodeWithPath\<close>) or by content hash (\<open>FileNode\<close>); the \<open>found\<close> arguments are the tables'
  lookups, with the laws of \<open>hash_set\<close>.
\<close>

section \<open>Files and directories with their paths\<close>

record file_node_with_dir =
  fwd_node :: file_node
  fwd_dir :: path

definition fwd_path :: "file_node_with_dir \<Rightarrow> path" where
  "fwd_path f = join_str (fwd_dir f) (fn_name (fwd_node f))"

definition file_node_with_dir_eq :: "file_node_with_dir \<Rightarrow> file_node_with_dir \<Rightarrow> bool" where
  "file_node_with_dir_eq f g \<longleftrightarrow> fwd_path f = fwd_path g"

record dir_node_with_path =
  dwp_node :: dir_node
  dwp_path :: path

definition dir_node_with_path_eq :: "dir_node_with_path \<Rightarrow> dir_node_with_path \<Rightarrow> bool" where
  "dir_node_with_path_eq d e \<longleftrightarrow> dwp_path d = dwp_path e"

text \<open>What \<open>Hash for FileNode\<close> feeds to the hasher; its \<open>PartialEq\<close> compares the content hash.\<close>

definition file_node_hashed :: "file_node \<Rightarrow> string \<times> u64 \<times> i64 \<times> u32 \<times> merkle_hash" where
  "file_node_hashed f = (fn_name f, fn_num_bytes f, fn_last_modified_seconds f, fn_last_modified_nanoseconds f, fn_hash f)"

text \<open>\<open>Hash for MerkleTreeNode\<close>: the hash and, of a file or a directory, the path.\<close>

definition merkle_tree_node_hashed :: "merkle_tree_node \<Rightarrow> merkle_hash \<times> path option" where
  "merkle_tree_node_hashed t = (t_hash t, case maybe_path t of Inr p \<Rightarrow> Some p | Inl _ \<Rightarrow> None)"

interpretation fwd: keyed_hash_set file_node_with_dir_eq file_node_with_dir_eq fwd_path
  by unfold_locales (simp_all add: file_node_with_dir_eq_def)

interpretation dwp: keyed_hash_set dir_node_with_path_eq dir_node_with_path_eq dwp_path
  by unfold_locales (simp_all add: dir_node_with_path_eq_def)

text \<open>Two tables for file nodes and for tree nodes: one compares all that is hashed, one compares by \<open>Eq\<close> alone.\<close>

definition by_digest :: "('a \<Rightarrow> 'k) \<Rightarrow> ('a \<Rightarrow> 'a \<Rightarrow> bool) \<Rightarrow> 'a \<Rightarrow> 'a \<Rightarrow> bool" where
  "by_digest hashed eq y x \<longleftrightarrow> hashed y = hashed x \<and> eq y x"

interpretation fn_digest: hash_set "by_digest file_node_hashed file_node_eq" file_node_eq file_node_hashed
  by unfold_locales (simp_all add: by_digest_def file_node_eq_def)

interpretation fn_key: keyed_hash_set file_node_eq file_node_eq fn_hash
  by unfold_locales (simp_all add: file_node_eq_def)

interpretation fn_eq: hash_set file_node_eq file_node_eq file_node_hashed
  by unfold_locales (simp_all add: file_node_eq_def)

interpretation mtn_digest: hash_set "by_digest merkle_tree_node_hashed merkle_tree_node_eq" merkle_tree_node_eq merkle_tree_node_hashed
  by unfold_locales (simp_all add: by_digest_def merkle_tree_node_eq_def)

interpretation mtn_eq: hash_set merkle_tree_node_eq merkle_tree_node_eq merkle_tree_node_hashed
  by unfold_locales (simp_all add: merkle_tree_node_eq_def)

section \<open>Lookups\<close>

definition get_root_dir :: "merkle_tree_node \<Rightarrow> merkle_tree_node res" where
  "get_root_dir node =
     (if node_type (t_node node) \<noteq> TCommit then Inl (Basic ''Expected a commit node'')
      else if length (t_children node) \<noteq> 1
        then Inl (Basic ''Commit node should have exactly one child (root directory)'')
      else if node_type (t_node (t_children node ! 0)) \<noteq> TDir
        then Inl (Basic ''The child of a commit node should be a directory'')
      else Inr (t_children node ! 0))"

definition get_node_by_id :: "node_store \<Rightarrow> nat \<Rightarrow> merkle_hash \<Rightarrow> merkle_tree_node option res" where
  "get_node_by_id st fuel h = read_node st fuel h False"

definition get_node_by_id_with_children :: "node_store \<Rightarrow> nat \<Rightarrow> merkle_hash \<Rightarrow> merkle_tree_node option res" where
  "get_node_by_id_with_children st fuel h = read_node st fuel h True"

definition tree_has_dir :: "node_store \<Rightarrow> commit \<Rightarrow> path \<Rightarrow> bool res" where
  "tree_has_dir st commit path = rbind (dir_hashes st commit) (\<lambda>dhs. Inr (map_of dhs path \<noteq> None))"

definition tree_has_path :: "node_store \<Rightarrow> nat \<Rightarrow> commit \<Rightarrow> path \<Rightarrow> bool res" where
  "tree_has_path st fuel commit path =
     rbind (dir_hashes st commit) (\<lambda>dhs.
       case map_of dhs path of
         Some dir_hash \<Rightarrow>
           rbind (get_node_by_id_with_children st fuel dir_hash) (\<lambda>r.
           rbind (ok_or (Panic ''unwrap'') r) (\<lambda>node. Inr (get_by_path node path \<noteq> None)))
       | None \<Rightarrow>
           rbind (ok_or (Panic ''unwrap'') (path_parent path)) (\<lambda>parent.
             case map_of dhs parent of
               Some parent_hash \<Rightarrow>
                 rbind (get_node_by_id_with_children st fuel parent_hash) (\<lambda>r.
                 rbind (ok_or (Panic ''unwrap'') r) (\<lambda>node. Inr (get_by_path node path \<noteq> None)))
             | None \<Rightarrow> Inr False))"

text \<open>An error of the read (not a panic) counts as not found.\<close>

definition get_node_by_path ::
  "(byte list \<Rightarrow> merkle_hash) \<Rightarrow> node_store \<Rightarrow> nat \<Rightarrow> commit \<Rightarrow> path \<Rightarrow> merkle_tree_node option res" where
  "get_node_by_path hash128 st fuel commit path =
     (case read_from_path hash128 st fuel commit path False of
        Inr node \<Rightarrow> Inr node
      | Inl (Panic p) \<Rightarrow> Inl (Panic p)
      | Inl _ \<Rightarrow> Inr None)"

definition get_node_by_path_with_children ::
  "(byte list \<Rightarrow> merkle_hash) \<Rightarrow> node_store \<Rightarrow> nat \<Rightarrow> commit \<Rightarrow> path \<Rightarrow> merkle_tree_node option res" where
  "get_node_by_path_with_children hash128 st fuel commit path = read_from_path hash128 st fuel commit path True"

definition get_file_by_path ::
  "(byte list \<Rightarrow> merkle_hash) \<Rightarrow> node_store \<Rightarrow> nat \<Rightarrow> commit \<Rightarrow> path \<Rightarrow> file_node option res" where
  "get_file_by_path hash128 st fuel commit path =
     rbind (get_node_by_path hash128 st fuel commit path) (\<lambda>r.
       Inr (case r of None \<Rightarrow> None | Some root \<Rightarrow> (case t_node root of EFile f \<Rightarrow> Some f | _ \<Rightarrow> None)))"

definition get_subtree_by_depth ::
  "(byte list \<Rightarrow> merkle_hash) \<Rightarrow> node_store \<Rightarrow> nat \<Rightarrow> commit \<Rightarrow> path \<Rightarrow> int \<Rightarrow> merkle_tree_node option res" where
  "get_subtree_by_depth = read_depth_from_path"

definition get_subtree ::
  "(byte list \<Rightarrow> merkle_hash) \<Rightarrow> node_store \<Rightarrow> nat \<Rightarrow> commit \<Rightarrow> path option \<Rightarrow> int option \<Rightarrow> merkle_tree_node option res" where
  "get_subtree hash128 st fuel commit maybe_subtree maybe_depth =
     (case (maybe_subtree, maybe_depth) of
        (Some subtree, Some depth) \<Rightarrow> get_subtree_by_depth hash128 st fuel commit subtree depth
      | (Some subtree, None) \<Rightarrow> get_subtree_by_depth hash128 st fuel commit subtree (-1)
      | (None, Some depth) \<Rightarrow> get_subtree_by_depth hash128 st fuel commit [CurDir] depth
      | (None, None) \<Rightarrow> root_with_children st fuel commit)"

section \<open>Listings of a loaded tree\<close>

definition list_files_and_folders :: "merkle_tree_node \<Rightarrow> merkle_tree_node list res" where
  "list_files_and_folders node =
     (if node_type (t_node node) \<noteq> TDir
      then Inl (Basic ''list_files_and_folders Merkle tree node is not a directory'')
      else Inr (fold (\<lambda>child children.
        case t_node child of EVNode _ \<Rightarrow> children @ t_children child | _ \<Rightarrow> children) (t_children node) []))"

definition list_files_and_folders_map :: "merkle_tree_node \<Rightarrow> (path, merkle_tree_node) hash_map res" where
  "list_files_and_folders_map node =
     (if node_type (t_node node) \<noteq> TDir
      then Inl (Basic ''list_files_and_folders_map Merkle tree node is not a directory'')
      else Inr (fold (\<lambda>child children.
        case t_node child of
          EVNode _ \<Rightarrow> fold (\<lambda>c m.
            case t_node c of
              EFile f \<Rightarrow> AList.update (components (fn_name f)) c m
            | EDirectory d \<Rightarrow> AList.update (components (dn_name d)) c m
            | _ \<Rightarrow> m) (t_children child) children
        | _ \<Rightarrow> children) (t_children node) []))"

fun dir_entries_with_paths ::
  "(file_node \<times> path \<Rightarrow> file_node \<times> path \<Rightarrow> bool) \<Rightarrow> merkle_tree_node \<Rightarrow> path \<Rightarrow> (file_node \<times> path) list res" where
  "dir_entries_with_paths found (MTNode h n p cs) base_path =
     (case n of
        EFile _ \<Rightarrow> Inr []
      | EFileChunk _ \<Rightarrow> Inl (Basic ''Unexpected node type'')
      | _ \<Rightarrow> rfold (\<lambda>child entries.
          case t_node child of
            EFile f \<Rightarrow> Inr (insert_by found (f, join_str base_path (fn_name f)) entries)
          | EDirectory d \<Rightarrow>
              rbind (dir_entries_with_paths found child (join_str base_path (dn_name d))) (\<lambda>es.
                Inr (extend_by found es entries))
          | EVNode _ \<Rightarrow>
              rbind (dir_entries_with_paths found child base_path) (\<lambda>es. Inr (extend_by found es entries))
          | _ \<Rightarrow> Inr entries) cs [])"

fun unique_dir_entries :: "path \<Rightarrow> merkle_tree_node \<Rightarrow> merkle_hash set \<Rightarrow> (path, file_node) hash_map res" where
  "unique_dir_entries base_path (MTNode h n p cs) shared_hashes =
     (case n of
        EFile _ \<Rightarrow> Inr []
      | EFileChunk _ \<Rightarrow> Inl (Basic ''Unexpected node type'')
      | _ \<Rightarrow> if h \<in> shared_hashes then Inr []
             else rfold (\<lambda>child entries.
               case t_node child of
                 EFile f \<Rightarrow> Inr (AList.update (join_str base_path (fn_name f)) f entries)
               | EDirectory d \<Rightarrow>
                   rbind (unique_dir_entries (join_str base_path (dn_name d)) child shared_hashes) (\<lambda>es.
                     Inr (hm_extend entries es))
               | EVNode _ \<Rightarrow>
                   rbind (unique_dir_entries base_path child shared_hashes) (\<lambda>es. Inr (hm_extend entries es))
               | _ \<Rightarrow> Inr entries) cs [])"

text \<open>The recursive listings return \<open>Result\<close> but have no failing branch.\<close>

fun r_list_all_files :: "merkle_tree_node \<Rightarrow> path \<Rightarrow> file_node_with_dir list \<Rightarrow> file_node_with_dir list" where
  "r_list_all_files (MTNode h n p cs) traversed_path file_nodes =
     fold (\<lambda>child acc.
       case t_node child of
         EFile f \<Rightarrow> insert_by file_node_with_dir_eq \<lparr>fwd_node = f, fwd_dir = traversed_path\<rparr> acc
       | EDirectory d \<Rightarrow> r_list_all_files child (join_str traversed_path (dn_name d)) acc
       | EVNode _ \<Rightarrow> r_list_all_files child traversed_path acc
       | _ \<Rightarrow> acc) cs file_nodes"

definition list_all_files :: "merkle_tree_node \<Rightarrow> path \<Rightarrow> file_node_with_dir list" where
  "list_all_files node subtree_path = r_list_all_files node subtree_path []"

fun r_list_all_dirs :: "merkle_tree_node \<Rightarrow> path \<Rightarrow> dir_node_with_path list \<Rightarrow> dir_node_with_path list" where
  "r_list_all_dirs (MTNode h n p cs) traversed_path dir_nodes =
     fold (\<lambda>child acc.
       case t_node child of
         EDirectory d \<Rightarrow>
           (let new_path = join_str traversed_path (dn_name d)
            in r_list_all_dirs child new_path
                 (insert_by dir_node_with_path_eq \<lparr>dwp_node = d, dwp_path = new_path\<rparr> acc))
       | EVNode _ \<Rightarrow> r_list_all_dirs child traversed_path acc
       | _ \<Rightarrow> acc) cs dir_nodes"

definition list_all_dirs :: "merkle_tree_node \<Rightarrow> dir_node_with_path list" where
  "list_all_dirs node = r_list_all_dirs node [] []"

fun r_list_files_and_dirs ::
  "merkle_tree_node \<Rightarrow> path \<Rightarrow> file_node_with_dir list \<times> dir_node_with_path list \<Rightarrow>
   file_node_with_dir list \<times> dir_node_with_path list" where
  "r_list_files_and_dirs (MTNode h n p cs) traversed_path (fs, ds) =
     (case n of
        EFile f \<Rightarrow> (insert_by file_node_with_dir_eq \<lparr>fwd_node = f, fwd_dir = traversed_path\<rparr> fs, ds)
      | _ \<Rightarrow> fold (\<lambda>child (fs, ds).
          case t_node child of
            EFile f \<Rightarrow> (insert_by file_node_with_dir_eq \<lparr>fwd_node = f, fwd_dir = traversed_path\<rparr> fs, ds)
          | EDirectory d \<Rightarrow>
              (let new_path = join_str traversed_path (dn_name d)
               in r_list_files_and_dirs child new_path
                    (fs, if new_path \<noteq> [] then insert_by dir_node_with_path_eq \<lparr>dwp_node = d, dwp_path = new_path\<rparr> ds else ds))
          | EVNode _ \<Rightarrow> r_list_files_and_dirs child traversed_path (fs, ds)
          | _ \<Rightarrow> (fs, ds)) cs (fs, ds))"

definition tree_list_files_and_dirs :: "merkle_tree_node \<Rightarrow> file_node_with_dir list \<times> dir_node_with_path list" where
  "tree_list_files_and_dirs root = r_list_files_and_dirs root [] ([], [])"

fun r_list_files_by_type ::
  "(file_node \<Rightarrow> file_node \<Rightarrow> bool) \<Rightarrow> merkle_tree_node \<Rightarrow> entry_data_type \<Rightarrow> file_node list \<Rightarrow> path \<Rightarrow> file_node list" where
  "r_list_files_by_type found (MTNode h n p cs) data_type file_nodes traversed_path =
     fold (\<lambda>child acc.
       case t_node child of
         EFile f \<Rightarrow>
           (if fn_data_type f = data_type
            then insert_by found (fn_set_name (path_to_str (join_str traversed_path (fn_name f))) f) acc
            else acc)
       | EDirectory d \<Rightarrow> r_list_files_by_type found child data_type acc (join_str traversed_path (dn_name d))
       | EVNode _ \<Rightarrow> r_list_files_by_type found child data_type acc traversed_path
       | _ \<Rightarrow> acc) cs file_nodes"

definition list_files_by_type ::
  "(file_node \<Rightarrow> file_node \<Rightarrow> bool) \<Rightarrow> node_store \<Rightarrow> nat \<Rightarrow> commit \<Rightarrow> entry_data_type \<Rightarrow> file_node list res" where
  "list_files_by_type found st fuel commit data_type =
     rbind (root_with_children st fuel commit) (\<lambda>r.
       Inr (case r of None \<Rightarrow> [] | Some tree \<Rightarrow> r_list_files_by_type found tree data_type [] []))"

section \<open>Missing files\<close>

text \<open>\<open>version_exists\<close> is the version store's answer, asked with the text of the hash.\<close>

definition list_missing_file_hashes_from_hashes ::
  "(string \<Rightarrow> bool res) \<Rightarrow> merkle_hash list \<Rightarrow> merkle_hash set res" where
  "list_missing_file_hashes_from_hashes version_exists hashes =
     rfold (\<lambda>h results. rbind (version_exists (merkle_hash_to_string h)) (\<lambda>b.
       Inr (if b then results else insert h results))) hashes {}"

definition tree_list_missing_file_hashes ::
  "(merkle_hash \<Rightarrow> bool res) \<Rightarrow> node_store \<Rightarrow> nat \<Rightarrow> merkle_hash \<Rightarrow> merkle_hash set res" where
  "tree_list_missing_file_hashes version_exists st fuel h =
     rbind (read_depth st fuel h 1) (\<lambda>r.
       case r of
         None \<Rightarrow> Inl (Basic ''Node not found'')
       | Some node \<Rightarrow> list_missing_file_hashes version_exists node)"

section \<open>Hashes to transfer\<close>

definition get_node_hashes_for_subtree ::
  "(byte list \<Rightarrow> merkle_hash) \<Rightarrow> node_store \<Rightarrow> nat \<Rightarrow> commit \<Rightarrow> path option \<Rightarrow> int option \<Rightarrow>
   merkle_hash set \<times> merkle_hash set \<Rightarrow> (merkle_hash set \<times> merkle_hash set) res" where
  "get_node_hashes_for_subtree hash128 st fuel commit subtree_path depth = (\<lambda>(base_hashes, new_node_hashes).
     (case read_depth_from_path_and_collect_hashes hash128 st fuel commit
             (case subtree_path of None \<Rightarrow> [CurDir] | Some p \<Rightarrow> p) (Some base_hashes)
             (case depth of None \<Rightarrow> -1 | Some d \<Rightarrow> d) \<lparr>hs_unique = Some {}, hs_shared = None\<rparr> of
        (Inr (Some _), s) \<Rightarrow>
          (let unique_hashes = (case hs_unique s of None \<Rightarrow> {} | Some u \<Rightarrow> u)
           in Inr (base_hashes \<union> unique_hashes, new_node_hashes \<union> unique_hashes))
      | (Inl (Panic p), s) \<Rightarrow> Inl (Panic p)
      | _ \<Rightarrow> Inr (base_hashes, new_node_hashes)))"

text \<open>What a failing read has collected so far stays in the caller's set.\<close>

definition populate_starting_hashes ::
  "(byte list \<Rightarrow> merkle_hash) \<Rightarrow> node_store \<Rightarrow> nat \<Rightarrow> commit \<Rightarrow> path option \<Rightarrow> int option \<Rightarrow>
   merkle_hash set \<Rightarrow> merkle_hash set res" where
  "populate_starting_hashes hash128 st fuel commit subtree_path depth unique_hashes =
     (case read_depth_from_path_and_collect_hashes hash128 st fuel commit
             (case subtree_path of None \<Rightarrow> [CurDir] | Some p \<Rightarrow> p) None
             (case depth of None \<Rightarrow> -1 | Some d \<Rightarrow> d) \<lparr>hs_unique = Some unique_hashes, hs_shared = None\<rparr> of
        (Inl (Panic p), s) \<Rightarrow> Inl (Panic p)
      | (_, s) \<Rightarrow> Inr (case hs_unique s of None \<Rightarrow> {} | Some u \<Rightarrow> u))"

definition collect_nodes_along_path ::
  "(byte list \<Rightarrow> merkle_hash) \<Rightarrow> node_store \<Rightarrow> nat \<Rightarrow> commit \<Rightarrow> path list \<Rightarrow> merkle_hash set \<Rightarrow> merkle_hash set \<Rightarrow>
   merkle_hash set res" where
  "collect_nodes_along_path hash128 st fuel commit paths starting_node_hashes hashes =
     (case paths of
        [] \<Rightarrow> Inl (Basic ''No paths provided'')
      | root_path # _ \<Rightarrow>
          rbind (get_node_by_path_with_children hash128 st fuel commit root_path) (\<lambda>r.
          rbind (ok_or (Basic ''Node not found'') r) (\<lambda>node.
            Inr (fold (\<lambda>nd hs. if t_hash nd \<in> starting_node_hashes then hs else insert (t_hash nd) hs)
                   (snd (get_nodes_along_paths node paths)) hashes))))"

text \<open>
  The loop that gathers the parents of the subtrees reverses the whole list after every subtree.
\<close>

definition all_parent_paths :: "path list \<Rightarrow> path list" where
  "all_parent_paths subtrees = fold (\<lambda>subtree acc. rev (acc @ path_ancestors subtree)) subtrees []"

definition get_node_hashes_for_commit ::
  "(byte list \<Rightarrow> merkle_hash) \<Rightarrow> node_store \<Rightarrow> nat \<Rightarrow> commit \<Rightarrow> path list option \<Rightarrow> int option \<Rightarrow> bool \<Rightarrow>
   merkle_hash set \<times> merkle_hash set \<Rightarrow> (merkle_hash set \<times> merkle_hash set) res" where
  "get_node_hashes_for_commit hash128 st fuel commit maybe_subtrees maybe_depth is_download s =
     rbind (case maybe_subtrees of
        Some subtrees \<Rightarrow>
          rbind (rfold (\<lambda>subtree. get_node_hashes_for_subtree hash128 st fuel commit (Some subtree) maybe_depth) subtrees s) (\<lambda>(starting, new).
            if \<not> is_download
            then rbind (collect_nodes_along_path hash128 st fuel commit (all_parent_paths subtrees) starting new) (\<lambda>new'.
                   Inr (starting, new'))
            else Inr (starting, new))
      | None \<Rightarrow> get_node_hashes_for_subtree hash128 st fuel commit None maybe_depth s) (\<lambda>(starting, new).
     rbind (commit_hash commit) (\<lambda>h. Inr (starting, insert h new)))"

definition get_all_node_hashes_for_commits ::
  "(byte list \<Rightarrow> merkle_hash) \<Rightarrow> node_store \<Rightarrow> nat \<Rightarrow> commit list \<Rightarrow> path list option \<Rightarrow> int option \<Rightarrow> bool \<Rightarrow>
   merkle_hash set res" where
  "get_all_node_hashes_for_commits hash128 st fuel commits maybe_subtrees maybe_depth is_download =
     rbind (rfold (\<lambda>commit. get_node_hashes_for_commit hash128 st fuel commit maybe_subtrees maybe_depth is_download)
              commits ({}, {})) (\<lambda>s. Inr (snd s))"

definition get_node_hashes_between_commits ::
  "(byte list \<Rightarrow> merkle_hash) \<Rightarrow> node_store \<Rightarrow> nat \<Rightarrow> commit list \<Rightarrow> path list option \<Rightarrow> int option \<Rightarrow> bool \<Rightarrow>
   merkle_hash set res" where
  "get_node_hashes_between_commits hash128 st fuel commits maybe_subtrees maybe_depth is_download =
     (case commits of
        [] \<Rightarrow> Inl (Basic ''Must provide at least one commit'')
      | first_commit # new_commits \<Rightarrow>
          rbind (case maybe_subtrees of
             Some subtrees \<Rightarrow> rfold (\<lambda>subtree. populate_starting_hashes hash128 st fuel first_commit (Some subtree) maybe_depth) subtrees {}
           | None \<Rightarrow> populate_starting_hashes hash128 st fuel first_commit None maybe_depth {}) (\<lambda>starting.
            if new_commits = [] then Inr starting
            else rbind (rfold (\<lambda>commit. get_node_hashes_for_commit hash128 st fuel commit maybe_subtrees maybe_depth is_download)
                          new_commits (starting, {})) (\<lambda>s. Inr (snd s))))"

fun get_ancestor_nodes ::
  "(byte list \<Rightarrow> merkle_hash) \<Rightarrow> node_store \<Rightarrow> nat \<Rightarrow> commit \<Rightarrow> path list \<Rightarrow> merkle_hash set \<Rightarrow> merkle_hash set res" where
  "get_ancestor_nodes hash128 st fuel commit [] unique_hashes = Inr unique_hashes"
| "get_ancestor_nodes hash128 st fuel commit (subtree_path # subtree_paths) unique_hashes =
     (case path_parent subtree_path of
        None \<Rightarrow> Inr unique_hashes
      | Some parent \<Rightarrow>
          rbind (rfold (\<lambda>ancestor hs.
              rbind (get_node_by_path_with_children hash128 st fuel commit ancestor) (\<lambda>r.
              rbind (ok_or (Basic ''Ancestor for subtree path not found in merkle tree'') r) (\<lambda>node.
                Inr (hs \<union> list_dir_and_vnode_hashes node)))) (rev (path_ancestors parent)) unique_hashes)
            (get_ancestor_nodes hash128 st fuel commit subtree_paths))"

end
