(* ===== verification/Tree_Loader_Props.thy ===== *)
theory Tree_Loader_Props
  imports Tree_Loader Merkle_Tree_Props
begin

text \<open>
  Loading against a store that holds a tree (\<open>stored\<close>): the whole tree comes back, a bounded depth
  gives the tree pruned to it, the collected hashes split the tree along the base hashes, and the
  shortcut to a file by directory hash and vnode bucket agrees with the search from the root.
\<close>

section \<open>A store that holds a tree\<close>

definition strip :: "merkle_tree_node \<Rightarrow> merkle_tree_node" where
  "strip t = MTNode (t_hash t) (t_node t) (t_parent_id t) []"

lemma strip_sel [simp]:
  "t_hash (strip t) = t_hash t" "t_node (strip t) = t_node t" "t_parent_id (strip t) = t_parent_id t"
  "t_children (strip t) = []"
  by (simp_all add: strip_def)

lemma may_have_children_strip [simp]: "may_have_children (strip t) = may_have_children t"
  by (simp add: may_have_children_def)

lemma descends_strip [simp]: "descends r d (strip t) = descends r d t" "child_depth d (strip t) = child_depth d t"
  by (simp_all add: descends_def child_depth_def)

text \<open>
  The store has the children list of every inner node and can open it; the parent it gives for an
  opened node is free, since a node shared by two directories has one entry.
\<close>

fun stored :: "node_store \<Rightarrow> merkle_tree_node \<Rightarrow> bool" where
  "stored st (MTNode h n p cs) \<longleftrightarrow>
     (if may_have_children (MTNode h n p cs)
      then st_exists st h \<and> (\<exists>pid. st_from_hash st h = Inr (MTNode h n pid [])) \<and>
           st_children st h = Inr (map (\<lambda>c. (t_hash c, strip c)) cs) \<and> list_all (stored st) cs
      else cs = [])"

text \<open>The part of a tree that a bounded load with base hashes returns.\<close>

fun prune :: "merkle_hash set option \<Rightarrow> int \<Rightarrow> int \<Rightarrow> merkle_tree_node \<Rightarrow> merkle_tree_node" where
  "prune base req trav (MTNode h n p cs) =
     (if \<not> may_have_children (MTNode h n p cs) \<or> in_base base h then MTNode h n p []
      else MTNode h n p (map (\<lambda>c. if may_have_children c \<and> descends req trav c
        then prune base req (child_depth trav c) c else strip c) cs))"

fun unique_of :: "merkle_hash set option \<Rightarrow> int \<Rightarrow> int \<Rightarrow> merkle_tree_node \<Rightarrow> merkle_hash set" where
  "unique_of base req trav (MTNode h n p cs) =
     (if \<not> may_have_children (MTNode h n p cs) \<or> in_base base h then {}
      else insert h (\<Union>c \<in> set cs. if may_have_children c \<and> descends req trav c
        then unique_of base req (child_depth trav c) c else {}))"

fun shared_of :: "merkle_hash set option \<Rightarrow> int \<Rightarrow> int \<Rightarrow> merkle_tree_node \<Rightarrow> merkle_hash set" where
  "shared_of base req trav (MTNode h n p cs) =
     (if \<not> may_have_children (MTNode h n p cs) then {}
      else if in_base base h then {h}
      else (\<Union>c \<in> set cs. if may_have_children c \<and> descends req trav c
        then shared_of base req (child_depth trav c) c else {}))"

definition add_sets :: "merkle_hash set \<Rightarrow> merkle_hash set \<Rightarrow> hash_sets \<Rightarrow> hash_sets" where
  "add_sets u v s = s\<lparr>hs_unique := map_option (\<lambda>x. x \<union> u) (hs_unique s), hs_shared := map_option (\<lambda>x. x \<union> v) (hs_shared s)\<rparr>"

lemma add_sets_simps [simp]:
  "add_sets {} {} s = s"
  "add_sets u v (add_sets u' v' s) = add_sets (u' \<union> u) (v' \<union> v) s"
  "add_sets u v (note_unique h s) = add_sets (insert h u) v s"
  "note_shared h s = add_sets {} {h} s"
  by (cases s; simp add: add_sets_def note_unique_def note_shared_def option.map_comp comp_def Un_assoc map_option.identity)+

lemma smap_pure:
  assumes "\<And>x s. x \<in> set xs \<Longrightarrow> f x s = (Inr (g x), upd x s)"
  shows "smap f xs s = (Inr (map g xs), fold upd xs s)"
  using assms by (induction xs arbitrary: s) (simp_all add: sbind_def)

lemma fold_add_sets: "fold (\<lambda>x. add_sets (u x) (v x)) xs s = add_sets (\<Union>x \<in> set xs. u x) (\<Union>x \<in> set xs. v x) s"
  by (induction xs arbitrary: s) (simp_all add: Un_commute)

lemma fold_map_comp: "fold f (map g xs) s = fold (\<lambda>x. f (g x)) xs s"
  by (induction xs arbitrary: s) simp_all

lemma member_tree_size: "c \<in> set cs \<Longrightarrow> tree_size c \<le> sum_list (map tree_size cs)"
  by (induction cs) auto

lemma load_children_stored:
  "stored st t \<Longrightarrow> tree_size t \<le> fuel \<Longrightarrow>
   load_children st base req fuel trav (MTNode (t_hash t) (t_node t) pid []) s =
     (Inr (MTNode (t_hash t) (t_node t) pid (t_children (prune base req trav t))),
      add_sets (unique_of base req trav t) (shared_of base req trav t) s)"
proof (induction base req trav t arbitrary: fuel pid s rule: prune.induct)
  case (1 base req trav h n p cs)
  obtain k where k: "fuel = Suc k" "sum_list (map tree_size cs) \<le> k"
    using 1(3) by (cases fuel) auto
  have may: "may_have_children (MTNode h n pid []) = may_have_children (MTNode h n p cs)"
    by (simp add: may_have_children_def)
  show ?case
  proof (cases "\<not> may_have_children (MTNode h n p cs) \<or> in_base base h")
    case True
    then show ?thesis using may by (auto simp: k)
  next
    case False
    let ?go = "\<lambda>c. may_have_children c \<and> descends req trav c"
    let ?f = "\<lambda>(_ :: merkle_hash, child). if ?go child
        then load_children st base req k (child_depth trav child) child else slift (Inr child)"
    have kids: "st_children st h = Inr (map (\<lambda>c. (t_hash c, strip c)) cs)" "\<forall>c \<in> set cs. stored st c"
      using 1(2) False by (auto simp: list_all_iff)
    have step: "?f (t_hash c, strip c) s =
      (Inr (if ?go c then prune base req (child_depth trav c) c else strip c),
       add_sets (if ?go c then unique_of base req (child_depth trav c) c else {})
                (if ?go c then shared_of base req (child_depth trav c) c else {}) s)"
      if c: "c \<in> set cs" for c s
    proof (cases "?go c")
      case True
      have "tree_size c \<le> k" using member_tree_size [OF c] k by simp
      with 1(1) [OF False c True, of k "t_parent_id c" s] kids(2) c
      have "load_children st base req k (child_depth trav c) (strip c) s =
        (Inr (MTNode (t_hash c) (t_node c) (t_parent_id c) (t_children (prune base req (child_depth trav c) c))),
         add_sets (unique_of base req (child_depth trav c) c) (shared_of base req (child_depth trav c) c) s)"
        by (simp add: strip_def)
      moreover have "MTNode (t_hash c) (t_node c) (t_parent_id c) (t_children (prune base req (child_depth trav c) c))
          = prune base req (child_depth trav c) c"
        by (cases c) simp
      ultimately show ?thesis using True by simp
    next
      case False
      then show ?thesis by (cases "may_have_children c") simp_all
    qed
    have loop: "smap ?f (map (\<lambda>c. (t_hash c, strip c)) cs) s =
      (Inr (map (\<lambda>c. if ?go c then prune base req (child_depth trav c) c else strip c) cs),
       add_sets (\<Union>c \<in> set cs. if ?go c then unique_of base req (child_depth trav c) c else {})
                (\<Union>c \<in> set cs. if ?go c then shared_of base req (child_depth trav c) c else {}) s)" for s
    proof -
      have "smap ?f (map (\<lambda>c. (t_hash c, strip c)) cs) s = smap (\<lambda>c. ?f (t_hash c, strip c)) cs s"
        by (induction cs arbitrary: s) (simp_all add: sbind_def split: sum.split prod.split)
      also have "\<dots> = (Inr (map (\<lambda>c. if ?go c then prune base req (child_depth trav c) c else strip c) cs),
          fold (\<lambda>c. add_sets (if ?go c then unique_of base req (child_depth trav c) c else {})
                (if ?go c then shared_of base req (child_depth trav c) c else {})) cs s)"
        by (rule smap_pure) (rule step)
      finally show ?thesis by (simp only: fold_add_sets)
    qed
    show ?thesis
      using False may kids(1) by (simp add: k sbind_Inr [OF loop] push_children_def)
  qed
qed

section \<open>Whole trees and collected hashes\<close>

lemma descends_all [simp]: "descends (-1) trav c"
  by (simp add: descends_def)

lemma stored_leaf: "stored st t \<Longrightarrow> \<not> may_have_children t \<Longrightarrow> strip t = t"
  by (cases t) (simp add: strip_def)

lemma prune_whole: "stored st t \<Longrightarrow> prune None (-1) trav t = t"
proof (induction t arbitrary: trav)
  case (MTNode h n p cs)
  show ?case
  proof (cases "may_have_children (MTNode h n p cs)")
    case True
    have "(if may_have_children c \<and> descends (-1) trav c then prune None (-1) (child_depth trav c) c else strip c) = c"
      if "c \<in> set cs" for c
      using MTNode that True stored_leaf [of st c] by (auto simp: list_all_iff)
    then show ?thesis using True by (simp add: in_base_def map_idI)
  next
    case False
    with MTNode show ?thesis by simp
  qed
qed

lemma unique_not_base: "x \<in> unique_of base req trav t \<Longrightarrow> \<not> in_base base x"
proof (induction base req trav t rule: unique_of.induct)
  case (1 base req trav h n p cs)
  then show ?case by (auto split: if_splits)
qed

lemma shared_in_base: "x \<in> shared_of base req trav t \<Longrightarrow> in_base base x"
proof (induction base req trav t rule: shared_of.induct)
  case (1 base req trav h n p cs)
  then show ?case by (auto split: if_splits)
qed

lemma unique_in_tree:
  "x \<in> unique_of base req trav t \<Longrightarrow> \<exists>y \<in> set (tree_nodes t). may_have_children y \<and> t_hash y = x"
proof (induction base req trav t rule: unique_of.induct)
  case (1 base req trav h n p cs)
  then show ?case by (fastforce split: if_splits)
qed

lemma shared_in_tree:
  "x \<in> shared_of base req trav t \<Longrightarrow> \<exists>y \<in> set (tree_nodes t). may_have_children y \<and> t_hash y = x"
proof (induction base req trav t rule: shared_of.induct)
  case (1 base req trav h n p cs)
  then show ?case by (fastforce split: if_splits)
qed

lemma unique_shared_sub:
  "unique_of (Some b) (-1) trav t \<inter> b = {} \<and> shared_of (Some b) (-1) trav t \<subseteq> b \<and>
   unique_of (Some b) (-1) trav t \<union> shared_of (Some b) (-1) trav t \<subseteq>
     {t_hash x | x. x \<in> set (tree_nodes t) \<and> may_have_children x}"
  using unique_not_base [of _ "Some b" "-1" trav t] shared_in_base [of _ "Some b" "-1" trav t]
    unique_in_tree [of _ "Some b" "-1" trav t] shared_in_tree [of _ "Some b" "-1" trav t]
  by (auto simp: in_base_def) metis+

lemma unique_shared_cover:
  "x \<in> set (tree_nodes t) \<Longrightarrow> may_have_children x \<Longrightarrow> stored st t \<Longrightarrow>
   t_hash x \<in> unique_of (Some b) (-1) trav t \<or>
   (\<exists>y \<in> set (tree_nodes t). x \<in> set (tree_nodes y) \<and> t_hash y \<in> shared_of (Some b) (-1) trav t)"
proof (induction t arbitrary: trav)
  case (MTNode h n p cs)
  let ?t = "MTNode h n p cs"
  show ?case
  proof (cases "may_have_children ?t")
    case may: True
    show ?thesis
    proof (cases "h \<in> b")
      case True
      with may have "h \<in> shared_of (Some b) (-1) trav ?t" by (simp add: in_base_def)
      with MTNode.prems(1) show ?thesis by (intro disjI2 bexI [of _ ?t]) simp_all
    next
      case False
      show ?thesis
      proof (cases "x = ?t")
        case True
        with False may show ?thesis by (simp add: in_base_def)
      next
        case neq: False
        then obtain c where c: "c \<in> set cs" "x \<in> set (tree_nodes c)" using MTNode.prems(1) by auto
        have st: "stored st c" using MTNode.prems(3) may c(1) by (auto simp: list_all_iff)
        have mc: "may_have_children c"
        proof (rule ccontr)
          assume n: "\<not> may_have_children c"
          with st have "t_children c = []" by (cases c) simp
          with c(2) have "x = c" by (cases c) simp
          with n MTNode.prems(2) show False by simp
        qed
        have sub: "unique_of (Some b) (-1) (child_depth trav c) c \<subseteq> unique_of (Some b) (-1) trav ?t"
          "shared_of (Some b) (-1) (child_depth trav c) c \<subseteq> shared_of (Some b) (-1) trav ?t"
          using c(1) mc may False by (auto simp: in_base_def)
        from MTNode.IH [OF c(1,2) MTNode.prems(2) st, of "child_depth trav c"] sub c(1) show ?thesis
          by (auto simp del: unique_of.simps shared_of.simps)
      qed
    qed
  next
    case False
    then have "x = ?t" using MTNode.prems(1,3) by auto
    with False MTNode.prems(2) show ?thesis by simp
  qed
qed

lemma read_depth_stored:
  assumes "stored st t" and "may_have_children t" and "tree_size t \<le> fuel"
  obtains pid where "st_from_hash st (t_hash t) = Inr (MTNode (t_hash t) (t_node t) pid [])"
    and "\<And>d. read_depth st fuel (t_hash t) d =
      Inr (Some (MTNode (t_hash t) (t_node t) pid (t_children (prune None d 0 t))))"
    and "\<And>base d s. read_depth_and_collect_hashes st fuel (t_hash t) base d s =
      (Inr (Some (MTNode (t_hash t) (t_node t) pid (t_children (prune base d 0 t)))),
       add_sets (unique_of base d 0 t) (shared_of base d 0 t) s)"
proof -
  have e: "st_exists st (t_hash t)" using assms by (cases t) auto
  obtain pid where f: "st_from_hash st (t_hash t) = Inr (MTNode (t_hash t) (t_node t) pid [])"
    using assms by (cases t) auto
  have "read_depth st fuel (t_hash t) d =
      Inr (Some (MTNode (t_hash t) (t_node t) pid (t_children (prune None d 0 t))))" for d
    using e f load_children_stored [OF assms(1,3), of None d 0 pid] by (simp add: read_depth_def)
  moreover have "read_depth_and_collect_hashes st fuel (t_hash t) base d s =
      (Inr (Some (MTNode (t_hash t) (t_node t) pid (t_children (prune base d 0 t)))),
       add_sets (unique_of base d 0 t) (shared_of base d 0 t) s)" for base d s
    using e f load_children_stored [OF assms(1,3), of base d 0 pid s]
    by (simp add: read_depth_and_collect_hashes_def sbind_def)
  ultimately show thesis using that f by blast
qed

section \<open>A sample store\<close>

text \<open>The store that holds exactly the inner nodes of a list of trees.\<close>

lemma read_node_stored:
  assumes "stored st t" and "may_have_children t" and "tree_size t \<le> fuel"
    and "st_from_hash st (t_hash t) = Inr (strip t)"
  shows "read_node st fuel (t_hash t) True = Inr (Some t)"
proof (rule read_depth_stored [OF assms(1-3)])
  fix pid
  assume f: "st_from_hash st (t_hash t) = Inr (MTNode (t_hash t) (t_node t) pid [])"
    and r: "\<And>d. read_depth st fuel (t_hash t) d =
      Inr (Some (MTNode (t_hash t) (t_node t) pid (t_children (prune None d 0 t))))"
  have "pid = t_parent_id t" using f assms(4) by (simp add: strip_def)
  then show "read_node st fuel (t_hash t) True = Inr (Some t)"
    using r [of "-1"] prune_whole [OF assms(1), of 0] by (simp add: read_node_def)
qed

definition tree_store :: "merkle_tree_node \<Rightarrow> (string \<times> string) list \<Rightarrow> node_store" where
  "tree_store t kvs =
     (let find = (\<lambda>h. List.find (\<lambda>x. t_hash x = h \<and> may_have_children x) (tree_nodes t))
      in \<lparr>st_exists = (\<lambda>h. find h \<noteq> None),
          st_from_hash = (\<lambda>h. case find h of None \<Rightarrow> Inl (Basic ''missing'') | Some x \<Rightarrow> Inr (strip x)),
          st_children = (\<lambda>h. case find h of None \<Rightarrow> Inr [] | Some x \<Rightarrow> Inr (map (\<lambda>c. (t_hash c, strip c)) (t_children x))),
          st_dir_hashes = (\<lambda>_. Inr kvs)\<rparr>)"

lemma sample_may [simp]:
  "\<not> may_have_children (MTNode h (EFile f) p cs)" "may_have_children (MTNode h (EDirectory d) p cs)"
  "may_have_children (MTNode h (EVNode v) p cs)" "may_have_children (MTNode h (ECommit c) p cs)"
  by (simp_all add: may_have_children_def)

lemma stored_sample [simp]: "stored (tree_store sample_tree kvs) sample_tree"
  by (simp add: sample_tree_def tree_store_def Let_def strip_def)

lemma sample_sel [simp]: "t_hash sample_tree = 9" "may_have_children sample_tree" "tree_size sample_tree = 7"
  by (simp_all add: sample_tree_def)

section \<open>Properties\<close>

text \<open>C32: reading a node recursively from a store that holds its tree gives the whole tree back: the
  same nodes, in the same order, with the same parents (the root's own parent is the one the store
  opens it with). Any fuel of at least the number of nodes is enough, so the load terminates.\<close>

theorem read_node_returns_whole_tree:
  assumes "stored st t" and "may_have_children t" and "tree_size t \<le> fuel"
    and "st_from_hash st (t_hash t) = Inr (strip t)"
  shows "read_node st fuel (t_hash t) True = Inr (Some t)"
  using assms by (rule read_node_stored)

lemma read_node_returns_whole_tree_witness:
  "read_node (tree_store sample_tree []) 7 9 True = Inr (Some sample_tree)"
  using read_node_returns_whole_tree [OF stored_sample, of 7]
  by (simp add: tree_store_def sample_tree_def strip_def)

text \<open>C33: loading with base hashes splits the commits, directories and vnodes of a tree. The unique
  hashes are not in the base, the shared ones are, both belong to the tree, and every inner node is
  either reported unique or lies in the subtree of a node reported shared (so a transfer of the
  unique nodes to a side that has the base nodes with their subtrees leaves nothing out).\<close>

theorem collect_hashes_splits_tree:
  assumes "stored st t" and "may_have_children t" and "tree_size t \<le> fuel"
  shows "\<exists>r U S.
    read_depth_and_collect_hashes st fuel (t_hash t) (Some base) (-1) \<lparr>hs_unique = Some {}, hs_shared = Some {}\<rparr>
      = (Inr (Some r), \<lparr>hs_unique = Some U, hs_shared = Some S\<rparr>) \<and>
    U \<inter> base = {} \<and> S \<subseteq> base \<and>
    U \<union> S \<subseteq> {t_hash x | x. x \<in> set (tree_nodes t) \<and> may_have_children x} \<and>
    (\<forall>x \<in> set (tree_nodes t). may_have_children x \<longrightarrow>
      t_hash x \<in> U \<or> (\<exists>y \<in> set (tree_nodes t). x \<in> set (tree_nodes y) \<and> t_hash y \<in> S))"
proof (rule read_depth_stored [OF assms])
  fix pid
  let ?U = "unique_of (Some base) (-1) 0 t" and ?S = "shared_of (Some base) (-1) 0 t"
  assume r: "\<And>base d s. read_depth_and_collect_hashes st fuel (t_hash t) base d s =
      (Inr (Some (MTNode (t_hash t) (t_node t) pid (t_children (prune base d 0 t)))),
       add_sets (unique_of base d 0 t) (shared_of base d 0 t) s)"
  have "read_depth_and_collect_hashes st fuel (t_hash t) (Some base) (-1) \<lparr>hs_unique = Some {}, hs_shared = Some {}\<rparr> =
      (Inr (Some (MTNode (t_hash t) (t_node t) pid (t_children (prune (Some base) (-1) 0 t)))),
       \<lparr>hs_unique = Some ?U, hs_shared = Some ?S\<rparr>)"
    by (simp add: r add_sets_def)
  with unique_shared_sub [of base 0 t] unique_shared_cover [OF _ _ assms(1), of _ base 0]
  show ?thesis by blast
qed

lemma collect_hashes_splits_tree_witness:
  "\<exists>r U S. read_depth_and_collect_hashes (tree_store sample_tree []) 7 9 (Some {5})
      (-1) \<lparr>hs_unique = Some {}, hs_shared = Some {}\<rparr>
    = (Inr (Some r), \<lparr>hs_unique = Some U, hs_shared = Some S\<rparr>) \<and> 5 \<notin> U"
  using collect_hashes_splits_tree [OF stored_sample, of 7 "[]" "{5}"] by (simp del: Un_subset_iff) blast

text \<open>A read at depth 0, which \<open>dir_without_children\<close> uses "to skip loading file nodes", does load
  them: it returns the directory with its vnodes and, in each vnode, every file and directory of
  it, only without the contents of those directories.\<close>

lemma dir_without_children_loads_files:
  assumes "stored st t" and "wf_tree t" and "is_dir t" and "tree_size t \<le> fuel"
    and "map_of dhs path = Some (t_hash t)"
  shows "\<exists>pid. dir_without_children st fuel commit path (Some dhs) =
    Inr (Some (MTNode (t_hash t) (t_node t) pid
      (map (\<lambda>v. MTNode (t_hash v) (t_node v) (t_parent_id v) (map strip (t_children v))) (t_children t))))"
proof -
  have may: "may_have_children t" using assms(3) by (cases t; cases "t_node t") (auto simp: is_dir_def)
  obtain h d p cs where t: "t = MTNode h (EDirectory d) p cs"
    using assms(3) by (cases t) (auto simp: is_dir_def split: e_merkle_tree_node.splits)
  have kid: "(if may_have_children v \<and> descends 0 0 v then prune None 0 (child_depth 0 v) v else strip v) =
      MTNode (t_hash v) (t_node v) (t_parent_id v) (map strip (t_children v))" if "v \<in> set cs" for v
  proof -
    have "is_vnode v" "wf_tree v" using assms(2) that by (auto simp: t list_all_iff)
    then obtain h' v' p' cs' where v: "v = MTNode h' (EVNode v') p' cs'" by (blast elim: is_vnodeE)
    have "(if may_have_children c \<and> descends 0 0 c then prune None 0 (child_depth 0 c) c else strip c) = strip c"
      if "c \<in> set cs'" for c
    proof -
      have "is_file c \<or> is_dir c" using \<open>wf_tree v\<close> that by (auto simp: v list_all_iff)
      then show ?thesis
        by (auto simp: may_have_children_def descends_def is_file_def is_dir_def split: e_merkle_tree_node.splits)
    qed
    then show ?thesis by (simp add: v descends_def child_depth_def in_base_def)
  qed
  obtain pid where "read_depth st fuel (t_hash t) 0 =
      Inr (Some (MTNode (t_hash t) (t_node t) pid (t_children (prune None 0 0 t))))"
    using read_depth_stored [OF assms(1) may assms(4)] by metis
  with kid assms(5) show ?thesis
    by (auto simp: dir_without_children_def dir_at_depth_def given_or_read_def t in_base_def)
qed

lemma dir_without_children_loads_files_witness:
  "\<exists>pid. dir_without_children (tree_store (tree_nodes sample_tree ! 4) []) 3
    (commit_node_to_commit (sample_commit 9 [] 0)) [Normal ''d''] (Some [([Normal ''d''], 5)]) =
    Inr (Some (MTNode 5 (EDirectory (sample_dir ''d'' 5)) pid
      [MTNode 4 (EVNode (sample_vnode 4)) (Some 5) [MTNode 2 (EFile (sample_file ''b'' 2)) (Some 4) []]]))"
proof -
  let ?t = "tree_nodes sample_tree ! 4"
  have t: "?t = MTNode 5 (EDirectory (sample_dir ''d'' 5)) (Some 7)
      [MTNode 4 (EVNode (sample_vnode 4)) (Some 5) [MTNode 2 (EFile (sample_file ''b'' 2)) (Some 4) []]]"
    by (simp add: sample_tree_def)
  have "stored (tree_store ?t []) ?t" unfolding t by (simp add: tree_store_def Let_def strip_def)
  moreover have "wf_tree ?t" "is_dir ?t" "tree_size ?t \<le> 3" "map_of [([Normal ''d''], 5)] [Normal ''d''] = Some (t_hash ?t)"
    unfolding t by simp_all
  ultimately show ?thesis
    using dir_without_children_loads_files [of "tree_store ?t []" ?t 3 "[([Normal ''d''], 5)]" "[Normal ''d'']"
        "commit_node_to_commit (sample_commit 9 [] 0)"]
    unfolding t by (simp add: strip_def)
qed

end
