(* ===== verification/Read_File_Props.thy ===== *)
theory Read_File_Props
  imports Tree_Loader_Props
begin

text \<open>
  The shortcut of \<open>read_file\<close>: directory hash, then the vnode that the hash of the path selects,
  then a binary search in it. It agrees with the search from the root when the directory hashes are
  those of the tree and every file lies in the vnode its path selects (\<open>bucketed\<close>), which is how
  the commit writer splits a directory.
\<close>

section \<open>Entries and their directories\<close>

definition dir_entry :: "merkle_tree_node \<Rightarrow> merkle_tree_node \<Rightarrow> bool" where
  "dir_entry d x \<longleftrightarrow> (\<exists>v \<in> set (t_children d). x \<in> set (t_children v))"

lemma wf_dir_entry:
  assumes "wf_tree d" "is_dir d" "v \<in> set (t_children d)"
  shows "is_vnode v \<and> wf_tree v \<and>
    (\<forall>x \<in> set (t_children v). wf_tree x \<and> (is_file x \<or> is_dir x) \<and> valid_name (child_search_name x))"
proof -
  obtain h e p cs where d: "d = MTNode h (EDirectory e) p cs"
    using assms(2) by (cases d) (auto simp: is_dir_def split: e_merkle_tree_node.splits)
  have v: "is_vnode v" "wf_tree v" using assms by (auto simp: d list_all_iff)
  then obtain h' w p' cs' where w: "v = MTNode h' (EVNode w) p' cs'" by (blast elim: is_vnodeE)
  show ?thesis using v by (auto simp: w list_all_iff)
qed

lemma tree_entries_root_dir: "is_dir d \<Longrightarrow> (cur, d) \<in> set (tree_entries d cur)"
  by (cases d) (auto simp: is_dir_def split: e_merkle_tree_node.splits)

lemma tree_entries_kid:
  "c \<in> set (t_children t) \<Longrightarrow> (q, x) \<in> set (tree_entries c (child_path cur c)) \<Longrightarrow> (q, x) \<in> set (tree_entries t cur)"
  by (cases t) auto

lemma entry_self:
  assumes "wf_tree x" "is_file x \<or> is_dir x" "valid_name (child_search_name x)"
  shows "(cur @ [Normal (child_search_name x)], x) \<in> set (tree_entries x (child_path cur x))"
proof (cases "is_dir x")
  case True
  with assms(3) show ?thesis using tree_entries_root_dir [OF True, of "child_path cur x"] by (simp add: child_path_dir)
next
  case False
  with assms(2) have "is_file x" by simp
  then obtain h f p cs where x: "x = MTNode h (EFile f) p cs"
    by (cases x) (auto simp: is_file_def split: e_merkle_tree_node.splits)
  with assms(3) show ?thesis by simp
qed

lemma dir_entry_listed:
  assumes "wf_tree d" "is_dir d" "dir_entry d x"
  shows "(cur @ [Normal (child_search_name x)], x) \<in> set (tree_entries d cur)"
proof -
  obtain v where v: "v \<in> set (t_children d)" "x \<in> set (t_children v)"
    using assms(3) by (auto simp: dir_entry_def)
  note wf = wf_dir_entry [OF assms(1,2) v(1)]
  have "child_path cur v = cur" using wf by (auto simp: kind_defs child_path_def split: e_merkle_tree_node.splits)
  moreover have "(cur @ [Normal (child_search_name x)], x) \<in> set (tree_entries v cur)"
    using entry_self wf v(2) tree_entries_kid [OF v(2)] by blast
  ultimately show ?thesis using tree_entries_kid [OF v(1)] by metis
qed

lemma dir_entry_up:
  "wf_tree t \<Longrightarrow> (P, d) \<in> set (tree_entries t cur) \<Longrightarrow> is_dir d \<Longrightarrow> dir_entry d x \<Longrightarrow>
   (P @ [Normal (child_search_name x)], x) \<in> set (tree_entries t cur) \<and> wf_tree d"
proof (induction t cur rule: tree_entries.induct)
  case (1 h n p cs cur)
  let ?t = "MTNode h n p cs"
  show ?case
  proof (cases "d = ?t \<and> P = cur")
    case True
    with 1(2,4,5) dir_entry_listed [of ?t x cur] show ?thesis by blast
  next
    case False
    then obtain c where c: "c \<in> set cs" "(P, d) \<in> set (tree_entries c (child_path cur c))"
      using 1(3,4) by (auto simp: is_dir_def split: e_merkle_tree_node.splits)
    have wf: "wf_tree c" using wf_child(1) [OF 1(2) c(1)] .
    note IH = 1(1) [OF c(1) wf c(2) 1(4,5)]
    have "c \<in> set (t_children ?t)" using c(1) by simp
    from tree_entries_kid [OF this] IH show ?thesis by blast
  qed
qed

text \<open>The subtree of a directory: itself, its files, and its directories' subtrees.\<close>

lemma dir_entries_cases:
  assumes "wf_tree t" "is_dir t" "(q, x) \<in> set (tree_entries t cur)"
  obtains (top) "q = cur" "x = t"
    | (below) c where "dir_entry t c" "wf_tree c" "is_file c \<or> is_dir c" "valid_name (child_search_name c)"
        "(q, x) \<in> set (tree_entries c (child_path cur c))" "tree_size c < tree_size t"
proof -
  obtain h e p cs where t: "t = MTNode h (EDirectory e) p cs"
    using assms(2) by (cases t) (auto simp: is_dir_def split: e_merkle_tree_node.splits)
  show thesis
  proof (cases "q = cur \<and> x = t")
    case False
    then obtain v where v: "v \<in> set cs" "(q, x) \<in> set (tree_entries v (child_path cur v))"
      using assms(3) by (auto simp: t)
    have wf: "is_vnode v \<and> wf_tree v \<and>
        (\<forall>x \<in> set (t_children v). wf_tree x \<and> (is_file x \<or> is_dir x) \<and> valid_name (child_search_name x))"
      using wf_dir_entry [OF assms(1,2), of v] v(1) by (simp add: t)
    then obtain h' w p' cs' where w: "v = MTNode h' (EVNode w) p' cs'" by (blast elim: is_vnodeE)
    obtain c where c: "c \<in> set cs'" "(q, x) \<in> set (tree_entries c (child_path cur c))"
      using v(2) by (auto simp: w child_path_def)
    have "dir_entry t c" using v(1) c(1) unfolding dir_entry_def t by (intro bexI [of _ v]) (simp_all add: w)
    moreover have "tree_size c < tree_size t"
      using member_tree_size [OF c(1)] member_tree_size [OF v(1)] by (simp add: t w)
    ultimately show thesis using below wf c by (simp add: w)
  qed (use top in blast)
qed

lemma dir_entry_kid:
  assumes "wf_tree t" "is_dir t" "dir_entry t c" "(q, x) \<in> set (tree_entries c (child_path cur c))"
  shows "(q, x) \<in> set (tree_entries t cur)"
proof -
  obtain v where v: "v \<in> set (t_children t)" "c \<in> set (t_children v)" using assms(3) by (auto simp: dir_entry_def)
  have "is_vnode v" using wf_dir_entry [OF assms(1,2) v(1)] by simp
  then have "child_path cur v = cur" by (auto elim!: is_vnodeE simp: child_path_def)
  with tree_entries_kid [OF v(2) assms(4)] tree_entries_kid [OF v(1), of q x cur] show ?thesis by simp
qed

lemma entry_has_dir:
  assumes "wf_tree t" "is_dir t" "(q, x) \<in> set (tree_entries t cur)"
  shows "q = cur \<and> x = t \<or>
    (\<exists>P d. (P, d) \<in> set (tree_entries t cur) \<and> is_dir d \<and> dir_entry d x \<and> q = P @ [Normal (child_search_name x)])"
  using assms
proof (induction t arbitrary: cur rule: measure_induct_rule [of tree_size])
  case (less t)
  from less.prems show ?case
  proof (cases rule: dir_entries_cases)
    case (below c)
    have here: "(cur, t) \<in> set (tree_entries t cur)" using less.prems(2) by (rule tree_entries_root_dir)
    show ?thesis
    proof (cases "is_dir c")
      case False
      then obtain h f p cs where c: "c = MTNode h (EFile f) p cs"
        using below(3) by (cases c) (auto simp: is_file_def split: e_merkle_tree_node.splits)
      have "x = c \<and> q = cur @ [Normal (child_search_name c)]"
        using below(2,4,5) by (auto simp: c)
      with here less.prems(2) below(1) show ?thesis by blast
    next
      case True
      from less.IH [OF below(6,2) True below(5)]
      consider "q = child_path cur c \<and> x = c"
        | P d where "(P, d) \<in> set (tree_entries c (child_path cur c))" "is_dir d" "dir_entry d x"
            "q = P @ [Normal (child_search_name x)]"
        by blast
      then show ?thesis
      proof cases
        case 1
        with here less.prems(2) below(1,4) True show ?thesis by (auto simp: child_path_dir)
      next
        case 2
        with dir_entry_kid [OF less.prems(1,2) below(1)] show ?thesis by blast
      qed
    qed
  qed simp
qed

section \<open>The store and the tree agree\<close>

text \<open>The directory hashes of a commit are those of the directories of its tree.\<close>

definition dir_hashes_ok :: "dir_hash_map \<Rightarrow> merkle_tree_node \<Rightarrow> bool" where
  "dir_hashes_ok dhs root \<longleftrightarrow>
     (\<forall>q h. map_of dhs q = Some h \<longleftrightarrow> (\<exists>d. (q, d) \<in> set (tree_entries root []) \<and> is_dir d \<and> t_hash d = h))"

definition bucketed :: "(byte list \<Rightarrow> merkle_hash) \<Rightarrow> path \<Rightarrow> merkle_tree_node \<Rightarrow> bool" where
  "bucketed hash128 P d \<longleftrightarrow>
     (\<forall>i < length (t_children d). \<forall>c \<in> set (t_children (t_children d ! i)).
        unat (hash128 (as_bytes (path_to_str (P @ [Normal (child_search_name c)])))) mod length (t_children d) = i)"

lemma stored_entry:
  "wf_tree t \<Longrightarrow> stored st t \<Longrightarrow> (q, x) \<in> set (tree_entries t cur) \<Longrightarrow> stored st x \<and> tree_size x \<le> tree_size t"
proof (induction t cur rule: tree_entries.induct)
  case (1 h n p cs cur)
  show ?case
  proof (cases "x = MTNode h n p cs")
    case False
    then obtain c where c: "c \<in> set cs" "(q, x) \<in> set (tree_entries c (child_path cur c))"
      using 1(4) by (auto split: e_merkle_tree_node.splits)
    have "stored st c" using 1(3) c(1) by (cases "may_have_children (MTNode h n p cs)") (auto simp: list_all_iff)
    moreover have "wf_tree c" using wf_child(1) [OF 1(2) c(1)] .
    ultimately have "stored st x \<and> tree_size x \<le> tree_size c" using 1(1) [OF c(1)] c(2) by blast
    moreover have "tree_size c < tree_size (MTNode h n p cs)" using member_tree_size [OF c(1)] by simp
    ultimately show ?thesis by linarith
  qed (use 1(3) in simp)
qed

lemma wf_entry: "wf_tree t \<Longrightarrow> (q, x) \<in> set (tree_entries t cur) \<Longrightarrow> wf_tree x"
proof (induction t cur rule: tree_entries.induct)
  case (1 h n p cs cur)
  show ?case
  proof (cases "x = MTNode h n p cs")
    case False
    then obtain c where c: "c \<in> set cs" "(q, x) \<in> set (tree_entries c (child_path cur c))"
      using 1(3) by (auto split: e_merkle_tree_node.splits)
    show ?thesis using 1(1) [OF c(1) wf_child(1) [OF 1(2) c(1)] c(2)] .
  qed (use 1(2) in blast)
qed

lemma map_of_tree_entries:
  assumes "wf_tree t"
  shows "map_of (tree_entries t cur) q = Some x \<longleftrightarrow> (q, x) \<in> set (tree_entries t cur)"
  using distinct_tree_entries [OF assms, of cur] by simp

text \<open>The search in the vnode that was loaded without the contents of its directories.\<close>

lemma vnode_get_by_path:
  assumes wf: "wf_tree (MTNode h (EVNode v) p cs)" and s: "valid_name s"
  shows "get_by_path (MTNode h (EVNode v) pid (map strip cs)) [Normal s] = Some x \<longleftrightarrow>
    (\<exists>c \<in> set cs. child_search_name c = s \<and> x = strip c)"
proof -
  let ?v = "MTNode h (EVNode v) pid (map strip cs)"
  have kid: "wf_tree c \<and> (is_file c \<or> is_dir c) \<and> valid_name (child_search_name c)" if "c \<in> set cs" for c
    using wf that by (auto simp: list_all_iff)
  have name: "child_search_name (strip c) = child_search_name c" for c by (simp add: child_search_name_def)
  have kinds: "is_file (strip c) = is_file c" "is_dir (strip c) = is_dir c" for c
    by (simp_all add: is_file_def is_dir_def)
  have wfs: "wf_tree (strip c)" if "c \<in> set cs" for c
    using kid [OF that] by (cases c) (auto simp: strip_def is_file_def is_dir_def split: e_merkle_tree_node.splits)
  have "wf_tree ?v"
    using wf kid wfs by (auto simp: list_all_iff name kinds comp_def)
  then have "get_by_path ?v [Normal s] = Some x \<longleftrightarrow> ([Normal s], x) \<in> set (tree_entries ?v [])"
    by (simp add: get_by_path_entries map_of_tree_entries del: tree_entries.simps wf_tree.simps)
  also have "\<dots> \<longleftrightarrow> (\<exists>c \<in> set cs. ([Normal s], x) \<in> set (tree_entries (strip c) (child_path [] (strip c))))" by auto
  also have "\<dots> \<longleftrightarrow> (\<exists>c \<in> set cs. child_search_name c = s \<and> x = strip c)"
  proof (intro bex_cong refl)
    fix c assume c: "c \<in> set cs"
    have "set (tree_entries (strip c) (child_path [] (strip c))) = {([Normal (child_search_name c)], strip c)}"
      using kid [OF c] by (cases c)
        (auto simp: strip_def is_file_def is_dir_def child_path_def child_search_name_def split: e_merkle_tree_node.splits)
    then show "([Normal s], x) \<in> set (tree_entries (strip c) (child_path [] (strip c))) \<longleftrightarrow>
        child_search_name c = s \<and> x = strip c" by auto
  qed
  finally show ?thesis .
qed

section \<open>Reads at depth 0\<close>

lemma prune_vnode_0:
  assumes "wf_tree v" and "is_vnode v"
  shows "t_children (prune None 0 0 v) = map strip (t_children v)"
proof -
  obtain h' v' p' cs' where v: "v = MTNode h' (EVNode v') p' cs'" using assms(2) by (rule is_vnodeE)
  have "(if may_have_children c \<and> descends 0 0 c then prune None 0 (child_depth 0 c) c else strip c) = strip c"
    if "c \<in> set cs'" for c
  proof -
    have "is_file c \<or> is_dir c" using assms(1) that by (auto simp: v list_all_iff)
    then show ?thesis
      by (auto simp: may_have_children_def descends_def is_file_def is_dir_def split: e_merkle_tree_node.splits)
  qed
  then show ?thesis by (simp add: v in_base_def)
qed

lemma prune_dir_0_hashes:
  assumes "wf_tree d" and "is_dir d"
  shows "map t_hash (t_children (prune None 0 0 d)) = map t_hash (t_children d)"
proof -
  have "t_hash (prune None 0 x c) = t_hash c" for x c by (cases c) simp
  with assms show ?thesis
    by (cases d) (auto simp: in_base_def is_dir_def may_have_children_def split: e_merkle_tree_node.splits)
qed

lemma entry_unique:
  assumes "wf_tree t" "(q, x) \<in> set (tree_entries t cur)" "(q, y) \<in> set (tree_entries t cur)"
  shows "x = y"
  using distinct_tree_entries [OF assms(1), of cur] assms(2,3) by (rule eq_key_imp_eq_value)

lemma is_file_strip: "stored st c \<Longrightarrow> is_file c \<Longrightarrow> strip c = c"
  by (rule stored_leaf) (auto simp: is_file_def may_have_children_def split: e_merkle_tree_node.splits)

text \<open>The vnode the path selects holds the file, if the tree does.\<close>

lemma bucket_search:
  assumes wf: "wf_tree root" "is_dir root" and st: "stored st root"
    and d: "(P, d) \<in> set (tree_entries root [])" "is_dir d" "t_children d \<noteq> []"
    and b: "bucketed hash128 P d" and s: "valid_name s"
    and isf: "\<And>x. get_by_path root (P @ [Normal s]) = Some x \<Longrightarrow> is_file x"
    and i: "i = unat (hash128 (as_bytes (path_to_str (P @ [Normal s])))) mod length (t_children d)"
    and v: "v = MTNode (t_hash (t_children d ! i)) (t_node (t_children d ! i)) pid (map strip (t_children (t_children d ! i)))"
  shows "get_by_path v [Normal s] = get_by_path root (P @ [Normal s])"
proof -
  let ?p = "P @ [Normal s]" and ?v = "t_children d ! i"
  have nf: "\<not> is_file root" using wf(2) by (auto simp: is_file_def is_dir_def split: e_merkle_tree_node.splits)
  have look: "get_by_path root ?p = Some x \<longleftrightarrow> (?p, x) \<in> set (tree_entries root [])" for x
    by (simp add: get_by_path_entries [OF wf(1) nf] map_of_tree_entries [OF wf(1)])
  have wfd: "wf_tree d" using wf_entry [OF wf(1) d(1)] .
  have il: "i < length (t_children d)" using d(3) i by simp
  then have vin: "?v \<in> set (t_children d)" by simp
  note wv = wf_dir_entry [OF wfd d(2) vin]
  obtain h' w p' cs' where vv: "?v = MTNode h' (EVNode w) p' cs'" using wv by (blast elim: is_vnodeE)
  have "wf_tree (MTNode h' (EVNode w) p' cs')" using wv vv by simp
  from vnode_get_by_path [OF this s, of pid]
  have found: "get_by_path v [Normal s] = Some x \<longleftrightarrow> (\<exists>c \<in> set (t_children ?v). child_search_name c = s \<and> x = strip c)" for x
    by (simp add: v vv)
  have "get_by_path v [Normal s] = Some x \<longleftrightarrow> get_by_path root ?p = Some x" for x
  proof
    assume "get_by_path v [Normal s] = Some x"
    then obtain c where c: "c \<in> set (t_children ?v)" "child_search_name c = s" "x = strip c" using found by blast
    then have "dir_entry d c" using vin by (auto simp: dir_entry_def)
    then have ent: "(?p, c) \<in> set (tree_entries root [])" using dir_entry_up [OF wf(1) d(1,2), of c] c(2) by blast
    then have "is_file c" using isf look by blast
    moreover have "stored st c" using stored_entry [OF wf(1) st ent] by blast
    ultimately have "strip c = c" by (intro is_file_strip)
    with ent c(3) look show "get_by_path root ?p = Some x" by simp
  next
    assume r: "get_by_path root ?p = Some x"
    then have ent: "(?p, x) \<in> set (tree_entries root [])" using look by blast
    from entry_has_dir [OF wf ent] obtain d' where d': "(P, d') \<in> set (tree_entries root [])" "dir_entry d' x" "child_search_name x = s"
      by auto
    have "d' = d" using entry_unique [OF wf(1) d'(1) d(1)] .
    then obtain j where j: "j < length (t_children d)" "x \<in> set (t_children (t_children d ! j))"
      using d'(2) by (metis dir_entry_def in_set_conv_nth)
    have "j = i" using b j i d'(3) by (auto simp: bucketed_def)
    moreover have "strip x = x" using is_file_strip stored_entry [OF wf(1) st ent] isf [OF r] by blast
    ultimately show "get_by_path v [Normal s] = Some x" using found j(2) d'(3) by metis
  qed
  then show ?thesis by (cases "get_by_path root ?p"; cases "get_by_path v [Normal s]") auto
qed

lemma read_file_search:
  assumes "wf_tree root" and "is_dir root" and "stored st root" and "tree_size root \<le> fuel"
    and "dir_hashes_ok dhs root"
    and "\<And>P d. (P, d) \<in> set (tree_entries root []) \<Longrightarrow> is_dir d \<Longrightarrow> bucketed hash128 P d"
    and "name_path path" and "path \<noteq> []"
    and "\<And>x. get_by_path root path = Some x \<Longrightarrow> is_file x"
  shows "read_file hash128 st fuel dhs path = Inr (get_by_path root path)"
proof -
  obtain P s where p: "path = P @ [Normal s]" "valid_name s"
    using assms(7,8) by (cases path rule: rev_cases) auto
  have nf: "\<not> is_file root" using assms(2) by (auto simp: is_file_def is_dir_def split: e_merkle_tree_node.splits)
  have has_dir: "\<exists>d. (P, d) \<in> set (tree_entries root []) \<and> is_dir d \<and> dir_entry d x"
    if "get_by_path root path = Some x" for x
  proof -
    have "(path, x) \<in> set (tree_entries root [])"
      using that by (simp add: get_by_path_entries [OF assms(1) nf] map_of_tree_entries [OF assms(1)])
    from entry_has_dir [OF assms(1,2) this] p show ?thesis by auto
  qed
  show ?thesis
  proof (cases "map_of dhs P")
    case None
    have "get_by_path root path = None"
    proof (cases "get_by_path root path")
      case (Some x)
      then obtain d where "(P, d) \<in> set (tree_entries root [])" "is_dir d" using has_dir by blast
      then have "map_of dhs P = Some (t_hash d)" using assms(5) unfolding dir_hashes_ok_def by blast
      with None show ?thesis by simp
    qed
    with None p show ?thesis by (simp add: read_file_def)
  next
    case (Some h)
    then obtain d where d: "(P, d) \<in> set (tree_entries root [])" "is_dir d" "t_hash d = h"
      using assms(5) by (auto simp: dir_hashes_ok_def)
    have std: "stored st d" "tree_size d \<le> fuel" using stored_entry [OF assms(1,3) d(1)] assms(4) by auto
    have wfd: "wf_tree d" using wf_entry [OF assms(1) d(1)] .
    have mayd: "may_have_children d" using d(2) by (auto simp: is_dir_def may_have_children_def split: e_merkle_tree_node.splits)
    obtain pid where rd: "read_depth st fuel h 0 = Inr (Some (MTNode (t_hash d) (t_node d) pid (t_children (prune None 0 0 d))))"
      using read_depth_stored [OF std(1) mayd std(2)] d(3) by metis
    let ?vs = "t_children (prune None 0 0 d)"
    have hs: "map t_hash ?vs = map t_hash (t_children d)" using wfd d(2) by (rule prune_dir_0_hashes)
    then have len: "length ?vs = length (t_children d)" by (metis length_map)
    show ?thesis
    proof (cases "t_children d = []")
      case True
      then have "get_by_path root path = None"
        using has_dir entry_unique [OF assms(1) d(1)] by (cases "get_by_path root path") (auto simp: dir_entry_def)
      with True Some p rd len show ?thesis by (simp add: read_file_def)
    next
      case False
      define i where "i = unat (hash128 (as_bytes (path_to_str (P @ [Normal s])))) mod length (t_children d)"
      have il: "i < length (t_children d)" using False by (simp add: i_def)
      let ?v = "t_children d ! i"
      have vin: "?v \<in> set (t_children d)" using il by simp
      have vh: "t_hash (?vs ! i) = t_hash ?v" using hs il len by (metis nth_map)
      have wv: "is_vnode ?v" "wf_tree ?v" using wf_dir_entry [OF wfd d(2) vin] by auto
      have mayv: "may_have_children ?v" using wv by (auto simp: is_vnode_def may_have_children_def split: e_merkle_tree_node.splits)
      have stv: "stored st ?v" "tree_size ?v \<le> fuel"
        using std mayd vin member_tree_size [OF vin] by (cases d, auto simp: list_all_iff)+
      obtain vpid where rv: "read_depth st fuel (t_hash ?v) 0 = Inr (Some (MTNode (t_hash ?v) (t_node ?v) vpid (map strip (t_children ?v))))"
        using read_depth_stored [OF stv(1) mayv stv(2)] prune_vnode_0 [OF wv(2,1)] by metis
      have "get_by_path (MTNode (t_hash ?v) (t_node ?v) vpid (map strip (t_children ?v))) [Normal s] = get_by_path root path"
        using bucket_search [OF assms(1-3) d(1,2) False assms(6) [OF d(1,2)] p(2) _ i_def refl] assms(9) p by blast
      with False Some p rd rv vh len show ?thesis
        by (auto simp: read_file_def Let_def i_def [symmetric])
    qed
  qed
qed

section \<open>Properties\<close>

text \<open>C31: \<open>read_file\<close> is the search from the root of the commit, for every path that is no directory:
  when the store holds the tree, the directory hashes are those of its directories and every file
  lies in the vnode its path hashes to, the lookup through the directory hash and one vnode answers
  exactly what \<open>get_by_path\<close> answers on the whole tree (the file, or nothing).\<close>

theorem read_file_agrees_with_search:
  assumes "wf_tree root" and "is_dir root" and "stored st root" and "tree_size root \<le> fuel"
    and "dir_hashes_ok dhs root"
    and "\<And>P d. (P, d) \<in> set (tree_entries root []) \<Longrightarrow> is_dir d \<Longrightarrow> bucketed hash128 P d"
    and "name_path path" and "path \<noteq> []"
    and "\<And>x. get_by_path root path = Some x \<Longrightarrow> is_file x"
  shows "read_file hash128 st fuel dhs path = Inr (get_by_path root path)"
  using assms by (rule read_file_search)

lemma read_file_agrees_with_search_witness:
  "read_file (\<lambda>_. 0) (tree_store sample_tree []) 6 [([], 8), ([Normal ''d''], 5)] [Normal ''d'', Normal ''b''] =
     Inr (Some (MTNode 2 (EFile (sample_file ''b'' 2)) (Some 4) []))"
proof -
  let ?r = "hd (t_children sample_tree)"
  let ?st = "tree_store sample_tree []"
  let ?dhs = "[([], 8 :: merkle_hash), ([Normal ''d''], 5)]"
  let ?p = "[Normal ''d'', Normal ''b'']"
  let ?b = "MTNode 2 (EFile (sample_file ''b'' 2)) (Some 4) []"
  have wf: "wf_tree ?r" "is_dir ?r" "tree_size ?r \<le> 6" by (simp_all add: sample_tree_def)
  have st: "stored ?st ?r" using stored_sample by (simp add: sample_tree_def)
  have ents: "set (tree_entries ?r []) = {([], ?r), ([Normal ''a''], MTNode 1 (EFile (sample_file ''a'' 1)) (Some 7) []),
      ([Normal ''d''], tree_nodes sample_tree ! 4), (?p, ?b)}"
    by (auto simp: sample_tree_def)
  have dirs: "is_dir ?r" "is_dir (tree_nodes sample_tree ! 4)" "\<not> is_dir ?b"
    "t_hash ?r = 8" "t_hash (tree_nodes sample_tree ! 4) = 5"
    by (simp_all add: sample_tree_def)
  have dhs: "dir_hashes_ok ?dhs ?r"
    unfolding dir_hashes_ok_def ents using dirs by auto
  have bucket: "bucketed (\<lambda>_. 0) P d" if "(P, d) \<in> set (tree_entries ?r [])" "is_dir d" for P d
    using that unfolding ents by (auto simp: bucketed_def sample_tree_def)
  have look: "get_by_path ?r ?p = Some ?b"
    using ents get_by_path_entries [of ?r ?p] map_of_tree_entries [OF wf(1), of "[]" ?p ?b] wf
    by (simp add: sample_tree_def)
  have "read_file (\<lambda>_. 0) ?st 6 ?dhs ?p = Inr (get_by_path ?r ?p)"
    by (rule read_file_agrees_with_search [OF wf(1,2) st wf(3) dhs bucket]) (use look in auto)
  with look show ?thesis by simp
qed

end
