(* ===== verification/Tree_Query_Props.thy ===== *)
theory Tree_Query_Props
  imports Tree_Queries Read_File_Props "HOL-Library.Sublist"
begin

text \<open>
  The listings of \<open>Tree_Queries\<close> against the reference enumeration \<open>tree_entries\<close> and the search
  \<open>get_by_path\<close>.
\<close>

section \<open>Files and directories of the enumeration\<close>

definition file_entries :: "merkle_tree_node \<Rightarrow> path \<Rightarrow> (path \<times> file_node) list" where
  "file_entries t cur = concat (map (\<lambda>(p, x). case t_node x of EFile f \<Rightarrow> [(p, f)] | _ \<Rightarrow> []) (tree_entries t cur))"

definition dir_only_entries :: "merkle_tree_node \<Rightarrow> path \<Rightarrow> (path \<times> dir_node) list" where
  "dir_only_entries t cur = concat (map (\<lambda>(p, x). case t_node x of EDirectory d \<Rightarrow> [(p, d)] | _ \<Rightarrow> []) (tree_entries t cur))"

lemma concat_map_concat: "concat (map f (concat xss)) = concat (map (\<lambda>xs. concat (map f xs)) xss)"
  by (induction xss) auto

lemma file_entries_node:
  "file_entries (MTNode h n p cs) cur =
     (case n of EFile f \<Rightarrow> [(join_str cur (fn_name f), f)] | _ \<Rightarrow> []) @
     concat (map (\<lambda>c. file_entries c (child_path cur c)) cs)"
  by (auto simp: file_entries_def concat_map_concat comp_def split: e_merkle_tree_node.splits)

lemma dir_only_entries_node:
  "dir_only_entries (MTNode h n p cs) cur =
     (case n of EDirectory d \<Rightarrow> [(cur, d)] | _ \<Rightarrow> []) @
     concat (map (\<lambda>c. dir_only_entries c (child_path cur c)) cs)"
  by (auto simp: dir_only_entries_def concat_map_concat comp_def split: e_merkle_tree_node.splits)

lemma in_file_entries: "(p, f) \<in> set (file_entries t cur) \<longleftrightarrow> (\<exists>x. (p, x) \<in> set (tree_entries t cur) \<and> t_node x = EFile f)"
  by (force simp: file_entries_def split: e_merkle_tree_node.splits)

lemma in_dir_only_entries:
  "(p, d) \<in> set (dir_only_entries t cur) \<longleftrightarrow> (\<exists>x. (p, x) \<in> set (tree_entries t cur) \<and> t_node x = EDirectory d)"
  by (force simp: dir_only_entries_def split: e_merkle_tree_node.splits)

lemma distinct_picked:
  assumes "distinct (map fst xs)" and "\<And>p x. set (map fst (g (p, x))) \<subseteq> {p}" and "\<And>e. length (g e) \<le> 1"
  shows "distinct (map fst (concat (map g xs)))"
  using assms(1)
proof (induction xs)
  case (Cons e xs)
  obtain p x where e: "e = (p, x)" by force
  have "fst ` set (concat (map g xs)) \<subseteq> fst ` set xs"
  proof
    fix q assume "q \<in> fst ` set (concat (map g xs))"
    then obtain p' x' z where "(p', x') \<in> set xs" "z \<in> set (g (p', x'))" "q = fst z" by auto
    moreover from this have "q = p'" using assms(2) [of p' x'] by auto
    ultimately show "q \<in> fst ` set xs" by force
  qed
  then have "p \<notin> fst ` set (concat (map g xs))" using Cons.prems e by auto
  moreover have "distinct (map fst (g e))" using assms(3) [of e] by (cases "g e") auto
  ultimately show ?case using Cons assms(2) [of p x] e by auto
qed simp

lemma distinct_file_entries: "wf_tree t \<Longrightarrow> distinct (map fst (file_entries t cur))"
  unfolding file_entries_def
  by (rule distinct_picked [OF distinct_tree_entries]) (auto split: e_merkle_tree_node.splits prod.splits)

lemma distinct_dir_only_entries: "wf_tree t \<Longrightarrow> distinct (map fst (dir_only_entries t cur))"
  unfolding dir_only_entries_def
  by (rule distinct_picked [OF distinct_tree_entries]) (auto split: e_merkle_tree_node.splits prod.splits)

lemma extend_by_append: "extend_by found (xs @ ys) acc = extend_by found ys (extend_by found xs acc)"
  by (simp add: extend_by_def)

lemma fold_extend_by:
  "(\<And>c acc. c \<in> set cs \<Longrightarrow> g c acc = extend_by found (h c) acc) \<Longrightarrow> fold g cs acc = extend_by found (concat (map h cs)) acc"
  by (induction cs arbitrary: acc) (auto simp: extend_by_append)

section \<open>The listings as enumerations\<close>

fun files_in :: "merkle_tree_node \<Rightarrow> path \<Rightarrow> file_node_with_dir list" where
  "files_in (MTNode h n p cs) cur = concat (map (\<lambda>c. case t_node c of
      EFile f \<Rightarrow> [\<lparr>fwd_node = f, fwd_dir = cur\<rparr>]
    | EDirectory d \<Rightarrow> files_in c (join_str cur (dn_name d))
    | EVNode _ \<Rightarrow> files_in c cur
    | _ \<Rightarrow> []) cs)"

fun dirs_in :: "merkle_tree_node \<Rightarrow> path \<Rightarrow> dir_node_with_path list" where
  "dirs_in (MTNode h n p cs) cur = concat (map (\<lambda>c. case t_node c of
      EDirectory d \<Rightarrow> \<lparr>dwp_node = d, dwp_path = join_str cur (dn_name d)\<rparr> # dirs_in c (join_str cur (dn_name d))
    | EVNode _ \<Rightarrow> dirs_in c cur
    | _ \<Rightarrow> []) cs)"

lemma r_list_all_files_eq: "r_list_all_files t cur acc = extend_by file_node_with_dir_eq (files_in t cur) acc"
proof (induction t cur acc rule: r_list_all_files.induct)
  case (1 h n p cs cur acc)
  show ?case
    unfolding r_list_all_files.simps files_in.simps
    by (rule fold_extend_by) (auto simp: 1 split: e_merkle_tree_node.splits)
qed

lemma r_list_all_dirs_eq: "r_list_all_dirs t cur acc = extend_by dir_node_with_path_eq (dirs_in t cur) acc"
proof (induction t cur acc rule: r_list_all_dirs.induct)
  case (1 h n p cs cur acc)
  show ?case
    unfolding r_list_all_dirs.simps dirs_in.simps
    by (rule fold_extend_by) (auto simp: 1 Let_def split: e_merkle_tree_node.splits)
qed

lemma wf_leaf: "wf_tree t \<Longrightarrow> t_node t = EFile f \<Longrightarrow> t_children t = []"
  "wf_tree t \<Longrightarrow> t_node t = EFileChunk k \<Longrightarrow> t_children t = []"
  by (cases t; simp)+

lemma wf_kids: "wf_tree (MTNode h n p cs) \<Longrightarrow> c \<in> set cs \<Longrightarrow> wf_tree c"
  by (auto simp: list_all_iff)

lemma files_in_entries:
  "wf_tree t \<Longrightarrow> \<not> is_file t \<Longrightarrow> map (\<lambda>r. (fwd_path r, fwd_node r)) (files_in t cur) = file_entries t cur"
proof (induction t cur rule: files_in.induct)
  case (1 h n p cs cur)
  have "map (\<lambda>r. (fwd_path r, fwd_node r)) (case t_node c of EFile f \<Rightarrow> [\<lparr>fwd_node = f, fwd_dir = cur\<rparr>]
      | EDirectory d \<Rightarrow> files_in c (join_str cur (dn_name d)) | EVNode _ \<Rightarrow> files_in c cur | _ \<Rightarrow> []) =
      file_entries c (child_path cur c)" if c: "c \<in> set cs" for c
  proof (cases "t_node c")
    case (EFile f)
    with wf_leaf(1) [OF wf_kids [OF 1(3) c]] show ?thesis
      by (cases c) (simp add: file_entries_node child_path_def fwd_path_def)
  next
    case (EDirectory d)
    with 1(1) [OF c EDirectory] wf_kids [OF 1(3) c] show ?thesis by (simp add: child_path_def is_file_def)
  next
    case (EVNode v)
    with 1(2) [OF c EVNode] wf_kids [OF 1(3) c] show ?thesis by (simp add: child_path_def is_file_def)
  next
    case (ECommit m)
    have False using 1(3,4) c ECommit by (auto simp: kind_defs list_all_iff split: e_merkle_tree_node.splits list.splits)
    then show ?thesis ..
  next
    case (EFileChunk k)
    with wf_leaf(2) [OF wf_kids [OF 1(3) c]] show ?thesis by (cases c) (simp add: file_entries_node)
  qed
  then have "map (\<lambda>r. (fwd_path r, fwd_node r)) (files_in (MTNode h n p cs) cur) =
      concat (map (\<lambda>c. file_entries c (child_path cur c)) cs)"
    by (simp add: map_concat cong: map_cong)
  with 1(4) show ?case by (auto simp: file_entries_node is_file_def split: e_merkle_tree_node.splits)
qed

lemma dirs_in_entries:
  "wf_tree t \<Longrightarrow> map (\<lambda>r. (dwp_path r, dwp_node r)) (dirs_in t cur) =
     (if is_dir t then tl (dir_only_entries t cur) else dir_only_entries t cur)"
proof (induction t cur rule: dirs_in.induct)
  case (1 h n p cs cur)
  have "map (\<lambda>r. (dwp_path r, dwp_node r)) (case t_node c of
        EDirectory d \<Rightarrow> \<lparr>dwp_node = d, dwp_path = join_str cur (dn_name d)\<rparr> # dirs_in c (join_str cur (dn_name d))
      | EVNode _ \<Rightarrow> dirs_in c cur | _ \<Rightarrow> []) = dir_only_entries c (child_path cur c)" if c: "c \<in> set cs" for c
  proof (cases "t_node c")
    case (EFile f)
    with wf_leaf(1) [OF wf_kids [OF 1(3) c]] show ?thesis by (cases c) (simp add: dir_only_entries_node)
  next
    case (EDirectory d)
    with 1(1) [OF c EDirectory] wf_kids [OF 1(3) c] show ?thesis
      by (cases c) (simp add: child_path_def is_dir_def dir_only_entries_node)
  next
    case (EVNode v)
    with 1(2) [OF c EVNode] wf_kids [OF 1(3) c] show ?thesis by (simp add: child_path_def is_dir_def)
  next
    case (ECommit m)
    have False using 1(3) c ECommit by (auto simp: kind_defs list_all_iff split: e_merkle_tree_node.splits list.splits)
    then show ?thesis ..
  next
    case (EFileChunk k)
    with wf_leaf(2) [OF wf_kids [OF 1(3) c]] show ?thesis by (cases c) (simp add: dir_only_entries_node)
  qed
  then have "map (\<lambda>r. (dwp_path r, dwp_node r)) (dirs_in (MTNode h n p cs) cur) =
      concat (map (\<lambda>c. dir_only_entries c (child_path cur c)) cs)"
    by (simp add: map_concat cong: map_cong)
  then show ?case by (auto simp: dir_only_entries_node is_dir_def split: e_merkle_tree_node.splits)
qed

lemma list_all_files_eq:
  assumes "wf_tree t" "\<not> is_file t"
  shows "list_all_files t cur = files_in t cur"
proof -
  have "map fwd_path (files_in t cur) = map fst (file_entries t cur)"
    unfolding files_in_entries [OF assms, symmetric] by simp
  then have "distinct (map fwd_path ([] @ files_in t cur))" using distinct_file_entries [OF assms(1)] by simp
  from fwd.extend_distinct_id [OF this] show ?thesis by (simp add: list_all_files_def r_list_all_files_eq)
qed

lemma list_all_dirs_eq:
  assumes "wf_tree t"
  shows "list_all_dirs t = dirs_in t []"
proof -
  have "map dwp_path (dirs_in t []) = map fst (map (\<lambda>r. (dwp_path r, dwp_node r)) (dirs_in t []))" by simp
  then have "distinct (map dwp_path ([] @ dirs_in t []))"
    using distinct_dir_only_entries [OF assms, of "[]"] unfolding dirs_in_entries [OF assms]
    by (auto simp: map_tl distinct_tl)
  from dwp.extend_distinct_id [OF this] show ?thesis by (simp add: list_all_dirs_def r_list_all_dirs_eq)
qed

lemma fold_pair_filter:
  assumes "\<And>c a b. c \<in> set cs \<Longrightarrow> g c (a, filter Q b) = (f c a, filter Q (d c b))"
  shows "fold g cs (a, filter Q b) = (fold f cs a, filter Q (fold d cs b))"
  using assms by (induction cs arbitrary: a b) auto

lemma filter_insert_dir:
  "filter (\<lambda>d. dwp_path d \<noteq> []) (insert_by dir_node_with_path_eq r ds) =
     (if dwp_path r \<noteq> [] then insert_by dir_node_with_path_eq r (filter (\<lambda>d. dwp_path d \<noteq> []) ds)
      else filter (\<lambda>d. dwp_path d \<noteq> []) ds)"
  by (auto simp: insert_by_def list_ex_iff dir_node_with_path_eq_def)

lemma r_list_files_and_dirs_eq:
  "\<not> is_file t \<Longrightarrow> r_list_files_and_dirs t cur (a, filter (\<lambda>d. dwp_path d \<noteq> []) b) =
     (r_list_all_files t cur a, filter (\<lambda>d. dwp_path d \<noteq> []) (r_list_all_dirs t cur b))"
proof (induction t arbitrary: cur a b)
  case (MTNode h n p cs)
  let ?Q = "\<lambda>d. dwp_path d \<noteq> []"
  let ?g = "\<lambda>child (a, b). case t_node child of
      EFile f \<Rightarrow> (insert_by file_node_with_dir_eq \<lparr>fwd_node = f, fwd_dir = cur\<rparr> a, b)
    | EDirectory d \<Rightarrow> (let new_path = join_str cur (dn_name d) in r_list_files_and_dirs child new_path
          (a, if new_path \<noteq> [] then insert_by dir_node_with_path_eq \<lparr>dwp_node = d, dwp_path = new_path\<rparr> b else b))
    | EVNode _ \<Rightarrow> r_list_files_and_dirs child cur (a, b)
    | _ \<Rightarrow> (a, b)"
  have step: "fold ?g cs (a, filter ?Q b) =
    (r_list_all_files (MTNode h n p cs) cur a, filter ?Q (r_list_all_dirs (MTNode h n p cs) cur b))"
    unfolding r_list_all_files.simps r_list_all_dirs.simps
  proof (rule fold_pair_filter)
    fix c a b assume c: "c \<in> set cs"
    note IH = MTNode.IH [OF c]
    show "?g c (a, filter ?Q b) =
      (case t_node c of EFile f \<Rightarrow> insert_by file_node_with_dir_eq \<lparr>fwd_node = f, fwd_dir = cur\<rparr> a
         | EDirectory d \<Rightarrow> r_list_all_files c (join_str cur (dn_name d)) a | EVNode _ \<Rightarrow> r_list_all_files c cur a | _ \<Rightarrow> a,
       filter ?Q (case t_node c of EDirectory d \<Rightarrow> (let new_path = join_str cur (dn_name d) in r_list_all_dirs c new_path
            (insert_by dir_node_with_path_eq \<lparr>dwp_node = d, dwp_path = new_path\<rparr> b))
         | EVNode _ \<Rightarrow> r_list_all_dirs c cur b | _ \<Rightarrow> b))"
    proof (cases "t_node c")
      case (EDirectory d)
      let ?p = "join_str cur (dn_name d)"
      have "(if ?p \<noteq> [] then insert_by dir_node_with_path_eq \<lparr>dwp_node = d, dwp_path = ?p\<rparr> (filter ?Q b) else filter ?Q b) =
          filter ?Q (insert_by dir_node_with_path_eq \<lparr>dwp_node = d, dwp_path = ?p\<rparr> b)"
        by (simp only: filter_insert_dir dir_node_with_path.select_convs)
      moreover have nf: "\<not> is_file c" using EDirectory by (simp add: is_file_def)
      ultimately show ?thesis using EDirectory by (simp only: e_merkle_tree_node.case prod.case Let_def IH [OF nf])
    next
      case (EVNode v)
      then have "\<not> is_file c" by (simp add: is_file_def)
      with EVNode show ?thesis by (simp only: e_merkle_tree_node.case prod.case IH [OF \<open>\<not> is_file c\<close>])
    qed simp_all
  qed
  with MTNode.prems show ?case by (auto simp: is_file_def simp del: r_list_all_files.simps r_list_all_dirs.simps split: e_merkle_tree_node.splits)
qed

section \<open>Entries with paths\<close>

text \<open>The tuples of \<open>dir_entries_with_paths\<close> compare by content hash and path.\<close>

definition file_path_eq :: "file_node \<times> path \<Rightarrow> file_node \<times> path \<Rightarrow> bool" where
  "file_path_eq e e' \<longleftrightarrow> file_node_eq (fst e) (fst e') \<and> snd e = snd e'"

definition file_path_hashed :: "file_node \<times> path \<Rightarrow> (string \<times> u64 \<times> i64 \<times> u32 \<times> merkle_hash) \<times> path" where
  "file_path_hashed e = (file_node_hashed (fst e), snd e)"

interpretation fp_eq: hash_set file_path_eq file_path_eq file_path_hashed
  by unfold_locales (simp_all add: file_path_eq_def file_node_eq_def)

context hash_set
begin

lemma extend_distinct_key:
  assumes "\<And>y x. eq y x \<Longrightarrow> key y = key x"
  shows "distinct (map key (acc @ xs)) \<Longrightarrow> extend_by found xs acc = acc @ xs"
proof (induction xs arbitrary: acc)
  case (Cons x xs)
  have "\<not> found y x" if "y \<in> set acc" for y
    using Cons.prems imageI [OF that, of key] assms found_eq by fastforce
  then have "insert_by found x acc = acc @ [x]" by (auto simp: insert_by_def list_ex_iff)
  with Cons show ?case by simp
qed simp

end

lemma rfold_extend_by:
  "(\<And>c acc. c \<in> set cs \<Longrightarrow> g c acc = Inr (extend_by found (h c) acc)) \<Longrightarrow>
   rfold g cs acc = Inr (extend_by found (concat (map h cs)) acc)"
  by (induction cs arbitrary: acc) (auto simp: extend_by_append)

lemma distinct_kid_entries:
  assumes "wf_tree (MTNode h n p cs)"
  shows "distinct (map fst (concat (map (\<lambda>c. file_entries c (child_path cur c)) cs)))"
  using distinct_file_entries [OF assms, of cur] by (simp add: file_entries_node)

lemma dir_entries_with_paths_eq:
  assumes "hash_set found file_path_eq file_path_hashed"
  shows "wf_tree t \<Longrightarrow> is_dir t \<or> is_vnode t \<or> node_type (t_node t) = TCommit \<Longrightarrow>
    dir_entries_with_paths found t cur = Inr (map (\<lambda>(p, f). (f, p)) (file_entries t cur))"
proof (induction t arbitrary: cur)
  case (MTNode h n p cs)
  let ?h = "\<lambda>c. map (\<lambda>(p, f). (f, p)) (file_entries c (child_path cur c))"
  let ?g = "\<lambda>child entries. case t_node child of
      EFile f \<Rightarrow> Inr (insert_by found (f, join_str cur (fn_name f)) entries)
    | EDirectory d \<Rightarrow> rbind (dir_entries_with_paths found child (join_str cur (dn_name d))) (\<lambda>es. Inr (extend_by found es entries))
    | EVNode _ \<Rightarrow> rbind (dir_entries_with_paths found child cur) (\<lambda>es. Inr (extend_by found es entries))
    | _ \<Rightarrow> Inr entries"
  have step: "?g c acc = Inr (extend_by found (?h c) acc)" if c: "c \<in> set cs" for c acc
  proof (cases "t_node c")
    case (EFile f)
    with wf_leaf(1) [OF wf_kids [OF MTNode.prems(1) c]] show ?thesis by (cases c) (simp add: file_entries_node child_path_def)
  next
    case (EDirectory d)
    with MTNode.IH [OF c wf_kids [OF MTNode.prems(1) c]] show ?thesis by (simp add: child_path_def is_dir_def)
  next
    case (EVNode v)
    with MTNode.IH [OF c wf_kids [OF MTNode.prems(1) c]] show ?thesis by (simp add: child_path_def is_vnode_def)
  next
    case (ECommit m)
    have False using MTNode.prems c ECommit by (auto simp: kind_defs list_all_iff split: e_merkle_tree_node.splits list.splits)
    then show ?thesis ..
  next
    case (EFileChunk k)
    with wf_leaf(2) [OF wf_kids [OF MTNode.prems(1) c]] show ?thesis by (cases c) (simp add: file_entries_node)
  qed
  have "distinct (map snd ([] @ concat (map ?h cs)))"
    using distinct_kid_entries [OF MTNode.prems(1), of cur] by (simp add: map_concat comp_def case_prod_beta)
  then have "extend_by found (concat (map ?h cs)) [] = concat (map ?h cs)"
    using hash_set.extend_distinct_key [OF assms, of snd "[]"] by (simp add: file_path_eq_def)
  then have "rfold ?g cs [] = Inr (concat (map ?h cs))" using rfold_extend_by [of cs ?g found ?h "[]"] step by simp
  with MTNode.prems(2) show ?case
    by (auto simp: file_entries_node map_concat comp_def kind_defs split: e_merkle_tree_node.splits)
qed

text \<open>What \<open>unique_dir_entries\<close> keeps: the files not below a shared node.\<close>

fun kept :: "merkle_hash set \<Rightarrow> merkle_tree_node \<Rightarrow> path \<Rightarrow> (path \<times> file_node) list" where
  "kept S (MTNode h n p cs) cur =
     (case n of
        EFile f \<Rightarrow> [(join_str cur (fn_name f), f)]
      | _ \<Rightarrow> if h \<in> S then [] else concat (map (\<lambda>c. kept S c (child_path cur c)) cs))"

lemma kept_sub: "set (kept S t cur) \<subseteq> set (file_entries t cur)"
proof (induction S t cur rule: kept.induct)
  case (1 S h n p cs cur)
  then show ?case by (cases n) (auto simp: file_entries_node)
qed

lemma kept_cover:
  "wf_tree t \<Longrightarrow> (q, f) \<in> set (file_entries t cur) \<Longrightarrow> (q, f) \<in> set (kept S t cur) \<or>
   (\<exists>y \<in> set (tree_nodes t). t_hash y \<in> S \<and> \<not> is_file y \<and> (\<exists>c. (q, f) \<in> set (file_entries y c)))"
proof (induction t arbitrary: cur)
  case (MTNode h n p cs)
  let ?t = "MTNode h n p cs"
  show ?case
  proof (cases "is_file ?t")
    case True
    with MTNode.prems show ?thesis by (auto simp: file_entries_node is_file_def split: e_merkle_tree_node.splits)
  next
    case nf: False
    show ?thesis
    proof (cases "h \<in> S")
      case True
      with nf MTNode.prems(2) show ?thesis by (intro disjI2 bexI [of _ ?t] conjI exI [of _ cur]) auto
    next
      case False
      obtain c where c: "c \<in> set cs" "(q, f) \<in> set (file_entries c (child_path cur c))"
        using MTNode.prems(2) nf by (auto simp: file_entries_node is_file_def split: e_merkle_tree_node.splits)
      have k: "kept S ?t cur = concat (map (\<lambda>c. kept S c (child_path cur c)) cs)"
        using nf False by (simp add: is_file_def split: e_merkle_tree_node.splits)
      consider "(q, f) \<in> set (kept S c (child_path cur c))"
        | y c' where "y \<in> set (tree_nodes c)" "t_hash y \<in> S" "\<not> is_file y" "(q, f) \<in> set (file_entries y c')"
        using MTNode.IH [OF c(1) wf_kids [OF MTNode.prems(1) c(1)] c(2)] by blast
      then show ?thesis
      proof cases
        case 1
        with c(1) have "(q, f) \<in> set (kept S ?t cur)" unfolding k by auto
        then show ?thesis ..
      next
        case 2
        moreover from 2(1) c(1) have "y \<in> set (tree_nodes ?t)" by auto
        ultimately show ?thesis by blast
      qed
    qed
  qed
qed

lemma rfold_updates:
  assumes "\<And>c acc. c \<in> set cs \<Longrightarrow> hm_wf acc \<Longrightarrow>
    \<exists>m. f c acc = Inr m \<and> hm_wf m \<and> map_of m = map_of acc ++ map_of (rev (g c))" and "hm_wf acc"
  shows "\<exists>m. rfold f cs acc = Inr m \<and> hm_wf m \<and> map_of m = map_of acc ++ map_of (rev (concat (map g cs)))"
  using assms
proof (induction cs arbitrary: acc)
  case (Cons c cs)
  obtain m where m: "f c acc = Inr m" "hm_wf m" "map_of m = map_of acc ++ map_of (rev (g c))"
    using Cons.prems(1) [of c acc] Cons.prems(2) by auto
  obtain m' where m': "rfold f cs m = Inr m'" "hm_wf m'" "map_of m' = map_of m ++ map_of (rev (concat (map g cs)))"
    using Cons.IH [OF _ m(2)] Cons.prems(1) by (metis list.set_intros(2))
  then show ?case by (simp add: m(1,3) map_add_assoc)
qed simp

lemma subseq_concat_map: "(\<And>c. c \<in> set cs \<Longrightarrow> subseq (f c) (g c)) \<Longrightarrow> subseq (concat (map f cs)) (concat (map g cs))"
  by (induction cs) (auto intro: list_emb_append_mono)

lemma kept_subseq: "subseq (kept S t cur) (file_entries t cur)"
proof (induction S t cur rule: kept.induct)
  case (1 S h n p cs cur)
  then have "subseq (concat (map (\<lambda>c. kept S c (child_path cur c)) cs)) (concat (map (\<lambda>c. file_entries c (child_path cur c)) cs))"
    if "\<not> (\<exists>f. n = EFile f)" "h \<notin> S"
    using that by (intro subseq_concat_map) (cases n; simp)
  then show ?case by (cases n) (auto simp: file_entries_node)
qed

lemma subseq_distinct: "subseq xs ys \<Longrightarrow> distinct ys \<Longrightarrow> distinct xs"
proof (induction rule: list_emb.induct)
  case (list_emb_Cons2 x y xs ys)
  then show ?case using list_emb_set [of "(=)" xs ys] by auto
qed auto

lemma distinct_kept: "wf_tree t \<Longrightarrow> distinct (map fst (kept S t cur))"
  by (rule subseq_distinct [OF subseq_map [OF kept_subseq] distinct_file_entries])

lemma unique_dir_entries_eq:
  "wf_tree t \<Longrightarrow> is_dir t \<or> is_vnode t \<or> node_type (t_node t) = TCommit \<Longrightarrow>
   \<exists>m. unique_dir_entries cur t S = Inr m \<and> hm_wf m \<and> map_of m = map_of (kept S t cur)"
proof (induction t arbitrary: cur)
  case (MTNode h n p cs)
  let ?g = "\<lambda>c. kept S c (child_path cur c)"
  let ?f = "\<lambda>child entries. case t_node child of
      EFile f \<Rightarrow> Inr (AList.update (join_str cur (fn_name f)) f entries)
    | EDirectory d \<Rightarrow> rbind (unique_dir_entries (join_str cur (dn_name d)) child S) (\<lambda>es. Inr (hm_extend entries es))
    | EVNode _ \<Rightarrow> rbind (unique_dir_entries cur child S) (\<lambda>es. Inr (hm_extend entries es))
    | _ \<Rightarrow> Inr entries"
  have step: "\<exists>m. ?f c acc = Inr m \<and> hm_wf m \<and> map_of m = map_of acc ++ map_of (rev (?g c))"
    if c: "c \<in> set cs" and acc: "hm_wf acc" for c acc
  proof -
    have rev: "map_of (rev (?g c)) = map_of (?g c)"
      by (rule map_of_rev_distinct [OF distinct_kept [OF wf_kids [OF MTNode.prems(1) c]]])
    show ?thesis
    proof (cases "t_node c")
      case (EFile f)
      with acc show ?thesis by (cases c) (simp add: child_path_def map_add_def fun_eq_iff)
    next
      case (EDirectory d)
      with MTNode.IH [OF c wf_kids [OF MTNode.prems(1) c], of "join_str cur (dn_name d)"] acc rev show ?thesis
        by (auto simp: child_path_def is_dir_def map_of_extend)
    next
      case (EVNode v)
      with MTNode.IH [OF c wf_kids [OF MTNode.prems(1) c], of cur] acc rev show ?thesis
        by (auto simp: child_path_def is_vnode_def map_of_extend)
    next
      case (ECommit m)
      have False using MTNode.prems c ECommit by (auto simp: kind_defs list_all_iff split: e_merkle_tree_node.splits list.splits)
      then show ?thesis ..
    next
      case (EFileChunk k)
      have False using MTNode.prems c EFileChunk by (auto simp: kind_defs list_all_iff split: e_merkle_tree_node.splits list.splits)
      then show ?thesis ..
    qed
  qed
  obtain m where m: "rfold ?f cs [] = Inr m" "hm_wf m" "map_of m = Map.empty ++ map_of (rev (concat (map ?g cs)))"
    using rfold_updates [of cs ?f ?g "[]"] step by auto
  have k: "kept S (MTNode h n p cs) cur = (if h \<in> S then [] else concat (map ?g cs))"
    using MTNode.prems(2) by (auto simp: kind_defs split: e_merkle_tree_node.splits)
  have u: "unique_dir_entries cur (MTNode h n p cs) S = (if h \<in> S then Inr [] else rfold ?f cs [])"
    using MTNode.prems(2) by (auto simp: kind_defs split: e_merkle_tree_node.splits)
  show ?case
  proof (cases "h \<in> S")
    case False
    then have "map_of (rev (concat (map ?g cs))) = map_of (concat (map ?g cs))"
      using map_of_rev_distinct [OF distinct_kept [OF MTNode.prems(1)]] k by metis
    with m False show ?thesis unfolding k u by simp
  next
    case True
    with k u have "unique_dir_entries cur (MTNode h n p cs) S = Inr []" "kept S (MTNode h n p cs) cur = []" by simp_all
    then show ?thesis by (metis hm_wf_Nil)
  qed
qed

section \<open>Files by type\<close>

definition renamed :: "path \<times> file_node \<Rightarrow> file_node" where
  "renamed e = fn_set_name (path_to_str (fst e)) (snd e)"

definition typed_files :: "merkle_tree_node \<Rightarrow> entry_data_type \<Rightarrow> path \<Rightarrow> file_node list" where
  "typed_files t ty cur = map renamed (filter (\<lambda>e. fn_data_type (snd e) = ty) (file_entries t cur))"

lemma typed_files_node: "typed_files (MTNode h n p cs) ty cur =
    (case n of EFile f \<Rightarrow> if fn_data_type f = ty then [renamed (join_str cur (fn_name f), f)] else [] | _ \<Rightarrow> []) @
    concat (map (\<lambda>c. typed_files c ty (child_path cur c)) cs)"
  by (auto simp: typed_files_def file_entries_node filter_concat map_concat comp_def split: e_merkle_tree_node.splits)

lemma r_list_files_by_type_eq:
  "wf_tree t \<Longrightarrow> is_dir t \<or> is_vnode t \<or> node_type (t_node t) = TCommit \<Longrightarrow>
   r_list_files_by_type found t ty acc cur = extend_by found (typed_files t ty cur) acc"
proof (induction t arbitrary: acc cur)
  case (MTNode h n p cs)
  have "r_list_files_by_type found (MTNode h n p cs) ty acc cur =
      extend_by found (concat (map (\<lambda>c. typed_files c ty (child_path cur c)) cs)) acc"
    unfolding r_list_files_by_type.simps
  proof (rule fold_extend_by)
    fix c acc assume c: "c \<in> set cs"
    note wf = wf_kids [OF MTNode.prems(1) c]
    show "(case t_node c of
        EFile f \<Rightarrow> if fn_data_type f = ty
          then insert_by found (fn_set_name (path_to_str (join_str cur (fn_name f))) f) acc else acc
      | EDirectory d \<Rightarrow> r_list_files_by_type found c ty acc (join_str cur (dn_name d))
      | EVNode _ \<Rightarrow> r_list_files_by_type found c ty acc cur | _ \<Rightarrow> acc) =
      extend_by found (typed_files c ty (child_path cur c)) acc"
    proof (cases "t_node c")
      case (EFile f)
      with wf_leaf(1) [OF wf] show ?thesis by (cases c) (simp add: typed_files_node child_path_def renamed_def)
    next
      case (EDirectory d)
      with MTNode.IH [OF c wf] show ?thesis by (simp add: child_path_def is_dir_def)
    next
      case (EVNode v)
      with MTNode.IH [OF c wf] show ?thesis by (simp add: child_path_def is_vnode_def)
    next
      case (ECommit m)
      have False using MTNode.prems c ECommit by (auto simp: kind_defs list_all_iff split: e_merkle_tree_node.splits list.splits)
      then show ?thesis ..
    next
      case (EFileChunk k)
      have False using MTNode.prems c EFileChunk by (auto simp: kind_defs list_all_iff split: e_merkle_tree_node.splits list.splits)
      then show ?thesis ..
    qed
  qed
  with MTNode.prems(2) show ?case
    by (auto simp: typed_files_node kind_defs split: e_merkle_tree_node.splits)
qed

section \<open>Properties\<close>

text \<open>C35: \<open>list_all_files\<close> lists the files of a tree with their directories, none twice: the paths it
  gives are pairwise distinct, and one of them is a file with node \<open>f\<close> exactly when the search by path
  finds that file there.\<close>

theorem list_all_files_agrees_with_search:
  assumes "wf_tree t" and "\<not> is_file t"
  shows "distinct (map fwd_path (list_all_files t [])) \<and>
    ((\<exists>r \<in> set (list_all_files t []). fwd_path r = path \<and> fwd_node r = f) \<longleftrightarrow>
     (\<exists>x. get_by_path t path = Some x \<and> t_node x = EFile f))"
proof
  have m: "map fwd_path (files_in t []) = map fst (file_entries t [])"
    unfolding files_in_entries [OF assms, symmetric] by simp
  with distinct_file_entries [OF assms(1)] show "distinct (map fwd_path (list_all_files t []))"
    by (simp add: list_all_files_eq [OF assms])
  have "(\<exists>r \<in> set (list_all_files t []). fwd_path r = path \<and> fwd_node r = f) \<longleftrightarrow> (path, f) \<in> set (file_entries t [])"
    unfolding files_in_entries [OF assms, symmetric] list_all_files_eq [OF assms] by auto
  then show "(\<exists>r \<in> set (list_all_files t []). fwd_path r = path \<and> fwd_node r = f) \<longleftrightarrow>
     (\<exists>x. get_by_path t path = Some x \<and> t_node x = EFile f)"
    unfolding in_file_entries get_by_path_entries [OF assms] map_of_tree_entries [OF assms(1)] .
qed

lemma list_all_files_agrees_with_search_witness:
  "\<exists>r \<in> set (list_all_files sample_tree []). fwd_path r = [Normal ''d'', Normal ''b''] \<and> fwd_node r = sample_file ''b'' 2"
  using list_all_files_agrees_with_search [OF wf_sample_tree sample_not_file(1)] sample_entries
  unfolding get_by_path_entries [OF wf_sample_tree sample_not_file(1)] map_of_tree_entries [OF wf_sample_tree] by fastforce

text \<open>\<open>list_files_and_dirs\<close>, one walk, gives what the two walks \<open>list_all_files\<close> and
  \<open>list_all_dirs\<close> give, less the root directory; and for a commit's tree the directories listed are
  exactly those the search finds.\<close>

theorem list_files_and_dirs_is_both_walks:
  assumes "wf_tree t" and "node_type (t_node t) = TCommit"
  shows "tree_list_files_and_dirs t = (list_all_files t [], filter (\<lambda>d. dwp_path d \<noteq> []) (list_all_dirs t)) \<and>
    ((\<exists>r \<in> set (list_all_dirs t). dwp_path r = path \<and> dwp_node r = d) \<longleftrightarrow>
     (\<exists>x. get_by_path t path = Some x \<and> t_node x = EDirectory d))"
proof
  have nf: "\<not> is_file t" "\<not> is_dir t" using assms(2) by (auto simp: kind_defs split: e_merkle_tree_node.splits)
  show "tree_list_files_and_dirs t = (list_all_files t [], filter (\<lambda>d. dwp_path d \<noteq> []) (list_all_dirs t))"
    using r_list_files_and_dirs_eq [OF nf(1), of "[]" "[]" "[]"]
    by (simp add: tree_list_files_and_dirs_def list_all_files_def list_all_dirs_def)
  have "(\<exists>r \<in> set (list_all_dirs t). dwp_path r = path \<and> dwp_node r = d) \<longleftrightarrow>
      (path, d) \<in> set (map (\<lambda>r. (dwp_path r, dwp_node r)) (dirs_in t []))"
    unfolding list_all_dirs_eq [OF assms(1)] by auto
  then show "(\<exists>r \<in> set (list_all_dirs t). dwp_path r = path \<and> dwp_node r = d) \<longleftrightarrow>
     (\<exists>x. get_by_path t path = Some x \<and> t_node x = EDirectory d)"
    unfolding dirs_in_entries [OF assms(1)] get_by_path_entries [OF assms(1) nf(1)] map_of_tree_entries [OF assms(1)]
    using nf(2) by (simp add: in_dir_only_entries)
qed

lemma list_files_and_dirs_is_both_walks_witness:
  "tree_list_files_and_dirs sample_tree =
     (list_all_files sample_tree [], filter (\<lambda>d. dwp_path d \<noteq> []) (list_all_dirs sample_tree))"
  using list_files_and_dirs_is_both_walks [OF wf_sample_tree] by (simp add: sample_tree_def)

text \<open>\<open>unique_dir_entries\<close> gives files of the tree only, each with its path, and leaves out only
  files below a node whose hash is shared: without shared hashes it is the whole map of the files.\<close>

lemma unique_dir_entries_sound_and_complete:
  assumes "wf_tree t" and "node_type (t_node t) = TCommit \<or> node_type (t_node t) = TDir \<or> node_type (t_node t) = TVNode"
  shows "\<exists>m. unique_dir_entries base t S = Inr m \<and>
    (\<forall>p f. map_of m p = Some f \<longrightarrow> (p, f) \<in> set (file_entries t base)) \<and>
    (\<forall>p f. (p, f) \<in> set (file_entries t base) \<longrightarrow> map_of m p = Some f \<or>
      (\<exists>y \<in> set (tree_nodes t). t_hash y \<in> S \<and> \<not> is_file y \<and> (\<exists>c. (p, f) \<in> set (file_entries y c))))"
proof -
  have "is_dir t \<or> is_vnode t \<or> node_type (t_node t) = TCommit"
    using assms(2) by (auto simp: kind_defs split: e_merkle_tree_node.splits)
  from unique_dir_entries_eq [OF assms(1) this] obtain m where
    m: "unique_dir_entries base t S = Inr m" "map_of m = map_of (kept S t base)" by blast
  have k: "map_of m p = Some f \<longleftrightarrow> (p, f) \<in> set (kept S t base)" for p f
    unfolding m(2) using distinct_kept [OF assms(1)] by (rule map_of_eq_Some_iff)
  show ?thesis
  proof (intro exI [of _ m] conjI allI impI m(1))
    fix p f assume "map_of m p = Some f"
    then show "(p, f) \<in> set (file_entries t base)" using k kept_sub by blast
  next
    fix p f assume "(p, f) \<in> set (file_entries t base)"
    from kept_cover [OF assms(1) this, of S] k show "map_of m p = Some f \<or>
      (\<exists>y \<in> set (tree_nodes t). t_hash y \<in> S \<and> \<not> is_file y \<and> (\<exists>c. (p, f) \<in> set (file_entries y c)))"
      by (simp only:)
  qed
qed

lemma sample_commit_type [simp]: "node_type (t_node sample_tree) = TCommit"
  by (simp add: sample_tree_def)

lemma unique_dir_entries_sound_and_complete_witness:
  "\<exists>m. unique_dir_entries [] sample_tree {} = Inr m \<and> map_of m [Normal ''d'', Normal ''b''] = Some (sample_file ''b'' 2)"
proof -
  have b: "([Normal ''d'', Normal ''b''], sample_file ''b'' 2) \<in> set (file_entries sample_tree [])"
    unfolding in_file_entries using sample_entries by fastforce
  note U = unique_dir_entries_sound_and_complete [OF wf_sample_tree disjI1 [OF sample_commit_type], of "[]" "{}"]
  show ?thesis
  proof (rule exE [OF U], elim conjE)
    fix m
    assume "unique_dir_entries [] sample_tree {} = Inr m"
      and m: "\<forall>p f. (p, f) \<in> set (file_entries sample_tree []) \<longrightarrow> map_of m p = Some f \<or>
        (\<exists>y \<in> set (tree_nodes sample_tree). t_hash y \<in> {} \<and> \<not> is_file y \<and> (\<exists>c. (p, f) \<in> set (file_entries y c)))"
    moreover from m [THEN spec, THEN spec, THEN mp, OF b] have "map_of m [Normal ''d'', Normal ''b''] = Some (sample_file ''b'' 2)"
      by blast
    ultimately show ?thesis by blast
  qed
qed

text \<open>\<open>dir_entries_with_paths\<close> returns every file of a directory with its path below the given base,
  whatever the table does with file nodes of equal content, because no two entries share a path.\<close>

lemma dir_entries_with_paths_exact:
  assumes "hash_set found file_path_eq file_path_hashed"
    and "wf_tree t" and "node_type (t_node t) = TCommit \<or> node_type (t_node t) = TDir \<or> node_type (t_node t) = TVNode"
  shows "\<exists>es. dir_entries_with_paths found t base = Inr es \<and>
    set es = {(f, p). (p, f) \<in> set (file_entries t base)} \<and> length es = length (file_entries t base)"
proof -
  have "is_dir t \<or> is_vnode t \<or> node_type (t_node t) = TCommit"
    using assms(3) by (auto simp: kind_defs split: e_merkle_tree_node.splits)
  from dir_entries_with_paths_eq [OF assms(1,2) this] show ?thesis by (auto simp: image_iff)
qed

lemma dir_entries_with_paths_exact_witness:
  "\<exists>es. dir_entries_with_paths file_path_eq sample_tree [] = Inr es \<and> (sample_file ''b'' 2, [Normal ''d'', Normal ''b'']) \<in> set es"
proof -
  have "([Normal ''d'', Normal ''b''], sample_file ''b'' 2) \<in> set (file_entries sample_tree [])"
    unfolding in_file_entries using sample_entries by fastforce
  moreover obtain es where "dir_entries_with_paths file_path_eq sample_tree [] = Inr es"
    "set es = {(f, p). (p, f) \<in> set (file_entries sample_tree [])}"
    using dir_entries_with_paths_exact [OF fp_eq.hash_set_axioms wf_sample_tree disjI1 [OF sample_commit_type], of "[]"]
    by blast
  ultimately show ?thesis by blast
qed

text \<open>\<open>list_files_by_type\<close> collects file nodes into a \<open>HashSet\<close> whose \<open>Eq\<close> is the content hash
  alone, while \<open>Hash\<close> also takes the name. Every table the standard library allows gives files of
  the type only and at least one file per content; but a table that finds equal nodes drops all but
  one of the paths that hold the same content.\<close>

theorem list_files_by_type_up_to_content:
  assumes "hash_set found file_node_eq file_node_hashed" and "wf_tree t" and "node_type (t_node t) = TCommit"
    and "root_with_children st fuel c = Inr (Some t)"
  shows "\<exists>fs. list_files_by_type found st fuel c ty = Inr fs \<and>
    (\<forall>g \<in> set fs. \<exists>p f. (p, f) \<in> set (file_entries t []) \<and> fn_data_type f = ty \<and> g = fn_set_name (path_to_str p) f) \<and>
    (\<forall>p f. (p, f) \<in> set (file_entries t []) \<longrightarrow> fn_data_type f = ty \<longrightarrow> (\<exists>g \<in> set fs. fn_hash g = fn_hash f)) \<and>
    (found = file_node_eq \<longrightarrow> distinct (map fn_hash fs))"
proof -
  let ?fs = "extend_by found (typed_files t ty []) []"
  have eq: "list_files_by_type found st fuel c ty = Inr ?fs"
    using assms(4) r_list_files_by_type_eq [OF assms(2)] assms(3) by (simp add: list_files_by_type_def)
  have in_typed: "g \<in> set (typed_files t ty []) \<longleftrightarrow>
      (\<exists>p f. (p, f) \<in> set (file_entries t []) \<and> fn_data_type f = ty \<and> g = fn_set_name (path_to_str p) f)" for g
    by (force simp: typed_files_def renamed_def)
  show ?thesis
  proof (intro exI [of _ ?fs] conjI ballI allI impI eq)
    fix g assume "g \<in> set ?fs"
    then have "g \<in> set (typed_files t ty [])" using set_extend_by2 by fastforce
    then show "\<exists>p f. (p, f) \<in> set (file_entries t []) \<and> fn_data_type f = ty \<and> g = fn_set_name (path_to_str p) f"
      unfolding in_typed .
  next
    fix p f assume "(p, f) \<in> set (file_entries t [])" "fn_data_type f = ty"
    then have "fn_set_name (path_to_str p) f \<in> set (typed_files t ty [])" unfolding in_typed by blast
    from hash_set.extend_has [OF assms(1) this] show "\<exists>g \<in> set ?fs. fn_hash g = fn_hash f"
      by (auto simp: file_node_eq_def)
  next
    assume "found = file_node_eq"
    then show "distinct (map fn_hash ?fs)" using fn_key.extend_distinct [of "[]"] by simp
  qed
qed

lemma list_files_by_type_up_to_content_witness:
  "\<exists>fs. list_files_by_type file_node_eq (tree_store sample_tree []) 7 (commit_node_to_commit (sample_commit 9 [] 0))
      (fn_data_type (sample_file ''b'' 2)) = Inr fs \<and> (\<exists>g \<in> set fs. fn_hash g = 2)"
proof -
  have b: "([Normal ''d'', Normal ''b''], sample_file ''b'' 2) \<in> set (file_entries sample_tree [])"
    unfolding in_file_entries using sample_entries by fastforce
  have "root_with_children (tree_store sample_tree []) 7 (commit_node_to_commit (sample_commit 9 [] 0)) = Inr (Some sample_tree)"
    using read_node_stored [OF stored_sample, of 7 "[]"]
    by (simp add: root_with_children_def commit_node_to_commit_def commit_hash_def) (simp add: tree_store_def sample_tree_def strip_def)
  from list_files_by_type_up_to_content [OF fn_eq.hash_set_axioms wf_sample_tree sample_commit_type this,
      of "fn_data_type (sample_file ''b'' 2)"] b
  show ?thesis by (metis sample_node_simps(2))
qed

end
