(* ===== verification/Tree_Writer.thy ===== *)
theory Tree_Writer
  imports Tree_Loader_Props
begin

text \<open>
  Writing a loaded tree to the store (\<open>write_tree\<close> and \<open>p_write_tree\<close> of
  \<open>repositories/tree.rs\<close>), and the round trip: what was written reads back as the tree.
\<close>

section \<open>Writing\<close>

fun p_write_tree :: "codec \<Rightarrow> path \<Rightarrow> merkle_tree_node \<Rightarrow> e_merkle_tree_node \<Rightarrow> (fs, unit) st" where
  "p_write_tree c rp (MTNode h n p cs) node_impl f =
     (case open_read_write c rp node_impl p f of
        (Inl e, f1) \<Rightarrow> (Inl e, f1)
      | (Inr db, f1) \<Rightarrow>
          (case sfor (\<lambda>child.
               case t_node child of
                 EVNode _ \<Rightarrow> sbind (add_child c (t_node child)) (\<lambda>_ (db', f').
                   case p_write_tree c rp child (t_node child) f' of (r, f'') \<Rightarrow> (r, db', f''))
               | EDirectory _ \<Rightarrow> sbind (add_child c (t_node child)) (\<lambda>_ (db', f').
                   case p_write_tree c rp child (t_node child) f' of (r, f'') \<Rightarrow> (r, db', f''))
               | EFile _ \<Rightarrow> add_child c (t_node child)
               | _ \<Rightarrow> slift (Inl (Panic ''p_write_tree Unexpected node type''))) cs (db, f1) of
             (Inl e, db2, f2) \<Rightarrow> (Inl e, f2)
           | (Inr _, db2, f2) \<Rightarrow> (fst (db_close db2), f2)))"

text \<open>\<open>version\<close> is the repository's minimum version, at which the commit node is made anew.\<close>

definition write_tree :: "codec \<Rightarrow> path \<Rightarrow> min_oxen_version \<Rightarrow> merkle_tree_node \<Rightarrow> (fs, unit) st" where
  "write_tree c rp version node =
     (case t_node node of
        ECommit commit_node \<Rightarrow>
          sbind (slift (commit_node_new version (commit_node_get_opts commit_node))) (\<lambda>cn.
            p_write_tree c rp node (ECommit cn))
      | _ \<Rightarrow> slift (Inl (Basic ''Expected commit node'')))"

declare p_write_tree.simps [simp del]

lemma p_write_tree_impl: "p_write_tree c rp (MTNode h n p cs) m = p_write_tree c rp (MTNode h m p cs) m"
  by (rule ext) (simp add: p_write_tree.simps)

section \<open>Trees that can be written\<close>

definition inner :: "merkle_tree_node \<Rightarrow> merkle_tree_node set" where
  "inner t = {x \<in> set (tree_nodes t). may_have_children x}"

lemma inner_node: "inner (MTNode h n p cs) =
    (if may_have_children (MTNode h n p cs) then {MTNode h n p cs} else {}) \<union> (\<Union>x \<in> set cs. inner x)"
  by (auto simp: inner_def)

fun writable :: "codec \<Rightarrow> merkle_tree_node \<Rightarrow> bool" where
  "writable c (MTNode h n p cs) \<longleftrightarrow>
     h = node_hash n \<and> node_codec_ok c n \<and>
     list_all (\<lambda>x. is_file x \<or> is_dir x \<or> is_vnode x) cs \<and>
     length (concat (map (node_bytes c) (map t_node cs))) < 2 ^ 64 \<and>
     (may_have_children (MTNode h n p cs) \<or> cs = []) \<and> list_all (writable c) cs"

text \<open>
  No node has the hash of a node above it, and two inner nodes with the same hash are the same node
  with the same children (their parents may differ: a directory can occur twice in a tree).
\<close>

fun acyclic_hashes :: "merkle_tree_node \<Rightarrow> bool" where
  "acyclic_hashes (MTNode h n p cs) \<longleftrightarrow>
     h \<notin> t_hash ` (\<Union>x \<in> set cs. inner x) \<and> list_all acyclic_hashes cs"

definition same_content :: "merkle_tree_node \<Rightarrow> merkle_tree_node \<Rightarrow> bool" where
  "same_content x y \<longleftrightarrow> t_node x = t_node y \<and> map t_node (t_children x) = map t_node (t_children y)"

definition hashes_identify :: "merkle_tree_node set \<Rightarrow> merkle_tree_node set \<Rightarrow> bool" where
  "hashes_identify A B \<longleftrightarrow> (\<forall>x \<in> A. \<forall>y \<in> B. t_hash x = t_hash y \<longrightarrow> same_content x y)"

lemma hashes_identify_mono: "hashes_identify A B \<Longrightarrow> A' \<subseteq> A \<Longrightarrow> B' \<subseteq> B \<Longrightarrow> hashes_identify A' B'"
  unfolding hashes_identify_def by blast

section \<open>What the disk holds\<close>

definition node_path_on_disk :: "path \<Rightarrow> merkle_hash \<Rightarrow> path" where
  "node_path_on_disk rp h = path_join (node_db_path rp h) [node_file_name]"

definition kids_path_on_disk :: "path \<Rightarrow> merkle_hash \<Rightarrow> path" where
  "kids_path_on_disk rp h = path_join (node_db_path rp h) [children_file_name]"

definition holds_with :: "codec \<Rightarrow> path \<Rightarrow> fs \<Rightarrow> merkle_tree_node \<Rightarrow> merkle_hash option \<Rightarrow> bool" where
  "holds_with c rp f x pid \<longleftrightarrow>
     fs_files f (node_path_on_disk rp (t_hash x)) =
       Some (node_header c (t_node x) pid @ concat (map enc_entry (child_table c 0 (map t_node (t_children x))))) \<and>
     fs_files f (kids_path_on_disk rp (t_hash x)) = Some (concat (map (node_bytes c) (map t_node (t_children x))))"

definition holds :: "codec \<Rightarrow> path \<Rightarrow> fs \<Rightarrow> merkle_tree_node \<Rightarrow> bool" where
  "holds c rp f x \<longleftrightarrow> (\<exists>pid. holds_with c rp f x pid)"

definition same_at :: "path \<Rightarrow> merkle_hash \<Rightarrow> fs \<Rightarrow> fs \<Rightarrow> bool" where
  "same_at rp h f g \<longleftrightarrow>
     fs_files g (node_path_on_disk rp h) = fs_files f (node_path_on_disk rp h) \<and>
     fs_files g (kids_path_on_disk rp h) = fs_files f (kids_path_on_disk rp h)"

lemma same_at_refl [simp]: "same_at rp h f f"
  by (simp add: same_at_def)

lemma same_at_trans: "same_at rp h f g \<Longrightarrow> same_at rp h g k \<Longrightarrow> same_at rp h f k"
  by (simp add: same_at_def)

lemma same_elsewhere_at:
  assumes "same_elsewhere (node_db_path rp h) f g" and "k \<noteq> h"
  shows "same_at rp k f g"
proof -
  have "node_db_path rp k \<noteq> node_db_path rp h" using node_db_path_inj assms(2) by blast
  then have "path_join (node_db_path rp k) [x] \<noteq> path_join (node_db_path rp h) [y]"
    if "x \<in> {node_file_name, children_file_name}" "y \<in> {node_file_name, children_file_name}" for x y
    using that by (auto simp: node_file_name_def children_file_name_def)
  then show ?thesis
    using assms(1) by (simp add: same_elsewhere_def same_at_def node_path_on_disk_def kids_path_on_disk_def)
qed

lemma holds_same_at: "holds c rp f x \<Longrightarrow> same_at rp (t_hash x) f g \<Longrightarrow> holds c rp g x"
  by (auto simp: holds_def holds_with_def same_at_def)

lemma holds_same_content: "holds c rp f x \<Longrightarrow> t_hash x = t_hash y \<Longrightarrow> same_content x y \<Longrightarrow> holds c rp f y"
  unfolding holds_def holds_with_def same_content_def by (auto simp del: map_map)

lemma writing_same_at:
  "writing db f (node_db_path rp h) nb cb \<Longrightarrow> same_at rp h f g \<Longrightarrow> writing db g (node_db_path rp h) nb cb"
  by (simp add: writing_def same_at_def node_path_on_disk_def kids_path_on_disk_def)

section \<open>The loop over the children\<close>

definition subtree_written :: "codec \<Rightarrow> path \<Rightarrow> merkle_tree_node \<Rightarrow> fs \<Rightarrow> fs \<Rightarrow> bool" where
  "subtree_written c rp t f g \<longleftrightarrow>
     (\<forall>x \<in> inner t. holds c rp g x) \<and> (\<forall>h. h \<notin> t_hash ` inner t \<longrightarrow> same_at rp h f g)"

lemma holds_after_subtree:
  assumes "subtree_written c rp t f g" "hashes_identify D (inner t)" "x \<in> D" "holds c rp f x"
  shows "holds c rp g x"
proof (cases "t_hash x \<in> t_hash ` inner t")
  case True
  then obtain y where y: "y \<in> inner t" "t_hash x = t_hash y" by blast
  then have "holds c rp g y" "same_content x y"
    using assms by (auto simp: subtree_written_def hashes_identify_def)
  with y show ?thesis by (metis holds_same_content same_content_def)
next
  case False
  with assms show ?thesis by (auto simp: subtree_written_def intro: holds_same_at)
qed

definition child_step :: "codec \<Rightarrow> path \<Rightarrow> merkle_tree_node \<Rightarrow> (merkle_node_db \<times> fs, unit) st" where
  "child_step c rp child =
     (case t_node child of
        EVNode _ \<Rightarrow> sbind (add_child c (t_node child)) (\<lambda>_ (db', f').
          case p_write_tree c rp child (t_node child) f' of (r, f'') \<Rightarrow> (r, db', f''))
      | EDirectory _ \<Rightarrow> sbind (add_child c (t_node child)) (\<lambda>_ (db', f').
          case p_write_tree c rp child (t_node child) f' of (r, f'') \<Rightarrow> (r, db', f''))
      | EFile _ \<Rightarrow> add_child c (t_node child)
      | _ \<Rightarrow> slift (Inl (Panic ''p_write_tree Unexpected node type'')))"

lemma p_write_tree_step:
  "p_write_tree c rp (MTNode h n p cs) m f =
     (case open_read_write c rp m p f of
        (Inl e, f1) \<Rightarrow> (Inl e, f1)
      | (Inr db, f1) \<Rightarrow>
          (case sfor (child_step c rp) cs (db, f1) of
             (Inl e, db2, f2) \<Rightarrow> (Inl e, f2)
           | (Inr _, db2, f2) \<Rightarrow> (fst (db_close db2), f2)))"
  by (simp only: p_write_tree.simps child_step_def [abs_def])

lemma inner_file: "is_file x \<Longrightarrow> writable c x \<Longrightarrow> inner x = {}"
  by (cases x) (auto simp: inner_def is_file_def may_have_children_def split: e_merkle_tree_node.splits)

lemma child_step_writes:
  assumes w: "writing db f (node_db_path rp h) nb cb"
    and x: "writable c x" "is_file x \<or> is_dir x \<or> is_vnode x" "h \<notin> t_hash ` inner x"
    and sub: "\<And>f r f'. \<not> is_file x \<Longrightarrow> p_write_tree c rp x (t_node x) f = (r, f') \<Longrightarrow> r = Inr () \<and> subtree_written c rp x f f'"
    and res: "child_step c rp x (db, f) = (r, db', f')"
  shows "\<exists>f1. r = Inr () \<and> same_elsewhere (node_db_path rp h) f f1 \<and> subtree_written c rp x f1 f' \<and>
    writing db' f' (node_db_path rp h)
      (nb @ enc_entry (node_hash (t_node x), node_type_to_u8 (id_node_type (t_node x)), word_of_nat (length cb),
         word_of_nat (length (node_bytes c (t_node x)))))
      (cb @ node_bytes c (t_node x))"
proof -
  have ok: "node_codec_ok c (t_node x)" using x(1) by (cases x) simp
  obtain q db1 f1 where a: "add_child c (t_node x) (db, f) = (q, db1, f1)" by (metis prod_cases3)
  note w1 = add_child_writing [OF w node_codec_okD(2) [OF ok] a]
  show ?thesis
  proof (cases "is_file x")
    case True
    then have "child_step c rp x (db, f) = (q, db1, f1)"
      using a by (auto simp: child_step_def is_file_def split: e_merkle_tree_node.splits)
    with res have "r = q" "db' = db1" "f' = f1" by simp_all
    moreover have "subtree_written c rp x f1 f1" using inner_file [OF True x(1)] by (simp add: subtree_written_def)
    ultimately show ?thesis using w1 by blast
  next
    case False
    obtain r2 f2 where p: "p_write_tree c rp x (t_node x) f1 = (r2, f2)" by force
    have "child_step c rp x (db, f) = (r2, db1, f2)"
      using a p w1 False x(2) by (auto simp: child_step_def kind_defs sbind_def split: e_merkle_tree_node.splits)
    with res have e: "r = r2" "db' = db1" "f' = f2" by simp_all
    have s: "r2 = Inr () \<and> subtree_written c rp x f1 f2" using sub [OF False p] .
    then have "same_at rp h f1 f2" using x(3) by (simp add: subtree_written_def)
    with w1 have "writing db1 f2 (node_db_path rp h)
      (nb @ enc_entry (node_hash (t_node x), node_type_to_u8 (id_node_type (t_node x)), word_of_nat (length cb),
         word_of_nat (length (node_bytes c (t_node x)))))
      (cb @ node_bytes c (t_node x))" by (blast intro: writing_same_at)
    with w1 s e show ?thesis by blast
  qed
qed

definition subtree_writes :: "codec \<Rightarrow> path \<Rightarrow> merkle_tree_node \<Rightarrow> bool" where
  "subtree_writes c rp x \<longleftrightarrow>
     (\<forall>f r f'. p_write_tree c rp x (t_node x) f = (r, f') \<longrightarrow> r = Inr () \<and> subtree_written c rp x f f')"

lemma children_written:
  assumes "writing db f (node_db_path rp h) nb cb"
    and "\<forall>x \<in> set cs. writable c x \<and> (is_file x \<or> is_dir x \<or> is_vnode x) \<and> h \<notin> t_hash ` inner x"
    and "\<forall>x \<in> set cs. \<not> is_file x \<longrightarrow> subtree_writes c rp x"
    and "hashes_identify (D \<union> (\<Union>x \<in> set cs. inner x)) (\<Union>x \<in> set cs. inner x)"
    and "\<forall>x \<in> D. holds c rp f x \<and> t_hash x \<noteq> h"
    and "sfor (child_step c rp) cs (db, f) = (r, db', f')"
  shows "r = Inr () \<and>
    writing db' f' (node_db_path rp h)
      (nb @ concat (map enc_entry (child_table c (word_of_nat (length cb)) (map t_node cs))))
      (cb @ concat (map (node_bytes c) (map t_node cs))) \<and>
    (\<forall>x \<in> D \<union> (\<Union>x \<in> set cs. inner x). holds c rp f' x) \<and>
    (\<forall>k. k \<noteq> h \<and> k \<notin> t_hash ` (\<Union>x \<in> set cs. inner x) \<longrightarrow> same_at rp k f f')"
  using assms
proof (induction cs arbitrary: db f nb cb D)
  case Nil
  then show ?case by simp
next
  case (Cons x cs)
  obtain q db1 f2 where s: "child_step c rp x (db, f) = (q, db1, f2)" by (metis prod_cases3)
  have x: "writable c x" "is_file x \<or> is_dir x \<or> is_vnode x" "h \<notin> t_hash ` inner x" using Cons.prems(2) by auto
  obtain f1 where f1: "q = Inr ()" "same_elsewhere (node_db_path rp h) f f1" "subtree_written c rp x f1 f2"
    "writing db1 f2 (node_db_path rp h)
      (nb @ enc_entry (node_hash (t_node x), node_type_to_u8 (id_node_type (t_node x)), word_of_nat (length cb),
         word_of_nat (length (node_bytes c (t_node x)))))
      (cb @ node_bytes c (t_node x))"
  proof -
    have "r = Inr () \<and> subtree_written c rp x f f'"
      if "\<not> is_file x" "p_write_tree c rp x (t_node x) f = (r, f')" for f r f'
      using Cons.prems(3) that by (simp add: subtree_writes_def)
    from child_step_writes [OF Cons.prems(1) x this s] that show thesis by blast
  qed
  have rest: "sfor (child_step c rp) cs (db1, f2) = (r, db', f')"
    using Cons.prems(6) s f1(1) by (simp add: sbind_def)
  have D: "\<forall>y \<in> D \<union> inner x. holds c rp f2 y \<and> t_hash y \<noteq> h"
  proof
    fix y assume y: "y \<in> D \<union> inner x"
    show "holds c rp f2 y \<and> t_hash y \<noteq> h"
    proof (cases "y \<in> D")
      case True
      then have "holds c rp f1 y" "t_hash y \<noteq> h"
        using Cons.prems(5) same_elsewhere_at [OF f1(2)] holds_same_at by blast+
      moreover have "hashes_identify D (inner x)" by (rule hashes_identify_mono [OF Cons.prems(4)]) auto
      ultimately show ?thesis using holds_after_subtree [OF f1(3)] True by blast
    next
      case False
      with y f1(3) x(3) show ?thesis by (auto simp: subtree_written_def)
    qed
  qed
  have hi: "hashes_identify ((D \<union> inner x) \<union> (\<Union>x \<in> set cs. inner x)) (\<Union>x \<in> set cs. inner x)"
    by (rule hashes_identify_mono [OF Cons.prems(4)]) auto
  have prem2: "\<forall>x \<in> set cs. writable c x \<and> (is_file x \<or> is_dir x \<or> is_vnode x) \<and> h \<notin> t_hash ` inner x"
    using Cons.prems(2) by simp
  have sub: "\<forall>x \<in> set cs. \<not> is_file x \<longrightarrow> subtree_writes c rp x"
    using Cons.prems(3) by simp
  note IH = Cons.IH [OF f1(4) prem2 sub hi D rest]
  have same: "same_at rp k f f'" if k: "k \<noteq> h" "k \<notin> t_hash ` (\<Union>x \<in> set (x # cs). inner x)" for k
  proof -
    have "same_at rp k f f1" using same_elsewhere_at [OF f1(2) k(1)] .
    moreover have "same_at rp k f1 f2" using f1(3) k(2) by (auto simp: subtree_written_def)
    moreover have "k \<noteq> h \<and> k \<notin> t_hash ` (\<Union>x \<in> set cs. inner x)" using k by auto
    then have "same_at rp k f2 f'"
      using IH [THEN conjunct2, THEN conjunct2, THEN conjunct2, THEN spec, of k] by (rule rev_mp)
    ultimately show ?thesis by (metis same_at_trans)
  qed
  have tab: "nb @ concat (map enc_entry (child_table c (word_of_nat (length cb)) (map t_node (x # cs)))) =
      (nb @ enc_entry (node_hash (t_node x), node_type_to_u8 (id_node_type (t_node x)), word_of_nat (length cb),
         word_of_nat (length (node_bytes c (t_node x))))) @
      concat (map enc_entry (child_table c (word_of_nat (length (cb @ node_bytes c (t_node x)))) (map t_node cs)))"
    by (simp add: Let_def)
  have blob: "cb @ concat (map (node_bytes c) (map t_node (x # cs))) =
      (cb @ node_bytes c (t_node x)) @ concat (map (node_bytes c) (map t_node cs))"
    by simp
  have un: "D \<union> (\<Union>x \<in> set (x # cs). inner x) = D \<union> inner x \<union> (\<Union>x \<in> set cs. inner x)" by auto
  show ?case
    unfolding tab blob un
  proof (intro conjI allI impI)
    show "r = Inr ()" using IH by (rule conjunct1)
    show "writing db' f' (node_db_path rp h)
        ((nb @ enc_entry (node_hash (t_node x), node_type_to_u8 (id_node_type (t_node x)), word_of_nat (length cb),
          word_of_nat (length (node_bytes c (t_node x))))) @
          concat (map enc_entry (child_table c (word_of_nat (length (cb @ node_bytes c (t_node x)))) (map t_node cs))))
        ((cb @ node_bytes c (t_node x)) @ concat (map (node_bytes c) (map t_node cs)))"
      using IH [THEN conjunct2] by (rule conjunct1)
    show "\<forall>y \<in> D \<union> inner x \<union> (\<Union>x \<in> set cs. inner x). holds c rp f' y"
      using IH [THEN conjunct2, THEN conjunct2] by (rule conjunct1)
    fix k assume "k \<noteq> h \<and> k \<notin> t_hash ` (\<Union>x \<in> set (x # cs). inner x)"
    then show "same_at rp k f f'" by (elim conjE) (rule same)
  qed
qed

lemma db_close_open: "writing db f p nb cb \<Longrightarrow> fst (db_close db) = Inr ()"
  by (simp add: db_close_def writing_def)

lemma inner_kids: "(\<Union>x \<in> set cs. inner x) \<subseteq> inner (MTNode h n p cs)"
  by (auto simp: inner_node)

text \<open>A written subtree is on disk, node by node, and its root with its own parent.\<close>

lemma p_write_tree_written:
  "writable c t \<Longrightarrow> acyclic_hashes t \<Longrightarrow> hashes_identify (inner t) (inner t) \<Longrightarrow> may_have_children t \<Longrightarrow>
   p_write_tree c rp t (t_node t) f = (r, f') \<Longrightarrow>
   r = Inr () \<and> subtree_written c rp t f f' \<and> holds_with c rp f' t (t_parent_id t)"
proof (induction t arbitrary: f r f')
  case (MTNode h n p cs)
  let ?t = "MTNode h n p cs"
  have n: "h = node_hash n" "node_codec_ok c n" using MTNode.prems(1) by simp_all
  obtain q f1 where o: "open_read_write c rp n p f = (q, f1)" by force
  obtain db where db: "q = Inr db" "same_elsewhere (node_db_path rp h) f f1"
      "writing db f1 (node_db_path rp h) (node_header c n p) []"
    using open_read_write_writing [OF n(2) o] n(1) by auto
  obtain q2 db2 f2 where s: "sfor (child_step c rp) cs (db, f1) = (q2, db2, f2)" by (metis prod_cases3)
  have kids: "\<forall>x \<in> set cs. writable c x \<and> (is_file x \<or> is_dir x \<or> is_vnode x) \<and> h \<notin> t_hash ` inner x"
    using MTNode.prems(1,2) by (auto simp: list_all_iff)
  have sub: "\<forall>x \<in> set cs. \<not> is_file x \<longrightarrow> subtree_writes c rp x"
    unfolding subtree_writes_def
  proof (intro ballI impI allI)
    fix x f r f'
    assume x: "x \<in> set cs" "\<not> is_file x" "p_write_tree c rp x (t_node x) f = (r, f')"
    have "writable c x" "acyclic_hashes x" using MTNode.prems(1,2) x(1) by (auto simp: list_all_iff)
    moreover have "hashes_identify (inner x) (inner x)"
      by (rule hashes_identify_mono [OF MTNode.prems(3)]) (use x(1) in \<open>auto simp: inner_node\<close>)
    moreover have "may_have_children x"
    proof -
      have "is_dir x \<or> is_vnode x" using kids [THEN bspec, OF x(1)] x(2) by blast
      then show ?thesis by (auto simp: is_dir_def is_vnode_def may_have_children_def split: e_merkle_tree_node.splits)
    qed
    ultimately show "r = Inr () \<and> subtree_written c rp x f f'"
      using MTNode.IH [OF x(1) _ _ _ _ x(3)] by blast
  qed
  have hi: "hashes_identify ({} \<union> (\<Union>x \<in> set cs. inner x)) (\<Union>x \<in> set cs. inner x)"
    by (rule hashes_identify_mono [OF MTNode.prems(3)]) (use inner_kids in auto)
  have none: "\<forall>x \<in> {}. holds c rp f1 x \<and> t_hash x \<noteq> h" by simp
  note W = children_written [OF db(3) kids sub hi none s]
  have q2: "q2 = Inr ()" using W by (rule conjunct1)
  have w: "writing db2 f2 (node_db_path rp h)
      (node_header c n p @ concat (map enc_entry (child_table c 0 (map t_node cs))))
      (concat (map (node_bytes c) (map t_node cs)))"
    using W [THEN conjunct2, THEN conjunct1] by simp
  have hd: "\<forall>x \<in> (\<Union>x \<in> set cs. inner x). holds c rp f2 x"
    using W [THEN conjunct2, THEN conjunct2, THEN conjunct1] by simp
  have same: "same_at rp k f1 f2" if "k \<noteq> h" "k \<notin> t_hash ` (\<Union>x \<in> set cs. inner x)" for k
    using W [THEN conjunct2, THEN conjunct2, THEN conjunct2, THEN spec, THEN mp] that by blast
  have res: "r = Inr ()" "f' = f2"
    using MTNode.prems(5) db_close_open [OF w]
    by (simp_all only: p_write_tree_step merkle_tree_node.sel o db(1) s q2 prod.case sum.case prod.inject)
  have self: "holds_with c rp f' ?t p"
    using w by (simp add: res(2) holds_with_def writing_def node_path_on_disk_def kids_path_on_disk_def)
  have "holds c rp f' x" if "x \<in> inner ?t" for x
  proof (cases "x = ?t")
    case True
    with self show ?thesis unfolding holds_def by blast
  next
    case False
    with that have "x \<in> (\<Union>x \<in> set cs. inner x)" by (auto simp: inner_node split: if_splits)
    with hd res(2) show ?thesis by blast
  qed
  moreover have "same_at rp k f f'" if k: "k \<notin> t_hash ` inner ?t" for k
  proof -
    have "k \<noteq> h" "k \<notin> t_hash ` (\<Union>x \<in> set cs. inner x)"
      using k MTNode.prems(4) by (auto simp: inner_node)
    then have "same_at rp k f f1" "same_at rp k f1 f2" using same_elsewhere_at [OF db(2)] same by simp_all
    then show ?thesis unfolding res(2) by (rule same_at_trans)
  qed
  ultimately have "subtree_written c rp ?t f f'" unfolding subtree_written_def by blast
  with self res(1) show ?case by simp
qed

section \<open>Reading back\<close>

text \<open>The tree as the store returns it: the parent of a child is the node above it.\<close>

fun reparent :: "merkle_hash option \<Rightarrow> merkle_tree_node \<Rightarrow> merkle_tree_node" where
  "reparent pid (MTNode h n p cs) = MTNode h n pid (map (reparent (Some h)) cs)"

lemma reparent_parent [simp]: "t_parent_id (reparent pid t) = pid"
  by (cases t) simp

lemma reparent_sel [simp]:
  "t_hash (reparent pid t) = t_hash t" "t_node (reparent pid t) = t_node t"
  "may_have_children (reparent pid t) = may_have_children t" "tree_size (reparent pid t) = tree_size t"
proof -
  show "t_hash (reparent pid t) = t_hash t" "t_node (reparent pid t) = t_node t" by (cases t; simp)+
  then show "may_have_children (reparent pid t) = may_have_children t" by (simp add: may_have_children_def)
  show "tree_size (reparent pid t) = tree_size t"
  proof (induction t arbitrary: pid)
    case (MTNode h n p cs)
    then have "map (tree_size \<circ> reparent (Some h)) cs = map tree_size cs" by simp
    then show ?case by (simp only: reparent.simps tree_size.simps map_map)
  qed
qed

lemma holds_with_read_view:
  assumes "holds_with c rp f t pid" and "writable c t"
  shows "db_exists rp (t_hash t) f \<and> read_view c rp f (t_hash t) =
    (Inr (MTNode (t_hash t) (t_node t) (Some (case pid of Some p \<Rightarrow> p | None \<Rightarrow> 0)) []),
     Inr (map (\<lambda>c. (t_hash c, strip (reparent (Some (t_hash t)) c))) (t_children t)))"
proof -
  obtain h n p cs where t: "t = MTNode h n p cs" by (cases t)
  have ok: "node_codec_ok c n" "h = node_hash n" "\<forall>k \<in> set (map t_node cs). node_codec_ok c k"
      "length (concat (map (node_bytes c) (map t_node cs))) < 2 ^ 64"
    using assms(2) by (auto simp: t list_all_iff) (metis merkle_tree_node.collapse writable.simps)
  have kid: "node_hash (t_node x) = t_hash x" if "x \<in> set cs" for x
    using assms(2) that by (cases x) (auto simp: t list_all_iff)
  have "read_view c rp f (node_hash n) =
    (Inr (MTNode (node_hash n) n (Some (case pid of Some p \<Rightarrow> p | None \<Rightarrow> 0)) []),
     Inr (map (\<lambda>k. (node_hash k, MTNode (node_hash k) k (Some (node_hash n)) [])) (map t_node cs)))"
    using assms(1) ok(2) by (intro read_view_written [OF ok(1,3,4), of f rp pid])
      (simp_all add: t holds_with_def node_path_on_disk_def kids_path_on_disk_def)
  moreover have "map (\<lambda>k. (node_hash k, MTNode (node_hash k) k (Some (node_hash n)) [])) (map t_node cs) =
      map (\<lambda>c. (t_hash c, strip (reparent (Some h) c))) cs"
    using kid ok(2) by (auto simp: strip_def)
  moreover have "db_exists rp h f"
    using assms(1) by (simp add: t db_exists_def path_exists_def holds_with_def node_path_on_disk_def kids_path_on_disk_def Let_def)
  ultimately show ?thesis by (simp only: t merkle_tree_node.sel simp_thms ok(2))
qed

lemma stored_written:
  "writable c t \<Longrightarrow> \<forall>x \<in> inner t. holds c rp f x \<Longrightarrow> stored (disk_store c rp f dhs) (reparent pid t)"
proof (induction t arbitrary: pid)
  case (MTNode h n p cs)
  let ?t = "MTNode h n p cs"
  have kids: "stored (disk_store c rp f dhs) (reparent (Some h) x)" if "x \<in> set cs" for x
    using MTNode.IH [OF that] MTNode.prems that by (auto simp: list_all_iff inner_node)
  show ?case
  proof (cases "may_have_children ?t")
    case True
    then obtain q where "holds_with c rp f ?t q" using MTNode.prems(2) by (auto simp: inner_node holds_def)
    from holds_with_read_view [OF this MTNode.prems(1)] kids True show ?thesis
      by (auto simp: disk_store_def list_all_iff may_have_children_def)
  next
    case False
    with MTNode.prems(1) show ?thesis by (simp add: may_have_children_def)
  qed
qed

section \<open>Properties\<close>

text \<open>C27: a tree written to disk reads back as itself. After \<open>write_tree\<close> of a commit's tree (whose
  nodes serialize and whose hashes identify contents, though a directory may occur several times),
  a recursive read of the commit's hash returns the tree, with the commit node as the repository's
  version writes it and each node's parent set to the node above it.\<close>

theorem write_tree_read_node_roundtrip:
  assumes "write_tree c rp version (MTNode h (ECommit cn) p cs) f = (r, f')"
    and "commit_node_new version (commit_node_get_opts cn) = Inr cn'"
    and "writable c (MTNode h (ECommit cn') p cs)" and "acyclic_hashes (MTNode h (ECommit cn') p cs)"
    and "hashes_identify (inner (MTNode h (ECommit cn') p cs)) (inner (MTNode h (ECommit cn') p cs))"
    and "tree_size (MTNode h (ECommit cn') p cs) \<le> fuel"
  shows "r = Inr () \<and>
    read_node (disk_store c rp f' dhs) fuel h True =
      Inr (Some (reparent (Some (case p of Some q \<Rightarrow> q | None \<Rightarrow> 0)) (MTNode h (ECommit cn') p cs)))"
proof -
  let ?t = "MTNode h (ECommit cn') p cs"
  let ?pid = "Some (case p of Some q \<Rightarrow> q | None \<Rightarrow> 0)"
  have may: "may_have_children ?t" by simp
  have "p_write_tree c rp (MTNode h (ECommit cn) p cs) (ECommit cn') = p_write_tree c rp ?t (ECommit cn')"
    by (rule p_write_tree_impl)
  then have w: "p_write_tree c rp ?t (t_node ?t) f = (r, f')"
    using assms(1,2) by (simp add: write_tree_def del: p_write_tree.simps)
  note W = p_write_tree_written [OF assms(3-5) may w]
  have st: "stored (disk_store c rp f' dhs) (reparent ?pid ?t)"
    using stored_written [OF assms(3)] W unfolding subtree_written_def by blast
  have "fst (read_view c rp f' h) = Inr (strip (reparent ?pid ?t))"
    using holds_with_read_view [OF W [THEN conjunct2, THEN conjunct2] assms(3)] by (simp add: strip_def)
  then have root: "st_from_hash (disk_store c rp f' dhs) (t_hash (reparent ?pid ?t)) = Inr (strip (reparent ?pid ?t))"
    by (simp add: disk_store_def)
  have "may_have_children (reparent ?pid ?t)" "tree_size (reparent ?pid ?t) \<le> fuel"
    using assms(6) by (simp_all del: reparent.simps tree_size.simps)
  from read_node_stored [OF st this root] W show ?thesis by simp
qed


text \<open>A codec for the nodes of the sample tree.\<close>

definition tree_codec :: codec where
  "tree_codec =
     \<lparr>to_msgpack_bytes = (\<lambda>n. case n of EFileChunk _ \<Rightarrow> Inl DbEncode | _ \<Rightarrow> Inr [ucast (node_hash n)]),
      slice_file = (\<lambda>bs. if bs = [1] then Some (sample_file ''a'' 1) else if bs = [2] then Some (sample_file ''b'' 2) else None),
      slice_file_data = (\<lambda>_. None),
      slice_dir = (\<lambda>bs. if bs = [8] then Some (sample_dir '''' 8) else if bs = [5] then Some (sample_dir ''d'' 5) else None),
      slice_dir_data = (\<lambda>_. None),
      slice_vnode = (\<lambda>bs. if bs = [7] then Some (sample_vnode 7) else if bs = [4] then Some (sample_vnode 4) else None),
      slice_vnode_data = (\<lambda>_. None),
      slice_commit = (\<lambda>bs. if bs = [9] then Some (sample_commit 9 [] 0) else None),
      slice_commit_data = (\<lambda>_. None), slice_chunk = (\<lambda>_. None)\<rparr>"

lemma tree_codec_bytes [simp]:
  "node_bytes tree_codec (ECommit cn) = [ucast (cn_hash cn)]" "node_bytes tree_codec (EDirectory d) = [ucast (dn_hash d)]"
  "node_bytes tree_codec (EVNode v) = [ucast (vn_hash v)]" "node_bytes tree_codec (EFile g) = [ucast (fn_hash g)]"
  by (simp_all add: node_bytes_def tree_codec_def)

lemma tree_codec_ok [simp]:
  "node_codec_ok tree_codec (ECommit (sample_commit 9 [] 0))"
  "node_codec_ok tree_codec (EDirectory (sample_dir '''' 8))" "node_codec_ok tree_codec (EDirectory (sample_dir ''d'' 5))"
  "node_codec_ok tree_codec (EVNode (sample_vnode 7))" "node_codec_ok tree_codec (EVNode (sample_vnode 4))"
  "node_codec_ok tree_codec (EFile (sample_file ''a'' 1))" "node_codec_ok tree_codec (EFile (sample_file ''b'' 2))"
  by (simp_all add: node_codec_ok_def tree_codec_def commit_node_deserialize_def dir_node_deserialize_def
      vnode_deserialize_def file_node_deserialize_def)
     (simp_all add: sample_commit_def sample_dir_def sample_vnode_def sample_file_def file_node_default_def)

lemma sample_commit_anew: "commit_node_new V0_25_0 (commit_node_get_opts (sample_commit h ps ts)) = Inr (sample_commit h ps ts)"
  by (simp add: commit_node_new_def sample_commit_def Let_def)

lemma write_tree_read_node_roundtrip_witness:
  "read_node (disk_store tree_codec [] (snd (write_tree tree_codec [] V0_25_0 sample_tree empty_fs)) (\<lambda>_. Inr [])) 7 9 True =
     Inr (Some (reparent (Some 0) sample_tree))"
proof -
  let ?kids = "t_children sample_tree"
  obtain r f' where w: "write_tree tree_codec [] V0_25_0 sample_tree empty_fs = (r, f')" by force
  have t: "sample_tree = MTNode 9 (ECommit (sample_commit 9 [] 0)) None ?kids" by (simp add: sample_tree_def)
  have wr: "writable tree_codec sample_tree" by (simp add: sample_tree_def kind_defs)
  have ac: "acyclic_hashes sample_tree" by (simp add: sample_tree_def inner_node)
  have hi: "hashes_identify (inner sample_tree) (inner sample_tree)"
    by (simp add: sample_tree_def inner_node hashes_identify_def same_content_def)
  note R = write_tree_read_node_roundtrip [of tree_codec "[]" V0_25_0 9 "sample_commit 9 [] 0" None ?kids empty_fs r f'
      "sample_commit 9 [] 0" 7 "\<lambda>_. Inr []", unfolded t [symmetric], OF w sample_commit_anew wr ac hi]
  then show ?thesis by (simp add: w)
qed

end
