(* ===== verification/Tree_Lookup_Props.thy ===== *)
theory Tree_Lookup_Props
  imports Tree_Query_Props Tree_Writer
begin

text \<open>
  The queries of \<open>Tree_Queries\<close> that read the store: the lookup of a path, the node hashes between
  commits, and the nodes above the subtrees of a partial transfer.
\<close>

section \<open>Entries below a directory\<close>

lemma tree_entries_shift:
  "wf_tree t \<Longrightarrow> named_ok t \<Longrightarrow> tree_entries t (a @ b) = map (\<lambda>(q, x). (a @ q, x)) (tree_entries t b)"
proof (induction t b rule: tree_entries.induct)
  case (1 h n p cs b)
  have kid: "tree_entries c (child_path (a @ b) c) = map (\<lambda>(q, x). (a @ q, x)) (tree_entries c (child_path b c))"
    if c: "c \<in> set cs" for c
  proof -
    have "child_path (a @ b) c = a @ child_path b c"
    proof (cases "is_dir c")
      case True
      have "child_search_name c = '''' \<or> valid_name (child_search_name c)"
        using 1(2) c True by (auto simp: list_all_iff kind_defs split: e_merkle_tree_node.splits list.splits)
      with True show ?thesis by (auto simp: child_path_dir)
    qed (simp add: child_path_not_dir)
    with 1(1) [OF c wf_child [OF 1(2) c]] show ?thesis by simp
  qed
  have "join_str (a @ b) (fn_name f) = a @ join_str b (fn_name f)" if "n = EFile f" for f
    using 1(3) that by (auto simp: named_ok_def is_file_def child_search_name_def)
  then show ?case
    by (auto simp: map_concat comp_def kid cong: map_cong split: e_merkle_tree_node.splits)
qed

lemma tree_entries_trans:
  "(P, d) \<in> set (tree_entries t cur) \<Longrightarrow> is_dir d \<Longrightarrow> (q, x) \<in> set (tree_entries d P) \<Longrightarrow> (q, x) \<in> set (tree_entries t cur)"
proof (induction t cur rule: tree_entries.induct)
  case (1 h n p cs cur)
  show ?case
  proof (cases "d = MTNode h n p cs \<and> P = cur")
    case True
    with 1(4) show ?thesis by simp
  next
    case False
    then obtain c where c: "c \<in> set cs" "(P, d) \<in> set (tree_entries c (child_path cur c))"
      using 1(2,3) by (auto simp: is_dir_def split: e_merkle_tree_node.splits)
    from 1(1) [OF c(1) c(2) 1(3,4)] show ?thesis using c(1) by auto
  qed
qed

lemma tree_entries_below_dir:
  assumes "wf_tree t" "is_dir t" "(P, d) \<in> set (tree_entries t [])" "is_dir d"
  shows "(P @ q, x) \<in> set (tree_entries t []) \<longleftrightarrow> (q, x) \<in> set (tree_entries d [])"
proof -
  have wf: "wf_tree d" by (rule wf_entry [OF assms(1,3)])
  have nf: "\<not> is_file d" using assms(4) by (auto simp: kind_defs split: e_merkle_tree_node.splits)
  have down: "(P @ q, x) \<in> set (tree_entries t []) \<Longrightarrow> (P @ q, x) \<in> set (tree_entries d P)" for q x
  proof (induction q arbitrary: x rule: rev_induct)
    case Nil
    then have "x = d" using entry_unique [OF assms(1)] assms(3) by simp
    then show ?case using tree_entries_root_dir [OF assms(4)] by simp
  next
    case (snoc s q)
    from entry_has_dir [OF assms(1,2) snoc.prems] obtain P' d' where
      d': "(P', d') \<in> set (tree_entries t [])" "is_dir d'" "dir_entry d' x" "P @ q @ [s] = P' @ [Normal (child_search_name x)]"
      by auto
    then have "P' = P @ q" "s = Normal (child_search_name x)" by (simp_all flip: append_assoc)
    with snoc.IH [of d'] d' dir_entry_up [OF wf, of "P @ q" d' P x] show ?case by simp
  qed
  have "(P @ q, x) \<in> set (tree_entries d P) \<longleftrightarrow> (q, x) \<in> set (tree_entries d [])"
    using tree_entries_shift [OF wf, of P "[]"] nf by (auto simp: named_ok_def)
  with down tree_entries_trans [OF assms(3,4)] show ?thesis by blast
qed

lemma get_by_path_reparented:
  assumes "wf_tree (MTNode h n p cs)" "\<not> is_file (MTNode h n p cs)"
  shows "get_by_path (MTNode h n pid cs) q \<noteq> None \<longleftrightarrow> get_by_path (MTNode h n p cs) q \<noteq> None"
proof -
  have keys: "map fst (tree_entries (MTNode h n pid cs) []) = map fst (tree_entries (MTNode h n p cs) [])"
    by (simp split: e_merkle_tree_node.splits)
  have k: "map_of xs q \<noteq> None \<longleftrightarrow> q \<in> set (map fst xs)" for xs :: "(path \<times> merkle_tree_node) list"
    by (simp add: map_of_eq_None_iff)
  have "wf_tree (MTNode h n pid cs)" "\<not> is_file (MTNode h n pid cs)" using assms by (simp_all add: is_file_def)
  then have "get_by_path (MTNode h n pid cs) q = map_of (tree_entries (MTNode h n pid cs) []) q" by (rule get_by_path_entries)
  then show ?thesis unfolding get_by_path_entries [OF assms] by (simp only: k keys)
qed

lemma read_dir_get_by_path:
  assumes wf: "wf_tree root" "is_dir root" and st: "stored st root" "tree_size root \<le> fuel"
    and d: "(P, d) \<in> set (tree_entries root [])" "is_dir d"
  shows "\<exists>node. get_node_by_id_with_children st fuel (t_hash d) = Inr (Some node) \<and>
    (get_by_path node q \<noteq> None) = (get_by_path root (P @ q) \<noteq> None)"
proof -
  have sd: "stored st d" "tree_size d \<le> fuel" using stored_entry [OF wf(1) st(1) d(1)] st(2) by auto
  have wd: "wf_tree d" by (rule wf_entry [OF wf(1) d(1)])
  have nf: "\<not> is_file d" "\<not> is_file root" using d(2) wf(2) by (auto simp: kind_defs split: e_merkle_tree_node.splits)
  have may: "may_have_children d" using d(2) by (auto simp: is_dir_def may_have_children_def split: e_merkle_tree_node.splits)
  obtain pid where
    "read_depth st fuel (t_hash d) (-1) = Inr (Some (MTNode (t_hash d) (t_node d) pid (t_children (prune None (-1) 0 d))))"
    using read_depth_stored [OF sd(1) may sd(2)] by metis
  then have r: "get_node_by_id_with_children st fuel (t_hash d) = Inr (Some (MTNode (t_hash d) (t_node d) pid (t_children d)))"
    using prune_whole [OF sd(1)] by (simp add: get_node_by_id_with_children_def read_node_def)
  have "get_by_path d q \<noteq> None \<longleftrightarrow> get_by_path root (P @ q) \<noteq> None"
  proof -
    have "get_by_path d q = Some x \<longleftrightarrow> get_by_path root (P @ q) = Some x" for x
      using tree_entries_below_dir [OF wf d, of q x] map_of_tree_entries [OF wd] map_of_tree_entries [OF wf(1)]
      by (simp add: get_by_path_entries [OF wd nf(1)] get_by_path_entries [OF wf(1) nf(2)])
    then show ?thesis by (metis not_None_eq)
  qed
  moreover have "get_by_path (MTNode (t_hash d) (t_node d) pid (t_children d)) q \<noteq> None \<longleftrightarrow> get_by_path d q \<noteq> None"
    using wd nf(1) by (intro get_by_path_reparented [of "t_hash d" "t_node d" "t_parent_id d" "t_children d" pid q,
        unfolded merkle_tree_node.collapse])
  ultimately show ?thesis by (intro exI [of _ "MTNode (t_hash d) (t_node d) pid (t_children d)"] conjI r) (simp only:)
qed

section \<open>Node hashes between commits\<close>

definition hashes_of :: "merkle_tree_node \<Rightarrow> merkle_hash set" where
  "hashes_of t = t_hash ` inner t"

text \<open>Nodes with the same hash have the same hashes below them.\<close>

definition same_hash_same_subtree :: "merkle_tree_node set \<Rightarrow> bool" where
  "same_hash_same_subtree A \<longleftrightarrow> (\<forall>x \<in> A. \<forall>y \<in> A. t_hash x = t_hash y \<longrightarrow> hashes_of x = hashes_of y)"

text \<open>The tree of a commit's root directory, as the store holds it.\<close>

definition root_of :: "node_store \<Rightarrow> nat \<Rightarrow> commit \<Rightarrow> merkle_tree_node \<Rightarrow> bool" where
  "root_of st fuel c t \<longleftrightarrow> is_dir t \<and> stored st t \<and> tree_size t \<le> fuel \<and>
     (\<exists>dhs. dir_hashes st c = Inr dhs \<and> map_of dhs [] = Some (t_hash t))"

lemma tree_nodes_self: "t \<in> set (tree_nodes t)"
  by (cases t) simp

lemma tree_nodes_trans: "x \<in> set (tree_nodes t) \<Longrightarrow> y \<in> set (tree_nodes x) \<Longrightarrow> y \<in> set (tree_nodes t)"
  by (induction t) auto

lemma inner_trans: "x \<in> inner t \<Longrightarrow> inner x \<subseteq> inner t"
  unfolding inner_def using tree_nodes_trans by blast

lemma unique_of_None: "unique_of None req trav t = unique_of (Some {}) req trav t"
proof (induction t arbitrary: trav)
  case (MTNode h n p cs)
  have "(\<Union>c \<in> set cs. if may_have_children c \<and> descends req trav c then unique_of None req (child_depth trav c) c else {}) =
      (\<Union>c \<in> set cs. if may_have_children c \<and> descends req trav c then unique_of (Some {}) req (child_depth trav c) c else {})"
    by (rule SUP_cong) (use MTNode in auto)
  then show ?case by (simp add: in_base_def)
qed

lemma unique_exact:
  assumes "stored st t" and "\<And>y. y \<in> inner t \<Longrightarrow> t_hash y \<in> b \<Longrightarrow> hashes_of y \<subseteq> b"
  shows "unique_of (Some b) (-1) trav t = hashes_of t - b"
proof
  show "unique_of (Some b) (-1) trav t \<subseteq> hashes_of t - b"
    using unique_shared_sub [of b trav t] by (auto simp: hashes_of_def inner_def)
  show "hashes_of t - b \<subseteq> unique_of (Some b) (-1) trav t"
  proof
    fix h assume h: "h \<in> hashes_of t - b"
    then obtain x where x: "x \<in> set (tree_nodes t)" "may_have_children x" "t_hash x = h"
      by (auto simp: hashes_of_def inner_def)
    consider "h \<in> unique_of (Some b) (-1) trav t"
      | y where "y \<in> set (tree_nodes t)" "x \<in> set (tree_nodes y)" "t_hash y \<in> shared_of (Some b) (-1) trav t"
      using unique_shared_cover [OF x(1,2) assms(1), of b trav] x(3) by blast
    then show "h \<in> unique_of (Some b) (-1) trav t"
    proof cases
      case 2
      have "t_hash y \<in> b" using 2(3) shared_in_base by (fastforce simp: in_base_def)
      moreover have "may_have_children y"
      proof (rule ccontr)
        assume n: "\<not> may_have_children y"
        have "stored st y" using 2(1) assms(1)
        proof (induction t)
          case (MTNode h n p cs)
          then show ?case by (auto simp: list_all_iff split: if_splits)
        qed
        with n 2(2) x(2) show False by (cases y) (auto split: if_splits)
      qed
      ultimately have "hashes_of y \<subseteq> b" using assms(2) 2(1) by (simp add: inner_def)
      moreover have "h \<in> hashes_of y" using 2(2) x(2,3) by (auto simp: hashes_of_def inner_def)
      ultimately show ?thesis using h by blast
    qed
  qed
qed

lemma is_dir_may: "is_dir t \<Longrightarrow> may_have_children t"
  by (auto simp: is_dir_def may_have_children_def split: e_merkle_tree_node.splits)

lemma collect_root:
  assumes "root_of st fuel c t"
  shows "\<exists>r. read_depth_from_path_and_collect_hashes hash128 st fuel c [CurDir] base (-1) s =
    (Inr (Some r), add_sets (unique_of base (-1) 0 t) (shared_of base (-1) 0 t) s)"
proof -
  obtain dhs where t: "is_dir t" "stored st t" "tree_size t \<le> fuel" "dir_hashes st c = Inr dhs" "map_of dhs [] = Some (t_hash t)"
    using assms by (auto simp: root_of_def)
  obtain pid where "read_depth_and_collect_hashes st fuel (t_hash t) base (-1) s =
      (Inr (Some (MTNode (t_hash t) (t_node t) pid (t_children (prune base (-1) 0 t)))),
       add_sets (unique_of base (-1) 0 t) (shared_of base (-1) 0 t) s)"
    using read_depth_stored [OF t(2) is_dir_may [OF t(1)] t(3)] by metis
  then show ?thesis
    using t(4,5) by (simp add: read_depth_from_path_and_collect_hashes_def node_path_of_def sbind_def)
qed

lemma populate_root:
  assumes "root_of st fuel c t"
  shows "populate_starting_hashes hash128 st fuel c None None {} = Inr (hashes_of t)"
proof -
  obtain r where "read_depth_from_path_and_collect_hashes hash128 st fuel c [CurDir] None (-1)
      \<lparr>hs_unique = Some {}, hs_shared = None\<rparr> =
    (Inr (Some r), add_sets (unique_of None (-1) 0 t) (shared_of None (-1) 0 t) \<lparr>hs_unique = Some {}, hs_shared = None\<rparr>)"
    using collect_root [OF assms] by blast
  moreover have "unique_of None (-1) 0 t = hashes_of t"
    using unique_exact [of st t "{}" 0] assms by (simp add: unique_of_None root_of_def)
  ultimately show ?thesis by (simp add: populate_starting_hashes_def add_sets_def)
qed

lemma subtree_root:
  assumes "root_of st fuel c t" and "\<And>y. y \<in> inner t \<Longrightarrow> t_hash y \<in> b \<Longrightarrow> hashes_of y \<subseteq> b"
  shows "get_node_hashes_for_subtree hash128 st fuel c None None (b, new) = Inr (b \<union> hashes_of t, new \<union> (hashes_of t - b))"
proof -
  obtain r where "read_depth_from_path_and_collect_hashes hash128 st fuel c [CurDir] (Some b) (-1)
      \<lparr>hs_unique = Some {}, hs_shared = None\<rparr> =
    (Inr (Some r), add_sets (unique_of (Some b) (-1) 0 t) (shared_of (Some b) (-1) 0 t) \<lparr>hs_unique = Some {}, hs_shared = None\<rparr>)"
    using collect_root [OF assms(1)] by blast
  moreover have "unique_of (Some b) (-1) 0 t = hashes_of t - b"
    using unique_exact [of st t b 0] assms by (simp add: root_of_def)
  ultimately show ?thesis by (simp add: get_node_hashes_for_subtree_def add_sets_def)
qed

lemma commits_collected:
  assumes "list_all2 (root_of st fuel) cs ts" and "map commit_hash cs = map Inr hs"
    and "same_hash_same_subtree (A \<union> (\<Union>t \<in> set ts. inner t))" and "\<And>x. x \<in> A \<Longrightarrow> inner x \<subseteq> A" and "b = t_hash ` A"
  shows "rfold (\<lambda>c. get_node_hashes_for_commit hash128 st fuel c None None dl) cs (b, new) =
    Inr (b \<union> (\<Union>t \<in> set ts. hashes_of t), new \<union> ((\<Union>t \<in> set ts. hashes_of t) - b) \<union> set hs)"
  using assms
proof (induction cs arbitrary: ts hs A b new)
  case Nil
  then show ?case by simp
next
  case (Cons c cs)
  obtain t ts' where t: "ts = t # ts'" "root_of st fuel c t" "list_all2 (root_of st fuel) cs ts'"
    using Cons.prems(1) by (auto simp: list_all2_Cons1)
  obtain h hs' where h: "hs = h # hs'" "commit_hash c = Inr h" "map commit_hash cs = map Inr hs'"
    using Cons.prems(2) by (cases hs) auto
  have closed: "hashes_of y \<subseteq> b" if y: "y \<in> inner t" "t_hash y \<in> b" for y
  proof -
    obtain z where z: "z \<in> A" "t_hash y = t_hash z" using y(2) Cons.prems(5) by auto
    have "hashes_of y = hashes_of z"
      using Cons.prems(3) y(1) z unfolding same_hash_same_subtree_def t(1) by simp
    moreover have "hashes_of z \<subseteq> b" using Cons.prems(4) [OF z(1)] Cons.prems(5) by (auto simp: hashes_of_def)
    ultimately show ?thesis by simp
  qed
  have step: "get_node_hashes_for_commit hash128 st fuel c None None dl (b, new) =
      Inr (b \<union> hashes_of t, insert h (new \<union> (hashes_of t - b)))"
    by (simp add: get_node_hashes_for_commit_def subtree_root [OF t(2) closed] h(2))
  have cons: "same_hash_same_subtree ((A \<union> inner t) \<union> (\<Union>t \<in> set ts'. inner t))"
    using Cons.prems(3) by (simp add: t(1) Un_assoc)
  have sub: "inner x \<subseteq> A \<union> inner t" if "x \<in> A \<union> inner t" for x
    using that Cons.prems(4) inner_trans by blast
  have b: "b \<union> hashes_of t = t_hash ` (A \<union> inner t)" using Cons.prems(5) by (auto simp: hashes_of_def)
  show ?case
    using Cons.IH [OF t(3) h(3) cons sub b, of "insert h (new \<union> (hashes_of t - b))"]
    by (simp add: step t(1) h(1)) (auto simp: insert_Diff_if)
qed

section \<open>Properties\<close>

text \<open>C34: \<open>has_path\<close> loads the directory of the path and then searches it for the whole path again.
  For a file or directory that the tree holds it therefore answers whether the path occurs once
  more below that directory: a file of the root directory is found, a file \<open>d/b\<close> is reported
  absent unless the tree also has \<open>d/d/b\<close>.\<close>

theorem has_path_looks_below_its_directory:
  assumes "wf_tree root" and "is_dir root" and "stored st root" and "tree_size root \<le> fuel"
    and "dir_hashes st commit = Inr dhs" and "dir_hashes_ok dhs root"
    and "get_by_path root path = Some x"
  shows "tree_has_path st fuel commit path =
    Inr (get_by_path root ((if is_dir x then path else butlast path) @ path) \<noteq> None)"
proof -
  have nf: "\<not> is_file root" using assms(2) by (auto simp: kind_defs split: e_merkle_tree_node.splits)
  have x: "(path, x) \<in> set (tree_entries root [])"
    using assms(7) map_of_tree_entries [OF assms(1)] by (simp add: get_by_path_entries [OF assms(1) nf])
  note look = read_dir_get_by_path [OF assms(1-4)]
  show ?thesis
  proof (cases "is_dir x")
    case True
    then have "map_of dhs path = Some (t_hash x)" using assms(6) x unfolding dir_hashes_ok_def by blast
    moreover obtain node where "get_node_by_id_with_children st fuel (t_hash x) = Inr (Some node)"
      "(get_by_path node path \<noteq> None) = (get_by_path root (path @ path) \<noteq> None)"
      using look [OF x True] by blast
    ultimately show ?thesis using True assms(5) by (simp add: tree_has_path_def)
  next
    case False
    then have "map_of dhs path = None"
      using assms(6) x entry_unique [OF assms(1)] unfolding dir_hashes_ok_def by (metis not_None_eq)
    moreover obtain P d where d: "(P, d) \<in> set (tree_entries root [])" "is_dir d" "path = P @ [Normal (child_search_name x)]"
      using entry_has_dir [OF assms(1,2) x] False assms(2) by blast
    moreover from d have "map_of dhs P = Some (t_hash d)" using assms(6) unfolding dir_hashes_ok_def by blast
    moreover obtain node where "get_node_by_id_with_children st fuel (t_hash d) = Inr (Some node)"
      "(get_by_path node path \<noteq> None) = (get_by_path root (P @ path) \<noteq> None)"
      using look [OF d(1,2)] by blast
    ultimately show ?thesis using False assms(5) by (simp add: tree_has_path_def)
  qed
qed


lemma sample_root:
  "wf_tree (hd (t_children sample_tree))" "is_dir (hd (t_children sample_tree))"
  "stored (tree_store sample_tree kvs) (hd (t_children sample_tree))" "tree_size (hd (t_children sample_tree)) \<le> 6"
  using stored_sample [of kvs] by (simp_all add: sample_tree_def)

lemma sample_root_entries:
  "set (tree_entries (hd (t_children sample_tree)) []) =
     {([], hd (t_children sample_tree)), ([Normal ''a''], MTNode 1 (EFile (sample_file ''a'' 1)) (Some 7) []),
      ([Normal ''d''], tree_nodes sample_tree ! 4),
      ([Normal ''d'', Normal ''b''], MTNode 2 (EFile (sample_file ''b'' 2)) (Some 4) [])}"
  by (auto simp: sample_tree_def)

definition sample_kvs :: "(string \<times> string) list" where
  "sample_kvs = [('''', merkle_hash_to_string 8), (''d'', merkle_hash_to_string 5)]"

lemma sample_dir_hashes: "dir_hashes (tree_store sample_tree sample_kvs) c = Inr [([], 8), ([Normal ''d''], 5)]"
  by (simp add: dir_hashes_def tree_store_def sample_kvs_def Let_def)

lemma sample_dir_hashes_ok: "dir_hashes_ok [([], 8), ([Normal ''d''], 5)] (hd (t_children sample_tree))"
proof -
  have "is_dir (hd (t_children sample_tree))" "is_dir (tree_nodes sample_tree ! 4)"
    "t_hash (hd (t_children sample_tree)) = 8" "t_hash (tree_nodes sample_tree ! 4) = 5"
    by (simp_all add: sample_tree_def)
  then show ?thesis unfolding dir_hashes_ok_def sample_root_entries by auto
qed

lemma sample_root_search:
  "get_by_path (hd (t_children sample_tree)) q = Some x \<longleftrightarrow> (q, x) \<in> set (tree_entries (hd (t_children sample_tree)) [])"
proof -
  have nf: "\<not> is_file (hd (t_children sample_tree))" by (simp add: sample_tree_def)
  show ?thesis unfolding get_by_path_entries [OF sample_root(1) nf] map_of_tree_entries [OF sample_root(1)] ..
qed

lemma has_path_looks_below_its_directory_witness:
  "get_by_path (hd (t_children sample_tree)) [Normal ''d'', Normal ''b''] \<noteq> None \<and>
   tree_has_path (tree_store sample_tree sample_kvs) 6 (commit_node_to_commit (sample_commit 9 [] 0))
     [Normal ''d'', Normal ''b''] = Inr False"
proof -
  let ?r = "hd (t_children sample_tree)" and ?b = "MTNode 2 (EFile (sample_file ''b'' 2)) (Some 4) []"
  have b: "get_by_path ?r [Normal ''d'', Normal ''b''] = Some ?b" by (simp add: sample_root_search sample_root_entries)
  have "get_by_path ?r [Normal ''d'', Normal ''d'', Normal ''b''] \<noteq> Some x" for x
    by (simp add: sample_root_search sample_root_entries)
  then have "get_by_path ?r [Normal ''d'', Normal ''d'', Normal ''b''] = None" by (cases "get_by_path ?r [Normal ''d'', Normal ''d'', Normal ''b'']") auto
  with has_path_looks_below_its_directory [OF sample_root sample_dir_hashes sample_dir_hashes_ok b] b show ?thesis by simp
qed

text \<open>C26: the nodes that the server packs when the tree nodes of a range of commits are downloaded. For a
  list of commits of which the client has the first, \<open>get_node_hashes_between_commits\<close> without subtree
  paths and without a depth returns exactly the hashes of the directories and vnodes of the later commits that
  the first commit's tree does not have, and the later commits' own hashes; for the first commit
  alone, all hashes of its tree. It is assumed that equal hashes stand for equal subtrees.\<close>

theorem node_hashes_between_commits_exact:
  assumes "list_all2 (root_of st fuel) (c # cs) (t # ts)" and "map commit_hash cs = map Inr hs"
    and "same_hash_same_subtree (\<Union>x \<in> set (t # ts). inner x)"
  shows "get_node_hashes_between_commits hash128 st fuel (c # cs) None None dl =
    Inr (if cs = [] then hashes_of t else ((\<Union>x \<in> set ts. hashes_of x) - hashes_of t) \<union> set hs)"
proof -
  have t: "root_of st fuel c t" "list_all2 (root_of st fuel) cs ts" using assms(1) by auto
  have cons: "same_hash_same_subtree (inner t \<union> (\<Union>x \<in> set ts. inner x))" using assms(3) by simp
  have "rfold (\<lambda>c. get_node_hashes_for_commit hash128 st fuel c None None dl) cs (hashes_of t, {}) =
      Inr (hashes_of t \<union> (\<Union>x \<in> set ts. hashes_of x), {} \<union> ((\<Union>x \<in> set ts. hashes_of x) - hashes_of t) \<union> set hs)"
    by (rule commits_collected [OF t(2) assms(2) cons inner_trans]) (simp_all add: hashes_of_def)
  then show ?thesis by (simp add: get_node_hashes_between_commits_def populate_root [OF t(1)])
qed

definition two_commits_store :: node_store where
  "two_commits_store = (tree_store sample_tree [])\<lparr>st_dir_hashes := (\<lambda>i.
     Inr [('''', if i = merkle_hash_to_string 9 then merkle_hash_to_string 8 else merkle_hash_to_string 5)])\<rparr>"

lemma stored_dir_hashes [simp]: "stored (st\<lparr>st_dir_hashes := g\<rparr>) t = stored st t"
  by (induction t) (simp add: list_all_iff)

lemma node_hashes_between_commits_exact_witness:
  "get_node_hashes_between_commits (\<lambda>_. 0) two_commits_store 6
     [commit_node_to_commit (sample_commit 6 [] 0), commit_node_to_commit (sample_commit 9 [6] 0)] None None False =
   Inr {8, 7, 9}"
proof -
  let ?r = "hd (t_children sample_tree)" and ?d = "tree_nodes sample_tree ! 4"
  let ?c = "commit_node_to_commit (sample_commit 6 [] 0)" and ?c' = "commit_node_to_commit (sample_commit 9 [6] 0)"
  have "stored (tree_store sample_tree []) ?d" using sample_root(3) [of "[]"] by (simp add: sample_tree_def)
  then have r: "list_all2 (root_of two_commits_store 6) [?c, ?c'] [?d, ?r]"
    using sample_root(2,4) sample_root(3) [of "[]"]
    by (simp add: root_of_def two_commits_store_def dir_hashes_def commit_node_to_commit_def)
       (simp add: sample_tree_def)
  have h: "map commit_hash [?c'] = map Inr [9]" by (simp add: commit_hash_def commit_node_to_commit_def)
  have i: "inner ?d = {?d, hd (t_children ?d)}" "inner ?r = {?r, hd (t_children ?r), ?d, hd (t_children ?d)}"
    "inner (hd (t_children ?d)) = {hd (t_children ?d)}" "inner (hd (t_children ?r)) = {hd (t_children ?r), ?d, hd (t_children ?d)}"
    by (auto simp: sample_tree_def inner_node)
  have hs: "t_hash ?d = 5" "t_hash ?r = 8" "t_hash (hd (t_children ?d)) = 4" "t_hash (hd (t_children ?r)) = 7"
    by (simp_all add: sample_tree_def)
  have s: "same_hash_same_subtree (\<Union>x \<in> set [?d, ?r]. inner x)"
    by (simp add: i same_hash_same_subtree_def hs)
  show ?thesis
    using node_hashes_between_commits_exact [OF r h s] by (simp add: hashes_of_def i hs) auto
qed

lemma path_ancestors_last: "name_path p \<Longrightarrow> path_ancestors p \<noteq> [] \<and> last (path_ancestors p) = []"
proof (induction p rule: rev_induct)
  case (snoc c p)
  then obtain s where "c = Normal s" by auto
  with snoc show ?case by (simp add: path_ancestors.simps [of "p @ [Normal s]"])
qed (simp add: path_ancestors.simps)

lemma all_parent_paths_ends:
  assumes "2 \<le> length subtrees" and "\<forall>p \<in> set subtrees. name_path p"
  shows "\<exists>xs. all_parent_paths subtrees = [] # xs \<and> xs \<noteq> [] \<and> last xs = []"
proof -
  obtain ss s where ss: "subtrees = ss @ [s]" "ss \<noteq> []" using assms(1) by (cases subtrees rule: rev_cases) fastforce+
  obtain ss' s' where ss': "ss = ss' @ [s']" using ss(2) by (cases ss rule: rev_cases) auto
  let ?a = "path_ancestors s" and ?b = "path_ancestors s'" and ?p = "all_parent_paths ss'"
  have a: "?a \<noteq> []" "last ?a = []" "?b \<noteq> []" "last ?b = []"
    using path_ancestors_last assms(2) by (simp_all add: ss ss')
  have "all_parent_paths subtrees = rev (rev (?p @ ?b) @ ?a)" by (simp add: all_parent_paths_def ss ss')
  then have e: "all_parent_paths subtrees = rev ?a @ ?p @ ?b" by simp
  obtain xs ys where x: "?a = xs @ [[]]" "?b = ys @ [[]]" using a by (metis append_butlast_last_id)
  have "all_parent_paths subtrees = [] # rev xs @ ?p @ ys @ [[]]" by (simp only: e x rev.simps rev_append append.simps append_assoc)
  then show ?thesis by simp
qed

text \<open>When a push names two or more subtrees, the directories above them are not sent. The paths
  the loop gathers then start and end with the root, and \<open>collect_nodes_along_path\<close>, which follows
  them to the last one, adds the root directory alone.\<close>

theorem parents_of_several_subtrees_skipped:
  assumes "2 \<le> length subtrees" and "\<forall>p \<in> set subtrees. name_path p" and "root_of st fuel c t"
  shows "collect_nodes_along_path hash128 st fuel c (all_parent_paths subtrees) starting hashes =
    Inr (if t_hash t \<in> starting then hashes else insert (t_hash t) hashes)"
proof -
  obtain xs where xs: "all_parent_paths subtrees = [] # xs" "xs \<noteq> []" "last xs = []"
    using all_parent_paths_ends [OF assms(1,2)] by blast
  obtain dhs where t: "is_dir t" "stored st t" "tree_size t \<le> fuel" "dir_hashes st c = Inr dhs" "map_of dhs [] = Some (t_hash t)"
    using assms(3) by (auto simp: root_of_def)
  obtain pid where "read_depth st fuel (t_hash t) (-1) =
      Inr (Some (MTNode (t_hash t) (t_node t) pid (t_children (prune None (-1) 0 t))))"
    using read_depth_stored [OF t(2) is_dir_may [OF t(1)] t(3)] by metis
  then have "get_node_by_path_with_children hash128 st fuel c [] =
      Inr (Some (MTNode (t_hash t) (t_node t) pid (t_children t)))"
    using t(4,5) prune_whole [OF t(2)]
    by (simp add: get_node_by_path_with_children_def read_from_path_def read_depth_from_path_def node_path_of_def)
  moreover have "snd (get_nodes_along_paths (MTNode (t_hash t) (t_node t) pid (t_children t)) ([] # xs)) =
      [MTNode (t_hash t) (t_node t) pid (t_children t)]"
    using t(1) xs by (auto simp: get_nodes_along_paths_def is_dir_def Let_def split: e_merkle_tree_node.splits)
  ultimately show ?thesis by (simp add: collect_nodes_along_path_def xs(1))
qed

lemma parents_of_several_subtrees_skipped_witness:
  "collect_nodes_along_path (\<lambda>_. 0) (tree_store sample_tree sample_kvs) 6 (commit_node_to_commit (sample_commit 9 [] 0))
     (all_parent_paths [[Normal ''d''], [Normal ''a'']]) {} {} = Inr {8}"
proof -
  have "root_of (tree_store sample_tree sample_kvs) 6 (commit_node_to_commit (sample_commit 9 [] 0)) (hd (t_children sample_tree))"
    using sample_root(2-4) by (simp add: root_of_def sample_dir_hashes) (simp add: sample_tree_def)
  from parents_of_several_subtrees_skipped [OF _ _ this, of "[[Normal ''d''], [Normal ''a'']]" "\<lambda>_. 0" "{}" "{}"]
  show ?thesis by (simp add: sample_tree_def)
qed

end
