(* ===== verification/Ref_Store.thy ===== *)
theory Ref_Store
  imports Tree_Queries
begin

text \<open>
  Commits by hash and id (\<open>core/v_latest/commits.rs\<close>), the branch references and \<open>HEAD\<close>
  (\<open>core/refs/ref_manager.rs\<close>) and revisions (\<open>repositories/revisions.rs\<close>). What
  \<open>get_by_hash\<close> answers per hash is the \<open>commit_source\<close> the other functions read. The
  references live in a RocksDB, third-party code: its operations are an argument, with their
  documented laws in \<open>kv_lawful\<close>. The cache of open databases is transparent and not modelled.
\<close>

section \<open>Commits by id\<close>

type_synonym commit_source = "merkle_hash \<Rightarrow> commit option res"

definition get_by_hash :: "node_store \<Rightarrow> nat \<Rightarrow> commit_source" where
  "get_by_hash st fuel h =
     rbind (get_node_by_id st fuel h) (\<lambda>r.
       case r of
         None \<Rightarrow> Inr None
       | Some node \<Rightarrow> rbind (node_commit node) (\<lambda>c. Inr (Some (commit_node_to_commit c))))"

definition get_by_id :: "commit_source \<Rightarrow> string \<Rightarrow> commit option res" where
  "get_by_id get cid =
     (case merkle_hash_from_str cid of
        Inl _ \<Rightarrow> Inr None
      | Inr h \<Rightarrow> get h)"

definition commit_id_exists :: "commit_source \<Rightarrow> string \<Rightarrow> bool res" where
  "commit_id_exists get cid = rbind (get_by_id get cid) (\<lambda>c. Inr (c \<noteq> None))"

text \<open>A commit that is read from the store carries ids that parse.\<close>

definition printed_ids :: "commit \<Rightarrow> bool" where
  "printed_ids c \<longleftrightarrow> (\<exists>h. cm_id c = merkle_hash_to_string h) \<and>
     (\<exists>ps. cm_parent_ids c = map merkle_hash_to_string ps)"

lemma get_by_hash_printed: "get_by_hash st fuel h = Inr (Some c) \<Longrightarrow> printed_ids c"
  by (auto simp: get_by_hash_def rbind_eq_Inr printed_ids_def commit_node_to_commit_def split: option.splits) blast

section \<open>The key-value store\<close>

record ('d, 'v) kv_ops =
  kv_get :: "'d \<Rightarrow> string \<Rightarrow> 'v option"
  kv_put :: "string \<Rightarrow> 'v \<Rightarrow> 'd \<Rightarrow> 'd"
  kv_delete :: "string \<Rightarrow> 'd \<Rightarrow> 'd"
  kv_iter :: "'d \<Rightarrow> (string \<times> 'v) list"

text \<open>
  Put and delete change the one key; the iteration from the start lists every key once, in the
  order of their bytes.
\<close>

definition kv_lawful :: "('d, 'v) kv_ops \<Rightarrow> bool" where
  "kv_lawful kv \<longleftrightarrow>
     (\<forall>d k v. kv_get kv (kv_put kv k v d) = (kv_get kv d)(k \<mapsto> v)) \<and>
     (\<forall>d k. kv_get kv (kv_delete kv k d) = (kv_get kv d)(k := None)) \<and>
     (\<forall>d. map_of (kv_iter kv d) = kv_get kv d \<and> sorted (map fst (kv_iter kv d)) \<and> distinct (map fst (kv_iter kv d)))"

section \<open>References\<close>

record 'd refs =
  rf_db :: 'd
  rf_head :: "string option"

record branch =
  br_name :: string
  br_commit_id :: string

type_synonym 'd ref_kv = "('d, string) kv_ops"

definition branch_not_found :: "string \<Rightarrow> oxen_error" where
  "branch_not_found name = BranchNotFound (''Branch '' @ [CHR 0x27] @ name @ [CHR 0x27] @ '' not found'')"

definition has_branch :: "'d ref_kv \<Rightarrow> string \<Rightarrow> 'd refs \<Rightarrow> bool" where
  "has_branch kv name rs \<longleftrightarrow> kv_get kv (rf_db rs) name \<noteq> None"

definition get_commit_id_for_branch :: "'d ref_kv \<Rightarrow> 'd refs \<Rightarrow> string \<Rightarrow> string option" where
  "get_commit_id_for_branch kv rs name = kv_get kv (rf_db rs) name"

definition read_head_ref :: "'d refs \<Rightarrow> string option" where
  "read_head_ref rs = rf_head rs"

definition get_current_branch :: "'d ref_kv \<Rightarrow> 'd refs \<Rightarrow> branch option" where
  "get_current_branch kv rs =
     (case read_head_ref rs of
        None \<Rightarrow> None
      | Some ref_name \<Rightarrow>
          (case get_commit_id_for_branch kv rs ref_name of
             Some cid \<Rightarrow> Some \<lparr>br_name = ref_name, br_commit_id = cid\<rparr>
           | None \<Rightarrow> None))"

definition rm_head_commit_id :: "commit_source \<Rightarrow> 'd ref_kv \<Rightarrow> 'd refs \<Rightarrow> string option res" where
  "rm_head_commit_id get kv rs =
     (case read_head_ref rs of
        None \<Rightarrow> Inr None
      | Some head_ref \<Rightarrow>
          (case get_commit_id_for_branch kv rs head_ref of
             Some cid \<Rightarrow> Inr (Some cid)
           | None \<Rightarrow> rbind (commit_id_exists get head_ref) (\<lambda>b. Inr (if b then Some head_ref else None))))"

definition list_branches :: "'d ref_kv \<Rightarrow> 'd refs \<Rightarrow> branch list" where
  "list_branches kv rs = map (\<lambda>(k, v). \<lparr>br_name = k, br_commit_id = v\<rparr>) (kv_iter kv (rf_db rs))"

definition get_branch_by_name :: "'d ref_kv \<Rightarrow> 'd refs \<Rightarrow> string \<Rightarrow> branch option" where
  "get_branch_by_name kv rs name =
     map_option (\<lambda>cid. \<lparr>br_name = name, br_commit_id = cid\<rparr>) (get_commit_id_for_branch kv rs name)"

subsection \<open>Writes\<close>

definition rm_set_head :: "string \<Rightarrow> 'd refs \<Rightarrow> 'd refs" where
  "rm_set_head name rs = rs\<lparr>rf_head := Some name\<rparr>"

definition set_branch_commit_id :: "'d ref_kv \<Rightarrow> string \<Rightarrow> string \<Rightarrow> 'd refs \<Rightarrow> 'd refs" where
  "set_branch_commit_id kv name commit_id rs = rs\<lparr>rf_db := kv_put kv name commit_id (rf_db rs)\<rparr>"

text \<open>\<open>contains\<close> and \<open>ends_with\<close> of \<open>str\<close>.\<close>

fun str_contains :: "string \<Rightarrow> string \<Rightarrow> bool" where
  "str_contains pat [] \<longleftrightarrow> pat = []"
| "str_contains pat (c # cs) \<longleftrightarrow> take (length pat) (c # cs) = pat \<or> str_contains pat cs"

definition is_invalid_branch_name :: "string \<Rightarrow> bool" where
  "is_invalid_branch_name name \<longleftrightarrow>
     (\<exists>invalid \<in> set [''..'', ''~'', ''^'', '':'', ''?'', ''['', ''*'', [CHR 0x5C], '' '', [CHR ''@'', CHR 0x7B]]. str_contains invalid name) \<or>
     name = ''@'' \<or> (name \<noteq> [] \<and> last name = CHR ''.'')"

definition create_branch :: "'d ref_kv \<Rightarrow> string \<Rightarrow> string \<Rightarrow> ('d refs, branch) st" where
  "create_branch kv name commit_id rs =
     (if is_invalid_branch_name name then (Inl (Basic ''is not a valid branch name.''), rs)
      else if has_branch kv name rs then (Inl (Basic ''Branch already exists''), rs)
      else (Inr \<lparr>br_name = name, br_commit_id = commit_id\<rparr>, set_branch_commit_id kv name commit_id rs))"

definition rename_branch :: "'d ref_kv \<Rightarrow> string \<Rightarrow> string \<Rightarrow> ('d refs, unit) st" where
  "rename_branch kv old_name new_name rs =
     (if \<not> has_branch kv old_name rs then (Inl (branch_not_found old_name), rs)
      else if has_branch kv new_name rs then (Inl (Basic ''Branch already exists''), rs)
      else if is_invalid_branch_name new_name then (Inl (Basic ''is not a valid branch name.''), rs)
      else case kv_get kv (rf_db rs) old_name of
             None \<Rightarrow> (Inl (Panic ''unwrap''), rs)
           | Some old_id \<Rightarrow>
               (Inr (), rs\<lparr>rf_db := kv_put kv new_name old_id (kv_delete kv old_name (rf_db rs))\<rparr>))"

definition delete_branch :: "'d ref_kv \<Rightarrow> string \<Rightarrow> ('d refs, branch) st" where
  "delete_branch kv name rs =
     (case get_branch_by_name kv rs name of
        None \<Rightarrow> (Inl (Basic ''Branch does not exist''), rs)
      | Some branch \<Rightarrow> (Inr branch, rs\<lparr>rf_db := kv_delete kv name (rf_db rs)\<rparr>))"

definition set_head_branch_commit_id :: "'d ref_kv \<Rightarrow> string \<Rightarrow> 'd refs \<Rightarrow> 'd refs" where
  "set_head_branch_commit_id kv commit_id rs =
     (case read_head_ref rs of
        None \<Rightarrow> rs
      | Some head_ref \<Rightarrow> set_branch_commit_id kv head_ref commit_id rs)"

definition set_head_commit_id :: "'d ref_kv \<Rightarrow> string \<Rightarrow> 'd refs \<Rightarrow> 'd refs" where
  "set_head_commit_id kv commit_id rs =
     (case read_head_ref rs of
        None \<Rightarrow> rs
      | Some head_val \<Rightarrow>
          if has_branch kv head_val rs then set_head_branch_commit_id kv commit_id rs
          else rm_set_head commit_id rs)"

section \<open>HEAD and revisions\<close>

definition head_commit_id :: "commit_source \<Rightarrow> 'd ref_kv \<Rightarrow> 'd refs \<Rightarrow> merkle_hash res" where
  "head_commit_id get kv rs =
     rbind (rm_head_commit_id get kv rs) (\<lambda>cid.
       case cid of Some s \<Rightarrow> merkle_hash_from_str s | None \<Rightarrow> Inl HeadNotFound)"

definition head_commit_maybe :: "commit_source \<Rightarrow> 'd ref_kv \<Rightarrow> 'd refs \<Rightarrow> commit option res" where
  "head_commit_maybe get kv rs =
     rbind (rm_head_commit_id get kv rs) (\<lambda>cid.
       case cid of Some s \<Rightarrow> rbind (merkle_hash_from_str s) get | None \<Rightarrow> Inr None)"

text \<open>\<open>head_commit\<close> reads the node and its commit directly; that is \<open>get_by_hash\<close> with a missing node as an error.\<close>

definition head_commit :: "commit_source \<Rightarrow> 'd ref_kv \<Rightarrow> 'd refs \<Rightarrow> commit res" where
  "head_commit get kv rs =
     rbind (head_commit_id get kv rs) (\<lambda>h.
     rbind (get h) (ok_or (Basic ''Merkle tree node not found for head commit'')))"

definition get_by_name :: "'d ref_kv \<Rightarrow> 'd refs \<Rightarrow> string \<Rightarrow> branch res" where
  "get_by_name kv rs name = ok_or (branch_not_found name) (get_branch_by_name kv rs name)"

definition branch_exists :: "'d ref_kv \<Rightarrow> 'd refs \<Rightarrow> string \<Rightarrow> bool res" where
  "branch_exists kv rs name =
     (case get_by_name kv rs name of
        Inr _ \<Rightarrow> Inr True
      | Inl (BranchNotFound _) \<Rightarrow> Inr False
      | Inl e \<Rightarrow> Inl e)"

definition revision_get :: "commit_source \<Rightarrow> 'd ref_kv \<Rightarrow> 'd refs \<Rightarrow> string \<Rightarrow> commit option res" where
  "revision_get get kv rs revision =
     (if revision = ''HEAD'' then rbind (head_commit get kv rs) (\<lambda>c. Inr (Some c))
      else get_by_id get (case get_commit_id_for_branch kv rs revision of Some cid \<Rightarrow> cid | None \<Rightarrow> revision))"

text \<open>Errors of the lookup by branch (not panics) count as no commit.\<close>

definition get_commit_by_branch :: "commit_source \<Rightarrow> 'd ref_kv \<Rightarrow> 'd refs \<Rightarrow> string \<Rightarrow> commit option res" where
  "get_commit_by_branch get kv rs name =
     (case get_by_name kv rs name of
        Inl _ \<Rightarrow> Inr None
      | Inr branch \<Rightarrow>
          (case get_by_id get (br_commit_id branch) of
             Inr c \<Rightarrow> Inr c
           | Inl (Panic p) \<Rightarrow> Inl (Panic p)
           | Inl _ \<Rightarrow> Inr None))"

definition get_commit_by_ref :: "commit_source \<Rightarrow> 'd ref_kv \<Rightarrow> 'd refs \<Rightarrow> string \<Rightarrow> commit res" where
  "get_commit_by_ref get kv rs ref_name =
     rbind (get_by_id get ref_name) (\<lambda>c.
     rbind (case c of Some c' \<Rightarrow> Inr (Some c') | None \<Rightarrow> get_commit_by_branch get kv rs ref_name)
       (ok_or (Basic ''Commit not found'')))"

definition get_commit_or_head :: "commit_source \<Rightarrow> 'd ref_kv \<Rightarrow> 'd refs \<Rightarrow> string option \<Rightarrow> commit res" where
  "get_commit_or_head get kv rs r =
     (case r of Some ref_name \<Rightarrow> get_commit_by_ref get kv rs ref_name | None \<Rightarrow> head_commit get kv rs)"

definition list_branches_with_commits :: "commit_source \<Rightarrow> 'd ref_kv \<Rightarrow> 'd refs \<Rightarrow> (branch \<times> commit) list res" where
  "list_branches_with_commits get kv rs =
     (case read_head_ref rs of
        None \<Rightarrow> Inr []
      | Some _ \<Rightarrow>
          rmap (\<lambda>branch. rbind (get_commit_or_head get kv rs (Some (br_name branch))) (\<lambda>c. Inr (branch, c)))
            (list_branches kv rs))"

section \<open>Branch operations\<close>

definition create_from_head :: "commit_source \<Rightarrow> 'd ref_kv \<Rightarrow> string \<Rightarrow> ('d refs, branch) st" where
  "create_from_head get kv name rs =
     sbind (slift (head_commit get kv rs)) (\<lambda>c. create_branch kv name (cm_id c)) rs"

definition branches_create :: "commit_source \<Rightarrow> 'd ref_kv \<Rightarrow> string \<Rightarrow> string \<Rightarrow> ('d refs, branch) st" where
  "branches_create get kv name commit_id rs =
     sbind (slift (commit_id_exists get commit_id)) (\<lambda>b.
       if b then create_branch kv name commit_id else slift (Inl (Basic ''Could not find commit''))) rs"

text \<open>\<open>linux_path_str\<close>: every backslash becomes a slash.\<close>

definition linux_path_str :: "string \<Rightarrow> string" where
  "linux_path_str s = map (\<lambda>c. if c = CHR 0x5C then CHR ''/'' else c) s"

definition create_checkout :: "commit_source \<Rightarrow> 'd ref_kv \<Rightarrow> string \<Rightarrow> ('d refs, branch) st" where
  "create_checkout get kv name0 rs =
     (let name = linux_path_str name0
      in sbind (slift (head_commit get kv rs)) (\<lambda>c.
         sbind (create_branch kv name (cm_id c)) (\<lambda>branch rs'. (Inr branch, rm_set_head name rs'))) rs)"

definition branches_update :: "commit_source \<Rightarrow> 'd ref_kv \<Rightarrow> string \<Rightarrow> string \<Rightarrow> ('d refs, branch) st" where
  "branches_update get kv name commit_id rs =
     sbind (slift (commit_id_exists get commit_id)) (\<lambda>b rs.
       if \<not> b then (Inl (Basic ''Could not find commit''), rs)
       else case get_branch_by_name kv rs name of
              Some branch \<Rightarrow> (Inr (branch\<lparr>br_commit_id := commit_id\<rparr>), set_branch_commit_id kv name commit_id rs)
            | None \<Rightarrow> create_branch kv name commit_id rs) rs"

definition force_delete :: "'d ref_kv \<Rightarrow> string \<Rightarrow> ('d refs, branch) st" where
  "force_delete kv name rs =
     (case get_current_branch kv rs of
        Some branch \<Rightarrow>
          if br_name branch = name then (Inl (Basic ''Err: Cannot delete current checked out branch''), rs)
          else delete_branch kv name rs
      | None \<Rightarrow> delete_branch kv name rs)"

definition is_checked_out :: "'d ref_kv \<Rightarrow> 'd refs \<Rightarrow> string \<Rightarrow> bool" where
  "is_checked_out kv rs name \<longleftrightarrow>
     (case get_current_branch kv rs of Some branch \<Rightarrow> br_name branch = name | None \<Rightarrow> False)"

definition rename_current_branch :: "'d ref_kv \<Rightarrow> string \<Rightarrow> ('d refs, unit) st" where
  "rename_current_branch kv new_name rs =
     (case get_current_branch kv rs of
        Some branch \<Rightarrow>
          sbind (rename_branch kv (br_name branch) new_name) (\<lambda>_ rs'. (Inr (), rm_set_head new_name rs')) rs
      | None \<Rightarrow> (Inl (Basic ''Repository is in a detached HEAD state, checkout a valid branch to continue.''), rs))"

section \<open>A key-value store that obeys the laws\<close>

definition list_kv :: "((string \<times> 'v) list, 'v) kv_ops" where
  "list_kv = \<lparr>kv_get = map_of, kv_put = AList.update, kv_delete = AList.delete,
     kv_iter = (\<lambda>d. sort_key fst (AList.clearjunk d))\<rparr>"

lemma list_kv_lawful: "kv_lawful (list_kv :: ((string \<times> 'v) list, 'v) kv_ops)"
proof -
  have "map_of (sort_key fst (AList.clearjunk d)) = map_of d" for d :: "(string \<times> 'v) list"
  proof -
    have d: "distinct (map fst (AList.clearjunk d))" by (rule distinct_clearjunk)
    then have "distinct (map fst (sort_key fst (AList.clearjunk d)))"
      by (metis distinct_map distinct_sort set_sort)
    with d have "map_of (sort_key fst (AList.clearjunk d)) = map_of (AList.clearjunk d)"
      by (simp add: map_of_inject_set)
    then show ?thesis by (simp add: map_of_clearjunk)
  qed
  moreover have "distinct (map fst (sort_key fst (AList.clearjunk d)))" for d :: "(string \<times> 'v) list"
    using distinct_clearjunk [of d] by (metis distinct_map distinct_sort set_sort)
  ultimately show ?thesis
    by (simp add: kv_lawful_def list_kv_def map_of_delete sorted_sort_key)
qed

lemma kv_get_put [simp]: "kv_lawful kv \<Longrightarrow> kv_get kv (kv_put kv k v d) = (kv_get kv d)(k \<mapsto> v)"
  by (simp add: kv_lawful_def)

lemma kv_get_delete [simp]: "kv_lawful kv \<Longrightarrow> kv_get kv (kv_delete kv k d) = (kv_get kv d)(k := None)"
  by (simp add: kv_lawful_def)

lemma kv_iter_get: "kv_lawful kv \<Longrightarrow> (k, v) \<in> set (kv_iter kv d) \<longleftrightarrow> kv_get kv d k = Some v"
  unfolding kv_lawful_def by (metis map_of_eq_Some_iff)

end
