(* ===== verification/Commit_History.thy ===== *)
theory Commit_History
  imports Ref_Store
begin

text \<open>
  The commit graph (\<open>core/v_latest/commits.rs\<close>): the traversal behind every listing, its pages, the
  count cache, the walk that keeps depths, the history of a path, and the common ancestor of two
  commits (\<open>core/v_latest/merge.rs\<close>). A loop over the graph is a \<open>partial_function\<close>, so that a
  walk that does not return is \<open>None\<close>. A \<open>usize\<close> is a number below \<open>2 ^ 64\<close> whose
  overflowing sum panics, as in a build with overflow checks.
\<close>

section \<open>Machine numbers and results of loops\<close>

definition usize_max :: nat where
  "usize_max = 2 ^ 64 - 1"

definition usize_add :: "nat \<Rightarrow> nat \<Rightarrow> nat res" where
  "usize_add a b = (if a + b \<le> usize_max then Inr (a + b) else Inl (Panic ''attempt to add with overflow''))"

type_synonym 'a loop = "'a res option"

definition lbind :: "'a loop \<Rightarrow> ('a \<Rightarrow> 'b loop) \<Rightarrow> 'b loop" where
  "lbind m f = (case m of None \<Rightarrow> None | Some (Inl e) \<Rightarrow> Some (Inl e) | Some (Inr x) \<Rightarrow> f x)"

lemma lbind_simps [simp, res_simps]:
  "lbind None f = None"
  "lbind (Some (Inl e)) f = Some (Inl e)"
  "lbind (Some (Inr x)) f = f x"
  by (simp_all add: lbind_def)

fun lfold :: "('a \<Rightarrow> 's \<Rightarrow> 's loop) \<Rightarrow> 'a list \<Rightarrow> 's \<Rightarrow> 's loop" where
  "lfold f [] s = Some (Inr s)"
| "lfold f (x # xs) s = lbind (f x s) (lfold f xs)"

section \<open>The heap of commits\<close>

text \<open>\<open>Ord\<close> of \<open>TimestampedCommit\<close>: by time, then by id.\<close>

definition timestamped_cmp :: "commit \<Rightarrow> commit \<Rightarrow> ordering" where
  "timestamped_cmp a b =
     (case ord_cmp (cm_timestamp a) (cm_timestamp b) of
        Equal \<Rightarrow> ord_cmp (cm_id a) (cm_id b)
      | ord \<Rightarrow> ord)"

text \<open>\<open>BinaryHeap\<close>: \<open>pop\<close> removes a greatest element.\<close>

fun heap_top :: "commit \<Rightarrow> commit list \<Rightarrow> commit" where
  "heap_top m [] = m"
| "heap_top m (c # cs) = heap_top (if timestamped_cmp m c = Less then c else m) cs"

definition heap_pop :: "commit list \<Rightarrow> (commit \<times> commit list) option" where
  "heap_pop heap = (case heap of [] \<Rightarrow> None | c # cs \<Rightarrow> (let m = heap_top c cs in Some (m, remove1 m heap)))"

section \<open>The traversal\<close>

record 'c traversal_config =
  tc_stop_at_base :: "commit option"
  tc_skip :: nat
  tc_limit :: nat
  tc_cache_db :: "'c option"
  tc_known_total_count :: "nat option"

type_synonym 'c count_kv = "('c, nat) kv_ops"

definition get_cached_count :: "'c count_kv \<Rightarrow> 'c \<Rightarrow> string \<Rightarrow> nat option" where
  "get_cached_count ckv db commit_id = kv_get ckv db commit_id"

definition cache_count :: "'c count_kv \<Rightarrow> string \<Rightarrow> nat \<Rightarrow> 'c \<Rightarrow> 'c" where
  "cache_count ckv commit_id n db = kv_put ckv commit_id n db"

text \<open>Pushing the parents that are found and not visited; both the stack and the heap of the code.\<close>

fun push_parents :: "commit_source \<Rightarrow> string set \<Rightarrow> string list \<Rightarrow> commit list \<Rightarrow> commit list res" where
  "push_parents get visited [] stack = Inr stack"
| "push_parents get visited (pid # pids) stack =
     rbind (merkle_hash_from_str pid) (\<lambda>h.
     rbind (get h) (\<lambda>r.
       push_parents get visited pids
         (case r of Some c \<Rightarrow> (if cm_id c \<notin> visited then c # stack else stack) | None \<Rightarrow> stack)))"

partial_function (option) mark_loop :: "commit_source \<Rightarrow> commit list \<Rightarrow> string set \<Rightarrow> nat \<Rightarrow> (nat \<times> string set) loop" where
  "mark_loop get stack visited newly_visited =
     (case stack of
        [] \<Rightarrow> Some (Inr (newly_visited, visited))
      | current # rest \<Rightarrow>
          if cm_id current \<in> visited then mark_loop get rest visited newly_visited
          else (case push_parents get (insert (cm_id current) visited) (cm_parent_ids current) rest of
                  Inl e \<Rightarrow> Some (Inl e)
                | Inr stack' \<Rightarrow> mark_loop get stack' (insert (cm_id current) visited) (newly_visited + 1)))"

definition mark_ancestors_visited :: "commit_source \<Rightarrow> commit \<Rightarrow> string set \<Rightarrow> (nat \<times> string set) loop" where
  "mark_ancestors_visited get commit visited =
     (case push_parents get visited (cm_parent_ids commit) [] of
        Inl e \<Rightarrow> Some (Inl e)
      | Inr stack \<Rightarrow> mark_loop get stack visited 0)"

definition collect_page :: "'c traversal_config \<Rightarrow> nat \<Rightarrow> commit \<Rightarrow> nat \<Rightarrow> commit list option \<Rightarrow> commit list option" where
  "collect_page cfg end_idx commit n results =
     (if tc_skip cfg \<le> n \<and> n < end_idx then map_option (\<lambda>rs. rs @ [commit]) results else results)"

definition is_stop :: "'c traversal_config \<Rightarrow> commit \<Rightarrow> bool" where
  "is_stop cfg commit \<longleftrightarrow> (case tc_stop_at_base cfg of Some base \<Rightarrow> cm_id commit = cm_id base | None \<Rightarrow> False)"

definition is_cached :: "'c count_kv \<Rightarrow> 'c traversal_config \<Rightarrow> commit \<Rightarrow> bool" where
  "is_cached ckv cfg commit \<longleftrightarrow>
     (case tc_cache_db cfg of Some db \<Rightarrow> get_cached_count ckv db (cm_id commit) \<noteq> None | None \<Rightarrow> False)"

text \<open>The loop of \<open>traverse_commits\<close>; \<open>results\<close> is \<open>None\<close> when only the count is asked for.\<close>

partial_function (option) traverse_loop ::
  "commit_source \<Rightarrow> 'c count_kv \<Rightarrow> 'c traversal_config \<Rightarrow> nat \<Rightarrow> commit list \<Rightarrow> string set \<Rightarrow> nat \<Rightarrow> commit list option \<Rightarrow>
   (nat \<times> commit list option) loop" where
  "traverse_loop get ckv cfg end_idx heap visited n results =
     (case heap_pop heap of
        None \<Rightarrow> Some (Inr (n, results))
      | Some (commit, heap1) \<Rightarrow>
          if cm_id commit \<in> visited then traverse_loop get ckv cfg end_idx heap1 visited n results
          else if is_stop cfg commit
          then traverse_loop get ckv cfg end_idx heap1 (insert (cm_id commit) visited) (n + 1)
                 (collect_page cfg end_idx commit n results)
          else if is_cached ckv cfg commit
          then (case mark_ancestors_visited get commit (insert (cm_id commit) visited) of
                  None \<Rightarrow> None
                | Some (Inl e) \<Rightarrow> Some (Inl e)
                | Some (Inr (newly_visited, visited')) \<Rightarrow>
                    traverse_loop get ckv cfg end_idx heap1 visited' (n + (1 + newly_visited)) results)
          else if tc_known_total_count cfg \<noteq> None \<and> results \<noteq> None \<and> end_idx \<le> n + 1
          then Some (Inr (n + 1, collect_page cfg end_idx commit n results))
          else (case push_parents get (insert (cm_id commit) visited) (cm_parent_ids commit) heap1 of
                  Inl e \<Rightarrow> Some (Inl e)
                | Inr heap2 \<Rightarrow> traverse_loop get ckv cfg end_idx heap2 (insert (cm_id commit) visited) (n + 1)
                    (collect_page cfg end_idx commit n results)))"

definition traverse_commits ::
  "commit_source \<Rightarrow> 'c count_kv \<Rightarrow> 'c traversal_config \<Rightarrow> commit \<Rightarrow> commit list option \<Rightarrow> (nat \<times> commit list option) loop" where
  "traverse_commits get ckv cfg head_c results =
     (case usize_add (tc_skip cfg) (tc_limit cfg) of
        Inl e \<Rightarrow> Some (Inl e)
      | Inr end_idx \<Rightarrow>
          lbind (traverse_loop get ckv cfg end_idx [head_c] {} 0 results) (\<lambda>(n, res).
            Some (Inr (case tc_known_total_count cfg of Some t \<Rightarrow> t | None \<Rightarrow> n, res))))"

section \<open>Listings\<close>

text \<open>Without a cache the operations of the count database are never asked.\<close>

definition list_recursive_paginated ::
  "commit_source \<Rightarrow> 'c count_kv \<Rightarrow> commit \<Rightarrow> nat \<Rightarrow> nat \<Rightarrow> commit option \<Rightarrow> nat option \<Rightarrow> (commit list \<times> nat) loop" where
  "list_recursive_paginated get ckv head_c skip limit stop_at_base known_total_count =
     lbind (traverse_commits get ckv
        \<lparr>tc_stop_at_base = stop_at_base, tc_skip = skip, tc_limit = limit, tc_cache_db = None,
         tc_known_total_count = known_total_count\<rparr> head_c (Some []))
       (\<lambda>(total_count, results). Some (Inr (case results of Some rs \<Rightarrow> rs | None \<Rightarrow> [], total_count)))"

definition commits_list :: "commit_source \<Rightarrow> 'c count_kv \<Rightarrow> 'd ref_kv \<Rightarrow> 'd refs \<Rightarrow> commit list loop" where
  "commits_list get ckv kv rs =
     lbind (Some (head_commit_maybe get kv rs)) (\<lambda>r.
       case r of
         None \<Rightarrow> Some (Inr [])
       | Some commit \<Rightarrow>
           lbind (list_recursive_paginated get ckv commit 0 usize_max None None) (\<lambda>(results, _). Some (Inr results)))"

definition list_between :: "commit_source \<Rightarrow> 'c count_kv \<Rightarrow> commit \<Rightarrow> commit \<Rightarrow> commit list loop" where
  "list_between get ckv base head =
     lbind (list_recursive_paginated get ckv head 0 usize_max (Some base) None) (\<lambda>(results, _). Some (Inr results))"

interpretation commit_keys: keyed_hash_set commit_eq commit_eq cm_id
  by unfold_locales (auto simp: commit_eq_def)

definition list_all_recursive :: "commit_source \<Rightarrow> 'c count_kv \<Rightarrow> commit \<Rightarrow> commit list \<Rightarrow> commit list loop" where
  "list_all_recursive get ckv commit commits =
     lbind (traverse_commits get ckv
        \<lparr>tc_stop_at_base = None, tc_skip = 0, tc_limit = usize_max, tc_cache_db = None, tc_known_total_count = None\<rparr>
        commit (Some []))
       (\<lambda>(_, results). Some (Inr (extend_by commit_eq (case results of Some rs \<Rightarrow> rs | None \<Rightarrow> []) commits)))"

definition list_all :: "commit_source \<Rightarrow> 'c count_kv \<Rightarrow> 'd ref_kv \<Rightarrow> 'd refs \<Rightarrow> commit list loop" where
  "list_all get ckv kv rs =
     lfold (\<lambda>branch commits.
       lbind (Some (get_by_id get (br_commit_id branch))) (\<lambda>r.
         case r of None \<Rightarrow> Some (Inr commits) | Some commit \<Rightarrow> list_all_recursive get ckv commit commits))
       (list_branches kv rs) []"

text \<open>The commits of the page on the chain of first parents.\<close>

partial_function (option) forward_loop :: "commit_source \<Rightarrow> nat \<Rightarrow> nat \<Rightarrow> commit option \<Rightarrow> nat \<Rightarrow> commit list \<Rightarrow> commit list loop" where
  "forward_loop get skip end_idx current n results =
     (case current of
        None \<Rightarrow> Some (Inr results)
      | Some commit \<Rightarrow>
          (let results' = (if skip \<le> n \<and> n < end_idx then results @ [commit] else results) in
           if end_idx \<le> n + 1 then Some (Inr results')
           else (case cm_parent_ids commit of
                   [] \<Rightarrow> forward_loop get skip end_idx None (n + 1) results'
                 | pid # _ \<Rightarrow>
                     (case rbind (merkle_hash_from_str pid) get of
                        Inl e \<Rightarrow> Some (Inl e)
                      | Inr parent \<Rightarrow> forward_loop get skip end_idx parent (n + 1) results'))))"

definition list_forward_paginated :: "commit_source \<Rightarrow> commit \<Rightarrow> nat \<Rightarrow> nat \<Rightarrow> commit list loop" where
  "list_forward_paginated get head_c skip limit =
     (case usize_add skip limit of
        Inl e \<Rightarrow> Some (Inl e)
      | Inr end_idx \<Rightarrow> forward_loop get skip end_idx (Some head_c) 0 [])"

text \<open>\<open>count_from\<close> with the count database it leaves behind.\<close>

definition count_from ::
  "commit_source \<Rightarrow> 'c count_kv \<Rightarrow> 'd ref_kv \<Rightarrow> 'd refs \<Rightarrow> string \<Rightarrow> 'c \<Rightarrow> ((nat \<times> bool) \<times> 'c) loop" where
  "count_from get ckv kv rs revision db =
     lbind (Some (rbind (revision_get get kv rs revision) (ok_or (RevisionNotFound revision)))) (\<lambda>commit.
       case get_cached_count ckv db (cm_id commit) of
         Some cached_count \<Rightarrow> Some (Inr ((cached_count, True), db))
       | None \<Rightarrow>
           lbind (traverse_commits get ckv
              \<lparr>tc_stop_at_base = None, tc_skip = 0, tc_limit = usize_max, tc_cache_db = Some db, tc_known_total_count = None\<rparr>
              commit None)
             (\<lambda>(n, _). Some (Inr ((n, False), cache_count ckv (cm_id commit) n db))))"

text \<open>\<open>split\<close> of a text at two dots, from the left.\<close>

fun split_dots :: "string \<Rightarrow> string list" where
  "split_dots [] = [[]]"
| "split_dots [c] = [[c]]"
| "split_dots (c # d # cs) =
     (if c = CHR ''.'' \<and> d = CHR ''.'' then [] # split_dots cs
      else case split_dots (d # cs) of p # ps \<Rightarrow> (c # p) # ps | [] \<Rightarrow> [[c]])"

definition list_from_paginated_impl ::
  "commit_source \<Rightarrow> 'c count_kv \<Rightarrow> 'd ref_kv \<Rightarrow> 'd refs \<Rightarrow> string \<Rightarrow> nat \<Rightarrow> nat \<Rightarrow> 'c \<Rightarrow> ((commit list \<times> nat \<times> bool) \<times> 'c) loop" where
  "list_from_paginated_impl get ckv kv rs revision skip limit db =
     (if str_contains ''..'' revision
      then (let base = split_dots revision ! 0; head = split_dots revision ! 1 in
        lbind (Some (rbind (get_by_id get base) (ok_or (RevisionNotFound base)))) (\<lambda>base_commit.
        lbind (Some (rbind (get_by_id get head) (ok_or (RevisionNotFound head)))) (\<lambda>head_c.
        lbind (list_recursive_paginated get ckv head_c skip limit (Some base_commit) None) (\<lambda>(commits, total_count).
          Some (Inr ((commits, total_count, False), db))))))
      else lbind (Some (revision_get get kv rs revision)) (\<lambda>r.
        case r of
          None \<Rightarrow> Some (Inr (([], 0, False), db))
        | Some commit \<Rightarrow>
            lbind (count_from get ckv kv rs (cm_id commit) db) (\<lambda>((total_count, cached), db').
            lbind (Some (usize_add skip limit)) (\<lambda>end_idx.
              if end_idx \<le> 10
              then lbind (list_forward_paginated get commit skip limit) (\<lambda>commits.
                     Some (Inr ((commits, total_count, cached), db')))
              else lbind (list_recursive_paginated get ckv commit skip limit None (Some total_count)) (\<lambda>(commits, _).
                     Some (Inr ((commits, total_count, cached), db')))))))"

definition list_from ::
  "commit_source \<Rightarrow> 'c count_kv \<Rightarrow> 'd ref_kv \<Rightarrow> 'd refs \<Rightarrow> string \<Rightarrow> 'c \<Rightarrow> (commit list \<times> 'c) loop" where
  "list_from get ckv kv rs revision db =
     lbind (list_from_paginated_impl get ckv kv rs revision 0 usize_max db) (\<lambda>((commits, _, _), db').
       Some (Inr (commits, db')))"

section \<open>Depths\<close>

text \<open>\<open>HashMap<Commit, usize>\<close>: keyed by the id; \<open>insert\<close> on a known id keeps the commit and changes the depth.\<close>

type_synonym depth_map = "(string, commit \<times> nat) hash_map"

definition depth_insert :: "commit \<Rightarrow> nat \<Rightarrow> depth_map \<Rightarrow> depth_map" where
  "depth_insert commit depth m =
     AList.update (cm_id commit) (case map_of m (cm_id commit) of Some (c, _) \<Rightarrow> c | None \<Rightarrow> commit, depth) m"

fun push_parents_at :: "commit_source \<Rightarrow> nat \<Rightarrow> string list \<Rightarrow> (commit \<times> nat) list \<Rightarrow> (commit \<times> nat) list res" where
  "push_parents_at get depth [] stack = Inr stack"
| "push_parents_at get depth (pid # pids) stack =
     rbind (merkle_hash_from_str pid) (\<lambda>h.
     rbind (get h) (\<lambda>r.
       push_parents_at get depth pids (case r of Some c \<Rightarrow> (c, depth) # stack | None \<Rightarrow> stack)))"

partial_function (option) depth_loop :: "commit_source \<Rightarrow> (commit \<times> nat) list \<Rightarrow> depth_map \<Rightarrow> depth_map loop" where
  "depth_loop get stack results =
     (case stack of
        [] \<Rightarrow> Some (Inr results)
      | (current, depth) # rest \<Rightarrow>
          if (case map_of results (cm_id current) of Some (_, existing) \<Rightarrow> existing \<le> depth | None \<Rightarrow> False)
          then depth_loop get rest results
          else (case push_parents_at get (depth + 1) (cm_parent_ids current) rest of
                  Inl e \<Rightarrow> Some (Inl e)
                | Inr stack' \<Rightarrow> depth_loop get stack' (depth_insert current depth results)))"

definition list_recursive_with_depth :: "commit_source \<Rightarrow> commit \<Rightarrow> depth_map \<Rightarrow> nat \<Rightarrow> depth_map loop" where
  "list_recursive_with_depth get commit results depth = depth_loop get [(commit, depth)] results"

definition list_from_with_depth :: "commit_source \<Rightarrow> 'd ref_kv \<Rightarrow> 'd refs \<Rightarrow> string \<Rightarrow> depth_map loop" where
  "list_from_with_depth get kv rs revision =
     lbind (Some (revision_get get kv rs revision)) (\<lambda>r.
       case r of None \<Rightarrow> Some (Inr []) | Some commit \<Rightarrow> list_recursive_with_depth get commit [] 0)"

text \<open>
  The common ancestor: the loop over the map of the merge side keeps the first commit of a
  smaller depth on the base side. \<open>order\<close> is the order in which the two maps are iterated.
\<close>

definition lca_step :: "depth_map \<Rightarrow> commit \<times> nat \<Rightarrow> (bool \<times> nat \<times> commit) \<Rightarrow> (bool \<times> nat \<times> commit)" where
  "lca_step from_head = (\<lambda>(commit, _) (found, min_depth, lca).
     (case map_of from_head (cm_id commit) of
        Some (_, depth) \<Rightarrow> (if depth < min_depth then (True, depth, commit) else (True, min_depth, lca))
      | None \<Rightarrow> (found, min_depth, lca)))"

definition lowest_common_ancestor_from_commits ::
  "((commit \<times> nat) list \<Rightarrow> (commit \<times> nat) list) \<Rightarrow> commit_source \<Rightarrow> 'd ref_kv \<Rightarrow> 'd refs \<Rightarrow> commit \<Rightarrow> commit \<Rightarrow> commit option loop" where
  "lowest_common_ancestor_from_commits order get kv rs base_commit merge_commit =
     lbind (list_from_with_depth get kv rs (cm_id base_commit)) (\<lambda>from_head.
     lbind (list_from_with_depth get kv rs (cm_id merge_commit)) (\<lambda>from_merge.
       case order (map snd from_head) of
         [] \<Rightarrow> Some (Inl (Panic ''unwrap''))
       | (first, _) # _ \<Rightarrow>
           (case fold (lca_step from_head) (order (map snd from_merge)) (False, usize_max, first) of
              (found, _, lca) \<Rightarrow> Some (Inr (if found then Some lca else None)))))"

section \<open>Single commits\<close>

fun older_of :: "commit option \<Rightarrow> commit \<Rightarrow> commit option" where
  "older_of None c = Some c"
| "older_of (Some l) c = (if cm_timestamp c < cm_timestamp l then Some c else Some l)"

definition latest_commit :: "commit_source \<Rightarrow> 'd ref_kv \<Rightarrow> 'd refs \<Rightarrow> commit res" where
  "latest_commit get kv rs =
     rbind (rfold (\<lambda>branch latest.
         rbind (get_by_id get (br_commit_id branch)) (\<lambda>r.
           Inr (case r of None \<Rightarrow> latest | Some commit \<Rightarrow> older_of latest commit)))
       (list_branches kv rs) None) (ok_or NoCommitsFound)"

partial_function (option) root_loop :: "commit_source \<Rightarrow> merkle_hash \<Rightarrow> string set \<Rightarrow> commit loop" where
  "root_loop get current_id seen =
     (if merkle_hash_to_string current_id \<in> seen then Some (Inl (Basic ''Cycle detected in commit history''))
      else (case get current_id of
              Inl e \<Rightarrow> Some (Inl e)
            | Inr None \<Rightarrow> Some (Inl (Basic ''No root commit found''))
            | Inr (Some commit) \<Rightarrow>
                (case cm_parent_ids commit of
                   [] \<Rightarrow> Some (Inr commit)
                 | pid # _ \<Rightarrow>
                     (case merkle_hash_from_str pid of
                        Inl e \<Rightarrow> Some (Inl e)
                      | Inr h \<Rightarrow> root_loop get h (insert (merkle_hash_to_string current_id) seen)))))"

definition root_commit_recursive :: "commit_source \<Rightarrow> merkle_hash \<Rightarrow> commit loop" where
  "root_commit_recursive get commit_id = root_loop get commit_id {}"

definition root_commit_maybe :: "commit_source \<Rightarrow> 'd ref_kv \<Rightarrow> 'd refs \<Rightarrow> commit option loop" where
  "root_commit_maybe get kv rs =
     (case list_branches kv rs of
        [] \<Rightarrow> Some (Inr None)
      | branch # _ \<Rightarrow>
          lbind (Some (get_by_id get (br_commit_id branch))) (\<lambda>r.
            case r of
              None \<Rightarrow> Some (Inr None)
            | Some commit \<Rightarrow>
                lbind (Some (merkle_hash_from_str (cm_id commit))) (\<lambda>h.
                lbind (root_commit_recursive get h) (\<lambda>root. Some (Inr (Some root))))))"

end
