(* ===== verification/Commit_History_Props.thy ===== *)
theory Commit_History_Props
  imports Commit_History
begin

text \<open>
  What the walks over the commit graph compute. The interface \<open>commit_graph\<close> is what they need
  of a commit source: the ids of a commit that is read parse. It is interpreted on \<open>get_by_hash\<close>.
\<close>

section \<open>The graph\<close>

definition commit_parents :: "commit_source \<Rightarrow> commit \<Rightarrow> commit list" where
  "commit_parents get c =
     concat (map (\<lambda>pid. case rbind (merkle_hash_from_str pid) get of Inr (Some p) \<Rightarrow> [p] | _ \<Rightarrow> []) (cm_parent_ids c))"

definition parent_step :: "commit_source \<Rightarrow> (commit \<Rightarrow> bool) \<Rightarrow> (commit \<times> commit) set" where
  "parent_step get stop = {(c, p). \<not> stop c \<and> p \<in> set (commit_parents get c)}"

text \<open>What is reached from a commit through parents, without going past a commit that stops.\<close>

definition reach :: "commit_source \<Rightarrow> (commit \<Rightarrow> bool) \<Rightarrow> commit \<Rightarrow> commit set" where
  "reach get stop c = (parent_step get stop)\<^sup>* `` {c}"

definition ancestors :: "commit_source \<Rightarrow> commit \<Rightarrow> commit set" where
  "ancestors get c = reach get (\<lambda>_. False) c"

text \<open>
  A history that can be walked: finitely many ancestors, no two with one id, and the lookup of every
  parent succeeds. A parent may be absent, as in a shallow clone.
\<close>

definition history_ok :: "commit_source \<Rightarrow> commit \<Rightarrow> bool" where
  "history_ok get head \<longleftrightarrow> printed_ids head \<and> finite (ancestors get head) \<and> inj_on cm_id (ancestors get head) \<and>
     (\<forall>a \<in> ancestors get head. \<forall>h. merkle_hash_to_string h \<in> set (cm_parent_ids a) \<longrightarrow> (\<exists>r. get h = Inr r))"

lemma commit_parents_read: "p \<in> set (commit_parents get c) \<Longrightarrow> \<exists>h. get h = Inr (Some p)"
proof -
  assume "p \<in> set (commit_parents get c)"
  then obtain pid where "p \<in> set (case rbind (merkle_hash_from_str pid) get of Inr (Some p) \<Rightarrow> [p] | _ \<Rightarrow> [])"
    by (auto simp: commit_parents_def)
  then show ?thesis by (cases "merkle_hash_from_str pid") (auto split: sum.splits option.splits)
qed

lemma reach_refl [simp]: "c \<in> reach get stop c"
  by (simp add: reach_def)

lemma reach_step: "a \<in> reach get stop c \<Longrightarrow> \<not> stop a \<Longrightarrow> p \<in> set (commit_parents get a) \<Longrightarrow> p \<in> reach get stop c"
  unfolding reach_def parent_step_def by (auto intro: rtrancl_into_rtrancl)

lemma reach_least:
  assumes "c \<in> V" and "\<And>a p. a \<in> V \<Longrightarrow> \<not> stop a \<Longrightarrow> p \<in> set (commit_parents get a) \<Longrightarrow> p \<in> V"
  shows "reach get stop c \<subseteq> V"
proof
  fix a
  assume "a \<in> reach get stop c"
  then have "(c, a) \<in> (parent_step get stop)\<^sup>*" by (simp add: reach_def)
  then show "a \<in> V" by (induction) (use assms in \<open>auto simp: parent_step_def\<close>)
qed

lemma reach_ancestors: "reach get stop c \<subseteq> ancestors get c"
  unfolding ancestors_def by (rule reach_least) (auto intro: reach_step)

lemma new_parents:
  assumes "inj_on cm_id A" "X \<subseteq> A" "set ps \<subseteq> A"
  shows "set ps \<subseteq> X \<union> set (filter (\<lambda>p. cm_id p \<notin> cm_id ` X) ps)"
proof
  fix p
  assume p: "p \<in> set ps"
  show "p \<in> X \<union> set (filter (\<lambda>p. cm_id p \<notin> cm_id ` X) ps)"
  proof (cases "cm_id p \<in> cm_id ` X")
    case True
    moreover have "p \<in> A" using assms(3) p by (rule subsetD)
    ultimately have "p \<in> X" using inj_on_image_mem_iff [OF assms(1) _ assms(2)] by metis
    then show ?thesis by simp
  qed (use p in simp)
qed

section \<open>The heap\<close>

lemma heap_top_in: "heap_top m cs \<in> set (m # cs)"
  by (induction m cs rule: heap_top.induct) auto

lemma timestamped_cmp_less: "timestamped_cmp a b = Less \<Longrightarrow> cm_timestamp a \<le> cm_timestamp b"
  by (auto simp: timestamped_cmp_def ord_cmp_def split: if_splits)

lemma timestamped_cmp_not_less: "timestamped_cmp a b \<noteq> Less \<Longrightarrow> cm_timestamp b \<le> cm_timestamp a"
  by (auto simp: timestamped_cmp_def ord_cmp_def split: if_splits)

lemma heap_top_max: "x \<in> set (m # cs) \<Longrightarrow> cm_timestamp x \<le> cm_timestamp (heap_top m cs)"
proof (induction m cs arbitrary: x rule: heap_top.induct)
  case (2 m c cs)
  let ?m = "if timestamped_cmp m c = Less then c else m"
  have "cm_timestamp m \<le> cm_timestamp ?m" "cm_timestamp c \<le> cm_timestamp ?m"
    using timestamped_cmp_less timestamped_cmp_not_less by auto
  moreover have "cm_timestamp ?m \<le> cm_timestamp (heap_top ?m cs)" by (rule 2) simp
  moreover have "cm_timestamp y \<le> cm_timestamp (heap_top ?m cs)" if "y \<in> set cs" for y
    by (rule 2) (use that in simp)
  ultimately show ?case using 2(2) by fastforce
qed simp

lemma heap_pop_None [simp]: "heap_pop heap = None \<longleftrightarrow> heap = []"
  by (simp add: heap_pop_def Let_def split: list.splits)

lemma heap_pop_Nil [simp]: "heap_pop [] = None"
  by simp

lemma heap_pop_Some:
  assumes "heap_pop heap = Some (c, heap1)"
  shows "c \<in> set heap" "set heap = insert c (set heap1)" "length heap1 < length heap"
    "\<And>x. x \<in> set heap \<Longrightarrow> cm_timestamp x \<le> cm_timestamp c"
proof -
  obtain x xs where heap: "heap = x # xs" using assms by (cases heap) (auto simp: heap_pop_def)
  then have c: "c = heap_top x xs" and h1: "heap1 = remove1 c heap"
    using assms by (auto simp: heap_pop_def Let_def)
  show c_in: "c \<in> set heap" using heap_top_in [of x xs] heap c by simp
  have "set heap \<subseteq> insert c (set heap1)" using in_set_remove1 h1 by fastforce
  moreover have "set heap1 \<subseteq> set heap" using h1 by (simp add: set_remove1_subset)
  ultimately show "set heap = insert c (set heap1)" using c_in by auto
  have "length heap1 = length heap - 1" unfolding h1 by (simp only: length_remove1 c_in if_True)
  then show "length heap1 < length heap" unfolding heap by simp
  show "cm_timestamp y \<le> cm_timestamp c" if "y \<in> set heap" for y
    using heap_top_max [of y x xs] that heap c by simp
qed

section \<open>The traversal\<close>

text \<open>The page of a listing whose first commit has number \<open>n\<close>.\<close>

definition page_from :: "'c traversal_config \<Rightarrow> nat \<Rightarrow> nat \<Rightarrow> commit list \<Rightarrow> commit list" where
  "page_from cfg end_idx n cs = take (end_idx - max n (tc_skip cfg)) (drop (tc_skip cfg - n) cs)"

lemma page_from_Nil [simp]: "page_from cfg e n [] = []"
  by (simp add: page_from_def)

lemma page_from_Cons:
  "page_from cfg e n (c # cs) = (if tc_skip cfg \<le> n \<and> n < e then [c] else []) @ page_from cfg e (n + 1) cs"
  by (cases "tc_skip cfg \<le> n"; cases "n < e")
     (auto simp: page_from_def drop_Cons' take_Cons' max_def Suc_diff_le not_le not_less_eq_eq)

lemma page_from_end: "e \<le> n \<Longrightarrow> page_from cfg e n cs = []"
  by (simp add: page_from_def)

lemma collect_page_Cons:
  "map_option (\<lambda>rs. rs @ page_from cfg e (n + 1) cs) (collect_page cfg e c n results) =
   map_option (\<lambda>rs. rs @ page_from cfg e n (c # cs)) results"
  by (cases results) (auto simp: collect_page_def page_from_Cons)

lemma collect_page_None [simp]: "collect_page cfg e c n None = None"
  by (simp add: collect_page_def)

lemma collect_page_eq_None: "collect_page cfg e c n results = None \<longleftrightarrow> results = None"
  by (simp add: collect_page_def)

definition newest_first :: "commit list \<Rightarrow> bool" where
  "newest_first cs \<longleftrightarrow> sorted_wrt (\<lambda>a b. cm_timestamp b \<le> cm_timestamp a) cs"

definition parents_not_newer :: "commit_source \<Rightarrow> commit set \<Rightarrow> bool" where
  "parents_not_newer get A \<longleftrightarrow> (\<forall>a \<in> A. \<forall>p \<in> set (commit_parents get a). cm_timestamp p \<le> cm_timestamp a)"

text \<open>Newest first, and none newer than every pending commit.\<close>

definition newest_below :: "commit list \<Rightarrow> commit list \<Rightarrow> bool" where
  "newest_below heap cs \<longleftrightarrow> newest_first cs \<and> (\<forall>a \<in> set cs. \<exists>h \<in> set heap. cm_timestamp a \<le> cm_timestamp h)"

lemma newest_below_mono: "newest_below heap1 cs \<Longrightarrow> set heap1 \<subseteq> set heap \<Longrightarrow> newest_below heap cs"
  unfolding newest_below_def by blast

lemma newest_below_Cons:
  assumes "newest_below heap1 cs" "\<And>h. h \<in> set heap1 \<Longrightarrow> cm_timestamp h \<le> cm_timestamp c" "c \<in> set heap"
  shows "newest_below heap (c # cs)"
proof -
  have le: "cm_timestamp a \<le> cm_timestamp c" if a: "a \<in> set cs" for a
  proof -
    obtain h where "h \<in> set heap1" "cm_timestamp a \<le> cm_timestamp h"
      using assms(1) a by (auto simp: newest_below_def)
    then show ?thesis using assms(2) [of h] by simp
  qed
  then show ?thesis using assms(1,3) by (auto simp: newest_below_def newest_first_def)
qed

locale commit_graph =
  fixes get :: commit_source
  assumes get_printed: "get h = Inr (Some c) \<Longrightarrow> printed_ids c"
begin

lemma parents_printed: "p \<in> set (commit_parents get c) \<Longrightarrow> printed_ids p"
  using commit_parents_read get_printed by blast

lemma reach_printed: "printed_ids c \<Longrightarrow> a \<in> reach get stop c \<Longrightarrow> printed_ids a"
  using reach_least [of c "{a. printed_ids a}" stop get] parents_printed by blast

lemma push_parents_eq:
  assumes "\<forall>pid \<in> set pids. \<exists>r. rbind (merkle_hash_from_str pid) get = Inr r"
  shows "push_parents get visited pids stack =
     Inr (rev (filter (\<lambda>p. cm_id p \<notin> visited)
       (concat (map (\<lambda>pid. case rbind (merkle_hash_from_str pid) get of Inr (Some p) \<Rightarrow> [p] | _ \<Rightarrow> []) pids))) @ stack)"
  using assms
proof (induction pids arbitrary: stack)
  case (Cons pid pids)
  then obtain h r where "merkle_hash_from_str pid = Inr h" "get h = Inr r" by (auto simp: rbind_eq_Inr)
  then show ?case using Cons by (cases r) auto
qed simp

lemma parent_lookups:
  assumes "history_ok get head" "a \<in> ancestors get head"
  shows "\<forall>pid \<in> set (cm_parent_ids a). \<exists>r. rbind (merkle_hash_from_str pid) get = Inr r"
proof
  fix pid
  assume pid: "pid \<in> set (cm_parent_ids a)"
  have "printed_ids a" using reach_printed assms unfolding history_ok_def ancestors_def by blast
  then obtain h where "pid = merkle_hash_to_string h" using pid unfolding printed_ids_def by auto
  with pid assms show "\<exists>r. rbind (merkle_hash_from_str pid) get = Inr r" unfolding history_ok_def by auto
qed

lemma readable_parents:
  assumes "history_ok get head" "a \<in> ancestors get head"
  shows "push_parents get visited (cm_parent_ids a) stack =
     Inr (rev (filter (\<lambda>p. cm_id p \<notin> visited) (commit_parents get a)) @ stack)"
  unfolding commit_parents_def by (rule push_parents_eq [OF parent_lookups [OF assms]])

lemma history_ok_ancestor:
  assumes "history_ok get head" "c \<in> ancestors get head"
  shows "history_ok get c"
proof -
  have sub: "ancestors get c \<subseteq> ancestors get head"
    unfolding ancestors_def by (rule reach_least) (use assms(2) reach_step in \<open>auto simp: ancestors_def\<close>)
  have "printed_ids c" using reach_printed assms unfolding history_ok_def ancestors_def by blast
  moreover have "finite (ancestors get c)" "inj_on cm_id (ancestors get c)"
    using assms(1) sub unfolding history_ok_def by (metis finite_subset, metis inj_on_subset)
  ultimately show ?thesis using assms(1) sub unfolding history_ok_def by blast
qed

text \<open>
  The state of a walk in \<open>A\<close>: the commits \<open>V\<close> are visited, the rest of \<open>A\<close> is still to be reached
  from the pending commits.
\<close>

definition leads :: "(commit \<Rightarrow> bool) \<Rightarrow> commit set \<Rightarrow> commit set \<Rightarrow> bool" where
  "leads stop X Y \<longleftrightarrow> (\<forall>a \<in> X. \<not> stop a \<longrightarrow> set (commit_parents get a) \<subseteq> Y)"

definition spans :: "(commit \<Rightarrow> bool) \<Rightarrow> commit set \<Rightarrow> commit set \<Rightarrow> bool" where
  "spans stop X A \<longleftrightarrow> (\<forall>W. X \<subseteq> W \<longrightarrow> leads stop W W \<longrightarrow> A \<subseteq> W)"

definition frontier :: "(commit \<Rightarrow> bool) \<Rightarrow> commit set \<Rightarrow> commit set \<Rightarrow> commit set \<Rightarrow> bool" where
  "frontier stop A V pending \<longleftrightarrow> finite A \<and> inj_on cm_id A \<and> V \<union> pending \<subseteq> A \<and>
     leads stop V (V \<union> pending) \<and> leads stop A A \<and> spans stop (V \<union> pending) A"

lemma leadsD: "leads stop X Y \<Longrightarrow> a \<in> X \<Longrightarrow> \<not> stop a \<Longrightarrow> set (commit_parents get a) \<subseteq> Y"
  by (simp add: leads_def)

lemma leads_mono: "leads stop X Y \<Longrightarrow> Y \<subseteq> Z \<Longrightarrow> leads stop X Z"
  unfolding leads_def by blast

lemma leads_insert: "leads stop (insert c X) Y \<longleftrightarrow> leads stop X Y \<and> (\<not> stop c \<longrightarrow> set (commit_parents get c) \<subseteq> Y)"
  by (auto simp: leads_def)

lemma spans_mono: "spans stop X A \<Longrightarrow> X \<subseteq> Y \<Longrightarrow> spans stop Y A"
  unfolding spans_def by (meson subset_trans)

lemma frontier_done: "frontier stop A V {} \<Longrightarrow> V = A"
  unfolding frontier_def spans_def by (metis Un_empty_right order_refl subset_antisym)

lemma frontier_start:
  assumes "history_ok get head"
  shows "frontier stop (reach get stop head) {} {head}"
proof -
  have "finite (reach get stop head)" "inj_on cm_id (reach get stop head)"
    using assms reach_ancestors unfolding history_ok_def by (metis finite_subset, metis inj_on_subset)
  moreover have "spans stop {head} (reach get stop head)"
    unfolding spans_def
  proof (intro allI impI)
    fix W
    assume W: "{head} \<subseteq> W" "leads stop W W"
    show "reach get stop head \<subseteq> W"
    proof (rule reach_least)
      show "head \<in> W" using W(1) by simp
      show "p \<in> W" if "a \<in> W" "\<not> stop a" "p \<in> set (commit_parents get a)" for a p
        using leadsD [OF W(2) that(1,2)] that(3) by (rule subsetD)
    qed
  qed
  moreover have "leads stop (reach get stop head) (reach get stop head)"
    using reach_step by (auto simp: leads_def)
  ultimately show ?thesis by (simp add: frontier_def leads_def)
qed

lemma frontier_id: "frontier stop A V pending \<Longrightarrow> c \<in> A \<Longrightarrow> cm_id c \<in> cm_id ` V \<longleftrightarrow> c \<in> V"
  unfolding frontier_def by (meson Un_subset_iff inj_on_image_mem_iff)

lemma frontier_pending: "frontier stop A V (insert c pending) \<Longrightarrow> c \<in> A"
  by (simp add: frontier_def)

lemma frontier_skip: "frontier stop A V (insert c pending) \<Longrightarrow> c \<in> V \<Longrightarrow> frontier stop A V pending"
  by (simp add: frontier_def insert_absorb)

lemma frontier_stop: "frontier stop A V (insert c pending) \<Longrightarrow> stop c \<Longrightarrow> frontier stop A (insert c V) pending"
  by (simp add: frontier_def leads_insert)

lemma frontier_visit:
  assumes fr: "frontier stop A V (insert c pending)" and "\<not> stop c"
    and all: "set (commit_parents get c) \<subseteq> insert c V \<union> pending'" and sub: "pending \<subseteq> pending'"
    and new: "pending' \<subseteq> pending \<union> set (commit_parents get c)"
  shows "frontier stop A (insert c V) pending'"
proof -
  have "set (commit_parents get c) \<subseteq> A"
    using fr \<open>\<not> stop c\<close> leadsD frontier_pending unfolding frontier_def by metis
  then have "insert c V \<union> pending' \<subseteq> A" using fr new by (auto simp: frontier_def)
  moreover have old: "V \<union> insert c pending \<subseteq> insert c V \<union> pending'" using sub by auto
  then have "leads stop (insert c V) (insert c V \<union> pending')"
    using fr all leads_mono unfolding frontier_def leads_insert by metis
  moreover have "spans stop (insert c V \<union> pending') A"
    using fr old spans_mono unfolding frontier_def by metis
  ultimately show ?thesis using fr unfolding frontier_def by simp
qed

lemma card_less: "frontier stop A V (insert c pending) \<Longrightarrow> c \<notin> V \<Longrightarrow> card (A - insert c V) < card (A - V)"
proof -
  assume fr: "frontier stop A V (insert c pending)" and "c \<notin> V"
  then have "A - insert c V \<subset> A - V" using frontier_pending by auto
  moreover have "finite (A - V)" using fr by (simp add: frontier_def)
  ultimately show ?thesis by (metis psubset_card_mono)
qed

end

section \<open>Listings\<close>

text \<open>The loop lists \<open>cs\<close> from a state, whatever the page and the known total.\<close>

definition visits :: "commit_source \<Rightarrow> 'c count_kv \<Rightarrow> (commit \<Rightarrow> bool) \<Rightarrow> commit list \<Rightarrow> string set \<Rightarrow> commit list \<Rightarrow> bool" where
  "visits get ckv stop heap visited cs \<longleftrightarrow>
     (\<forall>cfg e n results. tc_cache_db cfg = None \<longrightarrow> is_stop cfg = stop \<longrightarrow>
        (\<exists>m. traverse_loop get ckv cfg e heap visited n results =
              Some (Inr (m, map_option (\<lambda>rs. rs @ page_from cfg e n cs) results)) \<and>
             (tc_known_total_count cfg = None \<longrightarrow> m = n + length cs)))"

lemma visitsD:
  assumes "visits get ckv stop heap visited cs" "tc_cache_db cfg = None" "is_stop cfg = stop"
  shows "\<exists>m. traverse_loop get ckv cfg e heap visited n results =
              Some (Inr (m, map_option (\<lambda>rs. rs @ page_from cfg e n cs) results)) \<and>
             (tc_known_total_count cfg = None \<longrightarrow> m = n + length cs)"
  using assms unfolding visits_def by blast

lemma visits_Nil: "visits get ckv stop [] visited []"
  by (simp add: visits_def traverse_loop.simps [of _ _ _ _ "[]"] option.map_ident)

lemma visits_skip:
  assumes "heap_pop heap = Some (c, heap1)" "cm_id c \<in> visited" "visits get ckv stop heap1 visited cs"
  shows "visits get ckv stop heap visited cs"
  unfolding visits_def
  by (subst traverse_loop.simps) (use assms in \<open>simp add: visitsD\<close>)

lemma visits_stop:
  assumes pop: "heap_pop heap = Some (c, heap1)" "cm_id c \<notin> visited" "stop c"
    and rest: "visits get ckv stop heap1 (insert (cm_id c) visited) cs"
  shows "visits get ckv stop heap visited (c # cs)"
  unfolding visits_def
proof (intro allI impI)
  fix cfg :: "'a traversal_config" and e n results
  assume cfg: "tc_cache_db cfg = None" "is_stop cfg = stop"
  show "\<exists>m. traverse_loop get ckv cfg e heap visited n results =
        Some (Inr (m, map_option (\<lambda>rs. rs @ page_from cfg e n (c # cs)) results)) \<and>
       (tc_known_total_count cfg = None \<longrightarrow> m = n + length (c # cs))"
    using visitsD [OF rest cfg, of e "n + 1" "collect_page cfg e c n results"] pop cfg
    by (subst traverse_loop.simps) (simp add: collect_page_Cons [of cfg e n, simplified])
qed

lemma visits_visit:
  assumes pop: "heap_pop heap = Some (c, heap1)" "cm_id c \<notin> visited" "\<not> stop c"
    and push: "push_parents get (insert (cm_id c) visited) (cm_parent_ids c) heap1 = Inr heap2"
    and rest: "visits get ckv stop heap2 (insert (cm_id c) visited) cs"
  shows "visits get ckv stop heap visited (c # cs)"
  unfolding visits_def
proof (intro allI impI)
  fix cfg :: "'a traversal_config" and e n results
  assume cfg: "tc_cache_db cfg = None" "is_stop cfg = stop"
  have not_cached: "\<not> is_cached ckv cfg c" using cfg by (simp add: is_cached_def)
  show "\<exists>m. traverse_loop get ckv cfg e heap visited n results =
        Some (Inr (m, map_option (\<lambda>rs. rs @ page_from cfg e n (c # cs)) results)) \<and>
       (tc_known_total_count cfg = None \<longrightarrow> m = n + length (c # cs))"
  proof (cases "tc_known_total_count cfg \<noteq> None \<and> results \<noteq> None \<and> e \<le> n + 1")
    case True
    then have "map_option (\<lambda>rs. rs @ page_from cfg e n (c # cs)) results = collect_page cfg e c n results"
      using collect_page_Cons [of cfg e n cs c results] by (simp add: page_from_end option.map_ident)
    with True show ?thesis using pop cfg not_cached by (subst traverse_loop.simps) auto
  next
    case False
    then show ?thesis
      using visitsD [OF rest cfg, of e "n + 1" "collect_page cfg e c n results"] pop cfg push not_cached
      by (subst traverse_loop.simps) (auto simp: collect_page_Cons [of cfg e n, simplified])
  qed
qed

context commit_graph
begin

lemma visits_all:
  assumes "history_ok get head" "A \<subseteq> ancestors get head" "frontier stop A V (set heap)"
  shows "\<exists>cs. distinct cs \<and> set cs = A - V \<and> visits get ckv stop heap (cm_id ` V) cs \<and>
     (parents_not_newer get A \<longrightarrow> newest_below heap cs)"
  using assms(3)
proof (induction "(heap, V)" arbitrary: heap V
    rule: wf_induct_rule [OF wf_measures, of "[\<lambda>(_, V). card (A - V), \<lambda>(h, _). length h]"])
  case (1 heap V)
  note IH = 1(1) and fr = 1(2)
  show ?case
  proof (cases "heap_pop heap")
    case None
    then have "heap = []" by simp
    then have "V = A" using fr frontier_done by simp
    then show ?thesis using \<open>heap = []\<close> visits_Nil by (auto simp: newest_below_def newest_first_def)
  next
    case (Some p)
    obtain c heap1 where p: "heap_pop heap = Some (c, heap1)" using Some by (cases p) auto
    note pop = heap_pop_Some [OF p]
    have fr': "frontier stop A V (insert c (set heap1))" using fr pop(2) by simp
    then have c: "c \<in> A" by (rule frontier_pending)
    have vis: "cm_id c \<in> cm_id ` V \<longleftrightarrow> c \<in> V" by (rule frontier_id [OF fr c])
    have ins: "cm_id ` insert c V = insert (cm_id c) (cm_id ` V)" by simp
    show ?thesis
    proof (cases "c \<in> V")
      case True
      have "((heap1, V), (heap, V)) \<in> measures [\<lambda>(_, V). card (A - V), \<lambda>(h, _). length h]"
        using pop(3) by simp
      from IH [OF this frontier_skip [OF fr' True]] obtain cs where
        cs: "distinct cs" "set cs = A - V" "visits get ckv stop heap1 (cm_id ` V) cs"
          "parents_not_newer get A \<Longrightarrow> newest_below heap1 cs"
        by (elim exE conjE) blast
      have "visits get ckv stop heap (cm_id ` V) cs" using visits_skip [OF p _ cs(3)] True by simp
      moreover have "newest_below heap cs" if "parents_not_newer get A"
        by (rule newest_below_mono [OF cs(4) [OF that]]) (use pop(2) in auto)
      ultimately show ?thesis using cs(1,2) by (intro exI [of _ cs]) simp
    next
      case False
      have less: "((h, insert c V), (heap, V)) \<in> measures [\<lambda>(_, V). card (A - V), \<lambda>(h, _). length h]" for h
        using card_less [OF fr' False] by simp
      show ?thesis
      proof (cases "stop c")
        case True
        from IH [OF less frontier_stop [OF fr' True]] obtain cs where
          cs: "distinct cs" "set cs = A - insert c V" "visits get ckv stop heap1 (insert (cm_id c) (cm_id ` V)) cs"
            "parents_not_newer get A \<Longrightarrow> newest_below heap1 cs"
          unfolding ins by (elim exE conjE) blast
        have "visits get ckv stop heap (cm_id ` V) (c # cs)"
          using visits_stop [OF p _ True cs(3)] False vis by simp
        moreover have "distinct (c # cs)" "set (c # cs) = A - V" using cs(1,2) False c by auto
        moreover have "newest_below heap (c # cs)" if mono: "parents_not_newer get A"
          by (rule newest_below_Cons [OF cs(4) [OF mono] _ pop(1)]) (use pop(2,4) in auto)
        ultimately show ?thesis by (intro exI [of _ "c # cs"]) simp
      next
        case nostop: False
        let ?new = "rev (filter (\<lambda>p. cm_id p \<notin> cm_id ` insert c V) (commit_parents get c))"
        have push: "push_parents get (insert (cm_id c) (cm_id ` V)) (cm_parent_ids c) heap1 = Inr (?new @ heap1)"
          using readable_parents [OF assms(1)] c assms(2) unfolding ins by blast
        have parents: "set (commit_parents get c) \<subseteq> A"
          using fr c nostop leadsD unfolding frontier_def by metis
        have "set (commit_parents get c) \<subseteq> insert c V \<union> set (?new @ heap1)"
          using new_parents [OF _ _ parents, of "insert c V"] fr c by (auto simp: frontier_def)
        then have "frontier stop A (insert c V) (set (?new @ heap1))"
          by (rule frontier_visit [OF fr' nostop]) auto
        from IH [OF less this] obtain cs where
          cs: "distinct cs" "set cs = A - insert c V" "visits get ckv stop (?new @ heap1) (insert (cm_id c) (cm_id ` V)) cs"
            "parents_not_newer get A \<Longrightarrow> newest_below (?new @ heap1) cs"
          unfolding ins by (elim exE conjE) blast
        have "visits get ckv stop heap (cm_id ` V) (c # cs)"
          using visits_visit [OF p _ nostop push cs(3)] False vis by simp
        moreover have "distinct (c # cs)" "set (c # cs) = A - V" using cs(1,2) False c by auto
        moreover have "newest_below heap (c # cs)" if mono: "parents_not_newer get A"
          by (rule newest_below_Cons [OF cs(4) [OF mono] _ pop(1)])
             (use pop(2,4) mono c in \<open>auto simp: parents_not_newer_def\<close>)
        ultimately show ?thesis by (intro exI [of _ "c # cs"]) simp
      qed
    qed
  qed
qed

end

context commit_graph
begin

text \<open>One order for all pages of a listing.\<close>

lemma listing:
  assumes "history_ok get head"
  obtains cs where "distinct cs" "set cs = reach get (\<lambda>c. case base of Some b \<Rightarrow> cm_id c = cm_id b | None \<Rightarrow> False) head"
    "parents_not_newer get (ancestors get head) \<Longrightarrow> newest_first cs"
    "\<And>skip limit known. skip + limit \<le> usize_max \<Longrightarrow>
       list_recursive_paginated get ckv head skip limit base known =
       Some (Inr (take limit (drop skip cs), case known of Some t \<Rightarrow> t | None \<Rightarrow> length cs))"
proof -
  let ?stop = "\<lambda>c. case base of Some b \<Rightarrow> cm_id c = cm_id b | None \<Rightarrow> False"
  let ?A = "reach get ?stop head"
  have fr: "frontier ?stop ?A {} (set [head])" using frontier_start [OF assms] by simp
  obtain cs where cs: "distinct cs" "set cs = ?A" "visits get ckv ?stop [head] {} cs"
    and nf: "parents_not_newer get ?A \<Longrightarrow> newest_below [head] cs"
    using visits_all [OF assms reach_ancestors fr, of ckv] unfolding Diff_empty image_empty
    by (elim exE conjE) blast
  have "list_recursive_paginated get ckv head skip limit base known =
       Some (Inr (take limit (drop skip cs), case known of Some t \<Rightarrow> t | None \<Rightarrow> length cs))"
    if "skip + limit \<le> usize_max" for skip limit known
  proof -
    let ?cfg = "\<lparr>tc_stop_at_base = base, tc_skip = skip, tc_limit = limit, tc_cache_db = None,
         tc_known_total_count = known\<rparr> :: 'a traversal_config"
    have "is_stop ?cfg = ?stop" by (simp add: is_stop_def fun_eq_iff)
    from visitsD [OF cs(3) _ this, of "skip + limit" 0 "Some []"] obtain m where
      m: "traverse_loop get ckv ?cfg (skip + limit) [head] {} 0 (Some []) =
         Some (Inr (m, Some (take limit (drop skip cs))))" "known = None \<longrightarrow> m = length cs"
      by (auto simp: page_from_def)
    with that show ?thesis
      by (cases known) (simp_all add: list_recursive_paginated_def traverse_commits_def usize_add_def)
  qed
  moreover have "newest_first cs" if "parents_not_newer get (ancestors get head)"
  proof -
    have "parents_not_newer get ?A" using that reach_ancestors unfolding parents_not_newer_def by blast
    then show ?thesis using nf by (simp add: newest_below_def)
  qed
  ultimately show thesis using cs(1,2) by (intro that [of cs])
qed

lemma mark_loop_all:
  assumes "history_ok get head" "A \<subseteq> ancestors get head"
    and "V \<union> set stack \<subseteq> A" "leads (\<lambda>_. False) A A" "finite A"
  shows "\<exists>W. V \<union> set stack \<subseteq> W \<and> W \<subseteq> A \<and> leads (\<lambda>_. False) (W - V) W \<and>
     mark_loop get stack (cm_id ` V) n = Some (Inr (n + card (W - V), cm_id ` W))"
  using assms(3)
proof (induction "(stack, V)" arbitrary: stack V n
    rule: wf_induct_rule [OF wf_measures, of "[\<lambda>(_, V). card (A - V), \<lambda>(s, _). length s]"])
  case (1 stack V)
  note IH = 1(1) and sub = 1(2)
  have inj: "inj_on cm_id A" using assms(1,2) unfolding history_ok_def by (metis inj_on_subset)
  show ?case
  proof (cases stack)
    case Nil
    then show ?thesis using sub by (intro exI [of _ V]) (simp add: leads_def mark_loop.simps [of _ "[]"])
  next
    case (Cons c rest)
    have c: "c \<in> A" using sub Cons by simp
    have vis: "cm_id c \<in> cm_id ` V \<longleftrightarrow> c \<in> V" using inj_on_image_mem_iff [OF inj c] sub by simp
    show ?thesis
    proof (cases "c \<in> V")
      case True
      have "((rest, V), (stack, V)) \<in> measures [\<lambda>(_, V). card (A - V), \<lambda>(s, _). length s]"
        using Cons by simp
      moreover have "V \<union> set rest \<subseteq> A" using sub Cons by auto
      ultimately have "\<exists>W. V \<union> set rest \<subseteq> W \<and> W \<subseteq> A \<and> leads (\<lambda>_. False) (W - V) W \<and>
          mark_loop get rest (cm_id ` V) n = Some (Inr (n + card (W - V), cm_id ` W))"
        by (rule IH)
      then obtain W where
        W: "V \<union> set rest \<subseteq> W" "W \<subseteq> A" "leads (\<lambda>_. False) (W - V) W"
          "mark_loop get rest (cm_id ` V) n = Some (Inr (n + card (W - V), cm_id ` W))"
        by (elim exE conjE) blast
      have "mark_loop get stack (cm_id ` V) n = mark_loop get rest (cm_id ` V) n"
        using True vis by (subst mark_loop.simps) (simp add: Cons)
      moreover have "V \<union> set stack \<subseteq> W" using W(1) True Cons by auto
      ultimately show ?thesis using W(2,3,4) by (intro exI [of _ W]) simp
    next
      case False
      have fin: "finite (A - V)" using assms(5) by simp
      have "A - insert c V \<subset> A - V" using False c by auto
      then have "card (A - insert c V) < card (A - V)" using fin by (metis psubset_card_mono)
      then have less: "((s, insert c V), (stack, V)) \<in> measures [\<lambda>(_, V). card (A - V), \<lambda>(s, _). length s]" for s
        by simp
      let ?new = "rev (filter (\<lambda>p. cm_id p \<notin> cm_id ` insert c V) (commit_parents get c))"
      have push: "push_parents get (insert (cm_id c) (cm_id ` V)) (cm_parent_ids c) rest = Inr (?new @ rest)"
        using readable_parents [OF assms(1) subsetD [OF assms(2) c], of "cm_id ` insert c V" rest] by simp
      have parents: "set (commit_parents get c) \<subseteq> A" using leadsD [OF assms(4) c] by simp
      moreover have "set ?new \<subseteq> set (commit_parents get c)" by auto
      ultimately have "insert c V \<union> set (?new @ rest) \<subseteq> A" using sub unfolding Cons set_append by auto
      from IH [OF less this, of "n + 1"] obtain W where
        W: "insert c V \<union> set (?new @ rest) \<subseteq> W" "W \<subseteq> A" "leads (\<lambda>_. False) (W - insert c V) W"
          "mark_loop get (?new @ rest) (cm_id ` insert c V) (n + 1) =
            Some (Inr (n + 1 + card (W - insert c V), cm_id ` W))"
        by (elim exE conjE) blast
      have "mark_loop get stack (cm_id ` V) n = mark_loop get (?new @ rest) (cm_id ` insert c V) (n + 1)"
        using False vis push by (subst mark_loop.simps) (simp add: Cons)
      moreover have "n + 1 + card (W - insert c V) = n + card (W - V)"
      proof -
        have "W - V = insert c (W - insert c V)" using W(1) False by auto
        moreover have "finite (W - insert c V)" using finite_subset [OF W(2) assms(5)] by simp
        ultimately have "card (W - V) = Suc (card (W - insert c V))" by (metis card_insert_disjoint DiffE insertI1)
        then show ?thesis by simp
      qed
      moreover have "set (commit_parents get c) \<subseteq> W"
        using new_parents [OF inj _ parents, of "insert c V"] W(1) c sub by auto
      then have "leads (\<lambda>_. False) (insert c (W - insert c V)) W"
        using W(3) by (simp add: leads_insert)
      then have "leads (\<lambda>_. False) (W - V) W" unfolding leads_def by blast
      moreover have "V \<union> set stack \<subseteq> W" using W(1) Cons by auto
      ultimately show ?thesis using W(2,4) by (intro exI [of _ W]) simp
    qed
  qed
qed

end

context commit_graph
begin

lemma frontier_jump:
  assumes fr: "frontier stop A V (insert c pending)" and W: "insert c V \<subseteq> W" "W \<subseteq> A"
    and parents: "set (commit_parents get c) \<subseteq> W" and new: "leads stop (W - insert c V) W"
  shows "frontier stop A W pending"
proof -
  have old: "V \<union> insert c pending \<subseteq> W \<union> pending" using W(1) by auto
  then have "leads stop V (W \<union> pending)" using fr leads_mono unfolding frontier_def by metis
  moreover have "leads stop (W - insert c V) (W \<union> pending)" by (rule leads_mono [OF new]) simp
  ultimately have "leads stop W (W \<union> pending)" using parents unfolding leads_def by blast
  moreover have "spans stop (W \<union> pending) A" using fr old spans_mono unfolding frontier_def by metis
  ultimately show ?thesis using fr W(2) by (simp add: frontier_def)
qed

text \<open>A cached count only changes the order in which the ancestors are counted.\<close>

lemma traverse_loop_count:
  assumes hist: "history_ok get head" "A \<subseteq> ancestors get head"
    and cfg: "tc_known_total_count cfg = None" "tc_stop_at_base cfg = None"
    and "frontier (\<lambda>_. False) A V (set heap)"
  shows "traverse_loop get ckv cfg e heap (cm_id ` V) n None = Some (Inr (n + card (A - V), None))"
  using assms(5)
proof (induction "(heap, V)" arbitrary: heap V n
    rule: wf_induct_rule [OF wf_measures, of "[\<lambda>(_, V). card (A - V), \<lambda>(h, _). length h]"])
  case (1 heap V)
  note IH = 1(1) and fr = 1(2)
  show ?case
  proof (cases "heap_pop heap")
    case None
    then have "heap = []" by simp
    then have "V = A" using fr frontier_done by simp
    then show ?thesis using \<open>heap = []\<close> by (simp add: traverse_loop.simps [of _ _ _ _ "[]"])
  next
    case (Some p)
    obtain c heap1 where p: "heap_pop heap = Some (c, heap1)" using Some by (cases p) auto
    note pop = heap_pop_Some [OF p]
    have fr': "frontier (\<lambda>_. False) A V (insert c (set heap1))" using fr pop(2) by simp
    then have c: "c \<in> A" by (rule frontier_pending)
    have vis: "cm_id c \<in> cm_id ` V \<longleftrightarrow> c \<in> V" by (rule frontier_id [OF fr c])
    have nostop: "\<not> is_stop cfg c" using cfg by (simp add: is_stop_def)
    show ?thesis
    proof (cases "c \<in> V")
      case True
      have "((heap1, V), (heap, V)) \<in> measures [\<lambda>(_, V). card (A - V), \<lambda>(h, _). length h]"
        using pop(3) by simp
      from IH [OF this frontier_skip [OF fr' True]] show ?thesis
        using p True vis by (subst traverse_loop.simps) simp
    next
      case False
      have fin: "finite A" "inj_on cm_id A" "insert c V \<subseteq> A" using fr c by (auto simp: frontier_def)
      have less: "((h, W), (heap, V)) \<in> measures [\<lambda>(_, V). card (A - V), \<lambda>(h, _). length h]"
        if "insert c V \<subseteq> W" for h W
      proof -
        have "A - W \<subset> A - V" using that c False by auto
        moreover have "finite (A - V)" using fin(1) by simp
        ultimately have "card (A - W) < card (A - V)" by (metis psubset_card_mono)
        then show ?thesis by simp
      qed
      have one: "card (A - V) = 1 + card (A - insert c V)"
      proof -
        have "A - V = insert c (A - insert c V)" using c False by auto
        moreover have "finite (A - insert c V)" using fin(1) by simp
        ultimately have "card (A - V) = Suc (card (A - insert c V))" by (metis card_insert_disjoint DiffE insertI1)
        then show ?thesis by simp
      qed
      have closed: "leads (\<lambda>_. False) A A" using fr by (simp add: frontier_def)
      have parents: "set (commit_parents get c) \<subseteq> A" using leadsD [OF closed c] by simp
      let ?new = "rev (filter (\<lambda>p. cm_id p \<notin> cm_id ` insert c V) (commit_parents get c))"
      have push: "push_parents get (insert (cm_id c) (cm_id ` V)) (cm_parent_ids c) s = Inr (?new @ s)" for s
        using readable_parents [OF hist(1) subsetD [OF hist(2) c], of "cm_id ` insert c V" s] by simp
      have split: "set (commit_parents get c) \<subseteq> insert c V \<union> set ?new"
        using new_parents [OF fin(2,3) parents] by simp
      show ?thesis
      proof (cases "is_cached ckv cfg c")
        case True
        have "insert c V \<union> set ?new \<subseteq> A" using fin(3) parents by auto
        from mark_loop_all [OF hist this closed fin(1), of 0] obtain W where
          W: "insert c V \<union> set ?new \<subseteq> W" "W \<subseteq> A" "leads (\<lambda>_. False) (W - insert c V) W"
            "mark_loop get ?new (cm_id ` insert c V) 0 = Some (Inr (0 + card (W - insert c V), cm_id ` W))"
          by (elim exE conjE) blast
        have "frontier (\<lambda>_. False) A W (set heap1)"
          by (rule frontier_jump [OF fr' _ W(2) _ W(3)]) (use W(1) split in auto)
        moreover have sub: "insert c V \<subseteq> W" using W(1) by simp
        ultimately have rest: "traverse_loop get ckv cfg e heap1 (cm_id ` W) (n + (1 + card (W - insert c V))) None =
            Some (Inr (n + (1 + card (W - insert c V)) + card (A - W), None))"
          using IH [OF less] by blast
        have "card (A - insert c V) = card (W - insert c V) + card (A - W)"
        proof -
          have "A - insert c V = (W - insert c V) \<union> (A - W)" using W(1,2) by auto
          moreover have "(W - insert c V) \<inter> (A - W) = {}" by auto
          moreover have "finite (W - insert c V)" "finite (A - W)"
            using finite_subset [OF W(2) fin(1)] fin(1) by simp_all
          ultimately show ?thesis by (metis card_Un_disjoint)
        qed
        then have "n + (1 + card (W - insert c V)) + card (A - W) = n + card (A - V)" using one by simp
        moreover have "mark_ancestors_visited get c (insert (cm_id c) (cm_id ` V)) = Some (Inr (card (W - insert c V), cm_id ` W))"
          using W(4) push [of "[]"] by (simp add: mark_ancestors_visited_def)
        ultimately show ?thesis using rest p False vis nostop True by (subst traverse_loop.simps) simp
      next
        case nc: False
        have "frontier (\<lambda>_. False) A (insert c V) (set (?new @ heap1))"
          by (rule frontier_visit [OF fr']) (use split in auto)
        then have "traverse_loop get ckv cfg e (?new @ heap1) (cm_id ` insert c V) (n + 1) None =
            Some (Inr (n + 1 + card (A - insert c V), None))"
          using IH [OF less [OF order_refl]] by blast
        then show ?thesis using p False vis nostop nc push one cfg by (subst traverse_loop.simps) simp
      qed
    qed
  qed
qed

lemma traverse_commits_count:
  assumes "history_ok get head" "tc_known_total_count cfg = None" "tc_stop_at_base cfg = None"
    "tc_skip cfg + tc_limit cfg \<le> usize_max"
  shows "traverse_commits get ckv cfg head None = Some (Inr (card (ancestors get head), None))"
proof -
  have "frontier (\<lambda>_. False) (ancestors get head) {} (set [head])"
    using frontier_start [OF assms(1), of "\<lambda>_. False"] by (simp add: ancestors_def)
  from traverse_loop_count [OF assms(1) order_refl assms(2,3) this, of ckv _ 0]
  show ?thesis using assms(2,4) by (simp add: traverse_commits_def usize_add_def)
qed

end

interpretation disk_commits: commit_graph "get_by_hash st fuel" for st fuel
  by unfold_locales (rule get_by_hash_printed)

end
