(* ===== verification/Commit_Listing_Props.thy ===== *)
theory Commit_Listing_Props
  imports Commit_History_Props Merkle_Tree_Props
begin

text \<open>
  The listings of the commit history: their pages, their order, the listing down to a base commit,
  the exactness of the count cache, and the short pages that follow first parents only. Witnesses
  run on a store with a merge: 1 is the root, 2 and 3 are its children, 4 merges 2 and 3.
\<close>

section \<open>A sample history\<close>

definition history_store :: "(merkle_hash \<times> merkle_hash list \<times> timestamp) list \<Rightarrow> node_store" where
  "history_store cs =
     \<lparr>st_exists = (\<lambda>h. map_of cs h \<noteq> None),
      st_from_hash = (\<lambda>h. case map_of cs h of
          Some (ps, t) \<Rightarrow> Inr (MTNode h (ECommit (sample_commit h ps t)) None [])
        | None \<Rightarrow> Inl (Basic ''Could not find merkle tree node'')),
      st_children = (\<lambda>_. Inr []),
      st_dir_hashes = (\<lambda>_. Inr [])\<rparr>"

definition merge_history :: "(merkle_hash \<times> merkle_hash list \<times> timestamp) list" where
  "merge_history = [(1, [], 10), (2, [1], 20), (3, [1], 30), (4, [2, 3], 40)]"

definition merge_get :: commit_source where
  "merge_get = get_by_hash (history_store merge_history) 2"

definition sample_commit_of :: "merkle_hash \<Rightarrow> merkle_hash list \<Rightarrow> timestamp \<Rightarrow> commit" where
  "sample_commit_of h ps t = commit_node_to_commit (sample_commit h ps t)"

lemma sample_commit_of_simps [simp]:
  "cm_id (sample_commit_of h ps t) = merkle_hash_to_string h"
  "cm_parent_ids (sample_commit_of h ps t) = map merkle_hash_to_string ps"
  "cm_timestamp (sample_commit_of h ps t) = t"
  by (simp_all add: sample_commit_of_def commit_node_to_commit_def sample_commit_def cn_hash_def cn_parent_ids_def)

lemma get_history_store:
  "get_by_hash (history_store cs) (Suc k) h =
     Inr (map_option (\<lambda>(ps, t). sample_commit_of h ps t) (map_of cs h))"
  by (auto simp: get_by_hash_def get_node_by_id_def read_node_def read_depth_def history_store_def
      may_have_children_def in_base_def note_unique_def no_sets_def push_children_def sbind_def node_commit_def sample_commit_of_def
      split: option.splits)

lemma merge_get_eq:
  "merge_get h = Inr (map_option (\<lambda>(ps, t). sample_commit_of h ps t) (map_of merge_history h))"
  unfolding merge_get_def using get_history_store [of merge_history 1] by (simp add: numeral_2_eq_2)

abbreviation "m1 \<equiv> sample_commit_of 1 [] 10"
abbreviation "m2 \<equiv> sample_commit_of 2 [1] 20"
abbreviation "m3 \<equiv> sample_commit_of 3 [1] 30"
abbreviation "m4 \<equiv> sample_commit_of 4 [2, 3] 40"

lemma commit_parents_sample:
  "commit_parents get (sample_commit_of h ps t) = concat (map (\<lambda>h. case get h of Inr (Some p) \<Rightarrow> [p] | _ \<Rightarrow> []) ps)"
  by (simp add: commit_parents_def comp_def)

lemma merge_parents [simp]:
  "commit_parents merge_get m1 = []" "commit_parents merge_get m2 = [m1]"
  "commit_parents merge_get m3 = [m1]" "commit_parents merge_get m4 = [m2, m3]"
  by (simp_all add: commit_parents_sample merge_get_eq merge_history_def)

lemma sample_commit_of_eq [simp]: "sample_commit_of h ps t = sample_commit_of g qs u \<longleftrightarrow> h = g \<and> ps = qs \<and> t = u"
  by (auto simp: sample_commit_of_def commit_node_to_commit_def sample_commit_def cn_hash_def cn_parent_ids_def)
     (metis (no_types, lifting) list.inj_map_strong merkle_hash_to_string_inj)+

lemma merge_reach: "reach merge_get stop m4 = (if stop m4 then {m4} else {m4, m2, m3} \<union> (if stop m2 \<and> stop m3 then {} else {m1}))"
proof (rule antisym)
  show "reach merge_get stop m4 \<subseteq> (if stop m4 then {m4} else {m4, m2, m3} \<union> (if stop m2 \<and> stop m3 then {} else {m1}))"
    by (rule reach_least) (auto split: if_splits)
  have "m2 \<in> reach merge_get stop m4" "m3 \<in> reach merge_get stop m4" if "\<not> stop m4"
    using that by (auto intro: reach_step [of m4])
  then show "(if stop m4 then {m4} else {m4, m2, m3} \<union> (if stop m2 \<and> stop m3 then {} else {m1})) \<subseteq> reach merge_get stop m4"
    by (auto intro: reach_step [of m2] reach_step [of m3])
qed

lemma merge_ancestors: "ancestors merge_get m4 = {m4, m2, m3, m1}"
  by (simp add: ancestors_def merge_reach insert_commute)

lemma merge_history_ok: "history_ok merge_get m4"
  by (auto simp: history_ok_def merge_ancestors printed_ids_def merge_get_eq inj_on_def
      simp del: list.map)

section \<open>Pages\<close>

text \<open>C12: listing a history that can be read always returns, and there is one list of the ancestors,
  without repetition, of which every page is the slice its number says: for any skip and limit, with
  the total known beforehand or not. If no parent is newer than its child the list is newest first.\<close>

theorem pages_partition_history:
  assumes "history_ok (get_by_hash st fuel) head"
  shows "\<exists>cs. distinct cs \<and> set cs = ancestors (get_by_hash st fuel) head \<and>
    (parents_not_newer (get_by_hash st fuel) (ancestors (get_by_hash st fuel) head) \<longrightarrow> newest_first cs) \<and>
    (\<forall>skip limit known. skip + limit \<le> usize_max \<longrightarrow>
       list_recursive_paginated (get_by_hash st fuel) ckv head skip limit None known =
       Some (Inr (take limit (drop skip cs), case known of Some t \<Rightarrow> t | None \<Rightarrow> length cs)))"
proof -
  obtain cs where cs: "distinct cs" "set cs = ancestors (get_by_hash st fuel) head"
    "parents_not_newer (get_by_hash st fuel) (ancestors (get_by_hash st fuel) head) \<Longrightarrow> newest_first cs"
    "\<And>skip limit known. skip + limit \<le> usize_max \<Longrightarrow>
       list_recursive_paginated (get_by_hash st fuel) ckv head skip limit None known =
       Some (Inr (take limit (drop skip cs), case known of Some t \<Rightarrow> t | None \<Rightarrow> length cs))"
    using disk_commits.listing [OF assms, where base = None and ckv = ckv] unfolding ancestors_def option.case by metis
  then show ?thesis by blast
qed

lemma newest_first_unique:
  "newest_first cs \<Longrightarrow> newest_first ds \<Longrightarrow> set cs = set ds \<Longrightarrow> inj_on cm_timestamp (set cs) \<Longrightarrow> distinct cs \<Longrightarrow> distinct ds \<Longrightarrow> cs = ds"
proof (induction cs arbitrary: ds)
  case (Cons c cs)
  then obtain d ds' where ds: "ds = d # ds'" by (cases ds) auto
  have "cm_timestamp c = cm_timestamp d"
    using Cons.prems(1,2,3) unfolding ds newest_first_def by (metis list.set_intros(1) order_antisym set_ConsD sorted_wrt.simps(2))
  then have "c = d" using Cons.prems(3,4) ds by (metis inj_onD list.set_intros(1))
  moreover have "set cs = set ds'" using Cons.prems(3,5,6) \<open>c = d\<close> ds by auto
  ultimately show ?case using Cons ds by (auto simp: newest_first_def inj_on_def)
qed simp

lemma merge_not_newer: "parents_not_newer merge_get {m4, m2, m3, m1}"
  by (simp add: parents_not_newer_def)

lemma pages_partition_history_witness:
  "list_recursive_paginated (get_by_hash (history_store merge_history) 2) (list_kv :: ((string \<times> nat) list, nat) kv_ops) m4 1 2 None (Some 9) =
     Some (Inr ([m3, m2], 9))"
proof -
  obtain cs where cs: "distinct cs" "set cs = ancestors merge_get m4"
    "parents_not_newer merge_get (ancestors merge_get m4) \<longrightarrow> newest_first cs"
    "\<forall>skip limit known. skip + limit \<le> usize_max \<longrightarrow>
       list_recursive_paginated merge_get (list_kv :: ((string \<times> nat) list, nat) kv_ops) m4 skip limit None known =
       Some (Inr (take limit (drop skip cs), case known of Some t \<Rightarrow> t | None \<Rightarrow> length cs))"
    using pages_partition_history [of "history_store merge_history" 2 m4 list_kv] merge_history_ok
    unfolding merge_get_def [symmetric] by blast
  have "newest_first cs" using cs(3) by (simp add: merge_ancestors merge_not_newer)
  then have "cs = [m4, m3, m2, m1]"
    by (rule newest_first_unique) (auto simp: newest_first_def cs(1,2) merge_ancestors inj_on_def)
  with cs(4) [THEN spec, of 1, THEN spec, of 2, THEN spec, of "Some 9"]
  show ?thesis by (simp add: merge_get_def usize_max_def)
qed

section \<open>Down to a base commit\<close>

text \<open>C21: the history between two commits is exactly what is reached from the head without going past
  the base. The base itself is listed when it is reached, although the configuration calls it
  exclusive, and so is an ancestor of the base that another path reaches.\<close>

theorem list_between_exact:
  assumes "history_ok (get_by_hash st fuel) head"
    and "card (reach (get_by_hash st fuel) (\<lambda>c. cm_id c = cm_id base) head) \<le> usize_max"
  shows "\<exists>cs. list_between (get_by_hash st fuel) ckv base head = Some (Inr cs) \<and> distinct cs \<and>
    set cs = reach (get_by_hash st fuel) (\<lambda>c. cm_id c = cm_id base) head"
proof -
  obtain cs where cs: "distinct cs" "set cs = reach (get_by_hash st fuel) (\<lambda>c. cm_id c = cm_id base) head"
    "\<And>skip limit known. skip + limit \<le> usize_max \<Longrightarrow>
       list_recursive_paginated (get_by_hash st fuel) ckv head skip limit (Some base) known =
       Some (Inr (take limit (drop skip cs), case known of Some t \<Rightarrow> t | None \<Rightarrow> length cs))"
    using disk_commits.listing [OF assms(1), where base = "Some base" and ckv = ckv] unfolding option.case by metis
  moreover have "length cs \<le> usize_max" using assms(2) distinct_card [OF cs(1)] cs(2) by simp
  ultimately show ?thesis by (simp add: list_between_def)
qed

lemma list_between_exact_witness:
  "\<exists>cs. list_between (get_by_hash (history_store merge_history) 2) (list_kv :: ((string \<times> nat) list, nat) kv_ops) m2 m4 = Some (Inr cs) \<and>
     set cs = {m4, m2, m3, m1}"
proof -
  have "reach merge_get (\<lambda>c. cm_id c = cm_id m2) m4 = {m4, m2, m3, m1}" by (auto simp: merge_reach)
  then show ?thesis
    using list_between_exact [of "history_store merge_history" 2 m4 m2 list_kv] merge_history_ok
    unfolding merge_get_def [symmetric] by (auto simp: usize_max_def)
qed

section \<open>The count cache\<close>

text \<open>The nodes are stored under their own hashes, so an id names one commit.\<close>

definition stored_by_id :: "commit_source \<Rightarrow> bool" where
  "stored_by_id get \<longleftrightarrow> (\<forall>h c. get h = Inr (Some c) \<longrightarrow> cm_id c = merkle_hash_to_string h)"

definition counts_exact :: "commit_source \<Rightarrow> 'c count_kv \<Rightarrow> 'c \<Rightarrow> bool" where
  "counts_exact get ckv db \<longleftrightarrow>
     (\<forall>h c n. get h = Inr (Some c) \<longrightarrow> kv_get ckv db (cm_id c) = Some n \<longrightarrow> n = card (ancestors get c))"

lemma revision_get_stored: "revision_get get kv rs revision = Inr (Some c) \<Longrightarrow> \<exists>h. get h = Inr (Some c)"
  by (auto simp: revision_get_def get_by_id_def head_commit_def rbind_eq_Inr ok_or_def split: if_splits sum.splits option.splits)

text \<open>C13: with a cache whose entries are the numbers of ancestors, counting from any revision returns
  the number of ancestors of its commit, cached or not, and leaves such a cache; a revision that does
  not resolve is an error that leaves the cache alone.\<close>

theorem count_from_keeps_counts_exact:
  assumes "kv_lawful ckv" "stored_by_id (get_by_hash st fuel)" "counts_exact (get_by_hash st fuel) ckv db"
    and "\<forall>h c. get_by_hash st fuel h = Inr (Some c) \<longrightarrow> history_ok (get_by_hash st fuel) c"
  shows "case revision_get (get_by_hash st fuel) kv rs revision of
      Inl e \<Rightarrow> count_from (get_by_hash st fuel) ckv kv rs revision db = Some (Inl e)
    | Inr None \<Rightarrow> count_from (get_by_hash st fuel) ckv kv rs revision db = Some (Inl (RevisionNotFound revision))
    | Inr (Some c) \<Rightarrow> (\<exists>cached db'.
        count_from (get_by_hash st fuel) ckv kv rs revision db =
          Some (Inr ((card (ancestors (get_by_hash st fuel) c), cached), db')) \<and>
        counts_exact (get_by_hash st fuel) ckv db' \<and> kv_get ckv db' (cm_id c) \<noteq> None)"
proof (cases "revision_get (get_by_hash st fuel) kv rs revision")
  case (Inr r)
  show ?thesis
  proof (cases r)
    case (Some c)
    let ?get = "get_by_hash st fuel"
    obtain h where h: "?get h = Inr (Some c)" using Inr Some revision_get_stored by metis
    show ?thesis
    proof (cases "kv_get ckv db (cm_id c)")
      case None
      let ?n = "card (ancestors ?get c)"
      have "history_ok ?get c" using assms(4) h by blast
      from disk_commits.traverse_commits_count [OF this, of
          "\<lparr>tc_stop_at_base = None, tc_skip = 0, tc_limit = usize_max, tc_cache_db = Some db, tc_known_total_count = None\<rparr>" ckv]
      have "count_from ?get ckv kv rs revision db = Some (Inr ((?n, False), kv_put ckv (cm_id c) ?n db))"
        using Inr Some None by (simp add: count_from_def get_cached_count_def cache_count_def)
      moreover have "counts_exact ?get ckv (kv_put ckv (cm_id c) ?n db)"
        using assms(1,2,3) h unfolding counts_exact_def stored_by_id_def
        by (auto split: if_splits)
      ultimately show ?thesis using Inr Some assms(1) by auto
    next
      case cached: (Some n)
      then have "n = card (ancestors ?get c)" using assms(3) h unfolding counts_exact_def by blast
      then show ?thesis using Inr Some cached assms(3) by (auto simp: count_from_def get_cached_count_def)
    qed
  qed (use Inr in \<open>simp add: count_from_def\<close>)
qed (simp add: count_from_def)

lemma merge_ok_all: "merge_get h = Inr (Some c) \<Longrightarrow> c \<in> {m4, m2, m3, m1} \<and> history_ok merge_get c"
proof -
  assume "merge_get h = Inr (Some c)"
  then have "c \<in> {m4, m2, m3, m1}" by (auto simp: merge_get_eq merge_history_def split: if_splits)
  moreover from this have "c \<in> ancestors merge_get m4" by (simp only: merge_ancestors)
  ultimately show ?thesis
    using disk_commits.history_ok_ancestor [of "history_store merge_history" 2 m4 c] merge_history_ok
    by (simp add: merge_get_def)
qed

definition sample_refs :: "(string \<times> string) list refs" where
  "sample_refs = \<lparr>rf_db = [(''main'', merkle_hash_to_string 4)], rf_head = Some ''main''\<rparr>"

lemma sample_revision [simp]: "revision_get merge_get list_kv sample_refs ''main'' = Inr (Some m4)"
  by (simp add: revision_get_def get_by_id_def get_commit_id_for_branch_def list_kv_def sample_refs_def
      merge_get_eq merge_history_def)

lemma merge_stored: "stored_by_id merge_get"
  by (auto simp: stored_by_id_def merge_get_eq merge_history_def split: if_splits)

lemma merge_counts: "counts_exact merge_get list_kv [(merkle_hash_to_string 1, 1)]"
proof -
  have "reach merge_get (\<lambda>_. False) m1 = {m1}"
    using reach_least [of m1 "{m1}" "\<lambda>_. False" merge_get] reach_refl [of m1 merge_get "\<lambda>_. False"] by auto
  then show ?thesis
    by (auto simp: counts_exact_def list_kv_def ancestors_def merge_get_eq merge_history_def split: if_splits)
qed

lemma count_from_keeps_counts_exact_witness:
  "\<exists>cached db'. count_from (get_by_hash (history_store merge_history) 2) list_kv list_kv sample_refs ''main'' [(merkle_hash_to_string 1, 1)] =
     Some (Inr ((4, cached), db'))"
proof -
  have "case revision_get merge_get list_kv sample_refs ''main'' of
      Inl e \<Rightarrow> count_from merge_get list_kv list_kv sample_refs ''main'' [(merkle_hash_to_string 1, 1)] = Some (Inl e)
    | Inr None \<Rightarrow> count_from merge_get list_kv list_kv sample_refs ''main'' [(merkle_hash_to_string 1, 1)] =
        Some (Inl (RevisionNotFound ''main''))
    | Inr (Some c) \<Rightarrow> (\<exists>cached db'.
        count_from merge_get list_kv list_kv sample_refs ''main'' [(merkle_hash_to_string 1, 1)] =
          Some (Inr ((card (ancestors merge_get c), cached), db')) \<and>
        counts_exact merge_get list_kv db' \<and> kv_get list_kv db' (cm_id c) \<noteq> None)"
    unfolding merge_get_def
    by (rule count_from_keeps_counts_exact [OF list_kv_lawful merge_stored [unfolded merge_get_def] merge_counts [unfolded merge_get_def]])
       (use merge_ok_all [unfolded merge_get_def] in blast)
  then show ?thesis unfolding sample_revision by (auto simp: merge_ancestors merge_get_def [symmetric])
qed

section \<open>Short pages\<close>

text \<open>The chain of first parents, to a length.\<close>

fun first_parents :: "commit_source \<Rightarrow> nat \<Rightarrow> commit \<Rightarrow> commit list" where
  "first_parents get 0 c = []"
| "first_parents get (Suc k) c =
     c # (case cm_parent_ids c of
            [] \<Rightarrow> []
          | pid # _ \<Rightarrow> (case rbind (merkle_hash_from_str pid) get of Inr (Some p) \<Rightarrow> first_parents get k p | _ \<Rightarrow> []))"

context commit_graph
begin

lemma forward_loop_chain:
  assumes "history_ok get head" "c \<in> ancestors get head" "n < e"
  shows "forward_loop get skip e (Some c) n results = Some (Inr (results @ drop (skip - n) (first_parents get (e - n) c)))"
  using assms(2,3)
proof (induction "e - n" arbitrary: c n results)
  case (Suc k)
  let ?r = "if skip \<le> n \<and> n < e then results @ [c] else results"
  have e: "e - n = Suc (e - Suc n)" using Suc by simp
  have drop: "?r @ drop (skip - Suc n) cs = results @ drop (skip - n) (c # cs)" for cs
    using Suc.prems(2) by (cases "skip \<le> n") (auto simp: drop_Cons')
  show ?case
  proof (cases "e \<le> n + 1")
    case True
    with Suc.prems(2) have "e = Suc n" by simp
    then show ?thesis using drop [of "[]"]
      by (subst forward_loop.simps) (simp add: Let_def split: list.splits sum.splits option.splits)
  next
    case False
    then have less: "Suc n < e" by simp
    show ?thesis
    proof (cases "cm_parent_ids c")
      case Nil
      then show ?thesis using False drop [of "[]"] unfolding e
        by (subst forward_loop.simps) (simp add: Let_def forward_loop.simps [of _ _ _ None])
    next
      case (Cons pid pids)
      have "printed_ids c" using reach_printed assms(1) Suc.prems(1) unfolding history_ok_def ancestors_def by blast
      then obtain h where pid: "pid = merkle_hash_to_string h" using Cons unfolding printed_ids_def by auto
      then have "merkle_hash_to_string h \<in> set (cm_parent_ids c)" using Cons by simp
      then obtain r where r: "get h = Inr r" using assms(1) Suc.prems(1) unfolding history_ok_def by blast
      show ?thesis
      proof (cases r)
        case None
        then show ?thesis using False drop [of "[]"] Cons pid r unfolding e
          by (subst forward_loop.simps) (simp add: Let_def forward_loop.simps [of _ _ _ None])
      next
        case (Some p)
        have "p \<in> set (commit_parents get c)" using Cons pid r Some by (simp add: commit_parents_def)
        then have "p \<in> ancestors get head" using Suc.prems(1) unfolding ancestors_def by (auto intro: reach_step)
        from Suc.hyps(1) [OF _ this less, of ?r] Suc.hyps(2)
        have "forward_loop get skip e (Some p) (Suc n) ?r =
            Some (Inr (?r @ drop (skip - Suc n) (first_parents get (e - Suc n) p)))" by simp
        then show ?thesis using False Cons pid r Some unfolding e drop
          by (subst forward_loop.simps) (simp add: Let_def drop)
      qed
    qed
  qed
qed simp

lemma list_forward_chain:
  assumes "history_ok get head" "skip + limit \<le> usize_max"
  shows "list_forward_paginated get head skip limit = Some (Inr (drop skip (first_parents get (skip + limit) head)))"
proof (cases "skip + limit")
  case 0
  then show ?thesis
    by (simp add: list_forward_paginated_def usize_add_def usize_max_def forward_loop.simps [of _ _ _ "Some head"] Let_def)
next
  case (Suc k)
  then show ?thesis
    using forward_loop_chain [OF assms(1), of head 0 "skip + limit" skip "[]"] assms(2)
    by (simp add: list_forward_paginated_def usize_add_def ancestors_def)
qed

end

text \<open>C22: a page that ends within the first ten commits lists the chain of first parents from its
  revision, while the total it reports counts every ancestor: commits that came in through the second
  parent of a merge are missing from such a page.\<close>

theorem short_pages_follow_first_parents:
  assumes "kv_lawful ckv" "stored_by_id (get_by_hash st fuel)" "counts_exact (get_by_hash st fuel) ckv db"
    and "\<forall>h c. get_by_hash st fuel h = Inr (Some c) \<longrightarrow> history_ok (get_by_hash st fuel) c"
    and "\<not> str_contains ''..'' revision"
    and "revision_get (get_by_hash st fuel) kv rs revision = Inr (Some c)"
    and "revision_get (get_by_hash st fuel) kv rs (cm_id c) = Inr (Some c)"
    and "skip + limit \<le> 10"
  shows "\<exists>cached db'. list_from_paginated_impl (get_by_hash st fuel) ckv kv rs revision skip limit db =
    Some (Inr ((drop skip (first_parents (get_by_hash st fuel) (skip + limit) c),
      card (ancestors (get_by_hash st fuel) c), cached), db'))"
proof -
  let ?get = "get_by_hash st fuel"
  obtain h where "?get h = Inr (Some c)" using assms(6) revision_get_stored by metis
  then have ok: "history_ok ?get c" using assms(4) by blast
  from disk_commits.list_forward_chain [OF this, of skip limit] assms(8)
  have page: "list_forward_paginated ?get c skip limit = Some (Inr (drop skip (first_parents ?get (skip + limit) c)))"
    by (simp add: usize_max_def)
  obtain cached db' where "count_from ?get ckv kv rs (cm_id c) db =
      Some (Inr ((card (ancestors ?get c), cached), db'))"
  proof (cases "kv_get ckv db (cm_id c)")
    case None
    from disk_commits.traverse_commits_count [OF ok, of
        "\<lparr>tc_stop_at_base = None, tc_skip = 0, tc_limit = usize_max, tc_cache_db = Some db, tc_known_total_count = None\<rparr>" ckv]
    show thesis using that [of False] assms(7) None by (simp add: count_from_def get_cached_count_def)
  next
    case (Some n)
    then have "n = card (ancestors ?get c)"
      using assms(3) \<open>?get h = Inr (Some c)\<close> unfolding counts_exact_def by blast
    then show thesis using that [of True] assms(7) Some by (simp add: count_from_def get_cached_count_def)
  qed
  then show ?thesis
    using page assms(5,6,8) by (simp add: list_from_paginated_impl_def usize_add_def usize_max_def)
qed

lemma short_pages_follow_first_parents_witness:
  "\<exists>cached db'. list_from_paginated_impl (get_by_hash (history_store merge_history) 2) list_kv list_kv sample_refs ''main'' 0 10 [] =
     Some (Inr (([m4, m2, m1], 4, cached), db'))"
proof -
  have "first_parents merge_get 10 m4 = [m4, m2, m1]"
    by (simp add: eval_nat_numeral merge_get_eq merge_history_def)
  moreover have "revision_get merge_get list_kv sample_refs (cm_id m4) = Inr (Some m4)"
  proof -
    have "merkle_hash_to_string 4 = ''4''" by code_simp
    then have "merkle_hash_from_str ''4'' = Inr 4" by (metis from_str_to_string)
    with \<open>merkle_hash_to_string 4 = ''4''\<close> show ?thesis
      by (simp add: revision_get_def get_by_id_def get_commit_id_for_branch_def list_kv_def sample_refs_def
          merge_get_eq merge_history_def)
  qed
  moreover have "counts_exact merge_get (list_kv :: ((string \<times> nat) list, nat) kv_ops) []"
    by (simp add: counts_exact_def list_kv_def)
  ultimately have "\<exists>cached db'. list_from_paginated_impl merge_get list_kv list_kv sample_refs ''main'' 0 10 [] =
     Some (Inr ((drop 0 [m4, m2, m1], card (ancestors merge_get m4), cached), db'))"
    using short_pages_follow_first_parents [of list_kv "history_store merge_history" 2 "[]" "''main''" list_kv sample_refs m4 0 10]
      merge_ok_all merge_stored list_kv_lawful unfolding merge_get_def [symmetric] by simp
  moreover have "card (ancestors merge_get m4) = 4" by (simp add: merge_ancestors)
  ultimately show ?thesis by (simp add: merge_get_def)
qed

end
