(* ===== verification/Commit_Depth_Props.thy ===== *)
theory Commit_Depth_Props
  imports Commit_Listing_Props "HOL-Library.Multiset"
begin

text \<open>
  The walk that records depths computes shortest distances, although it pops a stack and may visit
  a commit again; and what the search for a common ancestor makes of them.
\<close>

section \<open>Distances\<close>

definition at_distance :: "commit_source \<Rightarrow> commit \<Rightarrow> nat \<Rightarrow> commit \<Rightarrow> bool" where
  "at_distance get head n a \<longleftrightarrow> (head, a) \<in> parent_step get (\<lambda>_. False) ^^ n"

definition distance :: "commit_source \<Rightarrow> commit \<Rightarrow> commit \<Rightarrow> nat" where
  "distance get head a = (LEAST n. at_distance get head n a)"

lemma at_distance_0 [simp]: "at_distance get head 0 a \<longleftrightarrow> a = head"
  by (auto simp: at_distance_def)

lemma at_distance_Suc: "at_distance get head (Suc n) p \<longleftrightarrow> (\<exists>a. at_distance get head n a \<and> p \<in> set (commit_parents get a))"
  by (auto simp: at_distance_def parent_step_def)

lemma ancestors_at: "a \<in> ancestors get head \<longleftrightarrow> (\<exists>n. at_distance get head n a)"
  by (simp add: ancestors_def reach_def at_distance_def rtrancl_power)

lemma distance_at: "a \<in> ancestors get head \<Longrightarrow> at_distance get head (distance get head a) a"
  unfolding ancestors_at distance_def by (rule LeastI_ex)

lemma distance_le: "at_distance get head n a \<Longrightarrow> distance get head a \<le> n"
  unfolding distance_def by (rule Least_le)

text \<open>A potential that grows by at most one along each edge is a lower bound.\<close>

lemma distance_ge:
  assumes "g head = 0" "\<And>a p. p \<in> set (commit_parents get a) \<Longrightarrow> a \<in> ancestors get head \<Longrightarrow> g p \<le> Suc (g a)"
    and "a \<in> ancestors get head"
  shows "g a \<le> distance get head a"
proof -
  have "g a \<le> n" if "at_distance get head n a" for n
    using that
  proof (induction n arbitrary: a)
    case (Suc n)
    then obtain b where b: "at_distance get head n b" "a \<in> set (commit_parents get b)" by (auto simp: at_distance_Suc)
    then have "b \<in> ancestors get head" by (auto simp: ancestors_at)
    with assms(2) [OF b(2)] Suc.IH [OF b(1)] show ?case by simp
  qed (use assms(1) in simp)
  then show ?thesis using distance_at [OF assms(3)] by blast
qed

section \<open>The walk\<close>

text \<open>What holds of the stack and the map before each step.\<close>

definition depth_inv :: "commit_source \<Rightarrow> commit \<Rightarrow> (commit \<times> nat) list \<Rightarrow> (string \<rightharpoonup> commit \<times> nat) \<Rightarrow> bool" where
  "depth_inv get head stack f \<longleftrightarrow>
     (\<forall>(c, d) \<in> set stack. at_distance get head d c \<and> d \<le> card (dom f)) \<and>
     (\<forall>i c d. f i = Some (c, d) \<longrightarrow> cm_id c = i \<and> at_distance get head d c \<and> d < card (dom f)) \<and>
     (\<forall>i a d. f i = Some (a, d) \<longrightarrow> (\<forall>p \<in> set (commit_parents get a).
        (p, Suc d) \<in> set stack \<or> (\<exists>e. f (cm_id p) = Some (p, e) \<and> e \<le> Suc d))) \<and>
     ((head, 0) \<in> set stack \<or> (\<exists>e. f (cm_id head) = Some (head, e) \<and> e \<le> 0))"

definition depth_sum :: "commit set \<Rightarrow> (string \<rightharpoonup> commit \<times> nat) \<Rightarrow> nat" where
  "depth_sum A f = (\<Sum>a \<in> A. case f (cm_id a) of None \<Rightarrow> card A | Some (_, d) \<Rightarrow> d)"

lemma depth_invD:
  assumes "depth_inv get head stack f"
  shows "(c, d) \<in> set stack \<Longrightarrow> at_distance get head d c \<and> d \<le> card (dom f)"
    and "f i = Some (c, d) \<Longrightarrow> cm_id c = i \<and> at_distance get head d c \<and> d < card (dom f)"
    and "f i = Some (c, d) \<Longrightarrow> p \<in> set (commit_parents get c) \<Longrightarrow>
        (p, Suc d) \<in> set stack \<or> (\<exists>e. f (cm_id p) = Some (p, e) \<and> e \<le> Suc d)"
    and "(head, 0) \<in> set stack \<or> (\<exists>e. f (cm_id head) = Some (head, e) \<and> e \<le> 0)"
  using assms unfolding depth_inv_def by blast+

lemma depth_inv_done:
  assumes "depth_inv get head [] f" "at_distance get head n a"
  shows "\<exists>d \<le> n. f (cm_id a) = Some (a, d)"
  using assms(2)
proof (induction n arbitrary: a)
  case 0
  then show ?case using depth_invD(4) [OF assms(1)] by auto
next
  case (Suc n)
  then obtain b where b: "at_distance get head n b" "a \<in> set (commit_parents get b)" by (auto simp: at_distance_Suc)
  obtain d where d: "d \<le> n" "f (cm_id b) = Some (b, d)" using Suc.IH [OF b(1)] by blast
  obtain e where "f (cm_id a) = Some (a, e)" "e \<le> Suc d" using depth_invD(3) [OF assms(1) d(2) b(2)] by auto
  then show ?case using d(1) by (intro exI [of _ e]) simp
qed

lemma depth_inv_skip:
  assumes inv: "depth_inv get head ((c, d) # rest) f" and f: "f (cm_id c) = Some (c, e)" "e \<le> d"
  shows "depth_inv get head rest f"
  unfolding depth_inv_def
proof (intro conjI allI impI ballI)
  show "case x of (c, d) \<Rightarrow> at_distance get head d c \<and> d \<le> card (dom f)" if "x \<in> set rest" for x
    using depth_invD(1) [OF inv, of "fst x" "snd x"] that by (cases x) simp
  show "cm_id a = i" "at_distance get head k a" "k < card (dom f)" if "f i = Some (a, k)" for i a k
    using depth_invD(2) [OF inv that] by simp_all
  show "(p, Suc k) \<in> set rest \<or> (\<exists>e. f (cm_id p) = Some (p, e) \<and> e \<le> Suc k)"
    if "f i = Some (a, k)" "p \<in> set (commit_parents get a)" for i a k p
    using depth_invD(3) [OF inv that] f by auto
  show "(head, 0) \<in> set rest \<or> (\<exists>e. f (cm_id head) = Some (head, e) \<and> e \<le> 0)"
    using depth_invD(4) [OF inv] f by auto
qed

lemma depth_inv_visit:
  assumes inv: "depth_inv get head ((c, d) # rest) f" and new: "\<And>x e. f (cm_id c) = Some (x, e) \<Longrightarrow> x = c \<and> d < e"
    and fin: "finite (dom f)" and stack: "set stack = set (map (\<lambda>p. (p, Suc d)) (commit_parents get c)) \<union> set rest"
  shows "depth_inv get head stack (f(cm_id c \<mapsto> (c, d)))"
proof -
  let ?f = "f(cm_id c \<mapsto> (c, d))"
  have mono: "card (dom f) \<le> card (dom ?f)" using fin by (simp add: card_mono subset_insertI)
  have d: "at_distance get head d c" "d \<le> card (dom f)" using depth_invD(1) [OF inv, of c d] by simp_all
  have less: "d < card (dom ?f)"
  proof (cases "f (cm_id c)")
    case None
    then have "cm_id c \<notin> dom f" by auto
    then show ?thesis using d(2) fin by simp
  next
    case (Some p)
    obtain x e where p: "p = (x, e)" by (cases p)
    have "d < e" using new [of x e] Some p by simp
    moreover have "e < card (dom f)" using depth_invD(2) [OF inv, of "cm_id c" x e] Some p by simp
    ultimately show ?thesis using mono by simp
  qed
  have keep: "(p, k) \<in> set stack \<or> (\<exists>e. ?f (cm_id p) = Some (p, e) \<and> e \<le> k)"
    if pk: "(p, k) \<in> set ((c, d) # rest) \<or> (\<exists>e. f (cm_id p) = Some (p, e) \<and> e \<le> k)" for p k
  proof (cases "cm_id p = cm_id c")
    case True
    show ?thesis
    proof (cases "(p, k) \<in> set ((c, d) # rest)")
      case True
      then show ?thesis using stack by auto
    next
      case False
      then obtain e where "f (cm_id p) = Some (p, e)" "e \<le> k" using pk by blast
      then show ?thesis using new [of p e] True by auto
    qed
  next
    case False
    then show ?thesis using pk stack by auto
  qed
  show ?thesis
    unfolding depth_inv_def
  proof (intro conjI allI impI ballI)
    show "case x of (a, k) \<Rightarrow> at_distance get head k a \<and> k \<le> card (dom ?f)" if x: "x \<in> set stack" for x
    proof (cases "x \<in> set rest")
      case True
      then have "at_distance get head (snd x) (fst x) \<and> snd x \<le> card (dom f)"
        using depth_invD(1) [OF inv, of "fst x" "snd x"] by simp
      then show ?thesis using mono unfolding case_prod_beta by linarith
    next
      case False
      then obtain p where "x = (p, Suc d)" "p \<in> set (commit_parents get c)" using x stack by auto
      then show ?thesis using d(1) less by (auto simp: at_distance_Suc)
    qed
    show "cm_id a = i" "at_distance get head k a" "k < card (dom ?f)" if "?f i = Some (a, k)" for i a k
      using that depth_invD(2) [OF inv, of i a k] d(1) less mono by (auto split: if_splits)
    show "(p, Suc k) \<in> set stack \<or> (\<exists>e. ?f (cm_id p) = Some (p, e) \<and> e \<le> Suc k)"
      if "?f i = Some (a, k)" "p \<in> set (commit_parents get a)" for i a k p
    proof (cases "i = cm_id c")
      case True
      then show ?thesis using that stack by auto
    next
      case False
      then have "f i = Some (a, k)" using that(1) by simp
      from keep [OF depth_invD(3) [OF inv this that(2)]] show ?thesis .
    qed
    show "(head, 0) \<in> set stack \<or> (\<exists>e. ?f (cm_id head) = Some (head, e) \<and> e \<le> 0)"
      by (rule keep [OF depth_invD(4) [OF inv]])
  qed
qed

lemma map_of_depth_insert:
  assumes "\<And>x e. map_of m (cm_id c) = Some (x, e) \<Longrightarrow> x = c"
  shows "map_of (depth_insert c d m) = (map_of m)(cm_id c \<mapsto> (c, d))"
  using assms by (auto simp: depth_insert_def split: option.splits)

lemma depth_sum_less:
  assumes "finite A" "inj_on cm_id A" "c \<in> A" "case f (cm_id c) of None \<Rightarrow> d < card A | Some (_, e) \<Rightarrow> d < e"
  shows "depth_sum A (f(cm_id c \<mapsto> (c, d))) < depth_sum A f"
  unfolding depth_sum_def
proof (rule sum_strict_mono_ex1 [OF assms(1)])
  have "cm_id a = cm_id c \<longleftrightarrow> a = c" if "a \<in> A" for a using assms(2,3) that by (simp add: inj_on_eq_iff)
  then show "\<forall>a \<in> A. (case (f(cm_id c \<mapsto> (c, d))) (cm_id a) of None \<Rightarrow> card A | Some (_, d) \<Rightarrow> d) \<le>
      (case f (cm_id a) of None \<Rightarrow> card A | Some (_, d) \<Rightarrow> d)"
    using assms(4) by (auto split: option.splits)
  show "\<exists>a \<in> A. (case (f(cm_id c \<mapsto> (c, d))) (cm_id a) of None \<Rightarrow> card A | Some (_, d) \<Rightarrow> d) <
      (case f (cm_id a) of None \<Rightarrow> card A | Some (_, d) \<Rightarrow> d)"
    using assms(3,4) by (auto split: option.splits intro!: bexI [of _ c])
qed

context commit_graph
begin

lemma push_parents_at_eq:
  assumes "\<forall>pid \<in> set pids. \<exists>r. rbind (merkle_hash_from_str pid) get = Inr r"
  shows "push_parents_at get d pids stack =
     Inr (rev (map (\<lambda>p. (p, d))
       (concat (map (\<lambda>pid. case rbind (merkle_hash_from_str pid) get of Inr (Some p) \<Rightarrow> [p] | _ \<Rightarrow> []) pids))) @ stack)"
  using assms
proof (induction pids arbitrary: stack)
  case (Cons pid pids)
  then obtain h r where "merkle_hash_from_str pid = Inr h" "get h = Inr r" by (auto simp: rbind_eq_Inr)
  then show ?case using Cons by (cases r) auto
qed simp

lemma push_parents_at_parents:
  assumes "history_ok get head" "a \<in> ancestors get head"
  shows "push_parents_at get d (cm_parent_ids a) stack = Inr (rev (map (\<lambda>p. (p, d)) (commit_parents get a)) @ stack)"
  unfolding commit_parents_def by (rule push_parents_at_eq [OF parent_lookups [OF assms]])

lemma depth_loop_all:
  assumes hist: "history_ok get head" and "depth_inv get head stack (map_of m)"
  shows "\<exists>m'. depth_loop get stack m = Some (Inr m') \<and> depth_inv get head [] (map_of m') \<and> (hm_wf m \<longrightarrow> hm_wf m')"
  using assms(2)
proof (induction "(stack, m)" arbitrary: stack m
    rule: wf_induct_rule [OF wf_measures, of "[\<lambda>(_, m). depth_sum (ancestors get head) (map_of m), \<lambda>(s, _). length s]"])
  case (1 stack m)
  note IH = 1(1) and inv = 1(2)
  let ?A = "ancestors get head"
  have fin: "finite ?A" "inj_on cm_id ?A" using hist by (simp_all add: history_ok_def)
  show ?case
  proof (cases stack)
    case Nil
    then show ?thesis using inv by (intro exI [of _ m]) (simp add: depth_loop.simps [of _ "[]"])
  next
    case (Cons x rest)
    obtain c d where x: "x = (c, d)" by force
    have cd: "at_distance get head d c" "d \<le> card (dom (map_of m))"
      using depth_invD(1) [OF inv, of c d] Cons x by simp_all
    then have c: "c \<in> ?A" by (auto simp: ancestors_at)
    have same: "y = c" if "map_of m (cm_id c) = Some (y, e)" for y e
    proof -
      have "cm_id y = cm_id c" "y \<in> ?A" using depth_invD(2) [OF inv that] by (auto simp: ancestors_at)
      then show ?thesis using fin(2) c by (metis inj_onD)
    qed
    show ?thesis
    proof (cases "case map_of m (cm_id c) of Some (_, existing) \<Rightarrow> existing \<le> d | None \<Rightarrow> False")
      case True
      then obtain e where e: "map_of m (cm_id c) = Some (c, e)" "e \<le> d" using same by (auto split: option.splits)
      have "((rest, m), (stack, m)) \<in> measures [\<lambda>(_, m). depth_sum ?A (map_of m), \<lambda>(s, _). length s]"
        using Cons by simp
      moreover have "depth_inv get head rest (map_of m)"
        by (rule depth_inv_skip [where f = "map_of m" and c = c and d = d and e = e, OF _ e]) (use inv Cons x in simp)
      ultimately show ?thesis using IH True Cons x by (subst depth_loop.simps) simp
    next
      case False
      let ?stack = "rev (map (\<lambda>p. (p, d + 1)) (commit_parents get c)) @ rest"
      have m': "map_of (depth_insert c d m) = (map_of m)(cm_id c \<mapsto> (c, d))"
        by (rule map_of_depth_insert) (rule same)
      have new: "d < e" if "map_of m (cm_id c) = Some (y, e)" for y e using False that by auto
      have small: "d < card ?A" if "map_of m (cm_id c) = None"
      proof -
        have "dom (map_of m) \<subseteq> cm_id ` ?A"
        proof
          fix i
          assume "i \<in> dom (map_of m)"
          then obtain a k where "map_of m i = Some (a, k)" by auto
          then show "i \<in> cm_id ` ?A" using depth_invD(2) [OF inv] ancestors_at by blast
        qed
        moreover have "cm_id c \<notin> dom (map_of m)" "cm_id c \<in> cm_id ` ?A" using that c by auto
        ultimately have "dom (map_of m) \<subset> cm_id ` ?A" by blast
        then have "card (dom (map_of m)) < card (cm_id ` ?A)" using fin(1) by (simp add: psubset_card_mono)
        then show ?thesis using cd(2) card_image [OF fin(2)] by simp
      qed
      have "depth_sum ?A (map_of (depth_insert c d m)) < depth_sum ?A (map_of m)"
        unfolding m' by (rule depth_sum_less [OF fin c]) (use new small in \<open>auto split: option.splits\<close>)
      then have "((?stack, depth_insert c d m), (stack, m)) \<in> measures [\<lambda>(_, m). depth_sum ?A (map_of m), \<lambda>(s, _). length s]"
        by simp
      moreover have "depth_inv get head ?stack (map_of (depth_insert c d m))"
        unfolding m'
      proof (rule depth_inv_visit)
        show "depth_inv get head ((c, d) # rest) (map_of m)" using inv Cons x by simp
        show "y = c \<and> d < e" if "map_of m (cm_id c) = Some (y, e)" for y e using same new that by blast
      qed (auto simp: finite_dom_map_of)
      ultimately have "\<exists>m'. depth_loop get ?stack (depth_insert c d m) = Some (Inr m') \<and>
          depth_inv get head [] (map_of m') \<and> (hm_wf (depth_insert c d m) \<longrightarrow> hm_wf m')"
        by (rule IH)
      moreover have "hm_wf m \<longrightarrow> hm_wf (depth_insert c d m)" by (simp add: depth_insert_def)
      ultimately show ?thesis
        using False Cons x push_parents_at_parents [OF hist c, of "d + 1" rest] by (subst depth_loop.simps) auto
    qed
  qed
qed

text \<open>The map that is returned holds every ancestor with its distance, and nothing else.\<close>

lemma list_recursive_with_depth_all:
  assumes "history_ok get head"
  obtains m where "list_recursive_with_depth get head [] 0 = Some (Inr m)" "hm_wf m"
    "\<And>i c d. map_of m i = Some (c, d) \<longleftrightarrow> c \<in> ancestors get head \<and> i = cm_id c \<and> d = distance get head c"
    "\<And>c. c \<in> ancestors get head \<Longrightarrow> distance get head c < card (ancestors get head)"
proof -
  have "depth_inv get head [(head, 0)] (map_of [])" by (simp add: depth_inv_def)
  from depth_loop_all [OF assms this] obtain m where
    m: "depth_loop get [(head, 0)] [] = Some (Inr m)" "hm_wf m" and inv: "depth_inv get head [] (map_of m)" by auto
  have complete: "map_of m (cm_id c) = Some (c, distance get head c)" if c: "c \<in> ancestors get head" for c
  proof -
    obtain d where d: "d \<le> distance get head c" "map_of m (cm_id c) = Some (c, d)"
      using depth_inv_done [OF inv distance_at [OF c]] by blast
    have "at_distance get head d c" using depth_invD(2) [OF inv d(2)] by blast
    then have "distance get head c \<le> d" by (rule distance_le)
    with d show ?thesis by simp
  qed
  have "c \<in> ancestors get head \<and> i = cm_id c \<and> d = distance get head c" if "map_of m i = Some (c, d)" for i c d
  proof -
    have "cm_id c = i" "c \<in> ancestors get head" using depth_invD(2) [OF inv that] by (auto simp: ancestors_at)
    with complete [of c] that show ?thesis by simp
  qed
  moreover have "distance get head c < card (ancestors get head)" if c: "c \<in> ancestors get head" for c
  proof -
    have "dom (map_of m) \<subseteq> cm_id ` ancestors get head" using calculation by (auto simp: dom_def)
    moreover have "finite (cm_id ` ancestors get head)" using assms by (simp add: history_ok_def)
    ultimately have "card (dom (map_of m)) \<le> card (cm_id ` ancestors get head)" by (metis card_mono)
    also have "\<dots> = card (ancestors get head)" by (rule card_image) (use assms in \<open>simp add: history_ok_def\<close>)
    finally show ?thesis using depth_invD(2) [OF inv complete [OF c]] by linarith
  qed
  ultimately show thesis using that [of m] m complete unfolding list_recursive_with_depth_def by blast
qed

end

section \<open>Properties\<close>

text \<open>C19: the walk with depths always returns on a history that can be read, and its map holds exactly
  the ancestors, each under its id with the length of the shortest way to it from the head.\<close>

theorem depths_are_distances:
  assumes "history_ok (get_by_hash st fuel) head"
  shows "\<exists>m. list_recursive_with_depth (get_by_hash st fuel) head [] 0 = Some (Inr m) \<and>
    (\<forall>i c d. map_of m i = Some (c, d) \<longleftrightarrow>
       c \<in> ancestors (get_by_hash st fuel) head \<and> i = cm_id c \<and> d = distance (get_by_hash st fuel) head c)"
  by (rule disk_commits.list_recursive_with_depth_all [OF assms]) blast

lemma merge_distance: "distance merge_get m4 m1 = 2"
proof (rule antisym)
  have "at_distance merge_get m4 2 m1" by (simp add: numeral_2_eq_2 at_distance_Suc) (metis list.set_intros(1) merge_parents(2))
  then show "distance merge_get m4 m1 \<le> 2" by (rule distance_le)
  let ?g = "\<lambda>c. if c = m1 then 2 else if c = m4 then 0 else 1 :: nat"
  have "?g m1 \<le> distance merge_get m4 m1"
  proof (rule distance_ge [where g = ?g])
    show "?g p \<le> Suc (?g a)" if "p \<in> set (commit_parents merge_get a)" "a \<in> ancestors merge_get m4" for a p
      using that unfolding merge_ancestors by (elim insertE emptyE) auto
  qed (simp_all add: merge_ancestors)
  then show "2 \<le> distance merge_get m4 m1" by simp
qed

lemma depths_are_distances_witness:
  "\<exists>m. list_recursive_with_depth (get_by_hash (history_store merge_history) 2) m4 [] 0 = Some (Inr m) \<and>
     map_of m (merkle_hash_to_string 1) = Some (m1, 2)"
  using depths_are_distances [of "history_store merge_history" 2 m4] merge_history_ok merge_ancestors merge_distance
  unfolding merge_get_def [symmetric] by fastforce

section \<open>The common ancestor\<close>

lemma lca_fold:
  assumes "\<forall>i d. map_of from_head i = Some d \<longrightarrow> snd d < usize_max"
  shows "case fold (lca_step from_head) xs (False, usize_max, first) of (found, min_depth, lca) \<Rightarrow>
     if found then lca \<in> fst ` set xs \<and> (\<exists>y. map_of from_head (cm_id lca) = Some (y, min_depth)) \<and>
         (\<forall>x \<in> fst ` set xs. \<forall>y d. map_of from_head (cm_id x) = Some (y, d) \<longrightarrow> min_depth \<le> d)
     else min_depth = usize_max \<and> (\<forall>x \<in> fst ` set xs. map_of from_head (cm_id x) = None)"
proof (induction xs rule: rev_induct)
  case (snoc x xs)
  obtain found min_depth lca where f: "fold (lca_step from_head) xs (False, usize_max, first) = (found, min_depth, lca)"
    by (metis prod_cases3)
  obtain c d where x: "x = (c, d)" by force
  show ?case
  proof (cases "map_of from_head (cm_id c)")
    case None
    then show ?thesis using snoc f by (auto simp: x lca_step_def)
  next
    case (Some yd)
    obtain y e where yd: "yd = (y, e)" by force
    have "e < usize_max" using assms [THEN spec, of "cm_id c", THEN spec, of yd] Some yd by simp
    then show ?thesis using snoc f Some yd
      by (cases found; cases "e < min_depth") (auto simp: x lca_step_def)
  qed
qed simp

context commit_graph
begin

lemma ancestors_read:
  assumes "get h = Inr (Some head)" "a \<in> ancestors get head"
  shows "\<exists>g. get g = Inr (Some a)"
proof -
  have "ancestors get head \<subseteq> {a. \<exists>g. get g = Inr (Some a)}"
    unfolding ancestors_def
  proof (rule reach_least)
    show "p \<in> {a. \<exists>g. get g = Inr (Some a)}" if "p \<in> set (commit_parents get a)" for a p
      using that commit_parents_read by blast
  qed (use assms(1) in auto)
  with assms(2) show ?thesis by auto
qed

lemma lca_all:
  assumes order: "\<And>xs. mset (order xs) = mset xs"
    and stored: "stored_by_id get"
    and base: "revision_get get kv rs (cm_id base) = Inr (Some base)" "history_ok get base"
    and merge: "revision_get get kv rs (cm_id merge) = Inr (Some merge)" "history_ok get merge"
    and small: "card (ancestors get base) \<le> usize_max"
  shows "case lowest_common_ancestor_from_commits order get kv rs base merge of
      Some (Inr None) \<Rightarrow> ancestors get base \<inter> ancestors get merge = {}
    | Some (Inr (Some c)) \<Rightarrow> c \<in> ancestors get base \<inter> ancestors get merge \<and>
        (\<forall>x \<in> ancestors get base \<inter> ancestors get merge. distance get base c \<le> distance get base x)
    | _ \<Rightarrow> False"
proof -
  let ?B = "ancestors get base" and ?M = "ancestors get merge"
  obtain mb where mb: "list_recursive_with_depth get base [] 0 = Some (Inr mb)" "hm_wf mb"
    "\<And>i c d. map_of mb i = Some (c, d) \<longleftrightarrow> c \<in> ?B \<and> i = cm_id c \<and> d = distance get base c"
    "\<And>c. c \<in> ?B \<Longrightarrow> distance get base c < card ?B"
    by (rule list_recursive_with_depth_all [OF base(2)]) blast
  obtain mm where mm: "list_recursive_with_depth get merge [] 0 = Some (Inr mm)" "hm_wf mm"
    "\<And>i c d. map_of mm i = Some (c, d) \<longleftrightarrow> c \<in> ?M \<and> i = cm_id c \<and> d = distance get merge c"
    by (rule list_recursive_with_depth_all [OF merge(2)]) blast
  have same: "b = m" if "b \<in> ?B" "m \<in> ?M" "cm_id b = cm_id m" for b m
  proof -
    obtain g h where "get g = Inr (Some base)" "get h = Inr (Some merge)"
      using base(1) merge(1) revision_get_stored by metis
    then obtain g' h' where gh: "get g' = Inr (Some b)" "get h' = Inr (Some m)"
      using ancestors_read \<open>b \<in> ?B\<close> \<open>m \<in> ?M\<close> by metis
    then have "g' = h'" using stored \<open>cm_id b = cm_id m\<close> unfolding stored_by_id_def by (metis merkle_hash_to_string_inj)
    with gh show ?thesis by simp
  qed
  have "map_of mb (cm_id base) = Some (base, distance get base base)" using mb(3) by (simp add: ancestors_def)
  then have "mb \<noteq> []" by auto
  moreover have "length (order (map snd mb)) = length mb" by (metis order size_mset length_map)
  ultimately have "order (map snd mb) \<noteq> []" by auto
  then obtain first d0 rest where first: "order (map snd mb) = (first, d0) # rest" by (metis list.exhaust prod.exhaust)
  have keys: "fst ` set (order (map snd mm)) = ?M"
  proof -
    have "set (order (map snd mm)) = snd ` set mm" using mset_eq_setD [OF order [of "map snd mm"]] by simp
    moreover have "set mm = (\<lambda>c. (cm_id c, c, distance get merge c)) ` ?M"
    proof (rule set_eqI)
      fix x :: "string \<times> commit \<times> nat"
      obtain i c d where x: "x = (i, c, d)" by (metis prod_cases3)
      have "(i, c, d) \<in> set mm \<longleftrightarrow> c \<in> ?M \<and> i = cm_id c \<and> d = distance get merge c"
        using mm(3) hm_wf_map_of [OF mm(2)] by simp
      then show "x \<in> set mm \<longleftrightarrow> x \<in> (\<lambda>c. (cm_id c, c, distance get merge c)) ` ?M" unfolding x by blast
    qed
    ultimately show ?thesis by (simp add: image_image)
  qed
  have small': "\<forall>i d. map_of mb i = Some d \<longrightarrow> snd d < usize_max"
  proof (intro allI impI)
    fix i d
    assume "map_of mb i = Some d"
    then have "fst d \<in> ?B" "snd d = distance get base (fst d)" using mb(3) [of i "fst d" "snd d"] by simp_all
    then show "snd d < usize_max" using mb(4) [of "fst d"] small by simp
  qed
  obtain found min_depth lca where f: "fold (lca_step mb) (order (map snd mm)) (False, usize_max, first) = (found, min_depth, lca)"
    by (metis prod_cases3)
  note fold = lca_fold [OF small', of "order (map snd mm)" first, unfolded f prod.case keys]
  have run: "lowest_common_ancestor_from_commits order get kv rs base merge = Some (Inr (if found then Some lca else None))"
    using base(1) merge(1) mb(1) mm(1) first f by (simp add: lowest_common_ancestor_from_commits_def list_from_with_depth_def)
  show ?thesis
  proof (cases found)
    case True
    then have lca: "lca \<in> ?M" "\<exists>y. map_of mb (cm_id lca) = Some (y, min_depth)"
      "\<forall>x \<in> ?M. \<forall>y d. map_of mb (cm_id x) = Some (y, d) \<longrightarrow> min_depth \<le> d"
      using fold by auto
    then obtain y where y: "y \<in> ?B" "cm_id lca = cm_id y" "min_depth = distance get base y"
      using mb(3) by blast
    have "y = lca" using same [OF y(1) lca(1)] y(2) by simp
    moreover have "min_depth \<le> distance get base x" if "x \<in> ?B \<inter> ?M" for x
      using lca(3) mb(3) [of "cm_id x" x "distance get base x"] that by blast
    ultimately show ?thesis using run True lca(1) y by simp
  next
    case False
    then have "\<forall>x \<in> ?M. map_of mb (cm_id x) = None" using fold by simp
    then have "?B \<inter> ?M = {}" using mb(3) by (metis disjoint_iff not_None_eq option.distinct(1))
    then show ?thesis using run False by simp
  qed
qed

end

text \<open>C20: the common ancestor chosen for a merge is a common ancestor that is nearest to the base
  commit, and none is reported exactly when there is none. It need not be a lowest one: in the history
  of the witness commit 2 is a common ancestor of 6 and 7, and the answer is 1, an ancestor of 2,
  because a branch that left at 1 was merged into 6.\<close>

theorem common_ancestor_nearest_to_base:
  assumes "\<And>xs. mset (order xs) = mset xs" "stored_by_id (get_by_hash st fuel)"
    and "revision_get (get_by_hash st fuel) kv rs (cm_id base) = Inr (Some base)"
    and "revision_get (get_by_hash st fuel) kv rs (cm_id merge) = Inr (Some merge)"
    and "history_ok (get_by_hash st fuel) base" "history_ok (get_by_hash st fuel) merge"
    and "card (ancestors (get_by_hash st fuel) base) \<le> usize_max"
  shows "case lowest_common_ancestor_from_commits order (get_by_hash st fuel) kv rs base merge of
      Some (Inr None) \<Rightarrow> ancestors (get_by_hash st fuel) base \<inter> ancestors (get_by_hash st fuel) merge = {}
    | Some (Inr (Some c)) \<Rightarrow> c \<in> ancestors (get_by_hash st fuel) base \<inter> ancestors (get_by_hash st fuel) merge \<and>
        (\<forall>x \<in> ancestors (get_by_hash st fuel) base \<inter> ancestors (get_by_hash st fuel) merge.
           distance (get_by_hash st fuel) base c \<le> distance (get_by_hash st fuel) base x)
    | _ \<Rightarrow> False"
  using assms by (intro disk_commits.lca_all)

subsection \<open>A lower common ancestor that is not chosen\<close>

definition lca_history :: "(merkle_hash \<times> merkle_hash list \<times> timestamp) list" where
  "lca_history = [(1, [], 1), (2, [1], 2), (3, [2], 3), (4, [3], 4), (5, [1], 3), (6, [4, 5], 5), (7, [2], 4)]"

definition lca_get :: commit_source where
  "lca_get = get_by_hash (history_store lca_history) 2"

abbreviation "l1 \<equiv> sample_commit_of 1 [] 1"
abbreviation "l2 \<equiv> sample_commit_of 2 [1] 2"
abbreviation "l3 \<equiv> sample_commit_of 3 [2] 3"
abbreviation "l4 \<equiv> sample_commit_of 4 [3] 4"
abbreviation "l5 \<equiv> sample_commit_of 5 [1] 3"
abbreviation "l6 \<equiv> sample_commit_of 6 [4, 5] 5"
abbreviation "l7 \<equiv> sample_commit_of 7 [2] 4"

lemma lca_get_eq: "lca_get h = Inr (map_option (\<lambda>(ps, t). sample_commit_of h ps t) (map_of lca_history h))"
  unfolding lca_get_def using get_history_store [of lca_history 1] by (simp add: numeral_2_eq_2)

lemma lca_parents [simp]:
  "commit_parents lca_get l1 = []" "commit_parents lca_get l2 = [l1]" "commit_parents lca_get l3 = [l2]"
  "commit_parents lca_get l4 = [l3]" "commit_parents lca_get l5 = [l1]" "commit_parents lca_get l6 = [l4, l5]"
  "commit_parents lca_get l7 = [l2]"
  by (simp_all add: commit_parents_sample lca_get_eq lca_history_def)

lemma lca_ancestors: "ancestors lca_get l6 = {l6, l4, l5, l3, l2, l1}" "ancestors lca_get l7 = {l7, l2, l1}"
proof -
  have "reach lca_get (\<lambda>_. False) l6 \<subseteq> {l6, l4, l5, l3, l2, l1}" by (rule reach_least) auto
  moreover have 6: "l4 \<in> reach lca_get (\<lambda>_. False) l6" "l5 \<in> reach lca_get (\<lambda>_. False) l6"
    by (auto intro: reach_step [of l6])
  moreover from 6 have "l3 \<in> reach lca_get (\<lambda>_. False) l6" by (auto intro: reach_step [of l4])
  moreover from this have "l2 \<in> reach lca_get (\<lambda>_. False) l6" by (auto intro: reach_step [of l3])
  moreover from this have "l1 \<in> reach lca_get (\<lambda>_. False) l6" by (auto intro: reach_step [of l2])
  ultimately show "ancestors lca_get l6 = {l6, l4, l5, l3, l2, l1}" unfolding ancestors_def by auto
  have "reach lca_get (\<lambda>_. False) l7 \<subseteq> {l7, l2, l1}" by (rule reach_least) auto
  moreover have "l2 \<in> reach lca_get (\<lambda>_. False) l7" by (auto intro: reach_step [of l7])
  moreover from this have "l1 \<in> reach lca_get (\<lambda>_. False) l7" by (auto intro: reach_step [of l2])
  ultimately show "ancestors lca_get l7 = {l7, l2, l1}" unfolding ancestors_def by auto
qed

lemma lca_history_ok: "history_ok lca_get l6" "history_ok lca_get l7"
  by (auto simp: history_ok_def lca_ancestors printed_ids_def lca_get_eq inj_on_def simp del: list.map)

lemma lca_distances: "distance lca_get l6 l1 \<le> 2" "3 \<le> distance lca_get l6 l2"
proof -
  have "at_distance lca_get l6 1 l5" by (simp add: at_distance_Suc)
  then have "at_distance lca_get l6 (Suc 1) l1" unfolding at_distance_Suc [of _ _ 1] by (intro exI [of _ l5]) simp
  from distance_le [OF this] show "distance lca_get l6 l1 \<le> 2" by simp
  let ?g = "\<lambda>c. if c = l6 then 0 else if c = l4 \<or> c = l5 then 1 else if c = l3 \<or> c = l1 then 2 else 3 :: nat"
  have "?g l2 \<le> distance lca_get l6 l2"
  proof (rule distance_ge [where g = ?g])
    show "?g p \<le> Suc (?g a)" if "p \<in> set (commit_parents lca_get a)" "a \<in> ancestors lca_get l6" for a p
      using that unfolding lca_ancestors by (elim insertE emptyE) auto
  qed (simp_all add: lca_ancestors)
  then show "3 \<le> distance lca_get l6 l2" by simp
qed

lemma lca_revisions:
  "revision_get lca_get list_kv \<lparr>rf_db = [], rf_head = None\<rparr> (cm_id l6) = Inr (Some l6)"
  "revision_get lca_get list_kv \<lparr>rf_db = [], rf_head = None\<rparr> (cm_id l7) = Inr (Some l7)"
proof -
  have "merkle_hash_to_string 6 \<noteq> ''HEAD''" "merkle_hash_to_string 7 \<noteq> ''HEAD''" by code_simp+
  then show "revision_get lca_get list_kv \<lparr>rf_db = [], rf_head = None\<rparr> (cm_id l6) = Inr (Some l6)"
    "revision_get lca_get list_kv \<lparr>rf_db = [], rf_head = None\<rparr> (cm_id l7) = Inr (Some l7)"
    by (simp_all add: revision_get_def get_by_id_def get_commit_id_for_branch_def list_kv_def lca_get_eq lca_history_def)
qed

lemma common_ancestor_nearest_to_base_witness:
  "lowest_common_ancestor_from_commits (\<lambda>xs. xs) (get_by_hash (history_store lca_history) 2) list_kv
     \<lparr>rf_db = [], rf_head = None\<rparr> l6 l7 = Some (Inr (Some l1)) \<and>
   l2 \<in> ancestors (get_by_hash (history_store lca_history) 2) l6 \<inter> ancestors (get_by_hash (history_store lca_history) 2) l7"
proof -
  have stored: "stored_by_id lca_get"
    by (auto simp: stored_by_id_def lca_get_eq lca_history_def split: if_splits)
  have "card (ancestors lca_get l6) \<le> usize_max" by (simp add: lca_ancestors usize_max_def)
  then have *: "case lowest_common_ancestor_from_commits (\<lambda>xs. xs) lca_get list_kv \<lparr>rf_db = [], rf_head = None\<rparr> l6 l7 of
      Some (Inr None) \<Rightarrow> ancestors lca_get l6 \<inter> ancestors lca_get l7 = {}
    | Some (Inr (Some c)) \<Rightarrow> c \<in> ancestors lca_get l6 \<inter> ancestors lca_get l7 \<and>
        (\<forall>x \<in> ancestors lca_get l6 \<inter> ancestors lca_get l7. distance lca_get l6 c \<le> distance lca_get l6 x)
    | _ \<Rightarrow> False"
    using common_ancestor_nearest_to_base [where order = "\<lambda>xs. xs" and st = "history_store lca_history" and fuel = 2, folded lca_get_def,
        OF refl stored lca_revisions lca_history_ok] by simp
  have common: "ancestors lca_get l6 \<inter> ancestors lca_get l7 = {l1, l2}" unfolding lca_ancestors by auto
  from * have "lowest_common_ancestor_from_commits (\<lambda>xs. xs) lca_get list_kv \<lparr>rf_db = [], rf_head = None\<rparr> l6 l7 = Some (Inr (Some l1))"
  proof -
    obtain c where c: "lowest_common_ancestor_from_commits (\<lambda>xs. xs) lca_get list_kv \<lparr>rf_db = [], rf_head = None\<rparr> l6 l7 = Some (Inr (Some c))"
      "c \<in> {l1, l2}" "distance lca_get l6 c \<le> distance lca_get l6 l1"
      using * unfolding common by (auto split: option.splits sum.splits)
    then show ?thesis using lca_distances by auto
  qed
  then show ?thesis using common unfolding lca_get_def by auto
qed

end
