(* ===== verification/Branches.thy ===== *)
theory Branches
  imports Commit_Listing_Props
begin

text \<open>
  Branches over the commit history (\<open>repositories/branches.rs\<close>): the deletion that asks whether a
  branch has been merged, the references after a commit, and the steps the reference store makes.
  The properties: no step makes an invalid name or detaches \<open>HEAD\<close>, a deleted branch leaves
  its commits reachable, the two ways to resolve a revision agree unless a name is also an id, and
  which commit \<open>latest_commit\<close> returns.
\<close>

section \<open>Deletion\<close>

definition branch_has_been_merged ::
  "commit_source \<Rightarrow> 'c count_kv \<Rightarrow> 'd ref_kv \<Rightarrow> 'd refs \<Rightarrow> string \<Rightarrow> 'c \<Rightarrow> (bool \<times> 'c) loop" where
  "branch_has_been_merged get ckv kv rs name db =
     (case get_commit_id_for_branch kv rs name of
        None \<Rightarrow> Some (Inl (Basic ''Err: The branch does not exist.''))
      | Some branch_commit_id \<Rightarrow>
          lbind (Some (rm_head_commit_id get kv rs)) (\<lambda>h.
            case h of
              None \<Rightarrow> Some (Inr (False, db))
            | Some commit_id \<Rightarrow>
                lbind (list_from get ckv kv rs commit_id db) (\<lambda>(history, db').
                  Some (Inr (list_ex (\<lambda>commit. cm_id commit = branch_commit_id) history, db')))))"

text \<open>The result with the references and the count database that are left; a count that was stored
  before a listing failed is not kept by the model.\<close>

definition branches_delete ::
  "commit_source \<Rightarrow> 'c count_kv \<Rightarrow> 'd ref_kv \<Rightarrow> string \<Rightarrow> 'd refs \<Rightarrow> 'c \<Rightarrow> (branch res \<times> 'd refs \<times> 'c) option" where
  "branches_delete get ckv kv name rs db =
     (if is_checked_out kv rs name then Some (Inl (Basic ''Err: Cannot delete current checked out branch''), rs, db)
      else case branch_has_been_merged get ckv kv rs name db of
             None \<Rightarrow> None
           | Some (Inl e) \<Rightarrow> Some (Inl e, rs, db)
           | Some (Inr (merged, db')) \<Rightarrow>
               if merged then (case delete_branch kv name rs of (r, rs') \<Rightarrow> Some (r, rs', db'))
               else Some (Inl (Basic ''Err: The branch is not fully merged.''), rs, db'))"

section \<open>The steps of the reference store\<close>

text \<open>After a commit the branch of \<open>HEAD\<close> (or a detached \<open>HEAD\<close>) moves to it; the first commit makes the branch.\<close>

definition refs_after_commit :: "'d ref_kv \<Rightarrow> string option \<Rightarrow> string \<Rightarrow> 'd refs \<Rightarrow> 'd refs" where
  "refs_after_commit kv maybe_branch_name commit_id rs =
     (let branch_name = (case maybe_branch_name of Some b \<Rightarrow> b | None \<Rightarrow> ''main'');
          rs1 = (if rf_head rs = None then set_branch_commit_id kv branch_name commit_id (rm_set_head branch_name rs) else rs)
      in set_head_commit_id kv commit_id rs1)"

inductive ref_step :: "commit_source \<Rightarrow> 'c count_kv \<Rightarrow> 'd ref_kv \<Rightarrow> 'd refs \<Rightarrow> 'd refs \<Rightarrow> bool"
  for get :: commit_source and ckv :: "'c count_kv" and kv :: "'d ref_kv" where
  from_head: "create_from_head get kv name rs = (r, rs') \<Longrightarrow> ref_step get ckv kv rs rs'"
| create: "branches_create get kv name commit_id rs = (r, rs') \<Longrightarrow> ref_step get ckv kv rs rs'"
| checkout_new: "create_checkout get kv name rs = (r, rs') \<Longrightarrow> ref_step get ckv kv rs rs'"
| update: "branches_update get kv name commit_id rs = (r, rs') \<Longrightarrow> ref_step get ckv kv rs rs'"
| delete: "branches_delete get ckv kv name rs db = Some (r, rs', db') \<Longrightarrow> ref_step get ckv kv rs rs'"
| force: "force_delete kv name rs = (r, rs') \<Longrightarrow> ref_step get ckv kv rs rs'"
| rename: "rename_current_branch kv new_name rs = (r, rs') \<Longrightarrow> ref_step get ckv kv rs rs'"
| commit: "(case b of Some n \<Rightarrow> \<not> is_invalid_branch_name n | None \<Rightarrow> True) \<Longrightarrow>
    ref_step get ckv kv rs (refs_after_commit kv b commit_id rs)"

definition names_valid :: "'d ref_kv \<Rightarrow> 'd refs \<Rightarrow> bool" where
  "names_valid kv rs \<longleftrightarrow> (\<forall>name. has_branch kv name rs \<longrightarrow> \<not> is_invalid_branch_name name)"

definition on_branch :: "'d ref_kv \<Rightarrow> 'd refs \<Rightarrow> bool" where
  "on_branch kv rs \<longleftrightarrow> (\<exists>b. rf_head rs = Some b \<and> has_branch kv b rs)"

text \<open>What a step may do: keep names valid, and keep \<open>HEAD\<close> on a branch.\<close>

definition keeps_refs :: "'d ref_kv \<Rightarrow> 'd refs \<Rightarrow> 'd refs \<Rightarrow> bool" where
  "keeps_refs kv rs rs' \<longleftrightarrow> (names_valid kv rs \<longrightarrow> names_valid kv rs') \<and> (on_branch kv rs \<longrightarrow> on_branch kv rs')"

named_theorems ref_defs \<open>reading and writing references\<close>

lemmas [ref_defs] = keeps_refs_def names_valid_def on_branch_def has_branch_def set_branch_commit_id_def rm_set_head_def
  get_current_branch_def get_commit_id_for_branch_def read_head_ref_def get_branch_by_name_def

lemma keeps_refl [simp]: "keeps_refs kv rs rs"
  by (simp add: keeps_refs_def)

lemma keeps_trans: "keeps_refs kv rs rs' \<Longrightarrow> keeps_refs kv rs' rs'' \<Longrightarrow> keeps_refs kv rs rs''"
  by (simp add: keeps_refs_def)

lemma on_branch_current: "on_branch kv rs \<longleftrightarrow> get_current_branch kv rs \<noteq> None"
  by (auto simp: ref_defs split: option.splits)

lemma main_valid: "\<not> is_invalid_branch_name ''main''"
  by code_simp

lemma keeps_set_branch: "kv_lawful kv \<Longrightarrow> has_branch kv name rs \<Longrightarrow> keeps_refs kv rs (set_branch_commit_id kv name i rs)"
  by (auto simp: ref_defs)

lemma keeps_create_branch: "kv_lawful kv \<Longrightarrow> create_branch kv name i rs = (r, rs') \<Longrightarrow> keeps_refs kv rs rs'"
  by (auto simp: create_branch_def ref_defs split: if_splits)

lemma keeps_delete_branch:
  "kv_lawful kv \<Longrightarrow> delete_branch kv name rs = (r, rs') \<Longrightarrow> \<not> is_checked_out kv rs name \<Longrightarrow> keeps_refs kv rs rs'"
  by (auto simp: delete_branch_def is_checked_out_def ref_defs split: option.splits if_splits)

lemma keeps_set_head_commit_id: "kv_lawful kv \<Longrightarrow> keeps_refs kv rs (set_head_commit_id kv i rs)"
  by (auto simp: set_head_commit_id_def set_head_branch_commit_id_def keeps_set_branch ref_defs split: option.splits)

lemma keeps_rename: "kv_lawful kv \<Longrightarrow> rename_current_branch kv name rs = (r, rs') \<Longrightarrow> keeps_refs kv rs rs'"
  by (auto simp: rename_current_branch_def rename_branch_def sbind_def ref_defs split: option.splits if_splits)

lemma keeps_checkout_new: "kv_lawful kv \<Longrightarrow> create_checkout get kv name rs = (r, rs') \<Longrightarrow> keeps_refs kv rs rs'"
  by (auto simp: create_checkout_def create_branch_def sbind_def ref_defs Let_def split: sum.splits if_splits)

lemma keeps_commit:
  assumes "kv_lawful kv" "case b of Some n \<Rightarrow> \<not> is_invalid_branch_name n | None \<Rightarrow> True"
  shows "keeps_refs kv rs (refs_after_commit kv b i rs)"
proof (cases "rf_head rs")
  case None
  let ?n = "case b of Some b \<Rightarrow> b | None \<Rightarrow> ''main''"
  have "\<not> is_invalid_branch_name ?n" using assms(2) main_valid by (cases b) auto
  then have "keeps_refs kv rs (set_branch_commit_id kv ?n i (rm_set_head ?n rs))"
    using assms(1) None by (auto simp: ref_defs)
  then show ?thesis using None keeps_trans [OF _ keeps_set_head_commit_id [OF assms(1)]]
    by (simp add: refs_after_commit_def Let_def)
next
  case (Some h)
  then show ?thesis using keeps_set_head_commit_id [OF assms(1)] by (simp add: refs_after_commit_def Let_def)
qed

lemma keeps_step: "ref_step get ckv kv rs rs' \<Longrightarrow> kv_lawful kv \<Longrightarrow> keeps_refs kv rs rs'"
proof (induction rule: ref_step.induct)
  case (from_head name rs r rs')
  then show ?case
    by (auto simp: create_from_head_def sbind_def intro: keeps_create_branch split: sum.splits)
next
  case (create name commit_id rs r rs')
  then show ?case
    by (auto simp: branches_create_def sbind_def intro: keeps_create_branch split: sum.splits if_splits)
next
  case (update name commit_id rs r rs')
  then show ?case
    by (auto simp: branches_update_def sbind_def intro: keeps_create_branch split: sum.splits if_splits option.splits)
       (auto intro!: keeps_set_branch simp: get_branch_by_name_def get_commit_id_for_branch_def has_branch_def)
next
  case (delete name rs db r rs' db')
  then show ?case
    by (auto simp: branches_delete_def intro: keeps_delete_branch split: if_splits option.splits sum.splits prod.splits)
next
  case (force name rs r rs')
  then show ?case
    by (auto simp: force_delete_def intro!: keeps_delete_branch split: option.splits if_splits)
       (auto simp: is_checked_out_def)
qed (auto intro: keeps_checkout_new keeps_rename keeps_commit)

text \<open>C23: from any references whose branch names are valid, every sequence of branch operations and
  commits keeps all names valid, and a \<open>HEAD\<close> that is on a branch stays on a branch.\<close>

theorem branch_steps_keep_refs:
  assumes "kv_lawful kv" "(ref_step get ckv kv)\<^sup>*\<^sup>* rs rs'" "names_valid kv rs"
  shows "names_valid kv rs' \<and> (get_current_branch kv rs \<noteq> None \<longrightarrow> get_current_branch kv rs' \<noteq> None)"
proof -
  have "keeps_refs kv rs rs'"
    using assms(2) by induction (auto intro: keeps_trans keeps_step [OF _ assms(1)])
  then show ?thesis using assms(3) on_branch_current [of kv rs] on_branch_current [of kv rs'] by (simp add: keeps_refs_def)
qed

lemma branch_steps_keep_refs_witness:
  "names_valid list_kv (refs_after_commit list_kv None ''5'' \<lparr>rf_db = [], rf_head = None\<rparr>)"
proof -
  have "(ref_step merge_get (list_kv :: ((string \<times> nat) list, nat) kv_ops) list_kv)\<^sup>*\<^sup>* \<lparr>rf_db = [], rf_head = None\<rparr> (refs_after_commit list_kv None ''5'' \<lparr>rf_db = [], rf_head = None\<rparr>)"
    by (rule r_into_rtranclp) (rule ref_step.commit, simp)
  moreover have "names_valid list_kv \<lparr>rf_db = [], rf_head = None\<rparr>"
    by (simp add: names_valid_def has_branch_def list_kv_def)
  ultimately show ?thesis using branch_steps_keep_refs [OF list_kv_lawful] by blast
qed

section \<open>What deletion keeps\<close>

lemma count_from_total:
  assumes "history_ok (get_by_hash st fuel) c" "revision_get (get_by_hash st fuel) kv rs revision = Inr (Some c)"
  shows "\<exists>n b db'. count_from (get_by_hash st fuel) ckv kv rs revision db = Some (Inr ((n, b), db'))"
  using disk_commits.traverse_commits_count [OF assms(1), of
          "\<lparr>tc_stop_at_base = None, tc_skip = 0, tc_limit = usize_max, tc_cache_db = Some db, tc_known_total_count = None\<rparr>" ckv] assms(2)
  by (cases "kv_get ckv db (cm_id c)") (auto simp: count_from_def get_cached_count_def)

lemma list_from_ancestors:
  assumes "history_ok (get_by_hash st fuel) c" "revision_get (get_by_hash st fuel) kv rs (cm_id c) = Inr (Some c)"
    and "\<not> str_contains ''..'' (cm_id c)" "card (ancestors (get_by_hash st fuel) c) \<le> usize_max"
  shows "\<exists>cs db'. list_from (get_by_hash st fuel) ckv kv rs (cm_id c) db = Some (Inr (cs, db')) \<and>
    set cs = ancestors (get_by_hash st fuel) c"
proof -
  let ?get = "get_by_hash st fuel"
  obtain cs where cs: "distinct cs" "set cs = ancestors ?get c"
    "\<And>skip limit known. skip + limit \<le> usize_max \<Longrightarrow> list_recursive_paginated ?get ckv c skip limit None known =
       Some (Inr (take limit (drop skip cs), case known of Some t \<Rightarrow> t | None \<Rightarrow> length cs))"
    using disk_commits.listing [OF assms(1), where base = None and ckv = ckv] unfolding ancestors_def option.case by metis
  have "length cs \<le> usize_max" using distinct_card [OF cs(1)] cs(2) assms(4) by simp
  moreover obtain n b db' where "count_from ?get ckv kv rs (cm_id c) db = Some (Inr ((n, b), db'))"
    using count_from_total [OF assms(1,2)] by metis
  moreover have "\<not> usize_max \<le> 10" by (simp add: usize_max_def)
  ultimately have "list_from ?get ckv kv rs (cm_id c) db = Some (Inr (cs, db'))"
    using assms(2,3) cs(3) by (simp add: list_from_def list_from_paginated_impl_def usize_add_def)
  then show ?thesis using cs(2) by blast
qed

text \<open>C24: deleting a branch without force always returns. It succeeds exactly when the branch exists, is
  not the current one and its commit is an ancestor of the commit of \<open>HEAD\<close>, so no commit becomes
  unreachable; then only that branch is gone. Otherwise the references stay as they were.\<close>

theorem delete_keeps_history:
  assumes "kv_lawful kv" "history_ok (get_by_hash st fuel) c" "card (ancestors (get_by_hash st fuel) c) \<le> usize_max"
    and "rm_head_commit_id (get_by_hash st fuel) kv rs = Inr (Some (cm_id c))" "\<not> str_contains ''..'' (cm_id c)"
    and "revision_get (get_by_hash st fuel) kv rs (cm_id c) = Inr (Some c)"
  shows "\<exists>r rs' db'. branches_delete (get_by_hash st fuel) ckv kv name rs db = Some (r, rs', db') \<and>
    (case r of
       Inr b \<Rightarrow> \<not> is_checked_out kv rs name \<and> kv_get kv (rf_db rs) name = Some (br_commit_id b) \<and>
         (\<exists>a \<in> ancestors (get_by_hash st fuel) c. cm_id a = br_commit_id b) \<and>
         kv_get kv (rf_db rs') = (kv_get kv (rf_db rs))(name := None) \<and> rf_head rs' = rf_head rs
     | Inl _ \<Rightarrow> rs' = rs \<and> (is_checked_out kv rs name \<or>
         (\<forall>a \<in> ancestors (get_by_hash st fuel) c. kv_get kv (rf_db rs) name \<noteq> Some (cm_id a))))"
proof -
  let ?get = "get_by_hash st fuel"
  obtain cs db1 where cs: "list_from ?get ckv kv rs (cm_id c) db = Some (Inr (cs, db1))" "set cs = ancestors ?get c"
    using list_from_ancestors [OF assms(2,6,5,3)] by metis
  show ?thesis
  proof (cases "is_checked_out kv rs name")
    case True
    then show ?thesis by (auto simp: branches_delete_def)
  next
    case out: False
    show ?thesis
    proof (cases "kv_get kv (rf_db rs) name")
      case None
      then show ?thesis using out
        by (auto simp: branches_delete_def branch_has_been_merged_def get_commit_id_for_branch_def)
    next
      case (Some j)
      have merged: "branch_has_been_merged ?get ckv kv rs name db =
          Some (Inr (list_ex (\<lambda>commit. cm_id commit = j) cs, db1))"
        using Some assms(4) cs(1) by (simp add: branch_has_been_merged_def get_commit_id_for_branch_def)
      have delete: "delete_branch kv name rs =
          (Inr \<lparr>br_name = name, br_commit_id = j\<rparr>, rs\<lparr>rf_db := kv_delete kv name (rf_db rs)\<rparr>)"
        using Some by (simp add: delete_branch_def get_branch_by_name_def get_commit_id_for_branch_def)
      have ex: "list_ex (\<lambda>commit. cm_id commit = j) cs \<longleftrightarrow> (\<exists>a \<in> ancestors ?get c. cm_id a = j)"
        by (simp add: list_ex_iff cs(2))
      show ?thesis
        using out merged delete assms(1) Some unfolding ex
        by (cases "\<exists>a \<in> ancestors ?get c. cm_id a = j") (auto simp: branches_delete_def)
    qed
  qed
qed

lemma merge_id: "merkle_hash_to_string 4 = ''4''" "merkle_hash_to_string 2 = ''2''" "merkle_hash_to_string 1 = ''1''"
  by code_simp+

definition two_branches :: "(string \<times> string) list refs" where
  "two_branches = \<lparr>rf_db = [(''main'', ''4''), (''topic'', ''2'')], rf_head = Some ''main''\<rparr>"

lemma sample_id_revision: "revision_get merge_get list_kv two_branches ''4'' = Inr (Some m4)"
proof -
  have "merkle_hash_from_str ''4'' = Inr 4" by (metis merge_id(1) from_str_to_string)
  then show ?thesis
    by (simp add: revision_get_def get_by_id_def get_commit_id_for_branch_def list_kv_def two_branches_def
        merge_get_eq merge_history_def)
qed

lemma delete_keeps_history_witness:
  "\<exists>b rs' db'. branches_delete (get_by_hash (history_store merge_history) 2) list_kv list_kv ''topic'' two_branches
       ([] :: (string \<times> nat) list) = Some (Inr b, rs', db') \<and> kv_get list_kv (rf_db rs') ''topic'' = None"
proof -
  have head: "rm_head_commit_id merge_get list_kv two_branches = Inr (Some (cm_id m4))"
    by (simp add: rm_head_commit_id_def read_head_ref_def get_commit_id_for_branch_def list_kv_def two_branches_def merge_id)
  have dots: "\<not> str_contains ''..'' (cm_id m4)" by (simp add: merge_id)
  have rev: "revision_get merge_get list_kv two_branches (cm_id m4) = Inr (Some m4)"
    using sample_id_revision by (simp add: merge_id)
  have card: "card (ancestors merge_get m4) \<le> usize_max" by (simp add: merge_ancestors usize_max_def)
  obtain r rs' db' where
    del: "branches_delete merge_get list_kv list_kv ''topic'' two_branches ([] :: (string \<times> nat) list) = Some (r, rs', db')"
    and r: "case r of
       Inr b \<Rightarrow> \<not> is_checked_out list_kv two_branches ''topic'' \<and> kv_get list_kv (rf_db two_branches) ''topic'' = Some (br_commit_id b) \<and>
         (\<exists>a \<in> ancestors merge_get m4. cm_id a = br_commit_id b) \<and>
         kv_get list_kv (rf_db rs') = (kv_get list_kv (rf_db two_branches))(''topic'' := None) \<and> rf_head rs' = rf_head two_branches
     | Inl _ \<Rightarrow> rs' = two_branches \<and> (is_checked_out list_kv two_branches ''topic'' \<or>
         (\<forall>a \<in> ancestors merge_get m4. kv_get list_kv (rf_db two_branches) ''topic'' \<noteq> Some (cm_id a)))"
    using delete_keeps_history [OF list_kv_lawful, where st = "history_store merge_history" and fuel = 2, folded merge_get_def,
        OF merge_history_ok card head dots rev, of list_kv "''topic''" "[]"] by (elim exE conjE) blast
  have "\<not> is_checked_out list_kv two_branches ''topic''"
    by (simp add: is_checked_out_def get_current_branch_def read_head_ref_def get_commit_id_for_branch_def list_kv_def two_branches_def)
  moreover have "m2 \<in> ancestors merge_get m4" by (simp add: merge_ancestors)
  moreover have "kv_get list_kv (rf_db two_branches) ''topic'' = Some (cm_id m2)"
    by (simp add: list_kv_def two_branches_def merge_id)
  ultimately obtain b where "r = Inr b" using r by (cases r) auto
  with del r show ?thesis by (auto simp: merge_get_def)
qed

section \<open>Two ways to resolve a revision\<close>

lemma revision_lookup_same:
  assumes "name \<noteq> ''HEAD''"
    and "case get_commit_id_for_branch kv rs name of
        None \<Rightarrow> True
      | Some i \<Rightarrow> get_by_id (get_by_hash st fuel) name = Inr None \<and> (\<exists>r. get_by_id (get_by_hash st fuel) i = Inr r)"
  shows "get_commit_or_head (get_by_hash st fuel) kv rs (Some name) =
     rbind (revision_get (get_by_hash st fuel) kv rs name) (ok_or (Basic ''Commit not found''))"
proof (cases "get_commit_id_for_branch kv rs name")
  case None
  then have branch: "get_commit_by_branch (get_by_hash st fuel) kv rs name = Inr None"
    by (simp add: get_commit_by_branch_def get_by_name_def get_branch_by_name_def)
  show ?thesis
  proof (cases "get_by_id (get_by_hash st fuel) name")
    case (Inr c)
    then show ?thesis using None assms(1) branch
      by (cases c) (simp_all add: get_commit_or_head_def get_commit_by_ref_def revision_get_def)
  qed (use None assms(1) in \<open>simp add: get_commit_or_head_def get_commit_by_ref_def revision_get_def\<close>)
next
  case (Some i)
  then obtain r where r: "get_by_id (get_by_hash st fuel) name = Inr None" "get_by_id (get_by_hash st fuel) i = Inr r"
    using assms(2) by auto
  then have "get_commit_by_branch (get_by_hash st fuel) kv rs name = Inr r"
    using Some by (simp add: get_commit_by_branch_def get_by_name_def get_branch_by_name_def)
  then show ?thesis using Some r assms(1)
    by (simp add: get_commit_or_head_def get_commit_by_ref_def revision_get_def)
qed

text \<open>C40: a name other than \<open>HEAD\<close> that is no branch means the same as a revision and as a commit or
  branch: the same commit, none, or the same error. So does the name of a branch that is not the id
  of a commit as well, provided that reading the branch's commit does not fail. The name of a branch
  that is the id of a commit means that commit in the second lookup, and the branch's commit in the first.
  \<open>HEAD\<close>, with no branch of that name, is the head commit as a revision and never found in the second.\<close>

theorem revision_lookups_agree:
  "(name \<noteq> ''HEAD'' \<longrightarrow> get_commit_id_for_branch kv rs name = None \<longrightarrow>
      get_commit_or_head (get_by_hash st fuel) kv rs (Some name) =
        rbind (revision_get (get_by_hash st fuel) kv rs name) (ok_or (Basic ''Commit not found''))) \<and>
   (\<forall>i r. name \<noteq> ''HEAD'' \<longrightarrow> get_commit_id_for_branch kv rs name = Some i \<longrightarrow>
      get_by_id (get_by_hash st fuel) name = Inr None \<longrightarrow> get_by_id (get_by_hash st fuel) i = Inr r \<longrightarrow>
      get_commit_or_head (get_by_hash st fuel) kv rs (Some name) =
        rbind (revision_get (get_by_hash st fuel) kv rs name) (ok_or (Basic ''Commit not found''))) \<and>
   (\<forall>i c. name \<noteq> ''HEAD'' \<longrightarrow> get_commit_id_for_branch kv rs name = Some i \<longrightarrow>
      get_by_id (get_by_hash st fuel) name = Inr (Some c) \<longrightarrow>
      get_commit_or_head (get_by_hash st fuel) kv rs (Some name) = Inr c \<and>
      revision_get (get_by_hash st fuel) kv rs name = get_by_id (get_by_hash st fuel) i) \<and>
   revision_get (get_by_hash st fuel) kv rs ''HEAD'' = rbind (head_commit (get_by_hash st fuel) kv rs) (\<lambda>c. Inr (Some c)) \<and>
   (get_commit_id_for_branch kv rs ''HEAD'' = None \<longrightarrow>
      get_commit_or_head (get_by_hash st fuel) kv rs (Some ''HEAD'') = Inl (Basic ''Commit not found''))"
proof -
  have "merkle_hash_from_str ''HEAD'' = Inl (ParseIntError ''InvalidDigit'')" by code_simp
  then have "get_by_id (get_by_hash st fuel) ''HEAD'' = Inr None" by (simp add: get_by_id_def)
  then show ?thesis
    using revision_lookup_same [where name = name and kv = kv and rs = rs and st = st and fuel = fuel]
    by (simp add: get_commit_or_head_def get_commit_by_ref_def get_commit_by_branch_def get_by_name_def
        get_branch_by_name_def revision_get_def)
qed

text \<open>On the sample the name of a branch resolves to one commit both ways; a branch called \<open>2\<close> that
  names commit 4 is commit 4 as a revision and commit 2 as a commit or branch; \<open>HEAD\<close> is commit 4 or nothing.\<close>

lemma revision_lookups_agree_witness:
  "get_commit_or_head merge_get list_kv two_branches (Some ''main'') = Inr m4 \<and>
   revision_get merge_get list_kv (two_branches\<lparr>rf_db := [(''2'', ''4'')]\<rparr>) ''2'' = Inr (Some m4) \<and>
   get_commit_or_head merge_get list_kv (two_branches\<lparr>rf_db := [(''2'', ''4'')]\<rparr>) (Some ''2'') = Inr m2 \<and>
   get_commit_or_head merge_get list_kv two_branches (Some ''HEAD'') = Inl (Basic ''Commit not found'')"
proof -
  let ?rs = "two_branches\<lparr>rf_db := [(''2'', ''4'')]\<rparr>"
  have ids: "merkle_hash_from_str ''4'' = Inr 4" "merkle_hash_from_str ''2'' = Inr 2" by (metis merge_id from_str_to_string)+
  have main: "merkle_hash_from_str ''main'' = Inl (ParseIntError ''InvalidDigit'')" by code_simp
  have a: "get_commit_id_for_branch list_kv two_branches ''main'' = Some ''4''"
    "get_commit_id_for_branch list_kv two_branches ''HEAD'' = None" "get_commit_id_for_branch list_kv ?rs ''2'' = Some ''4''"
    by (simp_all add: get_commit_id_for_branch_def list_kv_def two_branches_def)
  have g: "get_by_id merge_get ''main'' = Inr None" "get_by_id merge_get ''4'' = Inr (Some m4)" "get_by_id merge_get ''2'' = Inr (Some m2)"
    by (simp_all add: get_by_id_def main ids merge_get_eq merge_history_def)
  note law = revision_lookups_agree [where st = "history_store merge_history" and fuel = 2 and kv = list_kv, folded merge_get_def]
  have "get_commit_or_head merge_get list_kv two_branches (Some ''main'') =
      rbind (revision_get merge_get list_kv two_branches ''main'') (ok_or (Basic ''Commit not found''))"
    using law [of "''main''" two_branches] a(1) g(1,2) by simp
  then have "get_commit_or_head merge_get list_kv two_branches (Some ''main'') = Inr m4"
    by (simp add: revision_get_def a g)
  moreover have "get_commit_or_head merge_get list_kv ?rs (Some ''2'') = Inr m2 \<and>
      revision_get merge_get list_kv ?rs ''2'' = get_by_id merge_get ''4''"
    using law [of "''2''" ?rs] a(3) g(3) by simp
  moreover have "get_commit_or_head merge_get list_kv two_branches (Some ''HEAD'') = Inl (Basic ''Commit not found'')"
    using law [of "''main''" two_branches] a(2) by simp
  ultimately show ?thesis by (simp add: g)
qed

section \<open>The latest commit\<close>

lemma older_of_rfold:
  assumes "rfold (\<lambda>branch latest. rbind (get_by_id get (br_commit_id branch)) (\<lambda>r.
      Inr (case r of None \<Rightarrow> latest | Some commit \<Rightarrow> older_of latest commit))) bs l = Inr (Some c)"
  shows "(l = Some c \<or> (\<exists>b \<in> set bs. get_by_id get (br_commit_id b) = Inr (Some c))) \<and>
    (\<forall>d. l = Some d \<or> (\<exists>b \<in> set bs. get_by_id get (br_commit_id b) = Inr (Some d)) \<longrightarrow> cm_timestamp c \<le> cm_timestamp d)"
  using assms
proof (induction bs arbitrary: l)
  case (Cons b bs)
  then obtain r where r: "get_by_id get (br_commit_id b) = Inr r" by (auto simp: rbind_eq_Inr)
  show ?case
  proof (cases r)
    case None
    then show ?thesis using Cons r by auto
  next
    case (Some d)
    then have "rfold (\<lambda>branch latest. rbind (get_by_id get (br_commit_id branch)) (\<lambda>r.
      Inr (case r of None \<Rightarrow> latest | Some commit \<Rightarrow> older_of latest commit))) bs (older_of l d) = Inr (Some c)"
      using Cons.prems r by simp
    from Cons.IH [OF this] show ?thesis using r Some by (cases l) (force split: if_splits)+
  qed
qed simp

text \<open>C25: the commit that \<open>latest_commit\<close> returns is the head of a branch, and no branch has an older
  head: of several branches it is the one that was committed first, not last.\<close>

theorem latest_commit_is_oldest_head:
  assumes "kv_lawful kv" "latest_commit (get_by_hash st fuel) kv rs = Inr c"
  shows "(\<exists>name i. kv_get kv (rf_db rs) name = Some i \<and> get_by_id (get_by_hash st fuel) i = Inr (Some c)) \<and>
    (\<forall>name i d. kv_get kv (rf_db rs) name = Some i \<longrightarrow> get_by_id (get_by_hash st fuel) i = Inr (Some d) \<longrightarrow>
       cm_timestamp c \<le> cm_timestamp d)"
proof -
  have branches: "(\<exists>b \<in> set (list_branches kv rs). P (br_commit_id b)) \<longleftrightarrow> (\<exists>name i. kv_get kv (rf_db rs) name = Some i \<and> P i)" for P
    using kv_iter_get [OF assms(1)] by (force simp: list_branches_def)
  obtain l where "rfold (\<lambda>branch latest. rbind (get_by_id (get_by_hash st fuel) (br_commit_id branch)) (\<lambda>r.
      Inr (case r of None \<Rightarrow> latest | Some commit \<Rightarrow> older_of latest commit))) (list_branches kv rs) None = Inr (Some c)"
    using assms(2) by (auto simp: latest_commit_def rbind_eq_Inr ok_or_def split: option.splits)
  from older_of_rfold [OF this] show ?thesis
    using branches [of "\<lambda>i. get_by_id (get_by_hash st fuel) i = Inr (Some c)"]
      branches [of "\<lambda>i. get_by_id (get_by_hash st fuel) i = Inr (Some d)" for d] by blast
qed

lemma latest_commit_is_oldest_head_witness:
  "latest_commit (get_by_hash (history_store merge_history) 2) list_kv two_branches = Inr m2 \<and>
   cm_timestamp m2 \<le> cm_timestamp m4"
proof -
  have ids: "merkle_hash_from_str ''4'' = Inr 4" "merkle_hash_from_str ''2'' = Inr 2" by (metis merge_id from_str_to_string)+
  have g: "get_by_id merge_get ''4'' = Inr (Some m4)" "get_by_id merge_get ''2'' = Inr (Some m2)"
    by (simp_all add: get_by_id_def ids merge_get_eq merge_history_def)
  have "list_branches list_kv two_branches = [\<lparr>br_name = ''main'', br_commit_id = ''4''\<rparr>, \<lparr>br_name = ''topic'', br_commit_id = ''2''\<rparr>]"
    by code_simp
  then have "latest_commit merge_get list_kv two_branches = Inr m2" by (simp add: latest_commit_def g)
  from this latest_commit_is_oldest_head [OF list_kv_lawful this [unfolded merge_get_def]] show ?thesis
    by (simp add: merge_get_def)
qed

end
