(* ===== verification/Commit_Split.thy ===== *)
theory Commit_Split
  imports Tree_Queries
begin

text \<open>
  How the commit writer splits the entries of a directory into vnodes (\<open>split_into_vnodes\<close> of
  \<open>repositories/commits/commit_writer.rs\<close>): the existing children of the directory are overwritten by
  the staged ones, dealt out to buckets by the hash of their path, sorted by path, and each bucket
  gets the hash of the directory name and its entries. \<open>hash128\<close> is \<open>xxh3_128\<close> (feeding a hasher
  in pieces hashes their concatenation), \<open>uuid d i\<close> are the bytes of the random UUID drawn for the
  \<open>i\<close>-th vnode of the directory \<open>d\<close>. A hash set is a list, as everywhere in the development.
\<close>

section \<open>Staged entries\<close>

datatype staged_entry_status = Added | Modified | Removed | Unmodified

record staged_node =
  sn_status :: staged_entry_status
  sn_node :: merkle_tree_node

text \<open>\<open>PartialEq\<close>: by path where both have one, else by hash. \<open>Hash\<close> feeds the path, else the node.\<close>

definition staged_eq :: "staged_node \<Rightarrow> staged_node \<Rightarrow> bool" where
  "staged_eq a b =
     (case (maybe_path (sn_node a), maybe_path (sn_node b)) of
        (Inr p, Inr q) \<Rightarrow> p = q
      | _ \<Rightarrow> t_hash (sn_node a) = t_hash (sn_node b))"

definition staged_hashed :: "staged_node \<Rightarrow> path + merkle_hash \<times> path option" where
  "staged_hashed a =
     (case maybe_path (sn_node a) of Inr p \<Rightarrow> Inl p | Inl _ \<Rightarrow> Inr (merkle_tree_node_hashed (sn_node a)))"

interpretation staged: hash_set staged_eq staged_eq staged_hashed
  by unfold_locales (auto simp: staged_eq_def split: sum.splits)

text \<open>\<open>HashSet::remove\<close> and \<open>HashSet::replace\<close>.\<close>

definition remove_by :: "('a \<Rightarrow> 'a \<Rightarrow> bool) \<Rightarrow> 'a \<Rightarrow> 'a list \<Rightarrow> 'a list" where
  "remove_by found x xs = filter (\<lambda>y. \<not> found y x) xs"

definition replace_by :: "('a \<Rightarrow> 'a \<Rightarrow> bool) \<Rightarrow> 'a \<Rightarrow> 'a list \<Rightarrow> 'a list" where
  "replace_by found x xs = remove_by found x xs @ [x]"

text \<open>The existing children carry their name only; they get their whole path as name.\<close>

definition node_data_to_staged_node :: "path \<Rightarrow> merkle_tree_node \<Rightarrow> staged_node option" where
  "node_data_to_staged_node base_dir node =
     (case t_node node of
        EDirectory d \<Rightarrow> Some \<lparr>sn_status = Unmodified,
          sn_node = from_dir (dn_set_name (path_to_str (join_str base_dir (dn_name d))) d)\<rparr>
      | EFile f \<Rightarrow> Some \<lparr>sn_status = Unmodified,
          sn_node = from_file (fn_set_name (path_to_str (join_str base_dir (fn_name f))) f)\<rparr>
      | _ \<Rightarrow> None)"

definition get_node_dir_children :: "path \<Rightarrow> merkle_tree_node \<Rightarrow> staged_node list res" where
  "get_node_dir_children base_dir node =
     rbind (list_files_and_folders node) (\<lambda>children.
       Inr (extend_by staged_eq (List.map_filter (node_data_to_staged_node base_dir) children) []))"

section \<open>The number of vnodes\<close>

text \<open>
  \<open>f32\<close> arithmetic on whole numbers: 24 significant bits, rounding to nearest, ties to even.
  \<open>round_half_even a b\<close> is the quotient rounded to a whole number.
\<close>

fun log2_floor :: "nat \<Rightarrow> nat" where
  "log2_floor n = (if n < 2 then 0 else Suc (log2_floor (n div 2)))"

declare log2_floor.simps [simp del]

definition round_half_even :: "nat \<Rightarrow> nat \<Rightarrow> nat" where
  "round_half_even a b =
     (let q = a div b; r = a mod b
      in if 2 * r < b \<or> (2 * r = b \<and> even q) then q else q + 1)"

text \<open>\<open>n as f32\<close>, a whole number again.\<close>

definition as_f32 :: "nat \<Rightarrow> nat" where
  "as_f32 n =
     (if n < 2 ^ 24 then n
      else let e = log2_floor n - 23 in round_half_even n (2 ^ e) * 2 ^ e)"

definition ceil_div :: "nat \<Rightarrow> nat \<Rightarrow> nat" where
  "ceil_div a b = (a + b - 1) div b"

text \<open>
  \<open>(a / b).ceil()\<close> for \<open>f32\<close> numbers \<open>a\<close> and \<open>b > 0\<close>. A quotient of at most 1 stays at most 1 and
  above 0. Otherwise the quotient keeps 24 bits: with its highest bit at \<open>l\<close>, it is rounded to a
  multiple of \<open>2 ^ (l - 23)\<close>.
\<close>

definition f32_div_ceil :: "nat \<Rightarrow> nat \<Rightarrow> nat" where
  "f32_div_ceil a b =
     (if a = 0 then 0
      else if a \<le> b then 1
      else let l = log2_floor (a div b)
           in if l < 23 then ceil_div (round_half_even (a * 2 ^ (23 - l)) b) (2 ^ (23 - l))
              else round_half_even a (b * 2 ^ (l - 23)) * 2 ^ (l - 23))"

text \<open>
  A vnode size of 0 divides by zero: nothing by zero is no number, which casts to 0; anything else is
  infinite, which casts to the largest number, and the vector of that length overflows.
\<close>

definition vnodes_for :: "nat \<Rightarrow> u64 \<Rightarrow> nat res" where
  "vnodes_for total_children vnode_size =
     (if vnode_size = 0
      then if total_children = 0 then Inr 0 else Inl (Panic ''capacity overflow'')
      else Inr (f32_div_ceil (as_f32 total_children) (as_f32 (unat vnode_size))))"

section \<open>Splitting a directory\<close>

record entry_vnode =
  ev_id :: merkle_hash
  ev_entries :: "staged_node list"
  ev_removed_entries :: "staged_node list"

definition entry_vnode_new :: "merkle_hash \<Rightarrow> entry_vnode" where
  "entry_vnode_new h = \<lparr>ev_id = h, ev_entries = [], ev_removed_entries = []\<rparr>"

text \<open>A staged entry named by its leaf gets the path of the directory in front.\<close>

definition with_prefix :: "path \<Rightarrow> path \<Rightarrow> staged_node \<Rightarrow> staged_node" where
  "with_prefix directory cpath child =
     (if directory \<noteq> [] \<and> \<not> path_starts_with cpath directory
      then let full_path = path_to_str (path_join directory cpath);
               t = sn_node child
           in child\<lparr>sn_node := MTNode (t_hash t)
                (case t_node t of
                   EDirectory d \<Rightarrow> EDirectory (dn_set_name full_path d)
                 | EFile f \<Rightarrow> EFile (fn_set_name full_path f)
                 | n \<Rightarrow> n) (t_parent_id t) (t_children t)\<rparr>
      else child)"

definition apply_staged ::
  "path \<Rightarrow> staged_node \<Rightarrow> staged_node list \<times> staged_node list \<Rightarrow> staged_node list \<times> staged_node list" where
  "apply_staged directory new_child = (\<lambda>(children, removed).
     case maybe_path (sn_node new_child) of
       Inl _ \<Rightarrow> (children, removed)
     | Inr cpath \<Rightarrow>
         if cpath = [] then (children, removed)
         else (let child = with_prefix directory cpath new_child
               in if sn_status child = Removed
                  then (remove_by staged_eq child children, insert_by staged_eq child removed)
                  else (replace_by staged_eq child children, removed)))"

text \<open>The path of an entry as text and as path; only files and directories are entries.\<close>

definition entry_name :: "staged_node \<Rightarrow> string" where
  "entry_name a = (case t_node (sn_node a) of EDirectory d \<Rightarrow> dn_name d | EFile f \<Rightarrow> fn_name f | _ \<Rightarrow> [])"

definition entry_path :: "staged_node \<Rightarrow> path" where
  "entry_path a = components (entry_name a)"

definition bucket_of :: "(byte list \<Rightarrow> merkle_hash) \<Rightarrow> nat \<Rightarrow> staged_node \<Rightarrow> nat" where
  "bucket_of hash128 n child = unat (hash128 (as_bytes (entry_name child))) mod n"

definition push_entry :: "(byte list \<Rightarrow> merkle_hash) \<Rightarrow> nat \<Rightarrow> staged_node \<Rightarrow> entry_vnode list \<Rightarrow> entry_vnode list" where
  "push_entry hash128 n child vnodes =
     (let b = bucket_of hash128 n child
      in vnodes[b := (vnodes ! b)\<lparr>ev_entries := ev_entries (vnodes ! b) @ [child]\<rparr>])"

definition hash_le :: "merkle_hash \<Rightarrow> byte list" where
  "hash_le h = to_le 16 (unat h)"

definition entry_digest :: "staged_node \<Rightarrow> byte list" where
  "entry_digest e = (case t_node (sn_node e) of EFile f \<Rightarrow> hash_le (fn_combined_hash f) | _ \<Rightarrow> hash_le (t_hash (sn_node e)))"

definition vnode_digest :: "path \<Rightarrow> staged_node list \<Rightarrow> byte list" where
  "vnode_digest directory entries =
     as_bytes ''vnode'' @ as_bytes (path_to_str directory) @ concat (map entry_digest entries)"

definition finish_vnode ::
  "(byte list \<Rightarrow> merkle_hash) \<Rightarrow> (path \<Rightarrow> nat \<Rightarrow> byte list) \<Rightarrow> path \<Rightarrow> bool \<Rightarrow> nat \<Rightarrow> entry_vnode \<Rightarrow> entry_vnode" where
  "finish_vnode hash128 uuid directory exists i vnode =
     (let entries = sort_key entry_path (ev_entries vnode);
          has_new_entries = list_ex (\<lambda>e. sn_status e \<noteq> Unmodified) entries
      in vnode\<lparr>ev_entries := entries,
           ev_id := hash128 (vnode_digest directory entries @ (if exists \<and> has_new_entries then uuid directory i else []))\<rparr>)"

definition split_directory ::
  "(byte list \<Rightarrow> merkle_hash) \<Rightarrow> (path \<Rightarrow> nat \<Rightarrow> byte list) \<Rightarrow> u64 \<Rightarrow> (path, merkle_tree_node) hash_map \<Rightarrow>
   path \<Rightarrow> staged_node list \<Rightarrow> (entry_vnode list \<times> staged_node list) res" where
  "split_directory hash128 uuid vnode_size existing_nodes directory new_children =
     rbind (case map_of existing_nodes directory of
              Some existing_node \<Rightarrow> get_node_dir_children directory existing_node
            | None \<Rightarrow> Inr []) (\<lambda>existing_children.
     (let (children, removed) = fold (apply_staged directory) new_children (existing_children, [])
      in rbind (vnodes_for (length children) vnode_size) (\<lambda>n.
           let vnodes = fold (push_entry hash128 n) children (replicate n (entry_vnode_new 0))
           in Inr (map (\<lambda>(i, v). finish_vnode hash128 uuid directory (map_of existing_nodes directory \<noteq> None) i v)
                     (enumerate 0 vnodes), removed))))"

definition split_into_vnodes ::
  "(byte list \<Rightarrow> merkle_hash) \<Rightarrow> (path \<Rightarrow> nat \<Rightarrow> byte list) \<Rightarrow> u64 \<Rightarrow> (path, merkle_tree_node) hash_map \<Rightarrow>
   (path, staged_node list) hash_map \<Rightarrow> (path, entry_vnode list \<times> staged_node list) hash_map res" where
  "split_into_vnodes hash128 uuid vnode_size existing_nodes entries =
     rfold (\<lambda>(directory, new_children) results.
       rbind (split_directory hash128 uuid vnode_size existing_nodes directory new_children) (\<lambda>r.
         Inr (AList.update directory r results))) entries []"

end
