(* ===== verification/Commit_Writer.thy ===== *)
theory Commit_Writer
  imports Commit_Split Commit_History Tree_Writer
begin

text \<open>
  The commit writer (\<open>repositories/commits/commit_writer.rs\<close>): the id of a commit, the directory
  nodes with their aggregated counts, the recursive writing of directories, vnodes and files into the
  node databases, and the functions that make a commit from the staged entries of its directories.
  Commits are made from the entries the callers pass; reading the staging area is not modelled.

  The state is the file system with the node databases, the directory-hash databases per commit id
  and the two files of a merge in progress. Progress bars, logging and the counter of written nodes
  are left out. Arithmetic on counts wraps, as in a release build.
\<close>

section \<open>The id of a commit\<close>

record new_commit_body =
  nb_message :: string
  nb_author :: string
  nb_email :: string

record new_commit =
  nc_parent_ids :: "string list"
  nc_message :: string
  nc_author :: string
  nc_email :: string
  nc_timestamp :: timestamp

text \<open>The \<open>Debug\<close> text of a vector of strings; ids are hexadecimal, other control characters do not occur.\<close>

definition debug_char :: "char \<Rightarrow> string" where
  "debug_char c =
     (if c = CHR 0x22 then [CHR 0x5C, CHR 0x22] else if c = CHR 0x5C then [CHR 0x5C, CHR 0x5C]
      else if c = CHR 0x0A then [CHR 0x5C, CHR ''n''] else if c = CHR 0x0D then [CHR 0x5C, CHR ''r'']
      else if c = CHR 0x09 then [CHR 0x5C, CHR ''t''] else [c])"

definition debug_string :: "string \<Rightarrow> string" where
  "debug_string s = [CHR 0x22] @ concat (map debug_char s) @ [CHR 0x22]"

fun debug_strings :: "string list \<Rightarrow> string" where
  "debug_strings [] = []"
| "debug_strings [s] = debug_string s"
| "debug_strings (s # t # ss) = debug_string s @ '', '' @ debug_strings (t # ss)"

definition unix_timestamp :: "timestamp \<Rightarrow> int" where
  "unix_timestamp t = t div 10 ^ 9"

definition i64_le :: "int \<Rightarrow> byte list" where
  "i64_le i = to_le 8 (nat (i mod 2 ^ 64))"

definition compute_commit_id :: "(byte list \<Rightarrow> merkle_hash) \<Rightarrow> new_commit \<Rightarrow> merkle_hash" where
  "compute_commit_id hash128 nc =
     hash128 (as_bytes ''commit'' @ as_bytes ([CHR 0x5B] @ debug_strings (nc_parent_ids nc) @ [CHR 0x5D]) @
       as_bytes (nc_message nc) @ as_bytes (nc_author nc) @ as_bytes (nc_email nc) @
       i64_le (unix_timestamp (nc_timestamp nc)))"

text \<open>\<open>create_commit_data\<close>: a merge in progress gives the parents, and its two files are removed.\<close>

record merge_files =
  mf_merge_head :: "string option"
  mf_orig_head :: "string option"

definition create_merge_commit :: "string \<Rightarrow> timestamp \<Rightarrow> new_commit_body \<Rightarrow> (merge_files, new_commit) st" where
  "create_merge_commit message timestamp body = (\<lambda>mf.
     case (mf_merge_head mf, mf_orig_head mf) of
       (Some merge_commit_id, Some orig_commit_id) \<Rightarrow>
         (Inr \<lparr>nc_parent_ids = [merge_commit_id, orig_commit_id], nc_message = message,
            nc_author = nb_author body, nc_email = nb_email body, nc_timestamp = timestamp\<rparr>,
          \<lparr>mf_merge_head = None, mf_orig_head = None\<rparr>)
     | _ \<Rightarrow> (Inl (IO ''not found''), mf))"

definition create_commit_data ::
  "string \<Rightarrow> timestamp \<Rightarrow> string list \<Rightarrow> new_commit_body \<Rightarrow> (merge_files, new_commit) st" where
  "create_commit_data message timestamp parent_commits body = (\<lambda>mf.
     if mf_merge_head mf \<noteq> None then create_merge_commit message timestamp body mf
     else (Inr \<lparr>nc_parent_ids = parent_commits, nc_message = message,
             nc_author = nb_author body, nc_email = nb_email body, nc_timestamp = timestamp\<rparr>, mf))"

section \<open>Directory nodes\<close>

type_synonym split_entries = "(path, entry_vnode list \<times> staged_node list) hash_map"

text \<open>What the writer reads from and is configured with.\<close>

record 'd writer_env =
  we_codec :: codec
  we_repo :: path
  we_version :: min_oxen_version
  we_hash128 :: "byte list \<Rightarrow> merkle_hash"
  we_fuel :: nat
  we_kv :: "('d, string) kv_ops"

text \<open>The store as the disk and the directory-hash databases give it.\<close>

definition current_store :: "'d writer_env \<Rightarrow> fs \<Rightarrow> (string \<Rightarrow> 'd) \<Rightarrow> node_store" where
  "current_store env f dbs =
     disk_store (we_codec env) (we_repo env) f (\<lambda>cid. Inr (kv_iter (we_kv env) (dbs cid)))"

record dir_totals =
  dt_digest :: "byte list"
  dt_num_bytes :: u64
  dt_num_entries :: u64
  dt_counts :: "(string, u64) hash_map"
  dt_sizes :: "(string, u64) hash_map"

definition sat_sub :: "u64 \<Rightarrow> u64 \<Rightarrow> u64" where
  "sat_sub a b = (if a < b then 0 else a - b)"

text \<open>\<open>entry(k).or_insert(0)\<close> followed by an addition.\<close>

definition add_at :: "string \<Rightarrow> u64 \<Rightarrow> (string, u64) hash_map \<Rightarrow> (string, u64) hash_map" where
  "add_at k n m = AList.update k ((case map_of m k of None \<Rightarrow> 0 | Some x \<Rightarrow> x) + n) m"

definition sub_at :: "string \<Rightarrow> u64 \<Rightarrow> (string, u64) hash_map \<Rightarrow> (string, u64) hash_map" where
  "sub_at k n m = (case map_of m k of None \<Rightarrow> m | Some x \<Rightarrow> AList.update k (sat_sub x n) m)"

definition get_children :: "split_entries \<Rightarrow> path \<Rightarrow> path list" where
  "get_children entries dir_path = filter (\<lambda>p. path_starts_with p dir_path) (map fst entries)"

definition is_here :: "path \<Rightarrow> path \<Rightarrow> u64" where
  "is_here path child = (if path = child then 1 else 0)"

definition total_entry ::
  "'d writer_env \<Rightarrow> node_store \<Rightarrow> commit option \<Rightarrow> path \<Rightarrow> path \<Rightarrow> staged_node \<Rightarrow> dir_totals \<Rightarrow> dir_totals res" where
  "total_entry env st head path child entry t =
     (case t_node (sn_node entry) of
        EDirectory d \<Rightarrow> Inr (t\<lparr>dt_num_entries := dt_num_entries t + is_here path child,
          dt_digest := dt_digest t @ as_bytes (dn_name d) @ hash_le (dn_hash d)\<rparr>)
      | EFile f \<Rightarrow>
          (let t1 = t\<lparr>dt_digest := dt_digest t @ as_bytes (fn_name f) @ hash_le (fn_combined_hash f)\<rparr>;
               ty = entry_data_type_to_string (fn_data_type f)
           in case sn_status entry of
                Added \<Rightarrow> Inr (t1\<lparr>dt_num_bytes := dt_num_bytes t1 + fn_num_bytes f,
                  dt_num_entries := dt_num_entries t1 + is_here path child,
                  dt_counts := add_at ty 1 (dt_counts t1),
                  dt_sizes := add_at ty (fn_num_bytes f) (dt_sizes t1)\<rparr>)
              | Modified \<Rightarrow>
                  (case head of
                     None \<Rightarrow> Inr t1
                   | Some hc \<Rightarrow>
                       rbind (get_file_by_path (we_hash128 env) st (we_fuel env) hc (join_str path (fn_name f))) (\<lambda>old.
                         Inr (case old of
                                None \<Rightarrow> t1
                              | Some old_file \<Rightarrow>
                                  (let delta = fn_num_bytes f - fn_num_bytes old_file
                                   in t1\<lparr>dt_num_bytes := dt_num_bytes t1 + delta,
                                         dt_sizes := add_at ty delta (dt_sizes t1)\<rparr>))))
              | _ \<Rightarrow> Inr t1)
      | _ \<Rightarrow> Inl (Basic ''compute_dir_node found unexpected node type''))"

definition total_removed :: "path \<Rightarrow> path \<Rightarrow> staged_node \<Rightarrow> dir_totals \<Rightarrow> dir_totals res" where
  "total_removed path child entry t =
     (case t_node (sn_node entry) of
        EDirectory _ \<Rightarrow> Inr t
      | EFile f \<Rightarrow>
          Inr (if sn_status entry = Removed
               then (let ty = entry_data_type_to_string (fn_data_type f)
                     in t\<lparr>dt_num_entries := dt_num_entries t - is_here path child,
                          dt_num_bytes := sat_sub (dt_num_bytes t) (fn_num_bytes f),
                          dt_counts := sub_at ty 1 (dt_counts t),
                          dt_sizes := sub_at ty (fn_num_bytes f) (dt_sizes t)\<rparr>)
               else t)
      | _ \<Rightarrow> Inl (Basic ''compute_dir_node found unexpected node type''))"

definition total_child ::
  "'d writer_env \<Rightarrow> node_store \<Rightarrow> commit option \<Rightarrow> split_entries \<Rightarrow> path \<Rightarrow> path \<Rightarrow> dir_totals \<Rightarrow> dir_totals res" where
  "total_child env st head entries path child t =
     rbind (ok_or (Basic ''compute_dir_node No entries found for directory'') (map_of entries child)) (\<lambda>(vnodes, removed).
     rbind (rfold (\<lambda>vnode t.
         rfold (total_entry env st head path child) (ev_entries vnode) (t\<lparr>dt_digest := dt_digest t @ hash_le (ev_id vnode)\<rparr>))
       vnodes t) (rfold (total_removed path child) removed))"

text \<open>The totals start with those of the directory in the head commit, if it can be read there.\<close>

definition initial_totals :: "'d writer_env \<Rightarrow> node_store \<Rightarrow> commit option \<Rightarrow> dir_hash_map \<Rightarrow> path \<Rightarrow> dir_totals res" where
  "initial_totals env st head dhs path =
     (let digest = as_bytes ''dir'' @ as_bytes (path_to_str path);
          none = \<lparr>dt_digest = digest, dt_num_bytes = 0, dt_num_entries = 0, dt_counts = [], dt_sizes = []\<rparr>
      in case head of
           None \<Rightarrow> Inr none
         | Some hc \<Rightarrow>
             (case dir_without_children st (we_fuel env) hc path (Some dhs) of
                Inl (Panic p) \<Rightarrow> Inl (Panic p)
              | Inr (Some old) \<Rightarrow>
                  (case node_dir old of
                     Inl _ \<Rightarrow> Inl (Panic ''unwrap'')
                   | Inr d \<Rightarrow> Inr \<lparr>dt_digest = digest, dt_num_bytes = dn_num_bytes d, dt_num_entries = dn_num_entries d,
                       dt_counts = dn_data_type_counts d, dt_sizes = dn_data_type_sizes d\<rparr>)
              | _ \<Rightarrow> Inr none))"

definition dir_totals_of ::
  "'d writer_env \<Rightarrow> node_store \<Rightarrow> commit option \<Rightarrow> split_entries \<Rightarrow> dir_hash_map \<Rightarrow> path \<Rightarrow> dir_totals res" where
  "dir_totals_of env st head entries dhs path =
     rbind (initial_totals env st head dhs path)
       (rfold (total_child env st head entries path) (get_children entries path))"

definition compute_dir_node ::
  "'d writer_env \<Rightarrow> node_store \<Rightarrow> commit option res \<Rightarrow> merkle_hash \<Rightarrow> split_entries \<Rightarrow> dir_hash_map \<Rightarrow> path \<Rightarrow> dir_node res" where
  "compute_dir_node env st head commit_id entries dhs path =
     rbind head (\<lambda>hc.
     rbind (dir_totals_of env st hc entries dhs path) (\<lambda>t.
       dir_node_new (we_version env)
         \<lparr>do_name = (case path_file_name path of Some s \<Rightarrow> s | None \<Rightarrow> []), do_hash = we_hash128 env (dt_digest t),
          do_num_entries = dt_num_entries t, do_num_bytes = dt_num_bytes t, do_last_commit_id = commit_id,
          do_last_modified_seconds = 0, do_last_modified_nanoseconds = 0,
          do_data_type_counts = dt_counts t, do_data_type_sizes = dt_sizes t\<rparr>))"

section \<open>Writing the nodes\<close>

text \<open>
  The writer works on the file system and the directory-hash database of the new commit; an open
  node database is threaded along. \<open>head\<close> is what \<open>head_commit_maybe\<close> answers in a store.
\<close>

record 'd writer_ctx =
  wc_env :: "'d writer_env"
  wc_store :: "fs \<Rightarrow> node_store"
  wc_head :: "node_store \<Rightarrow> commit option res"
  wc_commit_id :: merkle_hash
  wc_dir_hashes :: dir_hash_map
  wc_entries :: split_entries

type_synonym 'd on_node = "merkle_node_db \<times> fs \<times> 'd"

definition on_db :: "unit db_method \<Rightarrow> ('d on_node, unit) st" where
  "on_db m = (\<lambda>(db, f, d). case m (db, f) of (r, db', f') \<Rightarrow> (r, db', f', d))"

text \<open>The parts that need a new node database open it, run and drop it.\<close>

definition in_node :: "'d writer_env \<Rightarrow> e_merkle_tree_node \<Rightarrow> merkle_hash option \<Rightarrow> ('d on_node, unit) st \<Rightarrow> (fs \<times> 'd, unit) st" where
  "in_node env node parent_id body = (\<lambda>(f, d).
     case open_read_write (we_codec env) (we_repo env) node parent_id f of
       (Inl e, f1) \<Rightarrow> (Inl e, f1, d)
     | (Inr db, f1) \<Rightarrow> (case body (db, f1, d) of (r, db', f2, d2) \<Rightarrow> (r, f2, d2)))"

definition outside :: "(fs \<times> 'd, 'a) st \<Rightarrow> ('d on_node, 'a) st" where
  "outside m = (\<lambda>(db, s). case m s of (r, s') \<Rightarrow> (r, db, s'))"

definition node_at :: "'d writer_ctx \<Rightarrow> path \<Rightarrow> ('d on_node, dir_node) st" where
  "node_at ctx path = (\<lambda>(db, f, d).
     let st = wc_store ctx f
     in (compute_dir_node (wc_env ctx) st (wc_head ctx st) (wc_commit_id ctx) (wc_entries ctx) (wc_dir_hashes ctx) path, db, f, d))"

definition old_node_at :: "'d writer_ctx \<Rightarrow> merkle_hash \<Rightarrow> ('d on_node, merkle_tree_node option) st" where
  "old_node_at ctx h = (\<lambda>(db, f, d). (read_node (wc_store ctx f) (we_fuel (wc_env ctx)) h False, db, f, d))"

definition put_dir_hash :: "'d writer_env \<Rightarrow> string \<Rightarrow> dir_node \<Rightarrow> ('d on_node, unit) st" where
  "put_dir_hash env key node = (\<lambda>(db, f, d). (Inr (), db, f, kv_put (we_kv env) key (merkle_hash_to_string (dn_hash node)) d))"

text \<open>A file of a vnode: its only chunk, the commit that last changed it, its leaf as name.\<close>

definition written_file :: "merkle_hash \<Rightarrow> staged_node \<Rightarrow> file_node \<Rightarrow> file_node res" where
  "written_file commit_id entry file =
     rbind (ok_or (Panic ''unwrap'') (path_file_name (components (fn_name file)))) (\<lambda>file_name.
       let f1 = fn_set_chunk_hashes [fn_hash file] file;
           last_commit_id = (if sn_status entry = Unmodified then fn_last_commit_id f1 else commit_id)
       in Inr (fn_set_name file_name (fn_set_last_commit_id last_commit_id f1)))"

fun r_create_dir_node :: "'d writer_ctx \<Rightarrow> nat \<Rightarrow> path \<Rightarrow> ('d on_node, unit) st" where
  "r_create_dir_node ctx 0 path = slift (Inl (Panic ''stack overflow''))"
| "r_create_dir_node ctx (Suc k) path =
     (let env = wc_env ctx; c = we_codec env
      in case map_of (wc_entries ctx) path of
           None \<Rightarrow> slift (Inr ())
         | Some (vnodes, _) \<Rightarrow> sfor (\<lambda>vnode.
             sbind (slift (vnode_new (we_version env) \<lparr>vo_hash = ev_id vnode, vo_num_entries = of_nat (length (ev_entries vnode))\<rparr>)) (\<lambda>vnode_obj.
             sbind (on_db (add_child c (EVNode vnode_obj))) (\<lambda>_ (db, s).
               outside (in_node env (EVNode vnode_obj) (Some (db_node_id db)) (sfor (\<lambda>entry.
                 case t_node (sn_node entry) of
                   EDirectory node \<Rightarrow>
                     (let dir_path = entry_path entry
                      in if map_of (wc_entries ctx) dir_path \<noteq> None
                         then sbind (node_at ctx dir_path) (\<lambda>dir_node.
                              sbind (on_db (add_child c (EDirectory dir_node))) (\<lambda>_.
                              sbind (outside (in_node env (EDirectory dir_node) (Some (ev_id vnode)) (r_create_dir_node ctx k dir_path))) (\<lambda>_.
                                put_dir_hash env (dn_name node) dir_node)))
                         else sbind (old_node_at ctx (dn_hash node)) (\<lambda>r.
                              case r of
                                None \<Rightarrow> slift (Inr ())
                              | Some old_dir_node \<Rightarrow>
                                  sbind (slift (node_dir old_dir_node)) (\<lambda>dir_node.
                                  sbind (on_db (add_child c (EDirectory dir_node))) (\<lambda>_.
                                    put_dir_hash env (dn_name node) dir_node))))
                 | EFile file \<Rightarrow>
                     sbind (slift (written_file (wc_commit_id ctx) entry file)) (\<lambda>file_node.
                       on_db (add_child c (EFile file_node)))
                 | _ \<Rightarrow> slift (Inl (Basic ''r_create_dir_node found unexpected node type''))) (ev_entries vnode))) (db, s)))) vnodes)"

text \<open>A directory that was staged as removed loses its hash, under the name it carries.\<close>

definition cache_invalidate_dir_hash_db :: "('d, string) kv_ops \<Rightarrow> staged_node list list \<Rightarrow> 'd \<Rightarrow> 'd" where
  "cache_invalidate_dir_hash_db kv entries d =
     fold (\<lambda>removed_children. fold (\<lambda>child d.
       if sn_status child = Removed
       then (case t_node (sn_node child) of EDirectory dir_node \<Rightarrow> kv_delete kv (dn_name dir_node) d | _ \<Rightarrow> d)
       else d) removed_children) entries d"

definition write_commit_entries :: "'d writer_ctx \<Rightarrow> ('d on_node, unit) st" where
  "write_commit_entries ctx =
     (let env = wc_env ctx
      in sbind (node_at ctx []) (\<lambda>dir_node.
         sbind (on_db (add_child (we_codec env) (EDirectory dir_node))) (\<lambda>_.
         sbind (put_dir_hash env [] dir_node) (\<lambda>_.
         sbind (outside (in_node env (EDirectory dir_node) (Some (wc_commit_id ctx)) (r_create_dir_node ctx (we_fuel env) []))) (\<lambda>_
           (db, f, d). (Inr (), db, f, cache_invalidate_dir_hash_db (we_kv env) (map (\<lambda>(_, (_, removed)). removed) (wc_entries ctx)) d))))))"

section \<open>Making a commit\<close>

record 'd commit_state =
  cs_fs :: fs
  cs_dbs :: "string \<Rightarrow> 'd"
  cs_merge :: merge_files

text \<open>
  What a call is given besides the state: the references, the clock, the vnode size and the random
  UUIDs. While the commit is written, the head commit is looked up in what is on disk by then; the
  directory-hash databases read are those of earlier commits.
\<close>

record ('d, 'r) commit_call =
  cl_env :: "'d writer_env"
  cl_refs_kv :: "'r ref_kv"
  cl_refs :: "'r refs"
  cl_now :: timestamp
  cl_vnode_size :: u64
  cl_uuid :: "path \<Rightarrow> nat \<Rightarrow> byte list"

definition source_of :: "('d, 'r) commit_call \<Rightarrow> node_store \<Rightarrow> commit_source" where
  "source_of cl st = get_by_hash st (we_fuel (cl_env cl))"

definition head_of :: "('d, 'r) commit_call \<Rightarrow> node_store \<Rightarrow> commit option res" where
  "head_of cl st = head_commit_maybe (source_of cl st) (cl_refs_kv cl) (cl_refs cl)"

definition revision_or_none :: "('d, 'r) commit_call \<Rightarrow> string \<Rightarrow> node_store \<Rightarrow> commit option res" where
  "revision_or_none cl target st =
     (if rf_head (cl_refs cl) \<noteq> None then revision_get (source_of cl st) (cl_refs_kv cl) (cl_refs cl) target else Inr None)"

definition maybe_hash :: "commit option \<Rightarrow> merkle_hash option res" where
  "maybe_hash c = (case c of None \<Rightarrow> Inr None | Some c \<Rightarrow> rbind (commit_hash c) (\<lambda>h. Inr (Some h)))"

definition split_for ::
  "('d, 'r) commit_call \<Rightarrow> node_store \<Rightarrow> commit option \<Rightarrow> (path, staged_node list) hash_map \<Rightarrow> split_entries res" where
  "split_for cl st maybe_head entries =
     rbind (case maybe_head of
         None \<Rightarrow> Inr []
       | Some c \<Rightarrow> read_nodes st (we_fuel (cl_env cl)) c (map fst entries)) (\<lambda>existing_nodes.
       split_into_vnodes (we_hash128 (cl_env cl)) (cl_uuid cl) (cl_vnode_size cl) existing_nodes entries)"

text \<open>
  The end of the three functions: the hashes of the head's directories are copied, the commit node is
  opened with \<open>parent_id\<close> and everything below it written; at last the hashes of the directories in
  \<open>removed\<close> are deleted.
\<close>

definition write_commit ::
  "('d, 'r) commit_call \<Rightarrow> commit option \<Rightarrow> split_entries \<Rightarrow> commit_node \<Rightarrow> merkle_hash option \<Rightarrow> staged_node list list \<Rightarrow>
   ('d commit_state, commit) st" where
  "write_commit cl maybe_head vnode_entries node parent_id removed = (\<lambda>s.
     let env = cl_env cl; kv = we_kv env; cid = merkle_hash_to_string (cn_hash node);
         put = (\<lambda>f d. s\<lparr>cs_fs := f, cs_dbs := (cs_dbs s)(cid := d)\<rparr>)
     in case (case maybe_head of
                None \<Rightarrow> Inr []
              | Some c \<Rightarrow> dir_hashes (current_store env (cs_fs s) (cs_dbs s)) c) of
          Inl e \<Rightarrow> (Inl e, s)
        | Inr dhs \<Rightarrow>
            (let d1 = fold (\<lambda>(path, h). kv_put kv (path_to_str path) (merkle_hash_to_string h)) dhs (cs_dbs s cid);
                 ctx = \<lparr>wc_env = env, wc_store = (\<lambda>f. current_store env f (cs_dbs s)), wc_head = head_of cl,
                        wc_commit_id = cn_hash node, wc_dir_hashes = dhs, wc_entries = vnode_entries\<rparr>
             in case in_node env (ECommit node) parent_id (write_commit_entries ctx) (cs_fs s, d1) of
                  (Inl e, f, d) \<Rightarrow> (Inl e, put f d)
                | (Inr _, f, d) \<Rightarrow> (Inr (commit_node_to_commit node), put f (cache_invalidate_dir_hash_db kv removed d))))"

definition node_for :: "('d, 'r) commit_call \<Rightarrow> new_commit \<Rightarrow> string \<Rightarrow> merkle_hash list \<Rightarrow> commit_node res" where
  "node_for cl nc message parents =
     commit_node_new (we_version (cl_env cl))
       \<lparr>co_hash = compute_commit_id (we_hash128 (cl_env cl)) nc, co_parent_ids = parents, co_email = nc_email nc,
        co_author = nc_author nc, co_message = message, co_timestamp = nc_timestamp nc\<rparr>"

definition on_merge_files :: "(merge_files, 'a) st \<Rightarrow> ('d commit_state, 'a) st" where
  "on_merge_files m = (\<lambda>s. case m (cs_merge s) of (r, mf) \<Rightarrow> (r, s\<lparr>cs_merge := mf\<rparr>))"

definition store_of :: "('d, 'r) commit_call \<Rightarrow> 'd commit_state \<Rightarrow> node_store" where
  "store_of cl s = current_store (cl_env cl) (cs_fs s) (cs_dbs s)"

text \<open>A commit on the head; the parents of a merge in progress must be ids.\<close>

definition commit_dir_entries_new ::
  "('d, 'r) commit_call \<Rightarrow> (path, staged_node list) hash_map \<Rightarrow> new_commit_body \<Rightarrow> ('d commit_state, commit) st" where
  "commit_dir_entries_new cl entries body = (\<lambda>s.
     sbind (slift (head_of cl (store_of cl s))) (\<lambda>maybe_head.
     sbind (slift (maybe_hash maybe_head)) (\<lambda>parent.
     sbind (slift (split_for cl (store_of cl s) maybe_head entries)) (\<lambda>vnode_entries.
     sbind (on_merge_files (create_commit_data (nb_message body) (cl_now cl)
       (case parent of None \<Rightarrow> [] | Some h \<Rightarrow> [merkle_hash_to_string h]) body)) (\<lambda>nc.
     sbind (slift (case rmap merkle_hash_from_str (nc_parent_ids nc) of Inr ps \<Rightarrow> Inr ps | Inl _ \<Rightarrow> Inl (Panic ''unwrap''))) (\<lambda>parents.
     sbind (slift (node_for cl nc (nb_message body) parents)) (\<lambda>node.
       write_commit cl maybe_head vnode_entries node parent (map snd entries))))))) s)"

text \<open>A commit with given parents; parents that are not found are left out of the node.\<close>

definition parent_hashes :: "('d, 'r) commit_call \<Rightarrow> node_store \<Rightarrow> string list \<Rightarrow> merkle_hash list res" where
  "parent_hashes cl st parent_ids =
     rfold (\<lambda>parent_id hs.
       rbind (get_by_id (source_of cl st) parent_id) (\<lambda>r.
         case r of
           None \<Rightarrow> Inr hs
         | Some parent_commit \<Rightarrow> rbind (from_commit st (we_fuel (cl_env cl)) parent_commit) (\<lambda>t.
             Inr (hs @ [t_hash (cmt_root t)])))) parent_ids []"

definition commit_dir_entries_with_parents ::
  "('d, 'r) commit_call \<Rightarrow> string list \<Rightarrow> (path, staged_node list) hash_map \<Rightarrow> new_commit_body \<Rightarrow> string \<Rightarrow>
   ('d commit_state, commit) st" where
  "commit_dir_entries_with_parents cl parent_commits entries body target_branch = (\<lambda>s.
     sbind (slift (revision_or_none cl target_branch (store_of cl s))) (\<lambda>maybe_head.
     sbind (slift (split_for cl (store_of cl s) maybe_head entries)) (\<lambda>vnode_entries.
     sbind (on_merge_files (create_commit_data (nb_message body) (cl_now cl) parent_commits body)) (\<lambda>nc.
     sbind (slift (parent_hashes cl (store_of cl s) (nc_parent_ids nc))) (\<lambda>parents.
     sbind (slift (node_for cl nc (nb_message body) parents)) (\<lambda>node.
     sbind (slift (maybe_hash maybe_head)) (\<lambda>parent.
       write_commit cl maybe_head vnode_entries node parent [])))))) s)"

text \<open>A commit on a branch or revision; the node database of the commit gets no parent.\<close>

definition commit_dir_entries ::
  "('d, 'r) commit_call \<Rightarrow> (path, staged_node list) hash_map \<Rightarrow> new_commit_body \<Rightarrow> string \<Rightarrow> ('d commit_state, commit) st" where
  "commit_dir_entries cl entries body target_branch = (\<lambda>s.
     if entries = [] then (Inl (Basic ''No changes to commit''), s)
     else
       sbind (slift (revision_or_none cl target_branch (store_of cl s))) (\<lambda>maybe_head.
       sbind (slift (maybe_hash maybe_head)) (\<lambda>parent.
       sbind (slift (split_for cl (store_of cl s) maybe_head entries)) (\<lambda>vnode_entries.
       let nc = \<lparr>nc_parent_ids = (case parent of None \<Rightarrow> [] | Some h \<Rightarrow> [merkle_hash_to_string h]),
                 nc_message = nb_message body, nc_author = nb_author body, nc_email = nb_email body, nc_timestamp = cl_now cl\<rparr>
       in sbind (slift (node_for cl nc (nb_message body) (case parent of None \<Rightarrow> [] | Some h \<Rightarrow> [h]))) (\<lambda>node.
            write_commit cl maybe_head vnode_entries node None (map snd entries))))) s)"

end
