(* ===== verification/Three_Way_Merge.thy ===== *)
theory Three_Way_Merge
  imports Commit_Writer
begin

text \<open>
  Merging two commits (\<open>core/v_latest/merge.rs\<close>, \<open>repositories/merge.rs\<close>): which commits are
  merged, the analysis of a three-way merge into conflicts and entries to apply, and the questions about
  conflicts and about the commits between two commits. \<open>me_order\<close> is the iteration order of a
  \<open>HashMap\<close>. For a merge with a checkout (\<open>Present\<close>) the analysis decides which files to restore;
  \<open>should_restore\<close> is the comparison with the file in the working directory, and restoring the files
  themselves, the marker of an interrupted merge and the database of conflicts are not modelled.
\<close>

section \<open>The commits of a merge\<close>

record merge_commits =
  mg_lca :: "commit option"
  mg_base :: commit
  mg_merge :: commit

definition merge_commit_message :: "merge_commits \<Rightarrow> string" where
  "merge_commit_message mc = ''Merge commit '' @ cm_id (mg_merge mc) @ '' into '' @ cm_id (mg_base mc)"

definition is_fast_forward_merge :: "merge_commits \<Rightarrow> bool" where
  "is_fast_forward_merge mc = (case mg_lca mc of None \<Rightarrow> False | Some lca \<Rightarrow> cm_id lca = cm_id (mg_base mc))"

datatype local_checkout = Absent | Present bool

fun writes_to_disk :: "local_checkout \<Rightarrow> bool" where
  "writes_to_disk (Present _) = True"
| "writes_to_disk Absent = False"

fun is_resume :: "local_checkout \<Rightarrow> bool" where
  "is_resume (Present r) = r"
| "is_resume Absent = False"

section \<open>The analysis\<close>

record node_merge_conflict =
  nmc_lca_entry :: "file_node \<times> path"
  nmc_base_entry :: "file_node \<times> path"
  nmc_merge_entry :: "file_node \<times> path"

definition conflict_at :: "path \<Rightarrow> file_node \<Rightarrow> file_node \<Rightarrow> file_node \<Rightarrow> node_merge_conflict" where
  "conflict_at p l b m = \<lparr>nmc_lca_entry = (l, p), nmc_base_entry = (b, p), nmc_merge_entry = (m, p)\<rparr>"

type_synonym merge_entry = "path \<times> file_node \<times> staged_entry_status"

record merge_state =
  ms_conflicts :: "node_merge_conflict list"
  ms_entries :: "merge_entry list"
  ms_to_restore :: "(path \<times> file_node) list"
  ms_cannot_overwrite :: "path list"
  ms_shared :: "merkle_hash set"

definition same_content_hash :: "file_node \<Rightarrow> file_node \<Rightarrow> bool" where
  "same_content_hash a b \<longleftrightarrow> fn_combined_hash a = fn_combined_hash b"

definition add_conflict :: "path \<Rightarrow> file_node \<Rightarrow> file_node \<Rightarrow> file_node \<Rightarrow> merge_state \<Rightarrow> merge_state" where
  "add_conflict p l b m s = s\<lparr>ms_conflicts := ms_conflicts s @ [conflict_at p l b m]\<rparr>"

definition add_merge_entry :: "path \<Rightarrow> file_node \<Rightarrow> staged_entry_status \<Rightarrow> merge_state \<Rightarrow> merge_state" where
  "add_merge_entry p f status s = s\<lparr>ms_entries := ms_entries s @ [(p, f, status)]\<rparr>"

type_synonym restore_check = "file_node option \<Rightarrow> file_node \<Rightarrow> path \<Rightarrow> bool res"

text \<open>With a checkout an entry is restored, unless the file in the working directory would be lost.\<close>

definition note_restore ::
  "local_checkout \<Rightarrow> restore_check \<Rightarrow> file_node option \<Rightarrow> path \<Rightarrow> file_node \<Rightarrow> merge_state \<Rightarrow> merge_state res" where
  "note_restore checkout should_restore base p m s =
     (if \<not> writes_to_disk checkout then Inr s
      else rbind (if is_resume checkout then Inr True else should_restore base m p) (\<lambda>ok.
             Inr (if ok then s\<lparr>ms_to_restore := ms_to_restore s @ [(p, m)]\<rparr>
                  else s\<lparr>ms_cannot_overwrite := ms_cannot_overwrite s @ [p]\<rparr>)))"

text \<open>A directory that was skipped has to be scanned when the merge commit is staged.\<close>

definition unshare_parent :: "local_checkout \<Rightarrow> merkle_tree_node option \<Rightarrow> path \<Rightarrow> merge_state \<Rightarrow> merge_state" where
  "unshare_parent checkout lca_tree p s =
     (if \<not> writes_to_disk checkout then s
      else case (path_parent p, lca_tree) of
        (Some parent, Some t) \<Rightarrow>
          (case get_by_path t parent of
             Some dir_node \<Rightarrow> s\<lparr>ms_shared := ms_shared s - {t_hash dir_node}\<rparr>
           | None \<Rightarrow> s)
      | _ \<Rightarrow> s)"

text \<open>One file of the merge tree, found outside the shared directories.\<close>

definition merge_step ::
  "local_checkout \<Rightarrow> restore_check \<Rightarrow> (path \<Rightarrow> file_node option res) \<Rightarrow> merkle_tree_node option \<Rightarrow>
   (path, file_node) hash_map \<Rightarrow> (path, file_node) hash_map \<Rightarrow> path \<times> file_node \<Rightarrow> merge_state \<Rightarrow> merge_state res" where
  "merge_step checkout should_restore base_file lca_tree lca_entries base_entries = (\<lambda>(p, m) s.
     case map_of base_entries p of
       Some b \<Rightarrow>
         (case map_of lca_entries p of
            Some l \<Rightarrow>
              (let base_eq_lca = same_content_hash b l; base_eq_merge = same_content_hash b m; lca_eq_merge = same_content_hash l m
               in rbind (if base_eq_lca \<and> \<not> base_eq_merge
                         then note_restore checkout should_restore (Some b) p m (add_merge_entry p m Modified s)
                         else Inr s) (\<lambda>s.
                  Inr (if \<not> base_eq_lca \<and> \<not> lca_eq_merge \<and> \<not> base_eq_merge then add_conflict p l b m s else s)))
          | None \<Rightarrow> Inr (if \<not> same_content_hash b m then add_conflict p b b m s else s))
     | None \<Rightarrow>
         rbind (base_file p) (\<lambda>base.
           if base \<noteq> None
           then note_restore checkout should_restore base p m (unshare_parent checkout lca_tree p (add_merge_entry p m Modified s))
           else case map_of lca_entries p of
             Some l \<Rightarrow> Inr (if \<not> same_content_hash l m then add_conflict p l l m s else s)
           | None \<Rightarrow> note_restore checkout should_restore None p m (add_merge_entry p m Added s)))"

text \<open>One file of the common ancestor: is it gone from the merge tree?\<close>

definition deletion_step ::
  "(path \<Rightarrow> file_node option res) \<Rightarrow> (path \<Rightarrow> file_node option res) \<Rightarrow> (path, file_node) hash_map \<Rightarrow>
   path \<times> file_node \<Rightarrow> merge_state \<Rightarrow> merge_state res" where
  "deletion_step base_file merge_file merge_entries = (\<lambda>(p, l) s.
     if map_of merge_entries p \<noteq> None then Inr s
     else rbind (merge_file p) (\<lambda>m.
       if m \<noteq> None then Inr s
       else rbind (base_file p) (\<lambda>base.
         Inr (case base of
                None \<Rightarrow> s
              | Some b \<Rightarrow> if same_content_hash b l then add_merge_entry p l Removed s else add_conflict p l b l s))))"

text \<open>The trees: the ancestor whole, the base without what it shares with it, the merge without what it shares with the base.\<close>

definition load_tree ::
  "node_store \<Rightarrow> nat \<Rightarrow> commit \<Rightarrow> merkle_hash set option \<Rightarrow> merkle_hash set option \<Rightarrow> merkle_hash set option \<Rightarrow>
   (merkle_tree_node option \<times> merkle_hash set \<times> merkle_hash set) res" where
  "load_tree st fuel c base unique shared =
     (case root_with_children_and_node_hashes st fuel c base \<lparr>hs_unique = unique, hs_shared = shared\<rparr> of
        (Inl e, _) \<Rightarrow> Inl e
      | (Inr t, s) \<Rightarrow> Inr (t, case hs_unique s of None \<Rightarrow> {} | Some u \<Rightarrow> u, case hs_shared s of None \<Rightarrow> {} | Some h \<Rightarrow> h))"

record loaded_trees =
  lt_lca :: "merkle_tree_node option"
  lt_base :: merkle_tree_node
  lt_merge :: merkle_tree_node
  lt_shared :: "merkle_hash set"

definition load_merge_trees :: "node_store \<Rightarrow> nat \<Rightarrow> merge_commits \<Rightarrow> merkle_hash set \<Rightarrow> loaded_trees res" where
  "load_merge_trees st fuel mc shared =
     rbind (case mg_lca mc of None \<Rightarrow> Inr (None, {}, {}) | Some lca \<Rightarrow> load_tree st fuel lca None (Some {}) None) (\<lambda>(lca_tree, lca_hashes, _).
     rbind (load_tree st fuel (mg_base mc) (Some lca_hashes) (Some {}) (Some shared)) (\<lambda>(base, base_hashes, shared).
     rbind (ok_or (Panic ''unwrap'') base) (\<lambda>base_tree.
     rbind (load_tree st fuel (mg_merge mc) (Some base_hashes) None (Some shared)) (\<lambda>(merge, _, shared).
     rbind (ok_or (Panic ''unwrap'') merge) (\<lambda>merge_tree.
       Inr \<lparr>lt_lca = lca_tree, lt_base = base_tree, lt_merge = merge_tree, lt_shared = shared\<rparr>)))))"

record merge_env =
  me_hash128 :: "byte list \<Rightarrow> merkle_hash"
  me_order :: "(path, file_node) hash_map \<Rightarrow> (path \<times> file_node) list"
  me_should_restore :: restore_check

definition find_merge_conflicts ::
  "merge_env \<Rightarrow> node_store \<Rightarrow> nat \<Rightarrow> merge_commits \<Rightarrow> local_checkout \<Rightarrow> merkle_hash set \<Rightarrow> merge_state res" where
  "find_merge_conflicts env st fuel mc checkout shared_hashes =
     rbind (load_merge_trees st fuel mc shared_hashes) (\<lambda>trees.
     rbind (case lt_lca trees of None \<Rightarrow> Inr [] | Some t \<Rightarrow> unique_dir_entries [] t {}) (\<lambda>lca_entries.
     rbind (unique_dir_entries [] (lt_base trees) (lt_shared trees)) (\<lambda>base_entries.
     rbind (unique_dir_entries [] (lt_merge trees) (lt_shared trees)) (\<lambda>merge_entries.
       let base_file = get_file_by_path (me_hash128 env) st fuel (mg_base mc);
           merge_file = get_file_by_path (me_hash128 env) st fuel (mg_merge mc);
           start = \<lparr>ms_conflicts = [], ms_entries = [], ms_to_restore = [], ms_cannot_overwrite = [], ms_shared = lt_shared trees\<rparr>
       in rbind (rfold (merge_step checkout (me_should_restore env) base_file (lt_lca trees) lca_entries base_entries)
                   (me_order env merge_entries) start) (\<lambda>s.
          rbind (rfold (deletion_step base_file merge_file merge_entries) (me_order env lca_entries) s) (\<lambda>s.
            if ms_cannot_overwrite s = [] then Inr s
            else Inl (Basic ''Error: your local changes to the following files would be overwritten.'')))))))"

section \<open>Questions about a merge\<close>

text \<open>The commits and the references a repository has; \<open>corder\<close> is the order of the maps of commits.\<close>

record 'r merge_repo =
  mr_env :: merge_env
  mr_store :: node_store
  mr_fuel :: nat
  mr_kv :: "'r ref_kv"
  mr_refs :: "'r refs"
  mr_corder :: "(commit \<times> nat) list \<Rightarrow> (commit \<times> nat) list"

definition mr_source :: "'r merge_repo \<Rightarrow> commit_source" where
  "mr_source r = get_by_hash (mr_store r) (mr_fuel r)"

definition lca_of :: "'r merge_repo \<Rightarrow> commit \<Rightarrow> commit \<Rightarrow> commit option loop" where
  "lca_of r base merge = lowest_common_ancestor_from_commits (mr_corder r) (mr_source r) (mr_kv r) (mr_refs r) base merge"

definition commit_or_head :: "'r merge_repo \<Rightarrow> string \<Rightarrow> commit res" where
  "commit_or_head r name = get_commit_or_head (mr_source r) (mr_kv r) (mr_refs r) (Some name)"

definition conflicts_between :: "'r merge_repo \<Rightarrow> merge_commits \<Rightarrow> node_merge_conflict list res" where
  "conflicts_between r mc =
     rbind (find_merge_conflicts (mr_env r) (mr_store r) (mr_fuel r) mc Absent {}) (\<lambda>s. Inr (ms_conflicts s))"

definition can_merge_commits :: "'r merge_repo \<Rightarrow> commit \<Rightarrow> commit \<Rightarrow> bool loop" where
  "can_merge_commits r base merge =
     lbind (lca_of r base merge) (\<lambda>lca.
       let mc = \<lparr>mg_lca = lca, mg_base = base, mg_merge = merge\<rparr>
       in if is_fast_forward_merge mc then Some (Inr True)
          else Some (rbind (conflicts_between r mc) (\<lambda>cs. Inr (cs = []))))"

definition has_conflicts :: "'r merge_repo \<Rightarrow> branch \<Rightarrow> branch \<Rightarrow> bool loop" where
  "has_conflicts r base_branch merge_branch =
     lbind (Some (commit_or_head r (br_commit_id base_branch))) (\<lambda>base.
     lbind (Some (commit_or_head r (br_commit_id merge_branch))) (\<lambda>merge.
     lbind (can_merge_commits r base merge) (\<lambda>b. Some (Inr (\<not> b)))))"

definition list_conflicts_between_commits :: "'r merge_repo \<Rightarrow> commit \<Rightarrow> commit \<Rightarrow> path list loop" where
  "list_conflicts_between_commits r base merge =
     lbind (lca_of r base merge) (\<lambda>lca.
       Some (rbind (conflicts_between r \<lparr>mg_lca = lca, mg_base = base, mg_merge = merge\<rparr>) (\<lambda>cs.
         Inr (map (\<lambda>c. snd (nmc_base_entry c)) cs))))"

definition list_conflicts_between_branches :: "'r merge_repo \<Rightarrow> branch \<Rightarrow> branch \<Rightarrow> path list loop" where
  "list_conflicts_between_branches r base_branch merge_branch =
     lbind (Some (commit_or_head r (br_commit_id base_branch))) (\<lambda>base.
     lbind (Some (commit_or_head r (br_commit_id merge_branch))) (\<lambda>merge.
       list_conflicts_between_commits r base merge))"

definition list_commits_between_commits :: "'r merge_repo \<Rightarrow> 'c count_kv \<Rightarrow> commit \<Rightarrow> commit \<Rightarrow> commit list loop" where
  "list_commits_between_commits r ckv base head =
     lbind (lca_of r base head) (\<lambda>lca.
       case lca of
         None \<Rightarrow> Some (Inl (Basic ''Error: commits have no common ancestor''))
       | Some lca \<Rightarrow> list_between (mr_source r) ckv lca head)"

definition list_commits_between_branches :: "'r merge_repo \<Rightarrow> 'c count_kv \<Rightarrow> branch \<Rightarrow> branch \<Rightarrow> commit list loop" where
  "list_commits_between_branches r ckv base_branch head_branch =
     lbind (Some (commit_or_head r (br_commit_id base_branch))) (\<lambda>base.
     lbind (Some (commit_or_head r (br_commit_id head_branch))) (\<lambda>head.
       list_commits_between_commits r ckv base head))"

text \<open>The commits for merging a branch into the current one.\<close>

definition find_merge_commits :: "'r merge_repo \<Rightarrow> string \<Rightarrow> merge_commits loop" where
  "find_merge_commits r branch_name =
     lbind (Some (ok_or (Basic ''No current branch'') (get_current_branch (mr_kv r) (mr_refs r)))) (\<lambda>current.
     lbind (Some (commit_or_head r (br_name current))) (\<lambda>head.
     lbind (Some (commit_or_head r branch_name)) (\<lambda>merge.
     lbind (lca_of r head merge) (\<lambda>lca.
       Some (Inr \<lparr>mg_lca = lca, mg_base = head, mg_merge = merge\<rparr>)))))"

definition lowest_common_ancestor :: "'r merge_repo \<Rightarrow> string \<Rightarrow> commit option loop" where
  "lowest_common_ancestor r branch_name = lbind (find_merge_commits r branch_name) (\<lambda>mc. Some (Inr (mg_lca mc)))"

end
