(* ===== verification/Three_Way_Merge_Props.thy ===== *)
theory Three_Way_Merge_Props
  imports Three_Way_Merge Tree_Query_Props "HOL-Library.Multiset"
begin

text \<open>
  The analysis of a three-way merge against the reference merge of file maps: although it never looks
  into what the trees share, it reports a conflict exactly where all three sides differ, and its
  entries turn the files of the base commit into the merged ones.
\<close>

section \<open>Inner nodes and what is left out below shared ones\<close>

fun inner_at :: "merkle_tree_node \<Rightarrow> path \<Rightarrow> (path \<times> merkle_tree_node) list" where
  "inner_at (MTNode h n p cs) cur =
     (if may_have_children (MTNode h n p cs) then [(cur, MTNode h n p cs)] else []) @
     concat (map (\<lambda>c. inner_at c (child_path cur c)) cs)"

lemma inner_at_kid: "c \<in> set cs \<Longrightarrow> x \<in> set (inner_at c (child_path cur c)) \<Longrightarrow> x \<in> set (inner_at (MTNode h n p cs) cur)"
  by auto

lemma inner_at_files: "(P, y) \<in> set (inner_at t cur) \<Longrightarrow> set (file_entries y P) \<subseteq> set (file_entries t cur)"
proof (induction t arbitrary: cur)
  case (MTNode h n p cs)
  show ?case
  proof (cases "P = cur \<and> y = MTNode h n p cs")
    case False
    then obtain c where c: "c \<in> set cs" "(P, y) \<in> set (inner_at c (child_path cur c))"
      using MTNode.prems by (auto split: if_splits)
    have "set (file_entries c (child_path cur c)) \<subseteq> set (file_entries (MTNode h n p cs) cur)"
      using c(1) by (auto simp: file_entries_node)
    with MTNode.IH [OF c] show ?thesis by blast
  qed simp
qed

lemma inner_not_file: "(P, y) \<in> set (inner_at t cur) \<Longrightarrow> may_have_children y"
proof (induction t arbitrary: cur)
  case (MTNode h n p cs)
  then show ?case by (auto split: if_splits)
qed

lemma kept_inner_node:
  "may_have_children (MTNode h n p cs) \<Longrightarrow>
   kept S (MTNode h n p cs) cur = (if h \<in> S then [] else concat (map (\<lambda>c. kept S c (child_path cur c)) cs))"
  by (cases n) (simp_all add: may_have_children_def)

lemma kept_inner:
  "wf_tree t \<Longrightarrow> (q, f) \<in> set (file_entries t cur) \<Longrightarrow> (q, f) \<in> set (kept S t cur) \<or>
   (\<exists>P y. (P, y) \<in> set (inner_at t cur) \<and> t_hash y \<in> S \<and> (q, f) \<in> set (file_entries y P))"
proof (induction t arbitrary: cur)
  case (MTNode h n p cs)
  let ?t = "MTNode h n p cs"
  show ?case
  proof (cases "may_have_children ?t")
    case False
    then have "cs = []" using MTNode.prems(1) by (cases n) (simp_all add: may_have_children_def)
    with False MTNode.prems(2) show ?thesis
      by (auto simp: file_entries_node may_have_children_def split: e_merkle_tree_node.splits)
  next
    case True
    have nf: "(case n of EFile f \<Rightarrow> [(join_str cur (fn_name f), f)] | _ \<Rightarrow> []) = []"
      using True by (auto simp: may_have_children_def split: e_merkle_tree_node.splits)
    show ?thesis
    proof (cases "h \<in> S")
      case True
      with MTNode.prems(2) \<open>may_have_children ?t\<close> show ?thesis
        by (intro disjI2 exI [of _ cur] exI [of _ ?t]) simp
    next
      case False
      obtain c where c: "c \<in> set cs" "(q, f) \<in> set (file_entries c (child_path cur c))"
        using MTNode.prems(2) nf by (auto simp: file_entries_node)
      have k: "kept S ?t cur = concat (map (\<lambda>c. kept S c (child_path cur c)) cs)"
        using kept_inner_node [OF True] False by simp
      from MTNode.IH [OF c(1) wf_kids [OF MTNode.prems(1) c(1)] c(2)] show ?thesis
      proof (elim disjE exE conjE)
        assume "(q, f) \<in> set (kept S c (child_path cur c))"
        with c(1) have "(q, f) \<in> set (kept S ?t cur)" unfolding k by auto
        then show ?thesis ..
      next
        fix P y assume "(P, y) \<in> set (inner_at c (child_path cur c))" "t_hash y \<in> S" "(q, f) \<in> set (file_entries y P)"
        with inner_at_kid [OF c(1)] show ?thesis by blast
      qed
    qed
  qed
qed

lemma distinct_concat_map_disjoint:
  "distinct (concat (map g cs)) \<Longrightarrow> c \<in> set cs \<Longrightarrow> d \<in> set cs \<Longrightarrow> c \<noteq> d \<Longrightarrow> set (g c) \<inter> set (g d) = {}"
  by (induction cs) auto

text \<open>A file below a shared node is not kept: no other node has its path.\<close>

lemma shared_not_kept:
  "wf_tree t \<Longrightarrow> (P, y) \<in> set (inner_at t cur) \<Longrightarrow> t_hash y \<in> S \<Longrightarrow> (q, f) \<in> set (file_entries y P) \<Longrightarrow>
   q \<notin> fst ` set (kept S t cur)"
proof (induction t arbitrary: cur)
  case (MTNode h n p cs)
  let ?t = "MTNode h n p cs"
  show ?case
  proof (cases "P = cur \<and> y = ?t")
    case True
    have "may_have_children ?t" using inner_not_file [OF MTNode.prems(2)] True by simp
    from kept_inner_node [OF this] have "kept S ?t cur = []" using True MTNode.prems(3) by simp
    then show ?thesis by (simp del: kept.simps)
  next
    case False
    then obtain c where c: "c \<in> set cs" "(P, y) \<in> set (inner_at c (child_path cur c))"
      using MTNode.prems(2) by (auto split: if_splits)
    note IH = MTNode.IH [OF c(1) wf_kids [OF MTNode.prems(1) c(1)] c(2) MTNode.prems(3,4)]
    have nl: "\<not> (\<exists>g. n = EFile g)" using MTNode.prems(1) c(1) by auto
    have "distinct (map fst (file_entries ?t cur))" using MTNode.prems(1) by (rule distinct_file_entries)
    then have d: "distinct (concat (map (\<lambda>c. map fst (file_entries c (child_path cur c))) cs))"
      by (simp add: file_entries_node map_concat comp_def)
    have "(q, f) \<in> set (file_entries c (child_path cur c))" using inner_at_files [OF c(2)] MTNode.prems(4) by blast
    then have q: "q \<in> set (map fst (file_entries c (child_path cur c)))" by force
    have "q \<notin> fst ` set (kept S e (child_path cur e))" if e: "e \<in> set cs" for e
    proof (cases "e = c")
      case False
      from distinct_concat_map_disjoint [OF d c(1) e] False q
      have "q \<notin> fst ` set (file_entries e (child_path cur e))" by auto
      with kept_sub show ?thesis by blast
    qed (use IH in simp)
    then show ?thesis using nl by (cases n) auto
  qed
qed

section \<open>Trees loaded without what they share\<close>

lemma kept_prune:
  "wf_tree t \<Longrightarrow> shared_of base (-1) trav t \<subseteq> S \<Longrightarrow> kept S (prune base (-1) trav t) cur = kept S t cur"
proof (induction t arbitrary: trav cur)
  case (MTNode h n p cs)
  let ?t = "MTNode h n p cs"
  show ?case
  proof (cases "may_have_children ?t")
    case False
    then have "cs = []" using MTNode.prems(1) by (cases n) (simp_all add: may_have_children_def)
    then show ?thesis using False by simp
  next
    case True
    show ?thesis
    proof (cases "in_base base h")
      case b: True
      then have "h \<in> S" using MTNode.prems(2) True by simp
      moreover have "may_have_children (MTNode h n p [])" using True by (simp add: may_have_children_def)
      ultimately show ?thesis using b by (simp add: kept_inner_node True del: kept.simps)
    next
      case False
      let ?k = "\<lambda>c. if may_have_children c then prune base (-1) (child_depth trav c) c else strip c"
      have "kept S (?k c) (child_path cur (?k c)) = kept S c (child_path cur c)" if c: "c \<in> set cs" for c
      proof (cases "may_have_children c")
        case m: True
        have "shared_of base (-1) (child_depth trav c) c \<subseteq> S"
          using MTNode.prems(2) True False m c by auto
        moreover have "child_path cur (prune base (-1) (child_depth trav c) c) = child_path cur c"
          by (cases c) (simp add: child_path_def)
        ultimately show ?thesis using m MTNode.IH [OF c wf_kids [OF MTNode.prems(1) c]] by simp
      next
        case m: False
        have "t_children c = []" using wf_kids [OF MTNode.prems(1) c] m
          by (cases c; cases "t_node c") (simp_all add: may_have_children_def)
        then have "strip c = c" by (cases c) (simp add: strip_def)
        with m show ?thesis by simp
      qed
      then have "concat (map (\<lambda>c. kept S c (child_path cur c)) (map ?k cs)) = concat (map (\<lambda>c. kept S c (child_path cur c)) cs)"
        by (simp add: comp_def cong: map_cong)
      moreover have "may_have_children (MTNode h n p (map ?k cs))" using True by (simp add: may_have_children_def)
      ultimately show ?thesis using True False by (simp add: kept_inner_node del: kept.simps)
    qed
  qed
qed

lemma prune_sel [simp]: "t_hash (prune base r trav t) = t_hash t" "t_node (prune base r trav t) = t_node t"
  by (cases t; simp)+

lemma is_kind_prune [simp]:
  "is_dir (prune base r trav t) = is_dir t" "is_file (prune base r trav t) = is_file t" "is_vnode (prune base r trav t) = is_vnode t"
  "child_search_name (prune base r trav t) = child_search_name t"
  by (simp_all add: is_dir_def is_file_def is_vnode_def child_search_name_def)

lemma is_kind_strip [simp]:
  "is_dir (strip t) = is_dir t" "is_file (strip t) = is_file t" "is_vnode (strip t) = is_vnode t"
  "child_search_name (strip t) = child_search_name t"
  by (simp_all add: is_dir_def is_file_def is_vnode_def child_search_name_def)

text \<open>Only a commit node that is shared itself loses its shape.\<close>

lemma wf_prune:
  "wf_tree t \<Longrightarrow> (node_type (t_node t) = TCommit \<Longrightarrow> \<not> in_base base (t_hash t)) \<Longrightarrow> wf_tree (prune base (-1) trav t)"
proof (induction t arbitrary: trav)
  case (MTNode h n p cs)
  let ?t = "MTNode h n p cs"
  show ?case
  proof (cases "\<not> may_have_children ?t \<or> in_base base h")
    case True
    then show ?thesis using MTNode.prems by (cases n) (auto simp: may_have_children_def)
  next
    case False
    define k where "k = (\<lambda>c. if may_have_children c then prune base (-1) (child_depth trav c) c else strip c)"
    have kid: "wf_tree (k c)" if c: "c \<in> set cs" for c
    proof (cases "may_have_children c")
      case True
      have "node_type (t_node c) \<noteq> TCommit"
        using MTNode.prems(1) c by (cases n; cases "t_node c")
          (auto simp: list_all_iff is_vnode_def is_file_def is_dir_def split: list.splits)
      with True MTNode.IH [OF c wf_kids [OF MTNode.prems(1) c]] show ?thesis by (simp add: k_def)
    next
      case m: False
      have "t_children c = []" using wf_kids [OF MTNode.prems(1) c] m
        by (cases c; cases "t_node c") (simp_all add: may_have_children_def)
      then have "strip c = c" by (cases c) (simp add: strip_def)
      with m wf_kids [OF MTNode.prems(1) c] show ?thesis by (simp add: k_def)
    qed
    have name: "child_search_name (k c) = child_search_name c" "is_dir (k c) = is_dir c" "is_file (k c) = is_file c"
      "is_vnode (k c) = is_vnode c" for c by (simp_all add: k_def)
    have "prune base (-1) trav ?t = MTNode h n p (map k cs)" using False by (simp add: k_def)
    moreover have "wf_tree (MTNode h n p (map k cs))"
    proof (cases n)
      case (ECommit c)
      with MTNode.prems(1) kid show ?thesis by (auto simp: list_all_iff name split: list.splits)
    next
      case (EDirectory d)
      have sub: "subseq (map child_search_name (t_children (k v))) (map child_search_name (t_children v))" for v
        by (cases v) (auto simp: k_def comp_def if_distrib [of child_search_name] cong: if_cong)
      have "subseq (concat (map (\<lambda>v. map child_search_name (t_children (k v))) cs))
          (concat (map (\<lambda>v. map child_search_name (t_children v)) cs))"
        by (rule subseq_concat_map) (rule sub)
      moreover have "distinct (concat (map (\<lambda>v. map child_search_name (t_children v)) cs))"
        using MTNode.prems(1) EDirectory by simp
      ultimately have "distinct (concat (map (\<lambda>v. map child_search_name (t_children (k v))) cs))" by (rule subseq_distinct)
      with MTNode.prems(1) EDirectory kid name show ?thesis by (auto simp: list_all_iff comp_def)
    next
      case (EVNode v)
      have "map child_search_name (map k cs) = map child_search_name cs" by (simp add: name)
      with MTNode.prems(1) EVNode kid name show ?thesis by (auto simp: list_all_iff comp_def)
    qed (use False in \<open>simp_all add: may_have_children_def\<close>)
    ultimately show ?thesis by (simp only:)
  qed
qed

section \<open>A commit and its tree\<close>

text \<open>
  The tree of a commit as the commit writer leaves it: in the store under the commit's id, with the
  directory hashes of its directories and every file in the vnode of its path.
\<close>

definition commit_tree :: "(byte list \<Rightarrow> merkle_hash) \<Rightarrow> node_store \<Rightarrow> nat \<Rightarrow> commit \<Rightarrow> merkle_tree_node \<Rightarrow> bool" where
  "commit_tree hash128 st fuel c t \<longleftrightarrow>
     wf_tree t \<and> node_type (t_node t) = TCommit \<and> stored st t \<and> tree_size t \<le> fuel \<and>
     merkle_hash_from_str (cm_id c) = Inr (t_hash t) \<and>
     (\<exists>dhs. dir_hashes st c = Inr dhs \<and> dir_hashes_ok dhs (hd (t_children t))) \<and>
     (\<forall>P d. (P, d) \<in> set (tree_entries (hd (t_children t)) []) \<longrightarrow> is_dir d \<longrightarrow> bucketed hash128 P d)"

definition file_map :: "merkle_tree_node \<Rightarrow> path \<Rightarrow> file_node option" where
  "file_map t = map_of (file_entries t [])"

lemma file_map_iff: "wf_tree t \<Longrightarrow> file_map t p = Some f \<longleftrightarrow> (p, f) \<in> set (file_entries t [])"
  unfolding file_map_def using distinct_file_entries by (rule map_of_eq_Some_iff)

lemma commit_treeD:
  assumes "commit_tree hash128 st fuel c t"
  obtains h n pid r where "t = MTNode h (ECommit n) pid [r]" "wf_tree r" "is_dir r" "child_search_name r = []"
    "stored st r" "tree_size r \<le> fuel" "may_have_children t"
proof -
  have t: "wf_tree t" "node_type (t_node t) = TCommit" "stored st t" "tree_size t \<le> fuel"
    using assms by (simp_all add: commit_tree_def)
  then obtain h n pid cs where e: "t = MTNode h (ECommit n) pid cs" by (cases t; cases "t_node t") auto
  with t(1) obtain r where r: "cs = [r]" "is_dir r" "child_search_name r = []" "wf_tree r" by (auto split: list.splits)
  have "may_have_children t" by (simp add: e may_have_children_def)
  moreover from this t(3,4) have "stored st r" "tree_size r \<le> fuel" by (simp_all add: e r(1))
  ultimately show thesis using that e r by blast
qed

lemma file_entries_root:
  assumes "t = MTNode h (ECommit n) pid [r]" "is_dir r" "child_search_name r = []"
  shows "file_entries t [] = file_entries r []"
  using assms by (simp add: file_entries_node child_path_dir)

lemma entry_kind: "(q, x) \<in> set (tree_entries t cur) \<Longrightarrow> is_file x \<or> is_dir x"
proof (induction t cur rule: tree_entries.induct)
  case (1 h n p cs cur)
  then show ?case by (cases n) auto
qed

text \<open>Every file of a directory has a path of names.\<close>

lemma entry_paths_named:
  "wf_tree t \<Longrightarrow> is_dir t \<Longrightarrow> name_path cur \<Longrightarrow> (q, x) \<in> set (tree_entries t cur) \<Longrightarrow> name_path q"
proof (induction t arbitrary: cur rule: measure_induct_rule [of tree_size])
  case (less t)
  from less.prems(1,2,4) show ?case
  proof (cases rule: dir_entries_cases)
    case top
    then show ?thesis using less.prems(3) by simp
  next
    case (below c)
    show ?thesis
    proof (cases "is_dir c")
      case True
      have "name_path (child_path cur c)" using True below(4) less.prems(3) by (simp add: child_path_dir)
      from less.IH [OF below(6,2) True this below(5)] show ?thesis .
    next
      case False
      then obtain h f p cs where c: "c = MTNode h (EFile f) p cs"
        using below(3) by (cases c) (auto simp: is_file_def split: e_merkle_tree_node.splits)
      with below(2,4,5) less.prems(3) show ?thesis by auto
    qed
  qed
qed

lemma file_path_named:
  assumes "wf_tree t" "is_dir t" "(q, f) \<in> set (file_entries t [])"
  shows "name_path q \<and> q \<noteq> []"
proof -
  obtain x where x: "(q, x) \<in> set (tree_entries t [])" "t_node x = EFile f" using assms(3) by (auto simp: in_file_entries)
  from x(2) assms(2) have "x \<noteq> t" by (auto simp: is_dir_def)
  with entry_has_dir [OF assms(1,2) x(1)] entry_paths_named [OF assms(1,2) _ x(1)] show ?thesis by auto
qed

text \<open>The search for a file through the store finds what the tree has.\<close>

lemma get_file_by_path_map:
  assumes "commit_tree hash128 st fuel c t" "name_path p" "p \<noteq> []"
  shows "get_file_by_path hash128 st fuel c p = Inr (file_map t p)"
proof -
  obtain h n pid r where t: "t = MTNode h (ECommit n) pid [r]" "wf_tree r" "is_dir r" "child_search_name r = []"
    "stored st r" "tree_size r \<le> fuel" using commit_treeD [OF assms(1)] by metis
  have wf: "wf_tree t" using assms(1) by (simp add: commit_tree_def)
  obtain dhs where d: "dir_hashes st c = Inr dhs" "dir_hashes_ok dhs r"
    and b: "\<And>P d. (P, d) \<in> set (tree_entries r []) \<Longrightarrow> is_dir d \<Longrightarrow> bucketed hash128 P d"
    using assms(1) by (auto simp: commit_tree_def t(1))
  have nf: "\<not> is_file r" using t(3) by (auto simp: kind_defs split: e_merkle_tree_node.splits)
  have look: "get_by_path r p = Some x \<longleftrightarrow> (p, x) \<in> set (tree_entries r [])" for x
    by (simp add: get_by_path_entries [OF t(2) nf] map_of_tree_entries [OF t(2)])
  have fm: "file_map t p = Some f \<longleftrightarrow> (\<exists>x. get_by_path r p = Some x \<and> t_node x = EFile f)" for f
    unfolding file_map_iff [OF wf] file_entries_root [OF t(1,3,4)] in_file_entries look by blast
  have np: "node_path_of p = p" using assms(2) by (auto simp: node_path_of_def)
  show ?thesis
  proof (cases "\<exists>x. get_by_path r p = Some x \<and> is_dir x")
    case True
    then obtain x where x: "get_by_path r p = Some x" "is_dir x" by blast
    then have e: "(p, x) \<in> set (tree_entries r [])" using look by blast
    then have h: "map_of dhs p = Some (t_hash x)" using x(2) d(2) unfolding dir_hashes_ok_def by blast
    have st: "stored st x" "tree_size x \<le> fuel" using stored_entry [OF t(2,5) e] t(6) by auto
    have may: "may_have_children x" using x(2) by (auto simp: is_dir_def may_have_children_def split: e_merkle_tree_node.splits)
    obtain pid' where "read_depth st fuel (t_hash x) 1 = Inr (Some (MTNode (t_hash x) (t_node x) pid' (t_children (prune None 1 0 x))))"
      using read_depth_stored [OF st(1) may st(2)] by metis
    with h d(1) np have "get_node_by_path hash128 st fuel c p = Inr (Some (MTNode (t_hash x) (t_node x) pid' (t_children (prune None 1 0 x))))"
      by (simp add: get_node_by_path_def read_from_path_def read_depth_from_path_def)
    moreover obtain dn where dn: "t_node x = EDirectory dn" using x(2) by (auto simp: is_dir_def split: e_merkle_tree_node.splits)
    moreover have "file_map t p = None" using fm x(1) dn by (cases "file_map t p") auto
    ultimately show ?thesis by (simp add: get_file_by_path_def)
  next
    case False
    have isf: "is_file x" if "get_by_path r p = Some x" for x
      using that False look [of x] entry_kind [of p x r "[]"] by blast
    have "map_of dhs p = None"
      using False look d(2) unfolding dir_hashes_ok_def by (cases "map_of dhs p") auto
    moreover have "read_file hash128 st fuel dhs p = Inr (get_by_path r p)"
      using t(2,3,5,6) d(2) b assms(2,3) isf by (rule read_file_search)
    moreover have "file_map t p = (case get_by_path r p of None \<Rightarrow> None | Some x \<Rightarrow> case t_node x of EFile f \<Rightarrow> Some f | _ \<Rightarrow> None)"
    proof (cases "get_by_path r p")
      case None
      then show ?thesis using fm by (cases "file_map t p") auto
    next
      case (Some x)
      from isf [OF Some] obtain f where f: "t_node x = EFile f" by (auto simp: is_file_def split: e_merkle_tree_node.splits)
      with Some fm [of f] show ?thesis by simp
    qed
    ultimately show ?thesis using d(1) np
      by (cases "get_by_path r p")
        (simp_all add: get_file_by_path_def get_node_by_path_def read_from_path_def read_depth_from_path_def)
  qed
qed

section \<open>Loading the trees\<close>

lemma load_tree_commit:
  assumes "commit_tree hash128 st fuel c t"
  shows "\<exists>pid. load_tree st fuel c base u s =
    Inr (Some (MTNode (t_hash t) (t_node t) pid (t_children (prune base (-1) 0 t))),
      case u of None \<Rightarrow> {} | Some u \<Rightarrow> u \<union> unique_of base (-1) 0 t,
      case s of None \<Rightarrow> {} | Some s \<Rightarrow> s \<union> shared_of base (-1) 0 t)"
proof -
  have t: "stored st t" "may_have_children t" "tree_size t \<le> fuel" "merkle_hash_from_str (cm_id c) = Inr (t_hash t)"
    using assms by (auto simp: commit_tree_def may_have_children_def split: e_merkle_tree_node.splits)
  obtain pid where r: "\<And>base d s. read_depth_and_collect_hashes st fuel (t_hash t) base d s =
      (Inr (Some (MTNode (t_hash t) (t_node t) pid (t_children (prune base d 0 t)))),
       add_sets (unique_of base d 0 t) (shared_of base d 0 t) s)"
    using read_depth_stored [OF t(1-3)] by metis
  have "st_exists st (t_hash t)" using t(1,2) by (cases t) simp
  then show ?thesis
    using t(4) by (intro exI [of _ pid])
      (cases u; cases s; simp add: load_tree_def root_with_children_and_node_hashes_def slift_def sbind_def
        read_node_and_collect_hashes_def r add_sets_def)
qed

lemma loaded_entries:
  assumes "wf_tree t" and "node_type (t_node t) = TCommit" and "shared_of base (-1) 0 t \<subseteq> S"
  shows "\<exists>m. unique_dir_entries [] (MTNode (t_hash t) (t_node t) pid (t_children (prune base (-1) 0 t))) S = Inr m \<and>
    hm_wf m \<and> map_of m = map_of (kept S t [])"
proof -
  obtain h n q cs where t: "t = MTNode h (ECommit n) q cs" using assms(2) by (cases t; cases "t_node t") auto
  have may: "may_have_children t" by (simp add: t may_have_children_def)
  show ?thesis
  proof (cases "in_base base h")
    case True
    then have "h \<in> S" using assms(3) may by (simp add: t)
    then show ?thesis by (auto simp: t)
  next
    case False
    define cs' where "cs' = t_children (prune base (-1) 0 t)"
    then have p: "prune base (-1) 0 t = MTNode h (ECommit n) q cs'" using False may by (simp add: t)
    have "wf_tree (prune base (-1) 0 t)" using wf_prune [OF assms(1)] False by (simp add: t)
    then have "wf_tree (MTNode h (ECommit n) pid cs')" by (simp add: p)
    from unique_dir_entries_eq [OF this, of "[]" S] obtain m where
      m: "unique_dir_entries [] (MTNode h (ECommit n) pid cs') S = Inr m" "hm_wf m"
        "map_of m = map_of (kept S (MTNode h (ECommit n) pid cs') [])" by auto
    have "kept S (MTNode h (ECommit n) pid cs') [] = kept S (prune base (-1) 0 t) []" by (simp add: p)
    also have "\<dots> = kept S t []" by (rule kept_prune [OF assms(1,3)])
    finally have "map_of m = map_of (kept S t [])" using m(3) by simp
    with m(1,2) p show ?thesis by (simp add: t)
  qed
qed

lemma node_inner_at:
  "y \<in> set (tree_nodes t) \<Longrightarrow> may_have_children y \<Longrightarrow> \<exists>P. (P, y) \<in> set (inner_at t cur)"
proof (induction t arbitrary: cur)
  case (MTNode h n p cs)
  show ?case
  proof (cases "y = MTNode h n p cs")
    case True
    with MTNode.prems(2) show ?thesis by auto
  next
    case False
    then obtain c where c: "c \<in> set cs" "y \<in> set (tree_nodes c)" using MTNode.prems(1) by auto
    from MTNode.IH [OF c MTNode.prems(2)] inner_at_kid [OF c(1)] show ?thesis by blast
  qed
qed

lemma unique_inner_at: "x \<in> unique_of base (-1) trav t \<Longrightarrow> \<exists>P y. (P, y) \<in> set (inner_at t []) \<and> t_hash y = x"
  using unique_in_tree node_inner_at by metis

lemma shared_inner_at: "x \<in> shared_of base (-1) trav t \<Longrightarrow> \<exists>P y. (P, y) \<in> set (inner_at t []) \<and> t_hash y = x"
  using shared_in_tree node_inner_at by metis

section \<open>What the trees share\<close>

text \<open>
  Equal hashes of commits, directories and vnodes stand for the same files at the same paths (the
  hashes cover the path of the directory and the contents).
\<close>

definition hash_fixes_files :: "merkle_tree_node set \<Rightarrow> bool" where
  "hash_fixes_files ts \<longleftrightarrow> (\<forall>t \<in> ts. \<forall>u \<in> ts. \<forall>(P, x) \<in> set (inner_at t []). \<forall>(Q, y) \<in> set (inner_at u []).
     t_hash x = t_hash y \<longrightarrow> set (file_entries x P) = set (file_entries y Q))"

text \<open>A file that is not kept is in every tree that has the hash it was left out for, and is not kept there either.\<close>

lemma left_out_elsewhere:
  assumes "hash_fixes_files ts" "t \<in> ts" "wf_tree t" "file_map t p = Some f" "map_of (kept S t []) p = None"
  obtains h where "h \<in> S"
    and "\<And>u Q z. u \<in> ts \<Longrightarrow> wf_tree u \<Longrightarrow> (Q, z) \<in> set (inner_at u []) \<Longrightarrow> t_hash z = h \<Longrightarrow>
           file_map u p = Some f \<and> map_of (kept S u []) p = None"
proof -
  have f: "(p, f) \<in> set (file_entries t [])" using assms(3,4) by (simp add: file_map_iff)
  have "(p, f) \<notin> set (kept S t [])" using assms(5) by (force simp: map_of_eq_None_iff)
  with kept_inner [OF assms(3) f] obtain P y where
    y: "(P, y) \<in> set (inner_at t [])" "t_hash y \<in> S" "(p, f) \<in> set (file_entries y P)" by blast
  show thesis
  proof (rule that [OF y(2)])
    fix u Q z assume u: "u \<in> ts" "wf_tree u" "(Q, z) \<in> set (inner_at u [])" "t_hash z = t_hash y"
    have "set (file_entries z Q) = set (file_entries y P)"
      using assms(1,2) u(1,3,4) y(1) unfolding hash_fixes_files_def by fastforce
    with y(3) have z: "(p, f) \<in> set (file_entries z Q)" by simp
    moreover from this inner_at_files [OF u(3)] have "(p, f) \<in> set (file_entries u [])" by blast
    moreover have "p \<notin> fst ` set (kept S u [])"
      using shared_not_kept [OF u(2,3) _ z] u(4) y(2) by simp
    ultimately show "file_map u p = Some f \<and> map_of (kept S u []) p = None"
      using u(2) by (simp add: file_map_iff map_of_eq_None_iff)
  qed
qed

section \<open>The loops as enumerations\<close>

type_synonym side = "path \<Rightarrow> file_node option"

text \<open>What one file of the merge tree adds; \<open>J\<close> and \<open>L\<close> are the kept files of the base and the files of the ancestor, \<open>B\<close> all files of the base.\<close>

definition step_conflict :: "side \<Rightarrow> side \<Rightarrow> side \<Rightarrow> path \<times> file_node \<Rightarrow> node_merge_conflict list" where
  "step_conflict L B J = (\<lambda>(p, m).
     case J p of
       Some b \<Rightarrow>
         (case L p of
            Some l \<Rightarrow> if \<not> same_content_hash b l \<and> \<not> same_content_hash l m \<and> \<not> same_content_hash b m then [conflict_at p l b m] else []
          | None \<Rightarrow> if \<not> same_content_hash b m then [conflict_at p b b m] else [])
     | None \<Rightarrow>
         (case (B p, L p) of
            (None, Some l) \<Rightarrow> if \<not> same_content_hash l m then [conflict_at p l l m] else []
          | _ \<Rightarrow> []))"

definition step_entry :: "side \<Rightarrow> side \<Rightarrow> side \<Rightarrow> path \<times> file_node \<Rightarrow> merge_entry list" where
  "step_entry L B J = (\<lambda>(p, m).
     case J p of
       Some b \<Rightarrow>
         (case L p of
            Some l \<Rightarrow> if same_content_hash b l \<and> \<not> same_content_hash b m then [(p, m, Modified)] else []
          | None \<Rightarrow> [])
     | None \<Rightarrow>
         (case (B p, L p) of
            (Some _, _) \<Rightarrow> [(p, m, Modified)]
          | (None, Some _) \<Rightarrow> []
          | (None, None) \<Rightarrow> [(p, m, Added)]))"

definition gone_conflict :: "side \<Rightarrow> side \<Rightarrow> side \<Rightarrow> path \<times> file_node \<Rightarrow> node_merge_conflict list" where
  "gone_conflict B M K = (\<lambda>(p, l).
     if K p \<noteq> None \<or> M p \<noteq> None then []
     else case B p of Some b \<Rightarrow> if same_content_hash b l then [] else [conflict_at p l b l] | None \<Rightarrow> [])"

definition gone_entry :: "side \<Rightarrow> side \<Rightarrow> side \<Rightarrow> path \<times> file_node \<Rightarrow> merge_entry list" where
  "gone_entry B M K = (\<lambda>(p, l).
     if K p \<noteq> None \<or> M p \<noteq> None then []
     else case B p of Some b \<Rightarrow> if same_content_hash b l then [(p, l, Removed)] else [] | None \<Rightarrow> [])"

definition add_output :: "node_merge_conflict list \<Rightarrow> merge_entry list \<Rightarrow> merge_state \<Rightarrow> merge_state" where
  "add_output cs es s = s\<lparr>ms_conflicts := ms_conflicts s @ cs, ms_entries := ms_entries s @ es\<rparr>"

lemma add_output_simps [simp]:
  "add_output [] [] s = s"
  "add_output cs es (add_output cs' es' s) = add_output (cs' @ cs) (es' @ es) s"
  "add_conflict p l b m s = add_output [conflict_at p l b m] [] s"
  "add_merge_entry p f status s = add_output [] [(p, f, status)] s"
  by (simp_all add: add_output_def add_conflict_def add_merge_entry_def)

lemma note_restore_absent [simp]: "note_restore Absent check base p m s = Inr s"
  by (simp add: note_restore_def)

lemma unshare_parent_absent [simp]: "unshare_parent Absent t p s = s"
  by (simp add: unshare_parent_def)

lemma merge_step_output:
  assumes "base_file p = Inr (B p)"
  shows "merge_step Absent check base_file t lca_entries base_entries (p, m) s =
    Inr (add_output (step_conflict (map_of lca_entries) B (map_of base_entries) (p, m))
                    (step_entry (map_of lca_entries) B (map_of base_entries) (p, m)) s)"
  using assms by (auto simp: merge_step_def step_conflict_def step_entry_def Let_def split: option.splits)

lemma deletion_step_output:
  assumes "base_file p = Inr (B p)" "merge_file p = Inr (M p)"
  shows "deletion_step base_file merge_file merge_entries (p, l) s =
    Inr (add_output (gone_conflict B M (map_of merge_entries) (p, l)) (gone_entry B M (map_of merge_entries) (p, l)) s)"
  using assms by (auto simp: deletion_step_def gone_conflict_def gone_entry_def split: option.splits)

lemma rfold_output:
  assumes "\<And>x s. x \<in> set xs \<Longrightarrow> f x s = Inr (add_output (g x) (e x) s)"
  shows "rfold f xs s = Inr (add_output (concat (map g xs)) (concat (map e xs)) s)"
  using assms by (induction xs arbitrary: s) simp_all

section \<open>The reference merge\<close>

fun same_side :: "file_node option \<Rightarrow> file_node option \<Rightarrow> bool" where
  "same_side None None = True"
| "same_side (Some a) (Some b) = same_content_hash a b"
| "same_side _ _ = False"

definition merged_file :: "file_node option \<Rightarrow> file_node option \<Rightarrow> file_node option \<Rightarrow> file_node option" where
  "merged_file l b m = (if same_side m l then b else if same_side b l then m else b)"

definition conflicting :: "file_node option \<Rightarrow> file_node option \<Rightarrow> file_node option \<Rightarrow> bool" where
  "conflicting l b m \<longleftrightarrow> \<not> same_side m l \<and> \<not> same_side b l \<and> \<not> same_side b m"

definition apply_entry :: "merge_entry \<Rightarrow> side \<Rightarrow> side" where
  "apply_entry = (\<lambda>(p, f, status) files. files(p := if status = Removed then None else Some f))"

definition apply_entries :: "merge_entry list \<Rightarrow> side \<Rightarrow> side" where
  "apply_entries es files = fold apply_entry es files"

definition conflict_path :: "node_merge_conflict \<Rightarrow> path" where
  "conflict_path c = snd (nmc_base_entry c)"

lemma conflict_path_at [simp]: "conflict_path (conflict_at p l b m) = p"
  by (simp add: conflict_path_def conflict_at_def)

lemma same_content_refl [simp]: "same_content_hash a a"
  by (simp add: same_content_hash_def)

lemma apply_entries_at:
  "distinct (map fst es) \<Longrightarrow> apply_entries es files p =
     (case map_of es p of None \<Rightarrow> files p | Some (f, status) \<Rightarrow> if status = Removed then None else Some f)"
proof (induction es arbitrary: files)
  case (Cons e es)
  obtain q f status where e: "e = (q, f, status)" by (cases e)
  have "map_of es q = None" using Cons.prems by (simp add: e map_of_eq_None_iff)
  with Cons show ?case by (auto simp: e apply_entries_def apply_entry_def split: option.splits)
qed (simp add: apply_entries_def)

lemma map_of_picked:
  assumes "distinct (map fst xs)" and "\<And>p x e. e \<in> set (g (p, x)) \<Longrightarrow> fst e = p"
  shows "map_of (concat (map g xs)) p = (case map_of xs p of None \<Rightarrow> None | Some x \<Rightarrow> map_of (g (p, x)) p)"
  using assms(1)
proof (induction xs)
  case (Cons e xs)
  obtain q x where e: "e = (q, x)" by force
  have n: "map_of (g (q, x)) p = None" if "p \<noteq> q"
    using that assms(2) [of _ q x] by (force simp: map_of_eq_None_iff)
  have "map_of xs q = None" using Cons.prems by (simp add: e map_of_eq_None_iff)
  with Cons n show ?case by (auto simp: e map_add_def split: option.splits)
qed simp

lemma step_keys:
  "e \<in> set (step_entry L B J (p, m)) \<Longrightarrow> fst e = p" "length (step_entry L B J x) \<le> 1"
  "c \<in> set (step_conflict L B J (p, m)) \<Longrightarrow> conflict_path c = p" "length (step_conflict L B J x) \<le> 1"
  "e \<in> set (gone_entry B M K (p, m)) \<Longrightarrow> fst e = p \<and> K p = None" "length (gone_entry B M K x) \<le> 1"
  "c \<in> set (gone_conflict B M K (p, m)) \<Longrightarrow> conflict_path c = p \<and> K p = None" "length (gone_conflict B M K x) \<le> 1"
  by (auto simp: step_entry_def step_conflict_def gone_entry_def gone_conflict_def split: option.splits if_splits prod.splits)

lemma distinct_keyed:
  assumes "distinct (map fst xs)" and "\<And>p x e. e \<in> set (g (p, x)) \<Longrightarrow> key e = p" and "\<And>e. length (g e) \<le> 1"
  shows "distinct (map key (concat (map g xs)))"
proof -
  have "distinct (map fst (concat (map (\<lambda>x. map (\<lambda>e. (key e, e)) (g x)) xs)))"
    by (rule distinct_picked [OF assms(1)]) (use assms(2,3) in auto)
  then show ?thesis by (simp add: map_concat comp_def)
qed

lemma keyed_paths:
  assumes "distinct (map fst xs)" and "\<And>p x e. e \<in> set (g (p, x)) \<Longrightarrow> key e = p"
  shows "p \<in> key ` set (concat (map g xs)) \<longleftrightarrow> (\<exists>x. map_of xs p = Some x \<and> g (p, x) \<noteq> [])"
proof
  assume "p \<in> key ` set (concat (map g xs))"
  then obtain q x e where e: "(q, x) \<in> set xs" "e \<in> set (g (q, x))" "p = key e" by auto
  moreover from this assms(2) have "q = p" by simp
  ultimately show "\<exists>x. map_of xs p = Some x \<and> g (p, x) \<noteq> []" using assms(1) by (auto simp: map_of_eq_Some_iff)
next
  assume "\<exists>x. map_of xs p = Some x \<and> g (p, x) \<noteq> []"
  then obtain x e where e: "(p, x) \<in> set xs" "e \<in> set (g (p, x))" by (metis map_of_SomeD list.set_intros(1) neq_Nil_conv)
  with assms(2) show "p \<in> key ` set (concat (map g xs))" by force
qed

text \<open>The files the loops see: \<open>K\<close> and \<open>J\<close> are the kept files of the merge and of the base.\<close>

definition partial_views :: "side \<Rightarrow> side \<Rightarrow> side \<Rightarrow> side \<Rightarrow> side \<Rightarrow> bool" where
  "partial_views L B M J K \<longleftrightarrow> (\<forall>p f.
     (K p = Some f \<longrightarrow> M p = Some f) \<and> (J p = Some f \<longrightarrow> B p = Some f) \<and>
     (M p = Some f \<longrightarrow> K p = None \<longrightarrow> B p = Some f) \<and>
     (B p = Some f \<longrightarrow> J p = None \<longrightarrow> K p \<noteq> None \<longrightarrow> L p = Some f))"

lemma same_content_sym: "same_content_hash a b = same_content_hash b a"
  by (auto simp: same_content_hash_def)

lemma same_content_trans: "same_content_hash a b \<Longrightarrow> same_content_hash b c \<Longrightarrow> same_content_hash a c"
  by (simp add: same_content_hash_def)

lemma conflicts_at:
  assumes "partial_views L B M J K"
  shows "(\<exists>m. K p = Some m \<and> step_conflict L B J (p, m) \<noteq> []) \<or> (\<exists>l. L p = Some l \<and> gone_conflict B M K (p, l) \<noteq> []) \<longleftrightarrow>
    conflicting (L p) (B p) (M p)"
proof (cases "K p")
  case None
  then show ?thesis using assms unfolding partial_views_def
    by (cases "M p"; cases "B p"; cases "L p") (auto simp: gone_conflict_def conflicting_def same_content_sym)
next
  case (Some m)
  with assms have m: "M p = Some m" by (simp add: partial_views_def)
  show ?thesis
  proof (cases "J p")
    case None
    have "L p = Some b" if "B p = Some b" for b using that assms Some None by (simp add: partial_views_def)
    with Some None m show ?thesis
      by (cases "B p"; cases "L p") (auto simp: step_conflict_def gone_conflict_def conflicting_def same_content_sym)
  next
    case J: (Some b)
    with assms have "B p = Some b" by (simp add: partial_views_def)
    with Some J m show ?thesis
      by (cases "L p") (auto simp: step_conflict_def gone_conflict_def conflicting_def same_content_sym)
  qed
qed

text \<open>The entry at a path, if there is one, turns the base's file into the merged one.\<close>

lemma entry_at:
  assumes "partial_views L B M J K"
    and e: "e = (case (case K p of None \<Rightarrow> None | Some m \<Rightarrow> map_of (step_entry L B J (p, m)) p) of
        Some x \<Rightarrow> Some x
      | None \<Rightarrow> (case L p of None \<Rightarrow> None | Some l \<Rightarrow> map_of (gone_entry B M K (p, l)) p))"
  shows "same_side (case e of None \<Rightarrow> B p | Some (f, status) \<Rightarrow> if status = Removed then None else Some f)
    (merged_file (L p) (B p) (M p))"
proof (cases "K p")
  case None
  then show ?thesis using assms(1) unfolding partial_views_def e
    by (cases "M p"; cases "B p"; cases "L p") (auto simp: gone_entry_def merged_file_def same_content_sym)
next
  case (Some m)
  with assms have m: "M p = Some m" by (simp add: partial_views_def)
  show ?thesis
  proof (cases "J p")
    case None
    have "L p = Some b" if "B p = Some b" for b using that assms(1) Some None by (simp add: partial_views_def)
    with Some None m show ?thesis unfolding e
      by (cases "B p"; cases "L p") (auto simp: step_entry_def gone_entry_def merged_file_def same_content_sym)
  next
    case J: (Some b)
    with assms(1) have "B p = Some b" by (simp add: partial_views_def)
    with Some J m show ?thesis unfolding e
      by (cases "L p") (auto simp: step_entry_def gone_entry_def merged_file_def same_content_hash_def)
  qed
qed

lemma gone_unkept:
  "gone_conflict B M K (p, l) \<noteq> [] \<Longrightarrow> K p = None" "gone_entry B M K (p, l) \<noteq> [] \<Longrightarrow> K p = None"
  by (auto simp: gone_conflict_def gone_entry_def split: if_splits)

lemma loop_keys:
  assumes "distinct (map fst xs)"
  shows "distinct (map conflict_path (concat (map (step_conflict L B J) xs)))"
    and "distinct (map conflict_path (concat (map (gone_conflict B M K) xs)))"
    and "distinct (map fst (concat (map (step_entry L B J) xs)))"
    and "distinct (map fst (concat (map (gone_entry B M K) xs)))"
    and "p \<in> conflict_path ` set (concat (map (step_conflict L B J) xs)) \<longleftrightarrow> (\<exists>x. map_of xs p = Some x \<and> step_conflict L B J (p, x) \<noteq> [])"
    and "p \<in> conflict_path ` set (concat (map (gone_conflict B M K) xs)) \<longleftrightarrow> (\<exists>x. map_of xs p = Some x \<and> gone_conflict B M K (p, x) \<noteq> [])"
    and "p \<in> fst ` set (concat (map (step_entry L B J) xs)) \<longleftrightarrow> (\<exists>x. map_of xs p = Some x \<and> step_entry L B J (p, x) \<noteq> [])"
    and "p \<in> fst ` set (concat (map (gone_entry B M K) xs)) \<longleftrightarrow> (\<exists>x. map_of xs p = Some x \<and> gone_entry B M K (p, x) \<noteq> [])"
    and "map_of (concat (map (step_entry L B J) xs)) p = (case map_of xs p of None \<Rightarrow> None | Some x \<Rightarrow> map_of (step_entry L B J (p, x)) p)"
    and "map_of (concat (map (gone_entry B M K) xs)) p = (case map_of xs p of None \<Rightarrow> None | Some x \<Rightarrow> map_of (gone_entry B M K (p, x)) p)"
  by (rule distinct_keyed [OF assms] keyed_paths [OF assms] map_of_picked [OF assms],
      (rule step_keys(1) step_keys(3) conjunct1 [OF step_keys(5)] conjunct1 [OF step_keys(7)], assumption)?,
      (rule step_keys)?)+

lemma merge_outcome:
  assumes views: "partial_views L B M J K"
    and ks: "distinct (map fst ks)" "map_of ks = K" and ls: "distinct (map fst ls)" "map_of ls = L"
    and cs: "cs = concat (map (step_conflict L B J) ks) @ concat (map (gone_conflict B M K) ls)"
    and es: "es = concat (map (step_entry L B J) ks) @ concat (map (gone_entry B M K) ls)"
  shows "distinct (map conflict_path cs)" and "conflict_path ` set cs = {p. conflicting (L p) (B p) (M p)}"
    and "same_side (apply_entries es B p) (merged_file (L p) (B p) (M p))"
    and "distinct (map fst es)"
proof -
  note k = loop_keys(1,3,5,7,9) [OF ks(1), where B = B and L = L and J = J]
    and l = loop_keys(2,4,6,8,10) [OF ls(1), where B = B and M = M and K = K]
  have "conflict_path ` set (concat (map (step_conflict L B J) ks)) \<inter>
      conflict_path ` set (concat (map (gone_conflict B M K) ls)) = {}"
    unfolding disjoint_iff k(3) l(3) using gone_unkept(1) ks(2) by fastforce
  then show "distinct (map conflict_path cs)" using k(1) l(1) by (simp only: cs map_append distinct_append set_map simp_thms)
  show "conflict_path ` set cs = {p. conflicting (L p) (B p) (M p)}"
    unfolding cs set_append image_Un using k(3) l(3) ks(2) ls(2) conflicts_at [OF views] by blast
  have "fst ` set (concat (map (step_entry L B J) ks)) \<inter> fst ` set (concat (map (gone_entry B M K) ls)) = {}"
    unfolding disjoint_iff k(4) l(4) using gone_unkept(2) ks(2) by fastforce
  then show d: "distinct (map fst es)" using k(2) l(2) by (simp only: es map_append distinct_append set_map simp_thms)
  have "map_of es p = (case map_of (concat (map (step_entry L B J) ks)) p of
      Some x \<Rightarrow> Some x | None \<Rightarrow> map_of (concat (map (gone_entry B M K) ls)) p)"
    by (simp only: es map_of_append map_add_def)
  also have "\<dots> = (case (case K p of None \<Rightarrow> None | Some m \<Rightarrow> map_of (step_entry L B J (p, m)) p) of
      Some x \<Rightarrow> Some x | None \<Rightarrow> (case L p of None \<Rightarrow> None | Some l \<Rightarrow> map_of (gone_entry B M K (p, l)) p))"
    unfolding k(5) l(5) ks(2) ls(2) ..
  finally show "same_side (apply_entries es B p) (merged_file (L p) (B p) (M p))"
    unfolding apply_entries_at [OF d] by (rule entry_at [OF views])
qed

lemma order_map_of:
  assumes "\<And>es. mset (order es) = mset es" "hm_wf es"
  shows "distinct (map fst (order es)) \<and> map_of (order es) = map_of es"
proof -
  have "mset (map fst (order es)) = mset (map fst es)" using assms(1) by (simp add: mset_map)
  then have d: "distinct (map fst (order es))" using assms(2) mset_eq_imp_distinct_iff unfolding hm_wf_def by blast
  moreover have "set (order es) = set es" using assms(1) by (rule mset_eq_setD)
  ultimately show ?thesis using assms(2) map_of_inject_set unfolding hm_wf_def by blast
qed

section \<open>The analysis and the reference\<close>

definition side_of :: "merkle_tree_node option \<Rightarrow> side" where
  "side_of l = (case l of None \<Rightarrow> Map.empty | Some t \<Rightarrow> file_map t)"

lemma kept_file: "wf_tree t \<Longrightarrow> map_of (kept S t []) p = Some f \<Longrightarrow> file_map t p = Some f"
  using kept_sub by (auto simp: file_map_iff dest!: map_of_SomeD)

lemma kept_all: "wf_tree t \<Longrightarrow> map_of (kept {} t []) = file_map t"
proof (rule ext)
  fix p assume wf: "wf_tree t"
  show "map_of (kept {} t []) p = file_map t p"
  proof (cases "file_map t p")
    case None
    then show ?thesis using kept_file [OF wf] by (cases "map_of (kept {} t []) p") auto
  next
    case (Some f)
    then have "(p, f) \<in> set (kept {} t [])" using kept_inner [OF wf, of p f "[]" "{}"] by (simp add: file_map_iff [OF wf])
    with Some distinct_kept [OF wf] show ?thesis by (simp add: map_of_eq_Some_iff)
  qed
qed

text \<open>The hashes the three loads collect.\<close>

definition lca_hashes :: "merkle_tree_node option \<Rightarrow> merkle_hash set" where
  "lca_hashes l = (case l of None \<Rightarrow> {} | Some t \<Rightarrow> unique_of None (-1) 0 t)"

definition base_shared :: "merkle_tree_node option \<Rightarrow> merkle_tree_node \<Rightarrow> merkle_hash set" where
  "base_shared l b = shared_of (Some (lca_hashes l)) (-1) 0 b"

definition merge_shared :: "merkle_tree_node option \<Rightarrow> merkle_tree_node \<Rightarrow> merkle_tree_node \<Rightarrow> merkle_hash set" where
  "merge_shared l b m = shared_of (Some (unique_of (Some (lca_hashes l)) (-1) 0 b)) (-1) 0 m"

lemma shared_hash_places:
  assumes "h \<in> base_shared l b \<union> merge_shared l b m"
  shows "\<exists>Q z. (Q, z) \<in> set (inner_at b []) \<and> t_hash z = h"
    and "(\<exists>t Q z. l = Some t \<and> (Q, z) \<in> set (inner_at t []) \<and> t_hash z = h) \<or> (\<exists>Q z. (Q, z) \<in> set (inner_at m []) \<and> t_hash z = h)"
proof -
  have u: "h \<in> unique_of (Some (lca_hashes l)) (-1) 0 b" if "h \<in> merge_shared l b m"
    using shared_in_base that unfolding merge_shared_def by (fastforce simp: in_base_def)
  show "\<exists>Q z. (Q, z) \<in> set (inner_at b []) \<and> t_hash z = h"
    using assms u unique_inner_at shared_inner_at unfolding base_shared_def by blast
  show "(\<exists>t Q z. l = Some t \<and> (Q, z) \<in> set (inner_at t []) \<and> t_hash z = h) \<or> (\<exists>Q z. (Q, z) \<in> set (inner_at m []) \<and> t_hash z = h)"
  proof (cases "h \<in> merge_shared l b m")
    case True
    then show ?thesis using shared_inner_at unfolding merge_shared_def by blast
  next
    case False
    then have "h \<in> lca_hashes l" using assms shared_in_base unfolding base_shared_def by (fastforce simp: in_base_def)
    then show ?thesis using unique_inner_at by (cases l) (auto simp: lca_hashes_def)
  qed
qed

lemma merge_views:
  assumes "hash_fixes_files (set_option l \<union> {b, m})" "wf_tree b" "wf_tree m" "\<forall>t \<in> set_option l. wf_tree t"
    and S: "S = base_shared l b \<union> merge_shared l b m"
  shows "partial_views (side_of l) (file_map b) (file_map m) (map_of (kept S b [])) (map_of (kept S m []))"
  unfolding partial_views_def
proof (intro allI conjI impI)
  fix p f
  show "file_map m p = Some f" if "map_of (kept S m []) p = Some f" using kept_file [OF assms(3) that] .
  show "file_map b p = Some f" if "map_of (kept S b []) p = Some f" using kept_file [OF assms(2) that] .
  show "file_map b p = Some f" if m: "file_map m p = Some f" "map_of (kept S m []) p = None"
  proof (rule left_out_elsewhere [OF assms(1) _ assms(3) m])
    fix h assume "h \<in> S"
      and e: "\<And>u Q z. u \<in> set_option l \<union> {b, m} \<Longrightarrow> wf_tree u \<Longrightarrow> (Q, z) \<in> set (inner_at u []) \<Longrightarrow> t_hash z = h \<Longrightarrow>
           file_map u p = Some f \<and> map_of (kept S u []) p = None"
    with shared_hash_places(1) [of h l b m] assms(2) show ?thesis unfolding S by blast
  qed simp
  show "side_of l p = Some f" if b: "file_map b p = Some f" "map_of (kept S b []) p = None" and k: "map_of (kept S m []) p \<noteq> None"
  proof (rule left_out_elsewhere [OF assms(1) _ assms(2) b])
    fix h assume h: "h \<in> S"
      and e: "\<And>u Q z. u \<in> set_option l \<union> {b, m} \<Longrightarrow> wf_tree u \<Longrightarrow> (Q, z) \<in> set (inner_at u []) \<Longrightarrow> t_hash z = h \<Longrightarrow>
           file_map u p = Some f \<and> map_of (kept S u []) p = None"
    have "\<not> (\<exists>Q z. (Q, z) \<in> set (inner_at m []) \<and> t_hash z = h)" using e [of m] assms(3) k by auto
    then obtain t Q z where t: "l = Some t" "(Q, z) \<in> set (inner_at t [])" "t_hash z = h"
      using shared_hash_places(2) h unfolding S by blast
    with e [of t] assms(4) show ?thesis by (simp add: side_of_def)
  qed simp
qed

text \<open>The loaded trees give the kept files.\<close>

lemma load_merge_trees_views:
  assumes "commit_tree hash128 st fuel (mg_base mc) b" "commit_tree hash128 st fuel (mg_merge mc) m"
    and "rel_option (commit_tree hash128 st fuel) (mg_lca mc) l"
    and S: "S = base_shared l b \<union> merge_shared l b m"
  shows "\<exists>trees ls js ks. load_merge_trees st fuel mc {} = Inr trees \<and> lt_shared trees = S \<and>
    (case lt_lca trees of None \<Rightarrow> Inr [] | Some t \<Rightarrow> unique_dir_entries [] t {}) = Inr ls \<and> hm_wf ls \<and> map_of ls = side_of l \<and>
    unique_dir_entries [] (lt_base trees) S = Inr js \<and> map_of js = map_of (kept S b []) \<and>
    unique_dir_entries [] (lt_merge trees) S = Inr ks \<and> hm_wf ks \<and> map_of ks = map_of (kept S m [])"
proof -
  define loaded where "loaded = (\<lambda>base t pid. MTNode (t_hash t) (t_node t) pid (t_children (prune base (-1) 0 t)))"
  obtain lt ls where l: "(case mg_lca mc of None \<Rightarrow> Inr (None, {}, {}) | Some lca \<Rightarrow> load_tree st fuel lca None (Some {}) None) =
      Inr (lt, lca_hashes l, {})"
    and ls: "(case lt of None \<Rightarrow> Inr [] | Some t \<Rightarrow> unique_dir_entries [] t {}) = Inr ls" "hm_wf ls" "map_of ls = side_of l"
  proof (cases l)
    case None
    then have "mg_lca mc = None" using assms(3) by simp
    with None that [of None "[]"] show thesis by (simp add: lca_hashes_def side_of_def)
  next
    case (Some t)
    then obtain c where c: "mg_lca mc = Some c" "commit_tree hash128 st fuel c t" using assms(3) by (auto simp: option_rel_Some2)
    obtain pid where "load_tree st fuel c None (Some {}) None = Inr (Some (loaded None t pid), unique_of None (-1) 0 t, {})"
      using load_tree_commit [OF c(2), of None "Some {}" None] by (auto simp: loaded_def)
    moreover have "shared_of None (-1) 0 t = {}" using shared_in_base by (fastforce simp: in_base_def)
    moreover have w: "wf_tree t" "node_type (t_node t) = TCommit" using c(2) by (simp_all add: commit_tree_def)
    ultimately show thesis
      using that [of "Some (loaded None t pid)"] loaded_entries [OF w, of None "{}" pid] Some c(1) kept_all [OF w(1)]
      by (auto simp: lca_hashes_def side_of_def loaded_def)
  qed
  obtain bp where bp: "load_tree st fuel (mg_base mc) (Some (lca_hashes l)) (Some {}) (Some {}) =
      Inr (Some (loaded (Some (lca_hashes l)) b bp), unique_of (Some (lca_hashes l)) (-1) 0 b, base_shared l b)"
    using load_tree_commit [OF assms(1), of "Some (lca_hashes l)" "Some {}" "Some {}"] by (auto simp: loaded_def base_shared_def)
  let ?u = "unique_of (Some (lca_hashes l)) (-1) 0 b"
  obtain mp where mp: "load_tree st fuel (mg_merge mc) (Some ?u) None (Some (base_shared l b)) =
      Inr (Some (loaded (Some ?u) m mp), {}, S)"
    using load_tree_commit [OF assms(2), of "Some ?u" None "Some (base_shared l b)"] by (auto simp: loaded_def S merge_shared_def)
  have w: "wf_tree b" "node_type (t_node b) = TCommit" "wf_tree m" "node_type (t_node m) = TCommit"
    using assms(1,2) by (simp_all add: commit_tree_def)
  obtain js where js: "unique_dir_entries [] (loaded (Some (lca_hashes l)) b bp) S = Inr js" "map_of js = map_of (kept S b [])"
    using loaded_entries [OF w(1,2), of "Some (lca_hashes l)" S bp] by (auto simp: loaded_def S base_shared_def)
  obtain ks where ks: "unique_dir_entries [] (loaded (Some ?u) m mp) S = Inr ks" "hm_wf ks" "map_of ks = map_of (kept S m [])"
    using loaded_entries [OF w(3,4), of "Some ?u" S mp] by (auto simp: loaded_def S merge_shared_def)
  have "load_merge_trees st fuel mc {} =
      Inr \<lparr>lt_lca = lt, lt_base = loaded (Some (lca_hashes l)) b bp, lt_merge = loaded (Some ?u) m mp, lt_shared = S\<rparr>"
    by (simp add: load_merge_trees_def l bp mp)
  with ls js ks show ?thesis by simp
qed

lemma side_named:
  assumes "commit_tree hash128 st fuel c t" "file_map t p = Some f"
  shows "name_path p \<and> p \<noteq> []"
proof -
  obtain h n pid r where t: "t = MTNode h (ECommit n) pid [r]" "wf_tree r" "is_dir r" "child_search_name r = []"
    using commit_treeD [OF assms(1)] by metis
  have "(p, f) \<in> set (file_entries r [])"
    using assms file_entries_root [OF t(1,3,4)] by (simp add: file_map_iff commit_tree_def)
  with file_path_named [OF t(2,3)] show ?thesis by blast
qed

lemma ancestor_named:
  assumes "rel_option (commit_tree hash128 st fuel) c l" "side_of l p = Some f"
  shows "name_path p \<and> p \<noteq> []"
proof -
  obtain t where "l = Some t" "file_map t p = Some f" using assms(2) by (cases l) (auto simp: side_of_def)
  moreover from this(1) obtain k where "commit_tree hash128 st fuel k t" using assms(1) by (auto simp: option_rel_Some2)
  ultimately show ?thesis using side_named by blast
qed

lemma merge_analysis:
  assumes "commit_tree (me_hash128 env) st fuel (mg_base mc) b" "commit_tree (me_hash128 env) st fuel (mg_merge mc) m"
    and "rel_option (commit_tree (me_hash128 env) st fuel) (mg_lca mc) l"
    and "hash_fixes_files (set_option l \<union> {b, m})"
    and "\<And>es. mset (me_order env es) = mset es"
  shows "\<exists>s. find_merge_conflicts env st fuel mc Absent {} = Inr s \<and> distinct (map fst (ms_entries s)) \<and> distinct (map conflict_path (ms_conflicts s)) \<and>
    conflict_path ` set (ms_conflicts s) = {p. conflicting (side_of l p) (file_map b p) (file_map m p)} \<and>
    (\<forall>p. same_side (apply_entries (ms_entries s) (file_map b) p) (merged_file (side_of l p) (file_map b p) (file_map m p)))"
proof -
  let ?L = "side_of l" and ?B = "file_map b" and ?M = "file_map m"
  define S where "S = base_shared l b \<union> merge_shared l b m"
  define J K where "J = map_of (kept S b [])" and "K = map_of (kept S m [])"
  obtain trees ls js ks where t: "load_merge_trees st fuel mc {} = Inr trees" "lt_shared trees = S"
      "(case lt_lca trees of None \<Rightarrow> Inr [] | Some t \<Rightarrow> unique_dir_entries [] t {}) = Inr ls" "hm_wf ls" "map_of ls = ?L"
      "unique_dir_entries [] (lt_base trees) S = Inr js" "map_of js = J"
      "unique_dir_entries [] (lt_merge trees) S = Inr ks" "hm_wf ks" "map_of ks = K"
    using load_merge_trees_views [OF assms(1-3) S_def] unfolding J_def K_def by blast
  have wf: "wf_tree b" "wf_tree m" "\<forall>t \<in> set_option l. wf_tree t"
    using assms(1-3) by (auto simp: commit_tree_def option_rel_Some2)
  have views: "partial_views ?L ?B ?M J K" unfolding J_def K_def by (rule merge_views [OF assms(4) wf S_def])
  let ?ks = "me_order env ks" and ?ls = "me_order env ls"
  have ord: "distinct (map fst ?ks)" "map_of ?ks = K" "distinct (map fst ?ls)" "map_of ?ls = ?L"
    using order_map_of [OF assms(5)] t(4,5,9,10) by auto
  have named: "name_path p \<and> p \<noteq> []" if "(p, f) \<in> set ?ks \<or> (p, f) \<in> set ?ls" for p f
  proof -
    have "K p = Some f \<or> ?L p = Some f" using that ord by (metis map_of_eq_Some_iff)
    then have "?M p = Some f \<or> ?L p = Some f" using views by (auto simp: partial_views_def)
    then show ?thesis using side_named [OF assms(2)] ancestor_named [OF assms(3)] by blast
  qed
  let ?base = "get_file_by_path (me_hash128 env) st fuel (mg_base mc)" and ?merge = "get_file_by_path (me_hash128 env) st fuel (mg_merge mc)"
  have look: "?base p = Inr (?B p)" "?merge p = Inr (?M p)" if "(p, f) \<in> set ?ks \<or> (p, f) \<in> set ?ls" for p f
    using named [OF that] get_file_by_path_map [OF assms(1)] get_file_by_path_map [OF assms(2)] by blast+
  let ?start = "\<lparr>ms_conflicts = [], ms_entries = [], ms_to_restore = [], ms_cannot_overwrite = [], ms_shared = S\<rparr>"
  let ?cs = "concat (map (step_conflict ?L ?B J) ?ks)" and ?es = "concat (map (step_entry ?L ?B J) ?ks)"
    and ?cs' = "concat (map (gone_conflict ?B ?M K) ?ls)" and ?es' = "concat (map (gone_entry ?B ?M K) ?ls)"
  have "rfold (merge_step Absent (me_should_restore env) ?base (lt_lca trees) ls js) ?ks ?start = Inr (add_output ?cs ?es ?start)"
    by (rule rfold_output) (use look(1) merge_step_output t(5,7) in fastforce)
  moreover have "rfold (deletion_step ?base ?merge ks) ?ls s = Inr (add_output ?cs' ?es' s)" for s
    by (rule rfold_output) (use look deletion_step_output t(10) in fastforce)
  ultimately have "find_merge_conflicts env st fuel mc Absent {} = Inr (add_output (?cs @ ?cs') (?es @ ?es') ?start)"
    unfolding find_merge_conflicts_def Let_def by (simp add: t(1,2,3,6,8)) (simp add: add_output_def)
  with merge_outcome [OF views ord refl refl] show ?thesis by (auto simp: add_output_def)
qed

text \<open>C1: the analysis of a three-way merge is the merge of the file maps. It skips the directories and
  vnodes the trees share, but for the trees of the ancestor, the base and the merge commit it
  reports a conflict, once, exactly for the paths where all three sides differ; its entries turn the
  files of the base into the reference merge (a side that is as in the ancestor gives way to the
  other one), up to files of equal combined hash. This needs equal hashes of directories and vnodes
  to stand for equal files at equal paths.\<close>

theorem three_way_merge_correct:
  assumes "commit_tree (me_hash128 env) st fuel (mg_base mc) b" "commit_tree (me_hash128 env) st fuel (mg_merge mc) m"
    and "rel_option (commit_tree (me_hash128 env) st fuel) (mg_lca mc) l"
    and "hash_fixes_files (set_option l \<union> {b, m})"
    and "\<And>es. mset (me_order env es) = mset es"
  shows "\<exists>s. find_merge_conflicts env st fuel mc Absent {} = Inr s \<and> distinct (map conflict_path (ms_conflicts s)) \<and>
    conflict_path ` set (ms_conflicts s) = {p. conflicting (side_of l p) (file_map b p) (file_map m p)} \<and>
    (\<forall>p. same_side (apply_entries (ms_entries s) (file_map b) p) (merged_file (side_of l p) (file_map b p) (file_map m p)))"
  using merge_analysis [OF assms] by blast

lemma distinct_singleton_list: "distinct xs \<Longrightarrow> set xs = {x} \<Longrightarrow> xs = [x]"
  by (cases xs) (auto simp: subset_singleton_iff)

text \<open>
  A file \<open>a\<close> that both branches change and a file \<open>b\<close> that only the merge branch changes: \<open>a\<close> is in
  conflict, and \<open>b\<close> is taken.
\<close>

definition two_files :: "merkle_hash \<Rightarrow> merkle_hash \<Rightarrow> merkle_hash \<Rightarrow> merkle_tree_node" where
  "two_files n x y =
     MTNode (n + 3) (ECommit (sample_commit (n + 3) [] 0)) None
       [MTNode (n + 2) (EDirectory (sample_dir '''' (n + 2))) (Some (n + 3))
         [MTNode (n + 1) (EVNode (sample_vnode (n + 1))) (Some (n + 2))
           [MTNode x (EFile (sample_file ''a'' x)) (Some (n + 1)) [],
            MTNode y (EFile (sample_file ''b'' y)) (Some (n + 1)) []]]]"

definition two_files_commit :: "merkle_hash \<Rightarrow> commit" where
  "two_files_commit n = commit_node_to_commit (sample_commit (n + 3) [] 0)"

definition three_store :: node_store where
  "three_store =
     (let find = (\<lambda>h. List.find (\<lambda>x. t_hash x = h \<and> may_have_children x)
        (concat (map tree_nodes [two_files 30 1 4, two_files 40 2 4, two_files 50 3 5])))
      in \<lparr>st_exists = (\<lambda>h. find h \<noteq> None),
          st_from_hash = (\<lambda>h. case find h of None \<Rightarrow> Inl (Basic ''missing'') | Some x \<Rightarrow> Inr (strip x)),
          st_children = (\<lambda>h. case find h of None \<Rightarrow> Inr [] | Some x \<Rightarrow> Inr (map (\<lambda>c. (t_hash c, strip c)) (t_children x))),
          st_dir_hashes = (\<lambda>i. rbind (merkle_hash_from_str i) (\<lambda>h. Inr [('''', merkle_hash_to_string (h - 1))]))\<rparr>)"

lemma two_files_entries:
  "file_entries (two_files n x y) [] = [([Normal ''a''], sample_file ''a'' x), ([Normal ''b''], sample_file ''b'' y)]"
  by (simp add: two_files_def file_entries_def)

lemma two_files_tree:
  assumes "stored st (two_files n x y)" "dir_hashes st (two_files_commit n) = Inr [([], n + 2)]"
  shows "commit_tree (\<lambda>_. 0) st 9 (two_files_commit n) (two_files n x y)"
proof -
  let ?r = "hd (t_children (two_files n x y))"
  have entries: "set (tree_entries ?r []) = {([], ?r), ([Normal ''a''], MTNode x (EFile (sample_file ''a'' x)) (Some (n + 1)) []),
      ([Normal ''b''], MTNode y (EFile (sample_file ''b'' y)) (Some (n + 1)) [])}"
    by (auto simp: two_files_def)
  have "dir_hashes_ok [([], n + 2)] ?r"
    unfolding dir_hashes_ok_def entries by (auto simp: two_files_def)
  moreover have "bucketed (\<lambda>_. 0) P d" if "(P, d) \<in> set (tree_entries ?r [])" "is_dir d" for P d
    using that unfolding entries by (auto simp: bucketed_def two_files_def)
  moreover have "wf_tree (two_files n x y)" by (simp add: two_files_def)
  ultimately show ?thesis
    unfolding commit_tree_def using assms
    by (simp add: two_files_def two_files_commit_def commit_node_to_commit_def)
qed

lemma three_store_dirs: "dir_hashes three_store (two_files_commit n) = Inr [([], n + 2)]"
  by (simp add: dir_hashes_def three_store_def two_files_commit_def commit_node_to_commit_def Let_def)

lemma three_store_stored:
  "stored three_store (two_files 30 1 4)" "stored three_store (two_files 40 2 4)" "stored three_store (two_files 50 3 5)"
  by (simp_all add: three_store_def Let_def two_files_def strip_def)

lemma two_files_inner:
  "set (inner_at (two_files n x y) []) = {([], two_files n x y), ([], hd (t_children (two_files n x y))),
     ([], hd (t_children (hd (t_children (two_files n x y)))))}"
  by (auto simp: two_files_def)

lemma two_files_inner_files:
  "(P, z) \<in> set (inner_at (two_files n x y) []) \<Longrightarrow> t_hash z \<in> {n + 1, n + 2, n + 3} \<and>
     file_entries z P = [([Normal ''a''], sample_file ''a'' x), ([Normal ''b''], sample_file ''b'' y)]"
  unfolding two_files_inner by (auto simp: two_files_def file_entries_def)

lemma three_fixed: "hash_fixes_files {two_files 30 1 4, two_files 40 2 4, two_files 50 3 5}"
  unfolding hash_fixes_files_def by (auto dest!: two_files_inner_files)

definition sample_merge_env :: merge_env where
  "sample_merge_env = \<lparr>me_hash128 = (\<lambda>_. 0), me_order = (\<lambda>es. es), me_should_restore = (\<lambda>_ _ _. Inr True)\<rparr>"

lemma three_way_merge_correct_witness:
  "\<exists>s. find_merge_conflicts sample_merge_env three_store 9
      \<lparr>mg_lca = Some (two_files_commit 30), mg_base = two_files_commit 40, mg_merge = two_files_commit 50\<rparr> Absent {} = Inr s \<and>
    map conflict_path (ms_conflicts s) = [[Normal ''a'']] \<and>
    same_side (apply_entries (ms_entries s) (file_map (two_files 40 2 4)) [Normal ''b'']) (Some (sample_file ''b'' 5))"
proof -
  let ?mc = "\<lparr>mg_lca = Some (two_files_commit 30), mg_base = two_files_commit 40, mg_merge = two_files_commit 50\<rparr>"
  let ?l = "Some (two_files 30 1 4)"
  have e: "me_hash128 sample_merge_env = (\<lambda>_. 0)" "me_order sample_merge_env = (\<lambda>es. es)" by (simp_all add: sample_merge_env_def)
  have h: "commit_tree (me_hash128 sample_merge_env) three_store 9 (mg_base ?mc) (two_files 40 2 4)"
    "commit_tree (me_hash128 sample_merge_env) three_store 9 (mg_merge ?mc) (two_files 50 3 5)"
    "rel_option (commit_tree (me_hash128 sample_merge_env) three_store 9) (mg_lca ?mc) ?l"
    using two_files_tree three_store_stored three_store_dirs by (simp_all add: e)
  have f: "hash_fixes_files (set_option ?l \<union> {two_files 40 2 4, two_files 50 3 5})" using three_fixed by (simp add: insert_commute)
  obtain s where s: "find_merge_conflicts sample_merge_env three_store 9 ?mc Absent {} = Inr s" "distinct (map conflict_path (ms_conflicts s))"
      "conflict_path ` set (ms_conflicts s) =
        {p. conflicting (side_of ?l p) (file_map (two_files 40 2 4) p) (file_map (two_files 50 3 5) p)}"
      "\<forall>p. same_side (apply_entries (ms_entries s) (file_map (two_files 40 2 4)) p)
        (merged_file (side_of ?l p) (file_map (two_files 40 2 4) p) (file_map (two_files 50 3 5) p))"
    using three_way_merge_correct [OF h f] e(2) by auto
  have hash: "same_content_hash (sample_file x i) (sample_file y j) \<longleftrightarrow> i = j" for x y i j
    by (simp add: same_content_hash_def fn_combined_hash_def sample_file_def)
  have "set (map conflict_path (ms_conflicts s)) = {[Normal ''a'']}"
    unfolding set_map s(3) by (auto simp: conflicting_def side_of_def file_map_def two_files_entries hash split: if_splits)
  then have "map conflict_path (ms_conflicts s) = [[Normal ''a'']]"
    using s(2) by (metis distinct_singleton_list)
  moreover have "merged_file (side_of ?l [Normal ''b'']) (file_map (two_files 40 2 4) [Normal ''b'']) (file_map (two_files 50 3 5) [Normal ''b'']) =
      Some (sample_file ''b'' 5)"
    by (simp add: merged_file_def side_of_def file_map_def two_files_entries hash)
  ultimately show ?thesis using s(1,4) by metis
qed

end
