(* ===== verification/Server_Merge.thy ===== *)
theory Server_Merge
  imports Three_Way_Merge_Props Branches
begin

text \<open>
  The merges of a server (\<open>core/v_latest/merge.rs\<close>): no working tree, the merge commit is written from
  the entries of the analysis, and the branch moves to it. The orders are those of \<open>HashMap\<close>s; the
  configuration that names the author is a parameter.
\<close>

section \<open>Writing the merge commit\<close>

record ('d, 'r) server_call =
  sv_call :: "('d, 'r) commit_call"
  sv_env :: merge_env
  sv_corder :: "(commit \<times> nat) list \<Rightarrow> (commit \<times> nat) list"
  sv_dir_order :: "(path, staged_node list) hash_map \<Rightarrow> (path, staged_node list) hash_map"
  sv_user :: "(string \<times> string) res"

text \<open>One entry goes to its directory, under its whole path as name; every directory above it gets a key.\<close>

definition staged_merge_node :: "merge_entry \<Rightarrow> staged_node" where
  "staged_merge_node = (\<lambda>(path, file_node, status).
     \<lparr>sn_status = status, sn_node = from_file (fn_set_name (path_to_str path) file_node)\<rparr>)"

definition parent_or_root :: "path \<Rightarrow> path" where
  "parent_or_root path = (case path_parent path of None \<Rightarrow> [] | Some parent \<Rightarrow> parent)"

definition or_default :: "'k \<Rightarrow> ('k, 'v list) hash_map \<Rightarrow> ('k, 'v list) hash_map" where
  "or_default k m = (if map_of m k = None then AList.update k [] m else m)"

definition push_at :: "'k \<Rightarrow> 'v \<Rightarrow> ('k, 'v list) hash_map \<Rightarrow> ('k, 'v list) hash_map" where
  "push_at k x m = AList.update k ((case map_of m k of None \<Rightarrow> [] | Some xs \<Rightarrow> xs) @ [x]) m"

definition add_dir_entry :: "merge_entry \<Rightarrow> (path, staged_node list) hash_map \<Rightarrow> (path, staged_node list) hash_map" where
  "add_dir_entry e dirs =
     fold or_default (tl (path_ancestors (fst e))) (push_at (parent_or_root (fst e)) (staged_merge_node e) dirs)"

definition dir_entries_of :: "merge_entry list \<Rightarrow> (path, staged_node list) hash_map" where
  "dir_entries_of es = fold add_dir_entry es []"

definition server_three_way_merge :: "('d, 'r) server_call \<Rightarrow> merge_commits \<Rightarrow> ('d commit_state, commit) st" where
  "server_three_way_merge sv mc = (\<lambda>s.
     let cl = sv_call sv; fuel = we_fuel (cl_env cl)
     in sbind (slift (find_merge_conflicts (sv_env sv) (store_of cl s) fuel mc Absent {})) (\<lambda>analysis.
          if ms_conflicts analysis \<noteq> [] then slift (Inl (UpstreamMergeConflict ''Unable to merge''))
          else if ms_entries analysis = [] then slift (Inl (Basic ''No changes to commit''))
          else sbind (slift (sv_user sv)) (\<lambda>(user, email).
            commit_dir_entries_with_parents cl [cm_id (mg_base mc), cm_id (mg_merge mc)]
              (sv_dir_order sv (dir_entries_of (ms_entries analysis)))
              \<lparr>nb_message = merge_commit_message mc, nb_author = user, nb_email = email\<rparr> (cm_id (mg_base mc)))) s)"

section \<open>Merging into a branch\<close>

text \<open>The result, what is on disk and the references afterwards; a failing merge leaves the branch.\<close>

type_synonym ('d, 'r) server_result = "(commit res \<times> 'd commit_state \<times> 'r refs) option"

definition advance_branch ::
  "('d, 'r) server_call \<Rightarrow> string \<Rightarrow> commit res \<times> 'd commit_state \<Rightarrow> ('d, 'r) server_result" where
  "advance_branch sv name = (\<lambda>(result, s).
     let cl = sv_call sv; rs = cl_refs cl
     in case result of
          Inl e \<Rightarrow> Some (Inl e, s, rs)
        | Inr commit \<Rightarrow>
            (case branches_update (source_of cl (store_of cl s)) (cl_refs_kv cl) name (cm_id commit) rs of
               (Inl e, rs') \<Rightarrow> Some (Inl e, s, rs')
             | (Inr _, rs') \<Rightarrow> Some (Inr commit, s, rs')))"

definition server_lca :: "('d, 'r) server_call \<Rightarrow> node_store \<Rightarrow> commit \<Rightarrow> commit \<Rightarrow> commit option loop" where
  "server_lca sv st base merge =
     lowest_common_ancestor_from_commits (sv_corder sv) (source_of (sv_call sv) st) (cl_refs_kv (sv_call sv)) (cl_refs (sv_call sv)) base merge"

definition merge_commit_into_base_on_branch ::
  "('d, 'r) server_call \<Rightarrow> commit \<Rightarrow> commit \<Rightarrow> branch \<Rightarrow> 'd commit_state \<Rightarrow> ('d, 'r) server_result" where
  "merge_commit_into_base_on_branch sv merge base branch s =
     (case server_lca sv (store_of (sv_call sv) s) base merge of
        None \<Rightarrow> None
      | Some (Inl e) \<Rightarrow> Some (Inl e, s, cl_refs (sv_call sv))
      | Some (Inr None) \<Rightarrow> Some (Inl (Basic ''Cannot merge commits with no common ancestor''), s, cl_refs (sv_call sv))
      | Some (Inr (Some lca)) \<Rightarrow>
          (let mc = \<lparr>mg_lca = Some lca, mg_base = base, mg_merge = merge\<rparr>
           in advance_branch sv (br_name branch)
                (if is_fast_forward_merge mc then (Inr (mg_merge mc), s) else server_three_way_merge sv mc s)))"

definition merge_into_base ::
  "('d, 'r) server_call \<Rightarrow> branch \<Rightarrow> branch \<Rightarrow> 'd commit_state \<Rightarrow> ('d, 'r) server_result" where
  "merge_into_base sv merge_branch base_branch s =
     (let cl = sv_call sv; get = source_of cl (store_of cl s); fail = (\<lambda>e. Some (Inl e, s, cl_refs cl))
      in if br_commit_id merge_branch = br_commit_id base_branch then fail (Basic ''No changes to merge'')
         else case get_commit_or_head get (cl_refs_kv cl) (cl_refs cl) (Some (br_commit_id base_branch)) of
           Inl e \<Rightarrow> fail e
         | Inr base \<Rightarrow>
             (case get_commit_or_head get (cl_refs_kv cl) (cl_refs cl) (Some (br_commit_id merge_branch)) of
                Inl e \<Rightarrow> fail e
              | Inr merge \<Rightarrow>
                  (case server_lca sv (store_of cl s) base merge of
                     None \<Rightarrow> None
                   | Some (Inl e) \<Rightarrow> fail e
                   | Some (Inr None) \<Rightarrow> fail (Basic ''Cannot merge branches with no common ancestor'')
                   | Some (Inr (Some lca)) \<Rightarrow>
                       (let mc = \<lparr>mg_lca = Some lca, mg_base = base, mg_merge = merge\<rparr>
                        in advance_branch sv (br_name base_branch)
                             (if is_fast_forward_merge mc then (Inr (mg_merge mc), s) else server_three_way_merge sv mc s)))))"

text \<open>The merge that leaves the branch to its caller; nothing to do is \<open>None\<close>.\<close>

definition merge_commit_into_base_server_safe ::
  "('d, 'r) server_call \<Rightarrow> commit \<Rightarrow> commit \<Rightarrow> 'd commit_state \<Rightarrow> (commit option res \<times> 'd commit_state) option" where
  "merge_commit_into_base_server_safe sv merge base s =
     (case server_lca sv (store_of (sv_call sv) s) base merge of
        None \<Rightarrow> None
      | Some (Inl e) \<Rightarrow> Some (Inl e, s)
      | Some (Inr lca) \<Rightarrow>
          (let mc = \<lparr>mg_lca = lca, mg_base = base, mg_merge = merge\<rparr>
           in if is_fast_forward_merge mc
              then Some (Inr (if cm_id base = cm_id merge then None else Some merge), s)
              else Some (sbind (server_three_way_merge sv mc) (\<lambda>c. slift (Inr (Some c))) s)))"

end
