(* ===== verification/Commit_Split_Props.thy ===== *)
theory Commit_Split_Props
  imports Commit_Split Merkle_Tree_Props
begin

text \<open>
  What splitting a directory into vnodes guarantees: the number of vnodes is the exact ceiling as long
  as the counts fit into the 24 bits of an \<open>f32\<close>; the vnodes hold exactly the existing children
  overwritten by the staged ones, each in the bucket of its path, sorted by path. And what the id of
  a vnode does not cover: the names of its entries.
\<close>

section \<open>The number of vnodes\<close>

lemma log2_floor_bounds: "0 < n \<Longrightarrow> 2 ^ log2_floor n \<le> n \<and> n < 2 ^ Suc (log2_floor n)"
proof (induction n rule: log2_floor.induct)
  case (1 n)
  show ?case
  proof (cases "n < 2")
    case True
    with 1(2) have "n = 1" by simp
    then show ?thesis by (simp add: log2_floor.simps)
  next
    case False
    then have l: "log2_floor n = Suc (log2_floor (n div 2))" by (simp add: log2_floor.simps [of n])
    have "2 ^ log2_floor (n div 2) \<le> n div 2 \<and> n div 2 < 2 ^ Suc (log2_floor (n div 2))"
      using 1(1) False by simp
    then show ?thesis unfolding l by auto
  qed
qed

lemma round_half_even_bounds:
  assumes "0 < b"
  shows "round_half_even a b * b \<le> a + b div 2" "a \<le> round_half_even a b * b + b div 2"
proof -
  define q r where "q = a div b" and "r = a mod b"
  have a: "a = q * b + r" and r: "r < b" using assms by (simp_all add: q_def r_def)
  have "round_half_even a b = q \<and> 2 * r \<le> b \<or> round_half_even a b = q + 1 \<and> b \<le> 2 * r"
    by (auto simp: round_half_even_def Let_def q_def r_def)
  then show "round_half_even a b * b \<le> a + b div 2" "a \<le> round_half_even a b * b + b div 2"
    unfolding a using r by (elim disjE; simp add: algebra_simps)+
qed

lemma ceil_div_iff: "0 < b \<Longrightarrow> ceil_div a b = k \<longleftrightarrow> a \<le> k * b \<and> k * b < a + b"
proof -
  assume b: "0 < b"
  have up: "a \<le> ceil_div a b * b \<and> ceil_div a b * b < a + b"
  proof -
    have "(a + b - 1) div b * b + (a + b - 1) mod b = a + b - 1" by (rule div_mult_mod_eq)
    moreover have "(a + b - 1) mod b < b" using b by simp
    ultimately show ?thesis unfolding ceil_div_def using b by linarith
  qed
  show ?thesis
  proof
    assume k: "a \<le> k * b \<and> k * b < a + b"
    show "ceil_div a b = k"
    proof (rule ccontr)
      assume "ceil_div a b \<noteq> k"
      then consider "ceil_div a b + 1 \<le> k" | "k + 1 \<le> ceil_div a b" by linarith
      then show False
      proof cases
        case 1
        then have "(ceil_div a b + 1) * b \<le> k * b" by (rule mult_le_mono1)
        with up k show False by (simp add: algebra_simps)
      next
        case 2
        then have "(k + 1) * b \<le> ceil_div a b * b" by (rule mult_le_mono1)
        with up k show False by (simp add: algebra_simps)
      qed
    qed
  qed (use up in blast)
qed

text \<open>With 24 bits for the numerator the rounded quotient keeps on the same side of every whole number.\<close>

lemma f32_div_ceil_exact:
  assumes a: "a < 2 ^ 24" and b: "0 < b"
  shows "f32_div_ceil a b = ceil_div a b"
proof -
  consider "a = 0" | "0 < a" "a \<le> b" | "b < a" by linarith
  then show ?thesis
  proof cases
    case 1
    with b show ?thesis by (simp add: f32_div_ceil_def ceil_div_def)
  next
    case 2
    then have "ceil_div a b = 1" by (subst ceil_div_iff [OF b]) auto
    with 2 show ?thesis by (simp add: f32_div_ceil_def)
  next
    case 3
    define l where "l = log2_floor (a div b)"
    define s where "s = 23 - l"
    have q: "0 < a div b" using 3 b by (simp add: div_greater_zero_iff)
    have lb: "2 ^ l \<le> a div b" "a div b < 2 ^ Suc l" using log2_floor_bounds [OF q] by (simp_all add: l_def)
    have "2 ^ l \<le> a" using lb(1) div_le_dividend [of a b] by linarith
    then have "(2::nat) ^ l < 2 ^ 24" using a by linarith
    then have l23: "l \<le> 23" using power_less_imp_less_exp [of "2::nat" l 24] by simp
    have bs: "b * 2 ^ l \<le> a" using mult_le_mono2 [OF lb(1), of b] times_div_less_eq_dividend [of b a] by linarith
    let ?k = "ceil_div a b"
    have k: "a \<le> ?k * b" "?k * b < a + b" using ceil_div_iff [OF b, of a ?k] by simp_all
    show ?thesis
    proof (cases "l < 23")
      case False
      then have l: "l = 23" using l23 by simp
      have "round_half_even a b = ?k"
      proof -
        have "b * 2 ^ 23 < 2 ^ 24" using bs a unfolding l by (rule le_less_trans)
        then have b1: "b = 1" using b by simp
        then show ?thesis by (simp add: round_half_even_def ceil_div_def)
      qed
      then show ?thesis using 3 l by (simp add: f32_div_ceil_def Let_def l_def [symmetric])
    next
      case True
      define m where "m = round_half_even (a * 2 ^ s) b"
      have s: "(2::nat) ^ s * 2 ^ l = 2 ^ 23" using l23 by (simp add: s_def flip: power_add)
      have "?k = ceil_div m (2 ^ s)"
      proof (rule sym, subst ceil_div_iff)
        show "(0::nat) < 2 ^ s" by simp
        have up: "m \<le> ?k * 2 ^ s"
        proof (rule ccontr)
          assume "\<not> m \<le> ?k * 2 ^ s"
          then have "(?k * 2 ^ s + 1) * b \<le> m * b" by (intro mult_le_mono1) simp
          also have "\<dots> \<le> a * 2 ^ s + b div 2" unfolding m_def by (rule round_half_even_bounds(1) [OF b])
          also have "\<dots> \<le> ?k * b * 2 ^ s + b div 2" using k(1) by simp
          finally show False using b by (simp add: algebra_simps)
        qed
        have low: "?k * 2 ^ s < m + 2 ^ s"
        proof (rule ccontr)
          assume n: "\<not> ?k * 2 ^ s < m + 2 ^ s"
          then have "(m + 2 ^ s) * b \<le> ?k * 2 ^ s * b" by (intro mult_le_mono1) simp
          then have 1: "m * b + 2 ^ s * b \<le> 2 ^ s * (?k * b)" by (simp add: algebra_simps)
          have 2: "a * 2 ^ s \<le> m * b + b div 2" unfolding m_def by (rule round_half_even_bounds(2) [OF b])
          have "2 ^ s * (?k * b + 1) \<le> 2 ^ s * (a + b)" using k(2) by (intro mult_le_mono2) simp
          with 1 2 have h: "2 ^ s \<le> b div 2" by (simp add: algebra_simps)
          have "(2::nat) ^ 24 = 2 * (2 ^ s * 2 ^ l)" using s by simp
          also have "\<dots> \<le> 2 * (b div 2 * 2 ^ l)" using h by simp
          also have "\<dots> \<le> b * 2 ^ l" by simp
          also have "\<dots> \<le> a" by (rule bs)
          finally show False using a by simp
        qed
        show "m \<le> ?k * 2 ^ s \<and> ?k * 2 ^ s < m + 2 ^ s" using up low by blast
      qed
      then show ?thesis
        using 3 True b by (simp add: f32_div_ceil_def Let_def l_def [symmetric] s_def m_def)
    qed
  qed
qed

lemma round_half_even_ge: "a div b \<le> round_half_even a b"
  by (simp add: round_half_even_def Let_def)

lemma as_f32_large: "2 ^ 24 \<le> n \<Longrightarrow> 2 ^ 24 \<le> as_f32 n"
proof -
  assume n: "2 ^ 24 \<le> n"
  define e where "e = log2_floor n - 23"
  have "0 < n" using n by (cases n) auto
  from log2_floor_bounds [OF this] have l: "2 ^ log2_floor n \<le> n" "n < 2 ^ Suc (log2_floor n)" by auto
  have "(2::nat) ^ 24 < 2 ^ Suc (log2_floor n)" using n l(2) by linarith
  then have "24 < Suc (log2_floor n)" by (rule power_less_imp_less_exp [rotated]) simp
  then have e: "log2_floor n = 23 + e" "1 \<le> e" by (simp_all add: e_def)
  have "(2::nat) ^ 23 * 2 ^ e \<le> n" using l(1) by (simp add: e power_add)
  then have "2 ^ 23 \<le> n div 2 ^ e" by (simp add: less_eq_div_iff_mult_less_eq)
  then have "2 ^ 23 \<le> round_half_even n (2 ^ e)" using round_half_even_ge [of n "2 ^ e"] by linarith
  moreover have "(2::nat) ^ 1 \<le> 2 ^ e" using e(2) by (rule power_increasing) simp
  ultimately have "2 ^ 23 * 2 ^ 1 \<le> round_half_even n (2 ^ e) * 2 ^ e" by (rule mult_le_mono)
  then have "2 ^ 24 \<le> round_half_even n (2 ^ e) * 2 ^ e" by simp
  then show ?thesis using n by (simp add: as_f32_def Let_def e_def)
qed

lemma as_f32_pos: "0 < n \<Longrightarrow> 0 < as_f32 n"
  using as_f32_large [of n] by (cases "n < 2 ^ 24") (simp_all add: as_f32_def)

lemma f32_div_ceil_pos:
  assumes "0 < a" and b: "0 < b"
  shows "0 < f32_div_ceil a b"
proof (cases "a \<le> b")
  case False
  define l where "l = log2_floor (a div b)"
  have q: "0 < a div b" using False b by (simp add: div_greater_zero_iff)
  have lb: "2 ^ l \<le> a div b" using log2_floor_bounds [OF q] by (simp add: l_def)
  have "0 < (if l < 23 then ceil_div (round_half_even (a * 2 ^ (23 - l)) b) (2 ^ (23 - l))
              else round_half_even a (b * 2 ^ (l - 23)) * 2 ^ (l - 23))"
  proof (cases "l < 23")
    case True
    have "a \<le> a * 2 ^ (23 - l)" by simp
    then have "a div b \<le> a * 2 ^ (23 - l) div b" by (rule div_le_mono)
    with round_half_even_ge [of "a * 2 ^ (23 - l)" b] q have m: "0 < round_half_even (a * 2 ^ (23 - l)) b" by linarith
    have "0 < ceil_div m (2 ^ s)" if "0 < m" for m s :: nat
      using that ceil_div_iff [of "2 ^ s" m 0] by (cases "ceil_div m (2 ^ s)") auto
    with m True show ?thesis by simp
  next
    case False
    have "(2::nat) ^ (l - 23) \<le> 2 ^ l" by (rule power_increasing) simp_all
    then have "2 ^ (l - 23) \<le> a div b" using lb by (rule order_trans)
    then have "0 < a div b div 2 ^ (l - 23)" by (simp only: div_greater_zero_iff) simp
    then have "0 < a div (b * 2 ^ (l - 23))" by (simp add: div_mult2_eq)
    with round_half_even_ge [of a "b * 2 ^ (l - 23)"] False show ?thesis by simp
  qed
  then show ?thesis using False assms unfolding f32_div_ceil_def Let_def l_def by simp
qed (use assms in \<open>simp add: f32_div_ceil_def\<close>)

lemma vnodes_for_some:
  assumes "vnode_size \<noteq> 0"
  obtains k where "vnodes_for n vnode_size = Inr k" "n = 0 \<longleftrightarrow> k = 0"
proof -
  have "0 < unat vnode_size" using assms by (simp add: unat_gt_0)
  then have s: "0 < as_f32 (unat vnode_size)" by (rule as_f32_pos)
  have z: "as_f32 0 = 0" by (simp add: as_f32_def)
  have "n = 0 \<longleftrightarrow> f32_div_ceil (as_f32 n) (as_f32 (unat vnode_size)) = 0"
  proof (cases "n = 0")
    case True
    then show ?thesis by (simp add: z f32_div_ceil_def)
  next
    case False
    then have "0 < as_f32 n" by (intro as_f32_pos) simp
    from f32_div_ceil_pos [OF this s] False show ?thesis by simp
  qed
  with that assms show thesis by (simp add: vnodes_for_def)
qed

text \<open>C18: the number of vnodes of a directory. A vnode size of 0 is a panic as soon as there is an
  entry. Otherwise, for fewer than 2 to the 24 entries, the division in single precision gives exactly
  the smallest number of vnodes that holds the entries at \<open>vnode_size\<close> each, whatever the size; with
  more entries the count is rounded and can be too small.\<close>

theorem vnode_count_exact:
  "(0 < n \<longrightarrow> vnodes_for n 0 = Inl (Panic ''capacity overflow'')) \<and>
   (vnode_size \<noteq> 0 \<longrightarrow> n < 2 ^ 24 \<longrightarrow>
     (\<exists>k. vnodes_for n vnode_size = Inr k \<and> n \<le> k * unat vnode_size \<and> k * unat vnode_size < n + unat vnode_size)) \<and>
   vnodes_for (2 ^ 24 + 1) 1 = Inr (2 ^ 24)"
proof (intro conjI impI)
  assume "0 < n"
  then show "vnodes_for n 0 = Inl (Panic ''capacity overflow'')" by (simp add: vnodes_for_def)
next
  assume s: "vnode_size \<noteq> 0" and n: "n < 2 ^ 24"
  have p: "0 < unat vnode_size" using s by (simp add: unat_gt_0)
  have "f32_div_ceil n (as_f32 (unat vnode_size)) = ceil_div n (unat vnode_size)"
  proof (cases "unat vnode_size < 2 ^ 24")
    case True
    with f32_div_ceil_exact [OF n p] show ?thesis by (simp add: as_f32_def)
  next
    case False
    then have le: "n \<le> unat vnode_size" "n \<le> as_f32 (unat vnode_size)"
      using n as_f32_large [of "unat vnode_size"] by linarith+
    show ?thesis
    proof (cases "n = 0")
      case True
      with p show ?thesis by (simp add: f32_div_ceil_def ceil_div_def)
    next
      case nz: False
      then have "ceil_div n (unat vnode_size) = 1" using le(1) by (subst ceil_div_iff [OF p]) auto
      with nz le(2) show ?thesis by (simp add: f32_div_ceil_def)
    qed
  qed
  then have "vnodes_for n vnode_size = Inr (ceil_div n (unat vnode_size))"
    using s n by (simp add: vnodes_for_def as_f32_def)
  with ceil_div_iff [OF p, of n] show
    "\<exists>k. vnodes_for n vnode_size = Inr k \<and> n \<le> k * unat vnode_size \<and> k * unat vnode_size < n + unat vnode_size"
    by blast
next
  show "vnodes_for (2 ^ 24 + 1) 1 = Inr (2 ^ 24)"
    by (simp add: vnodes_for_def as_f32_def f32_div_ceil_def round_half_even_def log2_floor.simps Let_def)
qed

lemma vnode_count_exact_witness:
  "vnodes_for 1 0 = Inl (Panic ''capacity overflow'') \<and>
   (\<exists>k. vnodes_for 25000 10000 = Inr k \<and> 25000 \<le> k * 10000 \<and> k * 10000 < 35000)"
  using vnode_count_exact [of 1 10000] vnode_count_exact [of 25000 10000] by simp

section \<open>Overlaying the staged entries\<close>

definition is_entry :: "staged_node \<Rightarrow> bool" where
  "is_entry a \<longleftrightarrow> is_file (sn_node a) \<or> is_dir (sn_node a)"

lemma maybe_path_entry: "is_entry a \<Longrightarrow> maybe_path (sn_node a) = Inr (entry_path a)"
  by (auto simp: is_entry_def maybe_path_def entry_path_def entry_name_def is_file_def is_dir_def split: e_merkle_tree_node.splits)

lemma maybe_path_no_entry: "\<not> is_entry a \<Longrightarrow> \<exists>e. maybe_path (sn_node a) = Inl e"
  by (auto simp: is_entry_def maybe_path_def is_file_def is_dir_def split: e_merkle_tree_node.splits)

lemma staged_eq_entries: "is_entry a \<Longrightarrow> is_entry b \<Longrightarrow> staged_eq a b \<longleftrightarrow> entry_path a = entry_path b"
  by (simp add: staged_eq_def maybe_path_entry)

lemma is_entry_with_prefix [simp]: "is_entry (with_prefix D p c) = is_entry c"
  by (auto simp: with_prefix_def is_entry_def is_file_def is_dir_def Let_def split: e_merkle_tree_node.splits)

lemma sn_status_with_prefix [simp]: "sn_status (with_prefix D p c) = sn_status c"
  by (simp add: with_prefix_def Let_def)

text \<open>The entries of a set with their paths; the staged entries under their full paths.\<close>

definition by_path :: "staged_node list \<Rightarrow> path \<Rightarrow> staged_node option" where
  "by_path es = map_of (map (\<lambda>e. (entry_path e, e)) es)"

definition entry_set :: "staged_node list \<Rightarrow> bool" where
  "entry_set es \<longleftrightarrow> list_all is_entry es \<and> distinct (map entry_path es)"

definition staged_below :: "path \<Rightarrow> staged_node list \<Rightarrow> staged_node list" where
  "staged_below D new = map (\<lambda>c. with_prefix D (entry_path c) c) (filter (\<lambda>c. is_entry c \<and> entry_path c \<noteq> []) new)"

definition last_staged :: "path \<Rightarrow> staged_node list \<Rightarrow> path \<Rightarrow> staged_node option" where
  "last_staged D new p = find (\<lambda>c. entry_path c = p) (rev (staged_below D new))"

definition overlaid :: "path \<Rightarrow> staged_node list \<Rightarrow> staged_node list \<Rightarrow> path \<Rightarrow> staged_node option" where
  "overlaid D new old p =
     (case last_staged D new p of
        Some c \<Rightarrow> if sn_status c = Removed then None else Some c
      | None \<Rightarrow> by_path old p)"

lemma entry_set_simps [simp]: "entry_set []"
  by (simp add: entry_set_def)

lemma option_same: "(\<And>e. a = Some e \<longleftrightarrow> b = Some e) \<Longrightarrow> a = b"
  by (cases a; cases b) auto

lemma by_path_iff:
  assumes "entry_set es"
  shows "by_path es p = Some e \<longleftrightarrow> e \<in> set es \<and> entry_path e = p"
proof -
  have "distinct (map fst (map (\<lambda>e. (entry_path e, e)) es))" using assms by (simp add: entry_set_def comp_def)
  from map_of_eq_Some_iff [OF this] show ?thesis unfolding by_path_def by auto
qed

lemma by_path_cong:
  assumes "entry_set es" "entry_set fs" "set es = set fs"
  shows "by_path es = by_path fs"
proof
  fix p show "by_path es p = by_path fs p"
    by (rule option_same) (simp add: by_path_iff assms)
qed

lemma entry_set_remove: "entry_set es \<Longrightarrow> entry_set (remove_by staged_eq c es)"
  by (auto simp: entry_set_def remove_by_def list_all_iff distinct_map inj_on_def)

lemma by_path_remove:
  assumes "entry_set es" "is_entry c"
  shows "by_path (remove_by staged_eq c es) = (by_path es)(entry_path c := None)"
proof
  fix p
  have "e \<in> set (remove_by staged_eq c es) \<longleftrightarrow> e \<in> set es \<and> entry_path e \<noteq> entry_path c" for e
    using assms by (auto simp: remove_by_def entry_set_def list_all_iff staged_eq_entries)
  then show "by_path (remove_by staged_eq c es) p = ((by_path es)(entry_path c := None)) p"
    by (intro option_same) (auto simp: by_path_iff [OF assms(1)] by_path_iff [OF entry_set_remove [OF assms(1)]])
qed

lemma entry_set_replace:
  assumes "entry_set es" "is_entry c"
  shows "entry_set (replace_by staged_eq c es)"
proof -
  have "entry_path e \<noteq> entry_path c" if "e \<in> set (remove_by staged_eq c es)" for e
    using that assms by (auto simp: remove_by_def entry_set_def list_all_iff staged_eq_entries)
  then have "entry_path c \<notin> entry_path ` set (remove_by staged_eq c es)" by force
  with entry_set_remove [OF assms(1), of c] assms(2) show ?thesis
    by (simp add: replace_by_def entry_set_def)
qed

lemma by_path_replace:
  assumes "entry_set es" "is_entry c"
  shows "by_path (replace_by staged_eq c es) = (by_path es)(entry_path c \<mapsto> c)"
proof
  fix p
  have "e \<in> set (replace_by staged_eq c es) \<longleftrightarrow> e = c \<or> e \<in> set es \<and> entry_path e \<noteq> entry_path c" for e
    using assms by (auto simp: replace_by_def remove_by_def entry_set_def list_all_iff staged_eq_entries)
  then show "by_path (replace_by staged_eq c es) p = ((by_path es)(entry_path c \<mapsto> c)) p"
    by (intro option_same) (auto simp: by_path_iff [OF assms(1)] by_path_iff [OF entry_set_replace [OF assms]])
qed

lemma find_append: "find P (xs @ ys) = (case find P xs of None \<Rightarrow> find P ys | r \<Rightarrow> r)"
  by (induction xs) auto

lemma apply_staged_overlay:
  assumes "entry_set old"
  shows "\<exists>children removed. fold (apply_staged D) new (old, []) = (children, removed) \<and> entry_set children \<and>
    by_path children = overlaid D new old \<and>
    entry_path ` set removed = entry_path ` {c \<in> set (staged_below D new). sn_status c = Removed} \<and> list_all is_entry removed"
proof (induction new rule: rev_induct)
  case Nil
  then show ?case using assms by (simp add: overlaid_def last_staged_def staged_below_def)
next
  case (snoc c new)
  then obtain children removed where s: "fold (apply_staged D) new (old, []) = (children, removed)" "entry_set children"
      "by_path children = overlaid D new old"
      "entry_path ` set removed = entry_path ` {c \<in> set (staged_below D new). sn_status c = Removed}" "list_all is_entry removed"
    by blast
  show ?case
  proof (cases "is_entry c \<and> entry_path c \<noteq> []")
    case False
    then have b: "staged_below D (new @ [c]) = staged_below D new" by (auto simp: staged_below_def)
    have "apply_staged D c (children, removed) = (children, removed)"
    proof (cases "is_entry c")
      case True
      with False show ?thesis by (simp add: apply_staged_def maybe_path_entry)
    next
      case False
      then show ?thesis using maybe_path_no_entry [of c] by (auto simp: apply_staged_def)
    qed
    moreover have "overlaid D (new @ [c]) old = overlaid D new old"
      by (simp add: overlaid_def last_staged_def b fun_eq_iff)
    ultimately show ?thesis using s b by simp
  next
    case True
    define d where "d = with_prefix D (entry_path c) c"
    have d: "is_entry d" "sn_status d = sn_status c" using True by (simp_all add: d_def)
    have b: "staged_below D (new @ [c]) = staged_below D new @ [d]" using True by (simp add: staged_below_def d_def)
    have o: "overlaid D (new @ [c]) old = (overlaid D new old)(entry_path d := (if sn_status c = Removed then None else Some d))"
      by (auto simp: overlaid_def last_staged_def b d(2) fun_eq_iff)
    have step: "apply_staged D c (children, removed) =
        (if sn_status c = Removed then (remove_by staged_eq d children, insert_by staged_eq d removed)
         else (replace_by staged_eq d children, removed))"
      using True by (simp add: apply_staged_def maybe_path_entry d_def Let_def)
    show ?thesis
    proof (cases "sn_status c = Removed")
      case False
      then have "{x \<in> set (staged_below D (new @ [c])). sn_status x = Removed} =
          {x \<in> set (staged_below D new). sn_status x = Removed}" using d(2) by (auto simp: b)
      moreover have "overlaid D (new @ [c]) old = (overlaid D new old)(entry_path d \<mapsto> d)" using o False by simp
      ultimately show ?thesis using s step d(1) False by (simp add: by_path_replace entry_set_replace fun_eq_iff)
    next
      case rm: True
      have "entry_path ` set (insert_by staged_eq d removed) = insert (entry_path d) (entry_path ` set removed)"
        using s(5) d(1) by (auto simp: insert_by_def list_ex_iff list_all_iff staged_eq_entries intro: rev_image_eqI)
      moreover have "{x \<in> set (staged_below D (new @ [c])). sn_status x = Removed} =
          insert d {x \<in> set (staged_below D new). sn_status x = Removed}" using rm d(2) by (auto simp: b)
      moreover have "list_all is_entry (insert_by staged_eq d removed)" using s(5) d(1) by (auto simp: insert_by_def)
      ultimately show ?thesis using s step o d rm by (simp add: by_path_remove entry_set_remove fun_eq_iff)
    qed
  qed
qed

section \<open>Dealing out the entries\<close>

lemma push_entries:
  assumes "length vs = n" and "cs \<noteq> [] \<Longrightarrow> 0 < n"
  shows "length (fold (push_entry hash128 n) cs vs) = n \<and>
    (\<forall>i < n. fold (push_entry hash128 n) cs vs ! i =
       (vs ! i)\<lparr>ev_entries := ev_entries (vs ! i) @ filter (\<lambda>c. bucket_of hash128 n c = i) cs\<rparr>)"
  using assms(2)
proof (induction cs rule: rev_induct)
  case Nil
  with assms(1) show ?case by simp
next
  case (snoc c cs)
  then have n: "bucket_of hash128 n c < n" by (simp add: bucket_of_def)
  with snoc show ?case by (auto simp: push_entry_def Let_def nth_list_update)
qed

definition dealt :: "(byte list \<Rightarrow> merkle_hash) \<Rightarrow> nat \<Rightarrow> staged_node list \<Rightarrow> nat \<Rightarrow> staged_node list" where
  "dealt hash128 n cs i = sort_key entry_path (filter (\<lambda>c. bucket_of hash128 n c = i) cs)"

lemma finished_vnodes:
  assumes "cs \<noteq> [] \<Longrightarrow> 0 < n"
  shows "map ev_entries (map (\<lambda>(i, v). finish_vnode hash128 uuid D ex i v)
      (enumerate 0 (fold (push_entry hash128 n) cs (replicate n (entry_vnode_new 0))))) = map (dealt hash128 n cs) [0..<n]"
proof -
  note P = push_entries [of "replicate n (entry_vnode_new 0)" n cs hash128, OF length_replicate assms]
  show ?thesis
  proof (rule nth_equalityI)
    fix i assume "i < length (map ev_entries (map (\<lambda>(i, v). finish_vnode hash128 uuid D ex i v)
      (enumerate 0 (fold (push_entry hash128 n) cs (replicate n (entry_vnode_new 0))))))"
    then have "i < n" using P by simp
    with P show "map ev_entries (map (\<lambda>(i, v). finish_vnode hash128 uuid D ex i v)
      (enumerate 0 (fold (push_entry hash128 n) cs (replicate n (entry_vnode_new 0))))) ! i = map (dealt hash128 n cs) [0..<n] ! i"
      by (simp add: nth_enumerate_eq finish_vnode_def Let_def dealt_def entry_vnode_new_def)
  qed (use P in simp)
qed

lemma dealt_props:
  assumes "entry_set cs"
  shows "sorted_wrt (<) (map entry_path (dealt hash128 n cs i))"
    and "set (dealt hash128 n cs i) = {c \<in> set cs. bucket_of hash128 n c = i}"
    and "entry_set (dealt hash128 n cs i)"
proof -
  have d: "distinct (map entry_path (dealt hash128 n cs i))"
    using assms by (auto simp: dealt_def entry_set_def distinct_map inj_on_def)
  with assms show "entry_set (dealt hash128 n cs i)" by (auto simp: dealt_def entry_set_def list_all_iff)
  show "set (dealt hash128 n cs i) = {c \<in> set cs. bucket_of hash128 n c = i}" by (auto simp: dealt_def)
  have "sorted (map entry_path (dealt hash128 n cs i))" by (simp add: dealt_def)
  with d show "sorted_wrt (<) (map entry_path (dealt hash128 n cs i))" by (simp add: strict_sorted_iff)
qed

lemma entry_set_concat:
  assumes "entry_set cs" and "cs \<noteq> [] \<Longrightarrow> 0 < n"
  shows "entry_set (concat (map (dealt hash128 n cs) [0..<n]))" (is "entry_set ?all")
    and "set (concat (map (dealt hash128 n cs) [0..<n])) = set cs"
    and "length (concat (map (dealt hash128 n cs) [0..<n])) = length cs"
proof -
  have b: "bucket_of hash128 n c < n" if "c \<in> set cs" for c using assms(2) that by (cases cs) (simp_all add: bucket_of_def)
  show s: "set ?all = set cs" using b by (auto simp: dealt_props(2) [OF assms(1)])
  have "distinct (concat (map (dealt hash128 n cs) is))" if "distinct is" for "is"
    using that
  proof (induction "is")
    case (Cons i "is")
    have "distinct (dealt hash128 n cs i)"
      using dealt_props(3) [OF assms(1)] by (auto simp: entry_set_def distinct_map)
    with Cons show ?case by (auto simp: dealt_props(2) [OF assms(1)])
  qed simp
  then have d: "distinct ?all" by simp
  have inj: "inj_on entry_path (set cs)" using assms(1) by (auto simp: entry_set_def distinct_map)
  then have "distinct (map entry_path ?all)" unfolding distinct_map using d by (simp only: s simp_thms)
  moreover have "list_all is_entry ?all" using assms(1) s by (auto simp: entry_set_def list_all_iff)
  ultimately show "entry_set ?all" by (simp add: entry_set_def)
  have "distinct cs" using assms(1) by (auto simp: entry_set_def distinct_map)
  with d s show "length ?all = length cs" by (metis distinct_card)
qed

section \<open>The existing children\<close>

text \<open>The entries of a directory of the existing tree, under their full paths.\<close>

definition staged_existing :: "path \<Rightarrow> merkle_tree_node \<Rightarrow> staged_node" where
  "staged_existing D x = \<lparr>sn_status = Unmodified, sn_node =
     (case t_node x of
        EDirectory d \<Rightarrow> from_dir (dn_set_name (path_to_str (join_str D (dn_name d))) d)
      | EFile f \<Rightarrow> from_file (fn_set_name (path_to_str (join_str D (fn_name f))) f)
      | _ \<Rightarrow> x)\<rparr>"

definition existing_children :: "path \<Rightarrow> merkle_tree_node option \<Rightarrow> staged_node list" where
  "existing_children D existing =
     (case existing of None \<Rightarrow> [] | Some d \<Rightarrow> map (staged_existing D) (concat (map t_children (t_children d))))"

lemma staged_existing_entry:
  assumes "name_path D" "is_file x \<or> is_dir x" "valid_name (child_search_name x)"
  shows "node_data_to_staged_node D x = Some (staged_existing D x)" "is_entry (staged_existing D x)"
    "entry_path (staged_existing D x) = D @ [Normal (child_search_name x)]"
  using assms
  by (auto simp: node_data_to_staged_node_def staged_existing_def is_entry_def is_file_def is_dir_def entry_path_def
      entry_name_def child_search_name_def from_dir_def from_file_def components_path_to_str split: e_merkle_tree_node.splits)

lemma vnode_children:
  "list_all is_vnode cs \<Longrightarrow>
   fold (\<lambda>child children. case t_node child of EVNode _ \<Rightarrow> children @ t_children child | _ \<Rightarrow> children) cs acc =
     acc @ concat (map t_children cs)"
  by (induction cs arbitrary: acc) (auto simp: is_vnode_def split: e_merkle_tree_node.splits)

lemma extend_entries: "entry_set (acc @ xs) \<Longrightarrow> extend_by staged_eq xs acc = acc @ xs"
proof (induction xs arbitrary: acc)
  case (Cons x xs)
  have "entry_path x \<notin> entry_path ` set acc" using Cons.prems by (auto simp: entry_set_def)
  then have "entry_path y \<noteq> entry_path x" if "y \<in> set acc" for y using that by (metis imageI)
  then have "\<not> staged_eq y x" if "y \<in> set acc" for y
    using Cons.prems that by (simp add: entry_set_def list_all_iff staged_eq_entries)
  then have "insert_by staged_eq x acc = acc @ [x]" by (auto simp: insert_by_def list_ex_iff)
  with Cons show ?case by simp
qed simp

lemma existing_entries:
  assumes "name_path D" and "\<forall>d. existing = Some d \<longrightarrow> wf_tree d \<and> is_dir d"
  shows "(case existing of Some d \<Rightarrow> get_node_dir_children D d | None \<Rightarrow> Inr []) = Inr (existing_children D existing)"
    and "entry_set (existing_children D existing)"
proof -
  have "get_node_dir_children D d = Inr (existing_children D existing) \<and> entry_set (existing_children D existing)"
    if e: "existing = Some d" for d
  proof -
    have dd: "wf_tree d" "is_dir d" using assms(2) that by simp_all
    then obtain h e p cs where d: "d = MTNode h (EDirectory e) p cs"
      by (cases d) (auto simp: is_dir_def split: e_merkle_tree_node.splits)
    have wf: "list_all is_vnode cs" "distinct (concat (map (\<lambda>v. map child_search_name (t_children v)) cs))" "list_all wf_tree cs"
      using dd(1) by (auto simp: d)
    let ?xs = "concat (map t_children cs)"
    have ok: "(is_file x \<or> is_dir x) \<and> valid_name (child_search_name x)" if x: "x \<in> set ?xs" for x
    proof -
      obtain v where v: "v \<in> set cs" "x \<in> set (t_children v)" using x by auto
      with wf(1,3) have "is_vnode v" "wf_tree v" by (auto simp: list_all_iff)
      then show ?thesis using v(2) by (cases v) (auto simp: is_vnode_def list_all_iff split: e_merkle_tree_node.splits)
    qed
    have names: "map entry_path (map (staged_existing D) ?xs) = map (\<lambda>x. D @ [Normal (child_search_name x)]) ?xs"
      using ok staged_existing_entry(3) [OF assms(1)] by simp
    have "distinct (map child_search_name ?xs)" using wf(2) by (simp add: map_concat comp_def)
    then have "distinct (map entry_path (map (staged_existing D) ?xs))"
      unfolding names by (simp add: distinct_map inj_on_def)
    moreover have "list_all is_entry (map (staged_existing D) ?xs)"
      using ok staged_existing_entry(2) [OF assms(1)] by (simp add: list_all_iff)
    ultimately have s: "entry_set (map (staged_existing D) ?xs)" unfolding entry_set_def by blast
    have "List.map_filter (node_data_to_staged_node D) ?xs = map (staged_existing D) ?xs"
    proof -
      have "List.map_filter (node_data_to_staged_node D) xs = map (staged_existing D) xs" if "set xs \<subseteq> set ?xs" for xs
        using that ok staged_existing_entry(1) [OF assms(1)] by (induction xs) (auto simp: List.map_filter_def)
      then show ?thesis by blast
    qed
    then have "get_node_dir_children D d = Inr (extend_by staged_eq (map (staged_existing D) ?xs) [])"
      using vnode_children [OF wf(1), of "[]"] by (simp add: get_node_dir_children_def list_files_and_folders_def d)
    also have "\<dots> = Inr (map (staged_existing D) ?xs)" using extend_entries [of "[]"] s by simp
    finally show ?thesis using s by (simp add: existing_children_def e d)
  qed
  then show "(case existing of Some d \<Rightarrow> get_node_dir_children D d | None \<Rightarrow> Inr []) = Inr (existing_children D existing)"
    and "entry_set (existing_children D existing)"
    by (cases existing; simp add: existing_children_def)+
qed

text \<open>C14: splitting a directory. Whatever was staged for it, the split succeeds (for a vnode size above
  0) and the vnodes together hold exactly the existing entries overlaid by the staged ones: for each
  path the last staged entry decides, a removal leaves nothing, and without one the existing entry
  stays. No path occurs twice; each vnode is sorted by path (what the binary search of a lookup needs)
  and every entry lies in the vnode its path hashes to (where \<open>read_file\<close> looks). Their number is
  that for the total of the entries. The removed entries are reported by path.\<close>

theorem split_directory_partitions:
  assumes "name_path D" and "\<forall>d. map_of existing D = Some d \<longrightarrow> wf_tree d \<and> is_dir d" and "vnode_size \<noteq> 0"
  shows "\<exists>vs removed. split_directory hash128 uuid vnode_size existing D new = Inr (vs, removed) \<and>
    by_path (concat (map ev_entries vs)) = overlaid D new (existing_children D (map_of existing D)) \<and>
    entry_set (concat (map ev_entries vs)) \<and>
    (\<forall>i < length vs. sorted_wrt (<) (map entry_path (ev_entries (vs ! i))) \<and>
       (\<forall>e \<in> set (ev_entries (vs ! i)). bucket_of hash128 (length vs) e = i)) \<and>
    vnodes_for (length (concat (map ev_entries vs))) vnode_size = Inr (length vs) \<and>
    entry_path ` set removed = entry_path ` {c \<in> set (staged_below D new). sn_status c = Removed}"
proof -
  let ?old = "existing_children D (map_of existing D)" and ?ex = "map_of existing D \<noteq> None"
  note old = existing_entries [OF assms(1,2)]
  from apply_staged_overlay [OF old(2), of D new] obtain cs removed where
    c: "fold (apply_staged D) new (?old, []) = (cs, removed)" "entry_set cs" "by_path cs = overlaid D new ?old"
       "entry_path ` set removed = entry_path ` {c \<in> set (staged_below D new). sn_status c = Removed}" by blast
  obtain n where n: "vnodes_for (length cs) vnode_size = Inr n" "length cs = 0 \<longleftrightarrow> n = 0"
    using vnodes_for_some [OF assms(3)] by metis
  have pos: "cs \<noteq> [] \<Longrightarrow> 0 < n" using n(2) by simp
  define vs where "vs = map (\<lambda>(i, v). finish_vnode hash128 uuid D ?ex i v)
      (enumerate 0 (fold (push_entry hash128 n) cs (replicate n (entry_vnode_new 0))))"
  have ev: "map ev_entries vs = map (dealt hash128 n cs) [0..<n]" unfolding vs_def by (rule finished_vnodes [OF pos])
  from arg_cong [OF this, of length] have len: "length vs = n" by simp
  have nth: "ev_entries (vs ! i) = dealt hash128 n cs i" if "i < n" for i
    using that len arg_cong [OF ev, of "\<lambda>l. l ! i"] by simp
  note all = entry_set_concat [OF c(2) pos, of hash128, folded ev]
  have "split_directory hash128 uuid vnode_size existing D new = Inr (vs, removed)"
    using old(1) c(1) n(1) by (simp add: split_directory_def vs_def Let_def split: option.splits)
  moreover have "by_path (concat (map ev_entries vs)) = overlaid D new ?old"
    using by_path_cong [OF all(1) c(2) all(2)] c(3) by simp
  ultimately show ?thesis using all(1,3) n(1) c(4) len nth dealt_props(1,2) [OF c(2)]
    by (intro exI [of _ vs] exI [of _ removed]) simp
qed

text \<open>The root directory of the sample tree with \<open>a\<close> removed and \<open>c\<close> added; its subdirectory \<open>d\<close> stays.\<close>

lemma split_directory_partitions_witness:
  "\<exists>vs removed. split_directory (\<lambda>bs. of_nat (length bs)) (\<lambda>_ _. []) 1 [([], hd (t_children sample_tree))] []
       [\<lparr>sn_status = Removed, sn_node = from_file (sample_file ''a'' 1)\<rparr>, \<lparr>sn_status = Added, sn_node = from_file (sample_file ''c'' 3)\<rparr>]
     = Inr (vs, removed) \<and>
     by_path (concat (map ev_entries vs)) [Normal ''a''] = None \<and>
     by_path (concat (map ev_entries vs)) [Normal ''c''] = Some \<lparr>sn_status = Added, sn_node = from_file (sample_file ''c'' 3)\<rparr> \<and>
     by_path (concat (map ev_entries vs)) [Normal ''d''] = Some \<lparr>sn_status = Unmodified, sn_node = from_dir (sample_dir ''d'' 5)\<rparr>"
proof -
  let ?r = "hd (t_children sample_tree)"
  let ?a = "\<lparr>sn_status = Removed, sn_node = from_file (sample_file ''a'' 1)\<rparr>" and ?c = "\<lparr>sn_status = Added, sn_node = from_file (sample_file ''c'' 3)\<rparr>"
  have wf: "\<forall>d. map_of [([] :: path, ?r)] [] = Some d \<longrightarrow> wf_tree d \<and> is_dir d" by (simp add: sample_tree_def)
  from split_directory_partitions [OF _ wf, of 1 "\<lambda>bs. of_nat (length bs)" "\<lambda>_ _. []" "[?a, ?c]"]
  obtain vs removed where s: "split_directory (\<lambda>bs. of_nat (length bs)) (\<lambda>_ _. []) 1 [([], ?r)] [] [?a, ?c] = Inr (vs, removed)"
    and b: "by_path (concat (map ev_entries vs)) = overlaid [] [?a, ?c] (existing_children [] (map_of [([], ?r)] []))" by auto
  have p: "path_to_str [Normal ''a''] = ''a''" "path_to_str [Normal ''d''] = ''d''" "valid_name ''a''" "valid_name ''c''" "valid_name ''d''"
    by (simp_all add: path_to_str_def valid_name_def)
  have e: "entry_path ?a = [Normal ''a'']" "entry_path ?c = [Normal ''c'']" "is_entry ?a" "is_entry ?c"
    using p by (simp_all add: entry_path_def entry_name_def from_file_def is_entry_def)
  have below: "staged_below [] [?a, ?c] = [?a, ?c]" using e by (simp add: staged_below_def with_prefix_def)
  have old: "existing_children [] (map_of [([], ?r)] []) =
      [\<lparr>sn_status = Unmodified, sn_node = from_file (fn_set_name ''a'' (sample_file ''a'' 1))\<rparr>,
       \<lparr>sn_status = Unmodified, sn_node = from_dir (sample_dir ''d'' 5)\<rparr>]"
    using p by (simp add: existing_children_def sample_tree_def staged_existing_def sample_dir_def)
  have "overlaid [] [?a, ?c] (existing_children [] (map_of [([], ?r)] [])) [Normal ''a''] = None"
    "overlaid [] [?a, ?c] (existing_children [] (map_of [([], ?r)] [])) [Normal ''c''] = Some ?c"
    "overlaid [] [?a, ?c] (existing_children [] (map_of [([], ?r)] [])) [Normal ''d''] =
       Some \<lparr>sn_status = Unmodified, sn_node = from_dir (sample_dir ''d'' 5)\<rparr>"
    unfolding old using p e
    by (simp_all add: overlaid_def last_staged_def below by_path_def) (simp add: entry_path_def entry_name_def from_file_def from_dir_def)
  with s b show ?thesis by (intro exI [of _ vs] exI [of _ removed]) simp
qed

end
