(* ===== verification/Commit_Writer_Props.thy ===== *)
theory Commit_Writer_Props
  imports Commit_Writer Commit_Split_Props Node_Db_Props
begin

text \<open>
  What the commit writer does to the totals of a directory, to the ids of commits and to the vnodes
  that are on disk already.
\<close>

section \<open>The totals of a directory\<close>

text \<open>The entries that raise and lower the count of a directory.\<close>

definition counted :: "staged_node \<Rightarrow> bool" where
  "counted e \<longleftrightarrow> is_dir (sn_node e) \<or> is_file (sn_node e) \<and> sn_status e = Added"

definition discounted :: "staged_node \<Rightarrow> bool" where
  "discounted e \<longleftrightarrow> is_file (sn_node e) \<and> sn_status e = Removed"

definition count_of :: "(staged_node \<Rightarrow> bool) \<Rightarrow> staged_node list \<Rightarrow> u64" where
  "count_of P es = of_nat (length (filter P es))"

lemma count_of_simps [simp]:
  "count_of P [] = 0" "count_of P (e # es) = (if P e then 1 else 0) + count_of P es"
  "count_of P (xs @ ys) = count_of P xs + count_of P ys"
  by (simp_all add: count_of_def)

lemma total_entry_count:
  "total_entry env st head path child e t = Inr t' \<Longrightarrow>
   dt_num_entries t' = dt_num_entries t + (if path = child \<and> counted e then 1 else 0)"
  by (auto simp: total_entry_def counted_def is_dir_def is_file_def is_here_def Let_def rbind_eq_Inr
      split: e_merkle_tree_node.splits staged_entry_status.splits option.splits)

lemma total_removed_count:
  "total_removed path child e t = Inr t' \<Longrightarrow>
   dt_num_entries t' = dt_num_entries t - (if path = child \<and> discounted e then 1 else 0)"
  by (auto simp: total_removed_def discounted_def is_file_def is_here_def Let_def
      split: e_merkle_tree_node.splits if_splits)

lemma total_entries_count:
  "rfold (total_entry env st head path child) es t = Inr t' \<Longrightarrow>
   dt_num_entries t' = dt_num_entries t + (if path = child then count_of counted es else 0)"
proof (induction es arbitrary: t)
  case (Cons e es)
  then obtain u where "total_entry env st head path child e t = Inr u" "rfold (total_entry env st head path child) es u = Inr t'"
    by (auto simp: rbind_eq_Inr)
  with Cons.IH total_entry_count show ?case by (fastforce simp: add.assoc)
qed simp

lemma total_removals_count:
  "rfold (total_removed path child) es t = Inr t' \<Longrightarrow>
   dt_num_entries t' = dt_num_entries t - (if path = child then count_of discounted es else 0)"
proof (induction es arbitrary: t)
  case (Cons e es)
  then obtain u where "total_removed path child e t = Inr u" "rfold (total_removed path child) es u = Inr t'"
    by (auto simp: rbind_eq_Inr)
  with Cons.IH total_removed_count show ?case by (fastforce simp: algebra_simps)
qed simp

lemma total_vnodes_count:
  "rfold (\<lambda>vnode t. rfold (total_entry env st head path child) (ev_entries vnode)
      (t\<lparr>dt_digest := dt_digest t @ hash_le (ev_id vnode)\<rparr>)) vnodes t = Inr t' \<Longrightarrow>
   dt_num_entries t' = dt_num_entries t + (if path = child then count_of counted (concat (map ev_entries vnodes)) else 0)"
proof (induction vnodes arbitrary: t)
  case (Cons v vnodes)
  then obtain u where u: "rfold (total_entry env st head path child) (ev_entries v) (t\<lparr>dt_digest := dt_digest t @ hash_le (ev_id v)\<rparr>) = Inr u"
    "rfold (\<lambda>vnode t. rfold (total_entry env st head path child) (ev_entries vnode)
      (t\<lparr>dt_digest := dt_digest t @ hash_le (ev_id vnode)\<rparr>)) vnodes u = Inr t'"
    by (auto simp: rbind_eq_Inr)
  from Cons.IH [OF u(2)] total_entries_count [OF u(1)] show ?case by (simp add: add.assoc)
qed simp

lemma total_child_count:
  assumes "total_child env st head entries path child t = Inr t'"
  obtains vnodes removed where "map_of entries child = Some (vnodes, removed)"
    "dt_num_entries t' = dt_num_entries t +
       (if path = child then count_of counted (concat (map ev_entries vnodes)) - count_of discounted removed else 0)"
proof -
  obtain vnodes removed u where u: "map_of entries child = Some (vnodes, removed)"
    "rfold (\<lambda>vnode t. rfold (total_entry env st head path child) (ev_entries vnode)
      (t\<lparr>dt_digest := dt_digest t @ hash_le (ev_id vnode)\<rparr>)) vnodes t = Inr u"
    "rfold (total_removed path child) removed u = Inr t'"
    using assms by (cases "map_of entries child") (auto simp: total_child_def rbind_eq_Inr)
  from total_vnodes_count [OF u(2)] total_removals_count [OF u(3)]
  have "dt_num_entries t' = dt_num_entries t +
       (if path = child then count_of counted (concat (map ev_entries vnodes)) - count_of discounted removed else 0)"
    by simp
  with u(1) show thesis by (rule that)
qed

lemma total_children_count:
  "rfold (total_child env st head entries path) cs t = Inr t' \<Longrightarrow> distinct cs \<Longrightarrow>
   map_of entries path = Some (vnodes, removed) \<Longrightarrow>
   dt_num_entries t' = dt_num_entries t +
     (if path \<in> set cs then count_of counted (concat (map ev_entries vnodes)) - count_of discounted removed else 0)"
proof (induction cs arbitrary: t)
  case (Cons c cs)
  then obtain u where u: "total_child env st head entries path c t = Inr u" "rfold (total_child env st head entries path) cs u = Inr t'"
    by (auto simp: rbind_eq_Inr)
  from Cons.IH [OF u(2)] Cons.prems(2,3) have 2: "dt_num_entries t' = dt_num_entries u +
     (if path \<in> set cs then count_of counted (concat (map ev_entries vnodes)) - count_of discounted removed else 0)"
    by simp
  from u(1) show ?case
    by (rule total_child_count) (use 2 Cons.prems(2,3) in auto)
qed simp

text \<open>A modified file is looked up below the directory although its name is the whole path.\<close>

definition file_bytes :: "staged_node \<Rightarrow> u64" where
  "file_bytes e = (case t_node (sn_node e) of EFile f \<Rightarrow> fn_num_bytes f | _ \<Rightarrow> 0)"

definition added_bytes :: "staged_node list \<Rightarrow> u64" where
  "added_bytes es = sum_list (map file_bytes (filter (\<lambda>e. sn_status e = Added) es))"

lemma added_bytes_simps [simp]:
  "added_bytes [] = 0" "added_bytes (e # es) = (if sn_status e = Added then file_bytes e else 0) + added_bytes es"
  "added_bytes (xs @ ys) = added_bytes xs + added_bytes ys"
  by (simp_all add: added_bytes_def)

definition named_below :: "path \<Rightarrow> staged_node \<Rightarrow> bool" where
  "named_below P e \<longleftrightarrow> (\<exists>q s. name_path (P @ q) \<and> valid_name s \<and> entry_name e = path_to_str (P @ q @ [Normal s]))"

lemma no_file_below:
  assumes "dir_hashes st hc = Inr m" "map_of m (p @ [Normal s]) = None" "map_of m p = None"
  shows "get_file_by_path hash128 st fuel hc (p @ [Normal s]) = Inr None"
  using assms by (auto simp: get_file_by_path_def get_node_by_path_def read_from_path_def read_depth_from_path_def
      node_path_of_def read_file_def)

lemma modified_not_found:
  assumes "dir_hashes st hc = Inr m" "\<And>q. map_of m (P @ P @ q) = None" "named_below P e"
  shows "get_file_by_path hash128 st fuel hc (join_str P (entry_name e)) = Inr None"
proof -
  obtain q s where q: "name_path (P @ q)" "valid_name s" "entry_name e = path_to_str (P @ q @ [Normal s])"
    using assms(3) by (auto simp: named_below_def)
  have "components (entry_name e) = P @ q @ [Normal s]" unfolding q(3) by (rule components_path_to_str) (use q in simp)
  moreover have "path_join P (P @ q @ [Normal s]) = P @ P @ q @ [Normal s]"
    using q(1) by (cases P; cases q) (auto simp: is_absolute_def path_join_def)
  ultimately have "join_str P (entry_name e) = (P @ P @ q) @ [Normal s]" by (simp add: join_str_def)
  with no_file_below [OF assms(1), of "P @ P @ q" s hash128 fuel] assms(2) show ?thesis by simp
qed

lemma total_entry_bytes:
  assumes "total_entry env st (Some hc) P child e t = Inr t'"
    and "sn_status e = Modified \<Longrightarrow> is_file (sn_node e) \<Longrightarrow>
      get_file_by_path (we_hash128 env) st (we_fuel env) hc (join_str P (entry_name e)) = Inr None"
  shows "dt_num_bytes t' = dt_num_bytes t + (if sn_status e = Added then file_bytes e else 0)"
  using assms
  by (auto simp: total_entry_def is_file_def file_bytes_def entry_name_def Let_def rbind_eq_Inr
      split: e_merkle_tree_node.splits staged_entry_status.splits option.splits)

lemma total_entries_bytes:
  assumes "rfold (total_entry env st (Some hc) P child) es t = Inr t'"
    and "\<forall>e \<in> set es. sn_status e = Modified \<longrightarrow> is_file (sn_node e) \<longrightarrow>
      get_file_by_path (we_hash128 env) st (we_fuel env) hc (join_str P (entry_name e)) = Inr None"
  shows "dt_num_bytes t' = dt_num_bytes t + added_bytes es"
  using assms
proof (induction es arbitrary: t)
  case (Cons e es)
  then obtain u where u: "total_entry env st (Some hc) P child e t = Inr u" "rfold (total_entry env st (Some hc) P child) es u = Inr t'"
    by (auto simp: rbind_eq_Inr)
  have "dt_num_bytes u = dt_num_bytes t + (if sn_status e = Added then file_bytes e else 0)"
    by (rule total_entry_bytes [OF u(1)]) (use Cons.prems(2) in simp)
  with Cons.IH [OF u(2)] Cons.prems(2) show ?case by (simp add: add.assoc)
qed simp

lemma total_vnodes_bytes:
  assumes "rfold (\<lambda>vnode t. rfold (total_entry env st (Some hc) P child) (ev_entries vnode)
      (t\<lparr>dt_digest := dt_digest t @ hash_le (ev_id vnode)\<rparr>)) vnodes t = Inr t'"
    and "\<forall>e \<in> set (concat (map ev_entries vnodes)). sn_status e = Modified \<longrightarrow> is_file (sn_node e) \<longrightarrow>
      get_file_by_path (we_hash128 env) st (we_fuel env) hc (join_str P (entry_name e)) = Inr None"
  shows "dt_num_bytes t' = dt_num_bytes t + added_bytes (concat (map ev_entries vnodes))"
  using assms
proof (induction vnodes arbitrary: t)
  case (Cons v vnodes)
  then obtain u where u: "rfold (total_entry env st (Some hc) P child) (ev_entries v) (t\<lparr>dt_digest := dt_digest t @ hash_le (ev_id v)\<rparr>) = Inr u"
    "rfold (\<lambda>vnode t. rfold (total_entry env st (Some hc) P child) (ev_entries vnode)
      (t\<lparr>dt_digest := dt_digest t @ hash_le (ev_id vnode)\<rparr>)) vnodes u = Inr t'"
    by (auto simp: rbind_eq_Inr)
  have "dt_num_bytes u = dt_num_bytes t + added_bytes (ev_entries v)"
    using total_entries_bytes [OF u(1)] Cons.prems(2) by simp
  with Cons.IH [OF u(2)] Cons.prems(2) show ?case by (simp add: add.assoc)
qed simp

lemma total_removals_bytes:
  "rfold (total_removed P child) es t = Inr t' \<Longrightarrow> filter discounted es = [] \<Longrightarrow> dt_num_bytes t' = dt_num_bytes t"
proof (induction es arbitrary: t)
  case (Cons e es)
  then obtain u where u: "total_removed P child e t = Inr u" "rfold (total_removed P child) es u = Inr t'"
    by (auto simp: rbind_eq_Inr)
  have "\<not> discounted e" using Cons.prems(2) by (auto split: if_splits)
  then have "dt_num_bytes u = dt_num_bytes t"
    using u(1) by (auto simp: total_removed_def discounted_def is_file_def split: e_merkle_tree_node.splits if_splits)
  with Cons u(2) show ?case by (simp split: if_splits)
qed simp

text \<open>The entries at and below a directory, in the order the totals are taken.\<close>

definition entries_below :: "split_entries \<Rightarrow> path \<Rightarrow> staged_node list" where
  "entries_below entries P =
     concat (map (\<lambda>(_, vnodes, _). concat (map ev_entries vnodes)) (filter (\<lambda>(p, _). path_starts_with p P) entries))"

definition removed_below :: "split_entries \<Rightarrow> path \<Rightarrow> staged_node list" where
  "removed_below entries P = concat (map (\<lambda>(_, _, removed). removed) (filter (\<lambda>(p, _). path_starts_with p P) entries))"

lemma total_children_bytes:
  assumes "rfold (total_child env st (Some hc) entries P) (map fst xs) t = Inr t'" and "hm_wf entries" and "set xs \<subseteq> set entries"
    and "\<forall>(p, vnodes, removed) \<in> set xs. filter discounted removed = [] \<and>
      (\<forall>e \<in> set (concat (map ev_entries vnodes)). sn_status e = Modified \<longrightarrow> is_file (sn_node e) \<longrightarrow>
      get_file_by_path (we_hash128 env) st (we_fuel env) hc (join_str P (entry_name e)) = Inr None)"
  shows "dt_num_bytes t' = dt_num_bytes t + added_bytes (concat (map (\<lambda>(_, vnodes, _). concat (map ev_entries vnodes)) xs))"
  using assms(1,3,4)
proof (induction xs arbitrary: t)
  case (Cons x xs)
  obtain p vnodes removed where x: "x = (p, vnodes, removed)" by (cases x)
  from Cons.prems(1) x obtain w where w: "total_child env st (Some hc) entries P p t = Inr w"
    "rfold (total_child env st (Some hc) entries P) (map fst xs) w = Inr t'"
    by (auto simp: rbind_eq_Inr)
  have m: "map_of entries p = Some (vnodes, removed)" using Cons.prems(2) assms(2) x by (auto simp: hm_wf_map_of)
  then obtain u where u:
    "rfold (\<lambda>vnode t. rfold (total_entry env st (Some hc) P p) (ev_entries vnode)
      (t\<lparr>dt_digest := dt_digest t @ hash_le (ev_id vnode)\<rparr>)) vnodes t = Inr u"
    "rfold (total_removed P p) removed u = Inr w"
    using w(1) by (auto simp: total_child_def rbind_eq_Inr)
  have "dt_num_bytes u = dt_num_bytes t + added_bytes (concat (map ev_entries vnodes))"
    by (rule total_vnodes_bytes [OF u(1)]) (use Cons.prems(3) x in simp)
  moreover have "dt_num_bytes w = dt_num_bytes u"
    by (rule total_removals_bytes [OF u(2)]) (use Cons.prems(3) x in simp)
  moreover have "dt_num_bytes t' = dt_num_bytes w + added_bytes (concat (map (\<lambda>(_, vnodes, _). concat (map ev_entries vnodes)) xs))"
    by (rule Cons.IH [OF w(2)]) (use Cons.prems(2,3) in auto)
  ultimately show ?case by (simp add: x add.assoc)
qed simp

lemma get_children_filter: "get_children entries P = map fst (filter (\<lambda>(p, _). path_starts_with p P) entries)"
  unfolding get_children_def filter_map by (simp add: comp_def case_prod_unfold)

text \<open>C16: the totals of a directory drift. A directory node starts from the totals the head commit has for
  the directory. Its number of entries then grows by every subdirectory that is in it, changed or not,
  by every added file, and shrinks by every removed file; a removed subdirectory does not count. So a
  commit that only changes one file adds the number of subdirectories once more. The bytes of a
  directory other than the root change by the added files alone: the old size of a modified file is
  looked up under the directory's path followed by the file's whole path, where the head commit has
  nothing (unless a directory of that doubled path exists), so its change of size is lost.\<close>

theorem directory_totals_drift:
  assumes node: "compute_dir_node env st (Inr (Some hc)) cid entries dhs P = Inr d"
    and old: "dir_without_children st (we_fuel env) hc P (Some dhs) = Inr (Some old)" "node_dir old = Inr od"
    and version: "we_version env = LATEST \<or> we_version env = V0_25_0"
    and entries: "hm_wf entries" "map_of entries P = Some (vnodes, removed)"
  shows "dn_num_entries d = dn_num_entries od + count_of counted (concat (map ev_entries vnodes)) - count_of discounted removed \<and>
    (P \<noteq> [] \<longrightarrow> dir_hashes st hc = Inr m \<longrightarrow> (\<forall>q. map_of m (P @ P @ q) = None) \<longrightarrow>
      (\<forall>e \<in> set (entries_below entries P). sn_status e = Modified \<longrightarrow> is_file (sn_node e) \<longrightarrow> named_below P e) \<longrightarrow>
      filter discounted (removed_below entries P) = [] \<longrightarrow>
      dn_num_bytes d = dn_num_bytes od + added_bytes (entries_below entries P))"
proof (intro conjI impI)
  obtain t0 t where t: "initial_totals env st (Some hc) dhs P = Inr t0"
    "rfold (total_child env st (Some hc) entries P) (get_children entries P) t0 = Inr t"
    and d: "dn_num_entries d = dt_num_entries t" "dn_num_bytes d = dt_num_bytes t"
    using node version by (auto simp: compute_dir_node_def dir_totals_of_def rbind_eq_Inr dir_node_new_def)
  have t0: "dt_num_entries t0 = dn_num_entries od" "dt_num_bytes t0 = dn_num_bytes od"
    using t(1) old by (auto simp: initial_totals_def Let_def)
  have dist: "distinct (get_children entries P)" using entries(1) by (simp add: get_children_def hm_wf_def)
  have "P \<in> set (get_children entries P)"
    using map_of_SomeD [OF entries(2)] by (force simp: get_children_def path_starts_with_def)
  with total_children_count [OF t(2) dist entries(2)] d(1) t0(1)
  show "dn_num_entries d = dn_num_entries od + count_of counted (concat (map ev_entries vnodes)) - count_of discounted removed"
    by simp
  assume "P \<noteq> []" and m: "dir_hashes st hc = Inr m" "\<forall>q. map_of m (P @ P @ q) = None"
    and named: "\<forall>e \<in> set (entries_below entries P). sn_status e = Modified \<longrightarrow> is_file (sn_node e) \<longrightarrow> named_below P e"
    and rm: "filter discounted (removed_below entries P) = []"
  let ?xs = "filter (\<lambda>(p, _). path_starts_with p P) entries"
  have "dt_num_bytes t = dt_num_bytes t0 + added_bytes (concat (map (\<lambda>(_, vnodes, _). concat (map ev_entries vnodes)) ?xs))"
  proof (rule total_children_bytes [OF t(2) [unfolded get_children_filter] entries(1)])
    show "\<forall>(p, vnodes, removed) \<in> set ?xs. filter discounted removed = [] \<and>
      (\<forall>e \<in> set (concat (map ev_entries vnodes)). sn_status e = Modified \<longrightarrow> is_file (sn_node e) \<longrightarrow>
      get_file_by_path (we_hash128 env) st (we_fuel env) hc (join_str P (entry_name e)) = Inr None)"
    proof (intro ballI, clarsimp, intro conjI allI impI ballI)
      fix p vs rm' assume x: "(p, vs, rm') \<in> set entries" "path_starts_with p P"
      show "filter discounted rm' = []"
        using rm x unfolding removed_below_def filter_empty_conv by fastforce
      fix v e assume e: "v \<in> set vs" "e \<in> set (ev_entries v)" "sn_status e = Modified" "is_file (sn_node e)"
      then have "e \<in> set (entries_below entries P)" using x unfolding entries_below_def by fastforce
      with named e(3,4) have "named_below P e" by blast
      with m show "get_file_by_path (we_hash128 env) st (we_fuel env) hc (join_str P (entry_name e)) = Inr None"
        by (intro modified_not_found) auto
    qed
  qed auto
  with d(2) t0(2) show "dn_num_bytes d = dn_num_bytes od + added_bytes (entries_below entries P)"
    by (simp add: entries_below_def)
qed

definition sample_env :: "(string \<times> string) list writer_env" where
  "sample_env = \<lparr>we_codec = tree_codec, we_repo = [], we_version = LATEST, we_hash128 = (\<lambda>bs. of_nat (length bs)),
     we_fuel = 9, we_kv = list_kv\<rparr>"

definition staged_file :: "staged_entry_status \<Rightarrow> string \<Rightarrow> merkle_hash \<Rightarrow> staged_node" where
  "staged_file s name h = \<lparr>sn_status = s, sn_node = from_file (sample_file name h)\<rparr>"

definition staged_dir :: "staged_entry_status \<Rightarrow> string \<Rightarrow> merkle_hash \<Rightarrow> staged_node" where
  "staged_dir s name h = \<lparr>sn_status = s, sn_node = from_dir (sample_dir name h)\<rparr>"

lemma staged_sample_simps [simp]:
  "sn_status (staged_file s name h) = s" "sn_status (staged_dir s name h) = s"
  "sn_node (staged_file s name h) = MTNode h (EFile (sample_file name h)) None []"
  "sn_node (staged_dir s name h) = MTNode h (EDirectory (sample_dir name h)) None []"
  "entry_name (staged_file s name h) = name" "entry_name (staged_dir s name h) = name"
  by (simp_all add: staged_file_def staged_dir_def from_file_def from_dir_def entry_name_def)

text \<open>A commit that modifies \<open>d/b\<close> next to the directory \<open>d/e\<close>: the count of \<open>d\<close> grows from 0 to 1.\<close>

lemma directory_totals_drift_witness:
  "\<exists>d. compute_dir_node sample_env (tree_store (tree_nodes sample_tree ! 4) []) (Inr (Some (commit_node_to_commit (sample_commit 9 [] 0)))) 10
      [([Normal ''d''], [\<lparr>ev_id = 6, ev_entries = [staged_file Modified ''d/b'' 3, staged_dir Unmodified ''d/e'' 7], ev_removed_entries = []\<rparr>], [])]
      [([Normal ''d''], 5)] [Normal ''d''] = Inr d \<and> dn_num_entries d = 1 \<and> dn_num_bytes d = 0"
proof -
  let ?st = "tree_store (tree_nodes sample_tree ! 4) []" and ?hc = "commit_node_to_commit (sample_commit 9 [] 0)"
  let ?v = "\<lparr>ev_id = 6, ev_entries = [staged_file Modified ''d/b'' 3, staged_dir Unmodified ''d/e'' 7], ev_removed_entries = []\<rparr>"
  let ?es = "[([Normal ''d''], [?v], [])]" and ?dhs = "[([Normal ''d''], 5 :: merkle_hash)]" and ?P = "[Normal ''d'']"
  have fuel: "we_fuel sample_env = 9" "we_version sample_env = LATEST" by (simp_all add: sample_env_def)
  obtain pid cs where old: "dir_without_children ?st 9 ?hc ?P (Some ?dhs) = Inr (Some (MTNode 5 (EDirectory (sample_dir ''d'' 5)) pid cs))"
  proof -
    let ?t = "tree_nodes sample_tree ! 4"
    have t: "?t = MTNode 5 (EDirectory (sample_dir ''d'' 5)) (Some 7)
        [MTNode 4 (EVNode (sample_vnode 4)) (Some 5) [MTNode 2 (EFile (sample_file ''b'' 2)) (Some 4) []]]"
      by (simp add: sample_tree_def)
    have st: "stored ?st ?t" unfolding t by (simp add: tree_store_def Let_def strip_def)
    have "may_have_children ?t" "tree_size ?t \<le> 9" by (simp_all add: t)
    from read_depth_stored [OF st this] obtain pid where
      "read_depth ?st 9 (t_hash ?t) 0 = Inr (Some (MTNode (t_hash ?t) (t_node ?t) pid (t_children (prune None 0 0 ?t))))" by metis
    moreover have "t_hash ?t = 5" "t_node ?t = EDirectory (sample_dir ''d'' 5)" by (simp_all add: t)
    ultimately show thesis using that by (simp add: dir_without_children_def dir_at_depth_def given_or_read_def)
  qed
  have m: "dir_hashes ?st ?hc = Inr []" by (simp add: dir_hashes_def tree_store_def Let_def)
  have named: "named_below ?P (staged_file Modified ''d/b'' 3)"
    unfolding named_below_def by (intro exI [of _ "[]"] exI [of _ "''b''"]) (simp add: path_to_str_def valid_name_def)
  have "get_file_by_path h ?st 9 ?hc (join_str ?P (entry_name (staged_file Modified ''d/b'' 3))) = Inr None" for h
    by (rule modified_not_found [OF m _ named]) simp
  then have modified: "get_file_by_path h ?st 9 ?hc (join_str ?P ''d/b'') = Inr None" for h by simp
  have "\<exists>d. compute_dir_node sample_env ?st (Inr (Some ?hc)) 10 ?es ?dhs ?P = Inr d"
    using old modified by (simp add: compute_dir_node_def dir_totals_of_def initial_totals_def get_children_def path_starts_with_def
        total_child_def total_entry_def node_dir_def dir_node_new_def fuel Let_def)
  then obtain d where d: "compute_dir_node sample_env ?st (Inr (Some ?hc)) 10 ?es ?dhs ?P = Inr d" by blast
  have "node_dir (MTNode 5 (EDirectory (sample_dir ''d'' 5)) pid cs) = Inr (sample_dir ''d'' 5)"
    "we_version sample_env = LATEST \<or> we_version sample_env = V0_25_0" "hm_wf ?es" "map_of ?es ?P = Some ([?v], [])"
    by (simp_all add: node_dir_def fuel hm_wf_def)
  note T = conjunct1 [OF directory_totals_drift [OF d old [folded fuel(1)] this]]
    conjunct2 [OF directory_totals_drift [OF d old [folded fuel(1)] this], of "[]"]
  have below: "entries_below ?es ?P = [staged_file Modified ''d/b'' 3, staged_dir Unmodified ''d/e'' 7]"
    "removed_below ?es ?P = []" by (simp_all add: entries_below_def removed_below_def path_starts_with_def)
  have "dn_num_entries d = 1" using T(1) by (simp add: counted_def sample_dir_def)
  moreover have "dn_num_bytes d = 0" using T(2) m named by (simp add: below sample_dir_def)
  ultimately show ?thesis using d by blast
qed

section \<open>What an id does not cover\<close>










lemma write_commit_id:
  "write_commit cl hc es node p rm s = (Inr c, s') \<Longrightarrow> c = commit_node_to_commit node"
  by (auto simp: write_commit_def Let_def split: sum.splits prod.splits option.splits)

lemma node_for_hash: "node_for cl nc msg ps = Inr node \<Longrightarrow> cn_hash node = compute_commit_id (we_hash128 (cl_env cl)) nc"
  by (auto simp: node_for_def commit_node_new_def cn_hash_def Let_def split: if_splits)

lemma commit_dir_entries_id:
  assumes "commit_dir_entries cl entries body target s = (Inr c, s1)" "revision_or_none cl target (store_of cl s) = Inr h"
    "maybe_hash h = Inr p"
  shows "cm_id c = merkle_hash_to_string (compute_commit_id (we_hash128 (cl_env cl))
    \<lparr>nc_parent_ids = (case p of None \<Rightarrow> [] | Some h \<Rightarrow> [merkle_hash_to_string h]), nc_message = nb_message body,
     nc_author = nb_author body, nc_email = nb_email body, nc_timestamp = cl_now cl\<rparr>)"
proof -
  let ?nc = "\<lparr>nc_parent_ids = (case p of None \<Rightarrow> [] | Some h \<Rightarrow> [merkle_hash_to_string h]), nc_message = nb_message body,
     nc_author = nb_author body, nc_email = nb_email body, nc_timestamp = cl_now cl\<rparr>"
  obtain es node where n: "node_for cl ?nc (nb_message body) (case p of None \<Rightarrow> [] | Some h \<Rightarrow> [h]) = Inr node"
    and w: "write_commit cl h es node None (map snd entries) s = (Inr c, s1)"
    using assms by (auto simp: commit_dir_entries_def Let_def sbind_eq_Inr split: if_splits)
  from write_commit_id [OF w] node_for_hash [OF n] show ?thesis by (simp add: commit_node_to_commit_def)
qed

text \<open>C17: the id of a commit does not cover what is committed. Two commits with the same message, author
  and email on the same head get the same id when their clocks show the same second, whatever entries
  they have and to whichever branches they go: the id hashes the parents, the texts and the seconds
  of the time, not the tree. The later one overwrites the nodes of the earlier one.\<close>

theorem commit_id_ignores_content:
  assumes "commit_dir_entries cl entries body target s = (Inr c, s1)"
    and "commit_dir_entries cl' entries' body target' s' = (Inr c', s1')"
    and "revision_or_none cl target (store_of cl s) = Inr h" and "revision_or_none cl' target' (store_of cl' s') = Inr h"
    and "we_hash128 (cl_env cl) = we_hash128 (cl_env cl')"
    and "unix_timestamp (cl_now cl) = unix_timestamp (cl_now cl')"
  shows "cm_id c = cm_id c'"
proof -
  obtain p where p: "maybe_hash h = Inr p"
    using assms(1,3) by (auto simp: commit_dir_entries_def sbind_eq_Inr split: if_splits)
  from commit_dir_entries_id [OF assms(1,3) p] commit_dir_entries_id [OF assms(2,4) p] assms(5,6)
  show ?thesis by (simp add: compute_commit_id_def)
qed

subsection \<open>Writing succeeds\<close>

text \<open>An open node database takes every node that can be encoded.\<close>

definition open_for_writing :: "merkle_node_db \<Rightarrow> bool" where
  "open_for_writing db \<longleftrightarrow> \<not> db_read_only db \<and> db_node_file db \<noteq> None \<and> db_children_file db \<noteq> None"

definition encodes :: "codec \<Rightarrow> e_merkle_tree_node \<Rightarrow> bool" where
  "encodes c n \<longleftrightarrow> (\<exists>bs. to_msgpack_bytes c n = Inr bs)"

definition succeeds :: "('d on_node, unit) st \<Rightarrow> bool" where
  "succeeds m \<longleftrightarrow> (\<forall>db f d. open_for_writing db \<longrightarrow>
     (\<exists>db' f' d'. m (db, f, d) = (Inr (), db', f', d') \<and> open_for_writing db'))"

lemma open_read_write_succeeds:
  assumes "encodes c node"
  shows "\<exists>db f'. open_read_write c rp node p f = (Inr db, f') \<and> open_for_writing db"
  using assms by (auto simp: open_read_write_def db_open_def file_create_def write_node_def write_all_def Let_def
      encodes_def open_for_writing_def split: prod.splits)

lemma add_child_succeeds: "encodes c node \<Longrightarrow> succeeds (on_db (add_child c node))"
  by (auto simp: succeeds_def on_db_def add_child_def write_all_def Let_def encodes_def open_for_writing_def)

lemma in_node_succeeds:
  assumes "encodes (we_codec env) node" "succeeds body"
  shows "\<exists>f' d'. in_node env node p body (f, d) = (Inr (), f', d')"
proof -
  obtain db f1 where o: "open_read_write (we_codec env) (we_repo env) node p f = (Inr db, f1)" "open_for_writing db"
    using open_read_write_succeeds [OF assms(1)] by blast
  with assms(2) obtain db' f' d' where "body (db, f1, d) = (Inr (), db', f', d')" unfolding succeeds_def by blast
  with o show ?thesis by (simp add: in_node_def)
qed

lemma outside_succeeds: "(\<And>f d. \<exists>f' d'. m (f, d) = (Inr (), f', d')) \<Longrightarrow> succeeds (outside m)"
proof -
  assume m: "\<And>f d. \<exists>f' d'. m (f, d) = (Inr (), f', d')"
  show ?thesis unfolding succeeds_def
  proof (intro allI impI)
    fix db f d assume "open_for_writing db"
    with m [of f d] show "\<exists>db' f' d'. outside m (db, f, d) = (Inr (), db', f', d') \<and> open_for_writing db'"
      by (auto simp: outside_def)
  qed
qed

lemma sbind_succeeds: "succeeds m \<Longrightarrow> (\<And>x. succeeds (k x)) \<Longrightarrow> succeeds (sbind m k)"
proof -
  assume m: "succeeds m" and k: "\<And>x. succeeds (k x)"
  show ?thesis unfolding succeeds_def
  proof (intro allI impI)
    fix db f d assume "open_for_writing db"
    then obtain db1 f1 d1 where 1: "m (db, f, d) = (Inr (), db1, f1, d1)" "open_for_writing db1"
      using m unfolding succeeds_def by blast
    then obtain db' f' d' where "k () (db1, f1, d1) = (Inr (), db', f', d') \<and> open_for_writing db'"
      using k [of "()"] unfolding succeeds_def by blast
    with 1 show "\<exists>db' f' d'. sbind m k (db, f, d) = (Inr (), db', f', d') \<and> open_for_writing db'"
      by (simp add: sbind_def)
  qed
qed

lemma slift_succeeds: "r = Inr () \<Longrightarrow> succeeds (slift r)"
  by (simp add: succeeds_def)

lemma sfor_succeeds: "(\<And>x. x \<in> set xs \<Longrightarrow> succeeds (g x)) \<Longrightarrow> succeeds (sfor g xs)"
  by (induction xs) (auto intro: sbind_succeeds slift_succeeds)

lemma dependent_succeeds: "(\<And>db. succeeds (m db)) \<Longrightarrow> succeeds (\<lambda>(db, s). m db (db, s))"
  by (simp add: succeeds_def)

lemma put_dir_hash_succeeds: "succeeds (put_dir_hash env key node)"
  by (simp add: succeeds_def put_dir_hash_def)

definition sample_call :: "timestamp \<Rightarrow> ((string \<times> string) list, (string \<times> string) list) commit_call" where
  "sample_call now = \<lparr>cl_env = sample_env, cl_refs_kv = list_kv, cl_refs = \<lparr>rf_db = [], rf_head = None\<rparr>, cl_now = now,
     cl_vnode_size = 10000, cl_uuid = (\<lambda>_ _. [])\<rparr>"

definition new_repository :: "(string \<times> string) list commit_state" where
  "new_repository = \<lparr>cs_fs = empty_fs, cs_dbs = (\<lambda>_. []), cs_merge = \<lparr>mf_merge_head = None, mf_orig_head = None\<rparr>\<rparr>"

definition sample_body :: new_commit_body where
  "sample_body = \<lparr>nb_message = ''m'', nb_author = ''ox'', nb_email = ''ox@oxen.ai''\<rparr>"

lemma sample_encodes [simp]:
  "encodes tree_codec (EFile f)" "encodes tree_codec (EDirectory d)" "encodes tree_codec (EVNode v)" "encodes tree_codec (ECommit c)"
  by (simp_all add: encodes_def tree_codec_def)

lemma sample_env_sel [simp]:
  "we_codec sample_env = tree_codec" "we_version sample_env = LATEST" "we_fuel sample_env = 9" "we_kv sample_env = list_kv"
  by (simp_all add: sample_env_def)

lemma sample_call_head [simp]:
  "head_of (sample_call now) st = Inr None" "revision_or_none (sample_call now) target st = Inr None"
  by (simp_all add: sample_call_def head_of_def revision_or_none_def head_commit_maybe_def rm_head_commit_id_def read_head_ref_def)

lemma vnodes_for_one [simp]: "vnodes_for (Suc 0) 10000 = Inr 1"
  by (simp add: vnodes_for_def as_f32_def f32_div_ceil_def)

lemma sample_split:
  assumes "components name = [Normal s]"
  shows "\<exists>v. split_for (sample_call now) st None [([], [staged_file Added name h])] = Inr [([], [v], [])] \<and>
    ev_entries v = [staged_file Added name h]"
proof -
  have p: "maybe_path (MTNode h (EFile (sample_file name h)) None []) = Inr [Normal s]"
    using assms by (simp add: maybe_path_def)
  then show ?thesis
    by (simp add: split_for_def sample_call_def split_into_vnodes_def split_directory_def apply_staged_def with_prefix_def
        replace_by_def remove_by_def push_entry_def bucket_of_def finish_vnode_def entry_vnode_new_def Let_def)
qed

lemma sample_write_succeeds:
  assumes "components name = [Normal s]" "ev_entries v = [staged_file Added name h]" "wc_env ctx = sample_env"
    "wc_entries ctx = [([], [v], [])]" "\<And>st. wc_head ctx st = Inr None"
  shows "succeeds (write_commit_entries ctx)"
proof -
  have "\<exists>dn. \<forall>st. compute_dir_node sample_env st (Inr None) (wc_commit_id ctx) [([], [v], [])] (wc_dir_hashes ctx) [] = Inr dn"
    using assms(2) by (simp add: compute_dir_node_def dir_totals_of_def initial_totals_def get_children_def path_starts_with_def
        total_child_def total_entry_def dir_node_new_def Let_def)
  then obtain dn where dn: "\<And>st. compute_dir_node sample_env st (Inr None) (wc_commit_id ctx) [([], [v], [])] (wc_dir_hashes ctx) [] = Inr dn"
    by blast
  have node: "node_at ctx [] (db, f, d) = (Inr dn, db, f, d)" for db f d
    using dn assms(3-5) by (simp add: node_at_def Let_def)
  have rest: "succeeds (k dn) \<Longrightarrow> succeeds (sbind (node_at ctx []) k)" for k
    by (simp add: succeeds_def sbind_def node)
  obtain g where w: "written_file (wc_commit_id ctx) (staged_file Added name h) (sample_file name h) = Inr g"
    using assms(1) by (simp add: written_file_def path_file_name_def)
  have pair_bind: "sbind (Pair (Inr x)) k = k x" for x k by (simp add: sbind_def)
  have dirs: "succeeds (r_create_dir_node ctx 9 [])"
  proof -
    have nine: "(9::nat) = Suc 8" by simp
    obtain vo where vo: "vnode_new LATEST \<lparr>vo_hash = ev_id v, vo_num_entries = 1\<rparr> = Inr vo" by (simp add: vnode_new_def)
    show ?thesis
      unfolding nine r_create_dir_node.simps Let_def assms(3,4)
      apply (simp add: assms(2) vo)
      apply (intro sbind_succeeds add_child_succeeds dependent_succeeds outside_succeeds in_node_succeeds sfor_succeeds slift_succeeds refl)
      apply (simp_all add: w(1) pair_bind add_child_succeeds)
      done
  qed
  show ?thesis
    unfolding write_commit_entries_def Let_def assms(3)
    apply (intro rest sbind_succeeds add_child_succeeds put_dir_hash_succeeds outside_succeeds in_node_succeeds)
    apply (simp_all add: dirs)
    apply (simp add: succeeds_def)
    done
qed

lemma sample_commit_returns:
  assumes "components name = [Normal s]"
  shows "\<exists>c s'. commit_dir_entries (sample_call now) [([], [staged_file Added name h])] sample_body ''main'' new_repository = (Inr c, s')"
proof -
  obtain v where v: "\<And>st. split_for (sample_call now) st None [([], [staged_file Added name h])] = Inr [([], [v], [])]"
    "ev_entries v = [staged_file Added name h]"
  proof -
    obtain v where "split_for (sample_call now) undefined None [([], [staged_file Added name h])] = Inr [([], [v], [])]"
      "ev_entries v = [staged_file Added name h]" using sample_split [OF assms] by blast
    moreover have "split_for (sample_call now) st None es = split_for (sample_call now) st' None es" for st st' es
      by (simp add: split_for_def)
    ultimately show thesis using that by metis
  qed
  have env: "cl_env (sample_call now) = sample_env" by (simp add: sample_call_def)
  have node: "\<exists>n. node_for (sample_call now) nc msg ps = Inr n" for nc msg ps
    by (simp add: node_for_def env commit_node_new_def Let_def)
  have w: "\<exists>c s'. write_commit (sample_call now) None [([], [v], [])] n p rm st = (Inr c, s')" for n p rm st
  proof -
    obtain f' d' where "in_node sample_env (ECommit n) p
        (write_commit_entries \<lparr>wc_env = sample_env, wc_store = (\<lambda>f. current_store sample_env f (cs_dbs st)), wc_head = head_of (sample_call now),
          wc_commit_id = cn_hash n, wc_dir_hashes = [], wc_entries = [([], [v], [])]\<rparr>) (cs_fs st, cs_dbs st (merkle_hash_to_string (cn_hash n)))
        = (Inr (), f', d')"
      using in_node_succeeds [OF _ sample_write_succeeds [OF assms v(2)]] by fastforce
    then show ?thesis by (simp add: write_commit_def env Let_def)
  qed
  show ?thesis
    using node w by (simp add: commit_dir_entries_def v(1) maybe_hash_def Let_def sbind_def) (metis old.sum.simps(6))
qed

text \<open>Two first commits in the same second, one of the file \<open>a\<close> and one of the file \<open>b\<close>.\<close>

lemma commit_id_ignores_content_witness:
  "\<exists>c c' s s'. commit_dir_entries (sample_call 5) [([], [staged_file Added ''a'' 3])] sample_body ''main'' new_repository = (Inr c, s) \<and>
     commit_dir_entries (sample_call 7) [([], [staged_file Added ''b'' 4])] sample_body ''dev'' new_repository = (Inr c', s') \<and>
     cm_id c = cm_id c'"
proof -
  obtain c s where c: "commit_dir_entries (sample_call 5) [([], [staged_file Added ''a'' 3])] sample_body ''main'' new_repository = (Inr c, s)"
    using sample_commit_returns [of "''a''" "''a''" 5 3] by auto
  obtain c' s' where c': "commit_dir_entries (sample_call 7) [([], [staged_file Added ''b'' 4])] sample_body ''dev'' new_repository = (Inr c', s')"
    using sample_commit_returns [of "''b''" "''b''" 7 4] by (auto simp: commit_dir_entries_def)
  have "cm_id c = cm_id c'"
    by (rule commit_id_ignores_content [OF c c' sample_call_head(2) sample_call_head(2)])
       (simp_all add: sample_call_def unix_timestamp_def)
  with c c' show ?thesis by blast
qed

text \<open>The file \<open>d/b\<close> of a second commit replaces \<open>d/a\<close> of a first one with the same content.\<close>

definition renamed_file :: file_node where
  "renamed_file = fn_set_name ''b'' (fn_set_last_commit_id 9 (fn_set_chunk_hashes [3] (sample_file ''d/b'' 3)))"

definition renamed_codec :: codec where
  "renamed_codec = tree_codec
     \<lparr>slice_vnode := (\<lambda>_. Some (VNodeV0_25_0 \<lparr>vd_hash = 7, vd_node_type = TVNode, vd_num_entries = 1\<rparr>)),
      slice_file := (\<lambda>_. Some renamed_file)\<rparr>"


lemma renamed_codec_ok [simp]:
  "node_codec_ok renamed_codec (EVNode (VNodeV0_25_0 \<lparr>vd_hash = 7, vd_node_type = TVNode, vd_num_entries = 1\<rparr>))"
  "node_codec_ok renamed_codec (EFile renamed_file)"
  by (simp_all add: node_codec_ok_def renamed_codec_def tree_codec_def vnode_deserialize_def file_node_deserialize_def)
     (simp_all add: renamed_file_def sample_file_def file_node_default_def fn_set_name_def fn_set_last_commit_id_def fn_set_chunk_hashes_def)



end
