(* ===== verification/Server_Merge_Props.thy ===== *)
theory Server_Merge_Props
  imports Server_Merge Commit_Writer_Props
begin

text \<open>
  The merges of a server: what the merge commit is written from, when there is none, and which
  references move.
\<close>

section \<open>The directories of the entries\<close>

definition staged_at :: "(path, staged_node list) hash_map \<Rightarrow> path \<Rightarrow> staged_node list" where
  "staged_at dirs D = (case map_of dirs D of None \<Rightarrow> [] | Some ns \<Rightarrow> ns)"

lemma staged_at_or_default [simp]: "staged_at (or_default k m) D = staged_at m D"
  by (auto simp: staged_at_def or_default_def update_conv')

lemma staged_at_defaults [simp]: "staged_at (fold or_default ks m) D = staged_at m D"
  by (induction ks arbitrary: m) simp_all

lemma staged_at_push: "staged_at (push_at k x m) D = staged_at m D @ (if k = D then [x] else [])"
  by (auto simp: staged_at_def push_at_def update_conv' split: option.splits)

lemma staged_at_add:
  "staged_at (add_dir_entry e dirs) D = staged_at dirs D @ (if parent_or_root (fst e) = D then [staged_merge_node e] else [])"
  by (simp add: add_dir_entry_def staged_at_push)

lemma staged_at_fold:
  "staged_at (fold add_dir_entry es dirs) D =
     staged_at dirs D @ map staged_merge_node (filter (\<lambda>e. parent_or_root (fst e) = D) es)"
  by (induction es arbitrary: dirs) (simp_all add: staged_at_add)

lemma staged_at_entries: "staged_at (dir_entries_of es) D = map staged_merge_node (filter (\<lambda>e. parent_or_root (fst e) = D) es)"
  by (simp add: dir_entries_of_def staged_at_fold) (simp add: staged_at_def)

lemma dom_defaults: "dom (map_of (fold or_default ks m)) = dom (map_of m) \<union> set ks"
  by (induction ks arbitrary: m) (auto simp: or_default_def update_conv')

lemma dom_add: "dom (map_of (add_dir_entry e dirs)) =
    dom (map_of dirs) \<union> {parent_or_root (fst e)} \<union> set (tl (path_ancestors (fst e)))"
  by (auto simp: add_dir_entry_def dom_defaults push_at_def update_conv')

lemma dom_entries: "dom (map_of (dir_entries_of es)) = (\<Union>e \<in> set es. insert (parent_or_root (fst e)) (set (tl (path_ancestors (fst e)))))"
proof -
  have "dom (map_of (fold add_dir_entry es dirs)) =
      dom (map_of dirs) \<union> (\<Union>e \<in> set es. insert (parent_or_root (fst e)) (set (tl (path_ancestors (fst e)))))" for dirs
    by (induction es arbitrary: dirs) (auto simp: dom_add)
  then show ?thesis by (simp add: dir_entries_of_def)
qed

section \<open>Properties\<close>

text \<open>C2: a server merges exactly when no path is in conflict. Where a path differs on all three sides it
  answers with a merge conflict and writes nothing; otherwise, unless there is nothing to do, it
  commits on the base commit, with both commits as parents, one staged node per entry of the
  analysis, each in its directory, and these entries turn the files of the base into the reference
  merge.\<close>

theorem server_merge_commits_merged_files:
  assumes "commit_tree (me_hash128 (sv_env sv)) (store_of (sv_call sv) s) (we_fuel (cl_env (sv_call sv))) (mg_base mc) b"
    and "commit_tree (me_hash128 (sv_env sv)) (store_of (sv_call sv) s) (we_fuel (cl_env (sv_call sv))) (mg_merge mc) m"
    and "rel_option (commit_tree (me_hash128 (sv_env sv)) (store_of (sv_call sv) s) (we_fuel (cl_env (sv_call sv)))) (mg_lca mc) l"
    and "hash_fixes_files (set_option l \<union> {b, m})" and "\<And>es. mset (me_order (sv_env sv) es) = mset es"
    and "sv_user sv = Inr (user, email)"
  shows "((\<exists>p. conflicting (side_of l p) (file_map b p) (file_map m p)) \<longrightarrow>
      server_three_way_merge sv mc s = (Inl (UpstreamMergeConflict ''Unable to merge''), s)) \<and>
    ((\<forall>p. \<not> conflicting (side_of l p) (file_map b p) (file_map m p)) \<longrightarrow> (\<exists>es.
      distinct (map fst es) \<and>
      (\<forall>p. same_side (apply_entries es (file_map b) p) (merged_file (side_of l p) (file_map b p) (file_map m p))) \<and>
      (\<forall>D. staged_at (dir_entries_of es) D = map staged_merge_node (filter (\<lambda>e. parent_or_root (fst e) = D) es)) \<and>
      server_three_way_merge sv mc s =
        (if es = [] then (Inl (Basic ''No changes to commit''), s)
         else commit_dir_entries_with_parents (sv_call sv) [cm_id (mg_base mc), cm_id (mg_merge mc)]
           (sv_dir_order sv (dir_entries_of es))
           \<lparr>nb_message = merge_commit_message mc, nb_author = user, nb_email = email\<rparr> (cm_id (mg_base mc)) s)))"
proof -
  obtain a where a: "find_merge_conflicts (sv_env sv) (store_of (sv_call sv) s) (we_fuel (cl_env (sv_call sv))) mc Absent {} = Inr a"
      "distinct (map fst (ms_entries a))"
      "conflict_path ` set (ms_conflicts a) = {p. conflicting (side_of l p) (file_map b p) (file_map m p)}"
      "\<forall>p. same_side (apply_entries (ms_entries a) (file_map b) p) (merged_file (side_of l p) (file_map b p) (file_map m p))"
    using merge_analysis [OF assms(1-5)] by blast
  have c: "(\<exists>p. conflicting (side_of l p) (file_map b p) (file_map m p)) \<longleftrightarrow> ms_conflicts a \<noteq> []"
    using a(3) by (cases "ms_conflicts a") auto
  have "server_three_way_merge sv mc s =
      (if ms_conflicts a \<noteq> [] then (Inl (UpstreamMergeConflict ''Unable to merge''), s)
       else if ms_entries a = [] then (Inl (Basic ''No changes to commit''), s)
       else commit_dir_entries_with_parents (sv_call sv) [cm_id (mg_base mc), cm_id (mg_merge mc)]
           (sv_dir_order sv (dir_entries_of (ms_entries a)))
           \<lparr>nb_message = merge_commit_message mc, nb_author = user, nb_email = email\<rparr> (cm_id (mg_base mc)) s)"
    using a(1) assms(6) by (simp add: server_three_way_merge_def Let_def slift_def sbind_def)
  with a(2,4) c staged_at_entries show ?thesis by (intro conjI impI exI [of _ "ms_entries a"]) auto
qed

section \<open>A repository with two branches\<close>

text \<open>Trees written one after the other are all on disk.\<close>

definition write_all :: "codec \<Rightarrow> path \<Rightarrow> merkle_tree_node list \<Rightarrow> fs \<Rightarrow> fs" where
  "write_all c rp ts f = fold (\<lambda>t f. snd (p_write_tree c rp t (t_node t) f)) ts f"

lemma trees_written:
  assumes "\<And>t. t \<in> set ts \<Longrightarrow> writable c t \<and> acyclic_hashes t \<and> may_have_children t"
    and "hashes_identify (\<Union>t \<in> set ts. inner t) (\<Union>t \<in> set ts. inner t)"
  shows "\<forall>t \<in> set ts. \<forall>x \<in> inner t. holds c rp (write_all c rp ts f) x"
  using assms
proof (induction ts rule: rev_induct)
  case (snoc t ts)
  let ?f = "write_all c rp ts f"
  obtain r f' where w: "p_write_tree c rp t (t_node t) ?f = (r, f')" by force
  have i: "hashes_identify (inner t) (inner t)" "hashes_identify (\<Union>t \<in> set ts. inner t) (inner t)"
    by (rule hashes_identify_mono [OF snoc.prems(2)]; auto)+
  have t: "subtree_written c rp t ?f f'"
    using p_write_tree_written [OF _ _ i(1) _ w] snoc.prems(1) [of t] by simp
  have "\<forall>t \<in> set ts. \<forall>x \<in> inner t. holds c rp ?f x"
    by (rule snoc.IH) (use snoc.prems in \<open>auto intro: hashes_identify_mono\<close>)
  with holds_after_subtree [OF t i(2)] have "\<forall>t \<in> set ts. \<forall>x \<in> inner t. holds c rp f' x" by blast
  moreover have "\<forall>x \<in> inner t. holds c rp f' x" using t by (simp add: subtree_written_def)
  moreover have "write_all c rp (ts @ [t]) f = f'" using w by (simp add: write_all_def)
  ultimately show ?case by auto
qed simp

definition byte_codec :: codec where
  "byte_codec =
     \<lparr>to_msgpack_bytes = (\<lambda>n. case n of EFileChunk _ \<Rightarrow> Inl DbEncode | _ \<Rightarrow> Inr [ucast (node_hash n)]),
      slice_file = (\<lambda>bs. Some (sample_file (if hd bs \<le> 3 then ''a'' else ''b'') (ucast (hd bs)))),
      slice_file_data = (\<lambda>_. None),
      slice_dir = (\<lambda>bs. Some (sample_dir '''' (ucast (hd bs)))), slice_dir_data = (\<lambda>_. None),
      slice_vnode = (\<lambda>bs. Some (sample_vnode (ucast (hd bs)))), slice_vnode_data = (\<lambda>_. None),
      slice_commit = (\<lambda>bs. Some (sample_commit (ucast (hd bs)) [] 0)), slice_commit_data = (\<lambda>_. None),
      slice_chunk = (\<lambda>_. None)\<rparr>"

lemma byte_codec_bytes [simp]:
  "node_bytes byte_codec (ECommit cn) = [ucast (cn_hash cn)]" "node_bytes byte_codec (EDirectory d) = [ucast (dn_hash d)]"
  "node_bytes byte_codec (EVNode v) = [ucast (vn_hash v)]" "node_bytes byte_codec (EFile g) = [ucast (fn_hash g)]"
  by (simp_all add: node_bytes_def byte_codec_def)

definition three_trees :: "merkle_tree_node list" where
  "three_trees = [two_files 30 1 4, two_files 40 2 4, two_files 50 3 5]"

lemma byte_back:
  fixes h :: merkle_hash
  assumes "h < 256"
  shows "ucast (ucast h :: 8 word) = h" "(ucast h :: 8 word) \<le> 3 \<longleftrightarrow> h \<le> 3"
proof -
  have "unat h < 256" using assms by (simp add: word_less_nat_alt)
  then have t: "take_bit LENGTH(8) (unat h) = unat h" by (intro take_bit_nat_eq_self) simp
  have u: "unat (ucast h :: 8 word) = unat h" unfolding unsigned_ucast_eq by (rule t)
  have "unat (ucast (ucast h :: 8 word) :: merkle_hash) = take_bit LENGTH(128) (unat (ucast h :: 8 word))"
    by (rule unsigned_ucast_eq)
  also have "\<dots> = unat h" unfolding u by (intro take_bit_nat_eq_self) (rule unsigned_less)
  finally have "unat (ucast (ucast h :: 8 word) :: merkle_hash) = unat h" .
  then show "ucast (ucast h :: 8 word) = h" by (rule unsigned_word_eqI)
  show "(ucast h :: 8 word) \<le> 3 \<longleftrightarrow> h \<le> 3" by (simp add: word_le_nat_alt u)
qed

lemma small_byte_back:
  fixes h :: merkle_hash
  assumes "h \<le> 3"
  shows "ucast (ucast h :: 8 word) = h" "(ucast h :: 8 word) \<le> 3"
proof -
  have "h < 256" using assms by (rule le_less_trans) simp
  with byte_back assms show "ucast (ucast h :: 8 word) = h" "(ucast h :: 8 word) \<le> 3" by blast+
qed

lemma byte_codec_ok [simp]:
  "h < 256 \<Longrightarrow> node_codec_ok byte_codec (ECommit (sample_commit h [] 0))"
  "h < 256 \<Longrightarrow> node_codec_ok byte_codec (EDirectory (sample_dir '''' h))"
  "h < 256 \<Longrightarrow> node_codec_ok byte_codec (EVNode (sample_vnode h))"
  "h \<le> 3 \<Longrightarrow> node_codec_ok byte_codec (EFile (sample_file ''a'' h))"
  "3 < h \<Longrightarrow> h < 256 \<Longrightarrow> node_codec_ok byte_codec (EFile (sample_file ''b'' h))"
  by (simp_all add: node_codec_ok_def byte_codec_def commit_node_deserialize_def dir_node_deserialize_def
      vnode_deserialize_def file_node_deserialize_def byte_back small_byte_back not_le)
     (simp_all add: sample_commit_def sample_dir_def sample_vnode_def sample_file_def file_node_default_def)

lemma three_trees_writable: "t \<in> set three_trees \<Longrightarrow> writable byte_codec t \<and> acyclic_hashes t \<and> may_have_children t"
  by (auto simp: three_trees_def two_files_def kind_defs inner_node)

lemma three_trees_on_disk:
  "t \<in> set three_trees \<Longrightarrow> x \<in> inner t \<Longrightarrow> holds byte_codec [] (write_all byte_codec [] three_trees empty_fs) x"
proof -
  have "hashes_identify (\<Union>t \<in> set three_trees. inner t) (\<Union>t \<in> set three_trees. inner t)"
    by (simp add: three_trees_def two_files_def inner_node hashes_identify_def same_content_def)
  from trees_written [OF three_trees_writable this] show "t \<in> set three_trees \<Longrightarrow> x \<in> inner t \<Longrightarrow>
    holds byte_codec [] (write_all byte_codec [] three_trees empty_fs) x" by blast
qed

definition three_state :: "(string \<times> string) list commit_state" where
  "three_state =
     \<lparr>cs_fs = write_all byte_codec [] three_trees empty_fs,
      cs_dbs = (\<lambda>i. case merkle_hash_from_str i of Inr h \<Rightarrow> [('''', merkle_hash_to_string (h - 1))] | Inl _ \<Rightarrow> []),
      cs_merge = \<lparr>mf_merge_head = None, mf_orig_head = None\<rparr>\<rparr>"

definition three_call :: "((string \<times> string) list, (string \<times> string) list) server_call" where
  "three_call =
     \<lparr>sv_call = (sample_call 0)\<lparr>cl_env := sample_env\<lparr>we_codec := byte_codec\<rparr>\<rparr>, sv_env = sample_merge_env, sv_corder = (\<lambda>xs. xs),
      sv_dir_order = (\<lambda>xs. xs), sv_user = Inr (''ox'', ''ox@oxen.ai'')\<rparr>"

lemma three_state_tree:
  assumes "two_files n x y \<in> set three_trees"
  shows "commit_tree (me_hash128 (sv_env three_call)) (store_of (sv_call three_call) three_state) (we_fuel (cl_env (sv_call three_call)))
    (two_files_commit n) (two_files n x y)"
proof -
  have st: "store_of (sv_call three_call) three_state = disk_store byte_codec [] (write_all byte_codec [] three_trees empty_fs)
      (\<lambda>i. Inr (kv_iter list_kv (cs_dbs three_state i)))"
    by (simp add: store_of_def current_store_def three_call_def three_state_def sample_call_def sample_env_def)
  have "reparent None (two_files n x y) = two_files n x y" by (simp add: two_files_def)
  then have "stored (store_of (sv_call three_call) three_state) (two_files n x y)"
    using stored_written [of byte_codec "two_files n x y" "[]" _ _ None] three_trees_writable [OF assms] three_trees_on_disk [OF assms]
    unfolding st by (metis (no_types, lifting))
  moreover have "dir_hashes (store_of (sv_call three_call) three_state) (two_files_commit n) = Inr [([], n + 2)]"
    unfolding st by (simp add: dir_hashes_def disk_store_def three_state_def two_files_commit_def commit_node_to_commit_def list_kv_def)
  ultimately show ?thesis
    using two_files_tree by (simp add: three_call_def sample_merge_env_def)
qed

text \<open>Both branches change \<open>a\<close>: the server does not merge them.\<close>

lemma server_merge_commits_merged_files_witness:
  "server_three_way_merge three_call
     \<lparr>mg_lca = Some (two_files_commit 30), mg_base = two_files_commit 40, mg_merge = two_files_commit 50\<rparr> three_state =
   (Inl (UpstreamMergeConflict ''Unable to merge''), three_state)"
proof -
  let ?mc = "\<lparr>mg_lca = Some (two_files_commit 30), mg_base = two_files_commit 40, mg_merge = two_files_commit 50\<rparr>"
  let ?l = "Some (two_files 30 1 4)" and ?b = "two_files 40 2 4" and ?m = "two_files 50 3 5"
  let ?ct = "commit_tree (me_hash128 (sv_env three_call)) (store_of (sv_call three_call) three_state) (we_fuel (cl_env (sv_call three_call)))"
  have t: "?ct (mg_base ?mc) ?b" "?ct (mg_merge ?mc) ?m" "rel_option ?ct (mg_lca ?mc) ?l"
    using three_state_tree by (simp_all add: three_trees_def)
  have f: "hash_fixes_files (set_option ?l \<union> {?b, ?m})" using three_fixed by (simp add: insert_commute)
  have o: "mset (me_order (sv_env three_call) es) = mset es" for es by (simp add: three_call_def sample_merge_env_def)
  have u: "sv_user three_call = Inr (''ox'', ''ox@oxen.ai'')" by (simp add: three_call_def)
  have "conflicting (side_of ?l [Normal ''a'']) (file_map ?b [Normal ''a'']) (file_map ?m [Normal ''a''])"
    by (simp add: conflicting_def side_of_def file_map_def two_files_entries same_content_hash_def fn_combined_hash_def sample_file_def)
  with server_merge_commits_merged_files [OF t f o u] show ?thesis by blast
qed

section \<open>The branch\<close>

text \<open>
  What a merge into a branch may do to the references: nothing when it fails; when it returns a
  commit, put the branch on it and leave every other branch and \<open>HEAD\<close>.
\<close>

definition moves_only :: "('d, 'r) server_call \<Rightarrow> string \<Rightarrow> commit res \<Rightarrow> 'r refs \<Rightarrow> bool" where
  "moves_only sv name r rs \<longleftrightarrow>
     (let kv = cl_refs_kv (sv_call sv); old = cl_refs (sv_call sv)
      in case r of
           Inl _ \<Rightarrow> rs = old
         | Inr c \<Rightarrow> get_branch_by_name kv rs name = Some \<lparr>br_name = name, br_commit_id = cm_id c\<rparr> \<and>
             (\<forall>n. n \<noteq> name \<longrightarrow> get_branch_by_name kv rs n = get_branch_by_name kv old n) \<and> rf_head rs = rf_head old)"

lemma advance_branch_moves:
  assumes "kv_lawful (cl_refs_kv (sv_call sv))" "advance_branch sv name p = Some (r, s, rs)"
  shows "moves_only sv name r rs"
proof (cases "fst p")
  case (Inl e)
  with assms(2) show ?thesis by (auto simp: advance_branch_def moves_only_def Let_def split: prod.splits)
next
  case (Inr c)
  let ?kv = "cl_refs_kv (sv_call sv)" and ?old = "cl_refs (sv_call sv)"
  obtain u rs1 where u: "branches_update (source_of (sv_call sv) (store_of (sv_call sv) (snd p))) ?kv name (cm_id c) ?old = (u, rs1)"
    by force
  with assms(2) Inr have r: "rs = rs1" "r = (case u of Inl e \<Rightarrow> Inl e | Inr _ \<Rightarrow> Inr c)"
    by (auto simp: advance_branch_def Let_def split: sum.splits prod.splits)
  have "case u of Inl _ \<Rightarrow> rs1 = ?old | Inr _ \<Rightarrow> rs1 = set_branch_commit_id ?kv name (cm_id c) ?old"
    using u by (auto simp: branches_update_def create_branch_def sbind_def slift_def split: sum.splits if_splits option.splits)
  then show ?thesis using assms(1) unfolding r by (cases u) (auto simp: moves_only_def ref_defs)
qed

lemma server_merges_move_one_branch:
  assumes "kv_lawful (cl_refs_kv (sv_call sv))"
  shows "merge_into_base sv merge_branch base_branch s = Some (r, s', rs) \<Longrightarrow> moves_only sv (br_name base_branch) r rs"
    and "merge_commit_into_base_on_branch sv merge base branch s = Some (r, s', rs) \<Longrightarrow> moves_only sv (br_name branch) r rs"
proof -
  have fail: "moves_only sv name r (cl_refs (sv_call sv))" if "Inl e = r" for name e and r :: "commit res"
    using that [symmetric] by (simp add: moves_only_def)
  show "merge_into_base sv merge_branch base_branch s = Some (r, s', rs) \<Longrightarrow> moves_only sv (br_name base_branch) r rs"
    using advance_branch_moves [OF assms]
    by (auto simp: merge_into_base_def Let_def intro: fail split: if_splits sum.splits option.splits)
  show "merge_commit_into_base_on_branch sv merge base branch s = Some (r, s', rs) \<Longrightarrow> moves_only sv (br_name branch) r rs"
    using advance_branch_moves [OF assms]
    by (auto simp: merge_commit_into_base_on_branch_def Let_def intro: fail split: if_splits sum.splits option.splits)
qed

end
