(* ===== verification/Version_Store.thy ===== *)
theory Version_Store
  imports Node_Db_Props
begin

text \<open>
  The contents of the files (\<open>storage/version_store.rs\<close>, \<open>storage/local.rs\<close>): every version of a
  file is kept once, under its content hash, as \<open><root>/<2 characters>/<rest>/data\<close>; an upload
  in pieces leaves them as \<open>chunks/<offset>/chunk\<close> beside it until they are combined. The store
  works on the file system of \<open>Node_Db\<close>. The order in which the system lists a directory is an
  argument of the definitions that list one.
\<close>

section \<open>Directories and files\<close>

definition dir_names :: "path \<Rightarrow> fs \<Rightarrow> string set" where
  "dir_names p f =
     (comp_name \<circ> last) ` Set.filter (\<lambda>q. q \<noteq> [] \<and> butlast q = p \<and> comp_rank (last q) = 3) (fs_dirs f)"

text \<open>The directories in a directory, as \<open>read_dir\<close> lists them: in an order of the system's choice.\<close>

type_synonym listing_order = "string list \<Rightarrow> string list"

definition read_dirs :: "listing_order \<Rightarrow> path \<Rightarrow> fs \<Rightarrow> string list res" where
  "read_dirs order p f =
     (if p \<notin> fs_dirs f then Inl (IO ''No such file or directory'')
      else Inr (order (sorted_list_of_set (dir_names p f))))"

definition mkdir_all :: "path \<Rightarrow> (fs, unit) st" where
  "mkdir_all p f =
     (if \<exists>a \<in> set (path_ancestors p). fs_files f a \<noteq> None then (Inl (IO ''Not a directory''), f)
      else (Inr (), create_dir_all p f))"

definition remove_subtree :: "path \<Rightarrow> fs \<Rightarrow> fs" where
  "remove_subtree p f =
     f\<lparr>fs_dirs := Set.filter (\<lambda>q. \<not> path_starts_with q p) (fs_dirs f),
       fs_files := (\<lambda>q. if path_starts_with q p then None else fs_files f q)\<rparr>"

definition remove_dir_all :: "path \<Rightarrow> (fs, unit) st" where
  "remove_dir_all p f =
     (if p \<notin> fs_dirs f then (Inl (IO ''No such file or directory''), f) else (Inr (), remove_subtree p f))"

text \<open>\<open>fs::write\<close> and \<open>File::create\<close> with what is written to it: the directory must be there.\<close>

definition fs_write :: "path \<Rightarrow> byte list \<Rightarrow> (fs, unit) st" where
  "fs_write p bs f =
     (if p \<in> fs_dirs f then (Inl (IO ''Is a directory''), f)
      else if (case path_parent p of None \<Rightarrow> False | Some q \<Rightarrow> q \<noteq> [] \<and> q \<notin> fs_dirs f)
      then (Inl (IO ''No such file or directory''), f)
      else (Inr (), f\<lparr>fs_files := (fs_files f)(p \<mapsto> bs)\<rparr>))"

definition fs_read :: "path \<Rightarrow> fs \<Rightarrow> byte list res" where
  "fs_read p f = ok_or (IO ''No such file or directory'') (fs_files f p)"

definition file_size :: "path \<Rightarrow> fs \<Rightarrow> nat res" where
  "file_size p f = rbind (fs_read p f) (\<lambda>bs. Inr (length bs))"

text \<open>What an \<open>AsyncRead\<close> delivers: bytes, then its end or an error.\<close>

type_synonym reader = "byte list \<times> oxen_error option"

definition copy_reader :: "reader \<Rightarrow> path \<Rightarrow> (fs, unit) st" where
  "copy_reader reader p =
     sbind (fs_write p (fst reader)) (\<lambda>_. slift (case snd reader of None \<Rightarrow> Inr () | Some e \<Rightarrow> Inl e))"

section \<open>Offsets as file names\<close>

definition dec_digit :: "nat \<Rightarrow> char" where
  "dec_digit d = char_of (48 + d)"

fun dec_digits :: "nat \<Rightarrow> string" where
  "dec_digits n = (if n < 10 then [dec_digit n] else dec_digits (n div 10) @ [dec_digit (n mod 10)])"

declare dec_digits.simps [simp del]

definition dec_value :: "char \<Rightarrow> nat option" where
  "dec_value c = (if 48 \<le> (of_char c :: nat) \<and> (of_char c :: nat) \<le> 57 then Some (of_char c - 48) else None)"

text \<open>\<open>parse::<u64>\<close>: decimal digits after an optional plus sign, and no overflow on the way.\<close>

fun dec_loop :: "nat \<Rightarrow> string \<Rightarrow> nat option" where
  "dec_loop acc [] = Some acc"
| "dec_loop acc (c # cs) =
     (case dec_value c of
        None \<Rightarrow> None
      | Some d \<Rightarrow> if acc * 10 + d \<ge> 2 ^ 64 then None else dec_loop (acc * 10 + d) cs)"

definition parse_u64 :: "string \<Rightarrow> nat option" where
  "parse_u64 s =
     (let digits = (if s \<noteq> [] \<and> hd s = CHR ''+'' then tl s else s)
      in if digits = [] then None else dec_loop 0 digits)"

section \<open>Paths of the store\<close>

text \<open>\<open>LocalVersionStore\<close> is its root path. Slicing a text at byte 2 panics beyond its end and
  inside a character.\<close>

definition slice_ok :: "string \<Rightarrow> bool" where
  "slice_ok s \<longleftrightarrow> 2 \<le> length s \<and> (2 < length s \<longrightarrow> of_char (s ! 2) div 64 \<noteq> (2 :: nat))"

definition version_dir :: "path \<Rightarrow> string \<Rightarrow> path res" where
  "version_dir root hash =
     (if \<not> slice_ok hash then Inl (Panic ''byte index 2 is not a char boundary'')
      else Inr (join_str (join_str root (take 2 hash)) (drop 2 hash)))"

definition data_name :: component where
  "data_name = Normal ''data''"

definition chunks_name :: component where
  "chunks_name = Normal ''chunks''"

definition chunk_name :: component where
  "chunk_name = Normal ''chunk''"

definition version_path :: "path \<Rightarrow> string \<Rightarrow> path res" where
  "version_path root hash = rbind (version_dir root hash) (\<lambda>d. Inr (path_join d [data_name]))"

definition version_chunks_dir :: "path \<Rightarrow> string \<Rightarrow> path res" where
  "version_chunks_dir root hash = rbind (version_dir root hash) (\<lambda>d. Inr (path_join d [chunks_name]))"

definition version_chunk_dir :: "path \<Rightarrow> string \<Rightarrow> nat \<Rightarrow> path res" where
  "version_chunk_dir root hash offset =
     rbind (version_chunks_dir root hash) (\<lambda>d. Inr (join_str d (dec_digits offset)))"

definition version_chunk_file :: "path \<Rightarrow> string \<Rightarrow> nat \<Rightarrow> path res" where
  "version_chunk_file root hash offset =
     rbind (version_chunk_dir root hash offset) (\<lambda>d. Inr (path_join d [chunk_name]))"

section \<open>Storing and reading versions\<close>

definition init_store :: "path \<Rightarrow> (fs, unit) st" where
  "init_store root f = (if path_exists root f then (Inr (), f) else mkdir_all root f)"

text \<open>
  A reader that fails has what it gave before written (\<open>copy_reader\<close>): of the bytes that the
  buffer of \<open>tokio::io::copy\<close> still holds when it fails some may be lost, so that the file left behind can
  be shorter than here.
\<close>

definition store_version_from_reader :: "path \<Rightarrow> string \<Rightarrow> reader \<Rightarrow> (fs, unit) st" where
  "store_version_from_reader root hash reader =
     sbind (slift (version_dir root hash)) (\<lambda>version_dir.
     sbind (mkdir_all version_dir) (\<lambda>_ f.
       let version_path = path_join version_dir [data_name]
       in if path_exists version_path f then (Inr (), f) else copy_reader reader version_path f))"

definition store_version :: "path \<Rightarrow> string \<Rightarrow> byte list \<Rightarrow> (fs, unit) st" where
  "store_version root hash data =
     sbind (slift (version_dir root hash)) (\<lambda>version_dir.
     sbind (mkdir_all version_dir) (\<lambda>_ f.
       let version_path = path_join version_dir [data_name]
       in if path_exists version_path f then (Inr (), f) else fs_write version_path data f))"

text \<open>A derived file is written over an older one.\<close>

definition store_version_derived :: "path \<Rightarrow> string \<Rightarrow> string \<Rightarrow> byte list \<Rightarrow> (fs, unit) st" where
  "store_version_derived root hash derived_filename derived_data =
     sbind (slift (version_dir root hash)) (\<lambda>dir.
     sbind (\<lambda>f. if path_exists dir f then (Inr (), f) else mkdir_all dir f) (\<lambda>_.
       fs_write (join_str dir derived_filename) derived_data))"

definition get_version_size :: "path \<Rightarrow> string \<Rightarrow> fs \<Rightarrow> nat res" where
  "get_version_size root hash f = rbind (version_path root hash) (\<lambda>p. file_size p f)"

definition get_version :: "path \<Rightarrow> string \<Rightarrow> fs \<Rightarrow> byte list res" where
  "get_version root hash f = rbind (version_path root hash) (\<lambda>p. fs_read p f)"

definition get_version_derived_size :: "path \<Rightarrow> string \<Rightarrow> string \<Rightarrow> fs \<Rightarrow> nat res" where
  "get_version_derived_size root hash name f =
     rbind (version_dir root hash) (\<lambda>d. file_size (join_str d name) f)"

text \<open>A stream is the bytes it will deliver.\<close>

definition get_version_stream :: "path \<Rightarrow> string \<Rightarrow> fs \<Rightarrow> byte list res" where
  "get_version_stream root hash f = rbind (version_path root hash) (\<lambda>p. fs_read p f)"

definition get_version_derived_stream :: "path \<Rightarrow> string \<Rightarrow> string \<Rightarrow> fs \<Rightarrow> byte list res" where
  "get_version_derived_stream root hash name f =
     rbind (version_dir root hash) (\<lambda>d. fs_read (join_str d name) f)"

definition derived_version_exists :: "path \<Rightarrow> string \<Rightarrow> string \<Rightarrow> fs \<Rightarrow> bool res" where
  "derived_version_exists root hash name f =
     rbind (version_dir root hash) (\<lambda>d. Inr (fs_files f (join_str d name) \<noteq> None))"

definition copy_version_to_path :: "path \<Rightarrow> string \<Rightarrow> path \<Rightarrow> (fs, unit) st" where
  "copy_version_to_path root hash dest =
     sbind (slift (version_path root hash)) (\<lambda>version_path.
     sbind (case path_parent dest of None \<Rightarrow> slift (Inr ()) | Some parent \<Rightarrow> mkdir_all parent) (\<lambda>_ f.
       (case fs_read version_path f of Inl e \<Rightarrow> (Inl e, f) | Inr bs \<Rightarrow> fs_write dest bs f)))"

definition version_exists :: "path \<Rightarrow> string \<Rightarrow> fs \<Rightarrow> bool res" where
  "version_exists root hash f = rbind (version_path root hash) (\<lambda>p. Inr (path_exists p f))"

definition delete_version :: "path \<Rightarrow> string \<Rightarrow> (fs, unit) st" where
  "delete_version root hash =
     sbind (slift (version_dir root hash)) (\<lambda>version_dir f.
       if path_exists version_dir f then remove_dir_all version_dir f else (Inr (), f))"

text \<open>\<open>list_versions\<close>: the names of the two levels joined, sorted by their bytes.\<close>

definition list_versions :: "listing_order \<Rightarrow> path \<Rightarrow> fs \<Rightarrow> string list res" where
  "list_versions order root f =
     rbind (read_dirs order root f) (\<lambda>tops.
     rbind (rmap (\<lambda>top. rbind (read_dirs order (root @ [Normal top]) f) (\<lambda>subs.
         Inr (map (\<lambda>sub. top @ sub) subs))) tops) (\<lambda>versions.
       Inr (sort (concat versions))))"

section \<open>Chunks\<close>

definition store_version_chunk :: "path \<Rightarrow> string \<Rightarrow> nat \<Rightarrow> byte list \<Rightarrow> (fs, unit) st" where
  "store_version_chunk root hash offset data =
     sbind (slift (version_chunk_dir root hash offset)) (\<lambda>chunk_dir.
     sbind (mkdir_all chunk_dir) (\<lambda>_ f.
       let chunk_path = path_join chunk_dir [chunk_name]
       in if path_exists chunk_path f then (Inr (), f) else fs_write chunk_path data f))"

text \<open>\<open>get_version_chunk\<close> with its 64-bit sum; the file is read at the offset, all of \<open>len\<close> (the source's \<open>size\<close>) or none.\<close>

definition get_version_chunk :: "path \<Rightarrow> string \<Rightarrow> u64 \<Rightarrow> u64 \<Rightarrow> fs \<Rightarrow> byte list res" where
  "get_version_chunk root hash offset len f =
     rbind (version_path root hash) (\<lambda>p.
     rbind (fs_read p f) (\<lambda>content.
       let file_len = length content
       in if unat offset \<ge> file_len then Inl (IO ''beyond end of file'')
          else if unat offset + unat len \<ge> 2 ^ 64 then Inl (Panic ''attempt to add with overflow'')
          else if unat offset + unat len > file_len then Inl (IO ''beyond end of file'')
          else Inr (take (min (unat len) (file_len - unat offset)) (drop (unat offset) content))))"

definition list_version_chunks :: "listing_order \<Rightarrow> path \<Rightarrow> string \<Rightarrow> fs \<Rightarrow> nat list res" where
  "list_version_chunks order root hash f =
     rbind (version_chunks_dir root hash) (\<lambda>chunk_dir.
     rbind (read_dirs order chunk_dir f) (\<lambda>names.
       Inr (sort (List.map_filter parse_u64 names))))"

text \<open>\<open>combine_version_chunks\<close> empties the data file before it looks for the chunks.\<close>

definition append_chunk :: "path \<Rightarrow> string \<Rightarrow> path \<Rightarrow> nat \<Rightarrow> (fs, unit) st" where
  "append_chunk root hash output_file chunk_offset =
     sbind (slift (version_chunk_file root hash chunk_offset)) (\<lambda>chunk_path f.
       case fs_read chunk_path f of
         Inl e \<Rightarrow> (Inl e, f)
       | Inr bs \<Rightarrow> (Inr (), f\<lparr>fs_files := (fs_files f)(output_file \<mapsto> file_content output_file f @ bs)\<rparr>))"

definition combine_version_chunks :: "listing_order \<Rightarrow> path \<Rightarrow> string \<Rightarrow> (fs, unit) st" where
  "combine_version_chunks order root hash =
     sbind (slift (version_path root hash)) (\<lambda>output_file.
     sbind (fs_write output_file []) (\<lambda>_.
     sbind (\<lambda>f. (list_version_chunks order root hash f, f)) (\<lambda>chunks.
     sbind (sfor (append_chunk root hash output_file) chunks) (\<lambda>_.
     sbind (slift (version_chunks_dir root hash)) (\<lambda>chunks_dir f.
       if path_exists chunks_dir f then remove_dir_all chunks_dir f else (Inr (), f))))))"

section \<open>Cleaning\<close>

record clean_stats =
  scanned_objects :: nat
  corrupted_objects :: nat
  io_errors :: nat
  deleted_objects :: nat

text \<open>
  \<open>clean_corrupted_versions\<close>. Each prefix directory is handled by a task of its own; the tasks
  work on disjoint directories and on counters they only add to, so the model runs them one after
  the other. \<open>hash_buffer\<close> is the content hash (\<open>xxh3\<close>) as a number, \<open>strays\<close> the number of entries
  of the root that are no directories. Removing a directory that is there succeeds, as everywhere in
  this model of the disk.
\<close>

definition clean_entry :: "(byte list \<Rightarrow> merkle_hash) \<Rightarrow> bool \<Rightarrow> path \<Rightarrow> string \<Rightarrow> string \<Rightarrow> clean_stats \<times> fs \<Rightarrow> clean_stats \<times> fs" where
  "clean_entry hash_buffer dry_run root prefix_name suffix_name = (\<lambda>(s, f).
     let suffix_path = root @ [Normal prefix_name, Normal suffix_name];
         removed = remove_dir_all suffix_path f
     in case fs_read (path_join suffix_path [data_name]) f of
          Inl _ \<Rightarrow>
            (let s1 = s\<lparr>io_errors := io_errors s + 1\<rparr>
             in if dry_run then (s1, f)
                else if fst removed = Inr () then (s1\<lparr>deleted_objects := deleted_objects s1 + 1\<rparr>, snd removed)
                else (s1, snd removed))
        | Inr data \<Rightarrow>
            (let s1 = s\<lparr>scanned_objects := scanned_objects s + 1\<rparr>
             in if merkle_hash_to_string (hash_buffer data) = prefix_name @ suffix_name then (s1, f)
                else let s2 = s1\<lparr>corrupted_objects := corrupted_objects s1 + 1\<rparr>
                     in if dry_run then (s2, f)
                        else if fst removed = Inr () then (s2\<lparr>deleted_objects := deleted_objects s2 + 1\<rparr>, snd removed)
                        else (s2\<lparr>io_errors := io_errors s2 + 1\<rparr>, snd removed)))"

definition clean_prefix ::
  "(byte list \<Rightarrow> merkle_hash) \<Rightarrow> listing_order \<Rightarrow> bool \<Rightarrow> path \<Rightarrow> string \<Rightarrow> clean_stats \<times> fs \<Rightarrow> clean_stats \<times> fs" where
  "clean_prefix hash_buffer order dry_run root prefix_name = (\<lambda>(s, f).
     case read_dirs order (root @ [Normal prefix_name]) f of
       Inl _ \<Rightarrow> (s\<lparr>io_errors := io_errors s + 1\<rparr>, f)
     | Inr suffixes \<Rightarrow> fold (clean_entry hash_buffer dry_run root prefix_name) suffixes (s, f))"

definition clean_corrupted_versions ::
  "(byte list \<Rightarrow> merkle_hash) \<Rightarrow> listing_order \<Rightarrow> nat \<Rightarrow> path \<Rightarrow> bool \<Rightarrow> (fs, clean_stats) st" where
  "clean_corrupted_versions hash_buffer order strays root dry_run f =
     (case read_dirs order root f of
        Inl e \<Rightarrow> (Inl e, f)
      | Inr prefixes \<Rightarrow>
          (let (s, f') = fold (clean_prefix hash_buffer order dry_run root) prefixes
                 (\<lparr>scanned_objects = 0, corrupted_objects = 0, io_errors = strays, deleted_objects = 0\<rparr>, f)
           in (Inr s, f')))"

section \<open>The store of a repository\<close>

record 's version_ops =
  vo_list :: "'s \<Rightarrow> string list res"
  vo_size :: "string \<Rightarrow> 's \<Rightarrow> nat res"
  vo_delete :: "string \<Rightarrow> ('s, unit) st"

text \<open>The operations of the \<open>VersionStore\<close> trait that pruning calls, for a \<open>LocalVersionStore\<close>.\<close>

definition local_ops :: "listing_order \<Rightarrow> path \<Rightarrow> fs version_ops" where
  "local_ops order root =
     \<lparr>vo_list = list_versions order root, vo_size = get_version_size root, vo_delete = delete_version root\<rparr>"

text \<open>\<open>create_version_store\<close> for the local store: where its root is.\<close>

definition local_root :: "path \<Rightarrow> path option \<Rightarrow> path" where
  "local_root repo_dir opts_path =
     (case opts_path of
        Some p \<Rightarrow> if path_starts_with p [Normal ''.oxen''] then path_join repo_dir p else p
      | None \<Rightarrow> repo_dir @ [Normal ''.oxen'', Normal ''versions'', Normal ''files''])"

end
