(* ===== verification/Prune.thy ===== *)
theory Prune
  imports Version_Store Commit_History Tree_Loader
begin

text \<open>
  Garbage collection (\<open>core/v_latest/prune.rs\<close>): the nodes and file versions that the trees of the
  listed commits use are collected, then every other node directory and every other version is
  removed. The node database is a directory of two levels, like the version store. Node trees are
  read through the answers of the disk (\<open>disk_store\<close>), as everywhere; what opening the nodes leaves on
  the disk is \<open>after_reading\<close>.
\<close>

record prune_stats =
  nodes_scanned :: nat
  nodes_kept :: nat
  nodes_removed :: nat
  versions_scanned :: nat
  versions_kept :: nat
  versions_removed :: nat
  bytes_freed :: nat

definition prune_stats_new :: prune_stats where
  "prune_stats_new = \<lparr>nodes_scanned = 0, nodes_kept = 0, nodes_removed = 0, versions_scanned = 0, versions_kept = 0,
     versions_removed = 0, bytes_freed = 0\<rparr>"

section \<open>Collecting\<close>

text \<open>\<open>{:032x}\<close>: the hexadecimal text, padded with zeros to 32 characters.\<close>

definition padded_hex :: "merkle_hash \<Rightarrow> string" where
  "padded_hex h = (let s = merkle_hash_to_string h in replicate (32 - length s) CHR ''0'' @ s)"

type_synonym references = "merkle_hash set \<times> string set"

definition file_references :: "e_merkle_tree_node \<Rightarrow> string set" where
  "file_references n =
     (case n of
        EFile f \<Rightarrow> insert (merkle_hash_to_string (fn_hash f)) (padded_hex ` set (fd_chunk_hashes (file_data f)))
      | _ \<Rightarrow> {})"

fun collect_node_hashes :: "merkle_tree_node \<Rightarrow> references \<Rightarrow> references" where
  "collect_node_hashes (MTNode h n p cs) (nodes, versions) =
     fold collect_node_hashes cs (insert h nodes, versions \<union> file_references n)"

definition collect_referenced_hashes ::
  "node_store \<Rightarrow> nat \<Rightarrow> 'c count_kv \<Rightarrow> 'd ref_kv \<Rightarrow> 'd refs \<Rightarrow> references loop" where
  "collect_referenced_hashes st fuel ckv kv rs =
     lbind (Commit_History.list_all (get_by_hash st fuel) ckv kv rs) (\<lambda>commits.
       Some (rfold (\<lambda>commit refs.
         rbind (root_with_children st fuel commit) (\<lambda>r.
           Inr (case r of Some root \<Rightarrow> collect_node_hashes root refs | None \<Rightarrow> refs))) commits ({}, {})))"

text \<open>
  Loading a tree opens the node database of every inner node of it, and opening makes the directory
  when it is not there (\<open>db_open\<close>): a node that the repository does not have, as in a clone of a
  subtree, is an empty directory afterwards. The listing of the commits opens no other nodes than
  their trees have.
\<close>

fun opened_nodes :: "merkle_tree_node \<Rightarrow> merkle_hash set" where
  "opened_nodes (MTNode h n p cs) =
     (if may_have_children (MTNode h n p cs) then insert h (\<Union>c \<in> set cs. opened_nodes c) else {})"

definition opened_by_collecting :: "node_store \<Rightarrow> nat \<Rightarrow> 'c count_kv \<Rightarrow> 'd ref_kv \<Rightarrow> 'd refs \<Rightarrow> merkle_hash set" where
  "opened_by_collecting st fuel ckv kv rs =
     (case Commit_History.list_all (get_by_hash st fuel) ckv kv rs of
        Some (Inr commits) \<Rightarrow>
          (\<Union>commit \<in> set commits. case root_with_children st fuel commit of Inr (Some root) \<Rightarrow> opened_nodes root | _ \<Rightarrow> {})
      | _ \<Rightarrow> {})"

definition after_reading :: "path \<Rightarrow> merkle_hash set \<Rightarrow> fs \<Rightarrow> fs" where
  "after_reading rp opened f =
     f\<lparr>fs_dirs := fs_dirs f \<union>
         (\<Union>h \<in> Set.filter (\<lambda>h. \<not> path_exists (node_db_path rp h) f) opened. set (path_ancestors (node_db_path rp h)))\<rparr>"

section \<open>Removing nodes\<close>

definition prune_node_dir ::
  "path \<Rightarrow> merkle_hash set \<Rightarrow> bool \<Rightarrow> string \<Rightarrow> string \<Rightarrow> (prune_stats \<times> fs, unit) st" where
  "prune_node_dir rp referenced dry_run top_name sub_name = (\<lambda>(stats, f).
     let s1 = stats\<lparr>nodes_scanned := nodes_scanned stats + 1\<rparr>
     in case merkle_hash_from_str (top_name @ sub_name) of
          Inl _ \<Rightarrow> (Inr (), s1, f)
        | Inr hash \<Rightarrow>
            if hash \<in> referenced then (Inr (), s1\<lparr>nodes_kept := nodes_kept s1 + 1\<rparr>, f)
            else let s2 = s1\<lparr>nodes_removed := nodes_removed s1 + 1\<rparr>
                 in if dry_run then (Inr (), s2, f)
                    else let (r, f') = remove_dir_all (nodes_dir rp @ [Normal top_name, Normal sub_name]) f in (r, s2, f'))"

definition prune_nodes ::
  "listing_order \<Rightarrow> path \<Rightarrow> merkle_hash set \<Rightarrow> bool \<Rightarrow> (prune_stats \<times> fs, unit) st" where
  "prune_nodes order rp referenced dry_run = (\<lambda>(stats, f).
     if \<not> path_exists (nodes_dir rp) f then (Inr (), stats, f)
     else sbind (slift (read_dirs order (nodes_dir rp) f)) (sfor (\<lambda>top_name (s, g).
            sbind (slift (read_dirs order (nodes_dir rp @ [Normal top_name]) g))
              (sfor (prune_node_dir rp referenced dry_run top_name)) (s, g))) (stats, f))"

section \<open>Removing versions\<close>

text \<open>The size of a version is only for the statistics: an error is skipped, a panic is none.\<close>

definition prune_version :: "'s version_ops \<Rightarrow> string set \<Rightarrow> bool \<Rightarrow> string \<Rightarrow> (prune_stats \<times> 's, unit) st" where
  "prune_version vs referenced dry_run version_hash = (\<lambda>(stats, x).
     if version_hash \<in> referenced then (Inr (), stats\<lparr>versions_kept := versions_kept stats + 1\<rparr>, x)
     else let s1 = stats\<lparr>versions_removed := versions_removed stats + 1\<rparr>;
              delete = (\<lambda>s2. if dry_run then (Inr (), s2, x)
                else let (r, x') = vo_delete vs version_hash x in (r, s2, x'))
          in case vo_size vs version_hash x of
               Inl (Panic m) \<Rightarrow> (Inl (Panic m), s1, x)
             | Inl _ \<Rightarrow> delete s1
             | Inr num_bytes \<Rightarrow> delete (s1\<lparr>bytes_freed := bytes_freed s1 + num_bytes\<rparr>))"

definition prune_versions :: "'s version_ops \<Rightarrow> string set \<Rightarrow> bool \<Rightarrow> (prune_stats \<times> 's, unit) st" where
  "prune_versions vs referenced dry_run = (\<lambda>(stats, x).
     case vo_list vs x of
       Inl e \<Rightarrow> (Inl e, stats, x)
     | Inr all_versions \<Rightarrow>
         sfor (prune_version vs referenced dry_run) all_versions (stats\<lparr>versions_scanned := length all_versions\<rparr>, x))"

section \<open>Pruning\<close>

text \<open>The file system after collecting, when that succeeds. An error keeps the one before.\<close>

definition collected_fs ::
  "codec \<Rightarrow> path \<Rightarrow> (string \<Rightarrow> (string \<times> string) list res) \<Rightarrow> nat \<Rightarrow> 'c count_kv \<Rightarrow> 'd ref_kv \<Rightarrow> 'd refs \<Rightarrow> fs \<Rightarrow> fs" where
  "collected_fs c rp dhs fuel ckv kv rs f =
     after_reading rp (opened_by_collecting (disk_store c rp f dhs) fuel ckv kv rs) f"

text \<open>
  \<open>prune\<close> of a repository at \<open>rp\<close> with the branches \<open>rs\<close> and the version store \<open>vs\<close>. \<open>None\<close> stands for a
  listing of commits that does not end.
\<close>

definition prune_repo ::
  "codec \<Rightarrow> path \<Rightarrow> (string \<Rightarrow> (string \<times> string) list res) \<Rightarrow> nat \<Rightarrow> 'c count_kv \<Rightarrow> 'd ref_kv \<Rightarrow> 'd refs \<Rightarrow>
   listing_order \<Rightarrow> fs version_ops \<Rightarrow> bool \<Rightarrow> fs \<Rightarrow> (prune_stats res \<times> fs) option" where
  "prune_repo c rp dhs fuel ckv kv rs order vs dry_run f =
     (case collect_referenced_hashes (disk_store c rp f dhs) fuel ckv kv rs of
        None \<Rightarrow> None
      | Some (Inl e) \<Rightarrow> Some (Inl e, f)
      | Some (Inr (referenced_nodes, referenced_versions)) \<Rightarrow>
          (case sbind (prune_nodes order rp referenced_nodes dry_run)
                 (\<lambda>_. prune_versions vs referenced_versions dry_run)
                 (prune_stats_new, collected_fs c rp dhs fuel ckv kv rs f) of
             (Inl e, stats, f') \<Rightarrow> Some (Inl e, f')
           | (Inr _, stats, f') \<Rightarrow> Some (Inr stats, f')))"

end
