(* ===== verification/Version_Store_Props.thy ===== *)
theory Version_Store_Props
  imports Version_Store "HOL-Library.Multiset"
begin

text \<open>
  The version store keeps what it was given: the first content stored under a hash is what is read
  back, other versions are untouched, chunks combine to the content they were cut from, cleaning
  removes exactly the versions whose content has another hash. \<open>version_laws\<close> is the contract of the
  trait that pruning relies on, interpreted for the local store.
\<close>

section \<open>Paths\<close>

lemma path_ancestors_self [simp]: "p \<in> set (path_ancestors p)"
  by (subst path_ancestors.simps) simp

lemma path_ancestors_iff:
  "a \<in> set (path_ancestors p) \<longleftrightarrow> a = p \<or> (\<exists>q. path_parent p = Some q \<and> a \<in> set (path_ancestors q))"
  by (subst path_ancestors.simps) (auto split: option.splits)

lemma path_ancestors_prefix: "a \<in> set (path_ancestors p) \<Longrightarrow> path_starts_with p a"
proof (induction p rule: path_ancestors.induct)
  case (1 p)
  from 1(2) consider "a = p" | q where "path_parent p = Some q" "a \<in> set (path_ancestors q)"
    using path_ancestors_iff [of a p] by blast
  then show ?case
  proof cases
    case 2
    then have "p \<noteq> []" "q = butlast p" by (auto simp: path_parent_def split: if_splits)
    then have p: "p = q @ [last p]" by simp
    have "take (length a) q = a" using 1(1) [OF 2] by (simp add: path_starts_with_def)
    then have "take (length a) (q @ [last p]) = a" by (metis append_take_drop_id append.assoc append_eq_conv_conj)
    with p show ?thesis by (simp add: path_starts_with_def)
  qed (simp add: path_starts_with_def)
qed

lemma path_ancestors_parent: "a @ [Normal s] \<in> set (path_ancestors p) \<Longrightarrow> a \<in> set (path_ancestors p)"
proof (induction p rule: path_ancestors.induct)
  case (1 p)
  from 1(2) consider "a @ [Normal s] = p" | q where "path_parent p = Some q" "a @ [Normal s] \<in> set (path_ancestors q)"
    using path_ancestors_iff [of "a @ [Normal s]" p] by blast
  then show ?case
  proof cases
    case 1
    then have "path_ancestors p = p # path_ancestors a"
      by (subst path_ancestors.simps) (auto simp: path_parent_def)
    then show ?thesis by simp
  next
    case 2
    from 1(1) [OF 2] 2(1) show ?thesis by (subst path_ancestors.simps) simp
  qed
qed

lemma path_starts_with_refl [simp]: "path_starts_with p p"
  by (simp add: path_starts_with_def)

lemma path_starts_with_append: "path_starts_with q p \<longleftrightarrow> (\<exists>r. q = p @ r)"
  unfolding path_starts_with_def by (metis append_eq_conv_conj append_take_drop_id)

lemma path_starts_with_trans: "path_starts_with r q \<Longrightarrow> path_starts_with q p \<Longrightarrow> path_starts_with r p"
  by (auto simp: path_starts_with_append)

lemma path_starts_with_snoc: "path_starts_with (q @ [x]) p \<longleftrightarrow> path_starts_with q p \<or> p = q @ [x]"
  by (auto simp: path_starts_with_append) (metis butlast_append butlast_snoc)

section \<open>Well-formed file systems\<close>

text \<open>Finitely many directories, each in a directory that is there, with names of one component.\<close>

definition fs_wf :: "fs \<Rightarrow> bool" where
  "fs_wf f \<longleftrightarrow> finite (fs_dirs f) \<and>
     (\<forall>p s. p @ [Normal s] \<in> fs_dirs f \<longrightarrow> p \<in> fs_dirs f \<and> valid_name s)"

lemma dir_names_iff: "s \<in> dir_names p f \<longleftrightarrow> p @ [Normal s] \<in> fs_dirs f"
proof
  assume "s \<in> dir_names p f"
  then obtain q where q: "q \<in> fs_dirs f" "q \<noteq> []" "butlast q = p" "comp_rank (last q) = 3" "s = comp_name (last q)"
    by (auto simp: dir_names_def)
  moreover have "last q = Normal s" using q(4,5) by (cases "last q") auto
  moreover have "q = butlast q @ [last q]" using q(2) by simp
  ultimately show "p @ [Normal s] \<in> fs_dirs f" by (metis (full_types))
next
  assume "p @ [Normal s] \<in> fs_dirs f"
  then show "s \<in> dir_names p f" by (force simp: dir_names_def image_iff)
qed

lemma finite_dir_names: "fs_wf f \<Longrightarrow> finite (dir_names p f)"
  by (simp add: fs_wf_def dir_names_def)

lemma finite_create_dir_all: "finite (fs_dirs f) \<Longrightarrow> finite (fs_dirs (create_dir_all p f))"
  by (simp add: create_dir_all_def)

lemma fs_wf_create_dir_all:
  assumes "fs_wf f" and "\<forall>a s. a @ [Normal s] \<in> set (path_ancestors p) \<longrightarrow> valid_name s"
  shows "fs_wf (create_dir_all p f)"
  using assms path_ancestors_parent by (auto simp: fs_wf_def create_dir_all_def)

lemma remove_subtree_sel [simp]:
  "q \<in> fs_dirs (remove_subtree p f) \<longleftrightarrow> q \<in> fs_dirs f \<and> \<not> path_starts_with q p"
  "fs_files (remove_subtree p f) q = (if path_starts_with q p then None else fs_files f q)"
  by (auto simp: remove_subtree_def)

lemma fs_wf_remove_subtree: "fs_wf f \<Longrightarrow> fs_wf (remove_subtree p f)"
proof -
  assume w: "fs_wf f"
  then have "finite (fs_dirs (remove_subtree p f))" by (simp add: fs_wf_def remove_subtree_def)
  moreover have "\<not> path_starts_with q p" if "\<not> path_starts_with (q @ [Normal s]) p" for q s
    using that by (simp add: path_starts_with_snoc)
  ultimately show ?thesis using w by (auto simp: fs_wf_def)
qed

section \<open>Listing directories\<close>

text \<open>The system lists every entry once.\<close>

definition fair_order :: "listing_order \<Rightarrow> bool" where
  "fair_order order \<longleftrightarrow> (\<forall>xs. mset (order xs) = mset xs)"

lemma fair_order_set: "fair_order order \<Longrightarrow> set (order xs) = set xs"
  by (metis fair_order_def set_mset_mset)

lemma fair_order_distinct: "fair_order order \<Longrightarrow> distinct (order xs) \<longleftrightarrow> distinct xs"
  by (metis fair_order_def mset_eq_imp_distinct_iff)

lemma read_dirs_lists:
  assumes "fair_order order" and "fs_wf f" and "p \<in> fs_dirs f"
  obtains names where "read_dirs order p f = Inr names" and "distinct names"
    and "set names = {s. p @ [Normal s] \<in> fs_dirs f}"
proof
  let ?names = "order (sorted_list_of_set (dir_names p f))"
  show "read_dirs order p f = Inr ?names" using assms(3) by (simp add: read_dirs_def)
  show "distinct ?names" using assms(1) by (simp add: fair_order_distinct)
  show "set ?names = {s. p @ [Normal s] \<in> fs_dirs f}"
    using assms(1) finite_dir_names [OF assms(2), of p] by (auto simp: fair_order_set dir_names_iff)
qed

section \<open>Versions by key\<close>

text \<open>Keys like the hexadecimal text of a hash: no separator, no dot, more than two characters.\<close>

definition plain_key :: "string \<Rightarrow> bool" where
  "plain_key k \<longleftrightarrow> slice_ok k \<and> 2 < length k \<and> CHR ''/'' \<notin> set k \<and> CHR ''.'' \<notin> set k"

definition key_dir :: "path \<Rightarrow> string \<Rightarrow> path" where
  "key_dir root k = root @ [Normal (take 2 k), Normal (drop 2 k)]"

lemma plain_part: "CHR ''/'' \<notin> set k \<Longrightarrow> CHR ''.'' \<notin> set k \<Longrightarrow> k \<noteq> [] \<Longrightarrow> valid_name k"
  by (auto simp: valid_name_def)

lemma plain_names:
  assumes "plain_key k"
  shows "valid_name (take 2 k)" and "valid_name (drop 2 k)"
proof -
  have "take 2 k \<noteq> []" using assms by (cases k) (auto simp: plain_key_def slice_ok_def)
  then show "valid_name (take 2 k)" using assms by (auto simp: plain_key_def intro!: plain_part dest: in_set_takeD)
  show "valid_name (drop 2 k)"
    using assms by (auto simp: plain_key_def intro!: plain_part dest: in_set_dropD)
qed

lemma plain_paths:
  assumes "plain_key k"
  shows "version_dir root k = Inr (key_dir root k)"
    and "version_path root k = Inr (key_dir root k @ [data_name])"
    and "version_chunks_dir root k = Inr (key_dir root k @ [chunks_name])"
  using assms plain_names [OF assms]
  by (auto simp: version_dir_def version_path_def version_chunks_dir_def key_dir_def plain_key_def data_name_def
      chunks_name_def)

lemma key_dir_inj [simp]: "key_dir root j = key_dir root k \<longleftrightarrow> j = k"
proof
  assume "key_dir root j = key_dir root k"
  then have "take 2 j @ drop 2 j = take 2 k @ drop 2 k" by (auto simp: key_dir_def simp del: append_take_drop_id split: if_splits)
  then show "j = k" by simp
qed simp

lemma key_data_inj: "key_dir root j @ [data_name] = key_dir root k @ [data_name] \<longleftrightarrow> j = k"
  by simp

lemma get_version_at: "plain_key k \<Longrightarrow> get_version root k f = fs_read (key_dir root k @ [data_name]) f"
  by (simp add: get_version_def plain_paths)

text \<open>Nothing but directories on the way to a version, and no directory in the place of its data.\<close>

definition room_for :: "path \<Rightarrow> string \<Rightarrow> fs \<Rightarrow> bool" where
  "room_for root k f \<longleftrightarrow> (\<forall>a \<in> set (path_ancestors (key_dir root k)). fs_files f a = None) \<and>
     key_dir root k @ [data_name] \<notin> fs_dirs f"

lemma create_dir_all_dirs: "fs_files f p = None \<Longrightarrow> p \<in> fs_dirs (create_dir_all p f)"
  by (auto simp: create_dir_all_def path_exists_def)

lemma create_dir_all_new: "q \<in> fs_dirs (create_dir_all p f) \<Longrightarrow> q \<in> fs_dirs f \<or> path_starts_with p q"
  by (auto simp: create_dir_all_def path_ancestors_prefix split: if_splits)

lemma not_below_self [simp]: "\<not> path_starts_with p (p @ [x])"
  by (simp add: path_starts_with_append)

lemma store_version_reader: "store_version root k data = store_version_from_reader root k (data, None)"
proof -
  have w: "fs_write p data = copy_reader (data, None) p" for p
    by (auto simp: copy_reader_def sbind_def fs_write_def fun_eq_iff split: option.splits)
  show ?thesis unfolding store_version_def store_version_from_reader_def w ..
qed

lemma store_from_reader:
  assumes "plain_key k" and "room_for root k f"
  defines "p \<equiv> key_dir root k @ [data_name]"
  shows "store_version_from_reader root k (bs, e) f =
     (case fs_files f p of
        Some old \<Rightarrow> (Inr (), create_dir_all (key_dir root k) f)
      | None \<Rightarrow> (case e of None \<Rightarrow> Inr () | Some e \<Rightarrow> Inl e,
          (create_dir_all (key_dir root k) f)\<lparr>fs_files := (fs_files f)(p \<mapsto> bs)\<rparr>))"
proof -
  let ?d = "key_dir root k" and ?f1 = "create_dir_all (key_dir root k) f"
  have mk: "mkdir_all ?d f = (Inr (), ?f1)" using assms(2) by (auto simp: mkdir_all_def room_for_def)
  have d: "?d \<in> fs_dirs ?f1"
    by (rule create_dir_all_dirs) (use assms(2) in \<open>simp add: room_for_def\<close>)
  have p: "p \<notin> fs_dirs ?f1"
    using create_dir_all_new [of p ?d f] assms(2) by (auto simp: room_for_def p_def)
  have parent: "path_parent p = Some ?d" by (simp add: p_def data_name_def)
  have join: "path_join ?d [data_name] = p" by (simp add: p_def data_name_def)
  show ?thesis
    using d p by (simp add: store_version_from_reader_def plain_paths [OF assms(1)] mk
        join Let_def path_exists_def copy_reader_def sbind_def fs_write_def parent split: option.splits)
qed

section \<open>Offsets\<close>

lemma dec_value_digit: "d < 10 \<Longrightarrow> dec_value (dec_digit d) = Some d"
  by (simp add: dec_value_def dec_digit_def)

lemma dec_digit_char: "d < 10 \<Longrightarrow> dec_digit d \<notin> {CHR ''+'', CHR ''/'', CHR ''.''}"
proof -
  assume d: "d < 10"
  have "dec_value c = None" if "c \<in> {CHR ''+'', CHR ''/'', CHR ''.''}" for c
    using that by (auto simp: dec_value_def)
  with dec_value_digit [OF d] show ?thesis by (metis option.distinct(1))
qed

lemma dec_digits_chars: "c \<in> set (dec_digits n) \<Longrightarrow> \<exists>d < 10. c = dec_digit d"
proof (induction n rule: dec_digits.induct)
  case (1 n)
  then have "c \<in> set (dec_digits (n div 10)) \<and> \<not> n < 10 \<or> c = dec_digit n \<and> n < 10 \<or> c = dec_digit (n mod 10)"
    by (subst (asm) dec_digits.simps) (auto split: if_splits)
  moreover have "n mod 10 < 10" by simp
  ultimately show ?case using 1(1) by blast
qed

lemma dec_digits_neq_Nil [simp]: "dec_digits n \<noteq> []"
  by (subst dec_digits.simps) simp

lemma valid_name_dec [simp]: "valid_name (dec_digits n)"
proof -
  have c: "c \<notin> {CHR ''+'', CHR ''/'', CHR ''.''}" if "c \<in> set (dec_digits n)" for c
  proof -
    from dec_digits_chars [OF that] obtain d where "d < 10" "c = dec_digit d" by blast
    then show ?thesis using dec_digit_char by simp
  qed
  show ?thesis
  proof (rule plain_part)
    show "CHR ''/'' \<notin> set (dec_digits n)" using c by blast
    show "CHR ''.'' \<notin> set (dec_digits n)" using c by blast
  qed simp
qed

lemma dec_loop_append: "dec_loop acc (xs @ ys) = Option.bind (dec_loop acc xs) (\<lambda>a. dec_loop a ys)"
  by (induction xs arbitrary: acc) (auto split: option.splits)

lemma dec_loop_digits: "n < 2 ^ 64 \<Longrightarrow> dec_loop 0 (dec_digits n) = Some n"
proof (induction n rule: dec_digits.induct)
  case (1 n)
  show ?case
  proof (cases "n < 10")
    case True
    then show ?thesis by (subst dec_digits.simps) (simp add: dec_value_digit)
  next
    case False
    then have "dec_loop 0 (dec_digits (n div 10)) = Some (n div 10)" using 1 by simp
    moreover have "n div 10 * 10 + n mod 10 = n" by simp
    ultimately show ?thesis using False 1(2)
      by (subst dec_digits.simps) (simp add: dec_loop_append dec_value_digit)
  qed
qed

lemma parse_dec_digits [simp]: "n < 2 ^ 64 \<Longrightarrow> parse_u64 (dec_digits n) = Some n"
proof -
  assume n: "n < 2 ^ 64"
  obtain d where "hd (dec_digits n) = dec_digit d" "d < 10" using dec_digits_chars [of "hd (dec_digits n)" n] by auto
  then have "hd (dec_digits n) \<noteq> CHR ''+''" using dec_digit_char by auto
  with n dec_loop_digits show ?thesis by (simp add: parse_u64_def)
qed

lemma dec_digits_inj: "m < 2 ^ 64 \<Longrightarrow> n < 2 ^ 64 \<Longrightarrow> dec_digits m = dec_digits n \<longleftrightarrow> m = n"
  by (metis option.inject parse_dec_digits)

section \<open>Chunks\<close>

definition chunks_dir :: "path \<Rightarrow> string \<Rightarrow> path" where
  "chunks_dir root k = key_dir root k @ [chunks_name]"

definition chunk_file :: "path \<Rightarrow> string \<Rightarrow> nat \<Rightarrow> path" where
  "chunk_file root k offset = chunks_dir root k @ [Normal (dec_digits offset), chunk_name]"

text \<open>A version of which only the chunks of a list have arrived.\<close>

definition chunks_at :: "path \<Rightarrow> string \<Rightarrow> (nat \<times> byte list) list \<Rightarrow> fs \<Rightarrow> bool" where
  "chunks_at root k cs f \<longleftrightarrow>
     finite (fs_dirs f) \<and> (\<forall>a \<in> set (path_ancestors (chunks_dir root k)). fs_files f a = None) \<and>
     (\<forall>s. chunks_dir root k @ [Normal s] \<in> fs_dirs f \<longleftrightarrow> s \<in> dec_digits ` fst ` set cs) \<and>
     (\<forall>i < 2 ^ 64. fs_files f (chunk_file root k i) = map_of cs i \<and> chunk_file root k i \<notin> fs_dirs f \<and>
        fs_files f (chunks_dir root k @ [Normal (dec_digits i)]) = None) \<and>
     key_dir root k @ [data_name] \<notin> fs_dirs f \<and> (cs \<noteq> [] \<longrightarrow> set (path_ancestors (chunks_dir root k)) \<subseteq> fs_dirs f)"

definition unused_key :: "path \<Rightarrow> string \<Rightarrow> fs \<Rightarrow> bool" where
  "unused_key root k f \<longleftrightarrow> finite (fs_dirs f) \<and> (\<forall>a \<in> set (path_ancestors (key_dir root k)). fs_files f a = None) \<and>
     (\<forall>q. path_starts_with q (key_dir root k) \<longrightarrow> q \<notin> fs_dirs f \<and> fs_files f q = None)"

lemma path_ancestors_snoc: "path_ancestors (p @ [Normal s]) = (p @ [Normal s]) # path_ancestors p"
  by (subst path_ancestors.simps) (simp add: path_parent_def)

lemma unused_chunks: "unused_key root k f \<Longrightarrow> chunks_at root k [] f"
  by (auto simp: unused_key_def chunks_at_def chunk_file_def chunks_dir_def chunks_name_def path_ancestors_snoc
      path_starts_with_append)

lemma chunk_file_inj: "i < 2 ^ 64 \<Longrightarrow> j < 2 ^ 64 \<Longrightarrow> chunk_file root k i = chunk_file root k j \<longleftrightarrow> i = j"
  by (simp add: chunk_file_def dec_digits_inj)

lemma plain_chunk_paths:
  assumes "plain_key k"
  shows "version_chunk_dir root k i = Inr (chunks_dir root k @ [Normal (dec_digits i)])"
    and "version_chunk_file root k i = Inr (chunk_file root k i)"
  using assms by (simp_all add: version_chunk_dir_def version_chunk_file_def plain_paths chunks_dir_def chunk_file_def
      chunk_name_def)

lemma store_chunk_at:
  assumes "plain_key k" and "chunks_at root k cs f" and "i < 2 ^ 64" and "i \<notin> fst ` set cs"
    and "\<forall>j \<in> fst ` set cs. j < 2 ^ 64"
  obtains f' where "store_version_chunk root k i data f = (Inr (), f')" and "chunks_at root k (cs @ [(i, data)]) f'"
    and "\<And>q. \<not> path_starts_with q (key_dir root k) \<Longrightarrow> fs_files f' q = fs_files f q"
proof -
  let ?D = "chunks_dir root k" let ?d = "?D @ [Normal (dec_digits i)]"
  let ?f1 = "create_dir_all ?d f" let ?p = "chunk_file root k i"
  have anc: "path_ancestors ?d = ?d # path_ancestors ?D" by (rule path_ancestors_snoc)
  have files: "\<forall>a \<in> set (path_ancestors ?d). fs_files f a = None"
    using assms(2,3) by (simp add: anc chunks_at_def)
  have "?d \<notin> fs_dirs f"
  proof
    assume "?d \<in> fs_dirs f"
    then obtain j where "j \<in> fst ` set cs" "dec_digits i = dec_digits j" using assms(2) unfolding chunks_at_def by blast
    with assms(3-5) show False by (metis dec_digits_inj)
  qed
  then have dirs: "fs_dirs ?f1 = fs_dirs f \<union> set (path_ancestors ?d)" using files by (simp add: create_dir_all_def path_exists_def)
  have pre: "path_starts_with ?D a" if "a \<in> set (path_ancestors ?D)" for a using that by (rule path_ancestors_prefix)
  have long: "length a \<le> length ?D" if "a \<in> set (path_ancestors ?D)" for a
    using pre [OF that] by (auto simp: path_starts_with_append)
  have p: "?p \<notin> fs_dirs ?f1" "fs_files f ?p = None"
    using assms(2,3,4) long [of ?p] by (auto simp: chunks_at_def dirs anc map_of_eq_None_iff) (simp_all add: chunk_file_def)
  have parent: "path_parent ?p = Some ?d" "path_join ?d [chunk_name] = ?p" by (simp_all add: chunk_file_def chunk_name_def path_parent_def butlast_append)
  let ?f2 = "?f1\<lparr>fs_files := (fs_files f)(?p \<mapsto> data)\<rparr>"
  have "store_version_chunk root k i data f = (Inr (), ?f2)"
    using p files by (simp add: store_version_chunk_def plain_chunk_paths [OF assms(1)] sbind_def mkdir_all_def parent
        path_exists_def fs_write_def dirs anc)
  moreover have "chunks_at root k (cs @ [(i, data)]) ?f2"
  proof -
    have "fs_files ?f2 a = None" if "a \<in> set (path_ancestors ?D)" for a
      using that files long [OF that] by (auto simp: anc) (simp add: chunk_file_def)
    moreover have "?D @ [Normal s] \<in> fs_dirs ?f2 \<longleftrightarrow> s \<in> dec_digits ` fst ` set (cs @ [(i, data)])" for s
      using assms(2) long [of "?D @ [Normal s]"] by (auto simp: chunks_at_def dirs anc)
    moreover have "fs_files ?f2 (chunk_file root k j) = map_of (cs @ [(i, data)]) j \<and> chunk_file root k j \<notin> fs_dirs ?f2 \<and>
        fs_files ?f2 (?D @ [Normal (dec_digits j)]) = None" if "j < 2 ^ 64" for j
    proof -
      have "chunk_file root k j \<noteq> ?d" "chunk_file root k j \<notin> set (path_ancestors ?D)" "?D @ [Normal (dec_digits j)] \<noteq> ?p"
        using long [of "chunk_file root k j"] by (auto simp: chunk_file_def)
      moreover have "map_of cs i = None" using assms(4) by (simp add: map_of_eq_None_iff)
      ultimately show ?thesis using assms(2) that assms(3)
        by (auto simp: chunks_at_def dirs anc chunk_file_inj map_add_def split: option.splits)
    qed
    moreover have "key_dir root k @ [data_name] \<notin> set (path_ancestors ?d)"
      using path_ancestors_prefix [of "key_dir root k @ [data_name]" ?d]
      by (auto simp: path_starts_with_append chunks_dir_def data_name_def chunks_name_def)
    then have "key_dir root k @ [data_name] \<notin> fs_dirs ?f2"
      using assms(2) by (simp add: chunks_at_def dirs)
    moreover have "set (path_ancestors ?D) \<subseteq> fs_dirs ?f2" by (auto simp: dirs anc)
    ultimately show ?thesis using assms(2) finite_create_dir_all [of f ?d] unfolding chunks_at_def by simp
  qed
  moreover have "fs_files ?f2 q = fs_files f q" if "\<not> path_starts_with q (key_dir root k)" for q
    using that by (auto simp: path_starts_with_append chunk_file_def chunks_dir_def)
  ultimately show thesis by (rule that)
qed

lemma store_chunks_at:
  assumes "plain_key k" and "chunks_at root k done f" and "distinct (map fst (done @ cs))"
    and "\<forall>j \<in> fst ` set (done @ cs). j < 2 ^ 64"
  obtains f' where "sfor (\<lambda>(i, data). store_version_chunk root k i data) cs f = (Inr (), f')"
    and "chunks_at root k (done @ cs) f'"
    and "\<And>q. \<not> path_starts_with q (key_dir root k) \<Longrightarrow> fs_files f' q = fs_files f q"
  using assms(2-4)
proof (induction cs arbitrary: "done" f thesis)
  case Nil
  from Nil.prems(2) show ?case by (intro Nil.prems(1) [of f]) simp_all
next
  case (Cons c cs)
  obtain i data where c: "c = (i, data)" by force
  have pre: "i < 2 ^ 64" "i \<notin> fst ` set done" "\<forall>j \<in> fst ` set done. j < 2 ^ 64" using Cons.prems(3,4) by (auto simp: c)
  obtain f1 where f1: "store_version_chunk root k i data f = (Inr (), f1)" "chunks_at root k (done @ [(i, data)]) f1"
      "\<And>q. \<not> path_starts_with q (key_dir root k) \<Longrightarrow> fs_files f1 q = fs_files f q"
    using store_chunk_at [OF assms(1) Cons.prems(2) pre] by metis
  show ?case
  proof (rule Cons.IH [OF _ f1(2)])
    fix f'
    assume "sfor (\<lambda>(i, data). store_version_chunk root k i data) cs f1 = (Inr (), f')"
      "chunks_at root k ((done @ [(i, data)]) @ cs) f'"
      "\<And>q. \<not> path_starts_with q (key_dir root k) \<Longrightarrow> fs_files f' q = fs_files f1 q"
    with f1(1,3) show thesis by (intro Cons.prems(1) [of f']) (simp_all add: c sbind_def)
  qed (use Cons.prems(3,4) in \<open>auto simp: c\<close>)
qed

lemma append_chunks:
  assumes "plain_key k" and "p \<notin> chunk_file root k ` set offsets"
    and "\<forall>i \<in> set offsets. fs_files f (chunk_file root k i) = Some (content i)"
  shows "sfor (append_chunk root k p) offsets (f\<lparr>fs_files := (fs_files f)(p \<mapsto> bs)\<rparr>) =
     (Inr (), f\<lparr>fs_files := (fs_files f)(p \<mapsto> bs @ concat (map content offsets))\<rparr>)"
  using assms(2,3)
proof (induction offsets arbitrary: bs)
  case (Cons i offsets)
  have "append_chunk root k p i (f\<lparr>fs_files := (fs_files f)(p \<mapsto> bs)\<rparr>) =
      (Inr (), f\<lparr>fs_files := (fs_files f)(p \<mapsto> bs @ content i)\<rparr>)"
    using Cons.prems by (auto simp: append_chunk_def plain_chunk_paths [OF assms(1)] sbind_def fs_read_def file_content_def)
  moreover have "sfor (append_chunk root k p) offsets (f\<lparr>fs_files := (fs_files f)(p \<mapsto> bs @ content i)\<rparr>) =
      (Inr (), f\<lparr>fs_files := (fs_files f)(p \<mapsto> (bs @ content i) @ concat (map content offsets))\<rparr>)"
    using Cons.prems by (intro Cons.IH) auto
  ultimately show ?case
    by (simp only: sfor.simps sbind_Inr [where m = "append_chunk root k p i"] list.map concat.simps append.assoc)
qed simp

lemma map_filter_all: "(\<And>x. x \<in> set xs \<Longrightarrow> g x \<noteq> None) \<Longrightarrow> List.map_filter g xs = map (the \<circ> g) xs"
  by (induction xs) (auto simp: List.map_filter_def)

lemma listed_chunks:
  assumes "fair_order order" and "plain_key k" and "chunks_at root k cs f" and "cs \<noteq> []"
    and "distinct (map fst cs)" and "\<forall>j \<in> fst ` set cs. j < 2 ^ 64"
  shows "list_version_chunks order root k f = Inr (sort (map fst cs))"
proof -
  let ?D = "chunks_dir root k"
  have fin: "finite (dir_names ?D f)" using assms(3) by (simp add: chunks_at_def dir_names_def)
  have D: "?D \<in> fs_dirs f" using assms(3,4) by (auto simp: chunks_at_def)
  let ?names = "order (sorted_list_of_set (dir_names ?D f))" let ?A = "fst ` set cs"
  have sub: "s \<in> dir_names ?D f \<longleftrightarrow> s \<in> dec_digits ` ?A" for s
    using assms(3) unfolding dir_names_iff chunks_at_def by blast
  then have names: "distinct ?names" "set ?names = dec_digits ` ?A"
    using assms(1) fin by (simp_all add: fair_order_distinct fair_order_set set_eq_iff)
  have parse: "parse_u64 s = Some (the (parse_u64 s)) \<and> the (parse_u64 s) \<in> ?A \<and> dec_digits (the (parse_u64 s)) = s"
    if "s \<in> set ?names" for s
  proof -
    from that names(2) obtain j where j: "j \<in> ?A" "s = dec_digits j" by blast
    with assms(6) have "j < 2 ^ 64" by blast
    then have "parse_u64 s = Some j" using j(2) by simp
    with j show ?thesis by (metis option.sel)
  qed
  then have "List.map_filter parse_u64 ?names = map (the \<circ> parse_u64) ?names"
    by (intro map_filter_all) (metis option.distinct(1))
  moreover have "sort (map (the \<circ> parse_u64) ?names) = sort (map fst cs)"
  proof (rule sorted_distinct_set_unique)
    have "inj_on (the \<circ> parse_u64) (set ?names)" by (rule inj_on_inverseI [of _ dec_digits]) (use parse in simp)
    then show "distinct (sort (map (the \<circ> parse_u64) ?names))" using names(1) by (simp add: distinct_map)
    have "(the \<circ> parse_u64) ` dec_digits ` ?A = ?A" using assms(6) by (force simp: image_iff)
    then show "set (sort (map (the \<circ> parse_u64) ?names)) = set (sort (map fst cs))" by (simp add: names(2))
  qed (use assms(5) in simp_all)
  ultimately show ?thesis
    using D by (simp add: list_version_chunks_def plain_paths [OF assms(2)] chunks_dir_def [symmetric] read_dirs_def)
qed

lemma combine_at:
  assumes "fair_order order" and "plain_key k" and "chunks_at root k cs f" and "cs \<noteq> []"
    and "distinct (map fst cs)" and "\<forall>j \<in> fst ` set cs. j < 2 ^ 64"
  shows "combine_version_chunks order root k f =
     (Inr (), remove_subtree (chunks_dir root k)
        (f\<lparr>fs_files := (fs_files f)(key_dir root k @ [data_name] \<mapsto> concat (map snd (sort_key fst cs)))\<rparr>))"
proof -
  let ?p = "key_dir root k @ [data_name]" let ?D = "chunks_dir root k"
  let ?f0 = "f\<lparr>fs_files := (fs_files f)(?p \<mapsto> [])\<rparr>"
  have anc: "path_ancestors ?D = ?D # path_ancestors (key_dir root k)"
    unfolding chunks_dir_def chunks_name_def by (rule path_ancestors_snoc)
  have dirs: "?D \<in> fs_dirs f" "key_dir root k \<in> fs_dirs f" "?p \<notin> fs_dirs f"
    using assms(3,4) by (auto simp: chunks_at_def anc)
  have parent: "path_parent ?p = Some (key_dir root k)" by (simp add: data_name_def)
  have w: "fs_write ?p [] f = (Inr (), ?f0)" using dirs by (simp add: fs_write_def parent)
  have "chunks_at root k cs ?f0"
  proof -
    have "chunk_file root k i \<noteq> ?p" "?D @ [Normal (dec_digits i)] \<noteq> ?p" for i
      by (simp_all add: chunk_file_def chunks_dir_def)
    moreover have "a \<noteq> ?p" if "a \<in> set (path_ancestors ?D)" for a
      using path_ancestors_prefix [OF that] by (auto simp: path_starts_with_append chunks_dir_def data_name_def chunks_name_def)
    ultimately show ?thesis using assms(3) unfolding chunks_at_def by (auto simp del: append_same_eq append_eq_append_conv)
  qed
  then have l: "list_version_chunks order root k ?f0 = Inr (sort (map fst cs))"
    by (rule listed_chunks [OF assms(1,2) _ assms(4-6)])
  have sorted: "sort (map fst cs) = map fst (sort_key fst cs)"
    using assms(5) by (intro sorted_distinct_set_unique) (auto simp: distinct_map inj_on_def)
  have content: "map (\<lambda>i. the (map_of cs i)) (sort (map fst cs)) = map snd (sort_key fst cs)"
    unfolding sorted map_map using assms(5) by (intro map_cong) (auto simp: map_of_eq_Some_iff)
  have files: "\<forall>i \<in> set (sort (map fst cs)). fs_files f (chunk_file root k i) = Some (the (map_of cs i))"
    using assms(3,5,6) by (auto simp: chunks_at_def map_of_eq_Some_iff)
  have "sfor (append_chunk root k ?p) (sort (map fst cs)) ?f0 =
      (Inr (), f\<lparr>fs_files := (fs_files f)(?p \<mapsto> [] @ concat (map (\<lambda>i. the (map_of cs i)) (sort (map fst cs))))\<rparr>)"
    by (rule append_chunks [OF assms(2) _ files]) (auto simp: chunk_file_def chunks_dir_def)
  then have a: "sfor (append_chunk root k ?p) (sort (map fst cs)) ?f0 =
      (Inr (), f\<lparr>fs_files := (fs_files f)(?p \<mapsto> concat (map snd (sort_key fst cs)))\<rparr>)"
    by (simp only: content append_Nil)
  show ?thesis
    using dirs(1) by (simp add: combine_version_chunks_def plain_paths [OF assms(2)] chunks_dir_def [symmetric]
        sbind_def w l a path_exists_def remove_dir_all_def)
qed

section \<open>Properties of the store\<close>

text \<open>The first content stored under a hash stays. After storing a version, reading it returns what
  was stored there before, or else the new content, and every other version reads as before.\<close>

lemma first_content_stays:
  assumes "plain_key k" and "room_for root k f" and "store_version root k data f = (r, f')"
  shows "r = Inr () \<and>
    get_version root k f' = Inr (case get_version root k f of Inr old \<Rightarrow> old | Inl _ \<Rightarrow> data) \<and>
    (\<forall>j. plain_key j \<and> j \<noteq> k \<longrightarrow> get_version root j f' = get_version root j f)"
  using assms(3) unfolding store_version_reader store_from_reader [OF assms(1,2)]
  by (auto simp: get_version_at assms(1) fs_read_def ok_or_def split: option.splits if_splits)

lemma empty_fs_sel [simp]: "fs_dirs empty_fs = {}" "fs_files empty_fs p = None"
  by (simp_all add: empty_fs_def)

lemma plain_abcd: "plain_key ''abcd''" "plain_key ''abce''"
  by (simp_all add: plain_key_def slice_ok_def)

lemma first_content_stays_witness:
  "get_version [] ''abcd'' (snd (store_version [] ''abcd'' [1, 2] empty_fs)) = Inr [1, 2]"
proof -
  have "room_for [] ''abcd'' empty_fs" by (simp add: room_for_def)
  from first_content_stays [OF plain_abcd(1) this prod.collapse [symmetric], of "[1, 2]"]
  show ?thesis by (simp add: get_version_at plain_abcd fs_read_def ok_or_def)
qed

text \<open>C30: an upload that breaks off leaves what has arrived in the place of the version. The store reports
  the error, but from then on the version exists, storing its real content changes nothing and
  reading it returns the part.\<close>

theorem interrupted_upload_stays:
  assumes "plain_key k" and "room_for root k f" and "version_exists root k f = Inr False"
    and "store_version_from_reader root k (arrived, Some e) f = (r, f')"
  shows "r = Inl e \<and> version_exists root k f' = Inr True \<and>
    (\<exists>f''. store_version root k data f' = (Inr (), f'') \<and> get_version root k f'' = Inr arrived)"
proof -
  let ?p = "key_dir root k @ [data_name]" let ?f1 = "create_dir_all (key_dir root k) f"
  have none: "fs_files f ?p = None" using assms(3) by (simp add: version_exists_def plain_paths [OF assms(1)] path_exists_def)
  then have f': "r = Inl e" "f' = ?f1\<lparr>fs_files := (fs_files f)(?p \<mapsto> arrived)\<rparr>"
    using assms(4) by (simp_all add: store_from_reader [OF assms(1,2)])
  have "?p \<notin> set (path_ancestors (key_dir root k))"
    using path_ancestors_prefix [of ?p "key_dir root k"] by auto
  moreover have "?p \<notin> fs_dirs ?f1"
    using create_dir_all_new [of ?p "key_dir root k" f] assms(2) by (auto simp: room_for_def)
  ultimately have "room_for root k f'" using assms(2) by (auto simp: room_for_def f'(2))
  then have "store_version root k data f' = (Inr (), create_dir_all (key_dir root k) f')"
    by (simp add: store_version_reader store_from_reader [OF assms(1)] f'(2))
  then show ?thesis
    by (simp add: f' version_exists_def plain_paths [OF assms(1)] path_exists_def get_version_at [OF assms(1)] fs_read_def)
qed

lemma interrupted_upload_stays_witness:
  "\<exists>f''. store_version [] ''abcd'' [1, 2] (snd (store_version_from_reader [] ''abcd'' ([1], Some (IO ''reset'')) empty_fs)) =
     (Inr (), f'') \<and> get_version [] ''abcd'' f'' = Inr [1]"
proof -
  have "room_for [] ''abcd'' empty_fs" "version_exists [] ''abcd'' empty_fs = Inr False"
    by (simp_all add: room_for_def version_exists_def plain_paths plain_abcd path_exists_def)
  from interrupted_upload_stays [OF plain_abcd(1) this prod.collapse [symmetric], of "[1]" "IO ''reset''" "[1, 2]"]
  show ?thesis by blast
qed

text \<open>C28: chunks combine to the content. Storing the chunks of a version one by one, in any order, and
  combining them leaves a version whose content is the chunks in the order of their offsets and no
  chunks, and changes no other version; the order of the directory listing does not matter.\<close>

theorem chunks_combine_in_order:
  assumes "fair_order order" and "plain_key k" and "unused_key root k f" and "cs \<noteq> []"
    and "distinct (map fst cs)" and "\<forall>i \<in> fst ` set cs. i < 2 ^ 64"
  shows "\<exists>f1 f2. sfor (\<lambda>(i, data). store_version_chunk root k i data) cs f = (Inr (), f1) \<and>
    combine_version_chunks order root k f1 = (Inr (), f2) \<and>
    get_version root k f2 = Inr (concat (map snd (sort_key fst cs))) \<and>
    list_version_chunks order root k f2 = Inl (IO ''No such file or directory'') \<and>
    (\<forall>j. plain_key j \<and> j \<noteq> k \<longrightarrow> get_version root j f2 = get_version root j f)"
proof -
  obtain f1 where f1: "sfor (\<lambda>(i, data). store_version_chunk root k i data) cs f = (Inr (), f1)" "chunks_at root k cs f1"
      "\<And>q. \<not> path_starts_with q (key_dir root k) \<Longrightarrow> fs_files f1 q = fs_files f q"
    using store_chunks_at [OF assms(2) unused_chunks [OF assms(3)], of cs] assms(5,6) by (auto simp del: map_append)
  note c = combine_at [OF assms(1,2) f1(2) assms(4-6)]
  have "\<not> path_starts_with (key_dir root k @ [data_name]) (chunks_dir root k)"
    by (auto simp: path_starts_with_append chunks_dir_def data_name_def chunks_name_def)
  moreover have "fs_files f1 (key_dir root j @ [data_name]) = fs_files f (key_dir root j @ [data_name])"
      "\<not> path_starts_with (key_dir root j @ [data_name]) (chunks_dir root k)"
    if "j \<noteq> k" for j
  proof -
    have n: "\<not> path_starts_with (key_dir root j @ [data_name]) (key_dir root k)"
      using key_dir_inj [of root j k] that by (auto simp: path_starts_with_append key_dir_def data_name_def)
    then show "fs_files f1 (key_dir root j @ [data_name]) = fs_files f (key_dir root j @ [data_name])" by (rule f1(3))
    show "\<not> path_starts_with (key_dir root j @ [data_name]) (chunks_dir root k)"
      using n by (auto simp: path_starts_with_append chunks_dir_def)
  qed
  ultimately show ?thesis
    using f1(1) c by (auto simp: get_version_at assms(2) fs_read_def list_version_chunks_def plain_paths [OF assms(2)]
        chunks_dir_def [symmetric] read_dirs_def)
qed

lemma chunks_combine_in_order_witness:
  "\<exists>f1 f2. sfor (\<lambda>(i, data). store_version_chunk [] ''abcd'' i data) [(2, [3]), (0, [1, 2])] empty_fs = (Inr (), f1) \<and>
    combine_version_chunks rev [] ''abcd'' f1 = (Inr (), f2) \<and> get_version [] ''abcd'' f2 = Inr [1, 2, 3]"
proof -
  have 1: "fair_order rev" by (simp add: fair_order_def)
  have 2: "unused_key [] ''abcd'' empty_fs" by (simp add: unused_key_def)
  have "distinct (map fst [(2 :: nat, [3 :: byte]), (0, [1, 2])])"
    "\<forall>i \<in> fst ` set [(2 :: nat, [3 :: byte]), (0, [1, 2])]. i < 2 ^ 64" by simp_all
  from chunks_combine_in_order [OF 1 plain_abcd(1) 2 _ this]
  obtain f1 f2 where "sfor (\<lambda>(i, data). store_version_chunk [] ''abcd'' i data) [(2, [3]), (0, [1, 2])] empty_fs = (Inr (), f1)"
    "combine_version_chunks rev [] ''abcd'' f1 = (Inr (), f2)"
    "get_version [] ''abcd'' f2 = Inr (concat (map snd (sort_key fst [(2 :: nat, [3]), (0, [1, 2])])))" by blast
  then show ?thesis by (intro exI [of _ f1] exI [of _ f2] conjI) (assumption | simp)+
qed

text \<open>
  Combining when no chunks are there, as a repeated request does, fails after it has emptied the data of
  the version.
\<close>

lemma combine_without_chunks_empties:
  assumes "plain_key k" and "key_dir root k \<in> fs_dirs f" and "key_dir root k @ [data_name] \<notin> fs_dirs f"
    and "chunks_dir root k \<notin> fs_dirs f"
  shows "combine_version_chunks order root k f =
     (Inl (IO ''No such file or directory''), f\<lparr>fs_files := (fs_files f)(key_dir root k @ [data_name] \<mapsto> [])\<rparr>)"
proof -
  have parent: "path_parent (key_dir root k @ [data_name]) = Some (key_dir root k)" by (simp add: data_name_def)
  show ?thesis
    using assms by (simp add: combine_version_chunks_def plain_paths sbind_def fs_write_def parent list_version_chunks_def
        chunks_dir_def read_dirs_def)
qed

section \<open>Cleaning\<close>

definition data_at :: "path \<Rightarrow> fs \<Rightarrow> string \<times> string \<Rightarrow> byte list option" where
  "data_at root f = (\<lambda>(t, s). fs_files f (root @ [Normal t, Normal s, data_name]))"

definition two_level :: "path \<Rightarrow> string \<times> string \<Rightarrow> path" where
  "two_level root = (\<lambda>(t, s). root @ [Normal t, Normal s])"

text \<open>A version directory whose data is there and has the hash its name says.\<close>

definition intact :: "(byte list \<Rightarrow> merkle_hash) \<Rightarrow> path \<Rightarrow> fs \<Rightarrow> string \<times> string \<Rightarrow> bool" where
  "intact hb root f x \<longleftrightarrow> (case data_at root f x of None \<Rightarrow> False
     | Some data \<Rightarrow> merkle_hash_to_string (hb data) = fst x @ snd x)"

definition gone :: "path \<Rightarrow> (string \<times> string) set \<Rightarrow> fs \<Rightarrow> fs" where
  "gone root B f = f\<lparr>fs_dirs := {q \<in> fs_dirs f. \<not> (\<exists>x \<in> B. path_starts_with q (two_level root x))},
     fs_files := (\<lambda>q. if \<exists>x \<in> B. path_starts_with q (two_level root x) then None else fs_files f q)\<rparr>"

definition cleaned :: "(byte list \<Rightarrow> merkle_hash) \<Rightarrow> nat \<Rightarrow> path \<Rightarrow> bool \<Rightarrow> fs \<Rightarrow> (string \<times> string) set \<Rightarrow> clean_stats \<times> fs" where
  "cleaned hb strays root dry f P =
     (\<lparr>scanned_objects = card {x \<in> P. data_at root f x \<noteq> None},
       corrupted_objects = card {x \<in> P. data_at root f x \<noteq> None \<and> \<not> intact hb root f x},
       io_errors = strays + card {x \<in> P. data_at root f x = None},
       deleted_objects = (if dry then 0 else card {x \<in> P. \<not> intact hb root f x})\<rparr>,
      gone root (if dry then {} else {x \<in> P. \<not> intact hb root f x}) f)"

lemma two_level_below [simp]: "path_starts_with (two_level root x) (two_level root y) \<longleftrightarrow> x = y"
  by (cases x; cases y) (auto simp: two_level_def path_starts_with_append)

lemma data_path_below: "path_starts_with (two_level root x @ [c]) (two_level root y) \<longleftrightarrow> x = y"
  by (cases x; cases y) (auto simp: two_level_def path_starts_with_append)

lemma gone_empty [simp]: "gone root {} f = f"
  by (simp add: gone_def)

lemma gone_insert: "remove_subtree (two_level root x) (gone root B f) = gone root (insert x B) f"
  by (rule fs.equality) (auto simp: gone_def remove_subtree_def fun_eq_iff)

lemma gone_dirs: "two_level root x \<in> fs_dirs (gone root B f) \<longleftrightarrow> two_level root x \<in> fs_dirs f \<and> x \<notin> B"
  by (auto simp: gone_def)

lemma gone_data: "x \<notin> B \<Longrightarrow> fs_files (gone root B f) (two_level root x @ [c]) = fs_files f (two_level root x @ [c])"
  by (auto simp: gone_def data_path_below)

lemma filter_insert_set: "{y. (y = x \<or> y \<in> P) \<and> Q y} = (if Q x then insert x {y \<in> P. Q y} else {y \<in> P. Q y})"
  by auto

lemma clean_entry_step:
  assumes "finite P" and "x \<notin> P" and "two_level root x \<in> fs_dirs f"
  shows "clean_entry hb dry root (fst x) (snd x) (cleaned hb strays root dry f P) = cleaned hb strays root dry f (insert x P)"
proof -
  let ?B = "if dry then {} else {x \<in> P. \<not> intact hb root f x}" let ?g = "gone root ?B f"
  have x: "root @ [Normal (fst x), Normal (snd x)] = two_level root x" by (simp add: two_level_def split_beta)
  have B: "x \<notin> ?B" using assms(2) by simp
  have read: "fs_read (path_join (two_level root x) [data_name]) ?g = ok_or (IO ''No such file or directory'') (data_at root f x)"
    using gone_data [OF B, of root f data_name]
    by (simp add: fs_read_def data_name_def) (simp add: data_at_def two_level_def split_beta data_name_def)
  have rm: "remove_dir_all (two_level root x) ?g = (Inr (), gone root (insert x ?B) f)"
    using assms(3) B by (simp add: remove_dir_all_def gone_dirs gone_insert)
  show ?thesis
  proof (cases "data_at root f x")
    case None
    then have "\<not> intact hb root f x" by (simp add: intact_def)
    with None read rm show ?thesis
      by (cases dry) (simp_all add: clean_entry_def cleaned_def x Let_def filter_insert_set assms(1,2))
  next
    case (Some data)
    have hash: "merkle_hash_to_string (hb data) = fst x @ snd x \<longleftrightarrow> intact hb root f x" by (simp add: intact_def Some)
    show ?thesis using Some read rm
      by (cases dry; cases "intact hb root f x") (simp_all add: clean_entry_def cleaned_def x Let_def filter_insert_set assms(1,2) hash)
  qed
qed

lemma clean_entries:
  assumes "finite P" and "distinct ss" and "\<forall>s \<in> set ss. (t, s) \<notin> P \<and> two_level root (t, s) \<in> fs_dirs f"
  shows "fold (clean_entry hb dry root t) ss (cleaned hb strays root dry f P) =
     cleaned hb strays root dry f (P \<union> {t} \<times> set ss)"
  using assms
proof (induction ss arbitrary: P)
  case (Cons s ss)
  have "clean_entry hb dry root t s (cleaned hb strays root dry f P) = cleaned hb strays root dry f (insert (t, s) P)"
    using clean_entry_step [of P "(t, s)" root f hb dry strays] Cons.prems by simp
  moreover have "insert (t, s) P \<union> {t} \<times> set ss = P \<union> {t} \<times> set (s # ss)" by auto
  moreover have "fold (clean_entry hb dry root t) ss (cleaned hb strays root dry f (insert (t, s) P)) =
      cleaned hb strays root dry f (insert (t, s) P \<union> {t} \<times> set ss)"
    by (rule Cons.IH) (use Cons.prems in auto)
  ultimately show ?case by simp
qed simp

definition two_level_dirs :: "path \<Rightarrow> fs \<Rightarrow> (string \<times> string) set" where
  "two_level_dirs root f = {x. two_level root x \<in> fs_dirs f}"

lemma two_level_parent: "fs_wf f \<Longrightarrow> two_level root (t, s) \<in> fs_dirs f \<Longrightarrow> root @ [Normal t] \<in> fs_dirs f"
  unfolding fs_wf_def two_level_def using append.assoc [of root "[Normal t]" "[Normal s]"] by auto

lemma top_not_below: "\<not> path_starts_with (root @ [Normal t]) (two_level root x)"
  by (cases x) (auto simp: two_level_def path_starts_with_append)

lemma fs_wf_gone: "fs_wf f \<Longrightarrow> fs_wf (gone root B f)"
  by (auto simp: fs_wf_def gone_def path_starts_with_snoc)

lemma clean_prefix_step:
  assumes "fair_order order" and "fs_wf f" and "finite P" and "root @ [Normal t] \<in> fs_dirs f" and "t \<notin> fst ` P"
  shows "clean_prefix hb order dry root t (cleaned hb strays root dry f P) =
     cleaned hb strays root dry f (P \<union> {x \<in> two_level_dirs root f. fst x = t})"
proof -
  let ?B = "if dry then {} else {x \<in> P. \<not> intact hb root f x}" let ?g = "gone root ?B f"
  have g: "root @ [Normal t] \<in> fs_dirs ?g" using assms(4) top_not_below [of root t] by (auto simp: gone_def)
  have sub: "root @ [Normal t, Normal s] \<in> fs_dirs ?g \<longleftrightarrow> (t, s) \<in> two_level_dirs root f" for s
    using gone_dirs [of root "(t, s)" ?B f] assms(5) by (force simp: two_level_def two_level_dirs_def)
  obtain ss where ss: "read_dirs order (root @ [Normal t]) ?g = Inr ss" "distinct ss"
      "set ss = {s. (root @ [Normal t]) @ [Normal s] \<in> fs_dirs ?g}"
    using read_dirs_lists [OF assms(1) fs_wf_gone [OF assms(2)] g] by blast
  have mem: "set ss = {s. (t, s) \<in> two_level_dirs root f}" using ss(3) sub by simp
  have "fold (clean_entry hb dry root t) ss (cleaned hb strays root dry f P) =
      cleaned hb strays root dry f (P \<union> {t} \<times> set ss)"
    by (rule clean_entries [OF assms(3) ss(2)]) (use assms(5) mem in \<open>force simp: two_level_dirs_def\<close>)
  moreover have "{t} \<times> set ss = {x \<in> two_level_dirs root f. fst x = t}" using mem by auto
  moreover obtain a where c: "cleaned hb strays root dry f P = (a, ?g)" by (simp add: cleaned_def)
  moreover have "clean_prefix hb order dry root t (a, ?g) = fold (clean_entry hb dry root t) ss (a, ?g)"
    using ss(1) by (simp only: clean_prefix_def split_conv sum.case)
  ultimately show ?thesis by (simp only:)
qed

lemma finite_two_level_dirs: "fs_wf f \<Longrightarrow> finite (two_level_dirs root f)"
proof -
  assume "fs_wf f"
  then have "finite (two_level root -` fs_dirs f)"
    by (intro finite_vimageI) (auto simp: fs_wf_def inj_on_def two_level_def)
  then show ?thesis by (simp add: two_level_dirs_def vimage_def)
qed

lemma clean_prefixes:
  assumes "fair_order order" and "fs_wf f" and "distinct ts" and "\<forall>t \<in> set ts. root @ [Normal t] \<in> fs_dirs f"
    and "finite P" and "fst ` P \<inter> set ts = {}"
  shows "fold (clean_prefix hb order dry root) ts (cleaned hb strays root dry f P) =
     cleaned hb strays root dry f (P \<union> {x \<in> two_level_dirs root f. fst x \<in> set ts})"
  using assms(3-6)
proof (induction ts arbitrary: P)
  case (Cons t ts)
  let ?Q = "P \<union> {x \<in> two_level_dirs root f. fst x = t}"
  have "clean_prefix hb order dry root t (cleaned hb strays root dry f P) = cleaned hb strays root dry f ?Q"
    by (rule clean_prefix_step [OF assms(1,2)]) (use Cons.prems in auto)
  moreover have "fold (clean_prefix hb order dry root) ts (cleaned hb strays root dry f ?Q) =
      cleaned hb strays root dry f (?Q \<union> {x \<in> two_level_dirs root f. fst x \<in> set ts})"
    by (rule Cons.IH) (use Cons.prems finite_two_level_dirs [OF assms(2), of root] in auto)
  moreover have "?Q \<union> {x \<in> two_level_dirs root f. fst x \<in> set ts} = P \<union> {x \<in> two_level_dirs root f. fst x \<in> set (t # ts)}"
    by auto
  ultimately show ?case by simp
qed simp

lemma clean_all:
  assumes "fair_order order" and "fs_wf f" and "root \<in> fs_dirs f"
  shows "clean_corrupted_versions hb order strays root dry f =
     (Inr (fst (cleaned hb strays root dry f (two_level_dirs root f))), snd (cleaned hb strays root dry f (two_level_dirs root f)))"
proof -
  obtain ts where ts: "read_dirs order root f = Inr ts" "distinct ts" "set ts = {t. root @ [Normal t] \<in> fs_dirs f}"
    using read_dirs_lists [OF assms] by blast
  have all: "{x \<in> two_level_dirs root f. fst x \<in> set ts} = two_level_dirs root f"
    using ts(3) two_level_parent [OF assms(2)] by (force simp: two_level_dirs_def)
  have "cleaned hb strays root dry f {} =
      (\<lparr>scanned_objects = 0, corrupted_objects = 0, io_errors = strays, deleted_objects = 0\<rparr>, f)"
    by (simp add: cleaned_def)
  with clean_prefixes [OF assms(1,2) ts(2), of root "{}" hb dry strays] ts(1,3) all
  show ?thesis by (simp add: clean_corrupted_versions_def split_beta)
qed

text \<open>C29: cleaning removes exactly the damaged versions. It never fails on a store whose root is there;
  afterwards a version directory is left if and only if it was there and its data has the hash its
  name says, every file outside the removed directories is as it was, and as many directories are
  reported deleted. A dry run reports the same damage and changes nothing.\<close>

theorem cleaning_keeps_intact_versions:
  assumes "fair_order order" and "fs_wf f" and "root \<in> fs_dirs f"
    and "clean_corrupted_versions hb order strays root False f = (r, f')"
    and "clean_corrupted_versions hb order strays root True f = (r0, f0)"
  shows "(\<forall>x. x \<in> two_level_dirs root f' \<longleftrightarrow> x \<in> two_level_dirs root f \<and> intact hb root f x) \<and>
    (\<forall>q. (\<forall>x \<in> two_level_dirs root f. intact hb root f x \<or> \<not> path_starts_with q (two_level root x)) \<longrightarrow>
       fs_files f' q = fs_files f q) \<and>
    f0 = f \<and>
    (\<exists>s s0. r = Inr s \<and> r0 = Inr s0 \<and> deleted_objects s = card (two_level_dirs root f - two_level_dirs root f') \<and>
       deleted_objects s0 = 0 \<and> scanned_objects s0 = scanned_objects s \<and> corrupted_objects s0 = corrupted_objects s \<and>
       io_errors s0 = io_errors s)"
proof -
  let ?c = "\<lambda>dry. cleaned hb strays root dry f (two_level_dirs root f)"
  have c: "r = Inr (fst (?c False))" "f' = snd (?c False)" "r0 = Inr (fst (?c True))" "f0 = snd (?c True)"
    using assms(4,5) unfolding clean_all [OF assms(1-3)] by simp_all
  then have f': "f' = gone root {x \<in> two_level_dirs root f. \<not> intact hb root f x} f" and f0: "f0 = f"
    by (simp_all add: cleaned_def)
  have mem: "x \<in> two_level_dirs root f' \<longleftrightarrow> x \<in> two_level_dirs root f \<and> intact hb root f x" for x
    by (auto simp: two_level_dirs_def f' gone_dirs)
  then have "two_level_dirs root f - two_level_dirs root f' = {x \<in> two_level_dirs root f. \<not> intact hb root f x}" by auto
  moreover have "fs_files f' q = fs_files f q"
    if "\<forall>x \<in> two_level_dirs root f. intact hb root f x \<or> \<not> path_starts_with q (two_level root x)" for q
    using that by (auto simp: f' gone_def)
  ultimately show ?thesis using mem f0 c(1,3) by (simp add: cleaned_def)
qed

text \<open>A store with one good and one damaged version.\<close>

definition two_versions :: fs where
  "two_versions = \<lparr>fs_dirs = {[], [Normal ''ab''], [Normal ''ab'', Normal ''cd''], [Normal ''ab'', Normal ''ce'']},
     fs_files = [[Normal ''ab'', Normal ''cd'', data_name] \<mapsto> [1], [Normal ''ab'', Normal ''ce'', data_name] \<mapsto> [2]]\<rparr>"

definition sample_hash_buffer :: "byte list \<Rightarrow> merkle_hash" where
  "sample_hash_buffer bs = (if bs = [1] then 0xabcd else 0x123)"

lemma hex_abcd: "merkle_hash_to_string 0xabcd = ''abcd''" "merkle_hash_to_string 0x123 = ''123''"
  by (simp_all add: merkle_hash_to_string_def hex_digits.simps hex_digit_def) code_simp+

lemma two_versions_wf: "fs_wf two_versions" "[] \<in> fs_dirs two_versions"
  by (auto simp: fs_wf_def two_versions_def valid_name_def append_eq_Cons_conv)

lemma two_versions_intact: "intact sample_hash_buffer [] two_versions x \<longleftrightarrow> x = (''ab'', ''cd'')"
  by (cases x) (auto simp: intact_def data_at_def two_versions_def sample_hash_buffer_def hex_abcd data_name_def)

lemma two_versions_dirs: "two_level_dirs [] two_versions = {(''ab'', ''cd''), (''ab'', ''ce'')}"
  by (auto simp: two_level_dirs_def two_level_def two_versions_def)

lemma cleaning_keeps_intact_versions_witness:
  "two_level_dirs [] (snd (clean_corrupted_versions sample_hash_buffer rev 0 [] False two_versions)) = {(''ab'', ''cd'')}"
proof -
  have "fair_order rev" by (simp add: fair_order_def)
  from cleaning_keeps_intact_versions [OF this two_versions_wf prod.collapse [symmetric] prod.collapse [symmetric],
      of sample_hash_buffer 0, THEN conjunct1]
  have left: "x \<in> two_level_dirs [] (snd (clean_corrupted_versions sample_hash_buffer rev 0 [] False two_versions)) \<longleftrightarrow>
      x \<in> two_level_dirs [] two_versions \<and> intact sample_hash_buffer [] two_versions x" for x by (rule spec)
  show ?thesis unfolding set_eq_iff left two_versions_dirs two_versions_intact by blast
qed

section \<open>The contract of the trait\<close>

text \<open>
  What pruning relies on: the listing is the set of keys, deleting a listed version removes that key
  alone and leaves the contents of the others and whatever lies outside the store alone.
\<close>

locale version_laws =
  fixes vs :: "'s version_ops" and ok :: "'s \<Rightarrow> bool" and keys :: "'s \<Rightarrow> string set"
    and content :: "'s \<Rightarrow> string \<Rightarrow> 'v" and outside :: "'s \<Rightarrow> 'w"
  assumes lists: "ok s \<Longrightarrow> \<exists>xs. vo_list vs s = Inr xs \<and> distinct xs \<and> set xs = keys s"
    and deletes: "ok s \<Longrightarrow> k \<in> keys s \<Longrightarrow> \<exists>s'. vo_delete vs k s = (Inr (), s') \<and> ok s' \<and> keys s' = keys s - {k} \<and>
      (\<forall>j. j \<noteq> k \<longrightarrow> content s' j = content s j) \<and> outside s' = outside s"
    and sizes: "ok s \<Longrightarrow> k \<in> keys s \<Longrightarrow> vo_size vs k s \<noteq> Inl (Panic m)"

text \<open>A local store whose version directories are two levels of hash text.\<close>

definition local_ok :: "path \<Rightarrow> fs \<Rightarrow> bool" where
  "local_ok root f \<longleftrightarrow> fs_wf f \<and> root \<in> fs_dirs f \<and>
     (\<forall>x \<in> two_level_dirs root f. length (fst x) = 2 \<and> plain_key (fst x @ snd x))"

definition local_keys :: "path \<Rightarrow> fs \<Rightarrow> string set" where
  "local_keys root f = (\<lambda>(t, s). t @ s) ` two_level_dirs root f"

definition local_content :: "path \<Rightarrow> fs \<Rightarrow> string \<Rightarrow> path \<Rightarrow> byte list option" where
  "local_content root f k r = fs_files f (key_dir root k @ r)"

definition fs_outside :: "path \<Rightarrow> fs \<Rightarrow> path \<Rightarrow> (bool \<times> byte list option) option" where
  "fs_outside root f q = (if path_starts_with q root then None else Some (q \<in> fs_dirs f, fs_files f q))"

lemma local_key_dir: "length t = 2 \<Longrightarrow> key_dir root (t @ s) = two_level root (t, s)"
  by (simp add: key_dir_def two_level_def)

lemma local_pairs_inj: "local_ok root f \<Longrightarrow> inj_on (\<lambda>(t, s). t @ s) (two_level_dirs root f)"
proof (rule inj_onI)
  fix x y
  assume "local_ok root f" "x \<in> two_level_dirs root f" "y \<in> two_level_dirs root f"
    and eq: "(case x of (t, s) \<Rightarrow> t @ s) = (case y of (t, s) \<Rightarrow> t @ s)"
  then have "length (fst x) = length (fst y)" by (simp add: local_ok_def)
  with eq show "x = y" by (cases x; cases y) simp
qed

lemma distinct_pairs: "distinct ts \<Longrightarrow> \<forall>t \<in> set ts. distinct (g t) \<Longrightarrow> distinct (concat (map (\<lambda>t. map (Pair t) (g t)) ts))"
  by (induction ts) (auto simp: distinct_map inj_on_def)

lemma local_lists:
  assumes "fair_order order" and "local_ok root f"
  shows "\<exists>xs. list_versions order root f = Inr xs \<and> distinct xs \<and> set xs = local_keys root f"
proof -
  have wf: "fs_wf f" "root \<in> fs_dirs f" using assms(2) by (auto simp: local_ok_def)
  obtain ts where ts: "read_dirs order root f = Inr ts" "distinct ts" "set ts = {t. root @ [Normal t] \<in> fs_dirs f}"
    using read_dirs_lists [OF assms(1) wf] by blast
  have "\<forall>t. \<exists>ss. root @ [Normal t] \<in> fs_dirs f \<longrightarrow> read_dirs order (root @ [Normal t]) f = Inr ss \<and> distinct ss \<and>
      set ss = {s. (t, s) \<in> two_level_dirs root f}"
    using read_dirs_lists [OF assms(1) wf(1), of "root @ [Normal _]"] by (simp add: two_level_dirs_def two_level_def) metis
  then obtain subs where subs: "\<And>t. root @ [Normal t] \<in> fs_dirs f \<Longrightarrow> read_dirs order (root @ [Normal t]) f = Inr (subs t) \<and>
      distinct (subs t) \<and> set (subs t) = {s. (t, s) \<in> two_level_dirs root f}" by metis
  let ?vs = "concat (map (\<lambda>t. map (\<lambda>s. t @ s) (subs t)) ts)"
  have r: "rmap (\<lambda>top. rbind (read_dirs order (root @ [Normal top]) f) (\<lambda>subs. Inr (map (\<lambda>sub. top @ sub) subs))) ts =
      Inr (map (\<lambda>t. map (\<lambda>s. t @ s) (subs t)) ts)"
    by (rule rmap_Inr_map) (use subs ts(3) in simp)
  have pairs: "set (concat (map (\<lambda>t. map (Pair t) (subs t)) ts)) = two_level_dirs root f"
    using subs ts(3) two_level_parent [OF wf(1)] by (auto simp: two_level_dirs_def) blast
  have "distinct (concat (map (\<lambda>t. map (Pair t) (subs t)) ts))"
    using ts(2,3) subs by (intro distinct_pairs) simp_all
  moreover have "?vs = map (\<lambda>(t, s). t @ s) (concat (map (\<lambda>t. map (Pair t) (subs t)) ts))"
    by (simp add: map_concat comp_def)
  ultimately have "distinct ?vs" "set ?vs = local_keys root f"
    using pairs local_pairs_inj [OF assms(2)] by (simp_all only: distinct_map set_map local_keys_def)
  then show ?thesis using ts(1) r by (simp add: list_versions_def)
qed

lemma local_deletes:
  assumes "local_ok root f" and "k \<in> local_keys root f"
  shows "delete_version root k f = (Inr (), remove_subtree (key_dir root k) f)"
    and "local_ok root (remove_subtree (key_dir root k) f)"
    and "local_keys root (remove_subtree (key_dir root k) f) = local_keys root f - {k}"
    and "j \<noteq> k \<Longrightarrow> local_content root (remove_subtree (key_dir root k) f) j = local_content root f j"
    and "fs_outside root (remove_subtree (key_dir root k) f) = fs_outside root f"
proof -
  obtain t s where x: "(t, s) \<in> two_level_dirs root f" "k = t @ s" using assms(2) by (auto simp: local_keys_def)
  then have plain: "length t = 2" "plain_key k" using assms(1) by (auto simp: local_ok_def)
  then have dir: "key_dir root k = two_level root (t, s)" by (simp add: x(2) local_key_dir)
  show "delete_version root k f = (Inr (), remove_subtree (key_dir root k) f)"
    using x(1) by (simp add: delete_version_def plain_paths [OF plain(2)] dir path_exists_def remove_dir_all_def two_level_dirs_def)
  have vd: "two_level_dirs root (remove_subtree (key_dir root k) f) = two_level_dirs root f - {(t, s)}"
    by (auto simp: two_level_dirs_def dir)
  have "\<not> path_starts_with root (key_dir root k)" by (auto simp: path_starts_with_append key_dir_def)
  with vd show "local_ok root (remove_subtree (key_dir root k) f)"
    using assms(1) fs_wf_remove_subtree by (auto simp: local_ok_def)
  show "local_keys root (remove_subtree (key_dir root k) f) = local_keys root f - {k}"
    using inj_on_image_set_diff [OF local_pairs_inj [OF assms(1)], of "two_level_dirs root f" "{(t, s)}"] x(1)
    by (simp only: local_keys_def vd) (simp add: x(2))
  show "j \<noteq> k \<Longrightarrow> local_content root (remove_subtree (key_dir root k) f) j = local_content root f j"
    by (auto simp: local_content_def fun_eq_iff path_starts_with_append) (metis append_eq_append_conv key_dir_inj length_append key_dir_def length_Cons)
  show "fs_outside root (remove_subtree (key_dir root k) f) = fs_outside root f"
    using path_starts_with_trans [of _ "key_dir root k" root]
    by (auto simp: fs_outside_def fun_eq_iff) (auto simp: path_starts_with_append key_dir_def)
qed

lemma local_sizes: "local_ok root f \<Longrightarrow> k \<in> local_keys root f \<Longrightarrow> get_version_size root k f \<noteq> Inl (Panic m)"
  by (auto simp: local_ok_def local_keys_def get_version_size_def plain_paths file_size_def fs_read_def ok_or_def
      split: option.splits)

interpretation local_store: version_laws "local_ops order root" "\<lambda>f. fair_order order \<and> local_ok root f" "local_keys root"
    "local_content root" "fs_outside root" for order root
  using local_lists local_deletes local_sizes by unfold_locales (auto simp: local_ops_def)

end
