(* ===== verification/Prune_Props.thy ===== *)
theory Prune_Props
  imports Prune Version_Store_Props Tree_Loader_Props Merkle_Tree_Props
begin

text \<open>
  Pruning is safe and exact: what the trees of the listed commits use reads afterwards as before, every
  other node directory and version is gone, the statistics count them, and a dry run reports the
  same numbers and removes nothing.
\<close>

section \<open>Reads that stay within a tree\<close>

lemma smap_results:
  assumes "smap g xs s = (Inr ys, u)" and "x \<in> set xs"
  obtains y v w where "y \<in> set ys" and "g x v = (Inr y, w)"
  using assms
proof (induction xs arbitrary: ys s thesis)
  case (Cons z xs)
  then obtain y t zs where y: "g z s = (Inr y, t)" "smap g xs t = (Inr zs, u)" "ys = y # zs"
    by (auto simp: sbind_eq_Inr)
  show ?case
  proof (cases "x = z")
    case True
    with y show thesis by (intro Cons.prems(1) [of y]) auto
  next
    case False
    with Cons.prems(3) have "x \<in> set xs" by simp
    with Cons.IH [OF _ y(2)] y(3) Cons.prems(1) show thesis by (metis list.set_intros(2))
  qed
qed simp

text \<open>
  Where a whole load of a node succeeds, every other load from it, to any depth and with any base,
  reads only nodes of the loaded tree.
\<close>

lemma load_children_within:
  assumes "load_children st None (-1) k trav0 node s0 = (Inr t, u0)"
    and "\<And>h. h \<in> t_hash ` set (tree_nodes t) \<Longrightarrow> st_children st' h = st_children st h"
  shows "load_children st' base req k trav node s = load_children st base req k trav node s"
  using assms
proof (induction k arbitrary: trav0 node s0 t u0 trav s)
  case (Suc k)
  show ?case
  proof (cases "may_have_children node")
    case True
    let ?step = "\<lambda>st base req trav (_, child). if may_have_children child \<and> descends req trav child
      then load_children st base req k (child_depth trav child) child else slift (Inr child)"
    obtain children cs where cs: "st_children st (t_hash node) = Inr children" "t = push_children node cs"
      and m: "smap (?step st None (-1) trav0) children (note_unique (t_hash node) s0) = (Inr cs, u0)"
      using Suc.prems(1) True by (auto simp: sbind_eq_Inr in_base_def split: sum.splits)
    have same: "st_children st' (t_hash node) = st_children st (t_hash node)"
      by (rule Suc.prems(2)) (cases node; simp add: cs(2) push_children_def)
    have below: "h \<in> t_hash ` set (tree_nodes t)" if "y \<in> set cs" "h \<in> t_hash ` set (tree_nodes y)" for y h
      using that by (cases node) (auto simp: cs(2) push_children_def)
    have step: "?step st' base req trav x v = ?step st base req trav x v" if x: "x \<in> set children" for x v
    proof -
      obtain g child where c: "x = (g, child)" by force
      show ?thesis
      proof (cases "may_have_children child \<and> descends req trav child")
        case True
        obtain y a b where y: "y \<in> set cs" "?step st None (-1) trav0 x a = (Inr y, b)" by (rule smap_results [OF m x])
        then have "load_children st None (-1) k (child_depth trav0 child) child a = (Inr y, b)" using True c by simp
        from Suc.IH [OF this Suc.prems(2) [OF below [OF y(1)]]] True c show ?thesis by simp
      qed (auto simp: c)
    qed
    then have "smap (?step st' base req trav) children = smap (?step st base req trav) children"
      by (intro smap_cong) (auto simp: fun_eq_iff)
    then show ?thesis using True by (simp add: same cs(1))
  qed simp
qed simp

lemma t_hash_loaded: "load_children st base req k trav node s = (Inr t, u) \<Longrightarrow> t_hash t = t_hash node"
  by (cases k) (auto simp: sbind_eq_Inr push_children_def split: if_splits)

text \<open>What every read function asks a disk for a hash.\<close>

definition same_node :: "codec \<Rightarrow> path \<Rightarrow> fs \<Rightarrow> fs \<Rightarrow> merkle_hash \<Rightarrow> bool" where
  "same_node c rp f f' h \<longleftrightarrow> read_view c rp f' h = read_view c rp f h \<and> db_exists rp h f' = db_exists rp h f"

lemma from_hash_own: "st_from_hash (disk_store c rp f dhs) h = Inr n \<Longrightarrow> t_hash n = h"
  by (auto simp: disk_store_def read_view_def from_hash_uncached_fst rbind_eq_Inr)

lemma read_tree_within:
  assumes "read_node (disk_store c rp f dhs) fuel h True = Inr (Some t)"
    and same: "\<And>g. g \<in> t_hash ` set (tree_nodes t) \<Longrightarrow> same_node c rp f f' g"
  shows "read_node (disk_store c rp f' dhs) fuel h recurse = read_node (disk_store c rp f dhs) fuel h recurse"
proof -
  let ?st = "disk_store c rp f dhs" and ?st' = "disk_store c rp f' dhs"
  obtain n where n: "st_exists ?st h" "st_from_hash ?st h = Inr n" "fst (load_children ?st None (-1) fuel 0 n no_sets) = Inr t"
    using assms(1) by (auto simp: read_node_def read_depth_def rbind_eq_Inr split: if_splits)
  obtain u where load: "load_children ?st None (-1) fuel 0 n no_sets = (Inr t, u)"
    using n(3) by (metis prod.collapse)
  have "t_hash t = h" using t_hash_loaded [OF load] from_hash_own [OF n(2)] by simp
  then have "h \<in> t_hash ` set (tree_nodes t)" by (cases t) auto
  with same have h: "same_node c rp f f' h" by blast
  have kids: "st_children ?st' g = st_children ?st g" if "g \<in> t_hash ` set (tree_nodes t)" for g
    using same [OF that] by (simp add: disk_store_def same_node_def)
  have "load_children ?st' None d fuel 0 n no_sets = load_children ?st None d fuel 0 n no_sets" for d
    by (rule load_children_within [OF load kids])
  then show ?thesis using n(1,2) h by (simp add: read_node_def read_depth_def disk_store_def same_node_def)
qed

section \<open>What is collected\<close>

lemma collect_node_hashes_eq:
  "collect_node_hashes t (ns, vs) =
     (ns \<union> t_hash ` set (tree_nodes t), vs \<union> (\<Union>x \<in> set (tree_nodes t). file_references (t_node x)))"
proof (induction t arbitrary: ns vs)
  case (MTNode h n p cs)
  have "fold collect_node_hashes xs (ns, vs) =
      (ns \<union> (\<Union>x \<in> set xs. t_hash ` set (tree_nodes x)),
       vs \<union> (\<Union>x \<in> set xs. \<Union>y \<in> set (tree_nodes x). file_references (t_node y)))" if "set xs \<subseteq> set cs" for xs ns vs
    using that MTNode.IH by (induction xs arbitrary: ns vs) (auto simp: Un_assoc)
  from this [of cs] show ?case by auto
qed

definition live_trees :: "node_store \<Rightarrow> nat \<Rightarrow> commit list \<Rightarrow> merkle_tree_node set" where
  "live_trees st fuel commits = {t. \<exists>commit \<in> set commits. root_with_children st fuel commit = Inr (Some t)}"

definition live_nodes :: "node_store \<Rightarrow> nat \<Rightarrow> commit list \<Rightarrow> merkle_hash set" where
  "live_nodes st fuel commits = (\<Union>t \<in> live_trees st fuel commits. t_hash ` set (tree_nodes t))"

definition live_versions :: "node_store \<Rightarrow> nat \<Rightarrow> commit list \<Rightarrow> string set" where
  "live_versions st fuel commits = (\<Union>t \<in> live_trees st fuel commits. \<Union>x \<in> set (tree_nodes t). file_references (t_node x))"

lemma collect_live:
  assumes "collect_referenced_hashes st fuel ckv kv rs = Some (Inr refs)"
    and "Commit_History.list_all (get_by_hash st fuel) ckv kv rs = Some (Inr commits)"
  shows "refs = (live_nodes st fuel commits, live_versions st fuel commits)"
    and "commit \<in> set commits \<Longrightarrow> \<exists>r. root_with_children st fuel commit = Inr r"
proof -
  let ?g = "\<lambda>commit refs. rbind (root_with_children st fuel commit) (\<lambda>r.
      Inr (case r of Some root \<Rightarrow> collect_node_hashes root refs | None \<Rightarrow> refs))"
  have fold: "rfold ?g cs refs0 = Inr refs \<Longrightarrow>
      refs = (fst refs0 \<union> live_nodes st fuel cs, snd refs0 \<union> live_versions st fuel cs) \<and>
      (\<forall>commit \<in> set cs. \<exists>r. root_with_children st fuel commit = Inr r)" for cs refs0
  proof (induction cs arbitrary: refs0)
    case Nil
    then show ?case by (simp add: live_nodes_def live_versions_def live_trees_def)
  next
    case (Cons a cs)
    then obtain r where r: "root_with_children st fuel a = Inr r"
        "rfold ?g cs (case r of Some root \<Rightarrow> collect_node_hashes root refs0 | None \<Rightarrow> refs0) = Inr refs"
      by (auto simp: rbind_eq_Inr)
    have "live_trees st fuel (a # cs) = (case r of Some t \<Rightarrow> insert t (live_trees st fuel cs) | None \<Rightarrow> live_trees st fuel cs)"
      using r(1) by (auto simp: live_trees_def split: option.splits)
    with Cons.IH [OF r(2)] r(1) show ?case
      by (cases refs0; cases r) (auto simp: live_nodes_def live_versions_def collect_node_hashes_eq)
  qed
  have "rfold ?g commits ({}, {}) = Inr refs"
    using assms by (simp add: collect_referenced_hashes_def)
  from fold [OF this] show "refs = (live_nodes st fuel commits, live_versions st fuel commits)"
    and "commit \<in> set commits \<Longrightarrow> \<exists>r. root_with_children st fuel commit = Inr r" by auto
qed

section \<open>Node directories\<close>

text \<open>A loop whose steps each extend the set of what is done.\<close>

lemma sfor_family:
  assumes "distinct xs" and "finite P" and "\<And>x. x \<in> set xs \<Longrightarrow> h x \<inter> P = {}"
    and "\<And>x y. x \<in> set xs \<Longrightarrow> y \<in> set xs \<Longrightarrow> x \<noteq> y \<Longrightarrow> h x \<inter> h y = {}" and "\<And>x. x \<in> set xs \<Longrightarrow> finite (h x)"
    and "\<And>x P. x \<in> set xs \<Longrightarrow> finite P \<Longrightarrow> h x \<inter> P = {} \<Longrightarrow> step x (S P) = (Inr (), S (P \<union> h x))"
  shows "sfor step xs (S P) = (Inr (), S (P \<union> (\<Union>x \<in> set xs. h x)))"
  using assms(1-5) assms(6)
proof (induction xs arbitrary: P)
  case (Cons x xs)
  have "step x (S P) = (Inr (), S (P \<union> h x))" using Cons.prems(2,3,6) by simp
  moreover have "sfor step xs (S (P \<union> h x)) = (Inr (), S ((P \<union> h x) \<union> (\<Union>x \<in> set xs. h x)))"
  proof (rule Cons.IH)
    show "h y \<inter> (P \<union> h x) = {}" if "y \<in> set xs" for y
    proof -
      have "y \<noteq> x" using Cons.prems(1) that by auto
      then show ?thesis using Cons.prems(3) [of y] Cons.prems(4) [of y x] that by auto
    qed
  qed (use Cons.prems in auto)
  ultimately show ?case by (simp add: sbind_def Un_assoc)
qed simp

definition orphans :: "path \<Rightarrow> merkle_hash set \<Rightarrow> fs \<Rightarrow> (string \<times> string) set" where
  "orphans rp live f = {x \<in> two_level_dirs (nodes_dir rp) f.
     \<exists>h. merkle_hash_from_str (fst x @ snd x) = Inr h \<and> h \<notin> live}"

definition pruned_nodes :: "path \<Rightarrow> merkle_hash set \<Rightarrow> bool \<Rightarrow> prune_stats \<Rightarrow> fs \<Rightarrow> (string \<times> string) set \<Rightarrow> prune_stats \<times> fs" where
  "pruned_nodes rp live dry s f P =
     (s\<lparr>nodes_scanned := nodes_scanned s + card P,
        nodes_kept := nodes_kept s + card {x \<in> P. \<exists>h \<in> live. merkle_hash_from_str (fst x @ snd x) = Inr h},
        nodes_removed := nodes_removed s + card (P \<inter> orphans rp live f)\<rparr>,
      gone (nodes_dir rp) (if dry then {} else P \<inter> orphans rp live f) f)"

lemma prune_node_dir_step:
  assumes "finite P" and "x \<notin> P" and "x \<in> two_level_dirs (nodes_dir rp) f"
  shows "prune_node_dir rp live dry (fst x) (snd x) (pruned_nodes rp live dry s f P) =
     (Inr (), pruned_nodes rp live dry s f (insert x P))"
proof -
  let ?B = "if dry then {} else P \<inter> orphans rp live f" let ?hash = "merkle_hash_from_str (fst x @ snd x)"
  have path: "nodes_dir rp @ [Normal (fst x), Normal (snd x)] = two_level (nodes_dir rp) x"
    by (simp add: two_level_def split_beta)
  have rm: "remove_dir_all (two_level (nodes_dir rp) x) (gone (nodes_dir rp) ?B f) = (Inr (), gone (nodes_dir rp) (insert x ?B) f)"
    using assms(2,3) by (simp add: remove_dir_all_def gone_dirs gone_insert two_level_dirs_def)
  show ?thesis
  proof (cases ?hash)
    case (Inl e)
    then have "x \<notin> orphans rp live f" by (simp add: orphans_def)
    with Inl assms(1,2) show ?thesis
      by (simp add: prune_node_dir_def pruned_nodes_def filter_insert_set Int_insert_left)
  next
    case (Inr h)
    then have "x \<in> orphans rp live f \<longleftrightarrow> h \<notin> live" using assms(3) by (simp add: orphans_def)
    with Inr assms(1,2) rm path show ?thesis
      by (cases "h \<in> live"; cases dry)
        (simp_all add: prune_node_dir_def pruned_nodes_def filter_insert_set Int_insert_left Let_def)
  qed
qed

lemma prune_node_dirs:
  assumes "finite P" and "distinct ss" and "\<And>s. s \<in> set ss \<Longrightarrow> (t, s) \<notin> P \<and> (t, s) \<in> two_level_dirs (nodes_dir rp) f"
  shows "sfor (prune_node_dir rp live dry t) ss (pruned_nodes rp live dry s0 f P) =
     (Inr (), pruned_nodes rp live dry s0 f (P \<union> {t} \<times> set ss))"
proof -
  have "sfor (prune_node_dir rp live dry t) ss (pruned_nodes rp live dry s0 f P) =
      (Inr (), pruned_nodes rp live dry s0 f (P \<union> (\<Union>s \<in> set ss. {(t, s)})))"
  proof (rule sfor_family [OF assms(2,1)])
    fix s Q
    assume "s \<in> set ss" "finite Q" "{(t, s)} \<inter> Q = {}"
    then show "prune_node_dir rp live dry t s (pruned_nodes rp live dry s0 f Q) =
        (Inr (), pruned_nodes rp live dry s0 f (Q \<union> {(t, s)}))"
      using prune_node_dir_step [of Q "(t, s)" rp f live dry s0] assms(3) by simp
  qed (use assms(3) in auto)
  moreover have "(\<Union>s \<in> set ss. {(t, s)}) = {t} \<times> set ss" by auto
  ultimately show ?thesis by simp
qed

lemma prune_nodes_result:
  assumes "fair_order order" and "fs_wf f" and "fs_files f (nodes_dir rp) = None"
  shows "prune_nodes order rp live dry (s0, f) =
     (Inr (), pruned_nodes rp live dry s0 f (two_level_dirs (nodes_dir rp) f))"
proof (cases "nodes_dir rp \<in> fs_dirs f")
  case False
  have "two_level_dirs (nodes_dir rp) f = {}"
    using False two_level_parent [OF assms(2)] assms(2) by (fastforce simp: two_level_dirs_def fs_wf_def)
  with False assms(3) show ?thesis by (simp add: prune_nodes_def path_exists_def pruned_nodes_def)
next
  case True
  let ?D = "two_level_dirs (nodes_dir rp) f" let ?S = "pruned_nodes rp live dry s0 f"
  let ?step = "\<lambda>top_name (s, g). sbind (slift (read_dirs order (nodes_dir rp @ [Normal top_name]) g))
      (sfor (prune_node_dir rp live dry top_name)) (s, g)"
  obtain ts where ts: "read_dirs order (nodes_dir rp) f = Inr ts" "distinct ts"
      "set ts = {t. nodes_dir rp @ [Normal t] \<in> fs_dirs f}"
    using read_dirs_lists [OF assms(1,2) True] by blast
  have step: "?step t (?S P) = (Inr (), ?S (P \<union> {x \<in> ?D. fst x = t}))"
    if t: "t \<in> set ts" and P: "finite P" "{x \<in> ?D. fst x = t} \<inter> P = {}" for t P
  proof -
    let ?B = "if dry then {} else P \<inter> orphans rp live f" let ?g = "gone (nodes_dir rp) ?B f"
    have g: "nodes_dir rp @ [Normal t] \<in> fs_dirs ?g"
      using t ts(3) top_not_below [of "nodes_dir rp" t] by (auto simp: gone_def)
    have sub: "nodes_dir rp @ [Normal t, Normal s] \<in> fs_dirs ?g \<longleftrightarrow> (t, s) \<in> ?D" for s
    proof -
      have "(t, s) \<notin> P" if "(t, s) \<in> ?D" using P(2) that by auto
      then have "two_level (nodes_dir rp) (t, s) \<in> fs_dirs ?g \<longleftrightarrow> (t, s) \<in> ?D"
        by (auto simp: gone_dirs two_level_dirs_def)
      then show ?thesis by (simp add: two_level_def)
    qed
    obtain ss where ss: "read_dirs order (nodes_dir rp @ [Normal t]) ?g = Inr ss" "distinct ss"
        "set ss = {s. (nodes_dir rp @ [Normal t]) @ [Normal s] \<in> fs_dirs ?g}"
      using read_dirs_lists [OF assms(1) fs_wf_gone [OF assms(2)] g] by blast
    have mem: "set ss = {s. (t, s) \<in> ?D}" using ss(3) sub by simp
    have "sfor (prune_node_dir rp live dry t) ss (?S P) = (Inr (), ?S (P \<union> {t} \<times> set ss))"
      by (rule prune_node_dirs [OF P(1) ss(2)]) (use P(2) mem in auto)
    moreover have "{t} \<times> set ss = {x \<in> ?D. fst x = t}" using mem by auto
    moreover obtain a where c: "?S P = (a, ?g)" by (simp add: pruned_nodes_def)
    moreover have "?step t (a, ?g) = sfor (prune_node_dir rp live dry t) ss (a, ?g)"
      using ss(1) by (simp only: split_conv sbind_slift)
    ultimately show ?thesis by (simp only:)
  qed
  have "sfor ?step ts (?S {}) = (Inr (), ?S ({} \<union> (\<Union>t \<in> set ts. {x \<in> ?D. fst x = t})))"
    by (rule sfor_family [OF ts(2)]) (use step finite_two_level_dirs [OF assms(2)] in auto)
  moreover have "(\<Union>t \<in> set ts. {x \<in> ?D. fst x = t}) = ?D"
    using ts(3) two_level_parent [OF assms(2)] by (force simp: two_level_dirs_def)
  moreover have "?S {} = (s0, f)" by (simp add: pruned_nodes_def)
  ultimately show ?thesis using True ts(1) by (simp add: prune_nodes_def path_exists_def)
qed

section \<open>Versions\<close>

definition counts_versions :: "string set \<Rightarrow> string set \<Rightarrow> prune_stats \<Rightarrow> prune_stats \<Rightarrow> bool" where
  "counts_versions ks live s s' \<longleftrightarrow> versions_kept s' = versions_kept s + card (ks \<inter> live) \<and>
     versions_removed s' = versions_removed s + card (ks - live) \<and> nodes_scanned s' = nodes_scanned s \<and>
     nodes_kept s' = nodes_kept s \<and> nodes_removed s' = nodes_removed s \<and> versions_scanned s' = versions_scanned s"

context version_laws
begin

lemma version_loop:
  assumes "ok x" and "distinct ks" and "set ks \<subseteq> keys x"
  shows "\<exists>s' x'. sfor (prune_version vs live dry) ks (s, x) = (Inr (), s', x') \<and> ok x' \<and>
    counts_versions (set ks) live s s' \<and> keys x' = (if dry then keys x else keys x - (set ks - live)) \<and>
    (\<forall>j. j \<notin> set ks - live \<longrightarrow> content x' j = content x j) \<and> outside x' = outside x \<and> (dry \<longrightarrow> x' = x)"
  using assms
proof (induction ks arbitrary: s x)
  case Nil
  then show ?case by (simp add: counts_versions_def)
next
  case (Cons k ks)
  have k: "k \<in> keys x" "k \<notin> set ks" using Cons.prems by auto
  obtain s1 x1 where 1: "prune_version vs live dry k (s, x) = (Inr (), s1, x1)" "ok x1"
      "versions_kept s1 = versions_kept s + (if k \<in> live then 1 else 0)"
      "versions_removed s1 = versions_removed s + (if k \<in> live then 0 else 1)"
      "nodes_scanned s1 = nodes_scanned s" "nodes_kept s1 = nodes_kept s" "nodes_removed s1 = nodes_removed s"
      "versions_scanned s1 = versions_scanned s"
      "keys x1 = (if dry \<or> k \<in> live then keys x else keys x - {k})" "dry \<longrightarrow> x1 = x" "outside x1 = outside x"
      "\<forall>j. j \<noteq> k \<or> k \<in> live \<longrightarrow> content x1 j = content x j"
  proof (cases "k \<in> live \<or> dry")
    case True
    show thesis by (rule that [of "fst (snd (prune_version vs live dry k (s, x)))" x])
       (use True Cons.prems(1) sizes [OF Cons.prems(1) k(1)] in
         \<open>auto simp: prune_version_def Let_def split: sum.splits oxen_error.splits\<close>)
  next
    case False
    obtain x' where "vo_delete vs k x = (Inr (), x')" "ok x'" "keys x' = keys x - {k}"
        "\<forall>j. j \<noteq> k \<longrightarrow> content x' j = content x j" "outside x' = outside x"
      using deletes [OF Cons.prems(1) k(1)] by blast
    then show thesis by (intro that [of "fst (snd (prune_version vs live dry k (s, x)))" x'])
       (use False sizes [OF Cons.prems(1) k(1)] in
         \<open>auto simp: prune_version_def Let_def split: sum.splits oxen_error.splits\<close>)
  qed
  have "set ks \<subseteq> keys x1" using Cons.prems(3) k(2) 1(9) by auto
  then obtain s' x' where 2: "sfor (prune_version vs live dry) ks (s1, x1) = (Inr (), s', x')" "ok x'"
      "counts_versions (set ks) live s1 s'" "keys x' = (if dry then keys x1 else keys x1 - (set ks - live))"
      "\<forall>j. j \<notin> set ks - live \<longrightarrow> content x' j = content x1 j" "outside x' = outside x1" "dry \<longrightarrow> x' = x1"
    using Cons.IH [OF 1(2), of s1] Cons.prems(2) by auto
  have "counts_versions (set (k # ks)) live s s'"
    using 1(3-8) 2(3) k(2) by (auto simp: counts_versions_def Int_insert_left insert_Diff_if)
  moreover have "keys x' = (if dry then keys x else keys x - (set (k # ks) - live))" using 1(9,10) 2(4) by auto
  moreover have "content x' j = content x j" if "j \<notin> set (k # ks) - live" for j
    using 1(12) 2(5) that by auto
  ultimately show ?case using 1(1,10,11) 2(1,2,6,7) by (auto simp: sbind_def)
qed

lemma prune_versions_result:
  assumes "ok x"
  shows "\<exists>s' x'. prune_versions vs live dry (s, x) = (Inr (), s', x') \<and> ok x' \<and>
    counts_versions (keys x) live (s\<lparr>versions_scanned := card (keys x)\<rparr>) s' \<and>
    keys x' = (if dry then keys x else keys x \<inter> live) \<and>
    (\<forall>j. j \<notin> keys x - live \<longrightarrow> content x' j = content x j) \<and> outside x' = outside x \<and> (dry \<longrightarrow> x' = x)"
proof -
  obtain ks where ks: "vo_list vs x = Inr ks" "distinct ks" "set ks = keys x" using lists [OF assms] by blast
  have len: "length ks = card (keys x)" using ks(2,3) distinct_card by force
  from version_loop [OF assms ks(2), of live dry "s\<lparr>versions_scanned := card (keys x)\<rparr>"] ks len show ?thesis
    by (auto simp: prune_versions_def Diff_Diff_Int)
qed

end

section \<open>The repository\<close>

definition separate :: "path \<Rightarrow> path \<Rightarrow> bool" where
  "separate p q \<longleftrightarrow> \<not> path_starts_with p q \<and> \<not> path_starts_with q p"

lemma separate_below: "separate p q \<Longrightarrow> path_starts_with r p \<Longrightarrow> \<not> path_starts_with r q"
  by (auto simp: separate_def path_starts_with_append append_eq_append_conv2)

lemma separate_two_level: "separate p q \<Longrightarrow> path_starts_with r p \<Longrightarrow> \<not> path_starts_with r (two_level q x)"
proof -
  assume a: "separate p q" "path_starts_with r p"
  have "path_starts_with (two_level q x) q" by (cases x) (simp add: two_level_def path_starts_with_append)
  with separate_below [OF a] path_starts_with_trans show ?thesis by blast
qed

text \<open>
  A repository whose version store lies outside the node database. Where there is a node, there are
  the directories above the nodes.
\<close>

definition prunable :: "path \<Rightarrow> path \<Rightarrow> listing_order \<Rightarrow> fs \<Rightarrow> bool" where
  "prunable root rp order f \<longleftrightarrow> fair_order order \<and> local_ok root f \<and> separate root (nodes_dir rp) \<and>
     fs_files f (nodes_dir rp) = None \<and>
     (\<forall>h. db_exists rp h f \<longrightarrow> set (path_ancestors (nodes_dir rp)) \<subseteq> fs_dirs f)"

text \<open>What reading leaves: empty directories of nodes that are not there.\<close>

lemmas ancestors_snoc_simp [simp] = path_ancestors_snoc

lemma node_dirs_of:
  "\<exists>t s. merkle_hash_to_string h = t @ s \<and> valid_name t \<and> (s = [] \<or> valid_name s) \<and>
     node_db_path rp h = nodes_dir rp @ [Normal t] @ (if s = [] then [] else [Normal s]) \<and>
     set (path_ancestors (node_db_path rp h)) =
       {nodes_dir rp @ [Normal t], node_db_path rp h} \<union> set (path_ancestors (nodes_dir rp))"
proof -
  let ?s = "merkle_hash_to_string h"
  have v: "valid_name (take 3 ?s)" using hex_part_name [of "take 3 ?s" h] set_take_subset [of 3 ?s] by auto
  have w: "drop 3 ?s = [] \<or> valid_name (drop 3 ?s)" using hex_part_name [of "drop 3 ?s" h] set_drop_subset [of 3 ?s] by blast
  have two: "nodes_dir rp @ [Normal (take 3 ?s), Normal (drop 3 ?s)] = (nodes_dir rp @ [Normal (take 3 ?s)]) @ [Normal (drop 3 ?s)]"
    by simp
  have "set (path_ancestors (node_db_path rp h)) =
      {nodes_dir rp @ [Normal (take 3 ?s)], node_db_path rp h} \<union> set (path_ancestors (nodes_dir rp))"
    using path_ancestors_snoc [of "nodes_dir rp" "take 3 ?s"] path_ancestors_snoc [of "nodes_dir rp @ [Normal (take 3 ?s)]" "drop 3 ?s"]
    by (auto simp: node_db_path_eq node_db_prefix_eq Let_def)
  with v w show ?thesis
    by (intro exI [of _ "take 3 ?s"] exI [of _ "drop 3 ?s"]) (auto simp: node_db_path_eq node_db_prefix_eq Let_def)
qed

lemma no_n_in_hash: "CHR ''n'' \<notin> set (merkle_hash_to_string h)"
proof
  assume "CHR ''n'' \<in> set (merkle_hash_to_string h)"
  then obtain d where "d < 16" "CHR ''n'' = hex_digit d"
    using set_hex_digits [of "CHR ''n''" "unat h"] by (auto simp: merkle_hash_to_string_def)
  with hex_value_digit [of d] have "hex_value (CHR ''n'') = Some d" by simp
  then show False by (simp add: hex_value_def)
qed

lemma after_reading_files [simp]: "fs_files (after_reading rp H f) = fs_files f"
  by (simp add: after_reading_def)

text \<open>A new directory is one of a node, or the one above it.\<close>

lemma after_reading_dirs:
  assumes "set (path_ancestors (nodes_dir rp)) \<subseteq> fs_dirs f" "q \<in> fs_dirs (after_reading rp H f)" "q \<notin> fs_dirs f"
  obtains h t s where "h \<in> H" "merkle_hash_to_string h = t @ s" "valid_name t" "s = [] \<or> valid_name s"
    "q = nodes_dir rp @ [Normal t] \<or> (s \<noteq> [] \<and> q = nodes_dir rp @ [Normal t, Normal s])"
    "nodes_dir rp @ [Normal t] \<in> fs_dirs (after_reading rp H f)"
proof -
  obtain h where h: "h \<in> H" "\<not> path_exists (node_db_path rp h) f" "q \<in> set (path_ancestors (node_db_path rp h))"
    using assms(2,3) by (auto simp: after_reading_def)
  obtain t s where n: "merkle_hash_to_string h = t @ s" "valid_name t" "s = [] \<or> valid_name s"
    "node_db_path rp h = nodes_dir rp @ [Normal t] @ (if s = [] then [] else [Normal s])"
    "set (path_ancestors (node_db_path rp h)) = {nodes_dir rp @ [Normal t], node_db_path rp h} \<union> set (path_ancestors (nodes_dir rp))"
    using node_dirs_of [of h rp] by blast
  have "q \<notin> set (path_ancestors (nodes_dir rp))" using assms(1,3) by blast
  then have q: "q = nodes_dir rp @ [Normal t] \<or> (s \<noteq> [] \<and> q = nodes_dir rp @ [Normal t, Normal s])"
    using h(3) n(4,5) by (auto split: if_splits)
  have "nodes_dir rp @ [Normal t] \<in> set (path_ancestors (node_db_path rp h))" by (simp add: n(5))
  then have "nodes_dir rp @ [Normal t] \<in> fs_dirs (after_reading rp H f)" using h(1,2) by (auto simp: after_reading_def)
  with h(1) n(1-3) q show thesis by (intro that)
qed

lemma after_reading_below:
  assumes "set (path_ancestors (nodes_dir rp)) \<subseteq> fs_dirs f" "\<not> path_starts_with q (nodes_dir rp)"
  shows "q \<in> fs_dirs (after_reading rp H f) \<longleftrightarrow> q \<in> fs_dirs f"
proof
  assume q: "q \<in> fs_dirs (after_reading rp H f)"
  show "q \<in> fs_dirs f"
  proof (rule ccontr)
    assume "q \<notin> fs_dirs f"
    from after_reading_dirs [OF assms(1) q this] show False using assms(2) by (metis path_starts_with_append)
  qed
qed (simp add: after_reading_def)

lemma after_reading_exists:
  assumes "set (path_ancestors (nodes_dir rp)) \<subseteq> fs_dirs f"
  shows "db_exists rp h (after_reading rp H f) = db_exists rp h f"
proof -
  have "path_join (node_db_path rp h) [x] \<in> fs_dirs f"
    if x: "x \<in> {node_file_name, children_file_name}" and q: "path_join (node_db_path rp h) [x] \<in> fs_dirs (after_reading rp H f)" for x
  proof (rule ccontr)
    assume "path_join (node_db_path rp h) [x] \<notin> fs_dirs f"
    from after_reading_dirs [OF assms q this] obtain g t s where g: "merkle_hash_to_string g = t @ s"
      "path_join (node_db_path rp h) [x] = nodes_dir rp @ [Normal t] \<or> path_join (node_db_path rp h) [x] = nodes_dir rp @ [Normal t, Normal s]"
      by metis
    have "path_join (node_db_path rp h) [x] = nodes_dir rp @ node_db_prefix h @ [x]"
      using x by (auto simp: node_db_path_eq node_file_name_def children_file_name_def)
    then have "x = Normal s" using g(2) by (auto simp: node_db_prefix_eq Let_def split: if_splits)
    then have "CHR ''n'' \<in> set (merkle_hash_to_string g)" using x g(1) by (auto simp: node_file_name_def children_file_name_def)
    then show False using no_n_in_hash by blast
  qed
  then show ?thesis by (auto simp: db_exists_def path_exists_def Let_def after_reading_def)
qed

lemma after_reading_nothing: "H = {} \<Longrightarrow> after_reading rp H f = f"
  by (simp add: after_reading_def)

lemma after_reading_present: "\<forall>h \<in> H. path_exists (node_db_path rp h) f \<Longrightarrow> after_reading rp H f = f"
  by (auto simp: after_reading_def intro!: fs.equality)

lemma two_level_gone: "separate p q \<Longrightarrow> two_level_dirs p (gone q B f) = two_level_dirs p f"
  using separate_two_level [of p q "two_level p _"]
  by (auto simp: two_level_dirs_def gone_def) (auto simp: two_level_def path_starts_with_append)

lemma root_gone: "separate p q \<Longrightarrow> path_starts_with r p \<Longrightarrow> (r \<in> fs_dirs (gone q B f) \<longleftrightarrow> r \<in> fs_dirs f) \<and> fs_files (gone q B f) r = fs_files f r"
  using separate_two_level by (auto simp: gone_def)

lemma store_after_nodes:
  assumes "separate root q" and "local_ok root f"
  shows "local_ok root (gone q B f)" and "local_keys root (gone q B f) = local_keys root f"
    and "local_content root (gone q B f) = local_content root f"
proof -
  note same = root_gone [OF assms(1), of _ B f]
  show "local_ok root (gone q B f)"
    using assms(2) same [of root] by (simp add: local_ok_def two_level_gone [OF assms(1)] fs_wf_gone)
  show "local_keys root (gone q B f) = local_keys root f" by (simp add: local_keys_def two_level_gone [OF assms(1)])
  show "local_content root (gone q B f) = local_content root f"
    using same by (auto simp: local_content_def fun_eq_iff path_starts_with_append key_dir_def)
qed

lemma prune_run_result:
  assumes "prunable root rp order f"
    and D: "D = two_level_dirs (nodes_dir rp) f" and g: "g = gone (nodes_dir rp) (if dry then {} else orphans rp live f) f"
  obtains s f' where "sbind (prune_nodes order rp live dry) (\<lambda>_. prune_versions (local_ops order root) vlive dry) (prune_stats_new, f) =
      (Inr (), s, f')"
    and "local_keys root f' = (if dry then local_keys root f else local_keys root f \<inter> vlive)"
    and "\<And>j. j \<notin> local_keys root f - vlive \<Longrightarrow> local_content root f' j = local_content root f j"
    and "fs_outside root f' = fs_outside root g" and "dry \<Longrightarrow> f' = f"
    and "nodes_scanned s = card D" and "nodes_removed s = card (orphans rp live f)"
    and "versions_removed s = card (local_keys root f - vlive)" and "versions_kept s = card (local_keys root f \<inter> vlive)"
    and "versions_scanned s = card (local_keys root f)"
proof -
  have p: "fair_order order" "local_ok root f" "separate root (nodes_dir rp)" "fs_files f (nodes_dir rp) = None"
    using assms(1) by (simp_all add: prunable_def)
  have wf: "fs_wf f" using p(2) by (simp add: local_ok_def)
  let ?s0 = "prune_stats_new"
  have orphans: "D \<inter> orphans rp live f = orphans rp live f" by (auto simp: orphans_def D)
  obtain s1 where n: "prune_nodes order rp live dry (?s0, f) = (Inr (), s1, g)" "nodes_scanned s1 = card D"
      "nodes_removed s1 = card (orphans rp live f)" "versions_kept s1 = 0" "versions_removed s1 = 0"
    using prune_nodes_result [OF p(1) wf p(4), of live dry ?s0] orphans
    by (auto simp: pruned_nodes_def g D prune_stats_new_def)
  note store = store_after_nodes [OF p(3,2)]
  have "fair_order order \<and> local_ok root g" using p(1) store(1) by (simp add: g)
  from local_store.prune_versions_result [OF this, of vlive dry s1] obtain s f' where
    v: "prune_versions (local_ops order root) vlive dry (s1, g) = (Inr (), s, f')"
      "counts_versions (local_keys root g) vlive (s1\<lparr>versions_scanned := card (local_keys root g)\<rparr>) s"
      "local_keys root f' = (if dry then local_keys root g else local_keys root g \<inter> vlive)"
      "\<forall>j. j \<notin> local_keys root g - vlive \<longrightarrow> local_content root f' j = local_content root g j"
      "fs_outside root f' = fs_outside root g" "dry \<longrightarrow> f' = g" by blast
  have keys: "local_keys root g = local_keys root f" "local_content root g = local_content root f"
    using store(2,3) by (simp_all add: g)
  show thesis
  proof (rule that)
    show "sbind (prune_nodes order rp live dry) (\<lambda>_. prune_versions (local_ops order root) vlive dry) (prune_stats_new, f) =
      (Inr (), s, f')" using n(1) v(1) by (simp add: sbind_def)
    show "dry \<Longrightarrow> f' = f" using v(6) by (simp add: g)
  qed (use v n keys in \<open>auto simp: counts_versions_def\<close>)
qed

text \<open>Collecting leaves a repository that can be pruned, with the same version store.\<close>

lemma root_exists:
  assumes "root_with_children (disk_store c rp f dhs) fuel m = Inr (Some t)"
  shows "\<exists>h. db_exists rp h f"
proof (cases "merkle_hash_from_str (cm_id m)")
  case (Inr h)
  with assms have "st_exists (disk_store c rp f dhs) h"
    by (auto simp: root_with_children_def read_node_def read_depth_def split: if_splits)
  then show ?thesis by (auto simp: disk_store_def)
qed (use assms in \<open>simp add: root_with_children_def\<close>)

lemma opened_exists:
  assumes "opened_by_collecting (disk_store c rp f dhs) fuel ckv kv rs \<noteq> {}"
  shows "\<exists>h. db_exists rp h f"
proof -
  let ?st = "disk_store c rp f dhs"
  obtain commits where "(\<Union>m \<in> set commits.
      case root_with_children ?st fuel m of Inr (Some root) \<Rightarrow> opened_nodes root | _ \<Rightarrow> {}) \<noteq> {}"
    using assms by (cases "Commit_History.list_all (get_by_hash ?st fuel) ckv kv rs")
      (auto simp: opened_by_collecting_def split: sum.splits)
  then obtain m where m: "(case root_with_children ?st fuel m of Inr (Some root) \<Rightarrow> opened_nodes root | _ \<Rightarrow> {}) \<noteq> {}"
    by blast
  show ?thesis
  proof (cases "root_with_children ?st fuel m")
    case (Inr r)
    with m root_exists show ?thesis by (cases r) auto
  qed (use m in simp)
qed

lemma after_reading_prunable:
  assumes "prunable root rp order f" and "H \<noteq> {} \<Longrightarrow> \<exists>h. db_exists rp h f"
  shows "prunable root rp order (after_reading rp H f)" and "local_keys root (after_reading rp H f) = local_keys root f"
    and "local_content root (after_reading rp H f) = local_content root f"
    and "db_exists rp h (after_reading rp H f) = db_exists rp h f"
proof -
  let ?g = "after_reading rp H f"
  have p: "fair_order order" "local_ok root f" "separate root (nodes_dir rp)" "fs_files f (nodes_dir rp) = None"
    using assms(1) by (simp_all add: prunable_def)
  have all: "prunable root rp order ?g \<and> local_keys root ?g = local_keys root f \<and> local_content root ?g = local_content root f \<and>
      db_exists rp h ?g = db_exists rp h f"
  proof (cases "H = {}")
    case True
    then show ?thesis using assms(1) by (simp add: after_reading_nothing)
  next
    case False
    then have anc: "set (path_ancestors (nodes_dir rp)) \<subseteq> fs_dirs f" using assms by (auto simp: prunable_def)
    have sub: "fs_dirs f \<subseteq> fs_dirs ?g" by (auto simp: after_reading_def)
    have wf: "fs_wf f" using p(2) by (simp add: local_ok_def)
    have below: "\<not> path_starts_with q (nodes_dir rp)" if "path_starts_with q root" for q
      using separate_below [OF p(3) that] .
    have fin: "finite (fs_dirs ?g)"
    proof -
      have "fs_dirs ?g \<subseteq> fs_dirs f \<union> range (\<lambda>h :: merkle_hash. nodes_dir rp @ [Normal (take 3 (merkle_hash_to_string h))]) \<union>
          range (\<lambda>h :: merkle_hash. node_db_path rp h)"
      proof
        fix q assume q: "q \<in> fs_dirs ?g"
        show "q \<in> fs_dirs f \<union> range (\<lambda>h :: merkle_hash. nodes_dir rp @ [Normal (take 3 (merkle_hash_to_string h))]) \<union>
          range (\<lambda>h :: merkle_hash. node_db_path rp h)"
        proof (cases "q \<in> fs_dirs f")
          case False
          then obtain h where "q \<in> set (path_ancestors (node_db_path rp h))"
            using q by (auto simp: after_reading_def)
          moreover have "q \<notin> set (path_ancestors (nodes_dir rp))" using False anc by blast
          ultimately have "q = node_db_path rp h \<or> q = nodes_dir rp @ [Normal (take 3 (merkle_hash_to_string h))]"
            using path_ancestors_snoc [of "nodes_dir rp" "take 3 (merkle_hash_to_string h)"]
              path_ancestors_snoc [of "nodes_dir rp @ [Normal (take 3 (merkle_hash_to_string h))]" "drop 3 (merkle_hash_to_string h)"]
            by (auto simp: node_db_path_eq node_db_prefix_eq Let_def split: if_splits)
          then show ?thesis by blast
        qed simp
      qed
      moreover have "finite (range (\<lambda>h :: merkle_hash. nodes_dir rp @ [Normal (take 3 (merkle_hash_to_string h))]))"
        "finite (range (\<lambda>h :: merkle_hash. node_db_path rp h))" by simp_all
      ultimately show ?thesis using wf by (meson finite_UnI finite_subset fs_wf_def)
    qed
    have "r \<in> fs_dirs ?g \<and> valid_name s" if rs: "r @ [Normal s] \<in> fs_dirs ?g" for r s
    proof (cases "r @ [Normal s] \<in> fs_dirs f")
      case True
      with wf sub show ?thesis by (auto simp: fs_wf_def)
    next
      case False
      have nodes: "nodes_dir rp \<in> fs_dirs ?g" using anc sub path_ancestors.simps [of "nodes_dir rp"] by auto
      from after_reading_dirs [OF anc rs False] obtain t u where tu: "valid_name t" "u = [] \<or> valid_name u"
        "r @ [Normal s] = nodes_dir rp @ [Normal t] \<or> (u \<noteq> [] \<and> r @ [Normal s] = nodes_dir rp @ [Normal t, Normal u])"
        "nodes_dir rp @ [Normal t] \<in> fs_dirs ?g" by metis
      from tu(3) show ?thesis
      proof
        assume "r @ [Normal s] = nodes_dir rp @ [Normal t]"
        then show ?thesis using tu(1) nodes by simp
      next
        assume a: "u \<noteq> [] \<and> r @ [Normal s] = nodes_dir rp @ [Normal t, Normal u]"
        then have "r @ [Normal s] = (nodes_dir rp @ [Normal t]) @ [Normal u]" by simp
        then have "r = nodes_dir rp @ [Normal t]" "s = u" by (simp_all only: append1_eq_conv component.inject)
        then show ?thesis using tu(2,4) a by simp
      qed
    qed
    with fin have wf': "fs_wf ?g" by (auto simp: fs_wf_def)
    have "path_starts_with (two_level root x) root" for x by (cases x) (simp add: two_level_def path_starts_with_append)
    then have two: "two_level_dirs root ?g = two_level_dirs root f"
      using after_reading_below [OF anc below] by (auto simp: two_level_dirs_def)
    have "path_starts_with root root" by (simp add: path_starts_with_append)
    then have "root \<in> fs_dirs ?g \<longleftrightarrow> root \<in> fs_dirs f" using after_reading_below [OF anc below] by blast
    then have "local_ok root ?g" using p(2) wf' two by (simp add: local_ok_def)
    moreover have "set (path_ancestors (nodes_dir rp)) \<subseteq> fs_dirs ?g" using anc sub by blast
    ultimately have "prunable root rp order ?g" using p by (simp add: prunable_def)
    with two show ?thesis
      by (simp add: local_keys_def local_content_def fun_eq_iff after_reading_exists [OF anc])
  qed
  then show "prunable root rp order ?g" "local_keys root ?g = local_keys root f" "local_content root ?g = local_content root f"
    "db_exists rp h ?g = db_exists rp h f" by blast+
qed

lemma collected_prunable:
  assumes "prunable root rp order f"
  shows "prunable root rp order (collected_fs c rp dhs fuel ckv kv rs f)"
    and "local_keys root (collected_fs c rp dhs fuel ckv kv rs f) = local_keys root f"
    and "local_content root (collected_fs c rp dhs fuel ckv kv rs f) = local_content root f"
    and "db_exists rp h (collected_fs c rp dhs fuel ckv kv rs f) = db_exists rp h f"
  unfolding collected_fs_def by (rule after_reading_prunable [OF assms opened_exists], assumption)+

lemma collected_files [simp]: "fs_files (collected_fs c rp dhs fuel ckv kv rs f) = fs_files f"
  by (simp add: collected_fs_def)

lemma prune_repo_result:
  assumes "prunable root rp order f"
    and "collect_referenced_hashes (disk_store c rp f dhs) fuel ckv kv rs = Some (Inr (live, vlive))"
    and f1: "f1 = collected_fs c rp dhs fuel ckv kv rs f"
    and D: "D = two_level_dirs (nodes_dir rp) f1" and g: "g = gone (nodes_dir rp) (if dry then {} else orphans rp live f1) f1"
  obtains s f' where "prune_repo c rp dhs fuel ckv kv rs order (local_ops order root) dry f = Some (Inr s, f')"
    and "local_keys root f' = (if dry then local_keys root f else local_keys root f \<inter> vlive)"
    and "\<And>j. j \<notin> local_keys root f - vlive \<Longrightarrow> local_content root f' j = local_content root f j"
    and "fs_outside root f' = fs_outside root g" and "dry \<Longrightarrow> f' = f1"
    and "nodes_scanned s = card D" and "nodes_removed s = card (orphans rp live f1)"
    and "versions_removed s = card (local_keys root f - vlive)" and "versions_kept s = card (local_keys root f \<inter> vlive)"
    and "versions_scanned s = card (local_keys root f)"
proof -
  note col = collected_prunable [OF assms(1), where c = c and dhs = dhs and fuel = fuel and ckv = ckv and kv = kv and rs = rs, folded f1]
  obtain s f' where run: "sbind (prune_nodes order rp live dry) (\<lambda>_. prune_versions (local_ops order root) vlive dry) (prune_stats_new, f1) =
      (Inr (), s, f')" and rest: "local_keys root f' = (if dry then local_keys root f1 else local_keys root f1 \<inter> vlive)"
    "\<forall>j. j \<notin> local_keys root f1 - vlive \<longrightarrow> local_content root f' j = local_content root f1 j"
    "fs_outside root f' = fs_outside root g" "dry \<longrightarrow> f' = f1" "nodes_scanned s = card D" "nodes_removed s = card (orphans rp live f1)"
    "versions_removed s = card (local_keys root f1 - vlive)" "versions_kept s = card (local_keys root f1 \<inter> vlive)"
    "versions_scanned s = card (local_keys root f1)"
    by (rule prune_run_result [OF col(1) D g, of vlive]) (erule that; simp)
  have "prune_repo c rp dhs fuel ckv kv rs order (local_ops order root) dry f = Some (Inr s, f')"
    using run by (simp add: prune_repo_def assms(2) f1 [symmetric])
  then show thesis by (rule that) (use rest in \<open>simp_all add: col\<close>)
qed

lemma collected_same: "prunable root rp order f \<Longrightarrow> same_node c rp f (collected_fs c rp dhs fuel ckv kv rs f) h"
  unfolding same_node_def by (intro conjI read_view_files collected_prunable(4)) simp_all

text \<open>The nodes that are opened are live, so that their new directories are no orphans.\<close>

lemma opened_nodes_live: "opened_nodes t \<subseteq> t_hash ` set (tree_nodes t)"
proof (induction t)
  case (MTNode h n p cs)
  then show ?case by (fastforce split: if_splits)
qed

definition opened_by :: "node_store \<Rightarrow> nat \<Rightarrow> commit list \<Rightarrow> merkle_hash set" where
  "opened_by st fuel commits = (\<Union>t \<in> live_trees st fuel commits. opened_nodes t)"

lemma opened_by_live: "opened_by st fuel commits \<subseteq> live_nodes st fuel commits"
  using opened_nodes_live by (auto simp: opened_by_def live_nodes_def)

lemma collected_fs_listed:
  assumes "Commit_History.list_all (get_by_hash (disk_store c rp f dhs) fuel) ckv kv rs = Some (Inr commits)"
  shows "collected_fs c rp dhs fuel ckv kv rs f = after_reading rp (opened_by (disk_store c rp f dhs) fuel commits) f"
proof -
  let ?st = "disk_store c rp f dhs"
  have "(case root_with_children ?st fuel m of Inr (Some root) \<Rightarrow> opened_nodes root | _ \<Rightarrow> {}) =
      (\<Union>t \<in> {t. root_with_children ?st fuel m = Inr (Some t)}. opened_nodes t)" for m
    by (auto split: sum.splits option.splits)
  then have "opened_by_collecting ?st fuel ckv kv rs = opened_by ?st fuel commits"
    by (auto simp: opened_by_collecting_def assms opened_by_def live_trees_def)
  then show ?thesis by (simp add: collected_fs_def)
qed

lemma opened_by_exists:
  assumes "Commit_History.list_all (get_by_hash (disk_store c rp f dhs) fuel) ckv kv rs = Some (Inr commits)"
    and "opened_by (disk_store c rp f dhs) fuel commits \<noteq> {}"
  shows "\<exists>h. db_exists rp h f"
proof -
  obtain m t where "root_with_children (disk_store c rp f dhs) fuel m = Inr (Some t)"
    using assms(2) by (auto simp: opened_by_def live_trees_def)
  then show ?thesis by (rule root_exists)
qed

lemma orphans_after_reading:
  assumes "prunable root rp order f" and "H \<noteq> {} \<Longrightarrow> \<exists>h. db_exists rp h f" and "H \<subseteq> live"
  shows "orphans rp live (after_reading rp H f) = orphans rp live f"
proof (cases "H = {}")
  case False
  then have anc: "set (path_ancestors (nodes_dir rp)) \<subseteq> fs_dirs f" using assms(1,2) by (auto simp: prunable_def)
  have "x \<in> two_level_dirs (nodes_dir rp) f"
    if x: "x \<in> two_level_dirs (nodes_dir rp) (after_reading rp H f)"
      and o: "merkle_hash_from_str (fst x @ snd x) = Inr g" "g \<notin> live" for x g
  proof (rule ccontr)
    assume "x \<notin> two_level_dirs (nodes_dir rp) f"
    then have "two_level (nodes_dir rp) x \<notin> fs_dirs f" "two_level (nodes_dir rp) x \<in> fs_dirs (after_reading rp H f)"
      using x by (simp_all add: two_level_dirs_def)
    from after_reading_dirs [OF anc this(2,1)] obtain h t s where h: "h \<in> H" "merkle_hash_to_string h = t @ s"
      "two_level (nodes_dir rp) x = nodes_dir rp @ [Normal t] \<or> two_level (nodes_dir rp) x = nodes_dir rp @ [Normal t, Normal s]"
      by metis
    then have "fst x @ snd x = merkle_hash_to_string h" by (auto simp: two_level_def split_beta)
    then have "g = h" using o(1) by simp
    then show False using h(1) o(2) assms(3) by blast
  qed
  moreover have "two_level_dirs (nodes_dir rp) f \<subseteq> two_level_dirs (nodes_dir rp) (after_reading rp H f)"
    by (auto simp: two_level_dirs_def after_reading_def)
  ultimately show ?thesis by (auto simp: orphans_def)
qed (simp add: after_reading_nothing)

text \<open>The files of a node are in a directory that only its own hash names.\<close>

lemma hash_then_name: "x \<in> {''node'', ''children''} \<Longrightarrow> \<exists>e. merkle_hash_from_str (merkle_hash_to_string h @ x) = Inl e"
proof -
  assume x: "x \<in> {''node'', ''children''}"
  let ?s = "merkle_hash_to_string h"
  have "\<exists>e. radix_loop n x = Inl e" for n using x by (auto simp: hex_value_def)
  moreover have "hd (?s @ x) \<noteq> CHR ''+''" "?s @ x \<noteq> [] \<and> ?s @ x \<noteq> ''+'' \<and> ?s @ x \<noteq> ''-''"
    using x hex_digits_hd [of "unat h"] by (cases ?s; auto simp: merkle_hash_to_string_def)+
  ultimately show ?thesis
    by (cases "radix_loop 0 ?s") (auto simp: merkle_hash_from_str_def radix_loop_append rbind_def split: sum.splits, metis Inl_Inr_False)
qed

lemma node_path_not_orphan:
  assumes "h \<in> live" and "y \<in> orphans rp live f" and "x \<in> {node_file_name, children_file_name}"
  shows "\<not> path_starts_with (path_join (node_db_path rp h) [x]) (two_level (nodes_dir rp) y)"
proof
  let ?s = "merkle_hash_to_string h"
  assume "path_starts_with (path_join (node_db_path rp h) [x]) (two_level (nodes_dir rp) y)"
  then obtain r where r: "node_db_prefix h @ [x] = Normal (fst y) # Normal (snd y) # r"
    using assms(3) by (auto simp: path_starts_with_append node_db_path_eq two_level_def split_beta node_file_name_def children_file_name_def)
  obtain g where g: "merkle_hash_from_str (fst y @ snd y) = Inr g" "g \<notin> live" using assms(2) by (auto simp: orphans_def)
  show False
  proof (cases "drop 3 ?s = []")
    case True
    then have "take 3 ?s = ?s" by simp
    with True r have "fst y = ?s" "snd y \<in> {''node'', ''children''}"
      using assms(3) by (auto simp: node_db_prefix_eq Let_def node_file_name_def children_file_name_def)
    with hash_then_name [of "snd y" h] g(1) show False by auto
  next
    case False
    with r have "fst y @ snd y = take 3 ?s @ drop 3 ?s" by (simp add: node_db_prefix_eq Let_def)
    then have "fst y @ snd y = ?s" by simp
    then show False using g assms(1) by simp
  qed
qed

lemma outside_same:
  assumes "fs_outside root f' = fs_outside root g" and "\<not> path_starts_with q root"
  shows "fs_files f' q = fs_files g q" and "q \<in> fs_dirs f' \<longleftrightarrow> q \<in> fs_dirs g"
proof -
  from fun_cong [OF assms(1), of q] assms(2) show "fs_files f' q = fs_files g q" "q \<in> fs_dirs f' \<longleftrightarrow> q \<in> fs_dirs g"
    by (simp_all add: fs_outside_def)
qed

lemma node_path_below: "x \<in> {node_file_name, children_file_name} \<Longrightarrow> path_starts_with (path_join (node_db_path rp h) [x]) (nodes_dir rp)"
  by (auto simp: path_starts_with_append node_db_path_eq node_file_name_def children_file_name_def)

lemma live_node_same:
  assumes "separate root (nodes_dir rp)" and "h \<in> live" and "B \<subseteq> orphans rp live f"
    and "fs_outside root f' = fs_outside root (gone (nodes_dir rp) B f)"
  shows "same_node c rp f f' h"
proof -
  have same: "fs_files f' q = fs_files f q" "q \<in> fs_dirs f' \<longleftrightarrow> q \<in> fs_dirs f"
    if x: "x \<in> {node_file_name, children_file_name}" and q: "q = path_join (node_db_path rp h) [x]" for x q
  proof -
    have "\<not> path_starts_with q root"
      using separate_below [OF assms(1)] node_path_below [OF x] unfolding q by blast
    note o = outside_same [OF assms(4) this]
    have "\<not> path_starts_with q (two_level (nodes_dir rp) y)" if "y \<in> B" for y
      using node_path_not_orphan [OF assms(2) _ x] assms(3) that unfolding q by blast
    then show "fs_files f' q = fs_files f q" "q \<in> fs_dirs f' \<longleftrightarrow> q \<in> fs_dirs f" using o by (auto simp: gone_def)
  qed
  have "read_view c rp f' h = read_view c rp f h" by (rule read_view_files) (rule same(1) [OF _ refl])
  moreover have "db_exists rp h f' = db_exists rp h f"
    using same [OF _ refl] by (simp add: db_exists_def path_exists_def Let_def)
  ultimately show ?thesis by (simp add: same_node_def)
qed

lemma absent_node_stays:
  assumes "separate root (nodes_dir rp)" and "\<not> db_exists rp h f"
    and "fs_outside root f' = fs_outside root (gone (nodes_dir rp) B f)"
  shows "\<not> db_exists rp h f'"
proof -
  have "path_exists (path_join (node_db_path rp h) [x]) f' \<Longrightarrow> path_exists (path_join (node_db_path rp h) [x]) f"
    if x: "x \<in> {node_file_name, children_file_name}" for x
  proof -
    have "\<not> path_starts_with (path_join (node_db_path rp h) [x]) root"
      using separate_below [OF assms(1)] node_path_below [OF x] by blast
    from outside_same [OF assms(3) this] show "path_exists (path_join (node_db_path rp h) [x]) f' \<Longrightarrow>
        path_exists (path_join (node_db_path rp h) [x]) f"
      by (auto simp: path_exists_def gone_def split: if_splits)
  qed
  with assms(2) show ?thesis by (auto simp: db_exists_def Let_def)
qed

section \<open>Properties\<close>

lemma prune_repo_cases:
  assumes "Commit_History.list_all (get_by_hash (disk_store c rp f dhs) fuel) ckv kv rs = Some (Inr commits)"
    and "prune_repo c rp dhs fuel ckv kv rs order vs dry f = Some (r, f')"
  obtains "f' = f"
  | "collect_referenced_hashes (disk_store c rp f dhs) fuel ckv kv rs =
       Some (Inr (live_nodes (disk_store c rp f dhs) fuel commits, live_versions (disk_store c rp f dhs) fuel commits))"
    "\<And>commit. commit \<in> set commits \<Longrightarrow> \<exists>m. root_with_children (disk_store c rp f dhs) fuel commit = Inr m"
proof -
  obtain cr where cr: "collect_referenced_hashes (disk_store c rp f dhs) fuel ckv kv rs = Some cr"
    using assms(2) by (auto simp: prune_repo_def split: option.splits)
  show thesis
  proof (cases cr)
    case (Inl e)
    with assms(2) cr have "f' = f" by (simp add: prune_repo_def)
    then show thesis by (rule that(1))
  next
    case (Inr refs)
    note live = collect_live [OF cr [unfolded Inr] assms(1)]
    from cr Inr live(1) show thesis by (intro that(2) live(2)) simp_all
  qed
qed

lemma live_versionsI:
  "commit \<in> set commits \<Longrightarrow> root_with_children st fuel commit = Inr (Some t) \<Longrightarrow> x \<in> set (tree_nodes t) \<Longrightarrow>
   k \<in> file_references (t_node x) \<Longrightarrow> k \<in> live_versions st fuel commits"
  unfolding live_versions_def live_trees_def by blast

lemma prune_reads:
  assumes "prunable root rp order f"
    and "Commit_History.list_all (get_by_hash (disk_store c rp f dhs) fuel) ckv kv rs = Some (Inr commits)"
    and "prune_repo c rp dhs fuel ckv kv rs order (local_ops order root) dry f = Some (r, f')"
    and "commit \<in> set commits" and "merkle_hash_from_str (cm_id commit) = Inr h"
  shows "read_node (disk_store c rp f' dhs) fuel h recurse = read_node (disk_store c rp f dhs) fuel h recurse"
proof -
  let ?st = "disk_store c rp f dhs" let ?st' = "disk_store c rp f' dhs"
  show ?thesis
  proof (rule prune_repo_cases [OF assms(2,3)])
    assume cr': "collect_referenced_hashes ?st fuel ckv kv rs = Some (Inr (live_nodes ?st fuel commits, live_versions ?st fuel commits))"
      and live: "\<And>commit. commit \<in> set commits \<Longrightarrow> \<exists>m. root_with_children ?st fuel commit = Inr m"
    let ?live = "live_nodes ?st fuel commits"
    let ?f1 = "collected_fs c rp dhs fuel ckv kv rs f"
    obtain out: "fs_outside root f' = fs_outside root (gone (nodes_dir rp) (if dry then {} else orphans rp ?live ?f1) ?f1)"
      using prune_repo_result [OF assms(1) cr' refl refl refl, of dry] assms(3) by (metis option.inject prod.inject)
    note same1 = collected_same [OF assms(1), of c dhs fuel ckv kv rs]
    have sep: "separate root (nodes_dir rp)" using assms(1) by (simp add: prunable_def)
    obtain m where m: "root_with_children ?st fuel commit = Inr m" using live [OF assms(4)] by blast
    then have read: "read_node ?st fuel h True = Inr m" by (simp add: root_with_children_def assms(5))
    show ?thesis
    proof (cases m)
      case None
      then have "\<not> db_exists rp h f"
        using read by (auto simp: read_node_def read_depth_def disk_store_def rbind_eq_Inr split: if_splits)
      moreover from this have "\<not> db_exists rp h ?f1" using same1 by (simp add: same_node_def)
      note absent_node_stays [OF sep this out]
      ultimately show ?thesis by (simp add: read_node_def read_depth_def disk_store_def)
    next
      case (Some t)
      have "same_node c rp f f' g" if "g \<in> t_hash ` set (tree_nodes t)" for g
      proof -
        have "g \<in> ?live" using m Some that assms(4) by (auto simp: live_nodes_def live_trees_def)
        then have "same_node c rp ?f1 f' g" by (rule live_node_same [OF sep _ _ out]) auto
        with same1 show ?thesis by (simp add: same_node_def)
      qed
      from read_tree_within [OF read [unfolded Some] this] show ?thesis .
    qed
  qed simp
qed

text \<open>C3: pruning loses nothing that is reachable. For every commit that the listing of all branches
  returns, its tree and its commit node read after pruning as before, whether pruning finished or
  stopped with an error, and the content of every file of that tree is still in the version store.\<close>

theorem prune_keeps_reachable:
  assumes "prunable root rp order f"
    and "Commit_History.list_all (get_by_hash (disk_store c rp f dhs) fuel) ckv kv rs = Some (Inr commits)"
    and "prune_repo c rp dhs fuel ckv kv rs order (local_ops order root) dry f = Some (r, f')"
    and "commit \<in> set commits"
  shows "root_with_children (disk_store c rp f' dhs) fuel commit = root_with_children (disk_store c rp f dhs) fuel commit \<and>
    get_by_id (get_by_hash (disk_store c rp f' dhs) fuel) (cm_id commit) =
      get_by_id (get_by_hash (disk_store c rp f dhs) fuel) (cm_id commit) \<and>
    (\<forall>t x g. root_with_children (disk_store c rp f dhs) fuel commit = Inr (Some t) \<and> x \<in> set (tree_nodes t) \<and>
       t_node x = EFile g \<and> plain_key (merkle_hash_to_string (fn_hash g)) \<longrightarrow>
       get_version root (merkle_hash_to_string (fn_hash g)) f' = get_version root (merkle_hash_to_string (fn_hash g)) f)"
proof (intro conjI allI impI)
  let ?st = "disk_store c rp f dhs"
  note reads = prune_reads [OF assms]
  show "root_with_children (disk_store c rp f' dhs) fuel commit = root_with_children ?st fuel commit"
    using reads by (cases "merkle_hash_from_str (cm_id commit)") (simp_all add: root_with_children_def)
  show "get_by_id (get_by_hash (disk_store c rp f' dhs) fuel) (cm_id commit) = get_by_id (get_by_hash ?st fuel) (cm_id commit)"
    using reads by (cases "merkle_hash_from_str (cm_id commit)") (simp_all add: get_by_id_def get_by_hash_def get_node_by_id_def)
  fix t x g
  let ?k = "merkle_hash_to_string (fn_hash g)"
  assume a: "root_with_children ?st fuel commit = Inr (Some t) \<and> x \<in> set (tree_nodes t) \<and> t_node x = EFile g \<and> plain_key ?k"
  show "get_version root ?k f' = get_version root ?k f"
  proof (rule prune_repo_cases [OF assms(2,3)])
    assume cr': "collect_referenced_hashes ?st fuel ckv kv rs = Some (Inr (live_nodes ?st fuel commits, live_versions ?st fuel commits))"
    have "?k \<in> file_references (t_node x)" using a by (simp add: file_references_def)
    then have "?k \<in> live_versions ?st fuel commits" using a assms(4) live_versionsI by blast
    then have "local_content root f' ?k = local_content root f ?k"
      using prune_repo_result [OF assms(1) cr' refl refl refl, of dry] assms(3) by (metis Diff_iff option.inject prod.inject)
    from fun_cong [OF this, of "[data_name]"] a show ?thesis
      by (simp add: get_version_at fs_read_def local_content_def)
  qed simp
qed

text \<open>C11: pruning removes exactly what is not reachable. When it succeeds, a node directory is left if and
  only if it was there and its name is no hash or the hash of a reachable node, a version if and only
  if it was there and a reachable file refers to it; the statistics count the removed directories
  and versions. A dry run reports the same counts and removes nothing, but it is not without trace: loading
  the trees makes the directory of every node of them that the repository does not have, so that
  the directories are compared with what the dry run leaves; where all nodes are there, that is the
  disk as it was.\<close>

theorem prune_removes_unreachable:
  assumes "prunable root rp order f"
    and "Commit_History.list_all (get_by_hash (disk_store c rp f dhs) fuel) ckv kv rs = Some (Inr commits)"
    and "prune_repo c rp dhs fuel ckv kv rs order (local_ops order root) False f = Some (Inr s, f')"
    and "prune_repo c rp dhs fuel ckv kv rs order (local_ops order root) True f = Some (r0, f0)"
  shows "(\<forall>x. x \<in> two_level_dirs (nodes_dir rp) f' \<longleftrightarrow> x \<in> two_level_dirs (nodes_dir rp) f0 \<and>
      (\<forall>h. merkle_hash_from_str (fst x @ snd x) = Inr h \<longrightarrow> h \<in> live_nodes (disk_store c rp f dhs) fuel commits)) \<and>
    local_keys root f' = local_keys root f \<inter> live_versions (disk_store c rp f dhs) fuel commits \<and>
    nodes_scanned s = card (two_level_dirs (nodes_dir rp) f0) \<and>
    nodes_removed s = card (two_level_dirs (nodes_dir rp) f - two_level_dirs (nodes_dir rp) f') \<and>
    versions_scanned s = card (local_keys root f) \<and> versions_kept s = card (local_keys root f') \<and>
    versions_removed s = card (local_keys root f - local_keys root f') \<and>
    f0 = after_reading rp (opened_by (disk_store c rp f dhs) fuel commits) f \<and>
    ((\<forall>h \<in> opened_by (disk_store c rp f dhs) fuel commits. path_exists (node_db_path rp h) f) \<longrightarrow> f0 = f) \<and>
    (\<exists>s0. r0 = Inr s0 \<and> nodes_removed s0 = nodes_removed s \<and> versions_removed s0 = versions_removed s)"
proof -
  let ?st = "disk_store c rp f dhs" let ?live = "live_nodes ?st fuel commits" let ?vlive = "live_versions ?st fuel commits"
  let ?n = "nodes_dir rp" let ?f1 = "collected_fs c rp dhs fuel ckv kv rs f" let ?O = "orphans rp ?live ?f1"
  obtain cr where cr: "collect_referenced_hashes ?st fuel ckv kv rs = Some (Inr cr)"
    using assms(3) by (auto simp: prune_repo_def split: option.splits sum.splits)
  then have cr: "collect_referenced_hashes ?st fuel ckv kv rs = Some (Inr (?live, ?vlive))"
    using collect_live(1) [OF cr assms(2)] by simp
  have sep: "separate root ?n" using assms(1) by (simp add: prunable_def)
  obtain s1 g where real: "prune_repo c rp dhs fuel ckv kv rs order (local_ops order root) False f = Some (Inr s1, g)"
      "local_keys root g = local_keys root f \<inter> ?vlive" "fs_outside root g = fs_outside root (gone ?n ?O ?f1)"
      "nodes_scanned s1 = card (two_level_dirs ?n ?f1)" "nodes_removed s1 = card ?O"
      "versions_removed s1 = card (local_keys root f - ?vlive)" "versions_kept s1 = card (local_keys root f \<inter> ?vlive)"
      "versions_scanned s1 = card (local_keys root f)"
    by (rule prune_repo_result [OF assms(1) cr refl refl refl, of False]) (erule that; simp)
  obtain s0 f2 where dry: "prune_repo c rp dhs fuel ckv kv rs order (local_ops order root) True f = Some (Inr s0, f2)"
      "f2 = ?f1" "nodes_removed s0 = card ?O" "versions_removed s0 = card (local_keys root f - ?vlive)"
    by (rule prune_repo_result [OF assms(1) cr refl refl refl, of True]) (erule that; simp)
  have s: "s = s1" "f' = g" "r0 = Inr s0" "f0 = ?f1" using assms(3,4) real(1) dry(1,2) by simp_all
  have f0: "f0 = after_reading rp (opened_by ?st fuel commits) f" by (simp add: s(4) collected_fs_listed [OF assms(2)])
  have O: "?O = orphans rp ?live f"
    unfolding collected_fs_listed [OF assms(2)]
    by (rule orphans_after_reading [OF assms(1) opened_by_exists [OF assms(2)] opened_by_live])
  have mem: "x \<in> two_level_dirs ?n f' \<longleftrightarrow> x \<in> two_level_dirs ?n f0 \<and> x \<notin> ?O" for x
  proof -
    have "path_starts_with (two_level ?n x) ?n" by (cases x) (simp add: two_level_def path_starts_with_append)
    then have "\<not> path_starts_with (two_level ?n x) root" using separate_below [OF sep] by blast
    from outside_same(2) [OF real(3) this] show ?thesis by (simp add: two_level_dirs_def s gone_dirs)
  qed
  have "two_level_dirs ?n f \<subseteq> two_level_dirs ?n f0" by (auto simp: two_level_dirs_def f0 after_reading_def)
  then have "two_level_dirs ?n f - two_level_dirs ?n f' = ?O" using mem O by (auto simp: orphans_def)
  moreover have "x \<in> two_level_dirs ?n f' \<longleftrightarrow> x \<in> two_level_dirs ?n f0 \<and>
      (\<forall>h. merkle_hash_from_str (fst x @ snd x) = Inr h \<longrightarrow> h \<in> ?live)" for x
    using mem by (auto simp: orphans_def s(4))
  moreover have "local_keys root f - (local_keys root f \<inter> ?vlive) = local_keys root f - ?vlive" by blast
  moreover have "f0 = f" if "\<forall>h \<in> opened_by ?st fuel commits. path_exists (node_db_path rp h) f"
    unfolding f0 using that by (rule after_reading_present)
  ultimately show ?thesis using real dry s f0 by simp
qed

text \<open>Only branches keep commits alive: where \<open>HEAD\<close> points makes no difference.\<close>

lemma prune_ignores_head:
  "prune_repo c rp dhs fuel ckv kv (rs\<lparr>rf_head := head\<rparr>) order vs dry f = prune_repo c rp dhs fuel ckv kv rs order vs dry f"
proof -
  let ?st = "disk_store c rp f dhs"
  have list: "Commit_History.list_all (get_by_hash ?st fuel) ckv kv (rs\<lparr>rf_head := head\<rparr>) =
      Commit_History.list_all (get_by_hash ?st fuel) ckv kv rs"
    by (simp add: Commit_History.list_all_def list_branches_def)
  have "collect_referenced_hashes ?st fuel ckv kv (rs\<lparr>rf_head := head\<rparr>) = collect_referenced_hashes ?st fuel ckv kv rs"
    "opened_by_collecting ?st fuel ckv kv (rs\<lparr>rf_head := head\<rparr>) = opened_by_collecting ?st fuel ckv kv rs"
    unfolding collect_referenced_hashes_def opened_by_collecting_def list by (rule refl)+
  then show ?thesis by (simp only: prune_repo_def collected_fs_def)
qed

section \<open>A sample repository\<close>

text \<open>One commit with one file, an orphaned node directory and an orphaned version.\<close>

definition gc_codec :: codec where
  "gc_codec =
     \<lparr>to_msgpack_bytes = (\<lambda>n. case n of EFileChunk _ \<Rightarrow> Inl DbEncode | _ \<Rightarrow> Inr [ucast (node_hash n)]),
      slice_file = (\<lambda>bs. if bs = [0xbc] then Some (sample_file ''a'' 0xabc) else None), slice_file_data = (\<lambda>_. None),
      slice_dir = (\<lambda>bs. if bs = [8] then Some (sample_dir '''' 8) else None), slice_dir_data = (\<lambda>_. None),
      slice_vnode = (\<lambda>bs. if bs = [7] then Some (sample_vnode 7) else None), slice_vnode_data = (\<lambda>_. None),
      slice_commit = (\<lambda>bs. if bs = [9] then Some (sample_commit 9 [] 0) else None), slice_commit_data = (\<lambda>_. None),
      slice_chunk = (\<lambda>_. None)\<rparr>"

definition gc_tree :: merkle_tree_node where
  "gc_tree =
     MTNode 9 (ECommit (sample_commit 9 [] 0)) (Some 0)
       [MTNode 8 (EDirectory (sample_dir '''' 8)) (Some 9)
         [MTNode 7 (EVNode (sample_vnode 7)) (Some 8)
           [MTNode 0xabc (EFile (sample_file ''a'' 0xabc)) (Some 7) []]]]"

definition gc_nodes :: path where
  "gc_nodes = [Normal ''.oxen'', Normal ''tree'', Normal ''nodes'']"

definition gc_node_files :: "e_merkle_tree_node \<Rightarrow> e_merkle_tree_node list \<Rightarrow> merkle_hash option \<Rightarrow> (path \<times> byte list) list" where
  "gc_node_files n kids pid =
     [(gc_nodes @ [Normal (merkle_hash_to_string (node_hash n)), node_file_name],
       node_header gc_codec n pid @ concat (map enc_entry (child_table gc_codec 0 kids))),
      (gc_nodes @ [Normal (merkle_hash_to_string (node_hash n)), children_file_name], concat (map (node_bytes gc_codec) kids))]"

definition gc_fs :: fs where
  "gc_fs =
     \<lparr>fs_dirs = {[], [Normal ''.oxen''], [Normal ''.oxen'', Normal ''tree''], gc_nodes, gc_nodes @ [Normal ''9''],
        gc_nodes @ [Normal ''8''], gc_nodes @ [Normal ''7''], gc_nodes @ [Normal ''abc''],
        gc_nodes @ [Normal ''abc'', Normal ''def''], [Normal ''.oxen'', Normal ''versions''], local_root [] None,
        local_root [] None @ [Normal ''ab''], local_root [] None @ [Normal ''ab'', Normal ''c''],
        local_root [] None @ [Normal ''ab'', Normal ''d'']},
      fs_files = map_of (
        gc_node_files (ECommit (sample_commit 9 [] 0)) [EDirectory (sample_dir '''' 8)] None @
        gc_node_files (EDirectory (sample_dir '''' 8)) [EVNode (sample_vnode 7)] (Some 9) @
        gc_node_files (EVNode (sample_vnode 7)) [EFile (sample_file ''a'' 0xabc)] (Some 8) @
        [(local_root [] None @ [Normal ''ab'', Normal ''c'', data_name], [1]),
         (local_root [] None @ [Normal ''ab'', Normal ''d'', data_name], [2])])\<rparr>"

definition gc_refs :: "(string \<times> string) list refs" where
  "gc_refs = \<lparr>rf_db = [(''main'', ''9'')], rf_head = Some ''main''\<rparr>"

lemma gc_texts: "merkle_hash_to_string 9 = ''9''" "merkle_hash_to_string 8 = ''8''" "merkle_hash_to_string 7 = ''7''"
  "merkle_hash_to_string 0xabc = ''abc''" "merkle_hash_to_string 0xabcdef = ''abcdef''"
  by (simp_all add: merkle_hash_to_string_def hex_digits.simps hex_digit_def) code_simp+

lemma gc_bytes [simp]:
  "node_bytes gc_codec (ECommit cn) = [ucast (cn_hash cn)]" "node_bytes gc_codec (EDirectory d) = [ucast (dn_hash d)]"
  "node_bytes gc_codec (EVNode v) = [ucast (vn_hash v)]" "node_bytes gc_codec (EFile g) = [ucast (fn_hash g)]"
  by (simp_all add: node_bytes_def gc_codec_def)

lemma gc_codec_ok [simp]:
  "node_codec_ok gc_codec (ECommit (sample_commit 9 [] 0))" "node_codec_ok gc_codec (EDirectory (sample_dir '''' 8))"
  "node_codec_ok gc_codec (EVNode (sample_vnode 7))" "node_codec_ok gc_codec (EFile (sample_file ''a'' 0xabc))"
  by (simp_all add: node_codec_ok_def gc_codec_def commit_node_deserialize_def dir_node_deserialize_def
      vnode_deserialize_def file_node_deserialize_def)
     (simp_all add: sample_commit_def sample_dir_def sample_vnode_def sample_file_def file_node_default_def)

lemma gc_node_paths: "node_db_path [] 9 = gc_nodes @ [Normal ''9'']" "node_db_path [] 8 = gc_nodes @ [Normal ''8'']"
  "node_db_path [] 7 = gc_nodes @ [Normal ''7'']"
  by (simp_all add: node_db_path_eq node_db_prefix_eq nodes_dir_def gc_nodes_def Let_def gc_texts)

lemmas gc_layout = gc_node_paths gc_texts gc_fs_def gc_node_files_def gc_nodes_def local_root_def data_name_def
  node_file_name_def children_file_name_def

lemma gc_views:
  "read_view gc_codec [] gc_fs 9 = (Inr (MTNode 9 (ECommit (sample_commit 9 [] 0)) (Some 0) []),
     Inr [(8, MTNode 8 (EDirectory (sample_dir '''' 8)) (Some 9) [])])"
  "read_view gc_codec [] gc_fs 8 = (Inr (MTNode 8 (EDirectory (sample_dir '''' 8)) (Some 9) []),
     Inr [(7, MTNode 7 (EVNode (sample_vnode 7)) (Some 8) [])])"
  "read_view gc_codec [] gc_fs 7 = (Inr (MTNode 7 (EVNode (sample_vnode 7)) (Some 8) []),
     Inr [(0xabc, MTNode 0xabc (EFile (sample_file ''a'' 0xabc)) (Some 7) [])])"
  using read_view_written [where c = gc_codec and n = "ECommit (sample_commit 9 [] 0)" and f = gc_fs and rp = "[]"
      and pid = None and kids = "[EDirectory (sample_dir '''' 8)]"]
    read_view_written [where c = gc_codec and n = "EDirectory (sample_dir '''' 8)" and f = gc_fs and rp = "[]"
      and pid = "Some 9" and kids = "[EVNode (sample_vnode 7)]"]
    read_view_written [where c = gc_codec and n = "EVNode (sample_vnode 7)" and f = gc_fs and rp = "[]"
      and pid = "Some 8" and kids = "[EFile (sample_file ''a'' 0xabc)]"]
  by (simp_all add: gc_layout)

lemma gc_exists: "db_exists [] 9 gc_fs" "db_exists [] 8 gc_fs" "db_exists [] 7 gc_fs"
  by (simp_all add: db_exists_def path_exists_def Let_def gc_layout)

abbreviation gc_store :: node_store where
  "gc_store \<equiv> disk_store gc_codec [] gc_fs (\<lambda>_. Inr [])"

definition gc_commit :: commit where
  "gc_commit = commit_node_to_commit (sample_commit 9 [] 0)"

lemma gc_stored: "stored gc_store gc_tree" "st_from_hash gc_store 9 = Inr (strip gc_tree)" "may_have_children gc_tree"
  by (auto simp: gc_tree_def disk_store_def gc_views gc_exists may_have_children_def strip_def)

lemma gc_root: "root_with_children gc_store 4 gc_commit = Inr (Some gc_tree)"
proof -
  have "tree_size gc_tree \<le> 4" "t_hash gc_tree = 9" by (simp_all add: gc_tree_def)
  with read_node_stored [OF gc_stored(1,3), of 4] gc_stored(2) have "read_node gc_store 4 9 True = Inr (Some gc_tree)" by simp
  then show ?thesis by (simp add: root_with_children_def gc_commit_def commit_node_to_commit_def sample_commit_def cn_hash_def)
qed

lemma gc_get: "get_by_hash gc_store 4 9 = Inr (Some gc_commit)"
proof -
  have "tree_size gc_tree \<le> 4" by (simp add: gc_tree_def)
  then obtain pid where "\<And>d. read_depth gc_store 4 (t_hash gc_tree) d =
      Inr (Some (MTNode (t_hash gc_tree) (t_node gc_tree) pid (t_children (prune None d 0 gc_tree))))"
    using read_depth_stored [OF gc_stored(1,3)] by metis
  then show ?thesis by (simp add: get_by_hash_def get_node_by_id_def read_node_def gc_tree_def node_commit_def gc_commit_def)
qed

lemma gc_list_all: "Commit_History.list_all (get_by_hash gc_store 4) (list_kv :: ((string \<times> nat) list, nat) kv_ops) list_kv gc_refs =
    Some (Inr [gc_commit])"
proof -
  have id: "merkle_hash_from_str ''9'' = Inr 9" by (metis gc_texts(1) from_str_to_string)
  have c: "cm_parent_ids gc_commit = []" by (simp add: gc_commit_def commit_node_to_commit_def sample_commit_def cn_parent_ids_def)
  have pop: "heap_pop [gc_commit] = Some (gc_commit, [])" "heap_pop [] = None" by (simp_all add: heap_pop_def)
  have "list_all_recursive (get_by_hash gc_store 4) (list_kv :: ((string \<times> nat) list, nat) kv_ops) gc_commit [] = Some (Inr [gc_commit])"
    by (simp add: list_all_recursive_def traverse_commits_def usize_add_def usize_max_def traverse_loop.simps pop is_stop_def
        is_cached_def c collect_page_def insert_by_def)
  then show ?thesis
    by (simp add: Commit_History.list_all_def list_branches_def gc_refs_def list_kv_def get_by_id_def id gc_get)
qed

lemma gc_two_level: "two_level_dirs (nodes_dir []) gc_fs = {(''abc'', ''def'')}"
  "two_level_dirs (local_root [] None) gc_fs = {(''ab'', ''c''), (''ab'', ''d'')}"
  by (auto simp: two_level_dirs_def two_level_def nodes_dir_def gc_fs_def gc_nodes_def local_root_def)

lemma gc_prunable: "prunable (local_root [] None) [] rev gc_fs"
proof -
  have "fs_wf gc_fs"
    by (auto simp: fs_wf_def gc_fs_def gc_nodes_def local_root_def valid_name_def append_eq_Cons_conv)
  moreover have "local_root [] None \<in> fs_dirs gc_fs" by (simp add: gc_fs_def)
  moreover have "plain_key ''abc''" "plain_key ''abd''" by (simp_all add: plain_key_def slice_ok_def)
  moreover have "separate (local_root [] None) (nodes_dir [])" "fs_files gc_fs (nodes_dir []) = None"
    by (simp_all add: separate_def path_starts_with_def local_root_def nodes_dir_def gc_layout)
  moreover have "set (path_ancestors (nodes_dir [])) \<subseteq> fs_dirs gc_fs"
    by (simp add: nodes_dir_def gc_fs_def gc_nodes_def path_ancestors.simps path_parent_def)
  then have "\<forall>h. db_exists [] h gc_fs \<longrightarrow> set (path_ancestors (nodes_dir [])) \<subseteq> fs_dirs gc_fs" by blast
  ultimately show ?thesis by (simp add: prunable_def fair_order_def local_ok_def gc_two_level)
qed

lemma gc_there: "path_exists (node_db_path [] 9) gc_fs" "path_exists (node_db_path [] 8) gc_fs" "path_exists (node_db_path [] 7) gc_fs"
  by (simp_all add: path_exists_def gc_layout)

lemma gc_live: "live_nodes gc_store 4 [gc_commit] = {9, 8, 7, 0xabc}" "live_versions gc_store 4 [gc_commit] = {''abc''}"
  by (auto simp: live_nodes_def live_versions_def live_trees_def gc_root gc_tree_def file_references_def gc_texts
      sample_file_def file_node_default_def fn_hash_def)

abbreviation gc_prune :: "bool \<Rightarrow> (prune_stats res \<times> fs) option" where
  "gc_prune dry \<equiv> prune_repo gc_codec [] (\<lambda>_. Inr []) 4 (list_kv :: ((string \<times> nat) list, nat) kv_ops) list_kv gc_refs rev
     (local_ops rev (local_root [] None)) dry gc_fs"

lemma gc_prune_done: "\<exists>s f'. gc_prune dry = Some (Inr s, f')"
proof -
  have "collect_referenced_hashes gc_store 4 (list_kv :: ((string \<times> nat) list, nat) kv_ops) list_kv gc_refs =
      Some (Inr (collect_node_hashes gc_tree ({}, {})))"
    by (simp add: collect_referenced_hashes_def gc_list_all gc_root)
  then obtain cr where "collect_referenced_hashes gc_store 4 (list_kv :: ((string \<times> nat) list, nat) kv_ops) list_kv gc_refs =
      Some (Inr (fst cr, snd cr))" by simp
  from prune_repo_result [OF gc_prunable this refl refl refl, of dry] show ?thesis by metis
qed

lemma prune_keeps_reachable_witness:
  "\<exists>s f'. gc_prune False = Some (Inr s, f') \<and>
     root_with_children (disk_store gc_codec [] f' (\<lambda>_. Inr [])) 4 gc_commit = Inr (Some gc_tree) \<and>
     get_version (local_root [] None) ''abc'' f' = Inr [1]"
proof -
  obtain s f' where p: "gc_prune False = Some (Inr s, f')" using gc_prune_done by blast
  note keeps = prune_keeps_reachable [OF gc_prunable gc_list_all p, of gc_commit]
  have leaf: "MTNode 0xabc (EFile (sample_file ''a'' 0xabc)) (Some 7) [] \<in> set (tree_nodes gc_tree)"
    by (simp add: gc_tree_def)
  have key: "merkle_hash_to_string (fn_hash (sample_file ''a'' 0xabc)) = ''abc''" "plain_key ''abc''"
    by (simp_all add: gc_texts plain_key_def slice_ok_def)
  from keeps gc_root leaf key have "get_version (local_root [] None) ''abc'' f' = get_version (local_root [] None) ''abc'' gc_fs"
    by (metis list.set_intros(1) merkle_tree_node.sel(2))
  also have "\<dots> = Inr [1]" by (simp add: get_version_at key fs_read_def key_dir_def gc_layout)
  finally show ?thesis using keeps gc_root p by simp
qed

lemma prune_removes_unreachable_witness:
  "\<exists>s f'. gc_prune False = Some (Inr s, f') \<and> local_keys (local_root [] None) f' = {''abc''} \<and>
     two_level_dirs (nodes_dir []) f' = {} \<and> nodes_removed s = 1 \<and> versions_removed s = 1"
proof -
  obtain s f' where p: "gc_prune False = Some (Inr s, f')" using gc_prune_done by blast
  obtain s0 f0 where d: "gc_prune True = Some (Inr s0, f0)" using gc_prune_done by blast
  note result = prune_removes_unreachable [OF gc_prunable gc_list_all p d]
  have "\<forall>h \<in> opened_by gc_store 4 [gc_commit]. path_exists (node_db_path [] h) gc_fs"
    by (simp add: opened_by_def live_trees_def gc_root gc_tree_def may_have_children_def gc_there)
  with result have "f0 = gc_fs" by blast
  note removes = result [unfolded this]
  have parse: "merkle_hash_from_str ''abcdef'' = Inr 0xabcdef" by (metis gc_texts(5) from_str_to_string)
  have mem: "x \<in> two_level_dirs (nodes_dir []) f' \<longleftrightarrow> x \<in> {(''abc'', ''def'')} \<and>
      (\<forall>h. merkle_hash_from_str (fst x @ snd x) = Inr h \<longrightarrow> h \<in> {9, 8, 7, 0xabc})" for x
    using removes [THEN conjunct1, THEN spec, of x] unfolding gc_two_level gc_live .
  have nodes: "two_level_dirs (nodes_dir []) f' = {}"
  proof (rule set_eqI)
    fix x
    show "x \<in> two_level_dirs (nodes_dir []) f' \<longleftrightarrow> x \<in> {}"
      by (cases "x = (''abc'', ''def'')") (simp_all add: mem parse)
  qed
  have keys: "local_keys (local_root [] None) gc_fs = {''abc'', ''abd''}" by (simp add: local_keys_def gc_two_level)
  have "local_keys (local_root [] None) f' = {''abc''}" using removes by (simp add: keys gc_live)
  moreover have "nodes_removed s = 1" "versions_removed s = 1" using removes by (simp_all add: nodes gc_two_level keys gc_live)
  ultimately show ?thesis using p nodes by blast
qed

end
