(* ===== verification/Working_Tree.thy ===== *)
theory Working_Tree
  imports Version_Store Commit_Split Tree_Queries
begin

text \<open>
  The files a user works on: their contents and modification times, whether one still is what a
  commit recorded (\<open>model/repository/local_repository.rs\<close>, \<open>core/v_latest/index/restore.rs\<close>),
  restoring one from the version store, and the marker of an interrupted merge
  (\<open>core/v_latest/merge_marker.rs\<close>). What the system decides by itself is an argument
  (\<open>work_env\<close>): the time at which a file is written, the rounding of a time it is given, what it
  reports of a directory; so is the content hash, and the hash of the metadata read from a file
  (images, audio and tables are read by third-party code).
\<close>

section \<open>Files and times\<close>

text \<open>\<open>FileTime\<close>: seconds since the epoch and nanoseconds.\<close>

type_synonym file_time = "int \<times> nat"

record work_tree =
  wt_fs :: fs
  wt_mtime :: "path \<Rightarrow> file_time"

record work_env =
  wk_repo :: path
  wk_store :: path
  wk_tolerance :: nat
  wk_now :: file_time
  wk_round :: "file_time \<Rightarrow> file_time"
  wk_dir_stat :: "fs \<Rightarrow> path \<Rightarrow> nat \<times> file_time"
  wk_hash :: "byte list \<Rightarrow> merkle_hash"
  wk_metadata_hash :: "fs \<Rightarrow> path \<Rightarrow> merkle_hash option res"

text \<open>The number of nanoseconds since the epoch; the tolerance is in nanoseconds too.\<close>

definition time_ns :: "file_time \<Rightarrow> int" where
  "time_ns t = fst t * 10 ^ 9 + int (snd t)"

text \<open>The size and the modification time (\<open>util::fs::metadata\<close>).\<close>

definition metadata :: "work_env \<Rightarrow> path \<Rightarrow> work_tree \<Rightarrow> (nat \<times> file_time) res" where
  "metadata env p w =
     (case fs_files (wt_fs w) p of
        Some bs \<Rightarrow> Inr (length bs, wt_mtime w p)
      | None \<Rightarrow> if p \<in> fs_dirs (wt_fs w) then Inr (wk_dir_stat env (wt_fs w) p)
                else Inl (Basic ''No such file or directory''))"

text \<open>A time before the epoch, read as an unsigned number of seconds, overflows the clock.\<close>

definition system_time :: "file_time \<Rightarrow> file_time res" where
  "system_time t =
     (if fst t < 0 then Inl (Panic ''overflow when adding duration to instant'') else Inr t)"

definition mtime_matches :: "work_env \<Rightarrow> file_time \<Rightarrow> file_time \<Rightarrow> bool res" where
  "mtime_matches env disk node =
     (if disk = node then Inr True
      else if wk_tolerance env = 0 then Inr False
      else rbind (system_time disk) (\<lambda>disk.
           rbind (system_time node) (\<lambda>node.
             Inr (\<bar>time_ns disk - time_ns node\<bar> \<le> int (wk_tolerance env)))))"

definition u128_hash_file_contents :: "work_env \<Rightarrow> path \<Rightarrow> work_tree \<Rightarrow> merkle_hash res" where
  "u128_hash_file_contents env p w =
     rbind (metadata env p w) (\<lambda>_.
       case fs_files (wt_fs w) p of
         Some bs \<Rightarrow> Inr (wk_hash env bs)
       | None \<Rightarrow> Inl (Basic ''Could not read file for hashing''))"

text \<open>The hash of content and metadata: of the content alone where there is no metadata.\<close>

definition get_combined_hash :: "work_env \<Rightarrow> merkle_hash option \<Rightarrow> merkle_hash \<Rightarrow> merkle_hash" where
  "get_combined_hash env oxen_metadata_hash content_hash =
     (case oxen_metadata_hash of
        Some m \<Rightarrow> wk_hash env (hash_le content_hash @ hash_le m)
      | None \<Rightarrow> content_hash)"

definition fn_last_modified :: "file_node \<Rightarrow> file_time res" where
  "fn_last_modified f = last_modified_time (fn_last_modified_seconds f) (fn_last_modified_nanoseconds f)"

section \<open>Is a file what a commit recorded?\<close>

definition working_path :: "work_env \<Rightarrow> path \<Rightarrow> path" where
  "working_path env p = path_join (wk_repo env) p"

text \<open>\<open>size_and_mtime_match\<close> is the comparison the functions below begin with.\<close>

definition size_and_mtime_match :: "work_env \<Rightarrow> nat \<times> file_time \<Rightarrow> file_time \<Rightarrow> u64 \<Rightarrow> bool res" where
  "size_and_mtime_match env meta node_time node_size =
     rbind (mtime_matches env (snd meta) node_time) (\<lambda>b. Inr (b \<and> fst meta = unat node_size))"

definition should_restore_partial_node ::
  "work_env \<Rightarrow> partial_node option \<Rightarrow> file_node \<Rightarrow> path \<Rightarrow> work_tree \<Rightarrow> bool res" where
  "should_restore_partial_node env base_node file_node path w =
     (let working = working_path env path
      in if \<not> path_exists working (wt_fs w) then Inr True
         else rbind (metadata env working w) (\<lambda>meta.
           case base_node of
             Some base \<Rightarrow>
               rbind (size_and_mtime_match env meta (pn_last_modified base) (pn_size base)) (\<lambda>same.
                 if same then Inr True
                 else rbind (u128_hash_file_contents env working w) (\<lambda>hash.
                   Inr (hash = fn_hash file_node \<or> hash = pn_hash base)))
           | None \<Rightarrow>
               rbind (fn_last_modified file_node) (\<lambda>t.
               rbind (size_and_mtime_match env meta t (fn_num_bytes file_node)) (\<lambda>same.
                 if same then Inr True
                 else rbind (u128_hash_file_contents env working w) (\<lambda>hash. Inr (hash = fn_hash file_node))))))"

text \<open>The metadata are read at the path as given, relative to the directory the program runs in.\<close>

definition file_combined_hash :: "work_env \<Rightarrow> path \<Rightarrow> path \<Rightarrow> work_tree \<Rightarrow> merkle_hash res" where
  "file_combined_hash env working path w =
     rbind (u128_hash_file_contents env working w) (\<lambda>file_hash.
     rbind (wk_metadata_hash env (wt_fs w) path) (\<lambda>m. Inr (get_combined_hash env m file_hash)))"

definition should_restore_file ::
  "work_env \<Rightarrow> file_node option \<Rightarrow> file_node \<Rightarrow> path \<Rightarrow> work_tree \<Rightarrow> bool res" where
  "should_restore_file env base_node file_node path w =
     (let working = working_path env path
      in if \<not> path_exists working (wt_fs w) then Inr True
         else rbind (metadata env working w) (\<lambda>meta.
           case base_node of
             Some base \<Rightarrow>
               rbind (fn_last_modified base) (\<lambda>t.
               rbind (size_and_mtime_match env meta t (fn_num_bytes base)) (\<lambda>same.
                 if same then Inr True
                 else rbind (file_combined_hash env working path w) (\<lambda>hash.
                   Inr (hash = fn_combined_hash file_node \<or> hash = fn_combined_hash base))))
           | None \<Rightarrow>
               rbind (fn_last_modified file_node) (\<lambda>t.
               rbind (size_and_mtime_match env meta t (fn_num_bytes file_node)) (\<lambda>same.
                 if same then Inr True
                 else rbind (file_combined_hash env working path w) (\<lambda>hash.
                   Inr (hash = fn_combined_hash file_node))))))"

text \<open>
  \<open>classify_modified_from_node_with_metadata\<close> and \<open>is_modified_from_node\<close> of a repository, which
  reads the metadata at the path of the working tree. A file that is gone is not modified.
\<close>

definition fn_metadata_hash :: "file_node \<Rightarrow> merkle_hash option" where
  "fn_metadata_hash f = fd_metadata_hash (file_data f)"

definition classify_modified :: "work_env \<Rightarrow> path \<Rightarrow> file_node \<Rightarrow> nat \<Rightarrow> bool \<Rightarrow> work_tree \<Rightarrow> bool res" where
  "classify_modified env full_path node len mtime_matched w =
     (if len \<noteq> unat (fn_num_bytes node) then Inr True
      else if mtime_matched then Inr False
      else rbind (wk_metadata_hash env (wt_fs w) full_path) (\<lambda>m.
        case (fn_metadata_hash node, m) of
          (Some a, Some b) \<Rightarrow>
            if a \<noteq> b then Inr True
            else rbind (u128_hash_file_contents env full_path w) (\<lambda>hash. Inr (fn_hash node \<noteq> hash))
        | _ \<Rightarrow> rbind (u128_hash_file_contents env full_path w) (\<lambda>hash. Inr (fn_hash node \<noteq> hash))))"

definition is_modified_from_node :: "work_env \<Rightarrow> path \<Rightarrow> file_node \<Rightarrow> work_tree \<Rightarrow> bool res" where
  "is_modified_from_node env full_path node w =
     (if \<not> path_exists full_path (wt_fs w) then Inr False
      else rbind (metadata env full_path w) (\<lambda>meta.
           rbind (fn_last_modified node) (\<lambda>t.
           rbind (mtime_matches env (snd meta) t) (\<lambda>matched.
             classify_modified env full_path node (fst meta) matched w))))"

section \<open>Restoring and removing files\<close>

definition on_fs :: "(fs, 'a) st \<Rightarrow> (work_tree, 'a) st" where
  "on_fs m = (\<lambda>w. case m (wt_fs w) of (r, f) \<Rightarrow> (r, w\<lparr>wt_fs := f\<rparr>))"

definition set_mtime :: "path \<Rightarrow> file_time \<Rightarrow> (work_tree, unit) st" where
  "set_mtime p t = (\<lambda>w. (Inr (), w\<lparr>wt_mtime := (wt_mtime w)(p := t)\<rparr>))"

text \<open>\<open>util::fs::create_dir_all\<close> is content with anything that is there.\<close>

definition util_create_dir_all :: "path \<Rightarrow> (fs, unit) st" where
  "util_create_dir_all p f = (if path_exists p f then (Inr (), f) else mkdir_all p f)"

definition fs_remove_file :: "path \<Rightarrow> (fs, unit) st" where
  "fs_remove_file p f =
     (if fs_files f p = None then (Inl (IO ''remove_file''), f)
      else (Inr (), f\<lparr>fs_files := (fs_files f)(p := None)\<rparr>))"

text \<open>The fast path: size and time on the disk are the recorded ones, up to the tolerance.\<close>

definition already_restored :: "work_env \<Rightarrow> file_node \<Rightarrow> file_time \<Rightarrow> path \<Rightarrow> work_tree \<Rightarrow> bool" where
  "already_restored env file_node expected working w =
     (case metadata env working w of
        Inl _ \<Rightarrow> False
      | Inr (len, mtime) \<Rightarrow> len = unat (fn_num_bytes file_node) \<and>
          \<bar>time_ns mtime - time_ns expected\<bar> \<le> int (wk_tolerance env))"

definition restore_file :: "work_env \<Rightarrow> file_node \<Rightarrow> path \<Rightarrow> (work_tree, unit) st" where
  "restore_file env file_node path =
     sbind (slift (fn_last_modified file_node)) (\<lambda>expected w.
       let working = working_path env path
       in if already_restored env file_node expected working w then (Inr (), w)
          else sbind (slift (ok_or (Panic ''unwrap'') (path_parent working))) (\<lambda>parent.
               sbind (on_fs (util_create_dir_all parent)) (\<lambda>_.
               sbind (on_fs (copy_version_to_path (wk_store env) (merkle_hash_to_string (fn_hash file_node)) working)) (\<lambda>_.
               sbind (set_mtime working (wk_now env)) (\<lambda>_.
                 set_mtime working (wk_round env expected))))) w)"

text \<open>A directory (\<open>restore_dir\<close>): errors of single files are logged, the others go on.\<close>

definition ignoring :: "('s, unit) st \<Rightarrow> ('s, unit) st" where
  "ignoring m = (\<lambda>s. (Inr (), snd (m s)))"

definition restore_dir ::
  "(file_node \<times> path \<Rightarrow> file_node \<times> path \<Rightarrow> bool) \<Rightarrow> work_env \<Rightarrow> merkle_tree_node \<Rightarrow> path \<Rightarrow> (work_tree, unit) st" where
  "restore_dir found env dir path =
     sbind (slift (dir_entries_with_paths found dir path)) (\<lambda>entries.
       sfor (\<lambda>(f, p). ignoring (restore_file env f p)) entries)"

text \<open>The loop of \<open>restore\<close> over paths relative to the repository.\<close>

definition restore_path ::
  "(file_node \<times> path \<Rightarrow> file_node \<times> path \<Rightarrow> bool) \<Rightarrow> work_env \<Rightarrow> node_store \<Rightarrow> nat \<Rightarrow> commit \<Rightarrow> path \<Rightarrow> (work_tree, unit) st" where
  "restore_path found env st fuel commit path =
     sbind (slift (get_node_by_path_with_children (wk_hash env) st fuel commit path)) (\<lambda>r.
       case r of
         None \<Rightarrow> slift (Inr ())
       | Some node \<Rightarrow>
           (case t_node node of
              EDirectory _ \<Rightarrow> ignoring (restore_dir found env node path)
            | EFile f \<Rightarrow> ignoring (restore_file env f path)
            | _ \<Rightarrow> slift (Inl (Basic ''Error: Unexpected node type''))))"

definition restore_paths ::
  "(file_node \<times> path \<Rightarrow> file_node \<times> path \<Rightarrow> bool) \<Rightarrow> work_env \<Rightarrow> node_store \<Rightarrow> nat \<Rightarrow> commit \<Rightarrow> path list \<Rightarrow> (work_tree, unit) st" where
  "restore_paths found env st fuel commit paths = sfor (restore_path found env st fuel commit) paths"

section \<open>The marker of an interrupted merge\<close>

text \<open>\<open>read_to_string\<close> needs well-formed UTF-8.\<close>

definition utf8_tail :: "nat \<Rightarrow> bool" where
  "utf8_tail b \<longleftrightarrow> 0x80 \<le> b \<and> b < 0xC0"

fun utf8_ok :: "nat list \<Rightarrow> bool" where
  "utf8_ok [] = True"
| "utf8_ok (a # bs) =
     (if a < 0x80 then utf8_ok bs
      else case bs of
        b # cs \<Rightarrow>
          if 0xC2 \<le> a \<and> a \<le> 0xDF then utf8_tail b \<and> utf8_ok cs
          else (case cs of
            c # ds \<Rightarrow>
              if 0xE0 \<le> a \<and> a \<le> 0xEF
              then utf8_tail b \<and> (a = 0xE0 \<longrightarrow> 0xA0 \<le> b) \<and> (a = 0xED \<longrightarrow> b < 0xA0) \<and> utf8_tail c \<and> utf8_ok ds
              else (case ds of
                d # es \<Rightarrow> 0xF0 \<le> a \<and> a \<le> 0xF4 \<and> utf8_tail b \<and> (a = 0xF0 \<longrightarrow> 0x90 \<le> b) \<and> (a = 0xF4 \<longrightarrow> b < 0x90) \<and>
                    utf8_tail c \<and> utf8_tail d \<and> utf8_ok es
              | [] \<Rightarrow> False)
          | [] \<Rightarrow> False)
      | [] \<Rightarrow> False)"

text \<open>\<open>str::trim\<close>: the characters that are \<open>White_Space\<close>, as the bytes they take.\<close>

definition white_space :: "nat list list" where
  "white_space =
     [[9], [10], [11], [12], [13], [32], [0xC2, 0x85], [0xC2, 0xA0], [0xE1, 0x9A, 0x80]] @
     map (\<lambda>b. [0xE2, 0x80, b]) [0x80 ..< 0x8B] @
     [[0xE2, 0x80, 0xA8], [0xE2, 0x80, 0xA9], [0xE2, 0x80, 0xAF], [0xE2, 0x81, 0x9F], [0xE3, 0x80, 0x80]]"

text \<open>\<open>trim_chars cs\<close> removes what starts with one of \<open>cs\<close>, repeatedly; the length bounds it.\<close>

fun trim_chars :: "nat list list \<Rightarrow> nat \<Rightarrow> nat list \<Rightarrow> nat list" where
  "trim_chars cs 0 bs = bs"
| "trim_chars cs (Suc k) bs =
     (case List.find (\<lambda>c. take (length c) bs = c) cs of
        Some c \<Rightarrow> trim_chars cs k (drop (length c) bs)
      | None \<Rightarrow> bs)"

definition trim_bytes :: "nat list \<Rightarrow> nat list" where
  "trim_bytes bs =
     (let front = trim_chars white_space (length bs) bs
      in rev (trim_chars (map rev white_space) (length front) (rev front)))"

definition marker_path :: "work_env \<Rightarrow> path" where
  "marker_path env = path_join (wk_repo env) [Normal ''.oxen'', Normal ''MERGE_IN_PROGRESS'']"

definition marker_write :: "work_env \<Rightarrow> string \<Rightarrow> (fs, unit) st" where
  "marker_write env target_commit_id = fs_write (marker_path env) (as_bytes target_commit_id)"

definition marker_read :: "work_env \<Rightarrow> fs \<Rightarrow> string option res" where
  "marker_read env f =
     (case fs_files f (marker_path env) of
        Some bs \<Rightarrow>
          (if utf8_ok (map unat bs) then Inr (Some (map char_of (trim_bytes (map unat bs))))
           else Inl (IO ''stream did not contain valid UTF-8''))
      | None \<Rightarrow> if marker_path env \<in> fs_dirs f then Inl (IO ''Is a directory'') else Inr None)"

definition marker_clear :: "work_env \<Rightarrow> (fs, unit) st" where
  "marker_clear env f =
     (if path_exists (marker_path env) f then fs_remove_file (marker_path env) f else (Inr (), f))"

definition marker_exists :: "work_env \<Rightarrow> fs \<Rightarrow> bool" where
  "marker_exists env f = path_exists (marker_path env) f"

end
