(* ===== verification/Fast_Forward.thy ===== *)
theory Fast_Forward
  imports Working_Tree Three_Way_Merge
begin

text \<open>
  The fast-forward merge with a checkout (\<open>core/v_latest/merge.rs\<close>): the merge commit's tree is
  walked for the files to restore, the base commit's for the files to remove, both without what the
  trees share; if no local change would be lost, the working tree is brought to the merge commit and
  \<open>HEAD\<close> moves. A marker names the target while the files are being changed, so that a merge that
  was interrupted goes on where it stopped.
\<close>

section \<open>Walking a tree\<close>

text \<open>
  The loop of \<open>walk_merge_commit\<close> and \<open>walk_base_dir\<close>: a stack whose last element is popped, here
  its head. Of a directory only the children of the vnodes that are not shared are pushed.
\<close>

definition unshared_children :: "merkle_hash set \<Rightarrow> path \<Rightarrow> merkle_tree_node list \<Rightarrow> (path \<times> merkle_tree_node) list" where
  "unshared_children shared dir_path vnodes =
     concat (map (\<lambda>v. if t_hash v \<in> shared then [] else map (Pair dir_path) (t_children v)) vnodes)"

lemma unshared_children_size:
  "sum_list (map (tree_size \<circ> snd) (unshared_children S p vs)) \<le> sum_list (map tree_size vs)"
proof (induction vs)
  case (Cons v vs)
  have "sum_list (map tree_size (t_children v)) \<le> tree_size v" by (cases v) simp
  with Cons show ?case by (auto simp: unshared_children_def comp_def)
qed (simp add: unshared_children_def)

lemma get_root_dir_size: "get_root_dir t = Inr r \<Longrightarrow> tree_size r < tree_size t"
  by (cases t) (auto simp: get_root_dir_def length_Suc_conv split: if_splits)

function walk_files ::
  "merkle_hash set \<Rightarrow> bool \<Rightarrow> (path \<Rightarrow> merkle_hash \<Rightarrow> file_node \<Rightarrow> 's \<Rightarrow> 's res) \<Rightarrow> (path \<times> merkle_tree_node) list \<Rightarrow> 's \<Rightarrow> 's res" where
  "walk_files shared strict step [] acc = Inr acc"
| "walk_files shared strict step ((path, MTNode h n p cs) # stack) acc =
     (case n of
        EFile f \<Rightarrow> rbind (step (join_str path (fn_name f)) h f acc) (\<lambda>acc. walk_files shared strict step stack acc)
      | EDirectory d \<Rightarrow>
          if h \<in> shared then walk_files shared strict step stack acc
          else walk_files shared strict step (rev (unshared_children shared (join_str path (dn_name d)) cs) @ stack) acc
      | ECommit _ \<Rightarrow>
          rbind (get_root_dir (MTNode h n p cs)) (\<lambda>root. walk_files shared strict step ((path, root) # stack) acc)
      | _ \<Rightarrow> if strict then Inl (Basic ''Got an unexpected node type during checkout'')
             else walk_files shared strict step stack acc)"
  by pat_completeness auto
termination
proof (relation "measure (\<lambda>(_, _, _, stack, _). sum_list (map (tree_size \<circ> snd) stack))")
  fix S :: "merkle_hash set" and path and d :: dir_node and cs stack
  show "((S, strict, step, rev (unshared_children S (join_str path (dn_name d)) cs) @ stack, acc),
      (S, strict, step, (path, MTNode h n p cs) # stack, acc)) \<in> measure (\<lambda>(_, _, _, stack, _). sum_list (map (tree_size \<circ> snd) stack))"
    for strict h n p acc and step :: "path \<Rightarrow> merkle_hash \<Rightarrow> file_node \<Rightarrow> 's \<Rightarrow> 's res"
    using unshared_children_size [of S "join_str path (dn_name d)" cs] by (simp add: rev_map [symmetric])
qed (auto dest: get_root_dir_size)

declare walk_files.simps [simp del]

section \<open>What to restore and what to remove\<close>

record merge_result =
  entries_to_restore :: "(path \<times> file_node) list"
  cannot_overwrite_entries :: "path list"

definition merge_result_new :: merge_result where
  "merge_result_new = \<lparr>entries_to_restore = [], cannot_overwrite_entries = []\<rparr>"

definition to_restore :: "path \<Rightarrow> file_node \<Rightarrow> merge_result \<Rightarrow> merge_result" where
  "to_restore p f r = r\<lparr>entries_to_restore := entries_to_restore r @ [(p, f)]\<rparr>"

definition blocked_at :: "path \<Rightarrow> merge_result \<Rightarrow> merge_result" where
  "blocked_at p r = r\<lparr>cannot_overwrite_entries := cannot_overwrite_entries r @ [p]\<rparr>"

definition note_decision :: "path \<Rightarrow> file_node \<Rightarrow> bool \<Rightarrow> merge_result \<Rightarrow> merge_result" where
  "note_decision p f ok r = (if ok then to_restore p f r else blocked_at p r)"

text \<open>One file of the merge commit. A file whose content hash is the base's needs nothing.\<close>

definition merge_file_step ::
  "work_env \<Rightarrow> work_tree \<Rightarrow> (path, partial_node) hash_map \<Rightarrow> bool \<Rightarrow> path \<Rightarrow> merkle_hash \<Rightarrow> file_node \<Rightarrow>
   merge_result \<times> path set \<Rightarrow> (merge_result \<times> path set) res" where
  "merge_file_step env w base_files resume file_path nhash merge_file = (\<lambda>(results, seen_files).
     let seen = insert file_path seen_files
     in if resume then Inr (to_restore file_path merge_file results, seen)
        else case map_of base_files file_path of
          Some base \<Rightarrow>
            if nhash \<noteq> pn_hash base
            then rbind (should_restore_partial_node env (Some base) merge_file file_path w) (\<lambda>ok.
                   Inr (note_decision file_path merge_file ok results, seen))
            else Inr (results, seen)
        | None \<Rightarrow>
            rbind (should_restore_file env None merge_file file_path w) (\<lambda>ok.
              Inr (note_decision file_path merge_file ok results, seen)))"

definition walk_merge_commit ::
  "work_env \<Rightarrow> work_tree \<Rightarrow> merkle_tree_node \<Rightarrow> (path, partial_node) hash_map \<Rightarrow> merkle_hash set \<Rightarrow> bool \<Rightarrow>
   (merge_result \<times> path set) res" where
  "walk_merge_commit env w root base_files shared_hashes resume =
     walk_files shared_hashes True (merge_file_step env w base_files resume) [([], root)] (merge_result_new, {})"

text \<open>One file of the base commit: removed when the merge commit has none at its path.\<close>

definition base_file_step ::
  "work_env \<Rightarrow> work_tree \<Rightarrow> path set \<Rightarrow> bool \<Rightarrow> path \<Rightarrow> merkle_hash \<Rightarrow> file_node \<Rightarrow> merge_result \<Rightarrow> merge_result res" where
  "base_file_step env w merge_files resume file_path nhash base_file results =
     (if file_path \<in> merge_files \<or> \<not> path_exists (working_path env file_path) (wt_fs w) then Inr results
      else rbind (if resume then Inr True else should_restore_file env None base_file file_path w) (\<lambda>ok.
             Inr (note_decision file_path base_file ok results)))"

definition walk_base_dir ::
  "work_env \<Rightarrow> work_tree \<Rightarrow> merkle_tree_node \<Rightarrow> merkle_hash set \<Rightarrow> path set \<Rightarrow> bool \<Rightarrow> merge_result res" where
  "walk_base_dir env w root shared_hashes merge_files resume =
     walk_files shared_hashes False (base_file_step env w merge_files resume) [([], root)] merge_result_new"

definition cannot_overwrite_files :: oxen_error where
  "cannot_overwrite_files = Basic ''Error: your local changes to the following files would be overwritten.''"

text \<open>Both walks only read; any file that would be lost ends the merge before anything is changed.\<close>

definition plan_fast_forward ::
  "work_env \<Rightarrow> work_tree \<Rightarrow> merkle_tree_node \<Rightarrow> merkle_tree_node \<Rightarrow> (path, partial_node) hash_map \<Rightarrow> merkle_hash set \<Rightarrow> bool \<Rightarrow>
   ((path \<times> file_node) list \<times> (path \<times> file_node) list) res" where
  "plan_fast_forward env w merge_tree base_tree partial_nodes shared_hashes resume =
     rbind (walk_merge_commit env w merge_tree partial_nodes shared_hashes resume) (\<lambda>(merge_results, seen_files).
       if cannot_overwrite_entries merge_results \<noteq> [] then Inl cannot_overwrite_files
       else rbind (walk_base_dir env w base_tree shared_hashes seen_files resume) (\<lambda>base_results.
         if cannot_overwrite_entries base_results \<noteq> [] then Inl cannot_overwrite_files
         else Inr (entries_to_restore merge_results, entries_to_restore base_results)))"

section \<open>The merge\<close>

record 'r checkout =
  co_work :: work_tree
  co_refs :: "'r refs"

definition on_work :: "(work_tree, 'a) st \<Rightarrow> ('r checkout, 'a) st" where
  "on_work m = (\<lambda>s. case m (co_work s) of (r, w) \<Rightarrow> (r, s\<lparr>co_work := w\<rparr>))"

definition move_head :: "'r ref_kv \<Rightarrow> string \<Rightarrow> ('r checkout, unit) st" where
  "move_head kv commit_id = (\<lambda>s. (Inr (), s\<lparr>co_refs := set_head_commit_id kv commit_id (co_refs s)\<rparr>))"

text \<open>The base tree without what the merge tree has, its shared hashes and its files.\<close>

definition load_base_tree ::
  "node_store \<Rightarrow> nat \<Rightarrow> commit \<Rightarrow> merkle_hash set \<Rightarrow> (merkle_tree_node option \<times> merkle_hash set \<times> (path, partial_node) hash_map) res" where
  "load_base_tree st fuel base merge_hashes =
     (case root_with_children_and_partial_nodes st fuel base (Some merge_hashes) (\<lparr>hs_unique = None, hs_shared = Some {}\<rparr>, []) of
        (Inl e, _) \<Rightarrow> Inl e
      | (Inr t, s, partial_nodes) \<Rightarrow> Inr (t, case hs_shared s of None \<Rightarrow> {} | Some h \<Rightarrow> h, partial_nodes))"

definition load_fast_forward ::
  "node_store \<Rightarrow> nat \<Rightarrow> commit \<Rightarrow> commit \<Rightarrow>
   (merkle_tree_node \<times> merkle_tree_node \<times> (path, partial_node) hash_map \<times> merkle_hash set) res" where
  "load_fast_forward st fuel base merge =
     rbind (load_tree st fuel merge None (Some {}) None) (\<lambda>(merge_tree, merge_hashes, _).
     rbind (ok_or (Basic ''Cannot get root node for base commit'') merge_tree) (\<lambda>merge_tree.
     rbind (load_base_tree st fuel base merge_hashes) (\<lambda>(base_tree, shared_hashes, partial_nodes).
     rbind (ok_or (Basic ''Cannot get root node for merge commit'') base_tree) (\<lambda>base_tree.
       Inr (merge_tree, base_tree, partial_nodes, shared_hashes)))))"

text \<open>What is done once the plan is made: the marker, the files to restore, the files to remove.\<close>

definition apply_fast_forward ::
  "work_env \<Rightarrow> string \<Rightarrow> (path \<times> file_node) list \<Rightarrow> (path \<times> file_node) list \<Rightarrow> (work_tree, unit) st" where
  "apply_fast_forward env target restores removes =
     sbind (on_fs (marker_write env target)) (\<lambda>_.
     sbind (sfor (\<lambda>(p, f). restore_file env f p) restores) (\<lambda>_.
       sfor (\<lambda>(p, f). on_fs (fs_remove_file (working_path env p))) removes))"

definition fast_forward_merge ::
  "work_env \<Rightarrow> node_store \<Rightarrow> nat \<Rightarrow> 'r ref_kv \<Rightarrow> commit \<Rightarrow> commit \<Rightarrow> local_checkout \<Rightarrow> ('r checkout, commit option) st" where
  "fast_forward_merge env st fuel kv base merge checkout =
     (if cm_id base = cm_id merge then slift (Inr None)
      else if \<not> writes_to_disk checkout then slift (Inr (Some merge))
      else sbind (slift (load_fast_forward st fuel base merge)) (\<lambda>(merge_tree, base_tree, partial_nodes, shared_hashes).
           sbind (\<lambda>s. (plan_fast_forward env (co_work s) merge_tree base_tree partial_nodes shared_hashes (is_resume checkout), s))
             (\<lambda>(restores, removes).
           sbind (on_work (apply_fast_forward env (cm_id merge) restores removes)) (\<lambda>_.
           sbind (move_head kv (cm_id merge)) (\<lambda>_.
           sbind (on_work (on_fs (marker_clear env))) (\<lambda>_.
             slift (Inr (Some merge))))))))"

text \<open>
  \<open>merge_commits\<close> looks at the marker first: a merge to the same target is resumed, one to another
  target refused. Its other cases are \<open>server_three_way_merge\<close> and \<open>find_merge_conflicts\<close>.
\<close>

definition inspect_marker :: "work_env \<Rightarrow> commit \<Rightarrow> local_checkout \<Rightarrow> fs \<Rightarrow> local_checkout res" where
  "inspect_marker env merge checkout f =
     (if \<not> writes_to_disk checkout then Inr Absent
      else rbind (marker_read env f) (\<lambda>marker.
        case marker of
          None \<Rightarrow> Inr (Present False)
        | Some existing \<Rightarrow>
            if existing \<noteq> cm_id merge then Inl (MergeInProgressMismatch existing (cm_id merge))
            else Inr (Present True)))"

definition merge_commits_fast_forward ::
  "work_env \<Rightarrow> node_store \<Rightarrow> nat \<Rightarrow> 'r ref_kv \<Rightarrow> merge_commits \<Rightarrow> local_checkout \<Rightarrow> ('r checkout, commit option) st" where
  "merge_commits_fast_forward env st fuel kv mc checkout =
     sbind (\<lambda>s. (inspect_marker env (mg_merge mc) checkout (wt_fs (co_work s)), s)) (\<lambda>checkout.
       fast_forward_merge env st fuel kv (mg_base mc) (mg_merge mc) checkout)"

end
