(* ===== verification/Checkout.thy ===== *)
theory Checkout
  imports Fast_Forward
begin

text \<open>
  Checking out a commit (\<open>core/v_latest/branches.rs\<close>, \<open>repositories/checkout.rs\<close>): the target's tree is
  walked for the files to restore and for the files that are where it has a directory, the tree the
  working tree comes from for the files to remove. Both trees are loaded as for a fast-forward
  merge. \<open>abort_merge\<close> (\<open>core/v_latest/merge.rs\<close>) is a checkout of \<open>HEAD\<close> that overwrites everything.
\<close>

datatype on_conflict = Abort | Overwrite

record checkout_result =
  files_to_restore :: "(path \<times> file_node) list"
  not_overwritten :: "path list"
  dir_replacements :: "(path \<times> merkle_hash option) list"

definition checkout_result_new :: checkout_result where
  "checkout_result_new = \<lparr>files_to_restore = [], not_overwritten = [], dir_replacements = []\<rparr>"

definition push_restore :: "path \<Rightarrow> file_node \<Rightarrow> checkout_result \<Rightarrow> checkout_result" where
  "push_restore p f r = r\<lparr>files_to_restore := files_to_restore r @ [(p, f)]\<rparr>"

definition push_blocked :: "path \<Rightarrow> checkout_result \<Rightarrow> checkout_result" where
  "push_blocked p r = r\<lparr>not_overwritten := not_overwritten r @ [p]\<rparr>"

definition push_replacement :: "path \<Rightarrow> merkle_hash option \<Rightarrow> checkout_result \<Rightarrow> checkout_result" where
  "push_replacement p h r = r\<lparr>dir_replacements := dir_replacements r @ [(p, h)]\<rparr>"

text \<open>The content is hashed whatever the size; a directory can be opened but not read.\<close>

definition get_hash_given_metadata :: "work_env \<Rightarrow> path \<Rightarrow> work_tree \<Rightarrow> merkle_hash res" where
  "get_hash_given_metadata env p w =
     (case fs_files (wt_fs w) p of
        Some bs \<Rightarrow> Inr (wk_hash env bs)
      | None \<Rightarrow> Inl (Basic ''Could not read file for hashing''))"

section \<open>Walking the target\<close>

text \<open>A file of the target. A file that is gone although both commits have it stays away.\<close>

definition target_file_step ::
  "work_env \<Rightarrow> work_tree \<Rightarrow> (path, partial_node) hash_map \<Rightarrow> on_conflict \<Rightarrow> path \<Rightarrow> merkle_hash \<Rightarrow> file_node \<Rightarrow>
   checkout_result \<Rightarrow> checkout_result res" where
  "target_file_step env w partial_nodes on_conflict file_path nhash f results =
     (let full_path = working_path env file_path; from_node = map_of partial_nodes file_path
      in if \<not> path_exists full_path (wt_fs w)
         then case from_node of
             Some from_node \<Rightarrow>
               if pn_hash from_node = nhash then Inr results
               else if on_conflict = Abort then Inr (push_blocked file_path results)
               else Inr (push_restore file_path f results)
           | None \<Rightarrow> Inr (push_restore file_path f results)
         else
           rbind (metadata env full_path w) (\<lambda>meta.
           rbind (fn_last_modified f) (\<lambda>target_mtime.
           rbind (size_and_mtime_match env meta target_mtime (fn_num_bytes f)) (\<lambda>is_target.
             if is_target then Inr results
             else rbind (case from_node of None \<Rightarrow> Inr False
                         | Some from \<Rightarrow> size_and_mtime_match env meta (pn_last_modified from) (pn_size from)) (\<lambda>is_from.
               if is_from then Inr (push_restore file_path f results)
               else rbind (get_hash_given_metadata env full_path w) (\<lambda>working_hash.
                 if working_hash = nhash then Inr results
                 else if Some working_hash = map_option pn_hash from_node then Inr (push_restore file_path f results)
                 else case on_conflict of
                     Abort \<Rightarrow> Inr (push_blocked file_path results)
                   | Overwrite \<Rightarrow> Inr (push_restore file_path f results)))))))"

text \<open>
  A directory of the target. Something else in its place is replaced; only a file of the commit the
  working tree comes from, with local changes, stops that. The flag tells whether to walk on.
\<close>

definition target_dir_step ::
  "work_env \<Rightarrow> work_tree \<Rightarrow> (path, partial_node) hash_map \<Rightarrow> on_conflict \<Rightarrow> path \<Rightarrow> checkout_result \<Rightarrow> (bool \<times> checkout_result) res" where
  "target_dir_step env w partial_nodes on_conflict dir_path results =
     (let full_dir_path = working_path env dir_path
      in if path_exists full_dir_path (wt_fs w) \<and> full_dir_path \<notin> fs_dirs (wt_fs w)
         then case map_of partial_nodes dir_path of
             Some from \<Rightarrow>
               rbind (metadata env full_dir_path w) (\<lambda>meta.
               rbind (size_and_mtime_match env meta (pn_last_modified from) (pn_size from)) (\<lambda>same.
               rbind (if same then Inr True
                      else rbind (get_hash_given_metadata env full_dir_path w) (\<lambda>working_hash. Inr (working_hash = pn_hash from))) (\<lambda>unmodified.
                 if \<not> unmodified \<and> on_conflict = Abort then Inr (False, push_blocked dir_path results)
                 else Inr (True, push_replacement full_dir_path (Some (pn_hash from)) results))))
           | None \<Rightarrow> Inr (True, push_replacement full_dir_path None results)
         else Inr (True, results))"

text \<open>Below a directory that is not there as one, the shared vnodes are walked too.\<close>

definition walked_children :: "work_env \<Rightarrow> work_tree \<Rightarrow> merkle_hash set \<Rightarrow> path \<Rightarrow> merkle_tree_node list \<Rightarrow> (path \<times> merkle_tree_node) list" where
  "walked_children env w common dir_path vnodes =
     unshared_children (if working_path env dir_path \<in> fs_dirs (wt_fs w) then common else {}) dir_path vnodes"

definition at_depth :: "int \<Rightarrow> (path \<times> merkle_tree_node) list \<Rightarrow> (path \<times> merkle_tree_node \<times> int) list" where
  "at_depth d xs = map (\<lambda>(p, t). (p, t, d)) xs"

lemma walked_children_size:
  "sum_list (map (tree_size \<circ> (fst \<circ> snd)) (rev (at_depth k (walked_children env w S p vs)))) \<le> sum_list (map tree_size vs)"
  unfolding walked_children_def at_depth_def
  using unshared_children_size [of "if working_path env p \<in> fs_dirs (wt_fs w) then S else {}" p vs]
  by (simp add: rev_map [symmetric] comp_def case_prod_unfold)

function walk_target_loop ::
  "work_env \<Rightarrow> work_tree \<Rightarrow> (path, partial_node) hash_map \<Rightarrow> merkle_hash set \<Rightarrow> on_conflict \<Rightarrow>
   (path \<times> merkle_tree_node \<times> int) list \<Rightarrow> checkout_result \<times> path set \<Rightarrow> (checkout_result \<times> path set) res" where
  "walk_target_loop env w ps common oc [] acc = Inr acc"
| "walk_target_loop env w ps common oc ((path, MTNode h n p cs, depth) # stack) (results, seen) =
     (if depth < 0 then walk_target_loop env w ps common oc stack (results, seen)
      else case n of
        EFile f \<Rightarrow>
          (let file_path = join_str path (fn_name f)
           in rbind (target_file_step env w ps oc file_path h f results) (\<lambda>results.
                walk_target_loop env w ps common oc stack (results, insert file_path seen)))
      | EDirectory d \<Rightarrow>
          (let dir_path = join_str path (dn_name d)
           in rbind (target_dir_step env w ps oc dir_path results) (\<lambda>(walk, results).
                if \<not> walk \<or> h \<in> common \<and> working_path env dir_path \<in> fs_dirs (wt_fs w)
                then walk_target_loop env w ps common oc stack (results, seen)
                else walk_target_loop env w ps common oc
                       (rev (at_depth (depth - 1) (walked_children env w common dir_path cs)) @ stack) (results, seen)))
      | ECommit _ \<Rightarrow>
          rbind (get_root_dir (MTNode h n p cs)) (\<lambda>root.
            walk_target_loop env w ps common oc ((path, root, depth - 1) # stack) (results, seen))
      | _ \<Rightarrow> Inl (Basic ''Got an unexpected node type during checkout''))"
  by pat_completeness auto
termination
  by (relation "measure (\<lambda>(_, _, _, _, _, stack, _). sum_list (map (tree_size \<circ> (fst \<circ> snd)) stack))")
    (auto dest: get_root_dir_size intro!: le_imp_less_Suc walked_children_size)

declare walk_target_loop.simps [simp del]

definition walk_target_tree ::
  "work_env \<Rightarrow> work_tree \<Rightarrow> merkle_tree_node \<Rightarrow> path \<Rightarrow> (path, partial_node) hash_map \<Rightarrow> merkle_hash set \<Rightarrow> int \<Rightarrow> on_conflict \<Rightarrow>
   (checkout_result \<times> path set) res" where
  "walk_target_tree env w target_root starting_path partial_nodes common starting_depth on_conflict =
     walk_target_loop env w partial_nodes common on_conflict [(starting_path, target_root, starting_depth)] (checkout_result_new, {})"


section \<open>Walking the commit the working tree comes from\<close>

datatype walk_from_item = Visit path merkle_tree_node | FinalizeDir path

record cleanup_candidates =
  paths_to_remove :: "path list"
  files_to_store :: "(merkle_hash \<times> path) list"
  not_removed :: "path list"

definition cleanup_candidates_default :: cleanup_candidates where
  "cleanup_candidates_default = \<lparr>paths_to_remove = [], files_to_store = [], not_removed = []\<rparr>"

definition push_removed :: "path \<Rightarrow> cleanup_candidates \<Rightarrow> cleanup_candidates" where
  "push_removed p c = c\<lparr>paths_to_remove := paths_to_remove c @ [p]\<rparr>"

definition push_stored :: "merkle_hash \<Rightarrow> path \<Rightarrow> cleanup_candidates \<Rightarrow> cleanup_candidates" where
  "push_stored h p c = c\<lparr>files_to_store := files_to_store c @ [(h, p)]\<rparr>"

text \<open>In remote mode the contents of unmodified files are put into the version store.\<close>

definition from_file_step ::
  "work_env \<Rightarrow> work_tree \<Rightarrow> bool \<Rightarrow> path set \<Rightarrow> on_conflict \<Rightarrow> path \<Rightarrow> merkle_hash \<Rightarrow> file_node \<Rightarrow>
   cleanup_candidates \<Rightarrow> cleanup_candidates res" where
  "from_file_step env w remote seen_paths on_conflict file_path nhash f candidates =
     (let full_path = working_path env file_path
      in if file_path \<notin> seen_paths
         then if \<not> path_exists full_path (wt_fs w) then Inr candidates
           else rbind (is_modified_from_node env full_path f w) (\<lambda>modified_locally.
             if on_conflict = Abort \<and> modified_locally
             then Inr (candidates\<lparr>not_removed := not_removed candidates @ [file_path]\<rparr>)
             else Inr (push_removed full_path
                    (if remote \<and> \<not> modified_locally then push_stored nhash full_path candidates else candidates)))
         else if path_exists full_path (wt_fs w) \<and> remote
         then rbind (is_modified_from_node env full_path f w) (\<lambda>modified_locally.
             Inr (if modified_locally then candidates else push_stored nhash full_path candidates))
         else Inr candidates)"

definition item_size :: "walk_from_item \<Rightarrow> nat" where
  "item_size i = (case i of Visit _ t \<Rightarrow> 2 * tree_size t | FinalizeDir _ \<Rightarrow> 1)"

lemma item_size_simps [simp]: "item_size (Visit p t) = 2 * tree_size t" "item_size (FinalizeDir p) = 1"
  by (simp_all add: item_size_def)

lemma visits_size: "sum_list (map item_size (rev (map (\<lambda>(p, t). Visit p t) xs))) = 2 * sum_list (map (tree_size \<circ> snd) xs)"
  by (induction xs) auto

lemma unshared_visits_size:
  "sum_list (map item_size (rev (map (\<lambda>(p, t). Visit p t) (unshared_children S P vs)))) < 1 + 2 * sum_list (map tree_size vs)"
  using unshared_children_size [of S P vs] by (simp only: visits_size)

function walk_from_loop ::
  "work_env \<Rightarrow> work_tree \<Rightarrow> bool \<Rightarrow> merkle_hash set \<Rightarrow> path set \<Rightarrow> on_conflict \<Rightarrow> walk_from_item list \<Rightarrow>
   cleanup_candidates \<Rightarrow> cleanup_candidates res" where
  "walk_from_loop env w remote common seen oc [] acc = Inr acc"
| "walk_from_loop env w remote common seen oc (FinalizeDir dir_path # stack) acc =
     walk_from_loop env w remote common seen oc stack
       (if path_exists (working_path env dir_path) (wt_fs w) then push_removed (working_path env dir_path) acc else acc)"
| "walk_from_loop env w remote common seen oc (Visit path (MTNode h n p cs) # stack) acc =
     (case n of
        EFile f \<Rightarrow>
          rbind (from_file_step env w remote seen oc (join_str path (fn_name f)) h f acc) (\<lambda>acc.
            walk_from_loop env w remote common seen oc stack acc)
      | EDirectory d \<Rightarrow>
          if h \<in> common then walk_from_loop env w remote common seen oc stack acc
          else let dir_path = join_str path (dn_name d)
               in walk_from_loop env w remote common seen oc
                    (rev (map (\<lambda>(p, t). Visit p t) (unshared_children common dir_path cs)) @ FinalizeDir dir_path # stack) acc
      | ECommit _ \<Rightarrow>
          rbind (get_root_dir (MTNode h n p cs)) (\<lambda>root. walk_from_loop env w remote common seen oc (Visit path root # stack) acc)
      | _ \<Rightarrow> walk_from_loop env w remote common seen oc stack acc)"
  by pat_completeness auto
termination
  by (relation "measure (\<lambda>(_, _, _, _, _, _, stack, _). sum_list (map item_size stack))")
    (use unshared_visits_size in \<open>auto dest: get_root_dir_size simp del: rev_map simp: less_Suc_eq_le\<close>)

declare walk_from_loop.simps [simp del]

definition walk_from_tree ::
  "work_env \<Rightarrow> work_tree \<Rightarrow> bool \<Rightarrow> merkle_tree_node \<Rightarrow> merkle_hash set \<Rightarrow> path set \<Rightarrow> on_conflict \<Rightarrow> cleanup_candidates res" where
  "walk_from_tree env w remote from_root common seen_paths on_conflict =
     walk_from_loop env w remote common seen_paths on_conflict [Visit [] from_root] cleanup_candidates_default"

section \<open>Changing the working tree\<close>

text \<open>A file of the working tree put into the version store, read while it is copied.\<close>

definition store_working_file :: "work_env \<Rightarrow> merkle_hash \<Rightarrow> path \<Rightarrow> (work_tree, unit) st" where
  "store_working_file env h p w =
     (case fs_files (wt_fs w) p of
        Some bs \<Rightarrow> on_fs (store_version_from_reader (wk_store env) (merkle_hash_to_string h) (bs, None)) w
      | None \<Rightarrow>
          if p \<in> fs_dirs (wt_fs w)
          then on_fs (store_version_from_reader (wk_store env) (merkle_hash_to_string h) ([], Some (IO ''Is a directory''))) w
          else (Inl (IO ''No such file or directory''), w))"

definition apply_dir_replacement :: "work_env \<Rightarrow> bool \<Rightarrow> path \<times> merkle_hash option \<Rightarrow> (work_tree, unit) st" where
  "apply_dir_replacement env remote = (\<lambda>(full_path, from_hash) w.
     if \<not> path_exists full_path (wt_fs w) then (Inr (), w)
     else sbind (case from_hash of
              Some h \<Rightarrow> if remote then store_working_file env h full_path else slift (Inr ())
            | None \<Rightarrow> slift (Inr ())) (\<lambda>_.
            on_fs (fs_remove_file full_path)) w)"

definition apply_dir_replacements :: "work_env \<Rightarrow> bool \<Rightarrow> (path \<times> merkle_hash option) list \<Rightarrow> (work_tree, unit) st" where
  "apply_dir_replacements env remote replacements = sfor (apply_dir_replacement env remote) replacements"

text \<open>\<open>read_dir\<close> lists nothing: there is nothing below the directory.\<close>

definition dir_empty :: "path \<Rightarrow> fs \<Rightarrow> bool" where
  "dir_empty p f \<longleftrightarrow> (\<forall>q \<in> fs_dirs f \<union> dom (fs_files f). path_starts_with q p \<longrightarrow> q = p)"

definition remove_candidate :: "path \<Rightarrow> (work_tree, unit) st" where
  "remove_candidate full_path w =
     (if full_path \<in> fs_dirs (wt_fs w) \<and> dir_empty full_path (wt_fs w) then on_fs (remove_dir_all full_path) w
      else if full_path \<notin> fs_dirs (wt_fs w) \<and> fs_files (wt_fs w) full_path \<noteq> None then on_fs (fs_remove_file full_path) w
      else (Inr (), w))"

definition cleanup_removed_files ::
  "work_env \<Rightarrow> bool \<Rightarrow> merkle_tree_node \<Rightarrow> merkle_hash set \<Rightarrow> path set \<Rightarrow> on_conflict \<Rightarrow> (work_tree, unit) st" where
  "cleanup_removed_files env remote from_node common seen_paths on_conflict =
     sbind (\<lambda>w. (walk_from_tree env w remote from_node common seen_paths on_conflict, w)) (\<lambda>candidates.
       if not_removed candidates \<noteq> [] then slift (Inl cannot_overwrite_files)
       else sbind (if remote then sfor (\<lambda>(h, p). store_working_file env h p) (files_to_store candidates) else slift (Inr ())) (\<lambda>_.
         sfor remove_candidate (paths_to_remove candidates)))"

text \<open>
  What \<open>set_working_repo_to_commit\<close> and \<open>checkout_subtrees\<close> do with the trees once they are loaded.
  A checkout of subtrees in remote mode restores only what the version store has.
\<close>

definition checkout_trees ::
  "work_env \<Rightarrow> bool \<Rightarrow> on_conflict \<Rightarrow> (path \<times> file_node \<Rightarrow> (work_tree, unit) st) \<Rightarrow> merkle_tree_node \<Rightarrow> path \<Rightarrow> int \<Rightarrow>
   merkle_tree_node option \<Rightarrow> merkle_hash set \<Rightarrow> (path, partial_node) hash_map \<Rightarrow> (work_tree, unit) st" where
  "checkout_trees env remote on_conflict restore target starting_path depth from_tree common partial_nodes =
     sbind (\<lambda>w. (walk_target_tree env w target starting_path partial_nodes common depth on_conflict, w)) (\<lambda>(results, seen_paths).
       if not_overwritten results \<noteq> [] then slift (Inl cannot_overwrite_files)
       else sbind (apply_dir_replacements env remote (dir_replacements results)) (\<lambda>_.
            sbind (case from_tree of
                None \<Rightarrow> slift (Inr ())
              | Some from_tree \<Rightarrow> cleanup_removed_files env remote from_tree common seen_paths on_conflict) (\<lambda>_.
              sfor restore (files_to_restore results))))"

definition restore_entry :: "work_env \<Rightarrow> path \<times> file_node \<Rightarrow> (work_tree, unit) st" where
  "restore_entry env = (\<lambda>(p, f). restore_file env f p)"

definition i32_max :: int where
  "i32_max = 2 ^ 31 - 1"

text \<open>\<open>map_err\<close>; a panic is no value of \<open>Result\<close>.\<close>

definition map_err :: "(oxen_error \<Rightarrow> oxen_error) \<Rightarrow> 'a res \<Rightarrow> 'a res" where
  "map_err f r = (case r of Inl (Panic p) \<Rightarrow> Inl (Panic p) | Inl e \<Rightarrow> Inl (f e) | Inr x \<Rightarrow> Inr x)"

definition set_working_repo_to_commit ::
  "work_env \<Rightarrow> bool \<Rightarrow> node_store \<Rightarrow> nat \<Rightarrow> commit \<Rightarrow> commit option \<Rightarrow> on_conflict \<Rightarrow> (work_tree, unit) st" where
  "set_working_repo_to_commit env remote st fuel to_commit maybe_from on_conflict =
     sbind (slift (load_tree st fuel to_commit None (Some {}) None)) (\<lambda>(target_tree, target_hashes, _).
     sbind (slift (ok_or (Basic ''Cannot get root node for target commit'') target_tree)) (\<lambda>target_tree.
       case maybe_from of
         None \<Rightarrow> checkout_trees env remote on_conflict (restore_entry env) target_tree [] i32_max None {} []
       | Some from \<Rightarrow>
           if cm_id from = cm_id to_commit then slift (Inr ())
           else sbind (slift (map_err (\<lambda>_. Basic ''Cannot get root node for base commit'') (load_base_tree st fuel from target_hashes)))
             (\<lambda>(from_tree, shared_hashes, partial_nodes).
               checkout_trees env remote on_conflict (restore_entry env) target_tree [] i32_max from_tree shared_hashes partial_nodes)))"

text \<open>Fetching what is missing from a remote is a transfer, an argument here.\<close>

definition checkout_commit ::
  "work_env \<Rightarrow> bool \<Rightarrow> node_store \<Rightarrow> nat \<Rightarrow> (commit \<Rightarrow> (work_tree, unit) st) \<Rightarrow> commit \<Rightarrow> commit option \<Rightarrow> on_conflict \<Rightarrow> (work_tree, unit) st" where
  "checkout_commit env remote st fuel maybe_fetch_missing_entries to_commit maybe_from on_conflict =
     (if map_option cm_id maybe_from = Some (cm_id to_commit) then slift (Inr ())
      else sbind (maybe_fetch_missing_entries to_commit) (\<lambda>_.
        set_working_repo_to_commit env remote st fuel to_commit maybe_from on_conflict))"


section \<open>Subtrees\<close>

text \<open>In remote mode only the files whose versions are there are restored.\<close>

definition restore_existing_version :: "work_env \<Rightarrow> bool \<Rightarrow> path \<times> file_node \<Rightarrow> (work_tree, unit) st" where
  "restore_existing_version env remote = (\<lambda>(p, f).
     if \<not> remote then restore_file env f p
     else sbind (\<lambda>w. (version_exists (wk_store env) (merkle_hash_to_string (fn_hash f)) (wt_fs w), w)) (\<lambda>b.
       if b then restore_file env f p else slift (Inr ())))"

text \<open>The target is one subtree of the commit; the commit of \<open>HEAD\<close> is always loaded whole.\<close>

definition load_subtree ::
  "(byte list \<Rightarrow> merkle_hash) \<Rightarrow> node_store \<Rightarrow> nat \<Rightarrow> commit \<Rightarrow> path \<Rightarrow> int \<Rightarrow> (merkle_tree_node option \<times> merkle_hash set) res" where
  "load_subtree hash128 st fuel to_commit subtree_path depth =
     (case read_depth_from_path_and_collect_hashes hash128 st fuel to_commit subtree_path None depth
             \<lparr>hs_unique = Some {}, hs_shared = None\<rparr> of
        (Inl e, _) \<Rightarrow> Inl e
      | (Inr t, s) \<Rightarrow> Inr (t, case hs_unique s of None \<Rightarrow> {} | Some u \<Rightarrow> u))"

definition load_head_tree ::
  "node_store \<Rightarrow> nat \<Rightarrow> commit option \<Rightarrow> merkle_hash set \<Rightarrow> (merkle_tree_node option \<times> merkle_hash set \<times> (path, partial_node) hash_map) res" where
  "load_head_tree st fuel head target_hashes =
     (case head of
        None \<Rightarrow> Inr (None, {}, [])
      | Some from \<Rightarrow> map_err (\<lambda>_. Basic ''Cannot get root node for base commit'') (load_base_tree st fuel from target_hashes))"

definition checkout_subtree ::
  "work_env \<Rightarrow> bool \<Rightarrow> node_store \<Rightarrow> nat \<Rightarrow> commit option res \<Rightarrow> commit \<Rightarrow> int \<Rightarrow> path \<Rightarrow> (work_tree, unit) st" where
  "checkout_subtree env remote st fuel head to_commit depth subtree_path =
     sbind (slift (load_subtree (wk_hash env) st fuel to_commit subtree_path depth)) (\<lambda>(target_root, target_hashes).
       case target_root of
         None \<Rightarrow> slift (Inr ())
       | Some target_root \<Rightarrow>
           sbind (slift head) (\<lambda>maybe_from.
           sbind (slift (load_head_tree st fuel maybe_from target_hashes)) (\<lambda>(from_root, shared_hashes, partial_nodes).
             checkout_trees env remote Abort (restore_existing_version env remote) target_root
               (case path_parent subtree_path of None \<Rightarrow> [] | Some p \<Rightarrow> p) depth from_root shared_hashes partial_nodes)))"

definition checkout_subtrees ::
  "work_env \<Rightarrow> bool \<Rightarrow> node_store \<Rightarrow> nat \<Rightarrow> commit option res \<Rightarrow> commit \<Rightarrow> path list \<Rightarrow> int \<Rightarrow> (work_tree, unit) st" where
  "checkout_subtrees env remote st fuel head to_commit subtree_paths depth =
     sfor (checkout_subtree env remote st fuel head to_commit depth) subtree_paths"

section \<open>Checking out a branch or a commit\<close>

text \<open>What the configuration of a repository says about its checkouts.\<close>

record checkout_config =
  cc_remote_mode :: bool
  cc_subtree_paths :: "path list option"
  cc_depth :: "int option"
  cc_workspace_name :: "string option"
  cc_workspaces :: "string list option"

definition with_refs :: "('r refs \<Rightarrow> 'a res) \<Rightarrow> ('r checkout, 'a) st" where
  "with_refs m = (\<lambda>s. (m (co_refs s), s))"

definition on_refs :: "('r refs, 'a) st \<Rightarrow> ('r checkout, 'a) st" where
  "on_refs m = (\<lambda>s. case m (co_refs s) of (r, rs) \<Rightarrow> (r, s\<lparr>co_refs := rs\<rparr>))"

definition set_head :: "string \<Rightarrow> ('r checkout, unit) st" where
  "set_head name = (\<lambda>s. (Inr (), s\<lparr>co_refs := rm_set_head name (co_refs s)\<rparr>))"

text \<open>\<open>checkout\<close> of \<open>core/v_latest/branches.rs\<close>: a branch, from a commit the caller names.\<close>

definition checkout_branch_from_commit ::
  "work_env \<Rightarrow> bool \<Rightarrow> node_store \<Rightarrow> nat \<Rightarrow> 'r ref_kv \<Rightarrow> (commit \<Rightarrow> (work_tree, unit) st) \<Rightarrow> string \<Rightarrow> commit option \<Rightarrow> ('r checkout, unit) st" where
  "checkout_branch_from_commit env remote st fuel kv fetch branch_name maybe_from =
     sbind (with_refs (\<lambda>rs. get_by_name kv rs branch_name)) (\<lambda>branch.
     sbind (slift (get_by_id (get_by_hash st fuel) (br_commit_id branch))) (\<lambda>c.
     sbind (slift (ok_or (Basic ''Could not find commit'') c)) (\<lambda>commit.
       on_work (checkout_commit env remote st fuel fetch commit maybe_from Abort))))"

text \<open>
  In remote mode a checkout that makes a branch also names its workspace in the saved configuration.
  The names go through a hash set: \<open>order\<close> is the order in which it lists them.
\<close>

definition add_workspace :: "(string list \<Rightarrow> string list) \<Rightarrow> string \<Rightarrow> checkout_config \<Rightarrow> checkout_config" where
  "add_workspace order name cfg =
     cfg\<lparr>cc_workspaces := Some (order (remdups (name # (case cc_workspaces cfg of Some ws \<Rightarrow> ws | None \<Rightarrow> []))))\<rparr>"

definition set_workspace :: "(string list \<Rightarrow> string list) \<Rightarrow> string \<Rightarrow> checkout_config \<Rightarrow> checkout_config res" where
  "set_workspace order name cfg =
     (case cc_workspaces cfg of
        None \<Rightarrow> Inl (Panic ''unwrap'')
      | Some ws \<Rightarrow>
          Inr (case find (\<lambda>w. take (length name + 2) w = name @ '': '') ws of
                 Some w \<Rightarrow> cfg\<lparr>cc_workspace_name := Some w\<rparr>
               | None \<Rightarrow> (add_workspace order name cfg)\<lparr>cc_workspace_name := Some name\<rparr>))"

definition save_workspace :: "(string list \<Rightarrow> string list) \<Rightarrow> string \<Rightarrow> ('s \<times> checkout_config, unit) st" where
  "save_workspace order name = (\<lambda>(s, cfg).
     if \<not> cc_remote_mode cfg then (Inr (), s, cfg)
     else case set_workspace order name cfg of
            Inl e \<Rightarrow> (Inl e, s, cfg)
          | Inr cfg' \<Rightarrow> (Inr (), s, cfg'))"

definition on_repo :: "('s, 'a) st \<Rightarrow> ('s \<times> checkout_config, 'a) st" where
  "on_repo m = (\<lambda>(s, cfg). case m s of (r, s') \<Rightarrow> (r, s', cfg))"

text \<open>\<open>checkout\<close> of \<open>repositories/checkout.rs\<close>. A revision that is no branch becomes one.\<close>

definition checkout_revision ::
  "work_env \<Rightarrow> (string list \<Rightarrow> string list) \<Rightarrow> node_store \<Rightarrow> nat \<Rightarrow> 'r ref_kv \<Rightarrow> (commit \<Rightarrow> (work_tree, unit) st) \<Rightarrow> string \<Rightarrow>
   ('r checkout \<times> checkout_config, branch option) st" where
  "checkout_revision env order st fuel kv fetch value = (\<lambda>(s0, cfg).
     let get = get_by_hash st fuel;
         revision = sbind (with_refs (\<lambda>rs. revision_get get kv rs value)) (\<lambda>c. slift (ok_or (RevisionNotFound value) c))
     in sbind (on_repo (with_refs (\<lambda>rs. branch_exists kv rs value))) (\<lambda>is_branch.
        sbind (on_repo (with_refs (\<lambda>rs. Inr (is_checked_out kv rs value)))) (\<lambda>here.
          if is_branch then on_repo (
            if here then with_refs (\<lambda>rs. rbind (get_by_name kv rs value) (\<lambda>b. Inr (Some b)))
            else sbind revision (\<lambda>commit.
                 sbind (\<lambda>s. on_work (checkout_subtrees env (cc_remote_mode cfg) st fuel (head_commit_maybe get kv (co_refs s)) commit
                          (case cc_subtree_paths cfg of Some ps \<Rightarrow> ps | None \<Rightarrow> [[]])
                          (case cc_depth cfg of Some d \<Rightarrow> d | None \<Rightarrow> i32_max)) s) (\<lambda>_.
                 sbind (set_head value) (\<lambda>_.
                   with_refs (\<lambda>rs. rbind (get_by_name kv rs value) (\<lambda>b. Inr (Some b)))))))
          else
            if here then slift (Inr None)
            else sbind (on_repo (
                   sbind revision (\<lambda>commit.
                   sbind (with_refs (head_commit_maybe get kv)) (\<lambda>previous_head_commit.
                   sbind (on_work (checkout_commit env (cc_remote_mode cfg) st fuel fetch commit previous_head_commit Abort)) (\<lambda>_.
                   sbind (on_refs (branches_update get kv value (cm_id commit))) (\<lambda>_.
                     set_head value)))))) (\<lambda>_.
                 sbind (save_workspace order value) (\<lambda>_. slift (Inr None))))) (s0, cfg))"

section \<open>Abandoning a merge\<close>

definition hidden_path :: "work_env \<Rightarrow> string \<Rightarrow> path" where
  "hidden_path env name = path_join (wk_repo env) [Normal ''.oxen'', Normal name]"

definition read_trimmed :: "path \<Rightarrow> fs \<Rightarrow> string res" where
  "read_trimmed p f =
     (case fs_files f p of
        Some bs \<Rightarrow> if utf8_ok (map unat bs) then Inr (map char_of (trim_bytes (map unat bs)))
                   else Inl (IO ''stream did not contain valid UTF-8'')
      | None \<Rightarrow> Inl (Basic ''Is a directory''))"

definition merge_target_id :: "work_env \<Rightarrow> fs \<Rightarrow> string option res" where
  "merge_target_id env f =
     rbind (marker_read env f) (\<lambda>marker.
       case marker of
         Some target \<Rightarrow> Inr (Some target)
       | None \<Rightarrow>
           if path_exists (hidden_path env ''MERGE_HEAD'') f
           then rbind (read_trimmed (hidden_path env ''MERGE_HEAD'') f) (\<lambda>target. Inr (Some target))
           else Inr None)"

definition remove_if_exists :: "path \<Rightarrow> (fs, unit) st" where
  "remove_if_exists p f = (if path_exists p f then fs_remove_file p f else (Inr (), f))"

definition clear_merge_state :: "work_env \<Rightarrow> (fs, unit) st" where
  "clear_merge_state env =
     sbind (marker_clear env) (\<lambda>_.
     sbind (remove_if_exists (hidden_path env ''MERGE_HEAD'')) (\<lambda>_.
     sbind (remove_if_exists (hidden_path env ''ORIG_HEAD'')) (\<lambda>_ f.
       if path_exists (hidden_path env ''merge'') f then remove_dir_all (hidden_path env ''merge'') f else (Inr (), f))))"

text \<open>A target that cannot be read or found counts as none; a panic does not.\<close>

definition abort_merge ::
  "work_env \<Rightarrow> bool \<Rightarrow> node_store \<Rightarrow> nat \<Rightarrow> 'r ref_kv \<Rightarrow> (commit \<Rightarrow> (work_tree, unit) st) \<Rightarrow> ('r checkout, unit) st" where
  "abort_merge env remote st fuel kv fetch =
     (let get = get_by_hash st fuel
      in sbind (\<lambda>s. (merge_target_id env (wt_fs (co_work s)), s)) (\<lambda>target.
         case target of
           None \<Rightarrow> slift (Inl NoMergeInProgress)
         | Some target_id \<Rightarrow>
             sbind (with_refs (head_commit get kv)) (\<lambda>head.
             sbind (slift (case get_by_id get target_id of
                 Inl (Panic p) \<Rightarrow> Inl (Panic p) | Inl _ \<Rightarrow> Inr None | Inr c \<Rightarrow> Inr c)) (\<lambda>maybe_from.
             sbind (on_work (checkout_commit env remote st fuel fetch head maybe_from Overwrite)) (\<lambda>_.
               on_work (on_fs (clear_merge_state env)))))))"

end
