(* ===== verification/Working_Tree_Props.thy ===== *)
theory Working_Tree_Props
  imports Working_Tree Version_Store_Props
begin

text \<open>
  Restoring files: what a restore changes (never anything but its own file, whatever happens), and
  that restoring the files of a commit gives each of them the recorded content. The marker reads
  back as it was written.
\<close>

section \<open>Paths of the working tree\<close>

lemma path_join_names: "name_path p \<Longrightarrow> path_join r p = r @ p"
  by (cases p) (auto simp: path_join_def is_absolute_def)

lemma working_path_names: "name_path p \<Longrightarrow> working_path env p = wk_repo env @ p"
  by (simp add: working_path_def path_join_names)

lemma working_path_inj: "name_path p \<Longrightarrow> name_path q \<Longrightarrow> working_path env p = working_path env q \<longleftrightarrow> p = q"
  by (simp add: working_path_names)

lemma working_path_parent:
  "name_path p \<Longrightarrow> p \<noteq> [] \<Longrightarrow> path_parent (working_path env p) = Some (wk_repo env @ butlast p)"
proof -
  assume p: "name_path p" "p \<noteq> []"
  then obtain q s where "p = q @ [Normal s]" by (cases p rule: rev_cases) auto
  with p show ?thesis by (simp add: working_path_names path_parent_def butlast_append)
qed

section \<open>Only the restored file changes\<close>

text \<open>A computation whose every run, failed ones included, leads from a state to a related one.\<close>

definition runs_within :: "('s \<Rightarrow> 's \<Rightarrow> bool) \<Rightarrow> ('s, 'a) st \<Rightarrow> bool" where
  "runs_within R m \<longleftrightarrow> (\<forall>s. R s (snd (m s)))"

lemma runs_within_slift [simp]: "reflp R \<Longrightarrow> runs_within R (slift r)"
  by (simp add: runs_within_def reflp_def)

lemma runs_within_sbind:
  assumes "transp R" "runs_within R m" "\<And>x. runs_within R (k x)"
  shows "runs_within R (sbind m k)"
  unfolding runs_within_def
proof
  fix s
  obtain r t where m: "m s = (r, t)" by force
  with assms(2) have "R s t" by (auto simp: runs_within_def dest: spec [of _ s])
  moreover have "R t (snd (k x t))" for x using assms(3) by (simp add: runs_within_def)
  ultimately show "R s (snd (sbind m k s))" using m assms(1) by (cases r) (auto simp: sbind_def elim: transpE)
qed

lemma runs_within_sfor:
  assumes "reflp R" "transp R" "\<And>x. x \<in> set xs \<Longrightarrow> runs_within R (f x)"
  shows "runs_within R (sfor f xs)"
  using assms by (induction xs) (auto intro: runs_within_sbind)

lemma runs_withinD: "runs_within R m \<Longrightarrow> m s = (r, t) \<Longrightarrow> R s t"
  unfolding runs_within_def by (metis snd_conv)

definition fs_but :: "path set \<Rightarrow> fs \<Rightarrow> fs \<Rightarrow> bool" where
  "fs_but P f f' \<longleftrightarrow> (\<forall>q. q \<notin> P \<longrightarrow> fs_files f' q = fs_files f q)"

definition work_but :: "path set \<Rightarrow> work_tree \<Rightarrow> work_tree \<Rightarrow> bool" where
  "work_but P w w' \<longleftrightarrow> (\<forall>q. q \<notin> P \<longrightarrow> fs_files (wt_fs w') q = fs_files (wt_fs w) q \<and> wt_mtime w' q = wt_mtime w q)"

lemma but_preorder [simp]: "reflp (fs_but P)" "transp (fs_but P)" "reflp (work_but P)" "transp (work_but P)"
  by (auto simp: fs_but_def work_but_def reflp_def transp_def)

lemma mkdir_all_within [simp]: "runs_within (fs_but P) (mkdir_all p)"
  by (simp add: runs_within_def fs_but_def mkdir_all_def create_dir_all_def)

lemma util_create_dir_all_within [simp]: "runs_within (fs_but P) (util_create_dir_all p)"
  by (simp add: runs_within_def fs_but_def util_create_dir_all_def mkdir_all_def create_dir_all_def)

lemma fs_write_within [simp]: "p \<in> P \<Longrightarrow> runs_within (fs_but P) (fs_write p bs)"
  by (auto simp: runs_within_def fs_but_def fs_write_def split: option.splits)

lemma fs_remove_within [simp]: "p \<in> P \<Longrightarrow> runs_within (fs_but P) (fs_remove_file p)"
  by (auto simp: runs_within_def fs_but_def fs_remove_file_def)

lemma copy_version_within [simp]:
  assumes "p \<in> P" shows "runs_within (fs_but P) (copy_version_to_path root h p)"
proof -
  have "runs_within (fs_but P) (\<lambda>f. case fs_read q f of Inl e \<Rightarrow> (Inl e, f) | Inr bs \<Rightarrow> fs_write p bs f)" for q
    using fs_write_within [OF assms] by (auto simp: runs_within_def fs_but_def split: sum.splits)
  then show ?thesis
    unfolding copy_version_to_path_def by (auto intro!: runs_within_sbind split: option.splits)
qed

lemma on_fs_within [simp]: "runs_within (fs_but P) m \<Longrightarrow> runs_within (work_but P) (on_fs m)"
  by (auto simp: runs_within_def fs_but_def work_but_def on_fs_def split: prod.splits) (metis snd_conv)

lemma set_mtime_within [simp]: "p \<in> P \<Longrightarrow> runs_within (work_but P) (set_mtime p t)"
  by (auto simp: runs_within_def work_but_def set_mtime_def)

lemma restore_file_within [simp]:
  assumes "working_path env p \<in> P" shows "runs_within (work_but P) (restore_file env f p)"
proof -
  define slow where "slow = (\<lambda>expected. sbind (slift (ok_or (Panic ''unwrap'') (path_parent (working_path env p)))) (\<lambda>parent.
      sbind (on_fs (util_create_dir_all parent)) (\<lambda>_.
      sbind (on_fs (copy_version_to_path (wk_store env) (merkle_hash_to_string (fn_hash f)) (working_path env p))) (\<lambda>_.
      sbind (set_mtime (working_path env p) (wk_now env)) (\<lambda>_. set_mtime (working_path env p) (wk_round env expected))))))"
  have "runs_within (work_but P) (slow t)" for t
    unfolding slow_def using assms by (intro runs_within_sbind) auto
  then have "runs_within (work_but P) (\<lambda>w. if already_restored env f t (working_path env p) w then (Inr (), w) else slow t w)" for t
    by (auto simp: runs_within_def work_but_def)
  then show ?thesis
    unfolding restore_file_def Let_def slow_def by (intro runs_within_sbind) auto
qed

lemma remove_file_within [simp]: "p \<in> P \<Longrightarrow> runs_within (work_but P) (on_fs (fs_remove_file p))"
  by simp

section \<open>A restore that succeeds\<close>

text \<open>No file where a directory is needed, no directory where the file goes.\<close>

definition clear_way :: "work_env \<Rightarrow> fs \<Rightarrow> path \<Rightarrow> bool" where
  "clear_way env f p \<longleftrightarrow> (\<forall>a \<in> set (path_ancestors (wk_repo env @ butlast p)). fs_files f a = None) \<and> wk_repo env @ p \<notin> fs_dirs f"

text \<open>Where the version store keeps the content of a file.\<close>

definition version_at :: "work_env \<Rightarrow> merkle_hash \<Rightarrow> path" where
  "version_at env h = key_dir (wk_store env) (merkle_hash_to_string h) @ [data_name]"

lemma mkdir_all_clear:
  assumes "\<forall>a \<in> set (path_ancestors q). fs_files f a = None"
  shows "mkdir_all q f = (Inr (), create_dir_all q f)" and "util_create_dir_all q f = (Inr (), create_dir_all q f)"
    and "q \<in> fs_dirs (create_dir_all q f)"
  using assms by (auto simp: mkdir_all_def util_create_dir_all_def create_dir_all_def path_exists_def)

lemma create_dir_all_frame [simp]:
  "fs_files (create_dir_all q f) = fs_files f" "fs_dirs f \<subseteq> fs_dirs (create_dir_all q f)"
  "fs_dirs (create_dir_all q f) \<subseteq> fs_dirs f \<union> set (path_ancestors q)"
  by (auto simp: create_dir_all_def)

lemma create_dir_all_again [simp]: "q \<in> fs_dirs f \<Longrightarrow> create_dir_all q f = f"
  by (simp add: create_dir_all_def path_exists_def)

lemma not_own_ancestor: "p \<noteq> [] \<Longrightarrow> r @ p \<notin> set (path_ancestors (r @ butlast p))"
  using path_ancestors_prefix [of "r @ p" "r @ butlast p"]
  by (cases p rule: rev_cases) (auto simp: path_starts_with_def)

lemma copy_version_succeeds:
  assumes "plain_key h" "fs_files f (key_dir root h @ [data_name]) = Some bs" "path_parent p = Some q" "q \<noteq> []"
    and "\<forall>a \<in> set (path_ancestors q). fs_files f a = None" "q \<in> fs_dirs f" "p \<notin> fs_dirs f"
  shows "copy_version_to_path root h p f = (Inr (), f\<lparr>fs_files := (fs_files f)(p \<mapsto> bs)\<rparr>)"
  using assms mkdir_all_clear(1) [OF assms(5)]
  by (simp add: copy_version_to_path_def plain_paths fs_read_def sbind_def fs_write_def)

lemma restore_file_succeeds:
  assumes p: "name_path p" "p \<noteq> []" "wk_repo env \<noteq> []" and clear: "clear_way env (wt_fs w) p"
    and v: "plain_key (merkle_hash_to_string (fn_hash f))" "fs_files (wt_fs w) (version_at env (fn_hash f)) = Some bs"
    and t: "fn_last_modified f = Inr t"
  shows "\<exists>w'. restore_file env f p w = (Inr (), w') \<and> work_but {working_path env p} w w' \<and>
    fs_dirs (wt_fs w) \<subseteq> fs_dirs (wt_fs w') \<and>
    fs_dirs (wt_fs w') \<subseteq> fs_dirs (wt_fs w) \<union> set (path_ancestors (wk_repo env @ butlast p)) \<and>
    fs_files (wt_fs w') (working_path env p) =
      (if already_restored env f t (working_path env p) w then fs_files (wt_fs w) (working_path env p) else Some bs)"
proof (cases "already_restored env f t (working_path env p) w")
  case True
  then have "restore_file env f p w = (Inr (), w)" using t by (simp add: restore_file_def Let_def)
  then show ?thesis using True by (simp add: work_but_def)
next
  case False
  let ?q = "wk_repo env @ butlast p" and ?p = "working_path env p"
  let ?f = "create_dir_all ?q (wt_fs w)"
  have wp: "?p = wk_repo env @ p" using p(1) by (rule working_path_names)
  have anc: "\<forall>a \<in> set (path_ancestors ?q). fs_files (wt_fs w) a = None" using clear by (simp add: clear_way_def)
  have "?p \<notin> fs_dirs ?f"
    using clear not_own_ancestor [OF p(2), of "wk_repo env"] create_dir_all_frame(3) [of ?q "wt_fs w"]
    unfolding wp clear_way_def by blast
  then have "copy_version_to_path (wk_store env) (merkle_hash_to_string (fn_hash f)) ?p ?f =
      (Inr (), ?f\<lparr>fs_files := (fs_files ?f)(?p \<mapsto> bs)\<rparr>)"
    using v p anc mkdir_all_clear(3) [OF anc] working_path_parent [OF p(1,2), of env]
    by (intro copy_version_succeeds) (simp_all add: version_at_def)
  then have "restore_file env f p w = (Inr (), \<lparr>wt_fs = ?f\<lparr>fs_files := (fs_files ?f)(?p \<mapsto> bs)\<rparr>,
      wt_mtime = (wt_mtime w)(?p := wk_round env t)\<rparr>)"
    using t False p mkdir_all_clear(2) [OF anc]
    by (simp add: restore_file_def Let_def working_path_parent sbind_def on_fs_def set_mtime_def)
  then show ?thesis using False create_dir_all_frame(2) [of "wt_fs w" ?q] create_dir_all_frame(3) [of ?q "wt_fs w"] by (auto simp: work_but_def)
qed

section \<open>Restoring many files\<close>

text \<open>No path of the set continues another one.\<close>

definition prefix_free :: "path set \<Rightarrow> bool" where
  "prefix_free P \<longleftrightarrow> (\<forall>p \<in> P. \<forall>q \<in> P. path_starts_with q p \<longrightarrow> q = p)"

lemma prefix_free_subset: "prefix_free Q \<Longrightarrow> P \<subseteq> Q \<Longrightarrow> prefix_free P"
  unfolding prefix_free_def by blast

lemma ancestor_below:
  assumes "r @ p \<in> set (path_ancestors (r @ butlast q))" "q \<noteq> []"
  shows "path_starts_with q p \<and> q \<noteq> p"
proof -
  have "path_starts_with (butlast q) p" using path_ancestors_prefix [OF assms(1)] by (simp add: path_starts_with_def)
  moreover have "length (butlast q) < length q" using assms(2) by (cases q rule: rev_cases) auto
  moreover have "q = butlast q @ [last q]" using assms(2) by simp
  ultimately show ?thesis by (metis path_starts_with_snoc path_starts_with_refl path_starts_with_append append_Nil2 le_add1 length_append not_less)
qed

lemma clear_way_kept:
  assumes "prefix_free P" "p \<in> P" "q \<in> P" "q \<noteq> []" "p \<noteq> []" "name_path q" "clear_way env (wt_fs w) p"
    and "work_but {working_path env q} w w'"
    and "fs_dirs (wt_fs w') \<subseteq> fs_dirs (wt_fs w) \<union> set (path_ancestors (wk_repo env @ butlast q))"
  shows "clear_way env (wt_fs w') p"
proof -
  have pq: "path_starts_with q p \<longrightarrow> q = p" "path_starts_with p q \<longrightarrow> p = q"
    using assms(1-3) by (auto simp: prefix_free_def)
  have "wk_repo env @ p \<notin> set (path_ancestors (wk_repo env @ butlast q))"
    using ancestor_below [of "wk_repo env" p q] assms(4) pq(1) by blast
  then have "wk_repo env @ p \<notin> fs_dirs (wt_fs w')" using assms(7,9) unfolding clear_way_def by blast
  moreover have "working_path env q \<notin> set (path_ancestors (wk_repo env @ butlast p))"
    using ancestor_below [of "wk_repo env" q p] assms(5) pq(2) by (auto simp: working_path_names [OF assms(6)])
  then have "fs_files (wt_fs w') a = fs_files (wt_fs w) a" if "a \<in> set (path_ancestors (wk_repo env @ butlast p))" for a
    using assms(8) that unfolding work_but_def by (metis singletonD)
  ultimately show ?thesis using assms(7) by (simp add: clear_way_def)
qed

text \<open>The content a file has after it was restored.\<close>

definition restored_content :: "work_env \<Rightarrow> file_node \<Rightarrow> path \<Rightarrow> work_tree \<Rightarrow> byte list option" where
  "restored_content env f p w =
     (if (\<exists>t. fn_last_modified f = Inr t \<and> already_restored env f t (working_path env p) w)
      then fs_files (wt_fs w) (working_path env p)
      else fs_files (wt_fs w) (version_at env (fn_hash f)))"

definition can_restore :: "work_env \<Rightarrow> work_tree \<Rightarrow> path \<times> file_node \<Rightarrow> bool" where
  "can_restore env w = (\<lambda>(p, f). name_path p \<and> p \<noteq> [] \<and> clear_way env (wt_fs w) p \<and>
     plain_key (merkle_hash_to_string (fn_hash f)) \<and> fs_files (wt_fs w) (version_at env (fn_hash f)) \<noteq> None \<and>
     (\<exists>t. fn_last_modified f = Inr t))"

lemma already_restored_same:
  "fs_files (wt_fs w') q = fs_files (wt_fs w) q \<Longrightarrow> q \<notin> fs_dirs (wt_fs w) \<Longrightarrow> q \<notin> fs_dirs (wt_fs w') \<Longrightarrow> wt_mtime w' q = wt_mtime w q \<Longrightarrow>
   already_restored env f t q w' = already_restored env f t q w"
  by (simp add: already_restored_def metadata_def split: option.splits)

lemma restore_all:
  assumes "wk_repo env \<noteq> []" "prefix_free (fst ` set rs)" "distinct (map fst rs)" "\<forall>x \<in> set rs. can_restore env w x"
    and "\<forall>h. version_at env h \<notin> working_path env ` fst ` set rs"
  shows "\<exists>w'. sfor (\<lambda>(p, f). restore_file env f p) rs w = (Inr (), w') \<and>
    work_but (working_path env ` fst ` set rs) w w' \<and> fs_dirs (wt_fs w) \<subseteq> fs_dirs (wt_fs w') \<and>
    fs_dirs (wt_fs w') \<subseteq> fs_dirs (wt_fs w) \<union> (\<Union>p \<in> fst ` set rs. set (path_ancestors (wk_repo env @ butlast p))) \<and>
    (\<forall>(p, f) \<in> set rs. fs_files (wt_fs w') (working_path env p) = restored_content env f p w)"
  using assms
proof (induction rs arbitrary: w)
  case Nil
  then show ?case by (simp add: work_but_def)
next
  case (Cons x rs)
  obtain p f where x: "x = (p, f)" by force
  have c: "can_restore env w (p, f)" using Cons.prems(4) by (simp add: x)
  then obtain bs t where p: "name_path p" "p \<noteq> []" "clear_way env (wt_fs w) p" "plain_key (merkle_hash_to_string (fn_hash f))"
    "fs_files (wt_fs w) (version_at env (fn_hash f)) = Some bs" "fn_last_modified f = Inr t"
    by (auto simp: can_restore_def)
  obtain w1 where w1: "restore_file env f p w = (Inr (), w1)" "work_but {working_path env p} w w1"
    "fs_dirs (wt_fs w) \<subseteq> fs_dirs (wt_fs w1)"
    "fs_dirs (wt_fs w1) \<subseteq> fs_dirs (wt_fs w) \<union> set (path_ancestors (wk_repo env @ butlast p))"
    "fs_files (wt_fs w1) (working_path env p) =
      (if already_restored env f t (working_path env p) w then fs_files (wt_fs w) (working_path env p) else Some bs)"
    using restore_file_succeeds [OF p(1,2) Cons.prems(1) p(3-6)] by blast
  have vs: "fs_files (wt_fs w1) (version_at env h) = fs_files (wt_fs w) (version_at env h)" for h
    using w1(2) Cons.prems(5) by (auto simp: work_but_def x)
  have other: "working_path env q \<noteq> working_path env p" if "(q, g) \<in> set rs" for q g
    using that Cons.prems(3,4) p(1) by (force simp: x can_restore_def working_path_inj)
  have clear: "clear_way env (wt_fs w1) q" if q: "(q, g) \<in> set rs" for q g
  proof (rule clear_way_kept [OF Cons.prems(2) _ _ p(2) _ p(1) _ w1(2,4)])
    show "q \<in> fst ` set (x # rs)" using q by force
    show "p \<in> fst ` set (x # rs)" by (simp add: x)
    have "can_restore env w (q, g)" using Cons.prems(4) q by simp
    then show "q \<noteq> []" "clear_way env (wt_fs w) q" by (simp_all add: can_restore_def)
  qed
  have keep: "restored_content env g q w1 = restored_content env g q w" if q: "(q, g) \<in> set rs" for q g
  proof -
    have "fs_files (wt_fs w1) (working_path env q) = fs_files (wt_fs w) (working_path env q)"
      "wt_mtime w1 (working_path env q) = wt_mtime w (working_path env q)"
      using w1(2) other [OF q] by (simp_all add: work_but_def)
    moreover have "clear_way env (wt_fs w) q" "name_path q" using Cons.prems(4) q by (force simp: can_restore_def)+
    then have "working_path env q \<notin> fs_dirs (wt_fs w)" "working_path env q \<notin> fs_dirs (wt_fs w1)"
      using clear [OF q] by (simp_all add: clear_way_def working_path_names)
    ultimately show ?thesis using already_restored_same [of w1 "working_path env q" w] vs by (auto simp: restored_content_def)
  qed
  have can: "\<forall>y \<in> set rs. can_restore env w1 y"
  proof
    fix y assume y: "y \<in> set rs"
    obtain q g where q: "y = (q, g)" by force
    with clear [of q g] y Cons.prems(4) vs show "can_restore env w1 y" by (force simp: can_restore_def)
  qed
  have pf: "prefix_free (fst ` set rs)" using Cons.prems(2) by (auto simp: prefix_free_def)
  obtain w' where w': "sfor (\<lambda>(p, f). restore_file env f p) rs w1 = (Inr (), w')"
    "work_but (working_path env ` fst ` set rs) w1 w'" "fs_dirs (wt_fs w1) \<subseteq> fs_dirs (wt_fs w')"
    "fs_dirs (wt_fs w') \<subseteq> fs_dirs (wt_fs w1) \<union> (\<Union>p \<in> fst ` set rs. set (path_ancestors (wk_repo env @ butlast p)))"
    "\<forall>(p, f) \<in> set rs. fs_files (wt_fs w') (working_path env p) = restored_content env f p w1"
    using Cons.IH [OF Cons.prems(1) pf _ can] Cons.prems(3,5) by auto
  have "working_path env p \<notin> working_path env ` fst ` set rs" using other by force
  then have "fs_files (wt_fs w') (working_path env p) = restored_content env f p w"
    using w'(2) w1(5) p(5,6) by (simp add: work_but_def restored_content_def)
  moreover have "sfor (\<lambda>(p, f). restore_file env f p) (x # rs) w = (Inr (), w')"
    using w1(1) w'(1) by (simp add: x sbind_def)
  moreover have "work_but (working_path env ` fst ` set (x # rs)) w w'"
    using w1(2) w'(2) by (simp add: work_but_def x)
  ultimately show ?case using w1(3,4) w'(3-5) keep x by (intro exI [of _ w']) auto
qed

lemma remove_all:
  assumes "distinct (map (working_path env \<circ> fst) rs)" "\<forall>(p, f) \<in> set rs. fs_files (wt_fs w) (working_path env p) \<noteq> None"
  shows "\<exists>w'. sfor (\<lambda>(p, f). on_fs (fs_remove_file (working_path env p))) rs w = (Inr (), w') \<and>
    work_but (working_path env ` fst ` set rs) w w' \<and> fs_dirs (wt_fs w') = fs_dirs (wt_fs w) \<and>
    (\<forall>(p, f) \<in> set rs. fs_files (wt_fs w') (working_path env p) = None)"
  using assms
proof (induction rs arbitrary: w)
  case Nil
  then show ?case by (simp add: work_but_def)
next
  case (Cons x rs)
  obtain p f where x: "x = (p, f)" by force
  let ?p = "working_path env p" and ?w = "w\<lparr>wt_fs := (wt_fs w)\<lparr>fs_files := (fs_files (wt_fs w))(working_path env p := None)\<rparr>\<rparr>"
  have here: "on_fs (fs_remove_file ?p) w = (Inr (), ?w)"
    using Cons.prems(2) by (simp add: x on_fs_def fs_remove_file_def)
  have "\<forall>(q, g) \<in> set rs. fs_files (wt_fs ?w) (working_path env q) \<noteq> None"
    using Cons.prems by (force simp: x)
  from Cons.IH [OF _ this] Cons.prems(1) obtain w' where w':
    "sfor (\<lambda>(p, f). on_fs (fs_remove_file (working_path env p))) rs ?w = (Inr (), w')"
    "work_but (working_path env ` fst ` set rs) ?w w'" "fs_dirs (wt_fs w') = fs_dirs (wt_fs ?w)"
    "\<forall>(p, f) \<in> set rs. fs_files (wt_fs w') (working_path env p) = None" by auto
  have "?p \<notin> working_path env ` fst ` set rs" using Cons.prems(1) by (force simp: x)
  then have "fs_files (wt_fs w') ?p = None" using w'(2) by (simp add: work_but_def)
  moreover have "work_but (working_path env ` fst ` set (x # rs)) w w'" using w'(2) by (simp add: work_but_def x)
  ultimately show ?case using here w'(1,3,4) by (intro exI [of _ w']) (simp add: x sbind_def)
qed

section \<open>The marker\<close>

text \<open>Bytes that are printable ASCII, as those of an id.\<close>

definition plain_bytes :: "nat list \<Rightarrow> bool" where
  "plain_bytes bs \<longleftrightarrow> (\<forall>b \<in> set bs. 33 \<le> b \<and> b < 128)"

lemma utf8_ok_plain: "plain_bytes bs \<Longrightarrow> utf8_ok bs"
  by (induction bs) (simp_all add: plain_bytes_def)

lemma trim_chars_plain:
  assumes "plain_bytes bs" "\<forall>c \<in> set cs. c \<noteq> [] \<and> (hd c < 33 \<or> 128 \<le> hd c)"
  shows "trim_chars cs k bs = bs"
proof (cases k)
  case (Suc j)
  have "take (length c) bs \<noteq> c" if "c \<in> set cs" for c
    using assms that by (cases bs; cases c) (fastforce simp: plain_bytes_def)+
  then have "List.find (\<lambda>c. take (length c) bs = c) cs = None" by (simp add: find_None_iff)
  with Suc show ?thesis by simp
qed simp

lemma trim_plain: "plain_bytes bs \<Longrightarrow> trim_bytes bs = bs"
proof -
  assume bs: "plain_bytes bs"
  have "\<forall>c \<in> set white_space. c \<noteq> [] \<and> (hd c < 33 \<or> 128 \<le> hd c)" "\<forall>c \<in> set (map rev white_space). c \<noteq> [] \<and> (hd c < 33 \<or> 128 \<le> hd c)"
    by (auto simp: white_space_def)
  moreover have "plain_bytes (rev bs)" using bs by (simp add: plain_bytes_def)
  ultimately show ?thesis using bs by (simp only: trim_bytes_def Let_def trim_chars_plain rev_rev_ident)
qed

definition plain_id :: "string \<Rightarrow> bool" where
  "plain_id s \<longleftrightarrow> plain_bytes (map of_char s)"

lemma radix_loop_plain: "radix_loop acc s = Inr n \<Longrightarrow> plain_id s"
proof (induction acc s rule: radix_loop.induct)
  case (2 acc c cs)
  then have "hex_value c \<noteq> None" "plain_id cs" by (auto split: option.splits if_splits)
  moreover from this(1) have "48 \<le> (of_char c :: nat) \<and> of_char c < (128 :: nat)"
    by (auto simp: hex_value_def Let_def split: if_splits)
  ultimately show ?case by (simp add: plain_id_def plain_bytes_def)
qed (simp add: plain_id_def plain_bytes_def)

lemma id_chars: "merkle_hash_from_str s = Inr h \<Longrightarrow> plain_id s"
proof -
  assume s: "merkle_hash_from_str s = Inr h"
  then obtain n where n: "radix_loop 0 (if hd s = CHR ''+'' then tl s else s) = Inr n" "s \<noteq> []"
    by (auto simp: merkle_hash_from_str_def rbind_eq_Inr split: if_splits)
  from radix_loop_plain [OF n(1)] n(2) show ?thesis
    by (cases s) (auto simp: plain_id_def plain_bytes_def split: if_splits)
qed

lemma marker_read_back:
  assumes "fs_files f (marker_path env) = Some (as_bytes s)" "plain_id s"
  shows "marker_read env f = Inr (Some s)"
proof -
  have s: "map unat (as_bytes s) = map of_char s"
    by (simp add: as_bytes_def comp_def unat_of_nat take_bit_eq_mod)
  have "map char_of (map of_char s :: nat list) = s" by (simp add: comp_def)
  then show ?thesis
    using assms utf8_ok_plain trim_plain by (simp add: marker_read_def s plain_id_def comp_def)
qed

end
