(* ===== verification/Fast_Forward_Props.thy ===== *)
theory Fast_Forward_Props
  imports Fast_Forward Working_Tree_Props Three_Way_Merge_Props
begin

text \<open>
  The fast-forward merge: the two trees as they are loaded, the walks over the files that they do
  not share, and the plan as a decision for each of these files. Only planned files change.
\<close>

section \<open>Loading with partial nodes\<close>

definition timed :: "file_node \<Rightarrow> bool" where
  "timed f \<longleftrightarrow> (\<exists>t. fn_last_modified f = Inr t)"

definition partial_of :: "file_node \<Rightarrow> partial_node" where
  "partial_of f = projr (partial_node_from f)"

lemma partial_of_timed: "fn_last_modified f = Inr t \<Longrightarrow> partial_node_from f = Inr (partial_of f) \<and>
    partial_of f = \<lparr>pn_hash = fn_hash f, pn_last_modified = t, pn_size = fn_num_bytes f\<rparr>"
  by (simp add: partial_of_def partial_node_from_def fn_last_modified_def)

definition add_partials :: "(path \<times> file_node) list \<Rightarrow> (path, partial_node) hash_map \<Rightarrow> (path, partial_node) hash_map" where
  "add_partials fs ps = fold (\<lambda>(p, f). AList.update p (partial_of f)) fs ps"

lemma add_partials_simps [simp]:
  "add_partials [] ps = ps"
  "add_partials (xs @ ys) ps = add_partials ys (add_partials xs ps)"
  by (simp_all add: add_partials_def)

lemma map_of_add_partials:
  "distinct (map fst fs) \<Longrightarrow> map_of (add_partials fs ps) = map_of ps ++ (map_option partial_of \<circ> map_of fs)"
proof (induction fs arbitrary: ps)
  case (Cons x fs)
  obtain p f where x: "x = (p, f)" by force
  have "map_of fs p = None" using Cons.prems by (simp add: x map_of_eq_None_iff)
  with Cons show ?case by (auto simp: x add_partials_def map_add_def fun_eq_iff split: option.splits)
qed (simp add: fun_eq_iff map_add_def)

definition base_set :: "merkle_hash set option \<Rightarrow> merkle_hash set" where
  "base_set base = (case base of None \<Rightarrow> {} | Some b \<Rightarrow> b)"

lemma in_base_set: "in_base base h \<longleftrightarrow> h \<in> base_set base"
  by (simp add: in_base_def base_set_def split: option.splits)

lemma load_partial_stored:
  "stored st t \<Longrightarrow> wf_tree t \<Longrightarrow> tree_size t \<le> fuel \<Longrightarrow> may_have_children t \<Longrightarrow> \<forall>f \<in> snd ` set (file_entries t cur). timed f \<Longrightarrow>
   load_children_and_collect_partial_nodes st base (-1) fuel trav cur (MTNode (t_hash t) (t_node t) pid []) (s, ps) =
     (Inr (MTNode (t_hash t) (t_node t) pid (t_children (prune base (-1) trav t))),
      add_sets (unique_of base (-1) trav t) (shared_of base (-1) trav t) s,
      add_partials (kept (base_set base) t cur) ps)"
proof (induction base "-1 :: int" trav t arbitrary: fuel pid s ps cur rule: prune.induct)
  case (1 base trav h n p cs)
  let ?t = "MTNode h n p cs"
  obtain k where k: "fuel = Suc k" "sum_list (map tree_size cs) \<le> k"
    using 1(4) by (cases fuel) auto
  have may: "may_have_children (MTNode h n pid [])" using 1(5) by (simp add: may_have_children_def)
  show ?case
  proof (cases "in_base base h")
    case True
    then have "kept (base_set base) ?t cur = []" using 1(5) by (simp add: kept_inner_node in_base_set del: kept.simps)
    with True may 1(5) show ?thesis by (simp add: k in_base_set del: kept.simps)
  next
    case False
    let ?kept = "\<lambda>c. kept (base_set base) c (child_path cur c)"
    let ?f = "\<lambda>(_ :: merkle_hash, child). if may_have_children child
        then if descends (-1) trav child then load_children_and_collect_partial_nodes st base (-1) k (child_depth trav child) (child_path cur child) child
             else slift (Inr child)
        else (case t_node child of
            EFile f \<Rightarrow> sbind (slift (partial_node_from f)) (\<lambda>pn (s', ps'). (Inr child, s', AList.update (join_str cur (fn_name f)) pn ps'))
          | _ \<Rightarrow> slift (Inr child))"
    let ?g = "\<lambda>c. if may_have_children c \<and> descends (-1) trav c then prune base (-1) (child_depth trav c) c else strip c"
    let ?u = "\<lambda>c. if may_have_children c \<and> descends (-1) trav c then unique_of base (-1) (child_depth trav c) c else {}"
    let ?v = "\<lambda>c. if may_have_children c \<and> descends (-1) trav c then shared_of base (-1) (child_depth trav c) c else {}"
    have kids: "st_children st h = Inr (map (\<lambda>c. (t_hash c, strip c)) cs)" "\<forall>c \<in> set cs. stored st c"
      using 1(2,5) by (auto simp: list_all_iff)
    have step: "?f (t_hash c, strip c) (s, ps) = (Inr (?g c), add_sets (?u c) (?v c) s, add_partials (?kept c) ps)"
      if c: "c \<in> set cs" for c s ps
    proof (cases "may_have_children c")
      case True
      have "tree_size c \<le> k" using member_tree_size [OF c] k by simp
      moreover have "\<forall>f \<in> snd ` set (file_entries c (child_path cur c)). timed f"
        using 1(6) c by (force simp: file_entries_node)
      ultimately have "load_children_and_collect_partial_nodes st base (-1) k (child_depth trav c) (child_path cur c)
          (MTNode (t_hash c) (t_node c) (t_parent_id c) []) (s, ps) =
        (Inr (MTNode (t_hash c) (t_node c) (t_parent_id c) (t_children (prune base (-1) (child_depth trav c) c))),
         add_sets (unique_of base (-1) (child_depth trav c) c) (shared_of base (-1) (child_depth trav c) c) s,
         add_partials (?kept c) ps)"
        using False 1(5) True c kids(2) wf_kids [OF 1(3) c] by (intro 1(1)) auto
      moreover have "MTNode (t_hash c) (t_node c) (t_parent_id c) (t_children (prune base (-1) (child_depth trav c) c))
          = prune base (-1) (child_depth trav c) c"
        by (cases c) simp
      moreover have "child_path cur (strip c) = child_path cur c" by (simp add: child_path_def)
      ultimately show ?thesis using True by (simp add: strip_def [symmetric])
    next
      case leaf: False
      obtain h' n' p' cs' where e: "c = MTNode h' n' p' cs'" by (cases c)
      have cs': "cs' = []" using kids(2) c leaf by (auto simp: e)
      show ?thesis
      proof (cases n')
        case (EFile f)
        have "(join_str cur (fn_name f), f) \<in> set (file_entries ?t cur)"
          using c by (force simp: e EFile file_entries_node child_path_def)
        with 1(6) have "timed f" by force
        then obtain t where t: "fn_last_modified f = Inr t" by (auto simp: timed_def)
        have "?kept c = [(join_str cur (fn_name f), f)]" by (simp add: e EFile child_path_def)
        with partial_of_timed [OF t] leaf show ?thesis by (simp add: e EFile strip_def sbind_def add_partials_def)
      qed (use leaf in \<open>simp_all add: e cs' strip_def may_have_children_def\<close>)
    qed
    have loop: "smap ?f (map (\<lambda>c. (t_hash c, strip c)) cs) (s, ps) =
      (Inr (map ?g cs), add_sets (\<Union>c \<in> set cs. ?u c) (\<Union>c \<in> set cs. ?v c) s, add_partials (concat (map ?kept cs)) ps)" for s ps
    proof -
      have "smap ?f (map (\<lambda>c. (t_hash c, strip c)) cs) (s, ps) = smap (\<lambda>c. ?f (t_hash c, strip c)) cs (s, ps)" for s ps
        by (induction cs arbitrary: s ps) (simp_all add: sbind_def split: sum.split prod.split)
      also have "smap (\<lambda>c. ?f (t_hash c, strip c)) cs (s, ps) =
          (Inr (map ?g cs), fold (\<lambda>c (s, ps). (add_sets (?u c) (?v c) s, add_partials (?kept c) ps)) cs (s, ps))"
        by (rule smap_pure) (metis (no_types, lifting) step surj_pair case_prod_conv)
      also have "fold (\<lambda>c (s, ps). (add_sets (?u c) (?v c) s, add_partials (?kept c) ps)) cs (s, ps) =
          (fold (\<lambda>c. add_sets (?u c) (?v c)) cs s, add_partials (concat (map ?kept cs)) ps)"
        by (induction cs arbitrary: s ps) simp_all
      finally show ?thesis by (simp only: fold_add_sets)
    qed
    have bound: "sbind (smap ?f (map (\<lambda>c. (t_hash c, strip c)) cs)) r (s, ps) = r (map ?g cs)
        (add_sets (\<Union>c \<in> set cs. ?u c) (\<Union>c \<in> set cs. ?v c) s, add_partials (concat (map ?kept cs)) ps)"
      for r :: "merkle_tree_node list \<Rightarrow> (partial_state, merkle_tree_node) st" and s ps
      by (rule sbind_Inr) (rule loop)
    have "kept (base_set base) ?t cur = concat (map ?kept cs)"
      using False kept_inner_node [OF 1(5)] by (simp add: in_base_set)
    then show ?thesis
      using False may 1(5) kids(1) by (simp add: k bound push_children_def in_base_set del: kept.simps)
  qed
qed

lemma kept_shared:
  "shared_of (Some B) (-1) trav t \<subseteq> S \<Longrightarrow> S \<subseteq> B \<Longrightarrow> wf_tree t \<Longrightarrow> kept S t cur = kept B t cur"
proof (induction t arbitrary: trav cur)
  case (MTNode h n p cs)
  let ?t = "MTNode h n p cs"
  show ?case
  proof (cases "may_have_children ?t")
    case False
    then show ?thesis using MTNode.prems(3) by (cases n) (simp_all add: may_have_children_def)
  next
    case True
    show ?thesis
    proof (cases "h \<in> B")
      case b: True
      then have "h \<in> S" using MTNode.prems(1) True by (simp add: in_base_def)
      with b show ?thesis by (simp add: kept_inner_node [OF True] del: kept.simps)
    next
      case False
      have "kept S c (child_path cur c) = kept B c (child_path cur c)" if c: "c \<in> set cs" for c
      proof (cases "may_have_children c")
        case m: True
        then have "shared_of (Some B) (-1) (child_depth trav c) c \<subseteq> S"
          using MTNode.prems(1) True False c by (auto simp: in_base_def)
        from MTNode.IH [OF c this MTNode.prems(2) wf_kids [OF MTNode.prems(3) c]] show ?thesis .
      next
        case m: False
        then show ?thesis using wf_kids [OF MTNode.prems(3) c]
          by (cases c; cases "t_node c") (simp_all add: may_have_children_def)
      qed
      moreover have "h \<notin> S" using False MTNode.prems(2) by blast
      ultimately show ?thesis using False by (simp add: kept_inner_node [OF True] del: kept.simps cong: map_cong)
    qed
  qed
qed

section \<open>The walks\<close>

text \<open>The files of a tree outside of shared nodes, in the order the stack gives.\<close>

function visited :: "merkle_hash set \<Rightarrow> (path \<times> merkle_tree_node) list \<Rightarrow> (path \<times> file_node) list" where
  "visited S [] = []"
| "visited S ((path, MTNode h n p cs) # stack) =
     (case n of
        EFile f \<Rightarrow> (join_str path (fn_name f), f) # visited S stack
      | EDirectory d \<Rightarrow>
          if h \<in> S then visited S stack else visited S (rev (unshared_children S (join_str path (dn_name d)) cs) @ stack)
      | _ \<Rightarrow> visited S stack)"
  by pat_completeness auto
termination
proof (relation "measure (\<lambda>(_, stack). sum_list (map (tree_size \<circ> snd) stack))")
  show "((S, rev (unshared_children S (join_str path (dn_name d)) cs) @ stack), (S, (path, MTNode h n p cs) # stack)) \<in>
      measure (\<lambda>(_, stack). sum_list (map (tree_size \<circ> snd) stack))" for S path d cs stack h n p
    using unshared_children_size [of S "join_str path (dn_name d)" cs] by (simp add: rev_map [symmetric])
qed auto

definition good_stack :: "(path \<times> merkle_tree_node) list \<Rightarrow> bool" where
  "good_stack stack \<longleftrightarrow> (\<forall>t \<in> snd ` set stack. wf_tree t \<and> (is_file t \<or> is_dir t))"

lemma good_children:
  assumes "wf_tree (MTNode h (EDirectory d) p cs)"
  shows "\<forall>v \<in> set cs. is_vnode v" and "good_stack (unshared_children S P cs)"
proof -
  show vnodes: "\<forall>v \<in> set cs. is_vnode v" using assms by (simp add: list_all_iff)
  have "wf_tree c \<and> (is_file c \<or> is_dir c)" if "v \<in> set cs" "c \<in> set (t_children v)" for v c
  proof -
    obtain h' n' q' cs' where v: "v = MTNode h' n' q' cs'" by (cases v)
    have "wf_tree v" "is_vnode v" using wf_kids [OF assms] that(1) vnodes by auto
    then show ?thesis using that(2) by (auto simp: v is_vnode_def list_all_iff split: e_merkle_tree_node.splits)
  qed
  then show "good_stack (unshared_children S P cs)"
    by (auto simp: good_stack_def unshared_children_def split: if_splits)
qed

lemma good_stack_simps [simp]:
  "good_stack []" "good_stack ((p, t) # stack) \<longleftrightarrow> wf_tree t \<and> (is_file t \<or> is_dir t) \<and> good_stack stack"
  "good_stack (xs @ ys) \<longleftrightarrow> good_stack xs \<and> good_stack ys" "good_stack (rev xs) = good_stack xs"
  by (auto simp: good_stack_def)

lemma walk_files_visited:
  "good_stack stack \<Longrightarrow> walk_files S strict step stack acc = rfold (\<lambda>(p, f). step p (fn_hash f) f) (visited S stack) acc"
proof (induction S stack arbitrary: acc rule: visited.induct)
  case (2 S path h n p cs stack)
  show ?case
  proof (cases n)
    case (EFile f)
    then have "h = fn_hash f" using "2.prems" by simp
    with EFile 2 show ?thesis by (auto simp: walk_files.simps intro: arg_cong [of _ _ "rbind _"])
  next
    case (EDirectory d)
    with 2 good_children(2) show ?thesis by (auto simp: walk_files.simps)
  qed (use "2.prems" in \<open>auto simp: is_file_def is_dir_def\<close>)
qed (simp add: walk_files.simps)

lemma kept_unshared:
  assumes "\<forall>v \<in> set vs. is_vnode v"
  shows "concat (map (\<lambda>(p, t). kept S t (child_path p t)) (unshared_children S P vs)) = concat (map (\<lambda>v. kept S v (child_path P v)) vs)"
  using assms
proof (induction vs)
  case (Cons v vs)
  obtain h n p cs where v: "v = MTNode h n p cs" by (cases v)
  have "may_have_children v" "child_path P v = P"
    using Cons.prems by (auto simp: is_vnode_def may_have_children_def child_path_def split: e_merkle_tree_node.splits)
  then have "kept S v (child_path P v) = (if t_hash v \<in> S then [] else concat (map (\<lambda>c. kept S c (child_path P c)) (t_children v)))"
    using kept_inner_node by (simp add: v del: kept.simps)
  with Cons show ?case by (simp add: unshared_children_def comp_def)
qed (simp add: unshared_children_def)

lemma visited_kept:
  "good_stack stack \<Longrightarrow> mset (visited S stack) = mset (concat (map (\<lambda>(p, t). kept S t (child_path p t)) stack))"
proof (induction S stack rule: visited.induct)
  case (2 S path h n p cs stack)
  show ?case
  proof (cases n)
    case (EDirectory d)
    let ?P = "join_str path (dn_name d)"
    have may: "may_have_children (MTNode h n p cs)" by (simp add: EDirectory may_have_children_def)
    have "mset (concat (map (\<lambda>(p, t). kept S t (child_path p t)) (rev (unshared_children S ?P cs)))) =
        mset (concat (map (\<lambda>v. kept S v (child_path ?P v)) cs))"
    proof -
      have "\<forall>v \<in> set cs. is_vnode v" using good_children(1) [of h d p cs] "2.prems" EDirectory by simp
      from arg_cong [OF kept_unshared [OF this, of S ?P], of mset] show ?thesis
        by (simp add: rev_map [symmetric] mset_concat)
    qed
    then show ?thesis
      using 2 good_children(2) kept_inner_node [OF may] by (auto simp: EDirectory child_path_def simp del: kept.simps)
  qed (use 2 in \<open>auto simp: is_file_def is_dir_def child_path_def\<close>)
qed simp

text \<open>The walks start at a commit.\<close>

lemma walk_files_commit:
  assumes "wf_tree (MTNode h (ECommit c) p [r])"
  shows "walk_files S strict step [([], MTNode h (ECommit c) p [r])] acc =
      rfold (\<lambda>(p, f). step p (fn_hash f) f) (visited S [([], r)]) acc"
    and "mset (visited S [([], r)]) = mset (kept S r [])"
proof -
  have r: "wf_tree r" "is_dir r" "child_search_name r = []" using assms by auto
  have "get_root_dir (MTNode h (ECommit c) p [r]) = Inr r"
    using r(2) by (auto simp: get_root_dir_def is_dir_def split: e_merkle_tree_node.splits)
  then show "walk_files S strict step [([], MTNode h (ECommit c) p [r])] acc =
      rfold (\<lambda>(p, f). step p (fn_hash f) f) (visited S [([], r)]) acc"
    using walk_files_visited [of "[([], r)]"] r by (simp add: walk_files.simps(2))
  show "mset (visited S [([], r)]) = mset (kept S r [])"
    using visited_kept [of "[([], r)]" S] r by (simp add: child_path_dir)
qed

section \<open>The trees of a merge\<close>

text \<open>What the base shares with the merge commit; every such hash is one of an inner node of both.\<close>

definition ff_shared :: "merkle_tree_node \<Rightarrow> merkle_tree_node \<Rightarrow> merkle_hash set" where
  "ff_shared b m = shared_of (Some (unique_of None (-1) 0 m)) (-1) 0 b"

lemma ff_shared_places:
  assumes "h \<in> ff_shared b m"
  shows "\<exists>Q z. (Q, z) \<in> set (inner_at b []) \<and> t_hash z = h" and "\<exists>Q z. (Q, z) \<in> set (inner_at m []) \<and> t_hash z = h"
proof -
  show "\<exists>Q z. (Q, z) \<in> set (inner_at b []) \<and> t_hash z = h"
    using shared_inner_at assms unfolding ff_shared_def by blast
  have "h \<in> unique_of None (-1) 0 m"
    using shared_in_base assms unfolding ff_shared_def by (fastforce simp: in_base_def)
  then show "\<exists>Q z. (Q, z) \<in> set (inner_at m []) \<and> t_hash z = h" using unique_inner_at by blast
qed

lemma load_fast_forward_trees:
  assumes "commit_tree hash128 st fuel bc b" "commit_tree hash128 st fuel mc m"
    and "\<forall>f \<in> snd ` set (file_entries b []). timed f"
  shows "\<exists>pm pb ps. load_fast_forward st fuel bc mc =
      Inr (MTNode (t_hash m) (t_node m) pm (t_children m),
           MTNode (t_hash b) (t_node b) pb (t_children (prune (Some (unique_of None (-1) 0 m)) (-1) 0 b)), ps, ff_shared b m) \<and>
    map_of ps = map_option partial_of \<circ> map_of (kept (ff_shared b m) b [])"
proof -
  let ?B = "unique_of None (-1) 0 m"
  have m: "stored st m" using assms(2) by (simp add: commit_tree_def)
  obtain pm where pm: "load_tree st fuel mc None (Some {}) None = Inr (Some (MTNode (t_hash m) (t_node m) pm (t_children m)), ?B, {})"
    using load_tree_commit [OF assms(2), of None "Some {}" None] prune_whole [OF m, of 0] by auto
  have b: "stored st b" "wf_tree b" "tree_size b \<le> fuel" "may_have_children b" "merkle_hash_from_str (cm_id bc) = Inr (t_hash b)"
    using assms(1) by (auto simp: commit_tree_def may_have_children_def)
  obtain pb where pb: "st_from_hash st (t_hash b) = Inr (MTNode (t_hash b) (t_node b) pb [])"
    using read_depth_stored [OF b(1,4,3)] by metis
  have e: "st_exists st (t_hash b)" using b(1,4) by (cases b) simp
  let ?ps = "add_partials (kept (base_set (Some ?B)) b []) []"
  have k: "kept (base_set (Some ?B)) b [] = kept (ff_shared b m) b []"
    using kept_shared [of ?B 0 b "ff_shared b m" "[]"] b(2) shared_in_base
    by (fastforce simp: base_set_def ff_shared_def in_base_def)
  have "root_with_children_and_partial_nodes st fuel bc (Some ?B) (\<lparr>hs_unique = None, hs_shared = Some {}\<rparr>, []) =
      (Inr (Some (MTNode (t_hash b) (t_node b) pb (t_children (prune (Some ?B) (-1) 0 b)))),
       \<lparr>hs_unique = None, hs_shared = Some (ff_shared b m)\<rparr>, ?ps)"
    using b(5) e pb load_partial_stored [OF b(1,2,3,4) assms(3), of "Some ?B" 0 pb]
    by (simp add: root_with_children_and_partial_nodes_def read_node_and_collect_partial_nodes_def
        read_depth_and_collect_partial_nodes_def sbind_def add_sets_def ff_shared_def)
  then have "load_base_tree st fuel bc ?B =
      Inr (Some (MTNode (t_hash b) (t_node b) pb (t_children (prune (Some ?B) (-1) 0 b))), ff_shared b m, ?ps)"
    by (simp add: load_base_tree_def)
  moreover have "map_of ?ps = map_option partial_of \<circ> map_of (kept (ff_shared b m) b [])"
    unfolding k using map_of_add_partials [OF distinct_kept [OF b(2)]] by (simp add: fun_eq_iff map_add_def split: option.splits)
  ultimately show ?thesis using pm by (auto simp: load_fast_forward_def)
qed

text \<open>The base and the merge commit, loaded: the two walks go over the files that are not shared.\<close>

definition apart :: "merkle_tree_node \<Rightarrow> merkle_tree_node \<Rightarrow> bool" where
  "apart b m \<longleftrightarrow> (\<forall>(P, x) \<in> set (inner_at m []). t_hash x \<noteq> t_hash b) \<and> (\<forall>(P, x) \<in> set (inner_at b []). t_hash x \<noteq> t_hash m)"

lemma ff_walks:
  assumes "wf_tree b" "node_type (t_node b) = TCommit" "wf_tree m" "node_type (t_node m) = TCommit" "apart b m"
  obtains js ks where
    "\<And>strict step acc. walk_files (ff_shared b m) strict step
       [([], MTNode (t_hash b) (t_node b) pb (t_children (prune (Some (unique_of None (-1) 0 m)) (-1) 0 b)))] acc =
       rfold (\<lambda>(p, f). step p (fn_hash f) f) js (acc :: merge_result)"
    "distinct (map fst js)" "map_of js = map_of (kept (ff_shared b m) b [])"
    "\<And>strict step acc. walk_files (ff_shared b m) strict step [([], MTNode (t_hash m) (t_node m) pm (t_children m))] acc =
       rfold (\<lambda>(p, f). step p (fn_hash f) f) ks (acc :: merge_result \<times> path set)"
    "distinct (map fst ks)" "map_of ks = map_of (kept (ff_shared b m) m [])"
proof -
  let ?S = "ff_shared b m" and ?B = "unique_of None (-1) 0 m"
  have nb: "t_hash b \<notin> ?S" "t_hash m \<notin> ?S" "t_hash b \<notin> ?B"
    using ff_shared_places(2) [of "t_hash b" b m] ff_shared_places(1) [of "t_hash m" b m] unique_inner_at [of "t_hash b" None 0 m] assms(5)
    unfolding apart_def by blast+
  have order: "distinct (map fst fs) \<and> map_of fs = map_of (kept ?S t [])"
    if "mset fs = mset (kept ?S t [])" "wf_tree t" for fs t
  proof -
    have d: "distinct (map fst (kept ?S t []))" using that(2) by (rule distinct_kept)
    moreover have "mset (map fst fs) = mset (map fst (kept ?S t []))" using that(1) by (simp add: mset_map)
    ultimately have "distinct (map fst fs)" using mset_eq_imp_distinct_iff by blast
    with d mset_eq_setD [OF that(1)] map_of_inject_set show ?thesis by blast
  qed
  have commit: "\<exists>h c p r. t = MTNode h (ECommit c) p [r]" if "wf_tree t" "node_type (t_node t) = TCommit" for t
    using that by (cases t; cases "t_node t") (auto split: list.splits)
  have root: "kept ?S t [] = kept ?S r []" if "t = MTNode h (ECommit c) p [r]" "h \<notin> ?S" "wf_tree t" for t h c p r
    using that by (simp add: child_path_dir)
  obtain h c p r where m: "m = MTNode h (ECommit c) p [r]" using commit [OF assms(3,4)] by blast
  have "wf_tree (MTNode h (ECommit c) pm [r])" using assms(3) by (simp add: m)
  note wm = walk_files_commit [OF this, where S = ?S]
  have "wf_tree (prune (Some ?B) (-1) 0 b)" using assms(1) nb(3) by (intro wf_prune) (simp_all add: in_base_def)
  moreover have "node_type (t_node (prune (Some ?B) (-1) 0 b)) = TCommit" using assms(2) by simp
  ultimately obtain h' c' p' r' where b: "prune (Some ?B) (-1) 0 b = MTNode h' (ECommit c') p' [r']" "wf_tree (MTNode h' (ECommit c') p' [r'])"
    using commit by metis
  have sel: "t_hash b = h'" "t_node b = ECommit c'" using b(1) by (metis merkle_tree_node.sel(1,2) prune_sel)+
  have "wf_tree (MTNode h' (ECommit c') pb [r'])" using b(2) by simp
  note wb = walk_files_commit [OF this, where S = ?S]
  have kb: "kept ?S r' [] = kept ?S b []"
    using kept_prune [OF assms(1), of "Some ?B" 0 ?S "[]"] root [OF b(1)] nb(1) b
    by (simp add: ff_shared_def sel)
  have km: "kept ?S r [] = kept ?S m []" using root [OF m] nb(2) assms(3) by (simp add: m)
  show thesis
  proof (rule that)
    have "mset (visited ?S [([], r')]) = mset (kept ?S b [])" by (simp only: wb(2) kb)
    from order [OF this assms(1)]
    show "distinct (map fst (visited ?S [([], r')]))" "map_of (visited ?S [([], r')]) = map_of (kept ?S b [])" by blast+
    have "mset (visited ?S [([], r)]) = mset (kept ?S m [])" by (simp only: wm(2) km)
    from order [OF this assms(3)]
    show "distinct (map fst (visited ?S [([], r)]))" "map_of (visited ?S [([], r)]) = map_of (kept ?S m [])" by blast+
    show "walk_files ?S strict step [([], MTNode (t_hash m) (t_node m) pm (t_children m))] acc =
        rfold (\<lambda>(p, f). step p (fn_hash f) f) (visited ?S [([], r)]) acc" for strict step and acc :: "merge_result \<times> path set"
      using wm(1) by (simp only: m merkle_tree_node.sel)
    show "walk_files ?S strict step [([], MTNode (t_hash b) (t_node b) pb (t_children (prune (Some ?B) (-1) 0 b)))] acc =
        rfold (\<lambda>(p, f). step p (fn_hash f) f) (visited ?S [([], r')]) acc" for strict step and acc :: merge_result
      using wb(1) by (simp only: b(1) sel merkle_tree_node.sel)
  qed
qed

section \<open>The plan as decisions\<close>

text \<open>What is decided for one file: nothing to do, change it, or a local change would be lost.\<close>

definition merge_decision ::
  "work_env \<Rightarrow> work_tree \<Rightarrow> (path, partial_node) hash_map \<Rightarrow> bool \<Rightarrow> path \<times> file_node \<Rightarrow> bool option res" where
  "merge_decision env w ps resume = (\<lambda>(p, f).
     if resume then Inr (Some True)
     else case map_of ps p of
       Some base \<Rightarrow> if fn_hash f \<noteq> pn_hash base
         then rbind (should_restore_partial_node env (Some base) f p w) (\<lambda>ok. Inr (Some ok)) else Inr None
     | None \<Rightarrow> rbind (should_restore_file env None f p w) (\<lambda>ok. Inr (Some ok)))"

definition base_decision :: "work_env \<Rightarrow> work_tree \<Rightarrow> path set \<Rightarrow> bool \<Rightarrow> path \<times> file_node \<Rightarrow> bool option res" where
  "base_decision env w seen resume = (\<lambda>(p, f).
     if p \<in> seen \<or> \<not> path_exists (working_path env p) (wt_fs w) then Inr None
     else rbind (if resume then Inr True else should_restore_file env None f p w) (\<lambda>ok. Inr (Some ok)))"

definition noted :: "path \<times> file_node \<Rightarrow> bool option \<Rightarrow> merge_result \<Rightarrow> merge_result" where
  "noted = (\<lambda>(p, f) d r. case d of None \<Rightarrow> r | Some ok \<Rightarrow> note_decision p f ok r)"

lemma rbind_assoc: "rbind (rbind m f) g = rbind m (\<lambda>x. rbind (f x) g)"
  by (cases m) simp_all

lemma merge_file_step_decision:
  "merge_file_step env w ps resume p (fn_hash f) f (r, seen) =
     rbind (merge_decision env w ps resume (p, f)) (\<lambda>d. Inr (noted (p, f) d r, insert p seen))"
  by (simp add: merge_file_step_def merge_decision_def noted_def Let_def note_decision_def rbind_assoc split: option.splits)

lemma base_file_step_decision:
  "base_file_step env w seen resume p h f r =
     rbind (base_decision env w seen resume (p, f)) (\<lambda>d. Inr (noted (p, f) d r))"
  by (simp add: base_file_step_def base_decision_def noted_def rbind_assoc)

definition result_of :: "(path \<times> file_node \<Rightarrow> bool option) \<Rightarrow> (path \<times> file_node) list \<Rightarrow> merge_result \<Rightarrow> merge_result" where
  "result_of d xs r =
     \<lparr>entries_to_restore = entries_to_restore r @ filter (\<lambda>x. d x = Some True) xs,
      cannot_overwrite_entries = cannot_overwrite_entries r @ map fst (filter (\<lambda>x. d x = Some False) xs)\<rparr>"

lemma noted_result: "result_of d xs (noted x (d x) r) = result_of d (x # xs) r"
  by (cases x) (auto simp: noted_def result_of_def note_decision_def to_restore_def blocked_at_def split: option.splits)

lemma result_of_Nil [simp]: "result_of d [] r = r"
  by (simp add: result_of_def)

lemma rfold_decisions:
  "rfold (\<lambda>x r. rbind (D x) (\<lambda>d. Inr (noted x d r))) xs r = Inr r' \<longleftrightarrow>
     (\<forall>x \<in> set xs. \<exists>d. D x = Inr d) \<and> r' = result_of (\<lambda>x. projr (D x)) xs r"
proof (induction xs arbitrary: r)
  case (Cons x xs)
  show ?case
  proof (cases "D x")
    case (Inr d)
    have "result_of (\<lambda>x. projr (D x)) xs (noted x d r) = result_of (\<lambda>x. projr (D x)) (x # xs) r"
      using noted_result [of "\<lambda>x. projr (D x)" xs x r] Inr by simp
    with Inr Cons.IH [of "noted x d r"] show ?thesis by simp
  qed auto
qed auto

lemma rfold_seen_decisions:
  "rfold (\<lambda>x (r, seen). rbind (D x) (\<lambda>d. Inr (noted x d r, insert (fst x) seen))) xs (r, seen) = Inr (r', seen') \<longleftrightarrow>
     (\<forall>x \<in> set xs. \<exists>d. D x = Inr d) \<and> r' = result_of (\<lambda>x. projr (D x)) xs r \<and> seen' = seen \<union> fst ` set xs"
proof (induction xs arbitrary: r seen)
  case (Cons x xs)
  show ?case
  proof (cases "D x")
    case (Inr d)
    have "result_of (\<lambda>x. projr (D x)) xs (noted x d r) = result_of (\<lambda>x. projr (D x)) (x # xs) r"
      using noted_result [of "\<lambda>x. projr (D x)" xs x r] Inr by simp
    with Inr Cons.IH [of "noted x d r" "insert (fst x) seen"] show ?thesis by auto
  qed auto
qed auto

text \<open>The plan, as the decisions for the files that the two walks visit.\<close>

lemma plan_decisions:
  fixes env :: work_env and w :: work_tree and ps :: "(path, partial_node) hash_map" and resume :: bool
  assumes "\<And>strict step acc. walk_files S strict step [([], bt)] acc = rfold (\<lambda>(p, f). step p (fn_hash f) f) js (acc :: merge_result)"
    and "\<And>strict step acc. walk_files S strict step [([], mt)] acc = rfold (\<lambda>(p, f). step p (fn_hash f) f) ks (acc :: merge_result \<times> path set)"
  defines "D \<equiv> merge_decision env w ps resume" and "E \<equiv> base_decision env w (fst ` set ks) resume"
  shows "plan_fast_forward env w mt bt ps S resume = Inr (rs, ds) \<longleftrightarrow>
    (\<forall>x \<in> set ks. \<exists>d. D x = Inr d \<and> d \<noteq> Some False) \<and> (\<forall>x \<in> set js. \<exists>d. E x = Inr d \<and> d \<noteq> Some False) \<and>
    rs = filter (\<lambda>x. D x = Inr (Some True)) ks \<and> ds = filter (\<lambda>x. E x = Inr (Some True)) js"
proof -
  have m: "walk_merge_commit env w mt ps S resume = Inr (r, seen) \<longleftrightarrow>
      (\<forall>x \<in> set ks. \<exists>d. D x = Inr d) \<and> r = result_of (\<lambda>x. projr (D x)) ks merge_result_new \<and> seen = fst ` set ks" for r seen
  proof -
    have "walk_merge_commit env w mt ps S resume =
        rfold (\<lambda>x (r, seen). rbind (D x) (\<lambda>d. Inr (noted x d r, insert (fst x) seen))) ks (merge_result_new, {})"
      unfolding walk_merge_commit_def assms(2)
      by (rule rfold_cong) (auto simp: merge_file_step_decision D_def)
    then show ?thesis using rfold_seen_decisions [of D ks merge_result_new "{}" r seen] by simp
  qed
  have b: "walk_base_dir env w bt S (fst ` set ks) resume = Inr r \<longleftrightarrow>
      (\<forall>x \<in> set js. \<exists>d. E x = Inr d) \<and> r = result_of (\<lambda>x. projr (E x)) js merge_result_new" for r
  proof -
    have "walk_base_dir env w bt S (fst ` set ks) resume = rfold (\<lambda>x r. rbind (E x) (\<lambda>d. Inr (noted x d r))) js merge_result_new"
      unfolding walk_base_dir_def assms(1)
      by (rule rfold_cong) (auto simp: base_file_step_decision E_def)
    then show ?thesis using rfold_decisions [of E js] by simp
  qed
  have ok: "(\<forall>x \<in> set xs. \<exists>d. F x = Inr d) \<and> filter (\<lambda>x. projr (F x) = Some False) xs = [] \<longleftrightarrow>
      (\<forall>x \<in> set xs. \<exists>d. F x = Inr d \<and> d \<noteq> Some False)" for F :: "path \<times> file_node \<Rightarrow> bool option res" and xs
    by (simp add: filter_empty_conv del: split_paired_All split_paired_Ex) (metis sum.sel(2))
  have picked: "filter (\<lambda>x. projr (F x) = Some True) xs = filter (\<lambda>x. F x = Inr (Some True)) xs"
    if "\<forall>x \<in> set xs. \<exists>d. F x = Inr d" for F :: "path \<times> file_node \<Rightarrow> bool option res" and xs
    using that by (intro filter_cong) auto
  show ?thesis
  proof (cases "\<forall>x \<in> set ks. \<exists>d. D x = Inr d")
    case True
    then have w: "walk_merge_commit env w mt ps S resume = Inr (result_of (\<lambda>x. projr (D x)) ks merge_result_new, fst ` set ks)"
      using m by blast
    show ?thesis
    proof (cases "\<forall>x \<in> set js. \<exists>d. E x = Inr d")
      case e: True
      then have "walk_base_dir env w bt S (fst ` set ks) resume = Inr (result_of (\<lambda>x. projr (E x)) js merge_result_new)"
        using b by blast
      with w show ?thesis
        using True e ok [of ks D] ok [of js E] picked [OF True] picked [OF e]
        by (auto simp: plan_fast_forward_def result_of_def merge_result_new_def)
    next
      case False
      then have "walk_base_dir env w bt S (fst ` set ks) resume \<noteq> Inr r" for r using b by blast
      then obtain e where "walk_base_dir env w bt S (fst ` set ks) resume = Inl e"
        by (cases "walk_base_dir env w bt S (fst ` set ks) resume") auto
      with w False show ?thesis by (auto simp: plan_fast_forward_def)
    qed
  next
    case False
    then have "walk_merge_commit env w mt ps S resume \<noteq> Inr r" for r using m by (cases r) blast
    then obtain e where "walk_merge_commit env w mt ps S resume = Inl e"
      by (cases "walk_merge_commit env w mt ps S resume") auto
    with False show ?thesis by (auto simp: plan_fast_forward_def)
  qed
qed

text \<open>The loaded trees and the files their walks visit.\<close>

lemma ff_plan:
  assumes "commit_tree hash128 st fuel bc b" "commit_tree hash128 st fuel mc m" "apart b m"
    and "\<forall>f \<in> snd ` set (file_entries b []). timed f"
  obtains mt bt ps js ks where "load_fast_forward st fuel bc mc = Inr (mt, bt, ps, ff_shared b m)"
    and "map_of ps = map_option partial_of \<circ> map_of (kept (ff_shared b m) b [])"
    and "distinct (map fst js)" "map_of js = map_of (kept (ff_shared b m) b [])"
    and "distinct (map fst ks)" "map_of ks = map_of (kept (ff_shared b m) m [])"
    and "\<And>env w resume rs ds. plan_fast_forward env w mt bt ps (ff_shared b m) resume = Inr (rs, ds) \<longleftrightarrow>
      (\<forall>x \<in> set ks. \<exists>d. merge_decision env w ps resume x = Inr d \<and> d \<noteq> Some False) \<and>
      (\<forall>x \<in> set js. \<exists>d. base_decision env w (fst ` set ks) resume x = Inr d \<and> d \<noteq> Some False) \<and>
      rs = filter (\<lambda>x. merge_decision env w ps resume x = Inr (Some True)) ks \<and>
      ds = filter (\<lambda>x. base_decision env w (fst ` set ks) resume x = Inr (Some True)) js"
proof -
  let ?S = "ff_shared b m"
  have wf: "wf_tree b" "node_type (t_node b) = TCommit" "wf_tree m" "node_type (t_node m) = TCommit"
    using assms(1,2) by (simp_all add: commit_tree_def)
  obtain pm pb ps where l: "load_fast_forward st fuel bc mc =
      Inr (MTNode (t_hash m) (t_node m) pm (t_children m),
           MTNode (t_hash b) (t_node b) pb (t_children (prune (Some (unique_of None (-1) 0 m)) (-1) 0 b)), ps, ?S)"
    "map_of ps = map_option partial_of \<circ> map_of (kept ?S b [])"
    using load_fast_forward_trees [OF assms(1,2,4)] by metis
  show thesis
  proof (rule ff_walks [OF wf assms(3), of pb pm])
    fix js ks
    let ?bt = "MTNode (t_hash b) (t_node b) pb (t_children (prune (Some (unique_of None (-1) 0 m)) (-1) 0 b))"
    let ?mt = "MTNode (t_hash m) (t_node m) pm (t_children m)"
    assume b: "\<And>strict step acc. walk_files ?S strict step [([], ?bt)] acc = rfold (\<lambda>(p, f). step p (fn_hash f) f) js (acc :: merge_result)"
      and m: "\<And>strict step acc. walk_files ?S strict step [([], ?mt)] acc = rfold (\<lambda>(p, f). step p (fn_hash f) f) ks (acc :: merge_result \<times> path set)"
      and j: "distinct (map fst js)" "map_of js = map_of (kept ?S b [])" "distinct (map fst ks)" "map_of ks = map_of (kept ?S m [])"
    show thesis by (rule that [OF l j plan_decisions [OF b m]])
  qed
qed

section \<open>No local change is lost\<close>

text \<open>The file in the working tree is a copy of what a commit recorded, as far as the code can tell.\<close>

definition stat_matches :: "work_env \<Rightarrow> work_tree \<Rightarrow> path \<Rightarrow> file_node \<Rightarrow> bool" where
  "stat_matches env w p f \<longleftrightarrow> (\<exists>t bs. fn_last_modified f = Inr t \<and> fs_files (wt_fs w) (working_path env p) = Some bs \<and>
     size_and_mtime_match env (length bs, wt_mtime w (working_path env p)) t (fn_num_bytes f) = Inr True)"

definition recorded :: "work_env \<Rightarrow> work_tree \<Rightarrow> path \<Rightarrow> file_node \<Rightarrow> bool" where
  "recorded env w p f \<longleftrightarrow> stat_matches env w p f \<or>
     (\<exists>bs. fs_files (wt_fs w) (working_path env p) = Some bs \<and> wk_hash env bs = fn_hash f) \<or>
     file_combined_hash env (working_path env p) p w = Inr (fn_combined_hash f)"

lemma metadata_file: "fs_files (wt_fs w) q = Some bs \<Longrightarrow> metadata env q w = Inr (length bs, wt_mtime w q)"
  by (simp add: metadata_def)

lemma should_restore_file_recorded:
  assumes "should_restore_file env None f p w = Inr True" "fs_files (wt_fs w) (working_path env p) = Some bs"
  shows "recorded env w p f"
  using assms metadata_file [OF assms(2), of env]
  by (auto simp: should_restore_file_def Let_def path_exists_def rbind_eq_Inr recorded_def stat_matches_def split: if_splits)

lemma should_restore_partial_recorded:
  assumes "should_restore_partial_node env (Some (partial_of g)) f p w = Inr True" "timed g"
    and "fs_files (wt_fs w) (working_path env p) = Some bs"
  shows "recorded env w p g \<or> recorded env w p f"
proof -
  obtain t where t: "fn_last_modified g = Inr t" using assms(2) by (auto simp: timed_def)
  with assms(1,3) partial_of_timed [OF t] metadata_file [OF assms(3), of env]
  show ?thesis
    by (auto simp: should_restore_partial_node_def Let_def path_exists_def rbind_eq_Inr recorded_def stat_matches_def
        u128_hash_file_contents_def split: if_splits)
qed

definition checkout_but :: "path set \<Rightarrow> 'r checkout \<Rightarrow> 'r checkout \<Rightarrow> bool" where
  "checkout_but P s s' \<longleftrightarrow> work_but P (co_work s) (co_work s')"

lemma checkout_but_preorder [simp]: "reflp (checkout_but P)" "transp (checkout_but P)"
  by (auto simp: checkout_but_def work_but_def reflp_def transp_def)

lemma on_work_within [simp]: "runs_within (work_but P) m \<Longrightarrow> runs_within (checkout_but P) (on_work m)"
  by (auto simp: runs_within_def checkout_but_def on_work_def split: prod.splits) (metis snd_conv)

lemma move_head_within [simp]: "runs_within (checkout_but P) (move_head kv c)"
  by (simp add: runs_within_def checkout_but_def move_head_def work_but_def)

lemma apply_within:
  assumes "marker_path env \<in> P" "working_path env ` fst ` (set rs \<union> set ds) \<subseteq> P"
  shows "runs_within (work_but P) (apply_fast_forward env target rs ds)"
proof -
  have "working_path env p \<in> P" if "(p, f) \<in> set rs" for p f using assms(2) that by force
  moreover have "working_path env p \<in> P" if "(p, f) \<in> set ds" for p f using assms(2) that by force
  ultimately show ?thesis
    unfolding apply_fast_forward_def marker_write_def using assms(1)
    by (intro runs_within_sbind runs_within_sfor) (auto intro!: restore_file_within remove_file_within)
qed

lemma marker_clear_within [simp]: "marker_path env \<in> P \<Longrightarrow> runs_within (fs_but P) (marker_clear env)"
  by (auto simp: runs_within_def marker_clear_def fs_but_def fs_remove_file_def)

text \<open>Whatever the outcome, only planned files and the marker change.\<close>

lemma fast_forward_within:
  assumes "fast_forward_merge env st fuel kv bc mc (Present resume) s = (r, s')" "q \<noteq> marker_path env"
    and "fs_files (wt_fs (co_work s')) q \<noteq> fs_files (wt_fs (co_work s)) q"
  obtains mt bt ps S rs ds p f where "load_fast_forward st fuel bc mc = Inr (mt, bt, ps, S)"
    "plan_fast_forward env (co_work s) mt bt ps S resume = Inr (rs, ds)"
    "(p, f) \<in> set rs \<union> set ds" "q = working_path env p"
proof -
  have ne: "cm_id bc \<noteq> cm_id mc" using assms(1,3) by (auto simp: fast_forward_merge_def)
  obtain mt bt ps S where l: "load_fast_forward st fuel bc mc = Inr (mt, bt, ps, S)"
    using assms(1,3) ne by (cases "load_fast_forward st fuel bc mc") (auto simp: fast_forward_merge_def)
  obtain rs ds where pl: "plan_fast_forward env (co_work s) mt bt ps S resume = Inr (rs, ds)"
    using assms(1,3) ne l
    by (cases "plan_fast_forward env (co_work s) mt bt ps S resume") (auto simp: fast_forward_merge_def sbind_def)
  let ?P = "insert (marker_path env) (working_path env ` fst ` (set rs \<union> set ds))"
  have "runs_within (checkout_but ?P)
     (sbind (on_work (apply_fast_forward env (cm_id mc) rs ds)) (\<lambda>_.
      sbind (move_head kv (cm_id mc)) (\<lambda>_. sbind (on_work (on_fs (marker_clear env))) (\<lambda>_. slift (Inr (Some mc))))))" (is "runs_within _ ?m")
    by (intro runs_within_sbind on_work_within apply_within) auto
  moreover have "?m s = (r, s')" using assms(1) ne l pl by (simp add: fast_forward_merge_def sbind_def)
  ultimately have "checkout_but ?P s s'" by (rule runs_withinD)
  with assms(2,3) have "q \<in> working_path env ` fst ` (set rs \<union> set ds)"
    by (auto simp: checkout_but_def work_but_def)
  with l pl that show thesis by force
qed

end
