(* ===== verification/Fast_Forward_Sample.thy ===== *)
theory Fast_Forward_Sample
  imports Fast_Forward_Props
begin

text \<open>Two commits, a node store and a working tree at which the fast-forward merge is evaluated.\<close>

section \<open>The commits and the files\<close>

text \<open>
  The current commit has \<open>a\<close> with one byte and \<open>b\<close> with two, the merged one \<open>a\<close> with three bytes
  and \<open>c\<close> with four; the hash of a content is given by its length.
\<close>

definition ff_hash :: "byte list \<Rightarrow> merkle_hash" where
  "ff_hash bs = 0x100 + of_nat (length bs)"

definition ff_file :: "string \<Rightarrow> nat \<Rightarrow> file_node" where
  "ff_file s n = FileV0_25_0 ((file_data (sample_file s (0x100 + of_nat n)))\<lparr>fd_num_bytes := of_nat n\<rparr>)"

definition ff_tree :: "merkle_hash \<Rightarrow> file_node list \<Rightarrow> merkle_tree_node" where
  "ff_tree n fs =
     MTNode (n + 3) (ECommit (sample_commit (n + 3) [] 0)) None
       [MTNode (n + 2) (EDirectory (sample_dir '''' (n + 2))) (Some (n + 3))
         [MTNode (n + 1) (EVNode (sample_vnode (n + 1))) (Some (n + 2))
           (map (\<lambda>f. MTNode (fn_hash f) (EFile f) (Some (n + 1)) []) fs)]]"

definition ff_commit :: "merkle_hash \<Rightarrow> commit" where
  "ff_commit n = commit_node_to_commit (sample_commit (n + 3) [] 0)"

definition ff_base :: merkle_tree_node where
  "ff_base = ff_tree 30 [ff_file ''a'' 1, ff_file ''b'' 2]"

definition ff_merge :: merkle_tree_node where
  "ff_merge = ff_tree 40 [ff_file ''a'' 3, ff_file ''c'' 4]"

definition ff_store :: node_store where
  "ff_store =
     (let find = (\<lambda>h. List.find (\<lambda>x. t_hash x = h \<and> may_have_children x) (tree_nodes ff_base @ tree_nodes ff_merge))
      in \<lparr>st_exists = (\<lambda>h. find h \<noteq> None),
          st_from_hash = (\<lambda>h. case find h of None \<Rightarrow> Inl (Basic ''missing'') | Some x \<Rightarrow> Inr (strip x)),
          st_children = (\<lambda>h. case find h of None \<Rightarrow> Inr [] | Some x \<Rightarrow> Inr (map (\<lambda>c. (t_hash c, strip c)) (t_children x))),
          st_dir_hashes = (\<lambda>i. rbind (merkle_hash_from_str i) (\<lambda>h. Inr [('''', merkle_hash_to_string (h - 1))]))\<rparr>)"

definition ff_env :: work_env where
  "ff_env = \<lparr>wk_repo = [Normal ''r''], wk_store = local_root [Normal ''r''] None, wk_tolerance = 0, wk_now = (9, 9),
     wk_round = (\<lambda>t. t), wk_dir_stat = (\<lambda>_ _. (0, (0, 0))), wk_hash = ff_hash, wk_metadata_hash = (\<lambda>_ _. Inr None)\<rparr>"

text \<open>A working tree with files of the given sizes, the versions of both commits and a marker.\<close>

definition ff_work :: "(string \<times> nat) list \<Rightarrow> string option \<Rightarrow> work_tree" where
  "ff_work fs marker =
     \<lparr>wt_fs = \<lparr>fs_dirs = {[], [Normal ''r''], [Normal ''r'', Normal ''.oxen'']},
        fs_files = map_of (map (\<lambda>(s, n). ([Normal ''r'', Normal s], replicate n 0)) fs @
          map (\<lambda>n. (version_at ff_env (0x100 + of_nat n), replicate n 0)) [1, 2, 3, 4] @
          (case marker of None \<Rightarrow> [] | Some t \<Rightarrow> [(marker_path ff_env, as_bytes t)]))\<rparr>,
      wt_mtime = (\<lambda>_. (0, 0))\<rparr>"

lemma ff_file_simps [simp]:
  "fn_name (ff_file s n) = s" "fn_hash (ff_file s n) = 0x100 + of_nat n" "fn_combined_hash (ff_file s n) = 0x100 + of_nat n"
  "fn_num_bytes (ff_file s n) = of_nat n" "fn_last_modified (ff_file s n) = Inr (0, 0)"
  by (simp_all add: ff_file_def sample_file_def fn_name_def fn_hash_def fn_combined_hash_def fn_num_bytes_def file_node_default_def
      fn_last_modified_def last_modified_time_def fn_last_modified_seconds_def fn_last_modified_nanoseconds_def)

lemma ff_entries: "file_entries (ff_tree n [ff_file s i, ff_file t j]) P = [(join_str P s, ff_file s i), (join_str P t, ff_file t j)]"
  by (simp add: ff_tree_def file_entries_def)

lemma ff_maps:
  "file_map ff_base = [[Normal ''a''] \<mapsto> ff_file ''a'' 1, [Normal ''b''] \<mapsto> ff_file ''b'' 2]"
  "file_map ff_merge = [[Normal ''a''] \<mapsto> ff_file ''a'' 3, [Normal ''c''] \<mapsto> ff_file ''c'' 4]"
  by (auto simp: file_map_def ff_base_def ff_merge_def ff_entries fun_eq_iff valid_name_def)

lemma ff_commit_tree:
  assumes "stored st (ff_tree n [ff_file s i, ff_file t j])" "dir_hashes st (ff_commit n) = Inr [([], n + 2)]"
    and "valid_name s" "valid_name t" "s < t"
  shows "commit_tree (\<lambda>_. 0) st 9 (ff_commit n) (ff_tree n [ff_file s i, ff_file t j])"
proof -
  let ?t = "ff_tree n [ff_file s i, ff_file t j]"
  let ?r = "hd (t_children ?t)"
  have entries: "set (tree_entries ?r []) = {([], ?r), ([Normal s], MTNode (0x100 + of_nat i) (EFile (ff_file s i)) (Some (n + 1)) []),
      ([Normal t], MTNode (0x100 + of_nat j) (EFile (ff_file t j)) (Some (n + 1)) [])}"
    using assms(3,4) by (auto simp: ff_tree_def)
  have "dir_hashes_ok [([], n + 2)] ?r"
    unfolding dir_hashes_ok_def entries by (auto simp: ff_tree_def)
  moreover have "bucketed (\<lambda>_. 0) P d" if "(P, d) \<in> set (tree_entries ?r [])" "is_dir d" for P d
    using that unfolding entries by (auto simp: bucketed_def ff_tree_def)
  moreover have "wf_tree ?t" using assms(3-5) by (auto simp: ff_tree_def)
  ultimately show ?thesis
    unfolding commit_tree_def using assms
    by (simp add: ff_tree_def ff_commit_def commit_node_to_commit_def)
qed

lemma ff_stored: "stored ff_store ff_base" "stored ff_store ff_merge"
  by (simp_all add: ff_store_def Let_def ff_base_def ff_merge_def ff_tree_def strip_def)

lemma ff_trees: "commit_tree (\<lambda>_. 0) ff_store 9 (ff_commit 30) ff_base" "commit_tree (\<lambda>_. 0) ff_store 9 (ff_commit 40) ff_merge"
proof -
  have "dir_hashes ff_store (ff_commit n) = Inr [([], n + 2)]" for n
    by (simp add: dir_hashes_def ff_store_def ff_commit_def commit_node_to_commit_def Let_def)
  then show "commit_tree (\<lambda>_. 0) ff_store 9 (ff_commit 30) ff_base" "commit_tree (\<lambda>_. 0) ff_store 9 (ff_commit 40) ff_merge"
    using ff_stored unfolding ff_base_def ff_merge_def by (auto intro!: ff_commit_tree simp: valid_name_def)
qed

lemma ff_inner_files:
  "(P, z) \<in> set (inner_at (ff_tree n [ff_file s i, ff_file t j]) []) \<Longrightarrow> t_hash z \<in> {n + 1, n + 2, n + 3} \<and>
     set (file_entries z P) = {(join_str [] s, ff_file s i), (join_str [] t, ff_file t j)}"
  by (auto simp: ff_tree_def file_entries_def)

lemma ff_fixed: "hash_fixes_files {ff_base, ff_merge}"
  unfolding hash_fixes_files_def ff_base_def ff_merge_def by (auto dest!: ff_inner_files)

lemma ff_apart: "apart ff_base ff_merge"
  unfolding apart_def ff_base_def ff_merge_def by (auto simp: ff_tree_def)

lemma ff_timed: "\<forall>f \<in> snd ` set (file_entries ff_base []). timed f"
  by (auto simp: ff_base_def ff_entries timed_def)

lemmas ff_sample = ff_trees ff_apart ff_timed ff_fixed

lemma ff_working: "valid_name s \<Longrightarrow> working_path ff_env [Normal s] = [Normal ''r'', Normal s]"
  by (simp add: working_path_names ff_env_def)

lemma ff_versions: "version_at ff_env h = [Normal ''r'', Normal ''.oxen'', Normal ''versions'', Normal ''files'',
    Normal (take 2 (merkle_hash_to_string h)), Normal (drop 2 (merkle_hash_to_string h)), data_name]"
  by (simp add: version_at_def key_dir_def ff_env_def local_root_def)

lemma ff_texts: "merkle_hash_to_string 0x101 = ''101''" "merkle_hash_to_string 0x102 = ''102''"
  "merkle_hash_to_string 0x103 = ''103''" "merkle_hash_to_string 0x104 = ''104''"
  by (simp_all add: merkle_hash_to_string_def hex_digits.simps hex_digit_def) code_simp+

end
