(* ===== verification/Fast_Forward_Result.thy ===== *)
theory Fast_Forward_Result
  imports Fast_Forward_Sample
begin

text \<open>
  What a fast-forward merge does to the files: without a resume it never overwrites what was not
  committed; in a clean working tree, and with a resume in any, it ends with the files of the
  merged commit; a file that has to make way for a directory stops it.
\<close>

section \<open>The files of the two commits\<close>

lemma entry_ancestor_dir:
  assumes "wf_tree t" "is_dir t"
  shows "(q, x) \<in> set (tree_entries t []) \<Longrightarrow> path_starts_with q p \<Longrightarrow> p \<noteq> q \<Longrightarrow> \<exists>d. (p, d) \<in> set (tree_entries t []) \<and> is_dir d"
proof (induction q arbitrary: x rule: rev_induct)
  case Nil
  then show ?case by (simp add: path_starts_with_def)
next
  case (snoc c q)
  from entry_has_dir [OF assms snoc.prems(1)] obtain P d where
    d: "(P, d) \<in> set (tree_entries t [])" "is_dir d" "q @ [c] = P @ [Normal (child_search_name x)]" by auto
  have "path_starts_with q p" using snoc.prems(2,3) path_starts_with_snoc [of q c p] by blast
  with snoc.IH [of d] d show ?case by (cases "p = q") auto
qed

lemma file_paths_prefix_free:
  assumes "wf_tree t" "node_type (t_node t) = TCommit"
  shows "prefix_free (dom (file_map t))"
  unfolding prefix_free_def
proof (intro ballI impI)
  fix p q assume p: "p \<in> dom (file_map t)" "q \<in> dom (file_map t)" "path_starts_with q p"
  obtain h c pid r where t: "t = MTNode h (ECommit c) pid [r]" "wf_tree r" "is_dir r" "child_search_name r = []"
    using assms by (cases t; cases "t_node t") (auto split: list.splits)
  have at: "\<exists>x f. (p, x) \<in> set (tree_entries r []) \<and> t_node x = EFile f" if d: "p \<in> dom (file_map t)" for p
  proof -
    obtain f where "file_map t p = Some f" using d by blast
    then have "(p, f) \<in> set (file_entries r [])" unfolding file_map_iff [OF assms(1)] file_entries_root [OF t(1,3,4)] .
    then show ?thesis by (auto simp: in_file_entries)
  qed
  obtain f g x y where e: "(p, x) \<in> set (tree_entries r [])" "t_node x = EFile f" "(q, y) \<in> set (tree_entries r [])" "t_node y = EFile g"
    using at [OF p(1)] at [OF p(2)] by blast
  show "q = p"
  proof (rule ccontr)
    assume "q \<noteq> p"
    then obtain d where "(p, d) \<in> set (tree_entries r [])" "is_dir d" using entry_ancestor_dir [OF t(2,3) e(3) p(3)] by blast
    then have "d = x" using e(1) map_of_tree_entries [OF t(2), of "[]" p] by (metis option.sel)
    with e(2) \<open>is_dir d\<close> show False by (simp add: is_dir_def)
  qed
qed

lemma file_map_named:
  assumes "wf_tree t" "node_type (t_node t) = TCommit" "file_map t p = Some f"
  shows "name_path p \<and> p \<noteq> []"
proof -
  obtain h c pid r where t: "t = MTNode h (ECommit c) pid [r]" "wf_tree r" "is_dir r" "child_search_name r = []"
    using assms(1,2) by (cases t; cases "t_node t") (auto split: list.splits)
  have "(p, f) \<in> set (file_entries r [])"
    using assms(3) unfolding file_map_iff [OF assms(1)] file_entries_root [OF t(1,3,4)] .
  with file_path_named [OF t(2,3)] show ?thesis .
qed

lemma ff_sides:
  assumes "hash_fixes_files {b, m}" "wf_tree b" "wf_tree m"
  defines "J \<equiv> map_of (kept (ff_shared b m) b [])" and "K \<equiv> map_of (kept (ff_shared b m) m [])"
  shows "K p = Some f \<Longrightarrow> file_map m p = Some f" and "J p = Some f \<Longrightarrow> file_map b p = Some f"
    and "file_map m p = Some f \<Longrightarrow> K p = None \<Longrightarrow> file_map b p = Some f \<and> J p = None"
    and "file_map b p = Some f \<Longrightarrow> J p = None \<Longrightarrow> file_map m p = Some f \<and> K p = None"
proof -
  show "K p = Some f \<Longrightarrow> file_map m p = Some f" "J p = Some f \<Longrightarrow> file_map b p = Some f"
    using kept_file assms(2,3) unfolding J_def K_def by blast+
  show "file_map b p = Some f \<and> J p = None" if m: "file_map m p = Some f" "K p = None"
  proof (rule left_out_elsewhere [OF assms(1) _ assms(3) m(1) m(2) [unfolded K_def]])
    fix h assume "h \<in> ff_shared b m"
      and "\<And>u Q z. u \<in> {b, m} \<Longrightarrow> wf_tree u \<Longrightarrow> (Q, z) \<in> set (inner_at u []) \<Longrightarrow> t_hash z = h \<Longrightarrow>
             file_map u p = Some f \<and> map_of (kept (ff_shared b m) u []) p = None"
    with ff_shared_places(1) [of h b m] assms(2) show ?thesis unfolding J_def by blast
  qed simp
  show "file_map m p = Some f \<and> K p = None" if b: "file_map b p = Some f" "J p = None"
  proof (rule left_out_elsewhere [OF assms(1) _ assms(2) b(1) b(2) [unfolded J_def]])
    fix h assume "h \<in> ff_shared b m"
      and "\<And>u Q z. u \<in> {b, m} \<Longrightarrow> wf_tree u \<Longrightarrow> (Q, z) \<in> set (inner_at u []) \<Longrightarrow> t_hash z = h \<Longrightarrow>
             file_map u p = Some f \<and> map_of (kept (ff_shared b m) u []) p = None"
    with ff_shared_places(2) [of h b m] assms(3) show ?thesis unfolding K_def by blast
  qed simp
qed

section \<open>A merge that ends\<close>

text \<open>Size and time on the disk are those of a file of the commit only if it is that file.\<close>

definition stat_trusted :: "work_env \<Rightarrow> work_tree \<Rightarrow> path \<Rightarrow> file_node \<Rightarrow> bool" where
  "stat_trusted env w p f \<longleftrightarrow> (\<forall>t bs. fn_last_modified f = Inr t \<longrightarrow> fs_files (wt_fs w) (working_path env p) = Some bs \<longrightarrow>
     already_restored env f t (working_path env p) w \<longrightarrow> wk_hash env bs = fn_hash f)"

text \<open>The version store has the contents of the merge commit under their hashes, nothing is in the way.\<close>

definition merge_ready :: "work_env \<Rightarrow> work_tree \<Rightarrow> merkle_tree_node \<Rightarrow> merkle_tree_node \<Rightarrow> bool" where
  "merge_ready env w b m \<longleftrightarrow>
     wk_repo env \<noteq> [] \<and> wk_repo env @ [Normal ''.oxen''] \<in> fs_dirs (wt_fs w) \<and> marker_path env \<notin> fs_dirs (wt_fs w) \<and>
     (\<forall>h. version_at env h \<noteq> marker_path env) \<and>
     (\<forall>p \<in> dom (file_map b) \<union> dom (file_map m). hd p \<noteq> Normal ''.oxen'' \<and> (\<forall>h. version_at env h \<noteq> working_path env p)) \<and>
     (\<forall>p f. file_map m p = Some f \<longrightarrow> can_restore env w (p, f) \<and> stat_trusted env w p f \<and>
        (\<forall>bs. fs_files (wt_fs w) (version_at env (fn_hash f)) = Some bs \<longrightarrow> wk_hash env bs = fn_hash f)) \<and>
     (\<forall>p. file_map b p \<noteq> None \<longrightarrow> file_map m p = None \<longrightarrow> working_path env p \<notin> fs_dirs (wt_fs w))"

lemma marker_path_eq: "marker_path env = wk_repo env @ [Normal ''.oxen'', Normal ''MERGE_IN_PROGRESS'']"
  by (simp add: marker_path_def path_join_names valid_name_def)

lemma working_not_marker: "name_path p \<Longrightarrow> hd p \<noteq> Normal ''.oxen'' \<Longrightarrow> working_path env p \<noteq> marker_path env"
  by (auto simp: working_path_names marker_path_eq)

definition has_content :: "work_env \<Rightarrow> work_tree \<Rightarrow> path \<Rightarrow> file_node \<Rightarrow> bool" where
  "has_content env w p f \<longleftrightarrow> (\<exists>bs. fs_files (wt_fs w) (working_path env p) = Some bs \<and> wk_hash env bs = fn_hash f)"

lemma restored_has_content:
  assumes "can_restore env w (p, f)" "stat_trusted env w p f"
    and "\<forall>bs. fs_files (wt_fs w) (version_at env (fn_hash f)) = Some bs \<longrightarrow> wk_hash env bs = fn_hash f"
  shows "\<exists>bs. restored_content env f p w = Some bs \<and> wk_hash env bs = fn_hash f"
proof (cases "\<exists>t. fn_last_modified f = Inr t \<and> already_restored env f t (working_path env p) w")
  case True
  then obtain t where t: "fn_last_modified f = Inr t" "already_restored env f t (working_path env p) w" by blast
  have "working_path env p \<notin> fs_dirs (wt_fs w)"
    using assms(1) by (simp add: can_restore_def clear_way_def working_path_names)
  with t(2) obtain bs where bs: "fs_files (wt_fs w) (working_path env p) = Some bs"
    by (auto simp: already_restored_def metadata_def split: option.splits)
  with True assms(2) t show ?thesis unfolding restored_content_def stat_trusted_def by auto
next
  case False
  then have "restored_content env f p w = fs_files (wt_fs w) (version_at env (fn_hash f))"
    unfolding restored_content_def by (rule if_not_P)
  with assms(1,3) show ?thesis by (auto simp: can_restore_def)
qed

lemma marker_written:
  fixes target :: string
  assumes "merge_ready env w b m"
  defines "w1 \<equiv> w\<lparr>wt_fs := (wt_fs w)\<lparr>fs_files := (fs_files (wt_fs w))(marker_path env \<mapsto> as_bytes target)\<rparr>\<rparr>"
  shows "on_fs (marker_write env target) w = (Inr (), w1)"
    and "file_map m p = Some f \<Longrightarrow> can_restore env w1 (p, f) \<and> restored_content env f p w1 = restored_content env f p w"
proof -
  have "path_parent (marker_path env) = Some (wk_repo env @ [Normal ''.oxen''])"
    by (simp add: marker_path_eq path_parent_def butlast_append)
  then show "on_fs (marker_write env target) w = (Inr (), w1)"
    using assms(1) by (simp add: merge_ready_def marker_write_def fs_write_def on_fs_def w1_def)
  assume f: "file_map m p = Some f"
  then have c: "can_restore env w (p, f)" "hd p \<noteq> Normal ''.oxen''" "name_path p" "p \<noteq> []"
    using assms(1) by (auto simp: merge_ready_def can_restore_def)
  have "marker_path env \<notin> set (path_ancestors (wk_repo env @ butlast p))"
  proof
    assume "marker_path env \<in> set (path_ancestors (wk_repo env @ butlast p))"
    from ancestor_below [OF this [unfolded marker_path_eq] c(4)] obtain r where
      "p = [Normal ''.oxen'', Normal ''MERGE_IN_PROGRESS''] @ r" by (auto simp: path_starts_with_append)
    with c(2) show False by simp
  qed
  then have "clear_way env (wt_fs w1) p" using c(1) by (auto simp: can_restore_def clear_way_def w1_def)
  moreover have v: "fs_files (wt_fs w1) (version_at env h) = fs_files (wt_fs w) (version_at env h)" for h
    using assms(1) by (simp add: merge_ready_def w1_def)
  ultimately have can: "can_restore env w1 (p, f)" using c(1) by (simp add: can_restore_def)
  have "working_path env p \<notin> fs_dirs (wt_fs w)" using c(1) by (simp add: can_restore_def clear_way_def working_path_names)
  then have "already_restored env f t (working_path env p) w1 = already_restored env f t (working_path env p) w" for t
    using working_not_marker [OF c(3,2)] by (intro already_restored_same) (simp_all add: w1_def)
  moreover have "fs_files (wt_fs w1) (working_path env p) = fs_files (wt_fs w) (working_path env p)"
    using working_not_marker [OF c(3,2), of env] by (simp add: w1_def)
  ultimately have "restored_content env f p w1 = restored_content env f p w"
    using v by (simp only: restored_content_def)
  with can show "can_restore env w1 (p, f) \<and> restored_content env f p w1 = restored_content env f p w" by blast
qed

lemma apply_reaches:
  assumes ready: "merge_ready env w b m" and wf: "wf_tree b" "node_type (t_node b) = TCommit" "wf_tree m" "node_type (t_node m) = TCommit"
    and rs: "distinct (map fst rs)" "\<forall>(p, f) \<in> set rs. file_map m p = Some f"
    and ds: "distinct (map fst ds)" "\<forall>(p, f) \<in> set ds. file_map b p \<noteq> None \<and> file_map m p = None \<and>
        fs_files (wt_fs w) (working_path env p) \<noteq> None"
  shows "\<exists>w'. apply_fast_forward env target rs ds w = (Inr (), w') \<and>
    fs_files (wt_fs w') (marker_path env) = Some (as_bytes target) \<and>
    (\<forall>(p, f) \<in> set rs. has_content env w' p f) \<and> (\<forall>(p, f) \<in> set ds. fs_files (wt_fs w') (working_path env p) = None) \<and>
    (\<forall>q. q \<notin> insert (marker_path env) (working_path env ` fst ` (set rs \<union> set ds)) \<longrightarrow> fs_files (wt_fs w') q = fs_files (wt_fs w) q)"
proof -
  define w1 where "w1 = w\<lparr>wt_fs := (wt_fs w)\<lparr>fs_files := (fs_files (wt_fs w))(marker_path env \<mapsto> as_bytes target)\<rparr>\<rparr>"
  note w1 = marker_written [OF ready, where target = target, folded w1_def]
  have named: "name_path p \<and> hd p \<noteq> Normal ''.oxen'' \<and> (\<forall>h. version_at env h \<noteq> working_path env p)" if "p \<in> fst ` set rs \<union> fst ` set ds" for p
  proof -
    have "p \<in> dom (file_map b) \<union> dom (file_map m)" using that rs(2) ds(2) by force
    with ready file_map_named [OF wf(1,2)] file_map_named [OF wf(3,4)] show ?thesis by (auto simp: merge_ready_def)
  qed
  have nm: "marker_path env \<notin> working_path env ` fst ` (set rs \<union> set ds)"
    using named working_not_marker by (metis (no_types, lifting) image_Un image_iff)
  have sub: "fst ` set rs \<subseteq> dom (file_map m)" using rs(2) by force
  have pf: "prefix_free (fst ` set rs)"
    by (rule prefix_free_subset [OF file_paths_prefix_free [OF wf(3,4)] sub])
  have "\<forall>x \<in> set rs. can_restore env w1 x" using rs(2) w1(2) by fastforce
  moreover have "\<forall>h. version_at env h \<notin> working_path env ` fst ` set rs" using named by blast
  ultimately obtain w2 where w2: "sfor (\<lambda>(p, f). restore_file env f p) rs w1 = (Inr (), w2)"
    "work_but (working_path env ` fst ` set rs) w1 w2"
    "\<forall>(p, f) \<in> set rs. fs_files (wt_fs w2) (working_path env p) = restored_content env f p w1"
    using restore_all [OF _ pf rs(1), of env w1] ready unfolding merge_ready_def by blast
  have apart: "working_path env p \<notin> working_path env ` fst ` set rs" if p: "p \<in> fst ` set ds" for p
  proof
    assume "working_path env p \<in> working_path env ` fst ` set rs"
    then obtain q where q: "q \<in> fst ` set rs" "working_path env p = working_path env q" by blast
    then have "p = q" using named p working_path_inj by blast
    with q(1) sub p ds(2) show False by force
  qed
  have here: "fs_files (wt_fs w2) (working_path env p) = fs_files (wt_fs w) (working_path env p)" if p: "p \<in> fst ` set ds" for p
  proof -
    have "working_path env p \<noteq> marker_path env" using named p working_not_marker by blast
    then show ?thesis using apart [OF p] w2(2) by (simp add: work_but_def w1_def)
  qed
  have "distinct (map (working_path env \<circ> fst) ds)"
  proof -
    have "inj_on (working_path env) (fst ` set ds)" using named working_path_inj by (intro inj_onI) blast
    then show ?thesis using ds(1) by (simp add: distinct_map comp_inj_on)
  qed
  moreover have "\<forall>(p, f) \<in> set ds. fs_files (wt_fs w2) (working_path env p) \<noteq> None" using ds(2) here by force
  ultimately obtain w3 where w3: "sfor (\<lambda>(p, f). on_fs (fs_remove_file (working_path env p))) ds w2 = (Inr (), w3)"
    "work_but (working_path env ` fst ` set ds) w2 w3" "\<forall>(p, f) \<in> set ds. fs_files (wt_fs w3) (working_path env p) = None"
    using remove_all by blast
  have "apply_fast_forward env target rs ds w = (Inr (), w3)"
    using w1(1) w2(1) w3(1) by (simp add: apply_fast_forward_def sbind_def)
  moreover have "fs_files (wt_fs w3) (marker_path env) = Some (as_bytes target)"
    using nm w2(2) w3(2) by (simp add: work_but_def w1_def image_Un)
  moreover have "has_content env w3 p f" if p: "(p, f) \<in> set rs" for p f
  proof -
    have m: "file_map m p = Some f" using p rs(2) by blast
    have "working_path env p \<notin> working_path env ` fst ` set ds"
      using apart p by (metis (no_types, lifting) fst_conv image_eqI image_iff)
    then have "fs_files (wt_fs w3) (working_path env p) = restored_content env f p w"
      using p w2(3) w3(2) w1(2) [OF m] by (force simp: work_but_def)
    moreover have "\<exists>bs. restored_content env f p w = Some bs \<and> wk_hash env bs = fn_hash f"
      using ready m by (intro restored_has_content) (auto simp: merge_ready_def)
    ultimately show ?thesis by (simp add: has_content_def)
  qed
  moreover have "fs_files (wt_fs w3) q = fs_files (wt_fs w) q"
    if "q \<notin> insert (marker_path env) (working_path env ` fst ` (set rs \<union> set ds))" for q
    using that w2(2) w3(2) by (simp add: work_but_def w1_def image_Un)
  ultimately show ?thesis using w3(3) by (intro exI [of _ w3]) blast
qed

text \<open>A working tree without local changes: the files of the commit, with the times recorded for them.\<close>

definition clean_checkout :: "work_env \<Rightarrow> work_tree \<Rightarrow> merkle_tree_node \<Rightarrow> merkle_tree_node \<Rightarrow> bool" where
  "clean_checkout env w b m \<longleftrightarrow> (\<forall>p f. file_map b p = Some f \<longrightarrow> has_content env w p f \<and> stat_matches env w p f) \<and>
     (\<forall>p. file_map m p \<noteq> None \<longrightarrow> file_map b p = None \<longrightarrow> \<not> path_exists (working_path env p) (wt_fs w))"

lemma stat_matches_restores:
  assumes "stat_matches env w p g"
  shows "should_restore_file env None g p w = Inr True" and "should_restore_partial_node env (Some (partial_of g)) f p w = Inr True"
proof -
  obtain t bs where t: "fn_last_modified g = Inr t" "fs_files (wt_fs w) (working_path env p) = Some bs"
    "size_and_mtime_match env (length bs, wt_mtime w (working_path env p)) t (fn_num_bytes g) = Inr True"
    using assms by (auto simp: stat_matches_def)
  note e = metadata_file [OF t(2), of env]
  show "should_restore_file env None g p w = Inr True"
    using t e by (simp add: should_restore_file_def Let_def path_exists_def)
  show "should_restore_partial_node env (Some (partial_of g)) f p w = Inr True"
    using t e partial_of_timed [OF t(1)] by (simp add: should_restore_partial_node_def Let_def path_exists_def)
qed

text \<open>With a resume or in a clean working tree every file that has to change may change.\<close>

lemma merge_decisions:
  assumes "wf_tree b" "wf_tree m" "hash_fixes_files {b, m}" "resume \<or> clean_checkout env w b m"
    and ps: "map_of ps = map_option partial_of \<circ> map_of (kept (ff_shared b m) b [])" and "map_of (kept (ff_shared b m) m []) p = Some f"
  shows "merge_decision env w ps resume (p, f) = Inr (Some True) \<or>
    (merge_decision env w ps resume (p, f) = Inr None \<and> (\<exists>g. file_map b p = Some g \<and> fn_hash g = fn_hash f))"
proof -
  let ?J = "map_of (kept (ff_shared b m) b [])" and ?D = "merge_decision env w ps resume"
  note sides = ff_sides [OF assms(3,1,2)]
  consider resume | "\<not> resume" "?J p = None" | g where "\<not> resume" "?J p = Some g" by (cases "?J p") auto
  then show ?thesis
  proof cases
    case 1
    then show ?thesis by (simp add: merge_decision_def)
  next
    case 2
    moreover have "file_map b p = None" using sides(4) [of p] assms(6) 2(2) by (cases "file_map b p") auto
    moreover have "file_map m p \<noteq> None" using sides(1) assms(6) by simp
    ultimately have "\<not> path_exists (working_path env p) (wt_fs w)" using assms(4) by (simp add: clean_checkout_def)
    then have "should_restore_file env None f p w = Inr True" by (simp add: should_restore_file_def)
    with 2 ps show ?thesis by (simp add: merge_decision_def)
  next
    case 3
    then have b: "file_map b p = Some g" by (intro sides(2))
    then have st: "stat_matches env w p g" using assms(4) 3(1) by (simp add: clean_checkout_def)
    then obtain t where t: "fn_last_modified g = Inr t" by (auto simp: stat_matches_def)
    have "?D (p, f) = (if fn_hash f \<noteq> fn_hash g then Inr (Some True) else Inr None)"
      using 3 ps partial_of_timed [OF t] stat_matches_restores(2) [OF st, of f] by (simp add: merge_decision_def)
    with b show ?thesis by auto
  qed
qed

lemma base_decisions:
  assumes "resume \<or> clean_checkout env w b m" "file_map b p = Some g"
  shows "base_decision env w seen resume (p, g) =
    (if p \<in> seen \<or> \<not> path_exists (working_path env p) (wt_fs w) then Inr None else Inr (Some True))"
proof (cases resume)
  case False
  with assms have "stat_matches env w p g" by (simp add: clean_checkout_def)
  with False stat_matches_restores(1) show ?thesis by (simp add: base_decision_def)
qed (simp add: base_decision_def)

text \<open>The plan then restores what differs and removes what the merge commit no longer has.\<close>

lemma fast_forward_plan:
  assumes trees: "commit_tree hash128 st fuel bc b" "commit_tree hash128 st fuel mc m" "apart b m"
    and timed: "\<forall>f \<in> snd ` set (file_entries b []). timed f" and fixed: "hash_fixes_files {b, m}"
    and start: "resume \<or> clean_checkout env w b m"
  obtains mt bt ps S rs ds where "load_fast_forward st fuel bc mc = Inr (mt, bt, ps, S)"
    and "plan_fast_forward env w mt bt ps S resume = Inr (rs, ds)"
    and "distinct (map fst rs)" "\<And>p f. (p, f) \<in> set rs \<Longrightarrow> file_map m p = Some f"
    and "\<And>p f. file_map m p = Some f \<Longrightarrow> (p, f) \<notin> set rs \<Longrightarrow> \<exists>g. file_map b p = Some g \<and> fn_hash g = fn_hash f"
    and "distinct (map fst ds)"
    and "\<And>p g. (p, g) \<in> set ds \<longleftrightarrow> file_map b p = Some g \<and> file_map m p = None \<and> path_exists (working_path env p) (wt_fs w)"
proof (rule ff_plan [OF trees timed])
  fix mt bt ps js ks
  let ?S = "ff_shared b m"
  let ?J = "map_of (kept ?S b [])" and ?K = "map_of (kept ?S m [])"
  assume l: "load_fast_forward st fuel bc mc = Inr (mt, bt, ps, ?S)" and ps: "map_of ps = map_option partial_of \<circ> ?J"
    and js: "distinct (map fst js)" "map_of js = ?J" and ks: "distinct (map fst ks)" "map_of ks = ?K"
    and plan: "\<And>env w resume rs ds. plan_fast_forward env w mt bt ps ?S resume = Inr (rs, ds) \<longleftrightarrow>
      (\<forall>x \<in> set ks. \<exists>d. merge_decision env w ps resume x = Inr d \<and> d \<noteq> Some False) \<and>
      (\<forall>x \<in> set js. \<exists>d. base_decision env w (fst ` set ks) resume x = Inr d \<and> d \<noteq> Some False) \<and>
      rs = filter (\<lambda>x. merge_decision env w ps resume x = Inr (Some True)) ks \<and>
      ds = filter (\<lambda>x. base_decision env w (fst ` set ks) resume x = Inr (Some True)) js"
  have wf: "wf_tree b" "wf_tree m" using trees(1,2) by (simp_all add: commit_tree_def)
  note sides = ff_sides [OF fixed wf]
  have k: "(p, f) \<in> set ks \<longleftrightarrow> ?K p = Some f" and j: "(p, f) \<in> set js \<longleftrightarrow> ?J p = Some f" for p f
    using ks js by (metis map_of_eq_Some_iff)+
  have seen: "p \<in> fst ` set ks \<longleftrightarrow> ?K p \<noteq> None" for p using ks(2) by (metis dom_map_of_conv_image_fst domIff)
  let ?D = "merge_decision env w ps resume" and ?E = "base_decision env w (fst ` set ks) resume"
  note D = merge_decisions [OF wf fixed start ps]
  have E: "?E (p, g) = (if ?K p \<noteq> None \<or> \<not> path_exists (working_path env p) (wt_fs w) then Inr None else Inr (Some True))"
    if "?J p = Some g" for p g
    using base_decisions [OF start sides(2) [OF that]] seen by simp
  have "\<exists>d. ?D x = Inr d \<and> d \<noteq> Some False" if "x \<in> set ks" for x using D [of "fst x" "snd x"] k [of "fst x" "snd x"] that by auto
  moreover have "\<exists>d. ?E x = Inr d \<and> d \<noteq> Some False" if "x \<in> set js" for x using E [of "fst x" "snd x"] j [of "fst x" "snd x"] that by auto
  ultimately have pl: "plan_fast_forward env w mt bt ps ?S resume =
      Inr (filter (\<lambda>x. ?D x = Inr (Some True)) ks, filter (\<lambda>x. ?E x = Inr (Some True)) js)" unfolding plan by blast
  have gone: "?J p = Some g \<and> ?K p = None \<longleftrightarrow> file_map b p = Some g \<and> file_map m p = None" for p g
  proof
    assume jk: "?J p = Some g \<and> ?K p = None"
    have "file_map m p \<noteq> Some f" for f using sides(3) [of p f] jk by auto
    with jk sides(2) show "file_map b p = Some g \<and> file_map m p = None" by (cases "file_map m p") auto
  next
    assume bm: "file_map b p = Some g \<and> file_map m p = None"
    have "?K p \<noteq> Some f" for f using sides(1) [of p f] bm by auto
    moreover have "?J p \<noteq> None" using sides(4) [of p g] bm by auto
    moreover have "f = g" if "?J p = Some f" for f using sides(2) [OF that] bm by simp
    ultimately show "?J p = Some g \<and> ?K p = None" by auto
  qed
  show thesis
  proof (rule that [OF l pl])
    show "\<exists>g. file_map b p = Some g \<and> fn_hash g = fn_hash f" if "file_map m p = Some f" "(p, f) \<notin> set (filter (\<lambda>x. ?D x = Inr (Some True)) ks)" for p f
      using that D [of p f] k [of p f] sides(1) [of p] sides(3) [of p f] by (cases "?K p") auto
    show "(p, g) \<in> set (filter (\<lambda>x. ?E x = Inr (Some True)) js) \<longleftrightarrow>
        file_map b p = Some g \<and> file_map m p = None \<and> path_exists (working_path env p) (wt_fs w)" for p g
      using E [of p g] j [of p g] gone [of p g] by (auto split: if_splits)
  qed (use ks(1) js(1) k sides(1) in \<open>auto intro: distinct_map_filter\<close>)
qed

text \<open>How the files stand in the end.\<close>

definition merged_from :: "work_env \<Rightarrow> merkle_tree_node \<Rightarrow> merkle_tree_node \<Rightarrow> work_tree \<Rightarrow> work_tree \<Rightarrow> bool" where
  "merged_from env b m w w' \<longleftrightarrow> fs_files (wt_fs w') (marker_path env) = None \<and>
     (\<forall>p f. file_map m p = Some f \<longrightarrow> has_content env w' p f \<or>
       (\<exists>g. file_map b p = Some g \<and> fn_hash g = fn_hash f \<and>
            fs_files (wt_fs w') (working_path env p) = fs_files (wt_fs w) (working_path env p))) \<and>
     (\<forall>p. file_map b p \<noteq> None \<longrightarrow> file_map m p = None \<longrightarrow> fs_files (wt_fs w') (working_path env p) = None) \<and>
     (\<forall>q. q \<noteq> marker_path env \<longrightarrow> q \<notin> working_path env ` (dom (file_map b) \<union> dom (file_map m)) \<longrightarrow>
        fs_files (wt_fs w') q = fs_files (wt_fs w) q)"

lemma applied_merge:
  assumes ready: "merge_ready env w b m" and wf: "wf_tree b" "node_type (t_node b) = TCommit" "wf_tree m" "node_type (t_node m) = TCommit"
    and rs: "distinct (map fst rs)" "\<And>p f. (p, f) \<in> set rs \<Longrightarrow> file_map m p = Some f"
      "\<And>p f. file_map m p = Some f \<Longrightarrow> (p, f) \<notin> set rs \<Longrightarrow> \<exists>g. file_map b p = Some g \<and> fn_hash g = fn_hash f"
    and ds: "distinct (map fst ds)"
      "\<And>p g. (p, g) \<in> set ds \<longleftrightarrow> file_map b p = Some g \<and> file_map m p = None \<and> path_exists (working_path env p) (wt_fs w)"
  obtains w1 w2 where "apply_fast_forward env target rs ds w = (Inr (), w1)" "on_fs (marker_clear env) w1 = (Inr (), w2)"
    "merged_from env b m w w2"
proof -
  have dsf: "\<forall>(p, f) \<in> set ds. file_map b p \<noteq> None \<and> file_map m p = None \<and> fs_files (wt_fs w) (working_path env p) \<noteq> None"
    using ds(2) ready by (fastforce simp: merge_ready_def path_exists_def)
  have rsf: "\<forall>(p, f) \<in> set rs. file_map m p = Some f" using rs(2) by blast
  obtain w1 where w1: "apply_fast_forward env target rs ds w = (Inr (), w1)" "fs_files (wt_fs w1) (marker_path env) = Some (as_bytes target)"
    "\<forall>(p, f) \<in> set rs. has_content env w1 p f" "\<forall>(p, f) \<in> set ds. fs_files (wt_fs w1) (working_path env p) = None"
    "\<forall>q. q \<notin> insert (marker_path env) (working_path env ` fst ` (set rs \<union> set ds)) \<longrightarrow> fs_files (wt_fs w1) q = fs_files (wt_fs w) q"
    using apply_reaches [OF ready wf rs(1) rsf ds(1) dsf] by metis
  define w2 where "w2 = w1\<lparr>wt_fs := (wt_fs w1)\<lparr>fs_files := (fs_files (wt_fs w1))(marker_path env := None)\<rparr>\<rparr>"
  have clear: "on_fs (marker_clear env) w1 = (Inr (), w2)"
    using w1(2) by (simp add: on_fs_def marker_clear_def path_exists_def fs_remove_file_def w2_def)
  have named: "name_path p" if "p \<in> dom (file_map b) \<union> dom (file_map m)" for p
    using that file_map_named [OF wf(1,2)] file_map_named [OF wf(3,4)] by blast
  have other: "working_path env p \<noteq> marker_path env" if "p \<in> dom (file_map b) \<union> dom (file_map m)" for p
    using named [OF that] ready that by (intro working_not_marker) (auto simp: merge_ready_def)
  have sub: "fst ` (set rs \<union> set ds) \<subseteq> dom (file_map b) \<union> dom (file_map m)" using rs(2) dsf by force
  have same: "fs_files (wt_fs w2) (working_path env p) = fs_files (wt_fs w) (working_path env p)"
    if p: "p \<in> dom (file_map b) \<union> dom (file_map m)" "p \<notin> fst ` (set rs \<union> set ds)" for p
  proof -
    have "working_path env p \<notin> working_path env ` fst ` (set rs \<union> set ds)"
      using p sub named working_path_inj by (metis (no_types, lifting) image_iff subsetD)
    then show ?thesis using w1(5) other [OF p(1)] by (simp add: w2_def)
  qed
  have "has_content env w2 p f \<or> (\<exists>g. file_map b p = Some g \<and> fn_hash g = fn_hash f \<and>
      fs_files (wt_fs w2) (working_path env p) = fs_files (wt_fs w) (working_path env p))" if m: "file_map m p = Some f" for p f
  proof (cases "(p, f) \<in> set rs")
    case True
    then have "has_content env w1 p f" using w1(3) by blast
    then show ?thesis using other [of p] m by (auto simp: has_content_def w2_def)
  next
    case False
    have "p \<notin> fst ` set rs" "p \<notin> fst ` set ds" using False rs(2) dsf m by force+
    with rs(3) [OF m False] same [of p] m show ?thesis by (simp add: image_Un) blast
  qed
  moreover have "fs_files (wt_fs w2) (working_path env p) = None" if p: "file_map b p \<noteq> None" "file_map m p = None" for p
  proof (cases "path_exists (working_path env p) (wt_fs w)")
    case True
    then have "fs_files (wt_fs w1) (working_path env p) = None" using p ds(2) w1(4) by blast
    then show ?thesis by (simp add: w2_def)
  next
    case False
    have "p \<notin> fst ` set ds" "p \<notin> fst ` set rs" using ds(2) False rs(2) p(2) by force+
    then show ?thesis using same [of p] p(1) False by (auto simp: path_exists_def image_Un)
  qed
  moreover have "fs_files (wt_fs w2) q = fs_files (wt_fs w) q"
    if q: "q \<noteq> marker_path env" "q \<notin> working_path env ` (dom (file_map b) \<union> dom (file_map m))" for q
  proof -
    have "q \<notin> working_path env ` fst ` (set rs \<union> set ds)" using q(2) sub by (meson image_mono subsetD)
    then show ?thesis using w1(5) q(1) by (simp add: w2_def)
  qed
  ultimately have "merged_from env b m w w2" by (simp add: merged_from_def w2_def)
  with w1(1) clear that show thesis by blast
qed

lemma fast_forward_completes:
  assumes trees: "commit_tree hash128 st fuel bc b" "commit_tree hash128 st fuel mc m" "apart b m"
    and files: "\<forall>f \<in> snd ` set (file_entries b []). timed f" "hash_fixes_files {b, m}"
    and ne: "cm_id bc \<noteq> cm_id mc" and ready: "merge_ready env (co_work s) b m"
    and start: "resume \<or> clean_checkout env (co_work s) b m"
  shows "\<exists>w'. fast_forward_merge env st fuel kv bc mc (Present resume) s =
      (Inr (Some mc), s\<lparr>co_work := w', co_refs := set_head_commit_id kv (cm_id mc) (co_refs s)\<rparr>) \<and>
    merged_from env b m (co_work s) w'"
proof (rule fast_forward_plan [OF trees files start])
  fix mt bt ps S rs ds
  have wf: "wf_tree b" "node_type (t_node b) = TCommit" "wf_tree m" "node_type (t_node m) = TCommit"
    using trees(1,2) by (simp_all add: commit_tree_def)
  assume l: "load_fast_forward st fuel bc mc = Inr (mt, bt, ps, S)"
    and pl: "plan_fast_forward env (co_work s) mt bt ps S resume = Inr (rs, ds)"
    and rs: "distinct (map fst rs)" "\<And>p f. (p, f) \<in> set rs \<Longrightarrow> file_map m p = Some f"
      "\<And>p f. file_map m p = Some f \<Longrightarrow> (p, f) \<notin> set rs \<Longrightarrow> \<exists>g. file_map b p = Some g \<and> fn_hash g = fn_hash f"
    and ds: "distinct (map fst ds)"
      "\<And>p g. (p, g) \<in> set ds \<longleftrightarrow> file_map b p = Some g \<and> file_map m p = None \<and> path_exists (working_path env p) (wt_fs (co_work s))"
  from applied_merge [OF ready wf rs ds] obtain w1 w2 where
    "apply_fast_forward env (cm_id mc) rs ds (co_work s) = (Inr (), w1)" "on_fs (marker_clear env) w1 = (Inr (), w2)"
    "merged_from env b m (co_work s) w2" by metis
  with ne l pl show ?thesis
    by (intro exI [of _ w2]) (simp add: fast_forward_merge_def sbind_def on_work_def move_head_def)
qed

lemma apart_ids:
  assumes "commit_tree hash128 st fuel bc b" "commit_tree hash128 st fuel mc m" "apart b m"
  shows "cm_id bc \<noteq> cm_id mc"
proof
  assume e: "cm_id bc = cm_id mc"
  have m: "merkle_hash_from_str (cm_id bc) = Inr (t_hash b)" "merkle_hash_from_str (cm_id mc) = Inr (t_hash m)" "may_have_children m"
    using assms(1,2) by (simp_all add: commit_tree_def may_have_children_def)
  have "([], m) \<in> set (inner_at m [])" using m(3) by (cases m) simp
  with assms(3) e m(1,2) show False by (fastforce simp: apart_def)
qed

lemma commit_plain_id: "commit_tree hash128 st fuel c t \<Longrightarrow> plain_id (cm_id c)"
  unfolding commit_tree_def using id_chars by blast

lemma sbind_state: "sbind (\<lambda>s. (r s, s)) k s = (case r s of Inl e \<Rightarrow> (Inl e, s) | Inr x \<Rightarrow> k x s)"
  by (simp add: sbind_def split: sum.splits)

section \<open>The sample merge\<close>

lemma ff_work_files:
  "valid_name s \<Longrightarrow> s \<noteq> ''.oxen'' \<Longrightarrow> fs_files (wt_fs (ff_work fs k)) [Normal ''r'', Normal s] = map_option (\<lambda>n. replicate n 0) (map_of fs s)"
  "fs_files (wt_fs (ff_work fs k)) (version_at ff_env 0x101) = Some (replicate 1 0)"
  "fs_files (wt_fs (ff_work fs k)) (version_at ff_env 0x102) = Some (replicate 2 0)"
  "fs_files (wt_fs (ff_work fs k)) (version_at ff_env 0x103) = Some (replicate 3 0)"
  "fs_files (wt_fs (ff_work fs k)) (version_at ff_env 0x104) = Some (replicate 4 0)"
  "fs_files (wt_fs (ff_work fs k)) (marker_path ff_env) = map_option as_bytes k"
  "fs_files (wt_fs (ff_work fs k)) [] = None" "fs_files (wt_fs (ff_work fs k)) [Normal ''r''] = None"
proof -
  let ?m = "map (\<lambda>(s, n). ([Normal ''r'', Normal s], replicate n (0 :: byte))) fs"
  have m: "map_of ?m q = None" if "length q \<noteq> 2" for q
    using that by (auto simp: map_of_eq_None_iff)
  have f: "map_of ?m [Normal ''r'', Normal s] = map_option (\<lambda>n. replicate n 0) (map_of fs s)" for s
    by (induction fs) auto
  have r: "wk_repo ff_env = [Normal ''r'']" by (simp add: ff_env_def)
  note d = ff_work_def ff_versions ff_texts map_add_def marker_path_eq r
  show "fs_files (wt_fs (ff_work fs k)) [Normal ''r'', Normal s] = map_option (\<lambda>n. replicate n 0) (map_of fs s)"
    by (auto simp: d f split: option.splits)
  show "fs_files (wt_fs (ff_work fs k)) (version_at ff_env 0x101) = Some (replicate 1 0)"
    "fs_files (wt_fs (ff_work fs k)) (version_at ff_env 0x102) = Some (replicate 2 0)"
    "fs_files (wt_fs (ff_work fs k)) (version_at ff_env 0x103) = Some (replicate 3 0)"
    "fs_files (wt_fs (ff_work fs k)) (version_at ff_env 0x104) = Some (replicate 4 0)"
    by (simp_all add: d m split: option.splits)
  show "fs_files (wt_fs (ff_work fs k)) (marker_path ff_env) = map_option as_bytes k"
    "fs_files (wt_fs (ff_work fs k)) [] = None" "fs_files (wt_fs (ff_work fs k)) [Normal ''r''] = None"
    by (simp_all add: d m split: option.splits)
qed

lemma ff_dirs: "fs_dirs (wt_fs (ff_work fs k)) = {[], [Normal ''r''], [Normal ''r'', Normal ''.oxen'']}"
  by (simp add: ff_work_def)

lemma ff_names [simp]: "valid_name ''c''"
  by (simp add: valid_name_def)

text \<open>The content hash is the length, so that equal sizes mean equal hashes.\<close>

lemma ff_can_merge:
  assumes "n \<in> {1, 2, 3, 4}" "s \<in> {''a'', ''b'', ''c''}"
  shows "can_restore ff_env (ff_work fs k) ([Normal s], ff_file s n) \<and> stat_trusted ff_env (ff_work fs k) [Normal s] (ff_file s n)"
proof -
  have v: "valid_name s" using assms(2) by auto
  have "path_ancestors [Normal ''r''] = [[Normal ''r''], []]" by (simp add: path_ancestors.simps path_parent_def)
  then have "clear_way ff_env (wt_fs (ff_work fs k)) [Normal s]"
    by (simp add: clear_way_def ff_dirs ff_work_files) (use assms in \<open>auto simp: ff_env_def ff_work_files\<close>)
  moreover have "name_path [Normal s]" using v by simp
  moreover have "plain_key (merkle_hash_to_string (0x100 + of_nat n))"
    using assms(1) by (auto simp: ff_texts plain_key_def slice_ok_def)
  moreover have "fs_files (wt_fs (ff_work fs k)) (version_at ff_env (0x100 + of_nat n)) \<noteq> None"
    using assms(1) by (auto simp: ff_work_files)
  moreover have "stat_trusted ff_env (ff_work fs k) [Normal s] (ff_file s n)"
    using assms(1) by (auto simp: stat_trusted_def already_restored_def metadata_def ff_env_def ff_hash_def)
  ultimately show ?thesis by (simp add: can_restore_def)
qed

lemma ff_ready: "merge_ready ff_env (ff_work fs k) ff_base ff_merge"
proof -
  have r: "wk_repo ff_env = [Normal ''r'']" by (simp add: ff_env_def)
  moreover have "version_at ff_env h \<noteq> marker_path ff_env" "version_at ff_env h \<noteq> [Normal ''r'', Normal s]" for h s
    by (simp_all add: ff_versions marker_path_eq r)
  moreover have "marker_path ff_env \<notin> fs_dirs (wt_fs (ff_work fs k))" by (simp add: marker_path_eq ff_dirs ff_env_def)
  ultimately show ?thesis
    using ff_can_merge [of 3 "''a''"] ff_can_merge [of 4 "''c''"]
    by (auto simp: merge_ready_def ff_maps ff_working ff_dirs ff_work_files split: if_splits)
       (auto simp: ff_env_def ff_hash_def)
qed

lemma ff_clean: "clean_checkout ff_env (ff_work [(''a'', 1), (''b'', 2)] k) ff_base ff_merge"
  by (auto simp: clean_checkout_def ff_maps has_content_def stat_matches_def ff_working ff_work_files size_and_mtime_match_def
      mtime_matches_def path_exists_def ff_dirs split: if_splits)
     (auto simp: ff_env_def ff_hash_def ff_work_def)

lemma ff_env_hash: "wk_hash ff_env bs = 0x100 + of_nat (length bs)"
  by (simp add: ff_env_def ff_hash_def)

lemma ff_merged_a:
  assumes "merged_from ff_env ff_base ff_merge w w'"
  shows "has_content ff_env w' [Normal ''a''] (ff_file ''a'' 3)"
proof -
  have "file_map ff_merge [Normal ''a''] = Some (ff_file ''a'' 3)" by (simp add: ff_maps)
  moreover have "fn_hash g \<noteq> fn_hash (ff_file ''a'' 3)" if "file_map ff_base [Normal ''a''] = Some g" for g
    using that by (auto simp: ff_maps)
  ultimately show ?thesis using assms unfolding merged_from_def by metis
qed

section \<open>Properties\<close>

text \<open>C4: a fast-forward merge that is not resumed never loses a local change. Whatever happens, an
  error half-way included, a file of the working tree that afterwards is gone or has another content
  was, before the merge, a copy of what the current commit or the merged one records at its path: it
  had the recorded size and time, the recorded content hash, or the recorded hash of content and
  metadata. Every other file, those outside both commits above all, is as it was (the marker of the
  merge apart).\<close>

theorem fast_forward_keeps_local_changes:
  assumes "commit_tree hash128 st fuel bc b" "commit_tree hash128 st fuel mc m" "apart b m"
    and "\<forall>f \<in> snd ` set (file_entries b []). timed f"
    and "fast_forward_merge env st fuel kv bc mc (Present False) s = (r, s')"
    and "fs_files (wt_fs (co_work s)) q = Some bs" "fs_files (wt_fs (co_work s')) q \<noteq> Some bs" "q \<noteq> marker_path env"
  shows "\<exists>p f. q = working_path env p \<and> (file_map b p = Some f \<or> file_map m p = Some f) \<and> recorded env (co_work s) p f"
proof -
  have wf: "wf_tree b" "node_type (t_node b) = TCommit" "wf_tree m" "node_type (t_node m) = TCommit"
    using assms(1,2) by (simp_all add: commit_tree_def)
  have "fs_files (wt_fs (co_work s')) q \<noteq> fs_files (wt_fs (co_work s)) q" using assms(6,7) by simp
  from fast_forward_within [OF assms(5,8) this] obtain mt bt ps S rs ds p f where
    l: "load_fast_forward st fuel bc mc = Inr (mt, bt, ps, S)" and
    pl: "plan_fast_forward env (co_work s) mt bt ps S False = Inr (rs, ds)" and
    p: "(p, f) \<in> set rs \<union> set ds" "q = working_path env p" by metis
  have here: "fs_files (wt_fs (co_work s)) (working_path env p) = Some bs" using assms(6) p(2) by simp
  show ?thesis
  proof (rule ff_plan [OF assms(1-4)])
    fix mt' bt' ps' js ks
    let ?S = "ff_shared b m"
    assume l': "load_fast_forward st fuel bc mc = Inr (mt', bt', ps', ?S)" "map_of ps' = map_option partial_of \<circ> map_of (kept ?S b [])"
      and js: "distinct (map fst js)" "map_of js = map_of (kept ?S b [])" and ks: "distinct (map fst ks)" "map_of ks = map_of (kept ?S m [])"
      and plan: "\<And>env w resume rs ds. plan_fast_forward env w mt' bt' ps' ?S resume = Inr (rs, ds) \<longleftrightarrow>
      (\<forall>x \<in> set ks. \<exists>d. merge_decision env w ps' resume x = Inr d \<and> d \<noteq> Some False) \<and>
      (\<forall>x \<in> set js. \<exists>d. base_decision env w (fst ` set ks) resume x = Inr d \<and> d \<noteq> Some False) \<and>
      rs = filter (\<lambda>x. merge_decision env w ps' resume x = Inr (Some True)) ks \<and>
      ds = filter (\<lambda>x. base_decision env w (fst ` set ks) resume x = Inr (Some True)) js"
    from l l'(1) have t: "mt = mt'" "bt = bt'" "ps = ps'" "S = ?S" by simp_all
    note pl = pl [unfolded t plan]
    show ?thesis
    proof (cases "(p, f) \<in> set rs")
      case True
      then have d: "merge_decision env (co_work s) ps' False (p, f) = Inr (Some True)" "(p, f) \<in> set ks" using pl by auto
      then have m: "file_map m p = Some f" using ks kept_file [OF wf(3)] by (metis map_of_eq_Some_iff)
      show ?thesis
      proof (cases "map_of ps' p")
        case None
        then have "should_restore_file env None f p (co_work s) = Inr True" using d(1) by (auto simp: merge_decision_def rbind_eq_Inr)
        with here m p(2) should_restore_file_recorded show ?thesis by blast
      next
        case (Some base)
        then obtain g where g: "map_of (kept ?S b []) p = Some g" "base = partial_of g" using l'(2) by auto
        then have b: "file_map b p = Some g" using kept_file [OF wf(1)] by blast
        then have "timed g" using assms(4) file_map_iff [OF wf(1)] by force
        moreover have "should_restore_partial_node env (Some (partial_of g)) f p (co_work s) = Inr True"
          using d(1) Some g(2) by (auto simp: merge_decision_def rbind_eq_Inr split: if_splits)
        ultimately show ?thesis using here m b p(2) should_restore_partial_recorded by blast
      qed
    next
      case False
      then have d: "base_decision env (co_work s) (fst ` set ks) False (p, f) = Inr (Some True)" "(p, f) \<in> set js" using p(1) pl by auto
      then have b: "file_map b p = Some f" using js kept_file [OF wf(1)] by (metis map_of_eq_Some_iff)
      have "should_restore_file env None f p (co_work s) = Inr True"
        using d(1) by (auto simp: base_decision_def rbind_eq_Inr split: if_splits)
      with here b p(2) should_restore_file_recorded show ?thesis by blast
    qed
  qed
qed

lemma fast_forward_keeps_local_changes_witness:
  "\<exists>s'. fast_forward_merge ff_env ff_store 9 list_kv (ff_commit 30) (ff_commit 40) (Present False)
      \<lparr>co_work = ff_work [(''a'', 1), (''b'', 2)] None, co_refs = \<lparr>rf_db = [], rf_head = None\<rparr>\<rparr> = (Inr (Some (ff_commit 40)), s') \<and>
    fs_files (wt_fs (co_work s')) [Normal ''r'', Normal ''a''] \<noteq> Some [0] \<and>
    (\<exists>p f. [Normal ''r'', Normal ''a''] = working_path ff_env p \<and> (file_map ff_base p = Some f \<or> file_map ff_merge p = Some f) \<and>
       recorded ff_env (ff_work [(''a'', 1), (''b'', 2)] None) p f)"
proof -
  let ?w = "ff_work [(''a'', 1), (''b'', 2)] None" and ?rs = "\<lparr>rf_db = [], rf_head = None\<rparr> :: (string \<times> string) list refs"
  let ?s = "\<lparr>co_work = ?w, co_refs = ?rs\<rparr>"
  obtain w' where w': "fast_forward_merge ff_env ff_store 9 list_kv (ff_commit 30) (ff_commit 40) (Present False) ?s =
      (Inr (Some (ff_commit 40)), ?s\<lparr>co_work := w', co_refs := set_head_commit_id list_kv (cm_id (ff_commit 40)) ?rs\<rparr>)"
    "merged_from ff_env ff_base ff_merge ?w w'"
    using fast_forward_completes [OF ff_sample(1,2,3,4,5) apart_ids [OF ff_sample(1-3)], of ff_env ?s False list_kv] ff_ready ff_clean by auto
  have here: "fs_files (wt_fs ?w) [Normal ''r'', Normal ''a''] = Some [0]" by (simp add: ff_work_files)
  have gone: "fs_files (wt_fs w') [Normal ''r'', Normal ''a''] \<noteq> Some [0]"
    using ff_merged_a [OF w'(2)] by (auto simp: has_content_def ff_working ff_env_hash)
  have "[Normal ''r'', Normal ''a''] \<noteq> marker_path ff_env" by (simp add: marker_path_eq ff_env_def)
  from fast_forward_keeps_local_changes [OF ff_sample(1-4) w'(1) _ _ this, of "[0]"] here gone
  have "\<exists>p f. [Normal ''r'', Normal ''a''] = working_path ff_env p \<and> (file_map ff_base p = Some f \<or> file_map ff_merge p = Some f) \<and>
    recorded ff_env ?w p f" by simp
  with w'(1) gone show ?thesis by auto
qed

text \<open>C5: a fast-forward merge into a working tree without local changes ends with the files of the
  merged commit: every file of it is there with the recorded content, the files that only the
  current commit had are gone, whatever belongs to neither commit is as it was, the marker is gone
  and \<open>HEAD\<close> has moved to the merged commit. It relies on what the fast paths rely on (equal hashes of
  directories for equal files, a recorded size and time for the recorded content), on the version
  store having the contents, and on no file being where the merged commit has a directory.\<close>

theorem fast_forward_reaches_merge:
  assumes "commit_tree hash128 st fuel (mg_base mcs) b" "commit_tree hash128 st fuel (mg_merge mcs) m" "apart b m"
    and "\<forall>f \<in> snd ` set (file_entries b []). timed f" "hash_fixes_files {b, m}"
    and "merge_ready env (co_work s) b m" "clean_checkout env (co_work s) b m" "fs_files (wt_fs (co_work s)) (marker_path env) = None"
  shows "\<exists>w'. merge_commits_fast_forward env st fuel kv mcs (Present r) s =
      (Inr (Some (mg_merge mcs)), s\<lparr>co_work := w', co_refs := set_head_commit_id kv (cm_id (mg_merge mcs)) (co_refs s)\<rparr>) \<and>
    (\<forall>p f. file_map m p = Some f \<longrightarrow> has_content env w' p f) \<and>
    (\<forall>p. file_map b p \<noteq> None \<longrightarrow> file_map m p = None \<longrightarrow> fs_files (wt_fs w') (working_path env p) = None) \<and>
    (\<forall>q. q \<notin> working_path env ` (dom (file_map b) \<union> dom (file_map m)) \<longrightarrow> fs_files (wt_fs w') q = fs_files (wt_fs (co_work s)) q)"
proof -
  have "inspect_marker env (mg_merge mcs) (Present r) (wt_fs (co_work s)) = Inr (Present False)"
    using assms(6,8) by (simp add: inspect_marker_def marker_read_def merge_ready_def)
  then have run: "merge_commits_fast_forward env st fuel kv mcs (Present r) s =
      fast_forward_merge env st fuel kv (mg_base mcs) (mg_merge mcs) (Present False) s"
    by (simp add: merge_commits_fast_forward_def sbind_state)
  obtain w' where w': "fast_forward_merge env st fuel kv (mg_base mcs) (mg_merge mcs) (Present False) s =
      (Inr (Some (mg_merge mcs)), s\<lparr>co_work := w', co_refs := set_head_commit_id kv (cm_id (mg_merge mcs)) (co_refs s)\<rparr>)"
    "merged_from env b m (co_work s) w'"
    using fast_forward_completes [OF assms(1-5) apart_ids [OF assms(1-3)] assms(6), of False] assms(7) by blast
  have "has_content env w' p f" if m: "file_map m p = Some f" for p f
  proof -
    have "has_content env w' p f \<or> (\<exists>g. file_map b p = Some g \<and> fn_hash g = fn_hash f \<and>
        fs_files (wt_fs w') (working_path env p) = fs_files (wt_fs (co_work s)) (working_path env p))"
      using w'(2) m by (simp add: merged_from_def)
    moreover have "has_content env (co_work s) p g" if "file_map b p = Some g" for g
      using assms(7) that by (simp add: clean_checkout_def)
    ultimately show ?thesis unfolding has_content_def by metis
  qed
  moreover have "\<forall>p. file_map b p \<noteq> None \<longrightarrow> file_map m p = None \<longrightarrow> fs_files (wt_fs w') (working_path env p) = None"
    using w'(2) unfolding merged_from_def by blast
  moreover have "fs_files (wt_fs w') q = fs_files (wt_fs (co_work s)) q"
    if "q \<notin> working_path env ` (dom (file_map b) \<union> dom (file_map m))" for q
    using w'(2) that assms(8) unfolding merged_from_def by (cases "q = marker_path env") simp_all
  ultimately show ?thesis using run w'(1) by (intro exI [of _ w']) simp
qed

lemma fast_forward_reaches_merge_witness:
  "\<exists>w'. merge_commits_fast_forward ff_env ff_store 9 list_kv \<lparr>mg_lca = None, mg_base = ff_commit 30, mg_merge = ff_commit 40\<rparr> (Present False)
      \<lparr>co_work = ff_work [(''a'', 1), (''b'', 2)] None, co_refs = \<lparr>rf_db = [], rf_head = None\<rparr>\<rparr> =
      (Inr (Some (ff_commit 40)), \<lparr>co_work = w', co_refs = \<lparr>rf_db = [], rf_head = None\<rparr>\<rparr>) \<and>
    has_content ff_env w' [Normal ''a''] (ff_file ''a'' 3) \<and> fs_files (wt_fs w') [Normal ''r'', Normal ''b''] = None \<and>
    has_content ff_env w' [Normal ''c''] (ff_file ''c'' 4)"
proof -
  let ?w = "ff_work [(''a'', 1), (''b'', 2)] None" and ?rs = "\<lparr>rf_db = [], rf_head = None\<rparr> :: (string \<times> string) list refs"
  let ?mc = "\<lparr>mg_lca = None, mg_base = ff_commit 30, mg_merge = ff_commit 40\<rparr>" and ?s = "\<lparr>co_work = ?w, co_refs = ?rs\<rparr>"
  have m: "fs_files (wt_fs (co_work ?s)) (marker_path ff_env) = None" by (simp add: ff_work_files)
  have t: "commit_tree (\<lambda>_. 0) ff_store 9 (mg_base ?mc) ff_base" "commit_tree (\<lambda>_. 0) ff_store 9 (mg_merge ?mc) ff_merge"
    "merge_ready ff_env (co_work ?s) ff_base ff_merge" "clean_checkout ff_env (co_work ?s) ff_base ff_merge"
    using ff_sample(1,2) ff_ready ff_clean by simp_all
  obtain w' where w': "merge_commits_fast_forward ff_env ff_store 9 list_kv ?mc (Present False) ?s =
      (Inr (Some (mg_merge ?mc)), ?s\<lparr>co_work := w', co_refs := set_head_commit_id list_kv (cm_id (mg_merge ?mc)) (co_refs ?s)\<rparr>)"
    "\<forall>p f. file_map ff_merge p = Some f \<longrightarrow> has_content ff_env w' p f"
    "\<forall>p. file_map ff_base p \<noteq> None \<longrightarrow> file_map ff_merge p = None \<longrightarrow> fs_files (wt_fs w') (working_path ff_env p) = None"
    using fast_forward_reaches_merge [OF t(1,2) ff_sample(3-5) t(3,4) m, of list_kv False] by blast
  have "file_map ff_base [Normal ''b''] \<noteq> None" "file_map ff_merge [Normal ''b''] = None" by (simp_all add: ff_maps)
  with w'(3) have "fs_files (wt_fs w') [Normal ''r'', Normal ''b''] = None" using ff_working [of "''b''"] by fastforce
  moreover have "set_head_commit_id list_kv x ?rs = ?rs" for x by (simp add: set_head_commit_id_def read_head_ref_def)
  ultimately show ?thesis using w'(1,2) by (intro exI [of _ w']) (simp add: ff_maps)
qed

text \<open>C6: a merge that was interrupted before \<open>HEAD\<close> moved can be finished by merging the same commit
  again, whatever content the files have by then. It relies on this: the marker of that commit is
  there; the commits differ and their directories of equal hash have equal files, none tracked under \<open>.oxen\<close>,
  with times since 1970 in the commit of \<open>HEAD\<close>; there is no directory in place of a file of either commit and no
  file in place of a directory above a file of the merged commit; the contents of the merged commit's files are in the
  version store, intact, and the store is none of these files; a file of a recorded size and time has the
  recorded content. Then the merge succeeds without asking about local changes, and afterwards every file in which the two commits
  differ has the merged commit's content, the files it does not have are gone, \<open>HEAD\<close> is there and
  the marker is removed. Files that both commits share are not touched.\<close>

theorem interrupted_merge_resumes:
  assumes "commit_tree hash128 st fuel (mg_base mcs) b" "commit_tree hash128 st fuel (mg_merge mcs) m" "apart b m"
    and "\<forall>f \<in> snd ` set (file_entries b []). timed f" "hash_fixes_files {b, m}"
    and "merge_ready env (co_work s) b m" "fs_files (wt_fs (co_work s)) (marker_path env) = Some (as_bytes (cm_id (mg_merge mcs)))"
  shows "\<exists>w'. merge_commits_fast_forward env st fuel kv mcs (Present r) s =
      (Inr (Some (mg_merge mcs)), s\<lparr>co_work := w', co_refs := set_head_commit_id kv (cm_id (mg_merge mcs)) (co_refs s)\<rparr>) \<and>
    merged_from env b m (co_work s) w'"
proof -
  have "marker_read env (wt_fs (co_work s)) = Inr (Some (cm_id (mg_merge mcs)))"
    using assms(7) commit_plain_id [OF assms(2)] by (rule marker_read_back)
  then have "inspect_marker env (mg_merge mcs) (Present r) (wt_fs (co_work s)) = Inr (Present True)"
    by (simp add: inspect_marker_def)
  then have "merge_commits_fast_forward env st fuel kv mcs (Present r) s =
      fast_forward_merge env st fuel kv (mg_base mcs) (mg_merge mcs) (Present True) s"
    by (simp add: merge_commits_fast_forward_def sbind_state)
  then show ?thesis
    using fast_forward_completes [OF assms(1-5) apart_ids [OF assms(1-3)] assms(6), of True kv] by simp
qed

text \<open>An interrupted merge: \<open>a\<close> is half written, \<open>b\<close> is still there, \<open>c\<close> is not.\<close>

lemma interrupted_merge_resumes_witness:
  "\<exists>w'. merge_commits_fast_forward ff_env ff_store 9 list_kv \<lparr>mg_lca = None, mg_base = ff_commit 30, mg_merge = ff_commit 40\<rparr> (Present False)
      \<lparr>co_work = ff_work [(''a'', 2), (''b'', 2)] (Some (cm_id (ff_commit 40))), co_refs = \<lparr>rf_db = [], rf_head = None\<rparr>\<rparr> =
      (Inr (Some (ff_commit 40)), \<lparr>co_work = w', co_refs = \<lparr>rf_db = [], rf_head = None\<rparr>\<rparr>) \<and>
    has_content ff_env w' [Normal ''a''] (ff_file ''a'' 3) \<and> fs_files (wt_fs w') (marker_path ff_env) = None"
proof -
  let ?w = "ff_work [(''a'', 2), (''b'', 2)] (Some (cm_id (ff_commit 40)))" and ?rs = "\<lparr>rf_db = [], rf_head = None\<rparr> :: (string \<times> string) list refs"
  let ?mc = "\<lparr>mg_lca = None, mg_base = ff_commit 30, mg_merge = ff_commit 40\<rparr>" and ?s = "\<lparr>co_work = ?w, co_refs = ?rs\<rparr>"
  have t: "commit_tree (\<lambda>_. 0) ff_store 9 (mg_base ?mc) ff_base" "commit_tree (\<lambda>_. 0) ff_store 9 (mg_merge ?mc) ff_merge"
    "merge_ready ff_env (co_work ?s) ff_base ff_merge"
    "fs_files (wt_fs (co_work ?s)) (marker_path ff_env) = Some (as_bytes (cm_id (mg_merge ?mc)))"
    using ff_sample(1,2) ff_ready by (simp_all add: ff_work_files)
  obtain w' where w': "merge_commits_fast_forward ff_env ff_store 9 list_kv ?mc (Present False) ?s =
      (Inr (Some (mg_merge ?mc)), ?s\<lparr>co_work := w', co_refs := set_head_commit_id list_kv (cm_id (mg_merge ?mc)) (co_refs ?s)\<rparr>)"
    "merged_from ff_env ff_base ff_merge ?w w'"
    using interrupted_merge_resumes [OF t(1,2) ff_sample(3-5) t(3,4), of list_kv False] by auto
  have "has_content ff_env w' [Normal ''a''] (ff_file ''a'' 3)" using w'(2) by (rule ff_merged_a)
  moreover have "fs_files (wt_fs w') (marker_path ff_env) = None" using w'(2) by (simp add: merged_from_def)
  moreover have "set_head_commit_id list_kv x ?rs = ?rs" for x by (simp add: set_head_commit_id_def read_head_ref_def)
  ultimately show ?thesis using w'(1) by (intro exI [of _ w']) simp
qed

end
