(* ===== verification/Checkout_Props.thy ===== *)
theory Checkout_Props
  imports Checkout Fast_Forward_Result
begin

text \<open>
  What a checkout decides for each file and directory, and that it changes only files the commit it
  comes from recorded, apart from files that are in the place of a directory.
\<close>

section \<open>The decisions of the walk over the target\<close>

definition target_decision ::
  "work_env \<Rightarrow> work_tree \<Rightarrow> (path, partial_node) hash_map \<Rightarrow> on_conflict \<Rightarrow> path \<times> file_node \<Rightarrow> bool option res" where
  "target_decision env w ps oc = (\<lambda>(p, f).
     rbind (target_file_step env w ps oc p (fn_hash f) f checkout_result_new) (\<lambda>r.
       Inr (if files_to_restore r \<noteq> [] then Some True else if not_overwritten r \<noteq> [] then Some False else None)))"

definition decided :: "path \<times> file_node \<Rightarrow> bool option \<Rightarrow> checkout_result \<Rightarrow> checkout_result" where
  "decided = (\<lambda>(p, f) d r. case d of None \<Rightarrow> r | Some True \<Rightarrow> push_restore p f r | Some False \<Rightarrow> push_blocked p r)"

lemmas target_steps = push_restore_def push_blocked_def push_replacement_def checkout_result_new_def

lemma target_file_step_decision:
  "target_file_step env w ps oc p (fn_hash f) f r = rbind (target_decision env w ps oc (p, f)) (\<lambda>d. Inr (decided (p, f) d r))"
proof -
  let ?q = "working_path env p"
  show ?thesis
  proof (cases "path_exists ?q (wt_fs w)")
    case True
    show ?thesis
      by (cases "get_hash_given_metadata env ?q w"; cases "map_of ps p"; cases oc)
        (auto simp: True target_file_step_def target_decision_def decided_def Let_def target_steps rbind_assoc intro!: rbind_cong)
  qed (auto simp: target_file_step_def target_decision_def decided_def Let_def target_steps split: option.splits)
qed

definition dir_decision ::
  "work_env \<Rightarrow> work_tree \<Rightarrow> (path, partial_node) hash_map \<Rightarrow> on_conflict \<Rightarrow> path \<Rightarrow> (bool \<times> (path \<times> merkle_hash option) list) res" where
  "dir_decision env w ps oc d =
     rbind (target_dir_step env w ps oc d checkout_result_new) (\<lambda>(b, r). Inr (b, dir_replacements r))"

lemma target_dir_step_decision:
  "target_dir_step env w ps oc d r = rbind (dir_decision env w ps oc d) (\<lambda>(b, ds). Inr (b, r\<lparr>
     not_overwritten := not_overwritten r @ (if b then [] else [d]), dir_replacements := dir_replacements r @ ds\<rparr>))"
  by (auto simp: target_dir_step_def dir_decision_def Let_def target_steps rbind_assoc
      split: option.splits intro!: rbind_cong)

text \<open>Only a file that is gone, or one the other commit recorded, is restored unless everything is overwritten.\<close>

definition from_recorded :: "work_env \<Rightarrow> work_tree \<Rightarrow> path \<Rightarrow> partial_node \<Rightarrow> bool" where
  "from_recorded env w q from \<longleftrightarrow> (\<exists>bs. fs_files (wt_fs w) q = Some bs \<and>
     (size_and_mtime_match env (length bs, wt_mtime w q) (pn_last_modified from) (pn_size from) = Inr True \<or> wk_hash env bs = pn_hash from))"

lemma target_decision_restores:
  assumes "target_decision env w ps Abort (p, f) = Inr (Some True)" "fs_files (wt_fs w) (working_path env p) = Some bs"
  shows "\<exists>from. map_of ps p = Some from \<and> from_recorded env w (working_path env p) from"
  using assms metadata_file [OF assms(2), of env]
  by (auto simp: target_decision_def target_file_step_def Let_def target_steps rbind_eq_Inr path_exists_def
      get_hash_given_metadata_def from_recorded_def split: option.splits if_splits)

lemma dir_decision_replaces:
  assumes "dir_decision env w ps Abort d = Inr (b, ds)" "(q, h) \<in> set ds"
  shows "q = working_path env d \<and> q \<notin> fs_dirs (wt_fs w)"
  using assms by (auto simp: dir_decision_def target_dir_step_def Let_def target_steps rbind_eq_Inr split: option.splits if_splits)


section \<open>What the walk over the target finds\<close>

abbreviation target_items :: "(path \<times> merkle_tree_node \<times> int) list \<Rightarrow> (path \<times> merkle_tree_node) list" where
  "target_items stack \<equiv> map (\<lambda>(p, t, _). (p, t)) stack"

definition files_of :: "(path \<times> merkle_tree_node) list \<Rightarrow> (path \<times> file_node) list" where
  "files_of xs = concat (map (\<lambda>(p, t). file_entries t (child_path p t)) xs)"

definition dirs_of :: "(path \<times> merkle_tree_node) list \<Rightarrow> path set" where
  "dirs_of xs = {d. \<exists>(p, t) \<in> set xs. \<exists>x. (d, x) \<in> set (tree_entries t (child_path p t)) \<and> is_dir x}"

lemma items_simps [simp]:
  "files_of [] = []" "files_of (x # xs) = file_entries (snd x) (child_path (fst x) (snd x)) @ files_of xs" "files_of (xs @ ys) = files_of xs @ files_of ys"
  "dirs_of [] = {}" "dirs_of (xs @ ys) = dirs_of xs \<union> dirs_of ys" "dirs_of (rev xs) = dirs_of xs"
  "dirs_of (x # xs) = {d. \<exists>y. (d, y) \<in> set (tree_entries (snd x) (child_path (fst x) (snd x))) \<and> is_dir y} \<union> dirs_of xs"
  by (auto simp: files_of_def dirs_of_def case_prod_unfold)

lemma files_of_rev [simp]: "mset (files_of (rev xs)) = mset (files_of xs)"
  by (induction xs) auto

lemma target_items_at_depth [simp]: "target_items (at_depth k xs) = xs" "target_items (rev (at_depth k xs)) = rev xs"
  by (simp_all add: at_depth_def comp_def case_prod_unfold rev_map [symmetric])

text \<open>The unshared children of a directory hold some of its files and directories.\<close>

lemma unshared_items:
  "\<forall>v \<in> set vs. is_vnode v \<Longrightarrow>
   mset (files_of (unshared_children S P vs)) \<subseteq># mset (concat (map (\<lambda>v. file_entries v (child_path P v)) vs)) \<and>
   dirs_of (unshared_children S P vs) \<subseteq> {d. \<exists>v \<in> set vs. \<exists>x. (d, x) \<in> set (tree_entries v (child_path P v)) \<and> is_dir x}"
proof (induction vs)
  case (Cons v vs)
  obtain h n p cs where v: "v = MTNode h n p cs" by (cases v)
  have n: "\<exists>x. n = EVNode x" using Cons.prems(1) by (auto simp: v is_vnode_def split: e_merkle_tree_node.splits)
  have P: "child_path P v = P" using n by (auto simp: v child_path_def)
  have f: "file_entries v (child_path P v) = files_of (map (Pair P) cs)"
    unfolding P using n by (auto simp: v file_entries_node files_of_def comp_def)
  have d: "{d. \<exists>x. (d, x) \<in> set (tree_entries v (child_path P v)) \<and> is_dir x} = dirs_of (map (Pair P) cs)"
    unfolding P using n by (auto simp: v dirs_of_def)
  have u: "unshared_children S P (v # vs) = (if h \<in> S then [] else map (Pair P) cs) @ unshared_children S P vs"
    by (simp add: unshared_children_def v)
  have "mset (files_of (unshared_children S P (v # vs))) \<subseteq># mset (concat (map (\<lambda>v. file_entries v (child_path P v)) (v # vs)))"
    unfolding u using Cons by (simp add: f subset_mset.add_mono subset_mset.add_increasing)
  moreover have "dirs_of (unshared_children S P (v # vs)) \<subseteq> {d. \<exists>v \<in> set (v # vs). \<exists>x. (d, x) \<in> set (tree_entries v (child_path P v)) \<and> is_dir x}"
    unfolding u using Cons d by auto
  ultimately show ?case by blast
qed (simp add: unshared_children_def)

lemma unshared_dir_items:
  assumes "wf_tree (MTNode h (EDirectory d) p cs)"
  shows "mset (files_of (unshared_children S (join_str P (dn_name d)) cs)) \<subseteq># mset (files_of [(P, MTNode h (EDirectory d) p cs)])"
    and "dirs_of (unshared_children S (join_str P (dn_name d)) cs) \<subseteq> dirs_of [(P, MTNode h (EDirectory d) p cs)]"
    and "join_str P (dn_name d) \<in> dirs_of [(P, MTNode h (EDirectory d) p cs)]"
proof -
  let ?P = "join_str P (dn_name d)" and ?t = "MTNode h (EDirectory d) p cs"
  have P: "child_path P ?t = ?P" by (simp add: child_path_def)
  note below = conjunct1 [OF unshared_items [OF good_children(1) [OF assms], of S ?P]]
    conjunct2 [OF unshared_items [OF good_children(1) [OF assms], of S ?P]]
  show "mset (files_of (unshared_children S ?P cs)) \<subseteq># mset (files_of [(P, ?t)])"
    using below(1) by (simp add: P file_entries_node)
  have eq: "dirs_of [(P, ?t)] = {d. \<exists>x. (d, x) \<in> set (tree_entries ?t ?P) \<and> is_dir x}" by (simp add: P)
  have sub: "{d. \<exists>v \<in> set cs. \<exists>x. (d, x) \<in> set (tree_entries v (child_path ?P v)) \<and> is_dir x} \<subseteq> dirs_of [(P, ?t)]"
    unfolding eq by auto
  show "dirs_of (unshared_children S ?P cs) \<subseteq> dirs_of [(P, ?t)]" by (rule subset_trans [OF below(2) sub])
  show "?P \<in> dirs_of [(P, ?t)]" by (auto simp: P)
qed

text \<open>What a part of the walk adds, from the files \<open>F\<close> and the directories \<open>D\<close>.\<close>

definition found ::
  "work_env \<Rightarrow> work_tree \<Rightarrow> (path, partial_node) hash_map \<Rightarrow> on_conflict \<Rightarrow> (path \<times> file_node) multiset \<Rightarrow> path set \<Rightarrow>
   checkout_result \<times> path set \<Rightarrow> checkout_result \<times> path set \<Rightarrow> bool" where
  "found env w ps oc F D = (\<lambda>(r, seen) (r', seen'). \<exists>fs ds.
     files_to_restore r' = files_to_restore r @ fs \<and> mset fs \<subseteq># F \<and>
     (\<forall>x \<in> set fs. target_decision env w ps oc x = Inr (Some True)) \<and>
     dir_replacements r' = dir_replacements r @ ds \<and>
     (\<forall>x \<in> set ds. \<exists>d \<in> D. \<exists>b es. dir_decision env w ps oc d = Inr (b, es) \<and> x \<in> set es) \<and>
     seen \<subseteq> seen' \<and> seen' \<subseteq> seen \<union> fst ` set_mset F)"

lemma found_refl: "found env w ps oc F D (r, seen) (r, seen)"
  by (auto simp: found_def)

lemma found_file:
  "target_decision env w ps oc (p, f) = Inr d \<Longrightarrow> found env w ps oc {#(p, f)#} {} (r, seen) (decided (p, f) d r, insert p seen)"
  by (auto simp: found_def decided_def target_steps split: option.splits bool.splits)

lemma found_dir:
  "dir_decision env w ps oc d = Inr (b, ds) \<Longrightarrow>
   found env w ps oc {#} {d} (r, seen) (r\<lparr>not_overwritten := xs, dir_replacements := dir_replacements r @ ds\<rparr>, seen)"
  by (auto simp: found_def)

lemma found_trans:
  assumes "found env w ps oc F D a b" "found env w ps oc G E b c" "F + G \<subseteq># H" "D \<union> E \<subseteq> C"
  shows "found env w ps oc H C a c"
proof -
  obtain r s r' s' r'' s'' where e: "a = (r, s)" "b = (r', s')" "c = (r'', s'')" by (cases a, cases b, cases c) auto
  obtain fs ds where 1: "files_to_restore r' = files_to_restore r @ fs" "mset fs \<subseteq># F"
    "\<forall>x \<in> set fs. target_decision env w ps oc x = Inr (Some True)" "dir_replacements r' = dir_replacements r @ ds"
    "\<forall>x \<in> set ds. \<exists>d \<in> D. \<exists>b es. dir_decision env w ps oc d = Inr (b, es) \<and> x \<in> set es"
    "s \<subseteq> s'" "s' \<subseteq> s \<union> fst ` set_mset F"
    using assms(1) by (auto simp: found_def e)
  obtain gs es where 2: "files_to_restore r'' = files_to_restore r' @ gs" "mset gs \<subseteq># G"
    "\<forall>x \<in> set gs. target_decision env w ps oc x = Inr (Some True)" "dir_replacements r'' = dir_replacements r' @ es"
    "\<forall>x \<in> set es. \<exists>d \<in> E. \<exists>b es. dir_decision env w ps oc d = Inr (b, es) \<and> x \<in> set es"
    "s' \<subseteq> s''" "s'' \<subseteq> s' \<union> fst ` set_mset G"
    using assms(2) by (auto simp: found_def e)
  have "mset (fs @ gs) \<subseteq># H"
    using subset_mset.order_trans [OF subset_mset.add_mono [OF 1(2) 2(2)] assms(3)] by simp
  moreover have "set_mset F \<union> set_mset G \<subseteq> set_mset H"
    using set_mset_mono [OF assms(3)] by simp
  then have "s'' \<subseteq> s \<union> fst ` set_mset H" using 1(7) 2(7) by fastforce
  moreover have "\<forall>x \<in> set (ds @ es). \<exists>d \<in> C. \<exists>b es. dir_decision env w ps oc d = Inr (b, es) \<and> x \<in> set es"
    using 1(5) 2(5) assms(4) by (simp add: ball_Un) blast
  ultimately show ?thesis
    unfolding found_def e prod.case using 1 2 by (intro exI [of _ "fs @ gs"] exI [of _ "ds @ es"]) auto
qed

lemma walk_target_found:
  "walk_target_loop env w ps common oc stack (r, seen) = Inr a \<Longrightarrow> good_stack (target_items stack) \<Longrightarrow>
   found env w ps oc (mset (files_of (target_items stack))) (dirs_of (target_items stack)) (r, seen) a"
proof (induction env w ps common oc stack "(r, seen)" arbitrary: r seen rule: walk_target_loop.induct)
  case (1 env w ps common oc)
  then show ?case by (auto simp: walk_target_loop.simps intro: found_refl)
next
  case (2 env w ps common oc path h n p cs depth stack r seen)
  let ?t = "MTNode h n p cs"
  let ?F = "mset (files_of (target_items stack))" and ?D = "dirs_of (target_items stack)"
  have whole: ?case if "found env w ps oc (mset (files_of [(path, ?t)]) + ?F) (dirs_of [(path, ?t)] \<union> ?D) (r, seen) a"
  proof -
    have "target_items ((path, ?t, depth) # stack) = [(path, ?t)] @ target_items stack" by simp
    with that show ?thesis by (simp only: items_simps(3,5) mset_append)
  qed
  have goal: ?case if "found env w ps oc G E (r, seen) b" "found env w ps oc ?F ?D b a"
      "G \<subseteq># mset (files_of [(path, ?t)])" "E \<subseteq> dirs_of [(path, ?t)]" for b G E
    by (rule whole [OF found_trans [OF that(1,2)]]) (use that(3,4) in \<open>blast intro: subset_mset.add_mono subset_mset.order_refl\<close>)+
  have good: "wf_tree ?t" "good_stack (target_items stack)" using "2.prems"(2) by auto
  show ?case
  proof (cases "depth < 0")
    case True
    with 2 good show ?thesis by (intro goal [OF found_refl [of _ _ _ _ "{#}" "{}"]]) (auto simp: walk_target_loop.simps(2))
  next
    case deep: False
    show ?thesis
    proof (cases n)
      case (EFile f)
      let ?p = "join_str path (fn_name f)"
      have h: "h = fn_hash f" using good(1) by (simp add: EFile)
      obtain d where d: "target_decision env w ps oc (?p, f) = Inr d"
        and rest: "walk_target_loop env w ps common oc stack (decided (?p, f) d r, insert ?p seen) = Inr a"
        using "2.prems"(1) deep by (auto simp: walk_target_loop.simps(2) EFile Let_def h target_file_step_decision rbind_eq_Inr)
      have "target_file_step env w ps oc ?p h f r = Inr (decided (?p, f) d r)" using d by (simp add: h target_file_step_decision)
      from "2.hyps"(2) [OF deep EFile refl this rest good(2)]
      have "found env w ps oc ?F ?D (decided (?p, f) d r, insert ?p seen) a" .
      with found_file [OF d] show ?thesis by (rule goal) (simp_all add: EFile file_entries_node)
    next
      case (EDirectory d)
      let ?p = "join_str path (dn_name d)"
      obtain b ds where dd: "dir_decision env w ps oc ?p = Inr (b, ds)"
        using "2.prems"(1) deep by (auto simp: walk_target_loop.simps(2) EDirectory Let_def target_dir_step_decision rbind_eq_Inr)
      define r1 where "r1 = r\<lparr>not_overwritten := not_overwritten r @ (if b then [] else [?p]), dir_replacements := dir_replacements r @ ds\<rparr>"
      have step: "target_dir_step env w ps oc ?p r = Inr (b, r1)" by (simp add: target_dir_step_decision dd r1_def)
      note here = unshared_dir_items [OF good(1) [unfolded EDirectory], where P = path, folded EDirectory]
      have r1: "found env w ps oc {#} {?p} (r, seen) (r1, seen)" unfolding r1_def using dd by (rule found_dir)
      show ?thesis
      proof (cases "\<not> b \<or> h \<in> common \<and> working_path env ?p \<in> fs_dirs (wt_fs w)")
        case True
        then have rest: "walk_target_loop env w ps common oc stack (r1, seen) = Inr a"
          using "2.prems"(1) deep by (auto simp: walk_target_loop.simps(2) EDirectory Let_def step)
        have "found env w ps oc ?F ?D (r1, seen) a"
          using "2.hyps"(3) [OF deep EDirectory refl step refl True rest good(2)] .
        with r1 show ?thesis by (rule goal) (use here(3) in simp_all)
      next
        case False
        let ?S = "if working_path env ?p \<in> fs_dirs (wt_fs w) then common else {}"
        let ?cs = "rev (at_depth (depth - 1) (walked_children env w common ?p cs))"
        have cs: "target_items ?cs = rev (unshared_children ?S ?p cs)" by (simp only: target_items_at_depth walked_children_def)
        have rest: "walk_target_loop env w ps common oc (?cs @ stack) (r1, seen) = Inr a"
          using "2.prems"(1) deep False by (auto simp: walk_target_loop.simps(2) EDirectory Let_def step)
        have "good_stack (target_items (?cs @ stack))"
          using good(2) good_children(2) [OF good(1) [unfolded EDirectory]] by (simp only: map_append cs good_stack_simps)
        from "2.hyps"(4) [OF deep EDirectory refl step refl False rest this]
        have "found env w ps oc (mset (files_of (unshared_children ?S ?p cs)) + ?F) (dirs_of (unshared_children ?S ?p cs) \<union> ?D) (r1, seen) a"
          by (simp only: map_append cs items_simps mset_append files_of_rev)
        note below = this
        show ?thesis
        proof (rule whole [OF found_trans [OF r1 below]])
          show "{#} + (mset (files_of (unshared_children ?S ?p cs)) + ?F) \<subseteq># mset (files_of [(path, ?t)]) + ?F"
            unfolding add_0 by (rule subset_mset.add_mono [OF here(1) subset_mset.order_refl])
        qed (use here(2,3) in blast)
      qed
    qed (use "2.prems"(2) in \<open>auto simp: is_file_def is_dir_def\<close>)
  qed
qed


section \<open>What the walk over the other commit finds\<close>

definition from_items :: "walk_from_item list \<Rightarrow> (path \<times> merkle_tree_node) list" where
  "from_items stack = concat (map (\<lambda>i. case i of Visit p t \<Rightarrow> [(p, t)] | FinalizeDir _ \<Rightarrow> []) stack)"

lemma from_items_simps [simp]:
  "from_items [] = []" "from_items (Visit p t # stack) = (p, t) # from_items stack" "from_items (FinalizeDir d # stack) = from_items stack"
  "from_items (xs @ ys) = from_items xs @ from_items ys" "from_items (rev (map (\<lambda>(p, t). Visit p t) cs)) = rev cs"
  by (simp_all add: from_items_def rev_map [symmetric] comp_def case_prod_unfold del: rev_map) (induction cs, auto)

definition kept_of :: "merkle_hash set \<Rightarrow> (path \<times> merkle_tree_node) list \<Rightarrow> (path \<times> file_node) set" where
  "kept_of S xs = set (concat (map (\<lambda>(p, t). kept S t (child_path p t)) xs))"

lemma kept_of_simps [simp]:
  "kept_of S [] = {}" "kept_of S (x # xs) = set (kept S (snd x) (child_path (fst x) (snd x))) \<union> kept_of S xs"
  "kept_of S (xs @ ys) = kept_of S xs \<union> kept_of S ys" "kept_of S (rev xs) = kept_of S xs"
  by (auto simp: kept_of_def case_prod_unfold)

definition removable :: "work_env \<Rightarrow> work_tree \<Rightarrow> path set \<Rightarrow> on_conflict \<Rightarrow> (path \<times> file_node) set \<Rightarrow> path set \<Rightarrow> path \<Rightarrow> bool" where
  "removable env w seen oc F D x \<longleftrightarrow>
     (\<exists>(p, f) \<in> F. x = working_path env p \<and> p \<notin> seen \<and> (oc = Abort \<longrightarrow> is_modified_from_node env x f w = Inr False)) \<or>
     x \<in> working_path env ` D"

lemma removable_mono: "removable env w seen oc F D x \<Longrightarrow> F \<subseteq> G \<Longrightarrow> D \<subseteq> E \<Longrightarrow> removable env w seen oc G E x"
  unfolding removable_def by blast

text \<open>
  What a part of the walk adds to the paths to remove: only paths of the files \<open>F\<close> or of the
  directories \<open>D\<close>, and, if nothing stops it, the paths of the files \<open>K\<close> that are there.
\<close>

definition swept ::
  "work_env \<Rightarrow> work_tree \<Rightarrow> path set \<Rightarrow> on_conflict \<Rightarrow> (path \<times> file_node) set \<Rightarrow> (path \<times> file_node) set \<Rightarrow> path set \<Rightarrow>
   cleanup_candidates \<Rightarrow> cleanup_candidates \<Rightarrow> bool" where
  "swept env w seen oc F K D c c' \<longleftrightarrow> (\<exists>xs bs. paths_to_remove c' = paths_to_remove c @ xs \<and> not_removed c' = not_removed c @ bs \<and>
     (\<forall>x \<in> set xs. removable env w seen oc F D x) \<and>
     (bs = [] \<longrightarrow> (\<forall>(p, f) \<in> K. p \<notin> seen \<longrightarrow> path_exists (working_path env p) (wt_fs w) \<longrightarrow> working_path env p \<in> set xs)))"

lemma swept_refl: "K \<subseteq> {} \<Longrightarrow> swept env w seen oc F K D c c"
  by (auto simp: swept_def)

lemma swept_trans:
  assumes "swept env w seen oc F K D a b" "swept env w seen oc G L E b c" "F \<union> G \<subseteq> H" "M \<subseteq> K \<union> L" "D \<union> E \<subseteq> C"
  shows "swept env w seen oc H M C a c"
proof -
  obtain xs bs where 1: "paths_to_remove b = paths_to_remove a @ xs" "not_removed b = not_removed a @ bs"
    "\<forall>x \<in> set xs. removable env w seen oc F D x"
    "bs = [] \<longrightarrow> (\<forall>(p, f) \<in> K. p \<notin> seen \<longrightarrow> path_exists (working_path env p) (wt_fs w) \<longrightarrow> working_path env p \<in> set xs)"
    using assms(1) by (auto simp: swept_def)
  obtain ys cs where 2: "paths_to_remove c = paths_to_remove b @ ys" "not_removed c = not_removed b @ cs"
    "\<forall>x \<in> set ys. removable env w seen oc G E x"
    "cs = [] \<longrightarrow> (\<forall>(p, f) \<in> L. p \<notin> seen \<longrightarrow> path_exists (working_path env p) (wt_fs w) \<longrightarrow> working_path env p \<in> set ys)"
    using assms(2) by (auto simp: swept_def)
  have "F \<subseteq> H" "G \<subseteq> H" "D \<subseteq> C" "E \<subseteq> C" using assms(3,5) by blast+
  then have "\<forall>x \<in> set (xs @ ys). removable env w seen oc H C x"
    using 1(3) 2(3) removable_mono by (metis (no_types, lifting) Un_iff set_append)
  moreover have "bs @ cs = [] \<longrightarrow> (\<forall>(p, f) \<in> M. p \<notin> seen \<longrightarrow> path_exists (working_path env p) (wt_fs w) \<longrightarrow> working_path env p \<in> set (xs @ ys))"
  proof (intro impI ballI)
    fix x assume e: "bs @ cs = []" and x: "x \<in> M"
    have "x \<in> K \<or> x \<in> L" using x assms(4) by blast
    with 1(4) 2(4) e show "case x of (p, f) \<Rightarrow> p \<notin> seen \<longrightarrow> path_exists (working_path env p) (wt_fs w) \<longrightarrow> working_path env p \<in> set (xs @ ys)"
      by auto
  qed
  ultimately show ?thesis
    unfolding swept_def using 1(1,2) 2(1,2) by (intro exI [of _ "xs @ ys"] exI [of _ "bs @ cs"]) simp
qed

lemma swept_file:
  "from_file_step env w remote seen oc p h f c = Inr c' \<Longrightarrow> swept env w seen oc {(p, f)} {(p, f)} {} c c'"
proof (cases "p \<notin> seen \<and> path_exists (working_path env p) (wt_fs w)")
  case True
  assume "from_file_step env w remote seen oc p h f c = Inr c'"
  with True obtain m where m: "is_modified_from_node env (working_path env p) f w = Inr m"
    and c': "c' = (if oc = Abort \<and> m then c\<lparr>not_removed := not_removed c @ [p]\<rparr> else push_removed (working_path env p)
        (if remote \<and> \<not> m then push_stored h (working_path env p) c else c))"
    by (auto simp: from_file_step_def Let_def rbind_eq_Inr split: if_splits)
  show ?thesis
    using True m unfolding c' by (cases "oc = Abort \<and> m") (auto simp: swept_def removable_def push_removed_def push_stored_def)
next
  case False
  assume "from_file_step env w remote seen oc p h f c = Inr c'"
  with False show ?thesis
    by (auto simp: from_file_step_def swept_def Let_def rbind_eq_Inr push_stored_def split: if_splits)
qed

lemma swept_dir:
  "swept env w seen oc {} {} {d} c (if path_exists (working_path env d) (wt_fs w) then push_removed (working_path env d) c else c)"
  by (auto simp: swept_def removable_def push_removed_def)

lemma walk_from_swept:
  "walk_from_loop env w remote S seen oc stack acc = Inr c \<Longrightarrow> good_stack (from_items stack) \<Longrightarrow>
   swept env w seen oc (kept_of S (from_items stack)) (kept_of S (from_items stack))
     (dirs_of (from_items stack) \<union> {d. FinalizeDir d \<in> set stack}) acc c"
proof (induction env w remote S seen oc stack acc rule: walk_from_loop.induct)
  case (1 env w remote S seen oc acc)
  then show ?case by (auto simp: walk_from_loop.simps intro: swept_refl)
next
  case (2 env w remote S seen oc d stack acc)
  then have rest: "swept env w seen oc (kept_of S (from_items stack)) (kept_of S (from_items stack))
     (dirs_of (from_items stack) \<union> {d. FinalizeDir d \<in> set stack})
     (if path_exists (working_path env d) (wt_fs w) then push_removed (working_path env d) acc else acc) c"
    by (simp add: walk_from_loop.simps(2))
  show ?case by (rule swept_trans [OF swept_dir rest]) auto
next
  case (3 env w remote S seen oc path h n p cs stack acc)
  let ?t = "MTNode h n p cs"
  let ?K = "kept_of S (from_items stack)"
    and ?D = "dirs_of (from_items stack) \<union> {d. FinalizeDir d \<in> set stack}"
  have good: "wf_tree ?t" "good_stack (from_items stack)" using "3.prems"(2) by auto
  have whole: ?case if "swept env w seen oc (kept_of S [(path, ?t)] \<union> ?K) (kept_of S [(path, ?t)] \<union> ?K) (dirs_of [(path, ?t)] \<union> ?D) acc c"
  proof -
    have "from_items (Visit path ?t # stack) = [(path, ?t)] @ from_items stack"
      "{d. FinalizeDir d \<in> set (Visit path ?t # stack)} = {d. FinalizeDir d \<in> set stack}" by simp_all
    with that show ?thesis by (simp only: items_simps(3,5) kept_of_simps(3) set_append Un_assoc)
  qed
  show ?case
  proof (cases n)
    case (EFile f)
    let ?p = "join_str path (fn_name f)"
    obtain c1 where c1: "from_file_step env w remote seen oc ?p h f acc = Inr c1"
      and rest: "walk_from_loop env w remote S seen oc stack c1 = Inr c"
      using "3.prems"(1) by (auto simp: walk_from_loop.simps(3) EFile rbind_eq_Inr)
    have "kept_of S [(path, ?t)] = {(?p, f)}"
      using good(1) by (auto simp: EFile file_entries_node child_path_def)
    then show ?thesis
      by (intro whole swept_trans [OF swept_file [OF c1] "3.IH"(1) [OF EFile c1 rest good(2)]]) (simp_all only: Un_empty_left, blast+)
  next
    case (EDirectory d)
    let ?p = "join_str path (dn_name d)"
    show ?thesis
    proof (cases "h \<in> S")
      case True
      then have "walk_from_loop env w remote S seen oc stack acc = Inr c" using "3.prems"(1) by (simp add: walk_from_loop.simps(3) EDirectory)
      from "3.IH"(2) [OF EDirectory True this good(2)] have "swept env w seen oc ?K ?K ?D acc c" .
      moreover have "kept_of S [(path, ?t)] = {}"
        using True kept_inner_node [of h n p cs S "child_path path ?t"] by (simp add: EDirectory may_have_children_def del: kept.simps)
      moreover have "swept env w seen oc {} {} {} acc acc" by (rule swept_refl) simp
      ultimately show ?thesis using whole [OF swept_trans [of env w seen oc "{}" "{}" "{}" acc acc ?K ?K ?D c]] by simp
    next
      case False
      let ?us = "unshared_children S ?p cs"
      let ?stack = "rev (map (\<lambda>(p, t). Visit p t) ?us) @ FinalizeDir ?p # stack"
      have rest: "walk_from_loop env w remote S seen oc ?stack acc = Inr c"
        using "3.prems"(1) False by (simp add: walk_from_loop.simps(3) EDirectory Let_def)
      have items: "from_items ?stack = rev ?us @ from_items stack" by (simp only: from_items_simps)
      have "good_stack (from_items ?stack)"
        unfolding items using good(2) good_children(2) [OF good(1) [unfolded EDirectory]] by (simp only: good_stack_simps)
      note below = "3.IH"(3) [OF EDirectory False refl rest this]
      note here = unshared_dir_items [OF good(1) [unfolded EDirectory], where P = path, folded EDirectory]
      have "kept_of S [(path, ?t)] = kept_of S ?us"
        using False kept_inner_node [of h n p cs S "child_path path ?t"] kept_unshared [OF good_children(1) [OF good(1) [unfolded EDirectory]], of S ?p]
        by (simp add: kept_of_def EDirectory may_have_children_def child_path_def del: kept.simps)
      then have K: "kept_of S [(path, ?t)] \<union> ?K = kept_of S (from_items ?stack)" unfolding items by simp
      have fin: "{d. FinalizeDir d \<in> set ?stack} = insert ?p {d. FinalizeDir d \<in> set stack}" by auto
      have "dirs_of (from_items ?stack) = dirs_of ?us \<union> dirs_of (from_items stack)" unfolding items items_simps(5,6) ..
      with here(2) [of S] have "dirs_of (from_items ?stack) \<subseteq> dirs_of [(path, ?t)] \<union> dirs_of (from_items stack)" by (metis Un_mono subset_refl)
      with here(3) have D: "dirs_of (from_items ?stack) \<union> {d. FinalizeDir d \<in> set ?stack} \<subseteq> dirs_of [(path, ?t)] \<union> ?D"
        unfolding fin by blast
      have "swept env w seen oc {} {} {} acc acc" by (rule swept_refl) simp
      then show ?thesis
      proof (rule whole [OF swept_trans [OF _ below]])
        show "{} \<union> (dirs_of (from_items ?stack) \<union> {d. FinalizeDir d \<in> set ?stack}) \<subseteq> dirs_of [(path, ?t)] \<union> ?D"
          unfolding Un_empty_left by (rule D)
      qed (simp_all only: Un_empty_left K subset_refl)
    qed
  qed (use "3.prems"(2) in \<open>auto simp: is_file_def is_dir_def\<close>)
qed


section \<open>What a checkout changes\<close>

text \<open>Existing files outside of \<open>P\<close> stay as they are; new ones may come (in the version store).\<close>

definition keeps_but :: "path set \<Rightarrow> work_tree \<Rightarrow> work_tree \<Rightarrow> bool" where
  "keeps_but P w w' \<longleftrightarrow> (\<forall>q. q \<notin> P \<longrightarrow> fs_files (wt_fs w) q \<noteq> None \<longrightarrow>
     fs_files (wt_fs w') q = fs_files (wt_fs w) q \<and> wt_mtime w' q = wt_mtime w q)"

lemma keeps_but_preorder [simp]: "reflp (keeps_but P)" "transp (keeps_but P)"
  unfolding reflp_def transp_def keeps_but_def by (simp, metis)

lemma keeps_but_work: "runs_within (work_but P) m \<Longrightarrow> runs_within (keeps_but P) m"
  unfolding runs_within_def keeps_but_def work_but_def by blast

lemma keeps_but_mono: "runs_within (keeps_but P) m \<Longrightarrow> P \<subseteq> Q \<Longrightarrow> runs_within (keeps_but Q) m"
  unfolding runs_within_def keeps_but_def by blast

lemma store_version_keeps:
  "fs_files f q \<noteq> None \<Longrightarrow> fs_files (snd (store_version_from_reader root h rd f)) q = fs_files f q"
  by (auto simp: store_version_from_reader_def sbind_def mkdir_all_def create_dir_all_def Let_def copy_reader_def fs_write_def path_exists_def
      split: sum.splits if_splits option.splits)

lemma store_working_file_keeps: "runs_within (keeps_but P) (store_working_file env h p)"
proof -
  have "runs_within (keeps_but P) (on_fs (store_version_from_reader root h rd))" for root h rd
    unfolding runs_within_def keeps_but_def
  proof (intro allI impI)
    fix w :: work_tree and q assume "fs_files (wt_fs w) q \<noteq> None"
    from store_version_keeps [OF this, of root h rd]
    show "fs_files (wt_fs (snd (on_fs (store_version_from_reader root h rd) w))) q = fs_files (wt_fs w) q \<and>
        wt_mtime (snd (on_fs (store_version_from_reader root h rd) w)) q = wt_mtime w q"
      by (simp add: on_fs_def case_prod_unfold)
  qed
  then show ?thesis
    unfolding runs_within_def by (auto simp: store_working_file_def keeps_but_def split: option.splits)
qed

lemma apply_dir_replacement_keeps:
  assumes "fst x \<in> P" shows "runs_within (keeps_but P) (apply_dir_replacement env remote x)"
proof -
  obtain q h where x: "x = (q, h)" by force
  have "runs_within (keeps_but P) (sbind (case h of Some h \<Rightarrow> if remote then store_working_file env h q else slift (Inr ())
      | None \<Rightarrow> slift (Inr ())) (\<lambda>_. on_fs (fs_remove_file q)))"
    using assms by (intro runs_within_sbind) (auto simp: x intro: keeps_but_work store_working_file_keeps split: option.splits)
  moreover have "reflp (keeps_but P)" by simp
  ultimately show ?thesis unfolding runs_within_def apply_dir_replacement_def x by (auto simp: reflp_def)
qed

lemma remove_candidate_keeps: "p \<in> P \<Longrightarrow> runs_within (keeps_but P) (remove_candidate p)"
  unfolding runs_within_def keeps_but_def
proof (intro allI impI)
  fix w :: work_tree and q assume p: "p \<in> P" and q: "q \<notin> P" "fs_files (wt_fs w) q \<noteq> None"
  then have "q \<noteq> p" by blast
  with q(2) have "\<not> (dir_empty p (wt_fs w) \<and> path_starts_with q p)" by (auto simp: dir_empty_def)
  with q \<open>q \<noteq> p\<close> show "fs_files (wt_fs (snd (remove_candidate p w))) q = fs_files (wt_fs w) q \<and> wt_mtime (snd (remove_candidate p w)) q = wt_mtime w q"
    by (auto simp: remove_candidate_def on_fs_def remove_dir_all_def remove_subtree_def fs_remove_file_def)
qed

lemma restore_entry_keeps: "working_path env (fst x) \<in> P \<Longrightarrow> runs_within (keeps_but P) (restore_entry env x)"
  by (cases x) (simp add: restore_entry_def keeps_but_work)

lemma restore_existing_keeps:
  assumes "working_path env (fst x) \<in> P" shows "runs_within (keeps_but P) (restore_existing_version env remote x)"
proof -
  obtain p f where x: "x = (p, f)" by force
  have r: "runs_within (keeps_but P) (restore_file env f p)" using assms by (simp add: x keeps_but_work)
  have "runs_within (keeps_but P) (\<lambda>w. (version_exists root h (wt_fs w), w))" for root h by (simp add: runs_within_def keeps_but_def)
  with r show ?thesis
    unfolding restore_existing_version_def x prod.case by (cases remote) (auto intro!: runs_within_sbind)
qed

text \<open>A file that changed was to be restored, in the way of a directory, or to be removed.\<close>

lemma checkout_trees_changes:
  assumes run: "checkout_trees env remote oc restore target sp depth from common ps w = (res, w')"
    and restore: "\<And>x P. working_path env (fst x) \<in> P \<Longrightarrow> runs_within (keeps_but P) (restore x)"
    and change: "fs_files (wt_fs w) q \<noteq> None" "\<not> (fs_files (wt_fs w') q = fs_files (wt_fs w) q \<and> wt_mtime w' q = wt_mtime w q)"
  obtains r seen where "walk_target_tree env w target sp ps common depth oc = Inr (r, seen)" "not_overwritten r = []"
    and "q \<in> working_path env ` fst ` set (files_to_restore r) \<or> q \<in> fst ` set (dir_replacements r) \<or>
      (\<exists>w1 t c. fs_files (wt_fs w1) q = fs_files (wt_fs w) q \<and> wt_mtime w1 q = wt_mtime w q \<and> from = Some t \<and>
         walk_from_tree env w1 remote t common seen oc = Inr c \<and> not_removed c = [] \<and> q \<in> set (paths_to_remove c))"
proof -
  have "walk_target_tree env w target sp ps common depth oc \<noteq> Inl e" for e
    using run change by (auto simp: checkout_trees_def sbind_def)
  then obtain r seen where wt: "walk_target_tree env w target sp ps common depth oc = Inr (r, seen)"
    by (cases "walk_target_tree env w target sp ps common depth oc") auto
  have nb: "not_overwritten r = []" using run change wt by (auto simp: checkout_trees_def sbind_def split: if_splits)
  show thesis
  proof (cases "q \<in> working_path env ` fst ` set (files_to_restore r) \<or> q \<in> fst ` set (dir_replacements r)")
    case True
    with wt nb that show thesis by blast
  next
    case False
    let ?P = "UNIV - {q}"
    let ?clean = "case from of None \<Rightarrow> slift (Inr ()) | Some t \<Rightarrow> cleanup_removed_files env remote t common seen oc"
    have rep: "runs_within (keeps_but ?P) (apply_dir_replacements env remote (dir_replacements r))"
      unfolding apply_dir_replacements_def using False by (intro runs_within_sfor apply_dir_replacement_keeps) auto
    have res: "runs_within (keeps_but ?P) (sfor restore (files_to_restore r))"
      using False by (intro runs_within_sfor restore) auto
    obtain r1 w1 where w1: "apply_dir_replacements env remote (dir_replacements r) w = (r1, w1)" by force
    have k1: "keeps_but ?P w w1" using rep w1 by (rule runs_withinD)
    have run': "sbind (apply_dir_replacements env remote (dir_replacements r)) (\<lambda>_. sbind ?clean (\<lambda>_. sfor restore (files_to_restore r))) w = (res, w')"
      using run wt nb by (simp add: checkout_trees_def sbind_def)
    show thesis
    proof (cases "keeps_but ?P w1 (snd (?clean w1))")
      case True
      obtain r2 w2 where w2: "?clean w1 = (r2, w2)" by force
      have k2: "keeps_but ?P w1 w2" using True w2 by simp
      have k3: "keeps_but ?P w2 (snd (sfor restore (files_to_restore r) w2))" using res unfolding runs_within_def by blast
      have "keeps_but ?P w w'"
      proof (cases r1)
        case (Inl e)
        then have "w' = w1" using run' w1 by (simp add: sbind_def)
        with k1 show ?thesis by simp
      next
        case (Inr u)
        have "w' = w2 \<or> w' = snd (sfor restore (files_to_restore r) w2)"
          using run' w1 w2 Inr by (cases r2) (auto simp: sbind_def)
        with k1 k2 k3 show ?thesis by (metis keeps_but_preorder(2) transpD)
      qed
      with change show thesis by (simp add: keeps_but_def)
    next
      case False
      then obtain t where t: "from = Some t" by (cases "from") (auto simp: keeps_but_def)
      have "\<not> keeps_but ?P w1 (snd (cleanup_removed_files env remote t common seen oc w1))" using False t by simp
      moreover have "keeps_but ?P w1 w1" by (simp add: keeps_but_def)
      ultimately obtain c where c: "walk_from_tree env w1 remote t common seen oc = Inr c" "not_removed c = []"
        by (cases "walk_from_tree env w1 remote t common seen oc")
          (auto simp: cleanup_removed_files_def sbind_def split: if_splits)
      have "q \<in> set (paths_to_remove c)"
      proof (rule ccontr)
        assume "q \<notin> set (paths_to_remove c)"
        then have "runs_within (keeps_but ?P) (sfor remove_candidate (paths_to_remove c))"
          by (intro runs_within_sfor remove_candidate_keeps) auto
        moreover have "runs_within (keeps_but ?P) (if remote then sfor (\<lambda>(h, p). store_working_file env h p) (files_to_store c) else slift (Inr ()))"
          by (auto intro!: runs_within_sfor store_working_file_keeps)
        ultimately have "runs_within (keeps_but ?P) (sbind (if remote then sfor (\<lambda>(h, p). store_working_file env h p) (files_to_store c) else slift (Inr ()))
            (\<lambda>_. sfor remove_candidate (paths_to_remove c)))" by (intro runs_within_sbind) auto
        then have "keeps_but ?P w1 (snd (cleanup_removed_files env remote t common seen oc w1))"
          using c by (simp add: runs_within_def cleanup_removed_files_def sbind_def)
        with False t show False by simp
      qed
      moreover have "fs_files (wt_fs w1) q = fs_files (wt_fs w) q \<and> wt_mtime w1 q = wt_mtime w q"
        using k1 change(1) by (simp add: keeps_but_def)
      ultimately show thesis using wt nb t c that by blast
    qed
  qed
qed


section \<open>The loaded trees\<close>

definition dir_paths :: "merkle_tree_node \<Rightarrow> path set" where
  "dir_paths t = {d. \<exists>x. (d, x) \<in> set (tree_entries t []) \<and> is_dir x}"

lemma strip_entries: "(q, x) \<in> set (tree_entries (strip t) cur) \<Longrightarrow> \<exists>y. (q, y) \<in> set (tree_entries t cur) \<and> t_node y = t_node x"
  by (cases t; cases "t_node t") (auto simp: strip_def)

lemma prune_entries:
  "(q, x) \<in> set (tree_entries (prune base r trav t) cur) \<Longrightarrow> \<exists>y. (q, y) \<in> set (tree_entries t cur) \<and> t_node y = t_node x"
proof (induction base r trav t arbitrary: cur rule: prune.induct)
  case (1 base r trav h n p cs)
  let ?t = "MTNode h n p cs"
  let ?g = "\<lambda>c. if may_have_children c \<and> descends r trav c then prune base r (child_depth trav c) c else strip c"
  have path: "child_path P (?g c) = child_path P c" for P c by (simp add: child_path_def)
  show ?case
  proof (cases "\<not> may_have_children ?t \<or> in_base base h")
    case True
    then have "prune base r trav ?t = strip ?t" by (simp add: strip_def)
    with "1.prems" strip_entries show ?thesis by metis
  next
    case False
    then have "prune base r trav ?t = MTNode h n p (map ?g cs)" by simp
    with "1.prems" have "(q, x) \<in> set (tree_entries (MTNode h n p (map ?g cs)) cur)" by metis
    then consider "(q, x) \<in> set (case n of EFile f \<Rightarrow> [(join_str cur (fn_name f), MTNode h n p (map ?g cs))] | EDirectory _ \<Rightarrow> [(cur, MTNode h n p (map ?g cs))] | _ \<Rightarrow> [])"
      | c where "c \<in> set cs" "(q, x) \<in> set (tree_entries (?g c) (child_path cur c))"
      using path by (auto simp del: prune.simps)
    then show ?thesis
    proof cases
      case 1
      then show ?thesis by (cases n) auto
    next
      case 2
      have "\<exists>y. (q, y) \<in> set (tree_entries c (child_path cur c)) \<and> t_node y = t_node x"
      proof (cases "may_have_children c \<and> descends r trav c")
        case True
        then have "(q, x) \<in> set (tree_entries (prune base r (child_depth trav c) c) (child_path cur c))" using 2(2) by (simp only: if_True simp_thms)
        then show ?thesis by (rule "1.IH" [OF False 2(1) True])
      next
        case False
        then have "(q, x) \<in> set (tree_entries (strip c) (child_path cur c))" using 2(2) by (simp only: if_False)
        then show ?thesis by (rule strip_entries)
      qed
      with 2(1) show ?thesis by auto
    qed
  qed
qed

lemma commit_root:
  assumes "wf_tree t" "node_type (t_node t) = TCommit"
  obtains h c p r where "t = MTNode h (ECommit c) p [r]" "wf_tree r" "is_dir r" "child_path [] r = []" "get_root_dir (MTNode h (ECommit c) q [r]) = Inr r"
    "files_of [([], r)] = file_entries t []" "dirs_of [([], r)] = dir_paths t"
proof -
  obtain h c p r where t: "t = MTNode h (ECommit c) p [r]" "wf_tree r" "is_dir r" "child_search_name r = []"
    using assms by (cases t; cases "t_node t") (auto split: list.splits)
  have "child_path [] r = []" using t(3,4) by (simp add: child_path_dir)
  moreover have "get_root_dir (MTNode h (ECommit c) q [r]) = Inr r"
    using t(3) by (auto simp: get_root_dir_def is_dir_def split: e_merkle_tree_node.splits)
  ultimately show thesis using that t by (simp add: file_entries_root dir_paths_def)
qed

lemma set_working_run:
  assumes trees: "commit_tree hash128 st fuel fc b" "commit_tree hash128 st fuel tc m" "apart b m"
    and timed: "\<forall>f \<in> snd ` set (file_entries b []). timed f"
  obtains ps h c p r h' c' p' r' pb where
    "\<And>env remote oc. set_working_repo_to_commit env remote st fuel tc (Some fc) oc =
       checkout_trees env remote oc (restore_entry env) (MTNode h (ECommit c) p [r]) [] i32_max (Some (MTNode h' (ECommit c') p' [r'])) (ff_shared b m) ps"
    and "map_of ps = map_option partial_of \<circ> map_of (kept (ff_shared b m) b [])"
    and "m = MTNode h (ECommit c) pb [r]" "prune (Some (unique_of None (-1) 0 m)) (-1) 0 b = MTNode h' (ECommit c') (t_parent_id b) [r']"
proof -
  obtain pm pb ps where l: "load_fast_forward st fuel fc tc =
      Inr (MTNode (t_hash m) (t_node m) pm (t_children m),
           MTNode (t_hash b) (t_node b) pb (t_children (prune (Some (unique_of None (-1) 0 m)) (-1) 0 b)), ps, ff_shared b m)"
    and ps: "map_of ps = map_option partial_of \<circ> map_of (kept (ff_shared b m) b [])"
    using load_fast_forward_trees [OF trees(1,2) timed] by blast
  define B where "B = prune (Some (unique_of None (-1) 0 m)) (-1) 0 b"
  have wf: "wf_tree b" "node_type (t_node b) = TCommit" "wf_tree m" "node_type (t_node m) = TCommit"
    using trees(1,2) by (simp_all add: commit_tree_def)
  obtain h c p r where m: "m = MTNode h (ECommit c) p [r]" using commit_root [OF wf(3,4)] by metis
  have "t_hash b \<notin> unique_of None (-1) 0 m" using unique_inner_at [of "t_hash b" None 0 m] trees(3) unfolding apart_def by blast
  then have "wf_tree B" "node_type (t_node B) = TCommit" using wf(1,2) unfolding B_def by (auto intro!: wf_prune simp: in_base_def)
  then obtain h' c' p' r' where b: "B = MTNode h' (ECommit c') p' [r']" using commit_root [of B] by metis
  have sel: "t_hash b = h'" "t_node b = ECommit c'" using b unfolding B_def by (metis merkle_tree_node.sel(1,2) prune_sel)+
  have parent: "p' = t_parent_id b" using b unfolding B_def by (cases b) (auto split: if_splits)
  have l': "load_fast_forward st fuel fc tc = Inr (MTNode h (ECommit c) pm [r], MTNode h' (ECommit c') pb [r'], ps, ff_shared b m)"
    using l b unfolding B_def [symmetric] sel by (simp add: m)
  obtain mh z where lt: "load_tree st fuel tc None (Some {}) None = Inr (Some (MTNode h (ECommit c) pm [r]), mh, z)"
    and lb: "load_base_tree st fuel fc mh = Inr (Some (MTNode h' (ECommit c') pb [r']), ff_shared b m, ps)"
    using l' by (auto simp: load_fast_forward_def rbind_eq_Inr ok_or_def split: option.splits)
  have "cm_id fc \<noteq> cm_id tc" using apart_ids [OF trees] .
  then have "set_working_repo_to_commit env remote st fuel tc (Some fc) oc =
      checkout_trees env remote oc (restore_entry env) (MTNode h (ECommit c) pm [r]) [] i32_max (Some (MTNode h' (ECommit c') pb [r'])) (ff_shared b m) ps"
    for env remote oc
    using lt lb by (simp add: set_working_repo_to_commit_def sbind_def fun_eq_iff map_err_def)
  with ps m b parent show thesis unfolding B_def by (intro that [of h c pm r h' c' pb r']) simp_all
qed


text \<open>The walks start at the roots of the two commits.\<close>

lemma walk_target_commit:
  assumes "m = MTNode h (ECommit c) pm [r]" "wf_tree m"
    and "walk_target_tree env w (MTNode h (ECommit c) p [r]) [] ps S i32_max oc = Inr a"
  shows "walk_target_loop env w ps S oc [([], r, i32_max - 1)] (checkout_result_new, {}) = Inr a"
    and "found env w ps oc (mset (file_entries m [])) (dir_paths m) (checkout_result_new, {}) a"
proof -
  have "node_type (t_node m) = TCommit" by (simp add: assms(1))
  from commit_root [OF assms(2) this, of p] obtain h' c' p' r' where m: "m = MTNode h' (ECommit c') p' [r']" "wf_tree r'" "is_dir r'"
    "get_root_dir (MTNode h' (ECommit c') p [r']) = Inr r'" "files_of [([], r')] = file_entries m []" "dirs_of [([], r')] = dir_paths m"
    by metis
  have e: "h' = h" "c' = c" "r' = r" using m(1) assms(1) by simp_all
  note m = m(2-) [unfolded e]
  show run: "walk_target_loop env w ps S oc [([], r, i32_max - 1)] (checkout_result_new, {}) = Inr a"
    using assms(3) m(3) by (simp add: walk_target_tree_def walk_target_loop.simps(2) i32_max_def)
  have items: "target_items [([], r, i32_max - 1)] = [([], r)]" by simp
  have "good_stack (target_items [([], r, i32_max - 1)])" using m(1,2) by simp
  from walk_target_found [OF run this]
  show "found env w ps oc (mset (file_entries m [])) (dir_paths m) (checkout_result_new, {}) a" unfolding items m(4,5) .
qed

lemma walk_from_commit:
  assumes "wf_tree (MTNode h (ECommit c) p [r])" "walk_from_tree env w remote (MTNode h (ECommit c) p [r]) S seen oc = Inr a"
  shows "swept env w seen oc (set (kept S r [])) (set (kept S r [])) {d. \<exists>x. (d, x) \<in> set (tree_entries r []) \<and> is_dir x}
    cleanup_candidates_default a"
proof -
  let ?t = "MTNode h (ECommit c) p [r]"
  have "node_type (t_node ?t) = TCommit" by simp
  from commit_root [OF assms(1) this, of p] have r: "wf_tree r" "is_dir r" "child_path [] r = []" "get_root_dir ?t = Inr r" by auto
  then have run: "walk_from_loop env w remote S seen oc [Visit [] r] cleanup_candidates_default = Inr a"
    using assms(2) by (simp add: walk_from_tree_def walk_from_loop.simps(3))
  have "good_stack (from_items [Visit [] r])" using r by simp
  from walk_from_swept [OF run this] show ?thesis using r(3) by simp
qed

definition copy_of :: "work_env \<Rightarrow> work_tree \<Rightarrow> path \<Rightarrow> file_node \<Rightarrow> bool" where
  "copy_of env w q f \<longleftrightarrow> (\<exists>bs t. fs_files (wt_fs w) q = Some bs \<and> fn_last_modified f = Inr t \<and>
     (size_and_mtime_match env (length bs, wt_mtime w q) t (fn_num_bytes f) = Inr True \<or> wk_hash env bs = fn_hash f))"

lemma classify_unmodified:
  assumes "classify_modified env q f len matched w = Inr False" "fs_files (wt_fs w) q = Some bs"
  shows "len = unat (fn_num_bytes f) \<and> (matched \<or> wk_hash env bs = fn_hash f)"
proof (cases "len = unat (fn_num_bytes f) \<and> \<not> matched")
  case True
  then obtain m where "wk_metadata_hash env (wt_fs w) q = Inr m"
    using assms(1) by (auto simp: classify_modified_def rbind_eq_Inr)
  with True assms show ?thesis
    by (cases m; cases "fn_metadata_hash f")
      (auto simp: classify_modified_def u128_hash_file_contents_def rbind_eq_Inr split: if_splits option.splits)
qed (use assms in \<open>auto simp: classify_modified_def split: if_splits\<close>)

lemma unmodified_copy:
  assumes "is_modified_from_node env q f w = Inr False" "fs_files (wt_fs w) q = Some bs"
  shows "copy_of env w q f"
  using assms metadata_file [OF assms(2), of env] classify_unmodified [OF _ assms(2)]
  by (fastforce simp: is_modified_from_node_def path_exists_def rbind_eq_Inr copy_of_def size_and_mtime_match_def)

lemma copy_of_same: "fs_files (wt_fs w') q = fs_files (wt_fs w) q \<Longrightarrow> wt_mtime w' q = wt_mtime w q \<Longrightarrow> copy_of env w' q f = copy_of env w q f"
  by (simp add: copy_of_def)

section \<open>No local change is lost\<close>

text \<open>C7: a checkout that does not overwrite conflicts never loses a local change of a tracked file, in
  whatever way it ends: a file that afterwards is gone or has another content was, before, a copy
  of what the commit checked out before recorded at its path (the recorded size and time, or the
  recorded content hash). The only other files it removes are in the place of a directory, of the
  target or of the commit before: such a file is removed whether or not it was ever committed.\<close>

theorem checkout_keeps_local_changes:
  assumes "commit_tree hash128 st fuel fc b" "commit_tree hash128 st fuel tc m" "apart b m"
    and "\<forall>f \<in> snd ` set (file_entries b []). timed f"
    and "set_working_repo_to_commit env remote st fuel tc (Some fc) Abort w = (res, w')"
    and "fs_files (wt_fs w) q = Some bs" "fs_files (wt_fs w') q \<noteq> Some bs"
  shows "\<exists>p. q = working_path env p \<and> ((\<exists>f. file_map b p = Some f \<and> copy_of env w q f) \<or> p \<in> dir_paths b \<union> dir_paths m)"
proof (rule set_working_run [OF assms(1-4)])
  fix ps h c p r h' c' p' r' pb
  let ?S = "ff_shared b m"
  assume run: "\<And>env remote oc. set_working_repo_to_commit env remote st fuel tc (Some fc) oc =
       checkout_trees env remote oc (restore_entry env) (MTNode h (ECommit c) p [r]) [] i32_max (Some (MTNode h' (ECommit c') p' [r'])) ?S ps"
    and ps: "map_of ps = map_option partial_of \<circ> map_of (kept ?S b [])"
    and m: "m = MTNode h (ECommit c) pb [r]" and B: "prune (Some (unique_of None (-1) 0 m)) (-1) 0 b = MTNode h' (ECommit c') (t_parent_id b) [r']"
  have wf: "wf_tree b" "wf_tree m" using assms(1,2) by (simp_all add: commit_tree_def)
  have change: "fs_files (wt_fs w) q \<noteq> None" "\<not> (fs_files (wt_fs w') q = fs_files (wt_fs w) q \<and> wt_mtime w' q = wt_mtime w q)"
    using assms(6,7) by auto
  show ?thesis
  proof (rule checkout_trees_changes [OF assms(5) [unfolded run] restore_entry_keeps change])
    fix rs seen
    assume walk: "walk_target_tree env w (MTNode h (ECommit c) p [r]) [] ps ?S i32_max Abort = Inr (rs, seen)"
      and q: "q \<in> working_path env ` fst ` set (files_to_restore rs) \<or> q \<in> fst ` set (dir_replacements rs) \<or>
        (\<exists>w1 t c. fs_files (wt_fs w1) q = fs_files (wt_fs w) q \<and> wt_mtime w1 q = wt_mtime w q \<and> Some (MTNode h' (ECommit c') p' [r']) = Some t \<and>
         walk_from_tree env w1 remote t ?S seen Abort = Inr c \<and> not_removed c = [] \<and> q \<in> set (paths_to_remove c))"
    from walk_target_commit(2) [OF m wf(2) walk] obtain fs ds where
      fs: "files_to_restore rs = fs" "\<forall>x \<in> set fs. target_decision env w ps Abort x = Inr (Some True)" and
      ds: "dir_replacements rs = ds" "\<forall>x \<in> set ds. \<exists>d \<in> dir_paths m. \<exists>b es. dir_decision env w ps Abort d = Inr (b, es) \<and> x \<in> set es"
      by (auto simp: found_def checkout_result_new_def)
    consider f p where "(p, f) \<in> set fs" "q = working_path env p" | x where "(q, x) \<in> set ds"
      | w1 a where "fs_files (wt_fs w1) q = fs_files (wt_fs w) q" "wt_mtime w1 q = wt_mtime w q"
          "walk_from_tree env w1 remote (MTNode h' (ECommit c') p' [r']) ?S seen Abort = Inr a" "q \<in> set (paths_to_remove a)"
      using q fs(1) ds(1) by force
    then show ?thesis
    proof cases
      case 1
      then have "target_decision env w ps Abort (p, f) = Inr (Some True)" "fs_files (wt_fs w) (working_path env p) = Some bs"
        using fs(2) assms(6) by auto
      from target_decision_restores [OF this] obtain "from" where
        "from": "map_of ps p = Some from" "from_recorded env w q from" using 1(2) by auto
      then obtain g where g: "map_of (kept ?S b []) p = Some g" "from = partial_of g" using ps by auto
      then have b: "file_map b p = Some g" using kept_file [OF wf(1)] by blast
      then obtain t where "fn_last_modified g = Inr t" using assms(4) file_map_iff [OF wf(1)] by (force simp: timed_def)
      with "from"(2) g(2) have "copy_of env w q g" by (auto simp: from_recorded_def copy_of_def partial_of_timed)
      with b 1(2) show ?thesis by blast
    next
      case 2
      with ds(2) obtain d b' es where "d \<in> dir_paths m" "dir_decision env w ps Abort d = Inr (b', es)" "(q, x) \<in> set es" by blast
      with dir_decision_replaces show ?thesis by blast
    next
      case 3
      have "wf_tree (MTNode h' (ECommit c') (t_parent_id b) [r'])"
        using wf_prune [OF wf(1), of "Some (unique_of None (-1) 0 m)" 0] unique_inner_at [of "t_hash b" None 0 m] assms(3)
        unfolding B [symmetric] apart_def by (fastforce simp: in_base_def)
      then have wfr: "wf_tree (MTNode h' (ECommit c') p' [r'])" by simp
      have entries: "\<exists>y. (d, y) \<in> set (tree_entries b []) \<and> t_node y = t_node x" if "(d, x) \<in> set (tree_entries r' [])" for d x
      proof -
        have "child_path [] r' = []" using commit_root [OF wfr] by auto
        with that have "(d, x) \<in> set (tree_entries (MTNode h' (ECommit c') (t_parent_id b) [r']) [])" by simp
        then show ?thesis unfolding B [symmetric] by (rule prune_entries)
      qed
      have "removable env w1 seen Abort (set (kept ?S r' [])) {d. \<exists>x. (d, x) \<in> set (tree_entries r' []) \<and> is_dir x} q"
        using walk_from_commit [OF wfr 3(3)] 3(4) by (auto simp: swept_def cleanup_candidates_default_def)
      then consider p f where "(p, f) \<in> set (file_entries r' [])" "q = working_path env p" "is_modified_from_node env q f w1 = Inr False"
        | d x where "(d, x) \<in> set (tree_entries r' [])" "is_dir x" "q = working_path env d"
        unfolding removable_def using kept_sub by fastforce
      then show ?thesis
      proof cases
        case f: 1
        then have "file_map b p = Some f" unfolding file_map_iff [OF wf(1)] using entries by (auto simp: in_file_entries) metis
        moreover have "copy_of env w q f" using unmodified_copy [OF f(3)] 3(1,2) assms(6) copy_of_same by metis
        ultimately show ?thesis using f(2) by blast
      next
        case d: 2
        from entries [OF d(1)] d(2) have "d \<in> dir_paths b" unfolding dir_paths_def is_dir_def by fastforce
        with d(3) show ?thesis by blast
      qed
    qed
  qed
qed

end
