(* ===== verification/Checkout_Result.thy ===== *)
theory Checkout_Result
  imports Checkout_Props
begin

text \<open>
  A checkout that ends: from a working tree without local changes, or overwriting whatever is there,
  it brings the files of the target; so does abandoning a merge for the files of \<open>HEAD\<close>.
\<close>

section \<open>Walks that succeed\<close>

lemma kept_files: "kept_of S xs \<subseteq> set (files_of xs)"
  using kept_sub by (force simp: kept_of_def files_of_def)

lemma unshared_kept:
  "\<forall>v \<in> set vs. is_vnode v \<Longrightarrow> S' \<subseteq> S \<Longrightarrow> kept_of S (unshared_children S P vs) \<subseteq> kept_of S (unshared_children S' P vs)"
  by (auto simp: kept_of_def unshared_children_def split: if_splits)

lemma kept_dir:
  assumes "wf_tree (MTNode h (EDirectory d) p cs)" "S' \<subseteq> S"
  shows "kept_of S [(P, MTNode h (EDirectory d) p cs)] \<subseteq> (if h \<in> S then {} else kept_of S (unshared_children S' (join_str P (dn_name d)) cs))"
proof -
  let ?P = "join_str P (dn_name d)" and ?t = "MTNode h (EDirectory d) p cs"
  have "kept_of S [(P, ?t)] = (if h \<in> S then {} else kept_of S (unshared_children S ?P cs))"
    using kept_inner_node [of h "EDirectory d" p cs S "child_path P ?t"] kept_unshared [OF good_children(1) [OF assms(1)], of S ?P]
    by (simp add: kept_of_def may_have_children_def child_path_def del: kept.simps)
  with unshared_kept [OF good_children(1) [OF assms(1)] assms(2), of ?P] show ?thesis by simp
qed

text \<open>Nothing stops the walk over the target, and all of its files that are not shared are seen.\<close>

definition deep_enough :: "(path \<times> merkle_tree_node \<times> int) list \<Rightarrow> bool" where
  "deep_enough stack \<longleftrightarrow> (\<forall>(p, t, d) \<in> set stack. int (tree_size t) \<le> d + 1)"

definition decides_all :: "work_env \<Rightarrow> work_tree \<Rightarrow> (path, partial_node) hash_map \<Rightarrow> on_conflict \<Rightarrow> (path \<times> file_node) set \<Rightarrow> path set \<Rightarrow> bool" where
  "decides_all env w ps oc F D \<longleftrightarrow> (\<forall>x \<in> F. target_decision env w ps oc x = Inr None \<or> target_decision env w ps oc x = Inr (Some True)) \<and>
     (\<forall>d \<in> D. dir_decision env w ps oc d = Inr (True, []))"

lemma decides_all_mono: "decides_all env w ps oc F D \<Longrightarrow> G \<subseteq> F \<Longrightarrow> E \<subseteq> D \<Longrightarrow> decides_all env w ps oc G E"
  unfolding decides_all_def by blast

lemma walk_target_total:
  "good_stack (target_items stack) \<Longrightarrow> deep_enough stack \<Longrightarrow>
   decides_all env w ps oc (set (files_of (target_items stack))) (dirs_of (target_items stack)) \<Longrightarrow>
   \<exists>r' seen'. walk_target_loop env w ps S oc stack (r, seen) = Inr (r', seen') \<and> not_overwritten r' = not_overwritten r \<and>
     seen \<subseteq> seen' \<and> set (files_to_restore r) \<subseteq> set (files_to_restore r') \<and>
     (\<forall>x \<in> kept_of S (target_items stack). fst x \<in> seen' \<and> (target_decision env w ps oc x = Inr (Some True) \<longrightarrow> x \<in> set (files_to_restore r')))"
proof (induction env w ps S oc stack "(r, seen)" arbitrary: r seen rule: walk_target_loop.induct)
  case (1 env w ps S oc)
  then show ?case by (simp add: walk_target_loop.simps)
next
  case (2 env w ps S oc path h n p cs depth stack r seen)
  let ?t = "MTNode h n p cs"
  have good: "wf_tree ?t" "good_stack (target_items stack)" using "2.prems"(1) by auto
  have deep: "\<not> depth < 0" "deep_enough stack" "int (tree_size ?t) \<le> depth + 1" using "2.prems"(2) by (auto simp: deep_enough_def)
  have items: "target_items ((path, ?t, depth) # stack) = [(path, ?t)] @ target_items stack" by simp
  have dec: "decides_all env w ps oc (set (files_of [(path, ?t)])) (dirs_of [(path, ?t)])"
    "decides_all env w ps oc (set (files_of (target_items stack))) (dirs_of (target_items stack))"
    using "2.prems"(3) unfolding items by (auto elim!: decides_all_mono)
  show ?case
  proof (cases n)
    case (EFile f)
    let ?p = "join_str path (fn_name f)"
    have h: "h = fn_hash f" "set (files_of [(path, ?t)]) = {(?p, f)}" using good(1) by (auto simp: EFile file_entries_node)
    then obtain d where d: "target_decision env w ps oc (?p, f) = Inr d" "d \<noteq> Some False" using dec(1) by (auto simp: decides_all_def)
    let ?r = "decided (?p, f) d r"
    have "target_file_step env w ps oc ?p h f r = Inr ?r" using d by (simp add: h target_file_step_decision)
    from "2.hyps"(2) [OF deep(1) EFile refl this good(2) deep(2) dec(2)] obtain r' seen' where
      r': "walk_target_loop env w ps S oc stack (?r, insert ?p seen) = Inr (r', seen')" "not_overwritten r' = not_overwritten ?r"
        "insert ?p seen \<subseteq> seen'" "set (files_to_restore ?r) \<subseteq> set (files_to_restore r')"
        "\<forall>x \<in> kept_of S (target_items stack). fst x \<in> seen' \<and> (target_decision env w ps oc x = Inr (Some True) \<longrightarrow> x \<in> set (files_to_restore r'))"
      by blast
    have run: "walk_target_loop env w ps S oc ((path, ?t, depth) # stack) (r, seen) = Inr (r', seen')"
      using r'(1) d deep(1) by (simp add: walk_target_loop.simps(2) EFile Let_def h target_file_step_decision)
    have dd: "not_overwritten ?r = not_overwritten r" "d = Some True \<longrightarrow> (?p, f) \<in> set (files_to_restore ?r)"
      "set (files_to_restore r) \<subseteq> set (files_to_restore ?r)"
      using d(2) by (auto simp: decided_def target_steps split: option.splits bool.splits)
    have sub: "kept_of S [(path, ?t)] \<subseteq> {(?p, f)}" using kept_files [of S "[(path, ?t)]"] h(2) by simp
    have "fst x \<in> seen' \<and> (target_decision env w ps oc x = Inr (Some True) \<longrightarrow> x \<in> set (files_to_restore r'))"
      if "x \<in> kept_of S [(path, ?t)]" for x
    proof -
      have "x = (?p, f)" using that sub by blast
      then show ?thesis using r'(3,4) d(1) dd(2) by auto
    qed
    then have all: "\<forall>x \<in> kept_of S [(path, ?t)] \<union> kept_of S (target_items stack). fst x \<in> seen' \<and>
        (target_decision env w ps oc x = Inr (Some True) \<longrightarrow> x \<in> set (files_to_restore r'))"
      using r'(5) by blast
    have eq: "not_overwritten r' = not_overwritten r" "set (files_to_restore r) \<subseteq> set (files_to_restore r')" "seen \<subseteq> seen'"
      using r'(2-4) dd by auto
    show ?thesis unfolding items kept_of_simps(3) using run all eq by blast
  next
    case (EDirectory d)
    let ?p = "join_str path (dn_name d)"
    let ?S = "if working_path env ?p \<in> fs_dirs (wt_fs w) then S else {}"
    have "?p \<in> dirs_of [(path, ?t)]" using unshared_dir_items(3) [OF good(1) [unfolded EDirectory]] by (simp only: EDirectory)
    then have step: "target_dir_step env w ps oc ?p r = Inr (True, r)" using dec(1) by (simp add: decides_all_def target_dir_step_decision)
    note kept = kept_dir [OF good(1) [unfolded EDirectory], where P = path, folded EDirectory]
    show ?thesis
    proof (cases "\<not> True \<or> h \<in> S \<and> working_path env ?p \<in> fs_dirs (wt_fs w)")
      case True
      then have "kept_of S [(path, ?t)] = {}" using kept [of S S] by simp
      moreover have "walk_target_loop env w ps S oc ((path, ?t, depth) # stack) (r, seen) = walk_target_loop env w ps S oc stack (r, seen)"
        using True deep(1) step by (simp add: walk_target_loop.simps(2) EDirectory Let_def)
      ultimately show ?thesis
        using "2.hyps"(3) [OF deep(1) EDirectory refl step refl True good(2) deep(2) dec(2)] unfolding items kept_of_simps(3) by simp
    next
      case False
      let ?us = "unshared_children ?S ?p cs"
      let ?cs = "rev (at_depth (depth - 1) (walked_children env w S ?p cs))"
      have cs: "target_items (?cs @ stack) = rev ?us @ target_items stack" by (simp only: map_append target_items_at_depth walked_children_def)
      note here = unshared_dir_items(1,2) [OF good(1) [unfolded EDirectory], where P = path and S = ?S, folded EDirectory]
      have g: "good_stack (target_items (?cs @ stack))"
        unfolding cs using good(2) good_children(2) [OF good(1) [unfolded EDirectory]] by (simp only: good_stack_simps)
      have "int (tree_size c) \<le> depth" if c: "(q, c) \<in> set ?us" for q c
      proof -
        obtain v where v: "v \<in> set cs" "c \<in> set (t_children v)" using c by (auto simp: unshared_children_def split: if_splits)
        have "tree_size c < tree_size v" using member_tree_size [OF v(2)] by (cases v) simp
        moreover have "tree_size v \<le> sum_list (map tree_size cs)" using v(1) by (rule member_tree_size)
        ultimately show ?thesis using deep(3) by simp
      qed
      then have dd: "deep_enough (?cs @ stack)" using deep(2) by (fastforce simp: deep_enough_def at_depth_def walked_children_def)
      have "set (files_of (target_items (?cs @ stack))) = set (files_of ?us) \<union> set (files_of (target_items stack))"
        unfolding cs items_simps(3) set_append using mset_eq_setD [OF files_of_rev] by metis
      then have dc: "decides_all env w ps oc (set (files_of (target_items (?cs @ stack)))) (dirs_of (target_items (?cs @ stack)))"
        unfolding cs items_simps(5,6) using dec set_mset_mono [OF here(1)] here(2) by (simp only: decides_all_def set_mset_mset) blast
      have "kept_of S [(path, ?t)] \<union> kept_of S (target_items stack) \<subseteq> kept_of S (target_items (?cs @ stack))"
        unfolding cs kept_of_simps(3,4) using kept [of ?S S] by (auto split: if_splits)
      moreover have "walk_target_loop env w ps S oc ((path, ?t, depth) # stack) (r, seen) = walk_target_loop env w ps S oc (?cs @ stack) (r, seen)"
        using False deep(1) step by (auto simp add: walk_target_loop.simps(2) EDirectory Let_def)
      ultimately show ?thesis
        using "2.hyps"(4) [OF deep(1) EDirectory refl step refl False g dd dc] unfolding items kept_of_simps(3) by (simp only:) blast
    qed
  qed (use "2.prems"(1) in \<open>auto simp: is_file_def is_dir_def\<close>)
qed

text \<open>Nothing stops the walk over the other commit when each file left out of the target may go.\<close>

lemma from_file_step_total:
  assumes "p \<notin> seen \<longrightarrow> path_exists (working_path env p) (wt_fs w) \<longrightarrow>
    (\<exists>m. is_modified_from_node env (working_path env p) f w = Inr m \<and> (oc = Abort \<longrightarrow> \<not> m))"
  shows "\<exists>c'. from_file_step env w False seen oc p h f c = Inr c' \<and> not_removed c' = not_removed c"
  using assms by (auto simp: from_file_step_def Let_def push_removed_def)

lemma walk_from_total:
  "good_stack (from_items stack) \<Longrightarrow> \<forall>(p, f) \<in> kept_of S (from_items stack). p \<notin> seen \<longrightarrow> path_exists (working_path env p) (wt_fs w) \<longrightarrow>
     (\<exists>m. is_modified_from_node env (working_path env p) f w = Inr m \<and> (oc = Abort \<longrightarrow> \<not> m)) \<Longrightarrow>
   \<exists>c'. walk_from_loop env w False S seen oc stack c = Inr c' \<and> not_removed c' = not_removed c"
proof (induction env w "False" S seen oc stack c rule: walk_from_loop.induct)
  case (1 env w S seen oc acc)
  then show ?case by (simp add: walk_from_loop.simps)
next
  case (2 env w S seen oc d stack acc)
  let ?acc = "if path_exists (working_path env d) (wt_fs w) then push_removed (working_path env d) acc else acc"
  have "\<exists>c'. walk_from_loop env w False S seen oc stack ?acc = Inr c' \<and> not_removed c' = not_removed ?acc"
    using "2.hyps" "2.prems" by simp
  moreover have "not_removed ?acc = not_removed acc" by (simp add: push_removed_def)
  ultimately show ?case by (simp only: walk_from_loop.simps(2))
next
  case (3 env w S seen oc path h n p cs stack acc)
  let ?t = "MTNode h n p cs"
  have good: "wf_tree ?t" "good_stack (from_items stack)" using "3.prems"(1) by auto
  let ?ok = "\<lambda>F. \<forall>(p, f) \<in> F. p \<notin> seen \<longrightarrow> path_exists (working_path env p) (wt_fs w) \<longrightarrow>
     (\<exists>m. is_modified_from_node env (working_path env p) f w = Inr m \<and> (oc = Abort \<longrightarrow> \<not> m))"
  have items: "from_items (Visit path ?t # stack) = [(path, ?t)] @ from_items stack" by simp
  have ok: "?ok (kept_of S [(path, ?t)])" "?ok (kept_of S (from_items stack))"
    using "3.prems"(2) unfolding items kept_of_simps(3) by blast+
  show ?case
  proof (cases n)
    case (EFile f)
    let ?p = "join_str path (fn_name f)"
    have "kept_of S [(path, ?t)] = {(?p, f)}" using good(1) by (auto simp: EFile child_path_def)
    then obtain c1 where c1: "from_file_step env w False seen oc ?p h f acc = Inr c1" "not_removed c1 = not_removed acc"
      using from_file_step_total [of ?p seen env w f oc h acc] ok(1) by auto
    from "3.hyps"(1) [OF EFile c1(1) good(2) ok(2)] c1 show ?thesis by (simp add: walk_from_loop.simps(3) EFile)
  next
    case (EDirectory d)
    let ?p = "join_str path (dn_name d)"
    show ?thesis
    proof (cases "h \<in> S")
      case True
      from "3.hyps"(2) [OF EDirectory True good(2) ok(2)] True show ?thesis by (simp add: walk_from_loop.simps(3) EDirectory)
    next
      case False
      let ?us = "unshared_children S ?p cs"
      let ?stack = "rev (map (\<lambda>(p, t). Visit p t) ?us) @ FinalizeDir ?p # stack"
      have items: "from_items ?stack = rev ?us @ from_items stack" by (simp only: from_items_simps)
      have g: "good_stack (from_items ?stack)"
        unfolding items using good(2) good_children(2) [OF good(1) [unfolded EDirectory]] by (simp only: good_stack_simps)
      have "kept_of S [(path, ?t)] = kept_of S ?us"
        using False kept_inner_node [of h n p cs S "child_path path ?t"] kept_unshared [OF good_children(1) [OF good(1) [unfolded EDirectory]], of S ?p]
        by (simp add: kept_of_def EDirectory may_have_children_def child_path_def del: kept.simps)
      then have "?ok (kept_of S (from_items ?stack))" unfolding items kept_of_simps(3,4) using ok by blast
      from "3.hyps"(3) [OF EDirectory False refl g this] False show ?thesis by (simp add: walk_from_loop.simps(3) EDirectory Let_def)
    qed
  qed (use "3.prems"(1) in \<open>auto simp: is_file_def is_dir_def\<close>)
qed

section \<open>Removing what is left\<close>

lemma remove_candidates:
  "\<exists>w'. sfor remove_candidate xs w = (Inr (), w') \<and> wt_mtime w' = wt_mtime w \<and> fs_dirs (wt_fs w') \<subseteq> fs_dirs (wt_fs w) \<and>
     (\<forall>q. q \<notin> set xs \<longrightarrow> fs_files (wt_fs w') q = fs_files (wt_fs w) q) \<and>
     (\<forall>q. fs_files (wt_fs w) q = None \<or> q \<in> set xs \<and> q \<notin> fs_dirs (wt_fs w) \<longrightarrow> fs_files (wt_fs w') q = None)"
proof (induction xs arbitrary: w)
  case (Cons p xs)
  define w1 where "w1 = snd (remove_candidate p w)"
  have w1: "remove_candidate p w = (Inr (), w1)" "wt_mtime w1 = wt_mtime w" "fs_dirs (wt_fs w1) \<subseteq> fs_dirs (wt_fs w)"
    "\<forall>q. fs_files (wt_fs w) q = None \<or> q = p \<and> q \<notin> fs_dirs (wt_fs w) \<longrightarrow> fs_files (wt_fs w1) q = None"
    unfolding w1_def by (auto simp: remove_candidate_def on_fs_def remove_dir_all_def remove_subtree_def fs_remove_file_def)
  have keep: "\<forall>q. q \<noteq> p \<longrightarrow> fs_files (wt_fs w1) q = fs_files (wt_fs w) q"
  proof (intro allI impI)
    fix q assume "q \<noteq> p"
    show "fs_files (wt_fs w1) q = fs_files (wt_fs w) q"
    proof (cases "fs_files (wt_fs w) q")
      case None
      with w1(4) show ?thesis by simp
    next
      case (Some bs)
      have "keeps_but {p} w w1" using remove_candidate_keeps [of p "{p}"] w1(1) by (auto dest: runs_withinD)
      with Some \<open>q \<noteq> p\<close> show ?thesis by (simp add: keeps_but_def)
    qed
  qed
  obtain w' where w': "sfor remove_candidate xs w1 = (Inr (), w')" "wt_mtime w' = wt_mtime w1" "fs_dirs (wt_fs w') \<subseteq> fs_dirs (wt_fs w1)"
    "\<forall>q. q \<notin> set xs \<longrightarrow> fs_files (wt_fs w') q = fs_files (wt_fs w1) q"
    "\<forall>q. fs_files (wt_fs w1) q = None \<or> q \<in> set xs \<and> q \<notin> fs_dirs (wt_fs w1) \<longrightarrow> fs_files (wt_fs w') q = None"
    using Cons.IH [of w1] by blast
  have run: "sfor remove_candidate (p # xs) w = (Inr (), w')" using w1(1) w'(1) by (simp add: sbind_def)
  have "fs_files (wt_fs w') q = None" if "fs_files (wt_fs w) q = None \<or> q \<in> set (p # xs) \<and> q \<notin> fs_dirs (wt_fs w)" for q
    using that w1(3,4) w'(5) by (metis set_ConsD subsetD)
  then show ?case using run w1(2,3) w'(2-4) keep by (intro exI [of _ w']) auto
qed simp

section \<open>A checkout with nothing in its way\<close>

text \<open>Times that can be compared (none before the epoch, unless times are compared exactly).\<close>

definition comparable :: "work_env \<Rightarrow> work_tree \<Rightarrow> path \<Rightarrow> file_node \<Rightarrow> bool" where
  "comparable env w q f \<longleftrightarrow>
     (\<exists>t. fn_last_modified f = Inr t \<and> (wk_tolerance env = 0 \<or> 0 \<le> fst t \<and> 0 \<le> fst (wt_mtime w q))) \<and>
     (\<exists>x. wk_metadata_hash env (wt_fs w) q = Inr x)"

text \<open>As before a merge, and no file has taken the place of a directory of either commit, nor a directory that of a file.\<close>

definition checkout_ready :: "work_env \<Rightarrow> work_tree \<Rightarrow> merkle_tree_node \<Rightarrow> merkle_tree_node \<Rightarrow> bool" where
  "checkout_ready env w b m \<longleftrightarrow> merge_ready env w b m \<and>
     (\<forall>d \<in> dir_paths b \<union> dir_paths m. fs_files (wt_fs w) (working_path env d) = None) \<and>
     (\<forall>p f. file_map b p = Some f \<or> file_map m p = Some f \<longrightarrow>
        working_path env p \<notin> fs_dirs (wt_fs w) \<and> comparable env w (working_path env p) f)"

lemma match_total:
  assumes "fn_last_modified f = Inr t" "comparable env w q f" shows "\<exists>x. size_and_mtime_match env (n, wt_mtime w q) t k = Inr x"
  using assms by (auto simp: comparable_def size_and_mtime_match_def mtime_matches_def system_time_def)

lemma match_restored:
  assumes "size_and_mtime_match env (length bs, wt_mtime w q) t (fn_num_bytes f) = Inr True" "fs_files (wt_fs w) q = Some bs"
  shows "already_restored env f t q w"
  using assms by (auto simp: already_restored_def metadata_file size_and_mtime_match_def mtime_matches_def system_time_def rbind_eq_Inr
      split: if_splits)

lemma modified_total:
  assumes "comparable env w q f" "q \<notin> fs_dirs (wt_fs w)" shows "\<exists>x. is_modified_from_node env q f w = Inr x"
proof (cases "fs_files (wt_fs w) q")
  case None
  then show ?thesis using assms(2) by (intro exI [of _ False]) (simp add: is_modified_from_node_def path_exists_def)
next
  case (Some bs)
  note meta = metadata_file [OF Some, of env]
  obtain t x where t: "fn_last_modified f = Inr t" "wk_metadata_hash env (wt_fs w) q = Inr x" using assms(1) by (auto simp: comparable_def)
  have "\<exists>y. mtime_matches env (wt_mtime w q) t = Inr y"
    using t assms(1) by (auto simp: comparable_def mtime_matches_def system_time_def)
  then obtain y where "mtime_matches env (wt_mtime w q) t = Inr y" ..
  with Some t meta show ?thesis
    by (cases "fn_metadata_hash f"; cases x)
      (auto simp: is_modified_from_node_def path_exists_def classify_modified_def u128_hash_file_contents_def)
qed

lemma clean_unmodified:
  assumes "stat_matches env w p f" shows "is_modified_from_node env (working_path env p) f w = Inr False"
proof -
  obtain t bs where t: "fn_last_modified f = Inr t" "fs_files (wt_fs w) (working_path env p) = Some bs"
    "size_and_mtime_match env (length bs, wt_mtime w (working_path env p)) t (fn_num_bytes f) = Inr True"
    using assms by (auto simp: stat_matches_def)
  then have "mtime_matches env (wt_mtime w (working_path env p)) t = Inr True" "length bs = unat (fn_num_bytes f)"
    by (auto simp: size_and_mtime_match_def rbind_eq_Inr)
  with t(1,2) metadata_file [OF t(2), of env] show ?thesis
    by (simp add: is_modified_from_node_def path_exists_def classify_modified_def)
qed

text \<open>What is decided for a file of the target.\<close>

lemma target_decisions:
  assumes wf: "wf_tree b" "wf_tree m" and fixed: "hash_fixes_files {b, m}" and ready: "checkout_ready env w b m"
    and start: "oc = Overwrite \<or> clean_checkout env w b m"
    and ps: "map_of ps = map_option partial_of \<circ> map_of (kept (ff_shared b m) b [])" and m: "file_map m p = Some f"
  shows "target_decision env w ps oc (p, f) = Inr (Some True) \<or>
    (target_decision env w ps oc (p, f) = Inr None \<and> (has_content env w p f \<or> (\<exists>g. file_map b p = Some g \<and> fn_hash g = fn_hash f)))"
proof -
  let ?q = "working_path env p" and ?J = "map_of (kept (ff_shared b m) b [])"
  note sides = ff_sides [OF fixed wf]
  have here: "?q \<notin> fs_dirs (wt_fs w)" "comparable env w ?q f" "stat_trusted env w p f"
    using ready m by (auto simp: checkout_ready_def merge_ready_def)
  then obtain t where t: "fn_last_modified f = Inr t" by (auto simp: comparable_def)
  have J: "file_map b p = Some g \<and> comparable env w ?q g" if "?J p = Some g" for g
    using sides(2) [OF that] ready by (simp add: checkout_ready_def)
  show ?thesis
  proof (cases "fs_files (wt_fs w) ?q")
    case None
    then have gone: "\<not> path_exists ?q (wt_fs w)" using here(1) by (simp add: path_exists_def)
    have "oc = Overwrite \<or> ?J p = None"
    proof (cases "?J p")
      case (Some g)
      then have "\<not> has_content env w p g" "file_map b p = Some g" using None J by (simp_all add: has_content_def)
      with start show ?thesis by (auto simp: clean_checkout_def)
    qed simp
    with gone ps J show ?thesis
      by (cases "?J p") (auto simp: target_decision_def target_file_step_def Let_def target_steps comparable_def partial_of_timed)
  next
    case (Some bs)
    note meta = metadata_file [OF Some, of env]
    have there: "path_exists ?q (wt_fs w)" using Some by (simp add: path_exists_def)
    obtain same where same: "size_and_mtime_match env (length bs, wt_mtime w ?q) t (fn_num_bytes f) = Inr same"
      using match_total [OF t here(2)] by blast
    show ?thesis
    proof (cases "same \<or> wk_hash env bs = fn_hash f")
      case True
      have c: "has_content env w p f"
      proof (cases same)
        case True
        with same have "already_restored env f t ?q w" using Some by (intro match_restored) simp_all
        then show ?thesis using here(3) t Some by (auto simp: stat_trusted_def has_content_def)
      qed (use True Some in \<open>simp add: has_content_def\<close>)
      show ?thesis
      proof (cases "?J p")
        case None
        then show ?thesis using there t same meta True Some ps c
          by (auto simp: target_decision_def target_file_step_def Let_def target_steps get_hash_given_metadata_def)
      next
        case j: (Some g)
        then obtain t' where t': "fn_last_modified g = Inr t'" using J by (auto simp: comparable_def)
        obtain y where "size_and_mtime_match env (length bs, wt_mtime w ?q) t' (fn_num_bytes g) = Inr y"
          using match_total [OF t'] J [OF j] by blast
        then show ?thesis using there t same meta True Some ps c j partial_of_timed [OF t']
          by (auto simp: target_decision_def target_file_step_def Let_def target_steps get_hash_given_metadata_def)
      qed
    next
      case False
      show ?thesis
      proof (cases "?J p")
        case None
        have "oc = Overwrite"
        proof (rule ccontr)
          assume "oc \<noteq> Overwrite"
          then have cl: "clean_checkout env w b m" using start by simp
          then obtain g where g: "file_map b p = Some g" using m there by (auto simp: clean_checkout_def)
          then have "file_map m p = Some g" using sides(4) None by blast
          moreover have "has_content env w p g" using cl g by (simp add: clean_checkout_def)
          ultimately show False using m Some False by (simp add: has_content_def)
        qed
        then show ?thesis using there t same meta False Some ps None
          by (auto simp: target_decision_def target_file_step_def Let_def target_steps get_hash_given_metadata_def)
      next
        case j: (Some g)
        then obtain t' where t': "fn_last_modified g = Inr t'" using J by (auto simp: comparable_def)
        obtain y where y: "size_and_mtime_match env (length bs, wt_mtime w ?q) t' (fn_num_bytes g) = Inr y"
          using match_total [OF t'] J [OF j] by blast
        have "has_content env w p g \<longleftrightarrow> wk_hash env bs = fn_hash g" using Some by (simp add: has_content_def)
        with start J [OF j] have "oc = Overwrite \<or> wk_hash env bs = fn_hash g" by (auto simp: clean_checkout_def)
        then show ?thesis using there t same meta False Some ps j y partial_of_timed [OF t']
          by (auto simp: target_decision_def target_file_step_def Let_def target_steps get_hash_given_metadata_def)
      qed
    qed
  qed
qed

lemma distinct_submset: "mset xs \<subseteq># mset ys \<Longrightarrow> distinct ys \<Longrightarrow> distinct xs"
proof -
  assume xs: "mset xs \<subseteq># mset ys" and ys: "distinct ys"
  have "count (mset xs) a = (if a \<in> set xs then 1 else 0)" for a
  proof (cases "a \<in> set xs")
    case True
    then have "0 < count (mset xs) a" by simp
    moreover have "count (mset xs) a \<le> count (mset ys) a" using xs by (simp add: subseteq_mset_def)
    moreover have "count (mset ys) a \<le> 1" using ys by (simp add: distinct_count_atmost_1)
    ultimately show ?thesis unfolding if_P [OF True] by linarith
  qed (simp add: count_eq_zero_iff)
  then show ?thesis unfolding distinct_count_atmost_1 by blast
qed

text \<open>The target's walk: what is to be restored, and what else already is as it has to be.\<close>

lemma target_walk:
  assumes wf: "wf_tree b" "wf_tree m" and fixed: "hash_fixes_files {b, m}" and ready: "checkout_ready env w b m"
    and start: "oc = Overwrite \<or> clean_checkout env w b m" and depth: "int (tree_size m) \<le> i32_max"
    and ps: "map_of ps = map_option partial_of \<circ> map_of (kept (ff_shared b m) b [])"
    and m: "m = MTNode h (ECommit c) pm [r]" and top: "t_hash m \<notin> ff_shared b m"
  obtains x seen where "walk_target_tree env w (MTNode h (ECommit c) p [r]) [] ps (ff_shared b m) i32_max oc = Inr (x, seen)"
    and "not_overwritten x = []" "dir_replacements x = []" "distinct (map fst (files_to_restore x))"
    and "\<forall>(p, f) \<in> set (files_to_restore x). file_map m p = Some f"
    and "\<And>p f. file_map m p = Some f \<Longrightarrow> (p, f) \<notin> set (files_to_restore x) \<Longrightarrow>
      has_content env w p f \<or> (\<exists>g. file_map b p = Some g \<and> fn_hash g = fn_hash f)"
    and "seen \<subseteq> dom (file_map m)" "dom (map_of (kept (ff_shared b m) m [])) \<subseteq> seen"
proof -
  let ?S = "ff_shared b m"
  have "node_type (t_node m) = TCommit" by (simp add: m)
  from commit_root [OF wf(2) this, of p] obtain h' c' p' r' where r': "m = MTNode h' (ECommit c') p' [r']" "wf_tree r'" "is_dir r'" "child_path [] r' = []"
    "get_root_dir (MTNode h' (ECommit c') p [r']) = Inr r'" "files_of [([], r')] = file_entries m []" "dirs_of [([], r')] = dir_paths m"
    by metis
  have e: "h' = h" "c' = c" "r' = r" using r'(1) m by simp_all
  note r = r'(2-) [unfolded e]
  have items: "target_items [([], r, i32_max - 1)] = [([], r)]" by simp
  note decisions = target_decisions [OF wf fixed ready start ps]
  have files: "(q, f) \<in> set (file_entries m []) \<longleftrightarrow> file_map m q = Some f" for q f using file_map_iff [OF wf(2)] by blast
  have good: "good_stack (target_items [([], r, i32_max - 1)])" unfolding items using r(1,2) by simp
  have deep: "deep_enough [([], r, i32_max - 1)]" using depth by (simp add: deep_enough_def m)
  have "target_decision env w ps oc x = Inr None \<or> target_decision env w ps oc x = Inr (Some True)" if "x \<in> set (file_entries m [])" for x
    using decisions [of "fst x" "snd x"] files [of "fst x" "snd x"] that by auto
  moreover have dirs: "dir_decision env w ps oc d = Inr (True, [])" if "d \<in> dir_paths m" for d
    using ready that by (auto simp: checkout_ready_def dir_decision_def target_dir_step_def Let_def path_exists_def target_steps)
  ultimately have dec: "decides_all env w ps oc (set (files_of (target_items [([], r, i32_max - 1)]))) (dirs_of (target_items [([], r, i32_max - 1)]))"
    unfolding items r(5,6) decides_all_def by blast
  obtain x seen where walk: "walk_target_loop env w ps ?S oc [([], r, i32_max - 1)] (checkout_result_new, {}) = Inr (x, seen)"
    and x: "not_overwritten x = not_overwritten checkout_result_new"
      "\<forall>y \<in> kept_of ?S [([], r)]. fst y \<in> seen \<and> (target_decision env w ps oc y = Inr (Some True) \<longrightarrow> y \<in> set (files_to_restore x))"
    using walk_target_total [OF good deep dec, of ?S checkout_result_new "{}"] unfolding items by metis
  have run: "walk_target_tree env w (MTNode h (ECommit c) p [r]) [] ps ?S i32_max oc = Inr (x, seen)"
    using walk r(4) by (simp add: walk_target_tree_def walk_target_loop.simps(2) i32_max_def)
  obtain fs ds where fs: "files_to_restore x = fs" "mset fs \<subseteq># mset (file_entries m [])" and
    ds: "dir_replacements x = ds" "\<forall>y \<in> set ds. \<exists>d \<in> dir_paths m. \<exists>b es. dir_decision env w ps oc d = Inr (b, es) \<and> y \<in> set es"
    and seen: "seen \<subseteq> fst ` set (file_entries m [])"
    using walk_target_commit(2) [OF m wf(2) run] by (auto simp: found_def checkout_result_new_def)
  have K: "kept_of ?S [([], r)] = set (kept ?S m [])"
  proof -
    have "may_have_children m" "t_hash m = h" by (simp_all add: m may_have_children_def)
    then have "kept ?S m [] = kept ?S r []"
      using kept_inner_node [of h "ECommit c" pm "[r]" ?S "[]"] top r(3) by (simp add: m del: kept.simps)
    then show ?thesis using r(3) by simp
  qed
  have kd: "distinct (map fst (kept ?S m []))" using wf(2) by (rule distinct_kept)
  have "distinct (map fst fs)"
    using distinct_submset [OF _ distinct_file_entries [OF wf(2)], of "map fst fs" "[]"] image_mset_subseteq_mono [OF fs(2), of fst] by simp
  moreover have "ds = []" using ds(2) dirs by (cases ds) force+
  moreover have "has_content env w q f \<or> (\<exists>g. file_map b q = Some g \<and> fn_hash g = fn_hash f)"
    if q: "file_map m q = Some f" "(q, f) \<notin> set fs" for q f
  proof (cases "map_of (kept ?S m []) q")
    case None
    then show ?thesis using ff_sides(3) [OF fixed wf q(1)] by blast
  next
    case (Some g)
    then have "g = f" using kept_file [OF wf(2)] q(1) by force
    then have "(q, f) \<in> kept_of ?S [([], r)]" using Some unfolding K by (auto dest: map_of_SomeD)
    then have "target_decision env w ps oc (q, f) \<noteq> Inr (Some True)" using x(2) q(2) fs(1) by blast
    with decisions [OF q(1)] show ?thesis by blast
  qed
  moreover have "dom (map_of (kept ?S m [])) \<subseteq> seen" using x(2) unfolding K by (auto simp: dom_map_of_conv_image_fst)
  moreover have "seen \<subseteq> dom (file_map m)" using seen files by fastforce
  moreover have "\<forall>(q, f) \<in> set fs. file_map m q = Some f" using mset_subset_eqD [OF fs(2)] files by auto
  ultimately show thesis using that run fs(1) ds(1) x(1) by (simp add: checkout_result_new_def)
qed

text \<open>The other commit's walk: the files the target does not have, and directories.\<close>

lemma from_walk:
  assumes wf: "wf_tree b" "wf_tree m" and fixed: "hash_fixes_files {b, m}" and ap: "apart b m" and ready: "checkout_ready env w b m"
    and start: "oc = Overwrite \<or> clean_checkout env w b m"
    and B: "prune (Some (unique_of None (-1) 0 m)) (-1) 0 b = MTNode h (ECommit c) (t_parent_id b) [r]"
    and seen: "seen \<subseteq> dom (file_map m)" "dom (map_of (kept (ff_shared b m) m [])) \<subseteq> seen"
  obtains x where "walk_from_tree env w False (MTNode h (ECommit c) p [r]) (ff_shared b m) seen oc = Inr x" "not_removed x = []"
    and "\<And>y. y \<in> set (paths_to_remove x) \<Longrightarrow> (\<exists>q. y = working_path env q \<and> file_map b q \<noteq> None \<and> file_map m q = None) \<or> y \<in> working_path env ` dir_paths b"
    and "\<And>q. file_map b q \<noteq> None \<Longrightarrow> file_map m q = None \<Longrightarrow> path_exists (working_path env q) (wt_fs w) \<Longrightarrow> working_path env q \<in> set (paths_to_remove x)"
proof -
  let ?S = "ff_shared b m" and ?B = "unique_of None (-1) 0 m"
  let ?J = "map_of (kept ?S b [])"
  note sides = ff_sides [OF fixed wf]
  have nb: "t_hash b \<notin> ?S" "t_hash b \<notin> ?B"
    using ff_shared_places(2) [of "t_hash b" b m] unique_inner_at [of "t_hash b" None 0 m] ap unfolding apart_def by blast+
  then have "wf_tree (MTNode h (ECommit c) (t_parent_id b) [r])"
    unfolding B [symmetric] using wf(1) by (intro wf_prune) (simp_all add: in_base_def)
  then have wfr: "wf_tree (MTNode h (ECommit c) q [r])" for q by simp
  have root: "wf_tree r" "is_dir r" "child_path [] r = []" "get_root_dir (MTNode h (ECommit c) p [r]) = Inr r"
    using commit_root [OF wfr [of p]] by auto
  have sel: "t_hash b = h" using B by (metis merkle_tree_node.sel(1) prune_sel(1))
  have "kept ?S (MTNode h (ECommit c) (t_parent_id b) [r]) [] = kept ?S r []"
    using kept_inner_node [of h "ECommit c" "t_parent_id b" "[r]" ?S "[]"] nb(1) root(3) by (simp add: sel may_have_children_def del: kept.simps)
  then have kb: "kept ?S r [] = kept ?S b []"
    using kept_prune [OF wf(1), of "Some ?B" 0 ?S "[]"] by (simp add: ff_shared_def B)
  have dirs: "d \<in> dir_paths b" if "(d, x) \<in> set (tree_entries r [])" "is_dir x" for d x
  proof -
    have "(d, x) \<in> set (tree_entries (MTNode h (ECommit c) (t_parent_id b) [r]) [])" using that(1) root(3) by simp
    from prune_entries [OF this [folded B]] that(2) show ?thesis unfolding dir_paths_def is_dir_def by fastforce
  qed
  have J: "(q, f) \<in> set (kept ?S b []) \<longleftrightarrow> ?J q = Some f" for q f using distinct_kept [OF wf(1)] by (rule map_of_eq_Some_iff [symmetric])
  have only: "file_map b q = Some f \<and> file_map m q = None" if "(q, f) \<in> set (kept ?S r [])" "q \<notin> seen" for q f
  proof -
    have j: "?J q = Some f" using that(1) J kb by simp
    have k: "map_of (kept ?S m []) q = None" using that(2) seen(2) by (auto simp: dom_def)
    have "file_map m q \<noteq> Some g" for g using sides(3) [of q g] k j by auto
    with sides(2) [OF j] show ?thesis by (cases "file_map m q") auto
  qed
  have "\<forall>(q, f) \<in> kept_of ?S (from_items [Visit [] r]). q \<notin> seen \<longrightarrow> path_exists (working_path env q) (wt_fs w) \<longrightarrow>
     (\<exists>x. is_modified_from_node env (working_path env q) f w = Inr x \<and> (oc = Abort \<longrightarrow> \<not> x))"
  proof (clarify)
    fix q f assume q: "(q, f) \<in> kept_of ?S (from_items [Visit [] r])" "q \<notin> seen"
    have f: "file_map b q = Some f" using only q root(3) by simp
    show "\<exists>x. is_modified_from_node env (working_path env q) f w = Inr x \<and> (oc = Abort \<longrightarrow> \<not> x)"
    proof (cases oc)
      case Abort
      then have "stat_matches env w q f" using start f by (simp add: clean_checkout_def)
      then show ?thesis using clean_unmodified by blast
    next
      case Overwrite
      have "comparable env w (working_path env q) f" "working_path env q \<notin> fs_dirs (wt_fs w)"
        using ready f by (simp_all add: checkout_ready_def)
      with Overwrite modified_total show ?thesis by blast
    qed
  qed
  moreover have "good_stack (from_items [Visit [] r])" using root by simp
  ultimately obtain x where walk: "walk_from_loop env w False ?S seen oc [Visit [] r] cleanup_candidates_default = Inr x"
    "not_removed x = not_removed cleanup_candidates_default" using walk_from_total by blast
  have run: "walk_from_tree env w False (MTNode h (ECommit c) p [r]) ?S seen oc = Inr x"
    using walk(1) root(4) by (simp add: walk_from_tree_def walk_from_loop.simps(3))
  have sw: "\<forall>y \<in> set (paths_to_remove x). removable env w seen oc (set (kept ?S r [])) {d. \<exists>x. (d, x) \<in> set (tree_entries r []) \<and> is_dir x} y"
    "\<forall>(q, f) \<in> set (kept ?S r []). q \<notin> seen \<longrightarrow> path_exists (working_path env q) (wt_fs w) \<longrightarrow> working_path env q \<in> set (paths_to_remove x)"
    using walk_from_commit [OF wfr run] walk(2) by (auto simp: swept_def cleanup_candidates_default_def)
  show thesis
  proof (rule that [OF run])
    show "not_removed x = []" using walk(2) by (simp add: cleanup_candidates_default_def)
    fix y assume "y \<in> set (paths_to_remove x)"
    with sw(1) have "removable env w seen oc (set (kept ?S r [])) {d. \<exists>x. (d, x) \<in> set (tree_entries r []) \<and> is_dir x} y" ..
    then show "(\<exists>q. y = working_path env q \<and> file_map b q \<noteq> None \<and> file_map m q = None) \<or> y \<in> working_path env ` dir_paths b"
      unfolding removable_def using only dirs by fastforce
  next
    fix q assume q: "file_map b q \<noteq> None" "file_map m q = None" "path_exists (working_path env q) (wt_fs w)"
    then obtain f where f: "file_map b q = Some f" by blast
    have "?J q \<noteq> None" using sides(4) [OF f] q(2) by auto
    then have "?J q = Some f" using sides(2) f by fastforce
    then have "(q, f) \<in> set (kept ?S r [])" using J kb by simp
    with sw(2) q seen(1) show "working_path env q \<in> set (paths_to_remove x)" by blast
  qed
qed

text \<open>How the files stand after a checkout.\<close>

definition checked_out :: "work_env \<Rightarrow> merkle_tree_node \<Rightarrow> merkle_tree_node \<Rightarrow> work_tree \<Rightarrow> work_tree \<Rightarrow> bool" where
  "checked_out env b m w w' \<longleftrightarrow>
     (\<forall>p f. file_map m p = Some f \<longrightarrow> has_content env w' p f \<or>
       (\<exists>g. file_map b p = Some g \<and> fn_hash g = fn_hash f \<and>
            fs_files (wt_fs w') (working_path env p) = fs_files (wt_fs w) (working_path env p))) \<and>
     (\<forall>p. file_map b p \<noteq> None \<longrightarrow> file_map m p = None \<longrightarrow> fs_files (wt_fs w') (working_path env p) = None) \<and>
     (\<forall>q. q \<notin> working_path env ` (dom (file_map b) \<union> dom (file_map m)) \<longrightarrow> fs_files (wt_fs w') q = fs_files (wt_fs w) q)"

definition dirs_within :: "work_env \<Rightarrow> path set \<Rightarrow> work_tree \<Rightarrow> work_tree \<Rightarrow> bool" where
  "dirs_within env P w w' \<longleftrightarrow> fs_dirs (wt_fs w') \<subseteq> fs_dirs (wt_fs w) \<union> (\<Union>p \<in> P. set (path_ancestors (wk_repo env @ butlast p)))"

lemma restore_after_removal:
  assumes ready: "checkout_ready env w b m" and wf: "wf_tree b" "node_type (t_node b) = TCommit" "wf_tree m" "node_type (t_node m) = TCommit"
    and w1: "\<And>q. fs_files (wt_fs w1) q = (if q \<in> working_path env ` {p. file_map b p \<noteq> None \<and> file_map m p = None} then None else fs_files (wt_fs w) q)"
      "fs_dirs (wt_fs w1) \<subseteq> fs_dirs (wt_fs w)" "wt_mtime w1 = wt_mtime w"
    and m: "file_map m p = Some f"
  shows "can_restore env w1 (p, f)" and "\<exists>bs. restored_content env f p w1 = Some bs \<and> wk_hash env bs = fn_hash f"
    and "fs_files (wt_fs w1) (working_path env p) = fs_files (wt_fs w) (working_path env p)"
proof -
  have mr: "merge_ready env w b m" using ready by (simp add: checkout_ready_def)
  then have can: "can_restore env w (p, f)" and st: "stat_trusted env w p f" "\<forall>bs. fs_files (wt_fs w) (version_at env (fn_hash f)) = Some bs \<longrightarrow> wk_hash env bs = fn_hash f"
    using m by (auto simp: merge_ready_def)
  have named: "name_path q" if "file_map b q \<noteq> None \<or> file_map m q \<noteq> None" for q
    using that file_map_named [OF wf(1,2)] file_map_named [OF wf(3,4)] by blast
  have v: "fs_files (wt_fs w1) (version_at env h) = fs_files (wt_fs w) (version_at env h)" for h
    using mr by (auto simp: w1(1) merge_ready_def)
  have none: "fs_files (wt_fs w) a = None \<Longrightarrow> fs_files (wt_fs w1) a = None" for a by (simp add: w1(1))
  show same: "fs_files (wt_fs w1) (working_path env p) = fs_files (wt_fs w) (working_path env p)"
  proof -
    have "working_path env p \<notin> working_path env ` {p. file_map b p \<noteq> None \<and> file_map m p = None}"
    proof
      assume "working_path env p \<in> working_path env ` {p. file_map b p \<noteq> None \<and> file_map m p = None}"
      then obtain q where q: "working_path env p = working_path env q" "file_map b q \<noteq> None" "file_map m q = None" by blast
      have "p = q" using working_path_inj [OF named named, of p q] q m by simp
      with q(3) m show False by simp
    qed
    then show ?thesis by (simp add: w1(1))
  qed
  have "clear_way env (wt_fs w1) p" using can none w1(2) by (auto simp: can_restore_def clear_way_def)
  with can v show "can_restore env w1 (p, f)" by (simp add: can_restore_def)
  have nd: "working_path env p \<notin> fs_dirs (wt_fs w)" using ready m by (simp add: checkout_ready_def)
  then have "already_restored env f t (working_path env p) w1 = already_restored env f t (working_path env p) w" for t
    using same w1(2,3) by (intro already_restored_same) auto
  then have "restored_content env f p w1 = restored_content env f p w" using same v by (simp only: restored_content_def)
  with restored_has_content [OF can st] show "\<exists>bs. restored_content env f p w1 = Some bs \<and> wk_hash env bs = fn_hash f" by simp
qed

lemma restored_checkout:
  assumes ready: "checkout_ready env w b m" and wf: "wf_tree b" "node_type (t_node b) = TCommit" "wf_tree m" "node_type (t_node m) = TCommit"
    and w1: "\<And>q. fs_files (wt_fs w1) q = (if q \<in> working_path env ` {p. file_map b p \<noteq> None \<and> file_map m p = None} then None else fs_files (wt_fs w) q)"
      "fs_dirs (wt_fs w1) \<subseteq> fs_dirs (wt_fs w)" "wt_mtime w1 = wt_mtime w"
    and rs: "distinct (map fst rs)" "\<forall>(p, f) \<in> set rs. file_map m p = Some f"
      "\<And>p f. file_map m p = Some f \<Longrightarrow> (p, f) \<notin> set rs \<Longrightarrow> has_content env w p f \<or> (\<exists>g. file_map b p = Some g \<and> fn_hash g = fn_hash f)"
  shows "\<exists>w'. sfor (restore_entry env) rs w1 = (Inr (), w') \<and> checked_out env b m w w' \<and> dirs_within env (dom (file_map m)) w w'"
proof -
  note after = restore_after_removal [OF ready wf w1]
  have mr: "merge_ready env w b m" using ready by (simp add: checkout_ready_def)
  have named: "name_path q" if "file_map b q \<noteq> None \<or> file_map m q \<noteq> None" for q
    using that file_map_named [OF wf(1,2)] file_map_named [OF wf(3,4)] by blast
  have sub: "fst ` set rs \<subseteq> dom (file_map m)" using rs(2) by force
  have pf: "prefix_free (fst ` set rs)" by (rule prefix_free_subset [OF file_paths_prefix_free [OF wf(3,4)] sub])
  have can: "\<forall>x \<in> set rs. can_restore env w1 x" using rs(2) after(1) by fastforce
  have "wk_repo env \<noteq> []" "\<forall>h. version_at env h \<notin> working_path env ` fst ` set rs"
    using mr sub by (simp add: merge_ready_def, fastforce simp: merge_ready_def)
  note all = restore_all [OF this(1) pf rs(1) can this(2), folded restore_entry_def]
  then obtain w' where w: "sfor (restore_entry env) rs w1 = (Inr (), w') \<and> work_but (working_path env ` fst ` set rs) w1 w' \<and>
    fs_dirs (wt_fs w1) \<subseteq> fs_dirs (wt_fs w') \<and>
    fs_dirs (wt_fs w') \<subseteq> fs_dirs (wt_fs w1) \<union> (\<Union>p \<in> fst ` set rs. set (path_ancestors (wk_repo env @ butlast p))) \<and>
    (\<forall>(p, f) \<in> set rs. fs_files (wt_fs w') (working_path env p) = restored_content env f p w1)" ..
  have w': "sfor (restore_entry env) rs w1 = (Inr (), w')" "work_but (working_path env ` fst ` set rs) w1 w'"
    "\<forall>(p, f) \<in> set rs. fs_files (wt_fs w') (working_path env p) = restored_content env f p w1"
    "fs_dirs (wt_fs w') \<subseteq> fs_dirs (wt_fs w1) \<union> (\<Union>p \<in> fst ` set rs. set (path_ancestors (wk_repo env @ butlast p)))"
    by (rule w [THEN conjunct1], rule w [THEN conjunct2, THEN conjunct1],
      rule w [THEN conjunct2, THEN conjunct2, THEN conjunct2, THEN conjunct2],
      rule w [THEN conjunct2, THEN conjunct2, THEN conjunct2, THEN conjunct1])
  have dirs: "dirs_within env (dom (file_map m)) w w'"
    unfolding dirs_within_def by (rule subset_trans [OF w'(4) Un_mono [OF w1(2) UN_mono [OF sub subset_refl]]])
  have outside: "working_path env p \<notin> working_path env ` fst ` set rs" if "file_map b p \<noteq> None \<or> file_map m p \<noteq> None" "p \<notin> fst ` set rs" for p
  proof
    assume "working_path env p \<in> working_path env ` fst ` set rs"
    then obtain q where q: "q \<in> fst ` set rs" "working_path env p = working_path env q" by blast
    then have "p = q" using named [OF that(1)] named [of q] sub working_path_inj by blast
    with q(1) that(2) show False by simp
  qed
  have "has_content env w' p f \<or> (\<exists>g. file_map b p = Some g \<and> fn_hash g = fn_hash f \<and>
      fs_files (wt_fs w') (working_path env p) = fs_files (wt_fs w) (working_path env p))" if m: "file_map m p = Some f" for p f
  proof (cases "(p, f) \<in> set rs")
    case True
    with w'(3) after(2) [OF m] show ?thesis by (auto simp: has_content_def)
  next
    case False
    then have "p \<notin> fst ` set rs" using rs(2) m by force
    then have "fs_files (wt_fs w') (working_path env p) = fs_files (wt_fs w) (working_path env p)"
      using outside [of p] m w'(2) after(3) [OF m] by (simp add: work_but_def)
    with rs(3) [OF m False] show ?thesis by (auto simp: has_content_def)
  qed
  moreover have "fs_files (wt_fs w') (working_path env p) = None" if p: "file_map b p \<noteq> None" "file_map m p = None" for p
  proof -
    have "fs_files (wt_fs w1) (working_path env p) = None" using p by (auto simp: w1(1))
    moreover have "p \<notin> fst ` set rs" using p(2) sub by blast
    ultimately show ?thesis using outside [of p] p(1) w'(2) by (simp add: work_but_def)
  qed
  moreover have "fs_files (wt_fs w') q = fs_files (wt_fs w) q" if q: "q \<notin> working_path env ` (dom (file_map b) \<union> dom (file_map m))" for q
  proof -
    have "q \<notin> working_path env ` fst ` set rs" "q \<notin> working_path env ` {p. file_map b p \<noteq> None \<and> file_map m p = None}"
      using q sub by blast+
    then show ?thesis using w'(2) by (simp add: work_but_def w1(1))
  qed
  ultimately show ?thesis using w'(1) dirs by (intro exI [of _ w']) (simp add: checked_out_def)
qed

lemma checkout_completes:
  assumes trees: "commit_tree hash128 st fuel fc b" "commit_tree hash128 st fuel tc m" "apart b m" and fixed: "hash_fixes_files {b, m}"
    and ready: "checkout_ready env w b m" and start: "oc = Overwrite \<or> clean_checkout env w b m" and depth: "int (tree_size m) \<le> i32_max"
  shows "\<exists>w'. set_working_repo_to_commit env False st fuel tc (Some fc) oc w = (Inr (), w') \<and> checked_out env b m w w' \<and>
    dirs_within env (dom (file_map m)) w w'"
proof -
  have wf: "wf_tree b" "node_type (t_node b) = TCommit" "wf_tree m" "node_type (t_node m) = TCommit"
    using trees(1,2) by (simp_all add: commit_tree_def)
  have timed: "\<forall>f \<in> snd ` set (file_entries b []). timed f"
    using ready file_map_iff [OF wf(1)] by (force simp: checkout_ready_def comparable_def timed_def)
  have top: "t_hash m \<notin> ff_shared b m" using ff_shared_places(1) [of "t_hash m" b m] trees(3) unfolding apart_def by blast
  show ?thesis
  proof (rule set_working_run [OF trees timed])
    fix ps h c p r h' c' p' r' pm
    let ?S = "ff_shared b m"
    assume run: "\<And>env remote oc. set_working_repo_to_commit env remote st fuel tc (Some fc) oc =
        checkout_trees env remote oc (restore_entry env) (MTNode h (ECommit c) p [r]) [] i32_max (Some (MTNode h' (ECommit c') p' [r'])) ?S ps"
      and ps: "map_of ps = map_option partial_of \<circ> map_of (kept ?S b [])"
      and m: "m = MTNode h (ECommit c) pm [r]" and B: "prune (Some (unique_of None (-1) 0 m)) (-1) 0 b = MTNode h' (ECommit c') (t_parent_id b) [r']"
    obtain x seen where tw: "walk_target_tree env w (MTNode h (ECommit c) p [r]) [] ps ?S i32_max oc = Inr (x, seen)"
      "not_overwritten x = []" "dir_replacements x = []" and rs: "distinct (map fst (files_to_restore x))"
      "\<forall>(p, f) \<in> set (files_to_restore x). file_map m p = Some f"
      "\<And>p f. file_map m p = Some f \<Longrightarrow> (p, f) \<notin> set (files_to_restore x) \<Longrightarrow> has_content env w p f \<or> (\<exists>g. file_map b p = Some g \<and> fn_hash g = fn_hash f)"
      and seen: "seen \<subseteq> dom (file_map m)" "dom (map_of (kept ?S m [])) \<subseteq> seen"
      by (rule target_walk [OF wf(1,3) fixed ready start depth ps m top]) blast
    obtain y where fw: "walk_from_tree env w False (MTNode h' (ECommit c') p' [r']) ?S seen oc = Inr y" "not_removed y = []"
      "\<And>q. q \<in> set (paths_to_remove y) \<Longrightarrow> (\<exists>p. q = working_path env p \<and> file_map b p \<noteq> None \<and> file_map m p = None) \<or> q \<in> working_path env ` dir_paths b"
      "\<And>p. file_map b p \<noteq> None \<Longrightarrow> file_map m p = None \<Longrightarrow> path_exists (working_path env p) (wt_fs w) \<Longrightarrow> working_path env p \<in> set (paths_to_remove y)"
      by (rule from_walk [OF wf(1,3) fixed trees(3) ready start B seen]) blast
    obtain w1 where w1: "sfor remove_candidate (paths_to_remove y) w = (Inr (), w1)" "wt_mtime w1 = wt_mtime w" "fs_dirs (wt_fs w1) \<subseteq> fs_dirs (wt_fs w)"
      "\<forall>q. q \<notin> set (paths_to_remove y) \<longrightarrow> fs_files (wt_fs w1) q = fs_files (wt_fs w) q"
      "\<forall>q. fs_files (wt_fs w) q = None \<or> q \<in> set (paths_to_remove y) \<and> q \<notin> fs_dirs (wt_fs w) \<longrightarrow> fs_files (wt_fs w1) q = None"
      using remove_candidates by blast
    have files: "fs_files (wt_fs w1) q = (if q \<in> working_path env ` {p. file_map b p \<noteq> None \<and> file_map m p = None} then None else fs_files (wt_fs w) q)" for q
    proof (cases "fs_files (wt_fs w) q")
      case None
      then show ?thesis using w1(5) by simp
    next
      case (Some bs)
      show ?thesis
      proof (cases "q \<in> working_path env ` {p. file_map b p \<noteq> None \<and> file_map m p = None}")
        case True
        then obtain p where p: "q = working_path env p" "file_map b p \<noteq> None" "file_map m p = None" by blast
        then have "q \<in> set (paths_to_remove y)" using fw(4) Some by (simp add: path_exists_def)
        moreover have "q \<notin> fs_dirs (wt_fs w)" using ready p by (auto simp: checkout_ready_def)
        ultimately show ?thesis using True w1(5) by simp
      next
        case False
        have "q \<notin> working_path env ` dir_paths b" using ready Some by (auto simp: checkout_ready_def)
        then have "q \<notin> set (paths_to_remove y)" using fw(3) False by blast
        then show ?thesis using w1(4) False by simp
      qed
    qed
    obtain w' where w': "sfor (restore_entry env) (files_to_restore x) w1 = (Inr (), w')" "checked_out env b m w w'" "dirs_within env (dom (file_map m)) w w'"
      using restored_checkout [OF ready wf files w1(3,2) rs] by blast
    have "cleanup_removed_files env False (MTNode h' (ECommit c') p' [r']) ?S seen oc w = (Inr (), w1)"
      using fw(1,2) w1(1) by (simp add: cleanup_removed_files_def sbind_def)
    then have "set_working_repo_to_commit env False st fuel tc (Some fc) oc w = (Inr (), w')"
      using tw w'(1) by (simp add: run checkout_trees_def sbind_def apply_dir_replacements_def)
    with w'(2,3) show ?thesis by blast
  qed
qed

section \<open>The sample checkout\<close>

lemma ff_dir_paths: "dir_paths ff_base = {[]}" "dir_paths ff_merge = {[]}"
proof -
  have "dir_paths (ff_tree n [f, g]) = {[]}" for n f g
  proof -
    let ?r = "hd (t_children (ff_tree n [f, g]))"
    have "tree_entries (ff_tree n [f, g]) [] = [([], ?r), (join_str [] (fn_name f), MTNode (fn_hash f) (EFile f) (Some (n + 1)) []),
        (join_str [] (fn_name g), MTNode (fn_hash g) (EFile g) (Some (n + 1)) [])]" by (simp add: ff_tree_def)
    moreover have "is_dir ?r" by (simp add: ff_tree_def is_dir_def)
    ultimately show ?thesis unfolding dir_paths_def by (auto simp: is_dir_def)
  qed
  then show "dir_paths ff_base = {[]}" "dir_paths ff_merge = {[]}" by (simp_all only: ff_base_def ff_merge_def)
qed

lemma ff_apart_back: "apart ff_merge ff_base"
  using ff_apart by (auto simp: apart_def)

lemma ff_fixed_back: "hash_fixes_files {ff_merge, ff_base}"
  using ff_fixed by (simp add: insert_commute)

lemma ff_ready_back: "merge_ready ff_env (ff_work fs k) ff_merge ff_base"
proof -
  have r: "wk_repo ff_env = [Normal ''r'']" by (simp add: ff_env_def)
  moreover have "version_at ff_env h \<noteq> marker_path ff_env" "version_at ff_env h \<noteq> [Normal ''r'', Normal s]" for h s
    by (simp_all add: ff_versions marker_path_eq r)
  moreover have "marker_path ff_env \<notin> fs_dirs (wt_fs (ff_work fs k))" by (simp add: marker_path_eq ff_dirs ff_env_def)
  ultimately show ?thesis
    using ff_can_merge [of 1 "''a''"] ff_can_merge [of 2 "''b''"]
    by (auto simp: merge_ready_def ff_maps ff_working ff_dirs ff_work_files split: if_splits)
       (auto simp: ff_env_def ff_hash_def)
qed

lemma ff_checkout_ready:
  "checkout_ready ff_env (ff_work fs k) ff_base ff_merge" "checkout_ready ff_env (ff_work fs k) ff_merge ff_base"
proof -
  have "working_path ff_env [] = [Normal ''r'']" by (simp add: working_path_names ff_env_def)
  moreover have "comparable ff_env (ff_work fs k) q (ff_file s n)" for q s n
    by (simp add: comparable_def) (simp add: ff_env_def)
  ultimately show "checkout_ready ff_env (ff_work fs k) ff_base ff_merge" "checkout_ready ff_env (ff_work fs k) ff_merge ff_base"
    using ff_ready ff_ready_back
    by (auto simp: checkout_ready_def ff_dir_paths ff_maps ff_working ff_dirs ff_work_files split: if_splits)
qed

lemma ff_env_repo: "wk_repo ff_env = [Normal ''r'']"
  by (simp add: ff_env_def)

lemma ff_hidden: "x \<noteq> ''MERGE_IN_PROGRESS'' \<Longrightarrow> fs_files (wt_fs (ff_work fs k)) [Normal ''r'', Normal ''.oxen'', Normal x] = None"
proof -
  assume x: "x \<noteq> ''MERGE_IN_PROGRESS''"
  have "map_of (map (\<lambda>(s, n). ([Normal ''r'', Normal s], replicate n (0 :: byte))) fs) [Normal ''r'', Normal ''.oxen'', Normal x] = None"
    by (auto simp: map_of_eq_None_iff)
  with x show ?thesis by (simp add: ff_work_def ff_versions map_add_def marker_path_eq ff_env_repo split: option.splits)
qed

lemma ff_small: "int (tree_size ff_base) \<le> i32_max" "int (tree_size ff_merge) \<le> i32_max"
proof -
  have n: "tree_size (ff_tree n [f, g]) = 5" for n f g by (simp add: ff_tree_def)
  show "int (tree_size ff_base) \<le> i32_max" "int (tree_size ff_merge) \<le> i32_max"
    unfolding ff_base_def ff_merge_def n by (simp_all add: i32_max_def)
qed

section \<open>Properties\<close>

lemma checkout_keeps_local_changes_witness:
  "\<exists>w'. set_working_repo_to_commit ff_env False ff_store 9 (ff_commit 40) (Some (ff_commit 30)) Abort (ff_work [(''a'', 1), (''b'', 2)] None) = (Inr (), w') \<and>
    fs_files (wt_fs w') [Normal ''r'', Normal ''b''] \<noteq> Some [0, 0] \<and>
    (\<exists>p. [Normal ''r'', Normal ''b''] = working_path ff_env p \<and>
       ((\<exists>f. file_map ff_base p = Some f \<and> copy_of ff_env (ff_work [(''a'', 1), (''b'', 2)] None) [Normal ''r'', Normal ''b''] f) \<or>
        p \<in> dir_paths ff_base \<union> dir_paths ff_merge))"
proof -
  let ?w = "ff_work [(''a'', 1), (''b'', 2)] None"
  obtain w' where w': "set_working_repo_to_commit ff_env False ff_store 9 (ff_commit 40) (Some (ff_commit 30)) Abort ?w = (Inr (), w')"
    "checked_out ff_env ff_base ff_merge ?w w'"
    using checkout_completes [OF ff_sample(1-3,5) ff_checkout_ready(1) _ ff_small(2), of Abort] ff_clean by blast
  have here: "fs_files (wt_fs ?w) [Normal ''r'', Normal ''b''] = Some [0, 0]" by (simp add: ff_work_files numeral_2_eq_2)
  have "file_map ff_base [Normal ''b''] \<noteq> None" "file_map ff_merge [Normal ''b''] = None" by (simp_all add: ff_maps)
  then have "fs_files (wt_fs w') (working_path ff_env [Normal ''b'']) = None" using w'(2) by (simp add: checked_out_def)
  then have gone: "fs_files (wt_fs w') [Normal ''r'', Normal ''b''] \<noteq> Some [0, 0]" by (simp add: ff_working)
  from checkout_keeps_local_changes [OF ff_sample(1-4) w'(1) here gone] w'(1) gone show ?thesis by blast
qed

text \<open>C8: checking out a commit in a working tree without local changes ends, and then every file of
  that commit is there with the recorded content, the files only the commit before had are gone,
  and whatever belongs to neither commit is as it was. It relies on what the fast paths rely on
  (equal hashes of directories for equal files, a recorded size and time for the recorded content),
  on the version store having the contents, and on no file being in the place of a directory, nor
  a directory in that of a file.\<close>

theorem checkout_reaches_target:
  assumes "commit_tree hash128 st fuel fc b" "commit_tree hash128 st fuel tc m" "apart b m" "hash_fixes_files {b, m}"
    and "checkout_ready env w b m" "clean_checkout env w b m" "int (tree_size m) \<le> i32_max" "fetch tc w = (Inr (), w)"
  shows "\<exists>w'. checkout_commit env False st fuel fetch tc (Some fc) Abort w = (Inr (), w') \<and>
    (\<forall>p f. file_map m p = Some f \<longrightarrow> has_content env w' p f) \<and>
    (\<forall>p. file_map b p \<noteq> None \<longrightarrow> file_map m p = None \<longrightarrow> fs_files (wt_fs w') (working_path env p) = None) \<and>
    (\<forall>q. q \<notin> working_path env ` (dom (file_map b) \<union> dom (file_map m)) \<longrightarrow> fs_files (wt_fs w') q = fs_files (wt_fs w) q)"
proof -
  obtain w' where w': "set_working_repo_to_commit env False st fuel tc (Some fc) Abort w = (Inr (), w')" "checked_out env b m w w'"
    using checkout_completes [OF assms(1-5) _ assms(7), of Abort] assms(6) by blast
  have run: "checkout_commit env False st fuel fetch tc (Some fc) Abort w = (Inr (), w')"
    using w'(1) assms(8) apart_ids [OF assms(1-3)] by (simp add: checkout_commit_def sbind_def)
  have "has_content env w' p f" if m: "file_map m p = Some f" for p f
  proof -
    have "has_content env w' p f \<or> (\<exists>g. file_map b p = Some g \<and> fn_hash g = fn_hash f \<and>
        fs_files (wt_fs w') (working_path env p) = fs_files (wt_fs w) (working_path env p))"
      using w'(2) m by (simp add: checked_out_def)
    moreover have "has_content env w p g" if "file_map b p = Some g" for g
      using assms(6) that by (simp add: clean_checkout_def)
    ultimately show ?thesis unfolding has_content_def by metis
  qed
  with run w'(2) show ?thesis unfolding checked_out_def by blast
qed

lemma checkout_reaches_target_witness:
  "\<exists>w'. checkout_commit ff_env False ff_store 9 (\<lambda>_. slift (Inr ())) (ff_commit 40) (Some (ff_commit 30)) Abort (ff_work [(''a'', 1), (''b'', 2)] None) = (Inr (), w') \<and>
    has_content ff_env w' [Normal ''a''] (ff_file ''a'' 3) \<and> fs_files (wt_fs w') [Normal ''r'', Normal ''b''] = None \<and>
    has_content ff_env w' [Normal ''c''] (ff_file ''c'' 4)"
proof -
  let ?w = "ff_work [(''a'', 1), (''b'', 2)] None"
  have fetch: "(\<lambda>_. slift (Inr ())) (ff_commit 40) ?w = (Inr (), ?w)" by simp
  obtain w' where w': "checkout_commit ff_env False ff_store 9 (\<lambda>_. slift (Inr ())) (ff_commit 40) (Some (ff_commit 30)) Abort ?w = (Inr (), w')"
    "\<forall>p f. file_map ff_merge p = Some f \<longrightarrow> has_content ff_env w' p f"
    "\<forall>p. file_map ff_base p \<noteq> None \<longrightarrow> file_map ff_merge p = None \<longrightarrow> fs_files (wt_fs w') (working_path ff_env p) = None"
    using checkout_reaches_target [where fetch = "\<lambda>_. slift (Inr ())", OF ff_sample(1-3,5) ff_checkout_ready(1) ff_clean ff_small(2) fetch] by blast
  have "file_map ff_base [Normal ''b''] \<noteq> None" "file_map ff_merge [Normal ''b''] = None" by (simp_all add: ff_maps)
  with w'(3) have "fs_files (wt_fs w') [Normal ''r'', Normal ''b''] = None" using ff_working [of "''b''"] by fastforce
  then show ?thesis using w'(1,2) by (intro exI [of _ w']) (simp add: ff_maps)
qed

text \<open>C9: a fast-forward merge that was interrupted before \<open>HEAD\<close> moved can be abandoned, whatever content
  the files have by then. It relies on this: the marker of the merged commit is there and none of
  \<open>MERGE_HEAD\<close>, \<open>ORIG_HEAD\<close> and \<open>merge\<close> is; the commits differ and their directories of equal hash have
  equal files, none tracked under \<open>.oxen\<close>, fewer than an \<open>i32\<close> counts; there is no directory in place of a file of either commit and no file in place of a directory;
  the contents of the files of \<open>HEAD\<close> are in the version store, intact, the store is none of these files, and
  fetching missing contents changes nothing; the files' times and sizes can be read, and a file of the recorded size and time has the recorded
  content. Then the abort succeeds and removes the marker, every file in which the two commits differ has
  the content that \<open>HEAD\<close> recorded, the files only the merged commit had are gone, files of the
  same content in both commits are restored or as they were, and whatever belongs to neither commit is as it was.\<close>

theorem abort_restores_head:
  assumes "commit_tree hash128 st fuel mc m" "commit_tree hash128 st fuel hc b" "apart m b" "hash_fixes_files {m, b}"
    and "checkout_ready env (co_work s) m b" "int (tree_size b) \<le> i32_max" "fetch hc (co_work s) = (Inr (), co_work s)"
    and "fs_files (wt_fs (co_work s)) (marker_path env) = Some (as_bytes (cm_id mc))"
    and "head_commit (get_by_hash st fuel) kv (co_refs s) = Inr hc" "get_by_id (get_by_hash st fuel) (cm_id mc) = Inr (Some mc)"
    and "\<forall>n \<in> {''MERGE_HEAD'', ''ORIG_HEAD'', ''merge''}. \<not> path_exists (hidden_path env n) (wt_fs (co_work s))"
  shows "\<exists>w'. abort_merge env False st fuel kv fetch s = (Inr (), s\<lparr>co_work := w'\<rparr>) \<and> fs_files (wt_fs w') (marker_path env) = None \<and>
    (\<forall>p f. file_map b p = Some f \<longrightarrow> has_content env w' p f \<or>
      (\<exists>g. file_map m p = Some g \<and> fn_hash g = fn_hash f \<and>
           fs_files (wt_fs w') (working_path env p) = fs_files (wt_fs (co_work s)) (working_path env p))) \<and>
    (\<forall>p. file_map m p \<noteq> None \<longrightarrow> file_map b p = None \<longrightarrow> fs_files (wt_fs w') (working_path env p) = None) \<and>
    (\<forall>q. q \<noteq> marker_path env \<longrightarrow> q \<notin> working_path env ` (dom (file_map m) \<union> dom (file_map b)) \<longrightarrow>
       fs_files (wt_fs w') q = fs_files (wt_fs (co_work s)) q)"
proof -
  let ?w = "co_work s"
  have wf: "wf_tree m" "node_type (t_node m) = TCommit" "wf_tree b" "node_type (t_node b) = TCommit"
    using assms(1,2) by (simp_all add: commit_tree_def)
  obtain w1 where w1: "set_working_repo_to_commit env False st fuel hc (Some mc) Overwrite ?w = (Inr (), w1)" "checked_out env m b ?w w1"
    "dirs_within env (dom (file_map b)) ?w w1"
    using checkout_completes [OF assms(1-5) _ assms(6), of Overwrite] by blast
  have mr: "merge_ready env ?w m b" using assms(5) by (simp add: checkout_ready_def)
  have named: "name_path p \<and> p \<noteq> [] \<and> hd p \<noteq> Normal ''.oxen''" if "p \<in> dom (file_map m) \<union> dom (file_map b)" for p
    using that mr file_map_named [OF wf(1,2)] file_map_named [OF wf(3,4)] by (auto simp: merge_ready_def)
  have hid: "hidden_path env n = wk_repo env @ [Normal ''.oxen'', Normal n]" if "n \<in> {''MERGE_HEAD'', ''ORIG_HEAD'', ''merge''}" for n
    using that by (auto simp: hidden_path_def path_join_names valid_name_def)
  have out: "wk_repo env @ [Normal ''.oxen'', x] \<notin> working_path env ` (dom (file_map m) \<union> dom (file_map b))" for x
  proof
    assume "wk_repo env @ [Normal ''.oxen'', x] \<in> working_path env ` (dom (file_map m) \<union> dom (file_map b))"
    then obtain p where "p \<in> dom (file_map m) \<union> dom (file_map b)" "wk_repo env @ [Normal ''.oxen'', x] = working_path env p" by blast
    with named [of p] show False by (auto simp: working_path_names)
  qed
  then have kept_hidden: "fs_files (wt_fs w1) (wk_repo env @ [Normal ''.oxen'', x]) = fs_files (wt_fs ?w) (wk_repo env @ [Normal ''.oxen'', x])" for x
    using w1(2) unfolding checked_out_def by blast
  have no_dir: "wk_repo env @ [Normal ''.oxen'', x] \<notin> fs_dirs (wt_fs w1)" if nd: "wk_repo env @ [Normal ''.oxen'', x] \<notin> fs_dirs (wt_fs ?w)" for x
  proof
    assume "wk_repo env @ [Normal ''.oxen'', x] \<in> fs_dirs (wt_fs w1)"
    then obtain p where p: "p \<in> dom (file_map b)" "wk_repo env @ [Normal ''.oxen'', x] \<in> set (path_ancestors (wk_repo env @ butlast p))"
      using nd w1(3) unfolding dirs_within_def by blast
    have "p \<noteq> []" using named p(1) by blast
    from ancestor_below [OF p(2) this] obtain r where "p = [Normal ''.oxen'', x] @ r" by (auto simp: path_starts_with_append)
    with named [of p] p(1) show False by simp
  qed
  have gone: "\<not> path_exists (hidden_path env n) (wt_fs w1)" if n: "n \<in> {''MERGE_HEAD'', ''ORIG_HEAD'', ''merge''}" for n
  proof -
    have "\<not> path_exists (wk_repo env @ [Normal ''.oxen'', Normal n]) (wt_fs ?w)" using assms(11) n by (metis hid [OF n])
    with kept_hidden [of "Normal n"] no_dir [of "Normal n"] show ?thesis by (simp add: hid [OF n] path_exists_def)
  qed
  have marker: "fs_files (wt_fs w1) (marker_path env) = Some (as_bytes (cm_id mc))"
    using assms(8) kept_hidden by (simp add: marker_path_eq)
  define w2 where "w2 = w1\<lparr>wt_fs := (wt_fs w1)\<lparr>fs_files := (fs_files (wt_fs w1))(marker_path env := None)\<rparr>\<rparr>"
  have "hidden_path env n \<noteq> marker_path env" if n: "n \<in> {''MERGE_HEAD'', ''ORIG_HEAD'', ''merge''}" for n
    using n by (auto simp: hid [OF n] marker_path_eq)
  with gone have gone2: "\<not> path_exists (hidden_path env n) (wt_fs w2)" if n: "n \<in> {''MERGE_HEAD'', ''ORIG_HEAD'', ''merge''}" for n
    using n by (simp add: w2_def path_exists_def)
  have clear: "on_fs (clear_merge_state env) w1 = (Inr (), w2)"
    using marker gone2 [unfolded w2_def]
    by (simp add: on_fs_def clear_merge_state_def marker_clear_def path_exists_def fs_remove_file_def sbind_def remove_if_exists_def w2_def)
  have "marker_read env (wt_fs ?w) = Inr (Some (cm_id mc))"
    using assms(8) commit_plain_id [OF assms(1)] by (rule marker_read_back)
  then have target: "merge_target_id env (wt_fs ?w) = Inr (Some (cm_id mc))" by (simp add: merge_target_id_def)
  have "checkout_commit env False st fuel fetch hc (Some mc) Overwrite ?w = (Inr (), w1)"
    using w1(1) assms(7) apart_ids [OF assms(1-3)] by (simp add: checkout_commit_def sbind_def)
  then have run: "abort_merge env False st fuel kv fetch s = (Inr (), s\<lparr>co_work := w2\<rparr>)"
    using target assms(9,10) clear by (simp add: abort_merge_def Let_def sbind_def with_refs_def on_work_def)
  have other: "working_path env p \<noteq> marker_path env" if "p \<in> dom (file_map m) \<union> dom (file_map b)" for p
    using named [OF that] working_not_marker by blast
  have same: "fs_files (wt_fs w2) q = fs_files (wt_fs w1) q" if "q \<noteq> marker_path env" for q using that by (simp add: w2_def)
  have "checked_out env m b ?w w1" by (rule w1(2))
  then have "has_content env w2 p f \<or> (\<exists>g. file_map m p = Some g \<and> fn_hash g = fn_hash f \<and>
      fs_files (wt_fs w2) (working_path env p) = fs_files (wt_fs ?w) (working_path env p))" if "file_map b p = Some f" for p f
  proof -
    have e: "fs_files (wt_fs w2) (working_path env p) = fs_files (wt_fs w1) (working_path env p)" using that by (intro same other) auto
    show ?thesis unfolding has_content_def e using that w1(2) unfolding checked_out_def has_content_def by blast
  qed
  moreover have "fs_files (wt_fs w2) (working_path env p) = None" if "file_map m p \<noteq> None" "file_map b p = None" for p
    using that same [OF other [of p]] w1(2) unfolding checked_out_def by auto
  moreover have "fs_files (wt_fs w2) q = fs_files (wt_fs ?w) q"
    if "q \<noteq> marker_path env" "q \<notin> working_path env ` (dom (file_map m) \<union> dom (file_map b))" for q
    using that same [of q] w1(2) unfolding checked_out_def by auto
  moreover have "fs_files (wt_fs w2) (marker_path env) = None" by (simp add: w2_def)
  ultimately show ?thesis using run by (intro exI [of _ w2]) blast
qed

text \<open>An interrupted merge: \<open>a\<close> is half written, \<open>b\<close> is removed, \<open>c\<close> is there already.\<close>

lemma abort_restores_head_witness:
  "\<exists>w'. abort_merge ff_env False ff_store 9 list_kv (\<lambda>_. slift (Inr ()))
      \<lparr>co_work = ff_work [(''a'', 2), (''c'', 4)] (Some (cm_id (ff_commit 40))),
       co_refs = \<lparr>rf_db = [(''main'', cm_id (ff_commit 30))], rf_head = Some ''main''\<rparr>\<rparr> =
      (Inr (), \<lparr>co_work = w', co_refs = \<lparr>rf_db = [(''main'', cm_id (ff_commit 30))], rf_head = Some ''main''\<rparr>\<rparr>) \<and>
    has_content ff_env w' [Normal ''a''] (ff_file ''a'' 1) \<and> has_content ff_env w' [Normal ''b''] (ff_file ''b'' 2) \<and>
    fs_files (wt_fs w') [Normal ''r'', Normal ''c''] = None \<and> fs_files (wt_fs w') (marker_path ff_env) = None"
proof -
  let ?w = "ff_work [(''a'', 2), (''c'', 4)] (Some (cm_id (ff_commit 40)))"
    and ?rs = "\<lparr>rf_db = [(''main'', cm_id (ff_commit 30))], rf_head = Some ''main''\<rparr>"
  let ?s = "\<lparr>co_work = ?w, co_refs = ?rs\<rparr>" and ?get = "get_by_hash ff_store 9"
  have ids: "merkle_hash_from_str (cm_id (ff_commit 30)) = Inr 33" "merkle_hash_from_str (cm_id (ff_commit 40)) = Inr 43"
    using ff_sample(1,2) by (simp_all add: commit_tree_def ff_base_def ff_merge_def ff_tree_def)
  have get: "?get 33 = Inr (Some (ff_commit 30))" "?get 43 = Inr (Some (ff_commit 40))"
    by code_simp+
  have head: "head_commit ?get list_kv (co_refs ?s) = Inr (ff_commit 30)" "get_by_id ?get (cm_id (ff_commit 40)) = Inr (Some (ff_commit 40))"
    using ids get by (simp_all add: head_commit_def head_commit_id_def rm_head_commit_id_def get_commit_id_for_branch_def read_head_ref_def list_kv_def get_by_id_def ok_or_def)
  have start: "fs_files (wt_fs (co_work ?s)) (marker_path ff_env) = Some (as_bytes (cm_id (ff_commit 40)))"
    "checkout_ready ff_env (co_work ?s) ff_merge ff_base" "slift (Inr ()) (co_work ?s) = (Inr (), co_work ?s)"
    by (simp_all add: ff_work_files ff_checkout_ready)
  have none: "\<forall>n \<in> {''MERGE_HEAD'', ''ORIG_HEAD'', ''merge''}. \<not> path_exists (hidden_path ff_env n) (wt_fs (co_work ?s))"
    by (simp add: hidden_path_def path_join_names valid_name_def path_exists_def ff_dirs ff_env_repo ff_hidden)
  obtain w' where w': "abort_merge ff_env False ff_store 9 list_kv (\<lambda>_. slift (Inr ())) ?s = (Inr (), ?s\<lparr>co_work := w'\<rparr>)"
    "fs_files (wt_fs w') (marker_path ff_env) = None"
    "\<forall>p f. file_map ff_base p = Some f \<longrightarrow> has_content ff_env w' p f \<or> (\<exists>g. file_map ff_merge p = Some g \<and> fn_hash g = fn_hash f \<and>
           fs_files (wt_fs w') (working_path ff_env p) = fs_files (wt_fs (co_work ?s)) (working_path ff_env p))"
    "\<forall>p. file_map ff_merge p \<noteq> None \<longrightarrow> file_map ff_base p = None \<longrightarrow> fs_files (wt_fs w') (working_path ff_env p) = None"
    using abort_restores_head [where fetch = "\<lambda>_. slift (Inr ())", OF ff_sample(2,1) ff_apart_back ff_fixed_back start(2) ff_small(1) start(3,1) head none] by blast
  have "file_map ff_merge [Normal ''c''] \<noteq> None" "file_map ff_base [Normal ''c''] = None" by (simp_all add: ff_maps)
  with w'(4) have "fs_files (wt_fs w') [Normal ''r'', Normal ''c''] = None" using ff_working [of "''c''"] by fastforce
  moreover have "has_content ff_env w' [Normal ''a''] (ff_file ''a'' 1)" "has_content ff_env w' [Normal ''b''] (ff_file ''b'' 2)"
  proof -
    have "has_content ff_env w' [Normal s] (ff_file s n)"
      if b: "file_map ff_base [Normal s] = Some (ff_file s n)" and m: "\<And>g. file_map ff_merge [Normal s] = Some g \<Longrightarrow> fn_hash g \<noteq> fn_hash (ff_file s n)" for s n
      using w'(3) [rule_format, OF b] m by blast
    from this [of "''a''" 1] this [of "''b''" 2]
    show "has_content ff_env w' [Normal ''a''] (ff_file ''a'' 1)" "has_content ff_env w' [Normal ''b''] (ff_file ''b'' 2)"
      by (simp_all add: ff_maps)
  qed
  ultimately show ?thesis using w'(1,2) by (intro exI [of _ w']) simp
qed

end
