(* ===== verification/Relative_Path.thy ===== *)
theory Relative_Path
  imports Rust_Path
begin

text \<open>
  A path relative to a directory (\<open>path_relative_to_dir\<close> of \<open>util/fs.rs\<close>), the function every
  command uses to turn the paths of the user into paths of the repository. Components are compared
  as text, those of equal length without regard to case: \<open>lower\<close> is the lower case of Unicode, an
  argument.
\<close>

text \<open>\<open>as_os_str\<close>, and the normal components pushed one by one.\<close>

definition os_str :: "component \<Rightarrow> string" where
  "os_str c = (if c = RootDir then ''/'' else comp_to_str c)"

definition is_normal :: "component \<Rightarrow> bool" where
  "is_normal c \<longleftrightarrow> (case c of Normal _ \<Rightarrow> True | _ \<Rightarrow> False)"

definition push_components :: "path \<Rightarrow> path" where
  "push_components cs = fold (\<lambda>c acc. path_join acc [c]) cs []"

definition normal_components :: "path \<Rightarrow> path" where
  "normal_components p = push_components (filter is_normal p)"

definition same_component :: "(string \<Rightarrow> string) \<Rightarrow> component \<Rightarrow> component \<Rightarrow> bool" where
  "same_component lower c d \<longleftrightarrow>
     os_str c = os_str d \<or> (length (os_str c) = length (os_str d) \<and> lower (os_str c) = lower (os_str d))"

text \<open>
  The loop over the components of the path: \<open>d # ds\<close> are the components of the directory still to
  come. A mismatch starts the directory again, but the number of matches stays.
\<close>

fun relative_loop :: "(string \<Rightarrow> string) \<Rightarrow> path \<Rightarrow> path \<Rightarrow> path \<Rightarrow> path \<Rightarrow> nat \<Rightarrow> nat \<Rightarrow> path res" where
  "relative_loop lower path dir [] rest matches start_index = Inr (push_components path)"
| "relative_loop lower path dir (c # cs) [] matches start_index = Inl (Panic ''Dir bounds violated'')"
| "relative_loop lower path dir (c # cs) (d # ds) matches start_index =
     (if same_component lower c d
      then if Suc matches = length dir then Inr (normal_components (drop (Suc start_index) path))
           else if ds = [] then Inl (Panic ''Dir bounds violated'')
           else relative_loop lower path dir cs ds (Suc matches) (Suc start_index)
      else relative_loop lower path dir cs dir matches (Suc start_index))"

definition path_relative_to_dir :: "(string \<Rightarrow> string) \<Rightarrow> path \<Rightarrow> path \<Rightarrow> path res" where
  "path_relative_to_dir lower path dir =
     (if path = [] \<or> dir = path then Inr []
      else if dir = [] \<or> length path < length dir then Inr (normal_components path)
      else relative_loop lower path dir path dir 0 0)"

section \<open>What it does\<close>

lemma push_components_names: "name_path p \<Longrightarrow> push_components p = p"
proof (induction p rule: rev_induct)
  case (snoc c p)
  then obtain s where c: "c = Normal s" "name_path p" by auto
  with snoc.IH show ?case by (simp add: push_components_def)
qed (simp add: push_components_def)

lemma normal_components_names: "name_path p \<Longrightarrow> normal_components p = p"
proof -
  assume p: "name_path p"
  then have "filter is_normal p = p" by (auto simp: filter_id_conv is_normal_def name_path_def)
  with push_components_names [OF p] show ?thesis by (simp add: normal_components_def)
qed

text \<open>While the path follows the directory, every component matches.\<close>

lemma relative_loop_follows:
  "ds \<noteq> [] \<Longrightarrow> length dir = k + length ds \<Longrightarrow>
   relative_loop lower path dir (ds @ rest) ds k k = Inr (normal_components (drop (length dir) path))"
proof (induction ds arbitrary: k)
  case (Cons d ds)
  show ?case
  proof (cases ds)
    case Nil
    with Cons.prems show ?thesis by (simp add: same_component_def)
  next
    case (Cons e es)
    with Cons.IH [of "Suc k"] Cons.prems show ?thesis by (simp add: same_component_def)
  qed
qed simp

theorem relative_to_prefix:
  "name_path p \<Longrightarrow> path_relative_to_dir lower (dir @ p) dir = Inr p"
proof -
  assume p: "name_path p"
  show ?thesis
  proof (cases "dir = [] \<or> p = []")
    case True
    then show ?thesis using normal_components_names [OF p] by (auto simp: path_relative_to_dir_def)
  next
    case False
    then show ?thesis
      using relative_loop_follows [of dir dir 0 lower "dir @ p" p] normal_components_names [OF p] by (simp add: path_relative_to_dir_def)
  qed
qed

text \<open>The loop never runs out of components of the directory: nothing here panics.\<close>

lemma relative_loop_total:
  "length dir \<le> matches + length rest \<Longrightarrow> matches < length dir \<Longrightarrow> rest \<noteq> [] \<Longrightarrow> length rest \<le> length dir \<Longrightarrow>
   \<exists>q. relative_loop lower path dir cs rest matches i = Inr q"
proof (induction lower path dir cs rest matches i rule: relative_loop.induct)
  case (3 lower path dir c cs d ds matches i)
  have "dir \<noteq> []" using "3.prems"(2) by auto
  with 3 show ?case by (cases ds) auto
qed auto

lemma relative_total: "\<exists>q. path_relative_to_dir lower path dir = Inr q"
  using relative_loop_total [of dir 0 dir lower path path 0] by (cases "dir = []") (auto simp: path_relative_to_dir_def)

text \<open>
  A path that only repeats the first component of the directory counts as being below it: \<open>c\<close> is
  \<open>a/x/a/c\<close> relative to \<open>a/b\<close>.
\<close>

lemma partial_matches_add_up:
  "path_relative_to_dir lower [Normal ''a'', Normal ''x'', Normal ''a'', Normal ''c''] [Normal ''a'', Normal ''b''] =
     (if lower ''x'' = lower ''b'' then Inr [Normal ''a'', Normal ''c''] else Inr [Normal ''c''])"
  by (simp add: path_relative_to_dir_def same_component_def os_str_def normal_components_def is_normal_def push_components_def)

end
