(* ===== verification/Staging.thy ===== *)
theory Staging
  imports Relative_Path Commit_Split Ref_Store
begin

text \<open>
  The staging area: a key-value store from paths to staged nodes
  (\<open>core/staged/staged_db_manager.rs\<close>, and the functions of \<open>core/v_latest/add.rs\<close>, \<open>rm.rs\<close> and
  \<open>status.rs\<close> that read and write it). RocksDB is an argument (\<open>kv_ops\<close>), so is MessagePack for the
  staged nodes: an entry that does not decode is passed over. The functions on a database opened
  directly and those of the manager differ in the form of the key.
\<close>

record ('d, 'v) staged_env =
  sd_kv :: "('d, 'v) kv_ops"
  sd_encode :: "staged_node \<Rightarrow> 'v"
  sd_decode :: "'v \<Rightarrow> staged_node option"
  sd_lower :: "string \<Rightarrow> string"
  sd_repo :: path

section \<open>Single entries\<close>

definition normalize_key :: "path \<Rightarrow> string" where
  "normalize_key p = map (\<lambda>c. if c = CHR 0x5C then CHR ''/'' else c) (path_to_str p)"

definition upsert_staged_node :: "('d, 'v) staged_env \<Rightarrow> path \<Rightarrow> staged_node \<Rightarrow> 'd \<Rightarrow> 'd" where
  "upsert_staged_node env p staged_node d = kv_put (sd_kv env) (normalize_key p) (sd_encode env staged_node) d"

definition upsert_file_node :: "('d, 'v) staged_env \<Rightarrow> path \<Rightarrow> staged_entry_status \<Rightarrow> file_node \<Rightarrow> 'd \<Rightarrow> staged_node \<times> 'd" where
  "upsert_file_node env relative_path status f d =
     (let n = \<lparr>sn_status = status, sn_node = from_file f\<rparr> in (n, upsert_staged_node env relative_path n d))"

definition upsert_staged_nodes :: "('d, 'v) staged_env \<Rightarrow> (path, staged_node) hash_map \<Rightarrow> 'd \<Rightarrow> 'd" where
  "upsert_staged_nodes env staged_nodes d = fold (\<lambda>(p, n). upsert_staged_node env p n) staged_nodes d"

definition delete_entry :: "('d, 'v) staged_env \<Rightarrow> path \<Rightarrow> 'd \<Rightarrow> 'd" where
  "delete_entry env p d = kv_delete (sd_kv env) (normalize_key p) d"

definition staged_exists :: "('d, 'v) staged_env \<Rightarrow> path \<Rightarrow> 'd \<Rightarrow> bool" where
  "staged_exists env p d \<longleftrightarrow> kv_get (sd_kv env) d (normalize_key p) \<noteq> None"

definition read_from_staged_db :: "('d, 'v) staged_env \<Rightarrow> path \<Rightarrow> 'd \<Rightarrow> staged_node option res" where
  "read_from_staged_db env p d =
     (case kv_get (sd_kv env) d (normalize_key p) of
        None \<Rightarrow> Inr None
      | Some data \<Rightarrow>
          (case sd_decode env data of
             Some n \<Rightarrow> Inr (Some n)
           | None \<Rightarrow> Inl (Basic ''Failed to deserialize staged data'')))"

text \<open>A directory is staged once for the paths one operation has seen.\<close>

definition add_dir_to_staged_db :: "('d, 'v) staged_env \<Rightarrow> path \<Rightarrow> 'd \<times> path set \<Rightarrow> 'd \<times> path set" where
  "add_dir_to_staged_db env p = (\<lambda>(d, seen_dirs).
     if p \<in> seen_dirs then (d, seen_dirs)
     else (kv_put (sd_kv env) (path_to_str p) (sd_encode env \<lparr>sn_status = Added, sn_node = default_dir_from_path p\<rparr>) d,
           insert p seen_dirs))"

definition add_directory :: "('d, 'v) staged_env \<Rightarrow> path \<Rightarrow> 'd \<times> path set \<Rightarrow> 'd \<times> path set" where
  "add_directory env p = (\<lambda>(d, seen_dirs).
     if p \<in> seen_dirs then (d, seen_dirs)
     else (kv_put (sd_kv env) (path_to_str p) (sd_encode env \<lparr>sn_status = Added, sn_node = default_dir_from_path p\<rparr>) d,
           insert p seen_dirs))"

text \<open>The directories above a path, the nearest first.\<close>

definition parents :: "path \<Rightarrow> path list" where
  "parents p = tl (path_ancestors p)"

definition p_add_file_node_to_staged_db ::
  "('d, 'v) staged_env \<Rightarrow> path \<Rightarrow> staged_entry_status \<Rightarrow> file_node \<Rightarrow> 'd \<times> path set \<Rightarrow> staged_node \<times> 'd \<times> path set" where
  "p_add_file_node_to_staged_db env relative_path status f = (\<lambda>(d, seen_dirs).
     let n = \<lparr>sn_status = status, sn_node = from_file f\<rparr>;
         d = kv_put (sd_kv env) (path_to_str relative_path) (sd_encode env n) d
     in (n, fold (add_dir_to_staged_db env) (parents relative_path) (d, seen_dirs)))"

definition add_file_node_and_parent_dir ::
  "('d, 'v) staged_env \<Rightarrow> file_node \<Rightarrow> staged_entry_status \<Rightarrow> path \<Rightarrow> 'd \<times> path set \<Rightarrow> 'd \<times> path set" where
  "add_file_node_and_parent_dir env f status relative_path = (\<lambda>(d, seen_dirs).
     let (_, d) = upsert_file_node env relative_path status f d
     in fold (add_directory env) (parents relative_path) (d, seen_dirs))"

section \<open>All entries below a path\<close>

definition push_under :: "path \<Rightarrow> staged_node \<Rightarrow> (path, staged_node list) hash_map \<Rightarrow> (path, staged_node list) hash_map" where
  "push_under p n m = AList.update p ((case map_of m p of None \<Rightarrow> [] | Some ns \<Rightarrow> ns) @ [n]) m"

definition default_entry :: "path \<Rightarrow> (path, staged_node list) hash_map \<Rightarrow> (path, staged_node list) hash_map" where
  "default_entry p m = (if map_of m p = None then AList.update p [] m else m)"

definition read_staged_entry ::
  "('d, 'v) staged_env \<Rightarrow> path \<Rightarrow> string \<times> 'v \<Rightarrow> (path, staged_node list) hash_map \<times> nat \<Rightarrow> (path, staged_node list) hash_map \<times> nat" where
  "read_staged_entry env start_path = (\<lambda>(key, val) (dir_entries, total_entries).
     let p = components key
     in if \<not> path_starts_with p start_path then (dir_entries, total_entries)
        else (case sd_decode env val of
            None \<Rightarrow> (dir_entries, total_entries)
          | Some entry \<Rightarrow>
              (let dir_entries = (if is_dir (sn_node entry) then default_entry p dir_entries else dir_entries);
                   dir_entries = (case path_parent p of None \<Rightarrow> dir_entries | Some parent \<Rightarrow> push_under parent entry dir_entries)
               in (dir_entries, Suc total_entries))))"

definition read_staged_entries_below_path ::
  "('d, 'v) staged_env \<Rightarrow> path \<Rightarrow> 'd \<Rightarrow> ((path, staged_node list) hash_map \<times> nat) res" where
  "read_staged_entries_below_path env start_path d =
     rbind (path_relative_to_dir (sd_lower env) start_path (sd_repo env)) (\<lambda>start_path.
       Inr (fold (read_staged_entry env start_path) (kv_iter (sd_kv env) d) ([], 0)))"

definition read_staged_entries :: "('d, 'v) staged_env \<Rightarrow> 'd \<Rightarrow> ((path, staged_node list) hash_map \<times> nat) res" where
  "read_staged_entries env d = read_staged_entries_below_path env [] d"

section \<open>Unstaging\<close>

text \<open>\<open>below\<close> counts the entries below a directory; without any the directory's entry goes.\<close>

definition cleanup_empty_dirs :: "('d, 'v) staged_env \<Rightarrow> (path \<Rightarrow> string) \<Rightarrow> path \<Rightarrow> 'd \<Rightarrow> 'd" where
  "cleanup_empty_dirs env key_of p d =
     (let below = length (filter (\<lambda>(key, _). path_starts_with (components key) p \<and> components key \<noteq> p) (kv_iter (sd_kv env) d))
      in if below = 0 then kv_delete (sd_kv env) (key_of p) d else d)"

definition parent_or_empty :: "path \<Rightarrow> path" where
  "parent_or_empty p = (case path_parent p of None \<Rightarrow> [] | Some q \<Rightarrow> q)"

function cleanup_parents :: "('d, 'v) staged_env \<Rightarrow> (path \<Rightarrow> string) \<Rightarrow> path \<Rightarrow> 'd \<Rightarrow> 'd" where
  "cleanup_parents env key_of p d =
     (if p = [] then d
      else let d = cleanup_empty_dirs env key_of p d; parent = parent_or_empty p;
               d = (if parent = [] then cleanup_empty_dirs env key_of parent d else d)
           in cleanup_parents env key_of parent d)"
  by pat_completeness auto
termination
  by (relation "measure (\<lambda>(_, _, p, _). length p)") (auto simp: parent_or_empty_def path_parent_def split: option.splits)

declare cleanup_parents.simps [simp del]

text \<open>
  One entry and one of the paths to unstage. The iterator is a snapshot: the entries are those from
  before the first deletion.
\<close>

definition unstage_entry :: "('d, 'v) staged_env \<Rightarrow> (path \<Rightarrow> string) \<Rightarrow> path \<Rightarrow> path \<Rightarrow> ('d, unit) st" where
  "unstage_entry env key_of db_key p =
     sbind (slift (path_relative_to_dir (sd_lower env) p (sd_repo env))) (\<lambda>p d.
       if path_starts_with db_key p \<and> p \<noteq> []
       then (Inr (), cleanup_parents env key_of (parent_or_empty db_key) (kv_delete (sd_kv env) (key_of db_key) d))
       else (Inr (), d))"

definition remove_staged_recursively_by :: "('d, 'v) staged_env \<Rightarrow> (path \<Rightarrow> string) \<Rightarrow> path list \<Rightarrow> ('d, unit) st" where
  "remove_staged_recursively_by env key_of paths d =
     sfor (\<lambda>(key, _). sfor (unstage_entry env key_of (components key)) paths) (kv_iter (sd_kv env) d) d"

text \<open>The function of the manager and the one of \<open>rm.rs\<close>.\<close>

definition remove_staged_recursively :: "('d, 'v) staged_env \<Rightarrow> path list \<Rightarrow> ('d, unit) st" where
  "remove_staged_recursively env paths = remove_staged_recursively_by env normalize_key paths"

definition remove_staged_recursively_inner :: "('d, 'v) staged_env \<Rightarrow> path list \<Rightarrow> ('d, unit) st" where
  "remove_staged_recursively_inner env paths = remove_staged_recursively_by env path_to_str paths"

definition get_staged_entry :: "('d, 'v) staged_env \<Rightarrow> path \<Rightarrow> 'd \<Rightarrow> staged_node option res" where
  "get_staged_entry env p d =
     (case kv_get (sd_kv env) d (path_to_str p) of
        None \<Rightarrow> Inr None
      | Some data \<Rightarrow> (case sd_decode env data of Some n \<Rightarrow> Inr (Some n) | None \<Rightarrow> Inl (Basic ''rmp_serde'')))"

definition remove_staged_entry :: "('d, 'v) staged_env \<Rightarrow> path \<Rightarrow> 'd \<Rightarrow> 'd" where
  "remove_staged_entry env p d = kv_delete (sd_kv env) (path_to_str p) d"

text \<open>Without \<open>-r\<close>: single entries, a directory is refused.\<close>

definition remove_staged_path :: "('d, 'v) staged_env \<Rightarrow> bool \<Rightarrow> path \<Rightarrow> ('d, unit) st" where
  "remove_staged_path env recursive p =
     sbind (slift (path_relative_to_dir (sd_lower env) p (sd_repo env))) (\<lambda>relative_path.
     sbind (\<lambda>d. (get_staged_entry env relative_path d, d)) (\<lambda>entry.
       case entry of
         None \<Rightarrow> slift (Inr ())
       | Some entry \<Rightarrow>
           if is_dir (sn_node entry) \<and> \<not> recursive then slift (Inl (Basic ''`oxen rm` on directory requires -r''))
           else (\<lambda>d. (Inr (), remove_staged_entry env relative_path d))))"

definition remove_staged_inner :: "('d, 'v) staged_env \<Rightarrow> bool \<Rightarrow> path list \<Rightarrow> ('d, unit) st" where
  "remove_staged_inner env recursive paths = sfor (remove_staged_path env recursive) paths"

section \<open>Staging removals\<close>

record cumulative_stats =
  cs_total_files :: nat
  cs_total_bytes :: u64
  cs_data_type_counts :: "(entry_data_type, nat) hash_map"

definition cumulative_stats_default :: cumulative_stats where
  "cumulative_stats_default = \<lparr>cs_total_files = 0, cs_total_bytes = 0, cs_data_type_counts = []\<rparr>"

definition add_count :: "entry_data_type \<Rightarrow> nat \<Rightarrow> (entry_data_type, nat) hash_map \<Rightarrow> (entry_data_type, nat) hash_map" where
  "add_count t n m = AList.update t ((case map_of m t of None \<Rightarrow> 0 | Some k \<Rightarrow> k) + n) m"

definition add_assign :: "cumulative_stats \<Rightarrow> cumulative_stats \<Rightarrow> cumulative_stats" where
  "add_assign a b =
     \<lparr>cs_total_files = cs_total_files a + cs_total_files b, cs_total_bytes = cs_total_bytes a + cs_total_bytes b,
      cs_data_type_counts = fold (\<lambda>(t, n). add_count t n) (cs_data_type_counts b) (cs_data_type_counts a)\<rparr>"

definition count_file :: "file_node \<Rightarrow> cumulative_stats \<Rightarrow> cumulative_stats" where
  "count_file f s =
     \<lparr>cs_total_files = Suc (cs_total_files s), cs_total_bytes = cs_total_bytes s + fn_num_bytes f,
      cs_data_type_counts = add_count (fn_data_type f) 1 (cs_data_type_counts s)\<rparr>"

definition process_remove_file :: "('d, 'v) staged_env \<Rightarrow> path \<Rightarrow> file_node \<Rightarrow> 'd \<Rightarrow> staged_node \<times> 'd" where
  "process_remove_file env p f d =
     (let n = \<lparr>sn_status = Removed, sn_node = from_file (fn_set_name (path_to_str p) f)\<rparr>
      in (n, kv_put (sd_kv env) (path_to_str p) (sd_encode env n) d))"

text \<open>The directories above are staged as modified, whatever was staged for them.\<close>

definition stage_modified :: "('d, 'v) staged_env \<Rightarrow> path \<Rightarrow> 'd \<Rightarrow> 'd" where
  "stage_modified env relative_path d =
     kv_put (sd_kv env) (path_to_str relative_path)
       (sd_encode env \<lparr>sn_status = Modified, sn_node = default_dir_from_path relative_path\<rparr>) d"

fun stage_each :: "('d, 'v) staged_env \<Rightarrow> path list \<Rightarrow> ('d, unit) st" where
  "stage_each env [] = slift (Inr ())"
| "stage_each env (parent # ps) =
     sbind (slift (path_relative_to_dir (sd_lower env) parent (sd_repo env))) (\<lambda>relative_path.
     sbind (\<lambda>d. (Inr (), stage_modified env relative_path d)) (\<lambda>_.
       if relative_path = [] then slift (Inr ()) else stage_each env ps))"

definition stage_parents :: "('d, 'v) staged_env \<Rightarrow> path \<Rightarrow> ('d, unit) st" where
  "stage_parents env p = stage_each env (parents p)"

definition process_remove_file_and_parents :: "('d, 'v) staged_env \<Rightarrow> path \<Rightarrow> file_node \<Rightarrow> ('d, staged_node option) st" where
  "process_remove_file_and_parents env p f =
     (\<lambda>d. let (n, d) = process_remove_file env p f d
          in sbind (stage_parents env p) (\<lambda>_. slift (Inr (Some n))) d)"

definition remove_file_inner :: "('d, 'v) staged_env \<Rightarrow> path \<Rightarrow> file_node \<Rightarrow> ('d, cumulative_stats) st" where
  "remove_file_inner env p f =
     sbind (slift (path_relative_to_dir (sd_lower env) p (sd_repo env))) (\<lambda>p d.
       case process_remove_file_and_parents env p f d of
         (Inr (Some n), d) \<Rightarrow>
           (Inr (case t_node (sn_node n) of EFile g \<Rightarrow> count_file g cumulative_stats_default | _ \<Rightarrow> cumulative_stats_default), d)
       | (Inr None, d) \<Rightarrow> (Inl (Basic ''Error adding file''), d)
       | (Inl (Panic e), d) \<Rightarrow> (Inl (Panic e), d)
       | (Inl _, d) \<Rightarrow> (Inl (Basic ''Error adding file''), d))"

text \<open>
  A removed directory keeps its node, under its whole path. \<open>count_removed\<close> adds a child's numbers
  to the sum so far.
\<close>

definition count_removed :: "cumulative_stats \<Rightarrow> ('d, cumulative_stats) st \<Rightarrow> ('d, cumulative_stats) st" where
  "count_removed acc m = sbind m (\<lambda>s. slift (Inr (add_assign acc s)))"

definition stage_removed_dir :: "('d, 'v) staged_env \<Rightarrow> path \<Rightarrow> merkle_tree_node \<Rightarrow> 'd \<Rightarrow> 'd" where
  "stage_removed_dir env p node d =
     (case t_node node of
        EDirectory dir \<Rightarrow> kv_put (sd_kv env) (path_to_str p)
          (sd_encode env \<lparr>sn_status = Removed,
             sn_node = MTNode (t_hash node) (EDirectory (dn_set_name (path_to_str p) dir)) (t_parent_id node) (t_children node)\<rparr>) d
      | _ \<Rightarrow> d)"

fun r_process_remove_dir :: "('d, 'v) staged_env \<Rightarrow> path \<Rightarrow> merkle_tree_node \<Rightarrow> ('d, cumulative_stats) st" where
  "r_process_remove_dir env p (MTNode h n pid cs) =
     sbind (fold (\<lambda>child m. sbind m (\<lambda>acc.
         case t_node child of
           EDirectory dir \<Rightarrow> count_removed acc (r_process_remove_dir env (join_str p (dn_name dir)) child)
         | EVNode _ \<Rightarrow> count_removed acc (r_process_remove_dir env p child)
         | EFile f \<Rightarrow>
             (\<lambda>d. let (x, d) = process_remove_file env (join_str p (fn_name f)) f d
                  in (Inr (case t_node (sn_node x) of EFile g \<Rightarrow> count_file g acc | _ \<Rightarrow> acc), d))
         | _ \<Rightarrow> slift (Inl (Basic ''Error: Unexpected node type'')))) cs (slift (Inr cumulative_stats_default)))
       (\<lambda>acc d.
         case n of
           EDirectory _ \<Rightarrow> (Inr acc, stage_removed_dir env p (MTNode h n pid cs) d)
         | EVNode _ \<Rightarrow> (Inr acc, d)
         | _ \<Rightarrow> (Inl (Basic ''Unexpected node type''), d))"

text \<open>The directories above are staged even when the walk failed; its error is returned then.\<close>

definition process_remove_dir :: "('d, 'v) staged_env \<Rightarrow> path \<Rightarrow> merkle_tree_node \<Rightarrow> ('d, cumulative_stats) st" where
  "process_remove_dir env p dir_node d =
     (let (r, d) = r_process_remove_dir env p dir_node d
      in sbind (stage_parents env p) (\<lambda>_. slift r) d)"

text \<open>The same through the manager, for workspaces.\<close>

definition remove_file_with_db_manager ::
  "('d, 'v) staged_env \<Rightarrow> path \<Rightarrow> file_node \<Rightarrow> 'd \<times> path set \<Rightarrow> 'd \<times> path set" where
  "remove_file_with_db_manager env p f = add_file_node_and_parent_dir env f Removed p"

definition corrected_node :: "path \<Rightarrow> merkle_tree_node \<Rightarrow> merkle_tree_node res" where
  "corrected_node p node =
     (case t_node node of
        EFile f \<Rightarrow> Inr (MTNode (t_hash node) (EFile (fn_set_name (path_to_str p) f)) (t_parent_id node) (t_children node))
      | EDirectory dir \<Rightarrow>
          Inr (MTNode (t_hash node) (EDirectory (dn_set_name (path_to_str p) dir)) (t_parent_id node) (t_children node))
      | _ \<Rightarrow> Inl (Basic ''Error: Unexpected node type''))"

definition removed_nodes :: "path \<Rightarrow> (path, merkle_tree_node) hash_map \<Rightarrow> (path, staged_node) hash_map res" where
  "removed_nodes parent_path nodes =
     rfold (\<lambda>(p, node) acc.
         rbind (corrected_node (path_join parent_path p) node) (\<lambda>n.
           Inr (AList.update (path_join parent_path p) \<lparr>sn_status = Removed, sn_node = n\<rparr> acc))) nodes []"

definition remove_dir_with_db_manager ::
  "('d, 'v) staged_env \<Rightarrow> merkle_tree_node \<Rightarrow> path \<Rightarrow> ('d \<times> path set, unit) st" where
  "remove_dir_with_db_manager env root_dir root_path =
     sbind (slift (removed_nodes (parent_or_empty root_path) (list_files_and_dirs root_dir))) (\<lambda>staged_nodes s.
       let (d, seen_dirs) = fold (add_directory env) (parents root_path) s
       in (Inr (), upsert_staged_nodes env staged_nodes d, seen_dirs))"

end
