(* ===== verification/Status.thy ===== *)
theory Status
  imports Staging Working_Tree Commit_Listing_Props
begin

text \<open>
  What the working tree looks like against the head commit and the staging area
  (\<open>core/v_latest/status.rs\<close>): the walk over the directories on disk that finds modified, untracked
  and removed paths (\<open>find_changes\<close>; \<open>find_local_changes\<close> for a repository in remote mode), and the
  summary of what is staged. What the system answers for a directory (\<open>read_dir\<close>, in its order) and
  the patterns of \<open>.oxenignore\<close> are arguments. The recursion follows the directories on disk, its
  depth is the fuel; what is gone from them is counted to the depth of the tree (\<open>se_fuel\<close>).
\<close>

record status_env =
  se_work :: work_env
  se_store :: node_store
  se_fuel :: nat
  se_lower :: "string \<Rightarrow> string"
  se_read_dir :: "fs \<Rightarrow> path \<Rightarrow> path list res"
  se_gitignore :: "fs \<Rightarrow> path \<Rightarrow> bool \<Rightarrow> bool"
  se_subtrees :: "path list option"
  se_schema :: "generic_metadata \<Rightarrow> generic_metadata option"

definition relative_to :: "status_env \<Rightarrow> path \<Rightarrow> path \<Rightarrow> path res" where
  "relative_to env p dir = path_relative_to_dir (se_lower env) p dir"

definition se_repo :: "status_env \<Rightarrow> path" where
  "se_repo env = wk_repo (se_work env)"

definition is_ignored :: "status_env \<Rightarrow> fs \<Rightarrow> path \<Rightarrow> bool \<Rightarrow> bool" where
  "is_ignored env f p dir \<longleftrightarrow> path_starts_with p [Normal ''.oxen''] \<or> se_gitignore env f p dir"

section \<open>Untracked paths\<close>

record untracked_data =
  ud_dirs :: "(path, nat) hash_map"
  ud_files :: "path list"
  ud_all :: bool

definition untracked_new :: untracked_data where
  "untracked_new = \<lparr>ud_dirs = [], ud_files = [], ud_all = True\<rparr>"

definition add_untracked_dir :: "path \<Rightarrow> nat \<Rightarrow> (path, nat) hash_map \<Rightarrow> (path, nat) hash_map" where
  "add_untracked_dir p n dirs =
     (let subdirs = filter (\<lambda>k. path_starts_with k p \<and> k \<noteq> p) (map fst dirs);
          total_count = sum_list (map (\<lambda>k. the (map_of dirs k)) subdirs) + n
      in AList.update p total_count (fold AList.delete subdirs dirs))"

definition add_untracked_file :: "path \<Rightarrow> untracked_data \<Rightarrow> untracked_data" where
  "add_untracked_file p u = u\<lparr>ud_files := ud_files u @ [p]\<rparr>"

definition merge_untracked :: "untracked_data \<Rightarrow> untracked_data \<Rightarrow> untracked_data" where
  "merge_untracked u v =
     \<lparr>ud_dirs = hm_extend (ud_dirs u) (ud_dirs v), ud_files = ud_files u @ ud_files v, ud_all = (ud_all u \<and> ud_all v)\<rparr>"

section \<open>Nodes of the head commit\<close>

definition get_dir_hashes :: "node_store \<Rightarrow> commit option \<Rightarrow> dir_hash_map res" where
  "get_dir_hashes st head =
     (case head of Some c \<Rightarrow> dir_hashes st c | None \<Rightarrow> Inr [])"

definition maybe_get_node :: "status_env \<Rightarrow> dir_hash_map \<Rightarrow> path \<Rightarrow> merkle_tree_node option res" where
  "maybe_get_node env dhs p =
     (case map_of dhs p of
        Some h \<Rightarrow> read_depth (se_store env) (se_fuel env) h 1
      | None \<Rightarrow> read_file (wk_hash (se_work env)) (se_store env) (se_fuel env) dhs p)"

definition maybe_get_dir_children :: "merkle_tree_node option \<Rightarrow> (path, merkle_tree_node) hash_map option res" where
  "maybe_get_dir_children dir_node =
     (case dir_node of
        Some node \<Rightarrow>
          (case t_node node of
             EDirectory _ \<Rightarrow> rbind (list_files_and_folders_map node) (\<lambda>m. Inr (Some m))
           | _ \<Rightarrow> Inr None)
      | None \<Rightarrow> Inr None)"

definition maybe_get_child_node ::
  "path \<Rightarrow> (path, merkle_tree_node) hash_map option \<Rightarrow> merkle_tree_node option" where
  "maybe_get_child_node p dir_children = (case dir_children of None \<Rightarrow> None | Some children \<Rightarrow> map_of children p)"

definition is_staged :: "('d, 'v) kv_ops \<Rightarrow> 'd option \<Rightarrow> path \<Rightarrow> bool" where
  "is_staged kv staged_db p =
     (case staged_db of Some d \<Rightarrow> kv_get kv d (path_to_str p) \<noteq> None | None \<Rightarrow> False)"

text \<open>The function of \<open>util/fs.rs\<close>, which compares the modification times exactly.\<close>

definition fs_is_modified_from_node ::
  "work_env \<Rightarrow> path \<Rightarrow> file_node \<Rightarrow> (nat \<times> file_time) res \<Rightarrow> work_tree \<Rightarrow> bool res" where
  "fs_is_modified_from_node env p node md w =
     (if \<not> path_exists p (wt_fs w) then Inr False
      else rbind md (\<lambda>meta.
           rbind (fn_last_modified node) (\<lambda>t. classify_modified env p node (fst meta) (snd meta = t) w)))"

section \<open>Removed paths\<close>

text \<open>The files below a directory that is gone are counted; the directory itself is reported.\<close>

fun count_removed_entries :: "status_env \<Rightarrow> fs \<Rightarrow> nat \<Rightarrow> path \<Rightarrow> merkle_hash \<Rightarrow> nat res" where
  "count_removed_entries env f 0 p h = Inl (Panic ''stack overflow'')"
| "count_removed_entries env f (Suc k) p h =
     (if is_ignored env f p True then Inr 0
      else rbind (read_depth (se_store env) (se_fuel env) h 1) (\<lambda>dir_node.
        case dir_node of
          None \<Rightarrow> Inr 0
        | Some node \<Rightarrow> rbind (list_files_and_folders node) (\<lambda>children.
            rfold (\<lambda>child n.
              case t_node child of
                EFile _ \<Rightarrow> Inr (Suc n)
              | EDirectory dir \<Rightarrow>
                  rbind (count_removed_entries env f k (join_str p (dn_name dir)) (dn_hash dir)) (\<lambda>m. Inr (n + m))
              | _ \<Rightarrow> Inr n) children 0)))"

definition removed_file :: "path \<Rightarrow> path \<Rightarrow> fs \<Rightarrow> file_node \<Rightarrow> path set" where
  "removed_file full_path p f file_node =
     (if path_exists (join_str full_path (fn_name file_node)) f then {} else {join_str p (fn_name file_node)})"

definition removed_child :: "status_env \<Rightarrow> fs \<Rightarrow> path \<Rightarrow> path \<Rightarrow> merkle_tree_node \<Rightarrow> path set \<Rightarrow> path set res" where
  "removed_child env f full_path p child removed =
     (case t_node child of
        EFile file_node \<Rightarrow> Inr (removed \<union> removed_file full_path p f file_node)
      | EDirectory dir \<Rightarrow>
          if path_exists (join_str full_path (dn_name dir)) f then Inr removed
          else rbind (count_removed_entries env f (se_fuel env) (join_str p (dn_name dir)) (dn_hash dir)) (\<lambda>_.
                 Inr (insert (join_str p (dn_name dir)) removed))
      | _ \<Rightarrow> Inr removed)"

definition removed_root_file :: "fs \<Rightarrow> path \<Rightarrow> path \<Rightarrow> merkle_tree_node \<Rightarrow> path set \<Rightarrow> path set res" where
  "removed_root_file f full_path p child removed =
     (case t_node child of
        EFile file_node \<Rightarrow> Inr (removed \<union> removed_file full_path p f file_node)
      | _ \<Rightarrow> Inr removed)"

definition over_children ::
  "status_env \<Rightarrow> merkle_hash \<Rightarrow> (merkle_tree_node \<Rightarrow> 's \<Rightarrow> 's res) \<Rightarrow> 's \<Rightarrow> 's res" where
  "over_children env dir_hash g s =
     rbind (read_depth (se_store env) (se_fuel env) dir_hash 1) (\<lambda>dir_node.
       case dir_node of
         None \<Rightarrow> Inr s
       | Some node \<Rightarrow> rbind (list_files_and_folders node) (\<lambda>children. rfold g children s))"

text \<open>With subtrees only their own directories are checked; with the root as subtree, its files.\<close>

definition find_removed ::
  "status_env \<Rightarrow> fs \<Rightarrow> dir_hash_map \<Rightarrow> path \<Rightarrow> path \<Rightarrow> path set \<Rightarrow> path set res" where
  "find_removed env f dhs full_path p removed =
     (case map_of dhs p of
        None \<Rightarrow> Inr removed
      | Some dir_hash \<Rightarrow>
          (case se_subtrees env of
             Some subtrees \<Rightarrow>
               if p \<notin> set subtrees then Inr removed
               else if length subtrees = 1 \<and> hd subtrees = []
               then over_children env dir_hash (removed_root_file f full_path p) removed
               else over_children env dir_hash (removed_child env f full_path p) removed
           | None \<Rightarrow> over_children env dir_hash (removed_child env f full_path p) removed))"

section \<open>The walk\<close>

record changes =
  ch_untracked :: untracked_data
  ch_modified :: "path set"
  ch_removed :: "path set"

definition no_changes :: changes where
  "no_changes = \<lparr>ch_untracked = untracked_new, ch_modified = {}, ch_removed = {}\<rparr>"

definition merge_changes :: "changes \<Rightarrow> changes \<Rightarrow> changes" where
  "merge_changes a b =
     \<lparr>ch_untracked = merge_untracked (ch_untracked a) (ch_untracked b),
      ch_modified = ch_modified a \<union> ch_modified b, ch_removed = ch_removed a \<union> ch_removed b\<rparr>"

definition mark_tracked :: "changes \<Rightarrow> changes" where
  "mark_tracked c = c\<lparr>ch_untracked := (ch_untracked c)\<lparr>ud_all := False\<rparr>\<rparr>"

definition mark_modified :: "path \<Rightarrow> bool \<Rightarrow> changes \<Rightarrow> changes" where
  "mark_modified p b c = (if b then c\<lparr>ch_modified := insert p (ch_modified c)\<rparr> else c)"

text \<open>An entry of the directory: its path, whether it is a directory, its metadata.\<close>

type_synonym listed_entry = "path \<times> bool \<times> (nat \<times> file_time) res"

definition scan_entries :: "status_env \<Rightarrow> path \<Rightarrow> work_tree \<Rightarrow> listed_entry list res" where
  "scan_entries env full_path w =
     (if full_path \<in> fs_dirs (wt_fs w)
      then (case se_read_dir env (wt_fs w) full_path of
              Inl _ \<Rightarrow> Inl (Basic ''Could not read dir'')
            | Inr ps \<Rightarrow> Inr (map (\<lambda>q. (q, q \<in> fs_dirs (wt_fs w), metadata (se_work env) q w)) ps))
      else Inr [(full_path, False, metadata (se_work env) full_path w)])"

text \<open>
  An entry that is no directory. \<open>modified\<close> is the comparison with a file node. The number counts
  the files that are untracked.
\<close>

definition check_file ::
  "(path \<Rightarrow> bool) \<Rightarrow> (file_node \<Rightarrow> bool res) \<Rightarrow> merkle_tree_node option \<Rightarrow>
   (path, merkle_tree_node) hash_map option \<Rightarrow> path \<Rightarrow> path \<Rightarrow> changes \<times> nat \<Rightarrow> (changes \<times> nat) res" where
  "check_file staged modified search_node dir_children relative_path child_key = (\<lambda>(c, n).
     if staged relative_path then Inr (mark_tracked c, n)
     else case maybe_get_child_node child_key dir_children of
       Some node \<Rightarrow>
         (case t_node node of
            EFile f \<Rightarrow> rbind (modified f) (\<lambda>b. Inr (mark_modified relative_path b (mark_tracked c), n))
          | _ \<Rightarrow> Inr (mark_tracked c, n))
     | None \<Rightarrow>
         (case map_option t_node search_node of
            Some (EFile f) \<Rightarrow> rbind (modified f) (\<lambda>b. Inr (mark_modified relative_path b c, n))
          | _ \<Rightarrow> Inr (c\<lparr>ch_untracked := add_untracked_file relative_path (ch_untracked c)\<rparr>, Suc n)))"

definition collapse_untracked ::
  "(path \<Rightarrow> bool) \<Rightarrow> bool \<Rightarrow> merkle_tree_node option \<Rightarrow> path \<Rightarrow> nat \<Rightarrow> untracked_data \<Rightarrow> untracked_data" where
  "collapse_untracked staged dir search_node p n u =
     (if ud_all u \<and> p \<noteq> [] \<and> \<not> staged p \<and> dir \<and> search_node = None
      then u\<lparr>ud_dirs := add_untracked_dir p n (ud_dirs u), ud_files := []\<rparr>
      else u)"

fun find_changes ::
  "status_env \<Rightarrow> path set option \<Rightarrow> (path \<Rightarrow> bool) \<Rightarrow> dir_hash_map \<Rightarrow> work_tree \<Rightarrow> nat \<Rightarrow> path \<Rightarrow> changes res" where
  "find_changes env ignored staged dhs w 0 p = Inl (Panic ''stack overflow'')"
| "find_changes env ignored staged dhs w (Suc k) p =
     (let full_path = path_join (se_repo env) p; f = wt_fs w
      in if (case ignored of Some ps \<Rightarrow> p \<in> ps \<or> full_path \<in> ps | None \<Rightarrow> False) then Inr no_changes
         else rbind (scan_entries env full_path w) (\<lambda>entries.
              rbind (maybe_get_node env dhs p) (\<lambda>search_node.
              rbind (maybe_get_dir_children search_node) (\<lambda>dir_children.
              rbind (rfold (\<lambda>(q, dir, md) (c, n).
                  rbind (relative_to env q (se_repo env)) (\<lambda>relative_path.
                  rbind (relative_to env relative_path p) (\<lambda>child_key.
                    if is_ignored env f relative_path dir then Inr (c, n)
                    else if dir
                    then rbind (find_changes env ignored staged dhs w k relative_path) (\<lambda>sub. Inr (merge_changes c sub, n))
                    else check_file staged (\<lambda>node. fs_is_modified_from_node (se_work env) q node md w)
                           search_node dir_children relative_path child_key (c, n)))) entries (no_changes, 0)) (\<lambda>(c, n).
                let u = collapse_untracked staged (full_path \<in> fs_dirs f) search_node p n (ch_untracked c)
                in rbind (find_removed env f dhs full_path p (ch_removed c)) (\<lambda>removed.
                     Inr (c\<lparr>ch_untracked := u, ch_removed := removed\<rparr>)))))))"

section \<open>The walk in remote mode\<close>

text \<open>What the commit has and the disk has not counts as not downloaded, unless it is staged.\<close>

record unsynced_data =
  us_dirs :: "(path, nat) hash_map"
  us_files :: "path list"

definition unsynced_new :: unsynced_data where
  "unsynced_new = \<lparr>us_dirs = [], us_files = []\<rparr>"

definition add_unsynced_dir :: "path \<Rightarrow> nat \<Rightarrow> unsynced_data \<Rightarrow> unsynced_data" where
  "add_unsynced_dir p n u = u\<lparr>us_dirs := add_untracked_dir p n (us_dirs u)\<rparr>"

definition add_unsynced_file :: "path \<Rightarrow> unsynced_data \<Rightarrow> unsynced_data" where
  "add_unsynced_file p u = u\<lparr>us_files := us_files u @ [p]\<rparr>"

definition merge_unsynced :: "unsynced_data \<Rightarrow> unsynced_data \<Rightarrow> unsynced_data" where
  "merge_unsynced u v = \<lparr>us_dirs = hm_extend (us_dirs u) (us_dirs v), us_files = us_files u @ us_files v\<rparr>"

definition scan_local_entries :: "status_env \<Rightarrow> path \<Rightarrow> work_tree \<Rightarrow> (path \<times> bool) list res" where
  "scan_local_entries env full_path w =
     (if full_path \<in> fs_dirs (wt_fs w)
      then (case se_read_dir env (wt_fs w) full_path of
              Inl _ \<Rightarrow> Inl (Basic ''Could not read dir'')
            | Inr ps \<Rightarrow> rmap (\<lambda>q. rbind (metadata (se_work env) q w) (\<lambda>_. Inr (q, q \<in> fs_dirs (wt_fs w)))) ps)
      else rbind (metadata (se_work env) full_path w) (\<lambda>_. Inr [(full_path, False)]))"

text \<open>
  With the root as the only subtree a missing file is removed unless its path on the disk is among
  the files not downloaded, which are paths relative to the repository.
\<close>

definition removed_local_file ::
  "fs \<Rightarrow> path \<Rightarrow> path \<Rightarrow> merkle_tree_node \<Rightarrow> unsynced_data \<times> path set \<Rightarrow> (unsynced_data \<times> path set) res" where
  "removed_local_file f full_path p child = (\<lambda>(u, removed).
     case t_node child of
       EFile file_node \<Rightarrow>
         Inr (u, if join_str full_path (fn_name file_node) \<in> set (us_files u) then removed
                 else removed \<union> removed_file full_path p f file_node)
     | _ \<Rightarrow> Inr (u, removed))"

definition unsynced_child ::
  "status_env \<Rightarrow> (path \<Rightarrow> bool) \<Rightarrow> (path \<Rightarrow> bool) \<Rightarrow> fs \<Rightarrow> path \<Rightarrow> path \<Rightarrow> merkle_tree_node \<Rightarrow>
   unsynced_data \<times> path set \<Rightarrow> (unsynced_data \<times> path set) res" where
  "unsynced_child env file_staged dir_staged f full_path p child = (\<lambda>(u, removed).
     case t_node child of
       EFile file_node \<Rightarrow>
         (let q = join_str p (fn_name file_node)
          in Inr (if path_exists (join_str full_path (fn_name file_node)) f \<or> file_staged q then u
                  else add_unsynced_file q u, removed))
     | EDirectory dir \<Rightarrow>
         (let q = join_str p (dn_name dir)
          in if path_exists (join_str full_path (dn_name dir)) f \<or> dir_staged q then Inr (u, removed)
             else rbind (count_removed_entries env f (se_fuel env) q (dn_hash dir)) (\<lambda>count.
                    Inr (add_unsynced_dir q count u, removed)))
     | _ \<Rightarrow> Inr (u, removed))"

definition find_unsynced ::
  "status_env \<Rightarrow> (path \<Rightarrow> bool) \<Rightarrow> (path \<Rightarrow> bool) \<Rightarrow> fs \<Rightarrow> dir_hash_map \<Rightarrow> path \<Rightarrow> path \<Rightarrow>
   unsynced_data \<times> path set \<Rightarrow> (unsynced_data \<times> path set) res" where
  "find_unsynced env file_staged dir_staged f dhs full_path p s =
     (case map_of dhs p of
        None \<Rightarrow> Inr s
      | Some dir_hash \<Rightarrow>
          (case se_subtrees env of
             Some subtrees \<Rightarrow>
               if p \<notin> set subtrees then Inr s
               else if length subtrees = 1 \<and> hd subtrees = []
               then over_children env dir_hash (removed_local_file f full_path p) s
               else over_children env dir_hash (unsynced_child env file_staged dir_staged f full_path p) s
           | None \<Rightarrow> over_children env dir_hash (unsynced_child env file_staged dir_staged f full_path p) s))"

fun find_local_changes ::
  "status_env \<Rightarrow> path set option \<Rightarrow> (path \<Rightarrow> bool) \<Rightarrow> (path \<Rightarrow> bool) \<Rightarrow> dir_hash_map \<Rightarrow> work_tree \<Rightarrow> nat \<Rightarrow> path \<Rightarrow>
   (changes \<times> unsynced_data) res" where
  "find_local_changes env ignored file_staged dir_staged dhs w 0 p = Inl (Panic ''stack overflow'')"
| "find_local_changes env ignored file_staged dir_staged dhs w (Suc k) p =
     (let full_path = path_join (se_repo env) p; f = wt_fs w; staged = (\<lambda>q. file_staged q \<or> dir_staged q)
      in if (case ignored of Some ps \<Rightarrow> p \<in> ps \<or> full_path \<in> ps | None \<Rightarrow> False) then Inr (no_changes, unsynced_new)
         else rbind (scan_local_entries env full_path w) (\<lambda>entries.
              rbind (maybe_get_node env dhs p) (\<lambda>search_node.
              rbind (maybe_get_dir_children search_node) (\<lambda>dir_children.
              rbind (rfold (\<lambda>(q, dir) (c, n, u).
                  rbind (relative_to env q (se_repo env)) (\<lambda>relative_path.
                  rbind (relative_to env relative_path p) (\<lambda>child_key.
                    if is_ignored env f relative_path dir then Inr (c, n, u)
                    else if dir
                    then rbind (find_local_changes env ignored file_staged dir_staged dhs w k relative_path) (\<lambda>(sub, v).
                           Inr (merge_changes c sub, n, merge_unsynced u v))
                    else rbind (check_file staged (\<lambda>node. fs_is_modified_from_node (se_work env) q node (metadata (se_work env) q w) w)
                           search_node dir_children relative_path child_key (c, n)) (\<lambda>(c, n). Inr (c, n, u)))))
                  entries (no_changes, 0, unsynced_new)) (\<lambda>(c, n, u).
                let t = collapse_untracked staged (full_path \<in> fs_dirs f) search_node p n (ch_untracked c)
                in rbind (find_unsynced env file_staged dir_staged f dhs full_path p (u, ch_removed c)) (\<lambda>(u, removed).
                     Inr (c\<lparr>ch_untracked := t, ch_removed := removed\<rparr>, u)))))))"

section \<open>What is staged\<close>

record staged_entry =
  sg_hash :: string
  sg_status :: staged_entry_status

record dir_stats =
  ds_path :: path
  ds_num_files_staged :: nat
  ds_total_files :: nat
  ds_status :: staged_entry_status

text \<open>The numbers per directory are summed up under its first component.\<close>

record summarized_stats =
  sm_num_files_staged :: nat
  sm_total_files :: nat
  sm_paths :: "(path, dir_stats list) hash_map"

definition summarized_new :: summarized_stats where
  "summarized_new = \<lparr>sm_num_files_staged = 0, sm_total_files = 0, sm_paths = []\<rparr>"

definition add_stats :: "dir_stats \<Rightarrow> summarized_stats \<Rightarrow> summarized_stats" where
  "add_stats stats s =
     (let key = take 1 (ds_path stats)
      in \<lparr>sm_num_files_staged = sm_num_files_staged s + ds_num_files_staged stats,
          sm_total_files = sm_total_files s + ds_total_files stats,
          sm_paths = AList.update key ((case map_of (sm_paths s) key of None \<Rightarrow> [] | Some l \<Rightarrow> l) @ [stats]) (sm_paths s)\<rparr>)"

record 'c staged_data =
  sx_staged_dirs :: summarized_stats
  sx_staged_files :: "(path, staged_entry) hash_map"
  sx_staged_schemas :: "(path, generic_metadata) hash_map"
  sx_untracked_dirs :: "(path \<times> nat) list"
  sx_untracked_files :: "path list"
  sx_unsynced_dirs :: "(path \<times> nat) list"
  sx_unsynced_files :: "path list"
  sx_modified_files :: "path set"
  sx_moved_files :: "(path \<times> path \<times> string) list"
  sx_removed_files :: "path set"
  sx_merge_conflicts :: "'c list"

definition staged_data_empty :: "'c staged_data" where
  "staged_data_empty =
     \<lparr>sx_staged_dirs = summarized_new, sx_staged_files = [], sx_staged_schemas = [], sx_untracked_dirs = [],
      sx_untracked_files = [], sx_unsynced_dirs = [], sx_unsynced_files = [], sx_modified_files = {},
      sx_moved_files = [], sx_removed_files = {}, sx_merge_conflicts = []\<rparr>"

definition is_clean :: "'c staged_data \<Rightarrow> bool" where
  "is_clean d \<longleftrightarrow> sx_staged_files d = [] \<and> sm_paths (sx_staged_dirs d) = [] \<and> sx_staged_schemas d = [] \<and>
     sx_untracked_files d = [] \<and> sx_untracked_dirs d = [] \<and> sx_modified_files d = {} \<and> sx_removed_files d = {} \<and>
     sx_merge_conflicts d = [] \<and> sx_moved_files d = []"

definition maybe_add_schemas :: "status_env \<Rightarrow> file_node \<Rightarrow> 'c staged_data \<Rightarrow> 'c staged_data" where
  "maybe_add_schemas env node d =
     (case Option.bind (fd_metadata (file_data node)) (se_schema env) of
        None \<Rightarrow> d
      | Some schema \<Rightarrow> d\<lparr>sx_staged_schemas := AList.update (components (fn_name node)) schema (sx_staged_schemas d)\<rparr>)"

text \<open>
  One staged entry of a directory. A staged file was modified for a moment: it is taken out of the
  modified files again, as it is out of the removed ones.
\<close>

definition staged_node_step ::
  "status_env \<Rightarrow> path \<Rightarrow> staged_node \<Rightarrow> 'c staged_data \<times> nat \<times> nat \<Rightarrow> ('c staged_data \<times> nat \<times> nat) res" where
  "staged_node_step env dir entry = (\<lambda>(d, staged, removed).
     case t_node (sn_node entry) of
       EDirectory node \<Rightarrow>
         Inr (if map_of (sm_paths (sx_staged_dirs d)) dir = None
              then d\<lparr>sx_removed_files := sx_removed_files d - {components (dn_name node)}\<rparr> else d, staged, removed)
     | EFile node \<Rightarrow>
         (let p = components (fn_name node);
              d = (if sn_status entry = Modified then d\<lparr>sx_modified_files := insert p (sx_modified_files d)\<rparr> else d);
              d = d\<lparr>sx_staged_files := AList.update p \<lparr>sg_hash = merkle_hash_to_string (fn_hash node), sg_status = sn_status entry\<rparr>
                      (sx_staged_files d)\<rparr>;
              d = maybe_add_schemas env node d;
              d = d\<lparr>sx_removed_files := sx_removed_files d - {p}, sx_modified_files := sx_modified_files d - {p}\<rparr>
          in Inr (if sn_status entry = Removed then (d, staged, Suc removed) else (d, Suc staged, removed)))
     | _ \<Rightarrow> Inl (Basic ''status_from_dir found unexpected node type''))"

definition dir_entries_step ::
  "status_env \<Rightarrow> path \<times> staged_node list \<Rightarrow> 'c staged_data \<times> summarized_stats \<Rightarrow> ('c staged_data \<times> summarized_stats) res" where
  "dir_entries_step env = (\<lambda>(dir, entries) (d, s).
     rbind (rfold (staged_node_step env dir) entries (d, 0, 0)) (\<lambda>(d, staged, removed).
       let stats = \<lparr>ds_path = dir, ds_num_files_staged = staged, ds_total_files = 0, ds_status = Added\<rparr>;
           removed_stats = \<lparr>ds_path = dir, ds_num_files_staged = removed, ds_total_files = 0, ds_status = Removed\<rparr>;
           s = (if entries = []
                then add_stats (if dir \<in> sx_removed_files d then removed_stats else stats) s else s);
           s = (if staged > 0 then add_stats stats s else s);
           s = (if removed > 0 then add_stats removed_stats s else s)
       in Inr (d, s)))"

text \<open>Files added and removed with the same hash, paired from the ends of the two lists.\<close>

definition with_status :: "staged_entry_status \<Rightarrow> (path, staged_entry) hash_map \<Rightarrow> (string, path list) hash_map" where
  "with_status status files =
     fold (\<lambda>(p, e) m. if sg_status e = status
         then AList.update (sg_hash e) ((case map_of m (sg_hash e) of None \<Rightarrow> [] | Some l \<Rightarrow> l) @ [p]) m else m) files []"

definition find_moved_files :: "'c staged_data \<Rightarrow> 'c staged_data" where
  "find_moved_files d =
     (let added_map = with_status Added (sx_staged_files d);
          removed_map = with_status Removed (sx_staged_files d)
      in d\<lparr>sx_moved_files := sx_moved_files d @
           concat (map (\<lambda>(h, added_paths).
             case map_of removed_map h of
               None \<Rightarrow> []
             | Some removed_paths \<Rightarrow> map (\<lambda>(a, r). (a, r, h)) (zip (rev added_paths) (rev removed_paths))) added_map)\<rparr>)"

definition status_from_dir_entries ::
  "status_env \<Rightarrow> (path, staged_node list) hash_map \<Rightarrow> 'c staged_data \<Rightarrow> 'c staged_data res" where
  "status_from_dir_entries env entries d =
     rbind (rfold (dir_entries_step env) entries (d, summarized_new)) (\<lambda>(d, s).
       Inr (find_moved_files (d\<lparr>sx_staged_dirs := s\<rparr>)))"

section \<open>Status\<close>

record status_opts =
  so_paths :: "path list"
  so_ignore :: "path set option"

definition status_walk ::
  "status_env \<Rightarrow> status_opts \<Rightarrow> (path \<Rightarrow> bool) \<Rightarrow> dir_hash_map \<Rightarrow> work_tree \<Rightarrow> nat \<Rightarrow> changes res" where
  "status_walk env opts staged dhs w k =
     rfold (\<lambda>dir c.
       rbind (relative_to env dir (se_repo env)) (\<lambda>relative_dir.
       rbind (find_changes env (so_ignore opts) staged dhs w k relative_dir) (\<lambda>sub.
         Inr (merge_changes c sub)))) (so_paths opts) no_changes"

text \<open>
  \<open>head\<close> is the head commit, \<open>conflicts\<close> what \<open>list_conflicts\<close> answers, and \<open>staged_db\<close> the database
  of the staging area, where there is one.
\<close>

definition status_from_opts ::
  "status_env \<Rightarrow> ('d, 'v) staged_env \<Rightarrow> commit option res \<Rightarrow> 'c list res \<Rightarrow> status_opts \<Rightarrow> work_tree \<Rightarrow> nat \<Rightarrow> 'd option \<Rightarrow>
   'c staged_data res" where
  "status_from_opts env sd head conflicts opts w k staged_db =
     rbind head (\<lambda>head.
     rbind (get_dir_hashes (se_store env) head) (\<lambda>dhs.
     rbind (status_walk env opts (is_staged (sd_kv sd) staged_db) dhs w k) (\<lambda>c.
     rbind conflicts (\<lambda>conflicts.
       let d = staged_data_empty
             \<lparr>sx_untracked_dirs := ud_dirs (ch_untracked c), sx_untracked_files := ud_files (ch_untracked c),
              sx_modified_files := ch_modified c, sx_removed_files := ch_removed c, sx_merge_conflicts := conflicts\<rparr>
       in case staged_db of
            None \<Rightarrow> Inr d
          | Some db \<Rightarrow>
              rbind (rfold (\<lambda>dir m. rbind (read_staged_entries_below_path sd dir db) (\<lambda>(sub, _). Inr (hm_extend m sub)))
                      (so_paths opts) []) (\<lambda>entries.
                status_from_dir_entries env entries d)))))"

definition status_of :: "status_env \<Rightarrow> ('d, 'v) staged_env \<Rightarrow> commit option res \<Rightarrow> 'c list res \<Rightarrow> work_tree \<Rightarrow> nat \<Rightarrow> 'd option \<Rightarrow> 'c staged_data res" where
  "status_of env sd head conflicts w k staged_db =
     status_from_opts env sd head conflicts \<lparr>so_paths = [se_repo env], so_ignore = None\<rparr> w k staged_db"

definition file_staged :: "'c staged_data \<Rightarrow> path \<Rightarrow> bool" where
  "file_staged d p \<longleftrightarrow> map_of (sx_staged_files d) p \<noteq> None"

definition dir_staged :: "'c staged_data \<Rightarrow> path \<Rightarrow> bool" where
  "dir_staged d p \<longleftrightarrow> map_of (sm_paths (sx_staged_dirs d)) p \<noteq> None"

text \<open>
  In remote mode the staged data come from the workspace, and its fields are replaced (an error
  leaves the caller without them).
\<close>

definition status_from_opts_and_staged_data ::
  "status_env \<Rightarrow> commit option res \<Rightarrow> 'c list res \<Rightarrow> status_opts \<Rightarrow> work_tree \<Rightarrow> nat \<Rightarrow> 'c staged_data \<Rightarrow> 'c staged_data res" where
  "status_from_opts_and_staged_data env head conflicts opts w k d =
     rbind head (\<lambda>head.
     rbind (get_dir_hashes (se_store env) head) (\<lambda>dhs.
     rbind (rfold (\<lambda>dir (c, u).
         rbind (relative_to env dir (se_repo env)) (\<lambda>relative_dir.
         rbind (find_local_changes env (so_ignore opts) (file_staged d) (dir_staged d) dhs w k relative_dir) (\<lambda>(sub, v).
           Inr (merge_changes c sub, merge_unsynced u v)))) (so_paths opts) (no_changes, unsynced_new)) (\<lambda>(c, u).
     rbind conflicts (\<lambda>conflicts.
       Inr (d\<lparr>sx_untracked_dirs := ud_dirs (ch_untracked c), sx_untracked_files := ud_files (ch_untracked c),
              sx_unsynced_dirs := us_dirs u, sx_unsynced_files := us_files u,
              sx_modified_files := ch_modified c, sx_removed_files := ch_removed c,
              sx_merge_conflicts := sx_merge_conflicts d @ conflicts\<rparr>)))))"

end
