(* ===== verification/Status_Props.thy ===== *)
theory Status_Props
  imports Status Tree_Lookup_Props Working_Tree_Props Three_Way_Merge_Props
begin

text \<open>
  What \<open>status\<close> reports about a working tree under a committed tree: every file on disk that is not
  ignored is untracked, modified or neither, as the commit and the disk say, and what the commit
  has in a directory on disk and the disk has not is removed.
\<close>

section \<open>A directory of the commit, loaded to depth one\<close>

definition kids :: "merkle_tree_node \<Rightarrow> merkle_tree_node list" where
  "kids d = concat (map t_children (t_children d))"

lemma set_kids: "c \<in> set (kids d) \<longleftrightarrow> dir_entry d c"
  by (auto simp: kids_def dir_entry_def)

definition shallow :: "merkle_tree_node \<Rightarrow> merkle_tree_node" where
  "shallow c = (if may_have_children c \<and> descends 1 0 c then prune None 1 (child_depth 0 c) c else strip c)"

lemma shallow_node [simp]: "t_node (shallow c) = t_node c" "child_search_name (shallow c) = child_search_name c"
  by (cases c; simp add: shallow_def child_search_name_def)+

lemma fold_vnodes:
  assumes "\<And>v. v \<in> set vs \<Longrightarrow> is_vnode v"
  shows "fold (\<lambda>v acc. case t_node v of EVNode _ \<Rightarrow> g (t_children v) acc | _ \<Rightarrow> acc) vs acc =
    fold g (map t_children vs) acc"
  using assms
proof (induction vs arbitrary: acc)
  case (Cons v vs)
  have "is_vnode v" by (rule Cons.prems) simp
  then obtain h x p cs where "v = MTNode h (EVNode x) p cs" by (rule is_vnodeE)
  with Cons show ?case by simp
qed simp

lemma fold_append_acc: "fold (\<lambda>cs acc. acc @ cs) xss acc = acc @ concat xss"
  by (induction xss arbitrary: acc) auto

lemma fold_concat: "fold (fold h) xss acc = fold h (concat xss) acc"
  by (induction xss arbitrary: acc) auto

lemma kids_shallow:
  assumes "wf_tree d" "is_dir d"
  shows "concat (map t_children (t_children (prune None 1 0 d))) = map shallow (kids d)"
    and "\<And>v. v \<in> set (t_children (prune None 1 0 d)) \<Longrightarrow> is_vnode v"
proof -
  obtain h e p cs where d: "d = MTNode h (EDirectory e) p cs"
    using assms(2) by (cases d) (auto simp: is_dir_def split: e_merkle_tree_node.splits)
  have v: "may_have_children v \<and> descends 1 0 v \<and> child_depth 0 v = 0 \<and> t_children (prune None 1 0 v) = map shallow (t_children v) \<and>
      is_vnode (prune None 1 0 v)" if "v \<in> set cs" for v
  proof -
    have "is_vnode v" using wf_dir_entry [OF assms, of v] that by (simp add: d)
    then obtain h' x p' cs' where v: "v = MTNode h' (EVNode x) p' cs'" by (rule is_vnodeE)
    then show ?thesis
      by (simp add: descends_def child_depth_def may_have_children_def in_base_def shallow_def [abs_def])
  qed
  have pr: "t_children (prune None 1 0 d) = map (prune None 1 0) cs"
    using v by (simp add: d in_base_def)
  have "map t_children (map (prune None 1 0) cs) = map (map shallow \<circ> t_children) cs"
    using v by simp
  then show "concat (map t_children (t_children (prune None 1 0 d))) = map shallow (kids d)"
    unfolding pr by (simp add: kids_def d map_concat del: map_eq_conv)
  show "is_vnode v" if "v \<in> set (t_children (prune None 1 0 d))" for v
    using that v by (auto simp: pr)
qed

lemma read_dir_kids:
  assumes "wf_tree d" "is_dir d" "stored st d" "tree_size d \<le> fuel"
  obtains node where "read_depth st fuel (t_hash d) 1 = Inr (Some node)" "t_node node = t_node d"
    "list_files_and_folders node = Inr (map shallow (kids d))"
    "\<exists>m. list_files_and_folders_map node = Inr m \<and>
       map_of m = map_of (map (\<lambda>c. ([Normal (child_search_name c)], shallow c)) (kids d))"
proof -
  have may: "may_have_children d" using assms(2) by (rule is_dir_may)
  obtain pid where s: "st_exists st (t_hash d)" "st_from_hash st (t_hash d) = Inr (MTNode (t_hash d) (t_node d) pid [])"
    using assms(3) may by (cases d) auto
  let ?cs = "t_children (prune None 1 0 d)"
  let ?n = "MTNode (t_hash d) (t_node d) pid ?cs"
  have r: "read_depth st fuel (t_hash d) 1 = Inr (Some ?n)"
    using load_children_stored [OF assms(3,4), of None 1 0 pid no_sets] s by (simp add: read_depth_def)
  have ty: "node_type (t_node ?n) = TDir"
    using assms(2) by (auto simp: is_dir_def split: e_merkle_tree_node.splits)
  note sh = kids_shallow [OF assms(1,2)]
  have l: "list_files_and_folders ?n = Inr (map shallow (kids d))"
    using ty sh by (simp add: list_files_and_folders_def fold_vnodes [where g = "\<lambda>cs acc. acc @ cs"] fold_append_acc)
  have fd: "is_file c \<or> is_dir c" "valid_name (child_search_name c)" if "c \<in> set (kids d)" for c
    using wf_dir_entry [OF assms(1,2)] that by (auto simp: set_kids dir_entry_def)
  let ?u = "\<lambda>c m. case t_node c of EFile f \<Rightarrow> AList.update (components (fn_name f)) c m
            | EDirectory d \<Rightarrow> AList.update (components (dn_name d)) c m | _ \<Rightarrow> m"
  have "list_files_and_folders_map ?n = Inr (fold ?u (map shallow (kids d)) [])"
    using ty sh by (simp add: list_files_and_folders_map_def fold_vnodes [where g = "fold ?u"] fold_concat)
  also have "fold ?u (map shallow (kids d)) [] = hm_extend [] (map (\<lambda>c. ([Normal (child_search_name c)], shallow c)) (kids d))"
    unfolding hm_extend_def fold_map
  proof (rule fold_cong)
    fix c assume c: "c \<in> set (kids d)"
    show "(?u \<circ> shallow) c = ((\<lambda>(k, v). AList.update k v) \<circ> (\<lambda>c. ([Normal (child_search_name c)], shallow c))) c"
      using fd [OF c] by (auto simp: fun_eq_iff kind_defs child_search_name_def split: e_merkle_tree_node.splits)
  qed simp_all
  finally have m: "list_files_and_folders_map ?n = Inr (hm_extend [] (map (\<lambda>c. ([Normal (child_search_name c)], shallow c)) (kids d)))" .
  have "distinct (map child_search_name (kids d))"
    using assms(1,2) by (cases d) (auto simp: kids_def is_dir_def map_concat comp_def split: e_merkle_tree_node.splits)
  then have "distinct (map (\<lambda>c. [Normal (child_search_name c)]) (kids d))"
    by (simp add: distinct_map inj_on_def)
  then have "hm_wf (map (\<lambda>c. ([Normal (child_search_name c)], shallow c)) (kids d))"
    by (simp add: hm_wf_def comp_def)
  then show ?thesis using r l m by (intro that [of ?n]) (auto simp: map_of_extend)
qed

lemma kid_ok:
  assumes "wf_tree d" "is_dir d" "stored st d" "c \<in> set (kids d)"
  shows "wf_tree c" "is_file c \<or> is_dir c" "valid_name (child_search_name c)" "stored st c" "tree_size c < tree_size d"
    "t_hash c = node_hash (t_node c)"
proof -
  obtain v where v: "v \<in> set (t_children d)" "c \<in> set (t_children v)"
    using assms(4) by (auto simp: set_kids dir_entry_def)
  show wf: "wf_tree c" "is_file c \<or> is_dir c" "valid_name (child_search_name c)"
    using wf_dir_entry [OF assms(1,2) v(1)] v(2) by auto
  show "stored st c"
    using stored_entry [OF assms(1,3)] dir_entry_listed [OF assms(1,2), of c "[]"] assms(4) by (auto simp: set_kids)
  have "tree_size c < tree_size v" using v(2) member_tree_size [of c "t_children v"] by (cases v) auto
  moreover have "tree_size v < tree_size d" using v(1) member_tree_size [of v "t_children d"] by (cases d) auto
  ultimately show "tree_size c < tree_size d" by simp
  show "t_hash c = node_hash (t_node c)" using wf(1) by (cases c) simp
qed

section \<open>Removed paths\<close>

lemma rfold_total: "(\<And>x s. x \<in> set xs \<Longrightarrow> \<exists>t. f x s = Inr t) \<Longrightarrow> \<exists>t. rfold f xs s = Inr t"
proof (induction xs arbitrary: s)
  case (Cons x xs)
  obtain t where "f x s = Inr t" using Cons.prems [of x s] by auto
  with Cons show ?case by simp
qed simp

lemma count_removed_total:
  "wf_tree d \<Longrightarrow> is_dir d \<Longrightarrow> stored (se_store env) d \<Longrightarrow> tree_size d \<le> se_fuel env \<Longrightarrow> tree_size d \<le> k \<Longrightarrow>
   \<exists>n. count_removed_entries env f k q (t_hash d) = Inr n"
proof (induction k arbitrary: d q)
  case 0
  then show ?case by (cases d) simp
next
  case (Suc k)
  obtain node where n: "read_depth (se_store env) (se_fuel env) (t_hash d) 1 = Inr (Some node)"
    "list_files_and_folders node = Inr (map shallow (kids d))"
    using read_dir_kids [OF Suc.prems(1-4)] by metis
  let ?g = "\<lambda>child n. case t_node child of
                EFile _ \<Rightarrow> Inr (Suc n)
              | EDirectory dir \<Rightarrow>
                  rbind (count_removed_entries env f k (join_str q (dn_name dir)) (dn_hash dir)) (\<lambda>m. Inr (n + m))
              | _ \<Rightarrow> Inr n"
  have "\<exists>t. rfold ?g (map shallow (kids d)) 0 = Inr t"
  proof (rule rfold_total)
    fix x s assume "x \<in> set (map shallow (kids d))"
    then obtain c where c: "c \<in> set (kids d)" "t_node x = t_node c" by auto
    note ok = kid_ok [OF Suc.prems(1-3) c(1)]
    show "\<exists>t. ?g x s = Inr t"
    proof (cases "t_node c")
      case (EDirectory dir)
      then have "is_dir c" "t_hash c = dn_hash dir" using ok(6) by (simp_all add: is_dir_def)
      then obtain m where "count_removed_entries env f k (join_str q (dn_name dir)) (dn_hash dir) = Inr m"
        using Suc.IH [OF ok(1) _ ok(4), of "join_str q (dn_name dir)"] ok(5) Suc.prems(4,5) by auto
      then show ?thesis by (simp add: c(2) EDirectory)
    qed (simp_all add: c(2))
  qed
  then show ?case using n by auto
qed

definition missing_kids :: "fs \<Rightarrow> path \<Rightarrow> path \<Rightarrow> merkle_tree_node list \<Rightarrow> path set" where
  "missing_kids f full_path p cs =
     {p @ [Normal (child_search_name c)] | c. c \<in> set cs \<and> \<not> path_exists (full_path @ [Normal (child_search_name c)]) f}"

lemma removed_kids:
  assumes "wf_tree d" "is_dir d" "stored (se_store env) d" "tree_size d \<le> se_fuel env" "set cs \<subseteq> set (kids d)"
  shows "rfold (removed_child env f full_path p) (map shallow cs) r = Inr (r \<union> missing_kids f full_path p cs)"
  using assms(5)
proof (induction cs arbitrary: r)
  case (Cons c cs)
  note ok = kid_ok [OF assms(1-3), of c]
  have c: "c \<in> set (kids d)" using Cons.prems by simp
  have step: "removed_child env f full_path p (shallow c) r =
      Inr (r \<union> missing_kids f full_path p [c])"
  proof (cases "t_node c")
    case (EFile g)
    then have "child_search_name c = fn_name g" by (simp add: child_search_name_def)
    with ok(3) [OF c] EFile show ?thesis by (auto simp: removed_child_def removed_file_def missing_kids_def)
  next
    case (EDirectory dir)
    then have n: "child_search_name c = dn_name dir" "is_dir c" "t_hash c = dn_hash dir"
      using ok(6) [OF c] by (simp_all add: child_search_name_def is_dir_def)
    obtain m where "count_removed_entries env f (se_fuel env) (join_str p (dn_name dir)) (dn_hash dir) = Inr m"
      using count_removed_total [OF ok(1) [OF c] n(2) ok(4) [OF c], of "se_fuel env" f "join_str p (dn_name dir)"]
        ok(5) [OF c] assms(4) n(3) by auto
    with ok(3) [OF c] EDirectory n show ?thesis by (auto simp: removed_child_def missing_kids_def)
  qed (use ok(2) [OF c] in \<open>auto simp: kind_defs\<close>)
  have "missing_kids f full_path p (c # cs) = missing_kids f full_path p [c] \<union> missing_kids f full_path p cs"
    by (auto simp: missing_kids_def)
  with step Cons show ?case by (simp add: Un_assoc)
qed (simp add: missing_kids_def)

section \<open>The disk and the commit\<close>

text \<open>
  Below the repository a path that is there has its directory there and a name of one component, is
  a file or a directory, and \<open>read_dir\<close> lists what a directory holds. What lies below an ignored
  directory is ignored.
\<close>

definition disk_ok :: "status_env \<Rightarrow> fs \<Rightarrow> bool" where
  "disk_ok env f \<longleftrightarrow>
     (\<forall>p c. path_exists (se_repo env @ p @ [c]) f \<longrightarrow>
        se_repo env @ p \<in> fs_dirs f \<and> (\<exists>s. c = Normal s \<and> valid_name s)) \<and>
     (\<forall>p. se_repo env @ p \<in> fs_dirs f \<longrightarrow> fs_files f (se_repo env @ p) = None \<and>
        (\<exists>cs. distinct cs \<and> set cs = {c. path_exists (se_repo env @ p @ [c]) f} \<and>
          se_read_dir env f (se_repo env @ p) = Inr (map (\<lambda>c. se_repo env @ p @ [c]) cs))) \<and>
     (\<forall>p q b. is_ignored env f p True \<longrightarrow> is_ignored env f (p @ q) b)"

definition head_ok :: "status_env \<Rightarrow> dir_hash_map \<Rightarrow> merkle_tree_node \<Rightarrow> bool" where
  "head_ok env dhs root \<longleftrightarrow>
     wf_tree root \<and> is_dir root \<and> stored (se_store env) root \<and> tree_size root \<le> se_fuel env \<and> dir_hashes_ok dhs root \<and>
     (\<forall>P d. (P, d) \<in> set (tree_entries root []) \<longrightarrow> is_dir d \<longrightarrow> bucketed (wk_hash (se_work env)) P d)"

text \<open>A path of the commit that is on disk is there as what it was, and a file compares.\<close>

definition files_compare :: "status_env \<Rightarrow> merkle_tree_node \<Rightarrow> work_tree \<Rightarrow> bool" where
  "files_compare env root w \<longleftrightarrow>
     (\<forall>p x. (p, x) \<in> set (tree_entries root []) \<longrightarrow>
        (is_dir x \<longrightarrow> fs_files (wt_fs w) (se_repo env @ p) = None) \<and>
        (is_file x \<longrightarrow> se_repo env @ p \<notin> fs_dirs (wt_fs w)) \<and>
        (\<forall>g. t_node x = EFile g \<longrightarrow>
           (\<exists>b. fs_is_modified_from_node (se_work env) (se_repo env @ p) g (metadata (se_work env) (se_repo env @ p) w) w = Inr b)))"

lemma files_compareD:
  assumes "files_compare env root w" "(p, x) \<in> set (tree_entries root [])"
  shows "is_dir x \<Longrightarrow> fs_files (wt_fs w) (se_repo env @ p) = None" and "is_file x \<Longrightarrow> se_repo env @ p \<notin> fs_dirs (wt_fs w)"
    and "t_node x = EFile g \<Longrightarrow>
      \<exists>b. fs_is_modified_from_node (se_work env) (se_repo env @ p) g (metadata (se_work env) (se_repo env @ p) w) w = Inr b"
proof -
  have "(is_dir x \<longrightarrow> fs_files (wt_fs w) (se_repo env @ p) = None) \<and> (is_file x \<longrightarrow> se_repo env @ p \<notin> fs_dirs (wt_fs w)) \<and>
      (\<forall>g. t_node x = EFile g \<longrightarrow>
        (\<exists>b. fs_is_modified_from_node (se_work env) (se_repo env @ p) g (metadata (se_work env) (se_repo env @ p) w) w = Inr b))"
    using assms(1) [unfolded files_compare_def, THEN spec, THEN spec, of p x] assms(2) by (rule mp)
  then show "is_dir x \<Longrightarrow> fs_files (wt_fs w) (se_repo env @ p) = None" "is_file x \<Longrightarrow> se_repo env @ p \<notin> fs_dirs (wt_fs w)"
    "t_node x = EFile g \<Longrightarrow>
      \<exists>b. fs_is_modified_from_node (se_work env) (se_repo env @ p) g (metadata (se_work env) (se_repo env @ p) w) w = Inr b"
    by simp_all
qed

definition status_ok :: "status_env \<Rightarrow> dir_hash_map \<Rightarrow> merkle_tree_node \<Rightarrow> work_tree \<Rightarrow> bool" where
  "status_ok env dhs root w \<longleftrightarrow> disk_ok env (wt_fs w) \<and> head_ok env dhs root \<and> files_compare env root w"

section \<open>What status should report\<close>

definition tracked :: "merkle_tree_node \<Rightarrow> path \<Rightarrow> bool" where
  "tracked root p \<longleftrightarrow> p \<in> fst ` set (tree_entries root [])"

definition disk_file :: "status_env \<Rightarrow> work_tree \<Rightarrow> path \<Rightarrow> bool" where
  "disk_file env w p \<longleftrightarrow> fs_files (wt_fs w) (se_repo env @ p) \<noteq> None \<and> \<not> is_ignored env (wt_fs w) p False"

definition untracked_path :: "status_env \<Rightarrow> (path \<Rightarrow> bool) \<Rightarrow> merkle_tree_node \<Rightarrow> work_tree \<Rightarrow> path \<Rightarrow> bool" where
  "untracked_path env staged root w p \<longleftrightarrow> disk_file env w p \<and> \<not> staged p \<and> \<not> tracked root p"

definition modified_path :: "status_env \<Rightarrow> (path \<Rightarrow> bool) \<Rightarrow> merkle_tree_node \<Rightarrow> work_tree \<Rightarrow> path \<Rightarrow> bool" where
  "modified_path env staged root w p \<longleftrightarrow> disk_file env w p \<and> \<not> staged p \<and>
     (\<exists>x g. (p, x) \<in> set (tree_entries root []) \<and> t_node x = EFile g \<and>
        fs_is_modified_from_node (se_work env) (se_repo env @ p) g (metadata (se_work env) (se_repo env @ p) w) w = Inr True)"

definition removed_path :: "status_env \<Rightarrow> merkle_tree_node \<Rightarrow> work_tree \<Rightarrow> path \<Rightarrow> bool" where
  "removed_path env root w p \<longleftrightarrow> tracked root p \<and> p \<noteq> [] \<and> \<not> path_exists (se_repo env @ p) (wt_fs w) \<and>
     se_repo env @ butlast p \<in> fs_dirs (wt_fs w) \<and> (butlast p = [] \<or> \<not> is_ignored env (wt_fs w) (butlast p) True)"

text \<open>A file is reported as untracked by itself or with a directory above it.\<close>

definition covered :: "untracked_data \<Rightarrow> path \<Rightarrow> bool" where
  "covered u p \<longleftrightarrow> p \<in> set (ud_files u) \<or> (\<exists>k \<in> fst ` set (ud_dirs u). path_starts_with p k)"

text \<open>The files below the paths \<open>S\<close> are reported as they are, and nothing else is.\<close>

definition files_ok :: "(path \<Rightarrow> bool) \<Rightarrow> (path \<Rightarrow> bool) \<Rightarrow> (path \<Rightarrow> bool) \<Rightarrow> untracked_data \<Rightarrow> bool" where
  "files_ok file unt S u \<longleftrightarrow>
     (\<forall>k \<in> fst ` set (ud_dirs u). S k) \<and> (\<forall>r \<in> set (ud_files u). S r \<and> unt r) \<and>
     (\<forall>r. file r \<longrightarrow> covered u r \<longrightarrow> unt r) \<and> (\<forall>r. S r \<longrightarrow> unt r \<longrightarrow> covered u r) \<and>
     (ud_all u \<longleftrightarrow> (\<forall>r. S r \<longrightarrow> file r \<longrightarrow> unt r))"

definition reports ::
  "status_env \<Rightarrow> (path \<Rightarrow> bool) \<Rightarrow> merkle_tree_node \<Rightarrow> work_tree \<Rightarrow> (path \<Rightarrow> bool) \<Rightarrow> changes \<Rightarrow> bool" where
  "reports env staged root w S c \<longleftrightarrow>
     files_ok (disk_file env w) (untracked_path env staged root w) S (ch_untracked c) \<and>
     ch_modified c = {p. S p \<and> modified_path env staged root w p} \<and>
     ch_removed c = {p. S (butlast p) \<and> removed_path env root w p}"

lemma hm_extend_keys: "fst ` set (hm_extend m n) = fst ` set m \<union> fst ` set n"
proof -
  have "dom (map_of (hm_extend m n)) = dom (map_of m) \<union> dom (map_of n)"
    unfolding hm_extend_def by (induction n arbitrary: m) auto
  then show ?thesis by (simp add: dom_map_of_conv_image_fst)
qed

lemma files_ok_merge:
  assumes "files_ok file unt S u" "files_ok file unt T v"
  shows "files_ok file unt (\<lambda>r. S r \<or> T r) (merge_untracked u v)"
proof -
  have c: "covered (merge_untracked u v) r \<longleftrightarrow> covered u r \<or> covered v r" for r
    by (auto simp: covered_def merge_untracked_def hm_extend_keys)
  have k: "fst ` set (ud_dirs (merge_untracked u v)) = fst ` set (ud_dirs u) \<union> fst ` set (ud_dirs v)"
    "set (ud_files (merge_untracked u v)) = set (ud_files u) \<union> set (ud_files v)"
    "ud_all (merge_untracked u v) \<longleftrightarrow> ud_all u \<and> ud_all v"
    by (simp_all add: merge_untracked_def hm_extend_keys)
  have u: "\<forall>k \<in> fst ` set (ud_dirs u). S k" "\<forall>r \<in> set (ud_files u). S r \<and> unt r" "\<And>r. file r \<Longrightarrow> covered u r \<Longrightarrow> unt r"
    "\<And>r. S r \<Longrightarrow> unt r \<Longrightarrow> covered u r" "ud_all u \<longleftrightarrow> (\<forall>r. S r \<longrightarrow> file r \<longrightarrow> unt r)"
    using assms(1) by (simp_all add: files_ok_def)
  have v: "\<forall>k \<in> fst ` set (ud_dirs v). T k" "\<forall>r \<in> set (ud_files v). T r \<and> unt r" "\<And>r. file r \<Longrightarrow> covered v r \<Longrightarrow> unt r"
    "\<And>r. T r \<Longrightarrow> unt r \<Longrightarrow> covered v r" "ud_all v \<longleftrightarrow> (\<forall>r. T r \<longrightarrow> file r \<longrightarrow> unt r)"
    using assms(2) by (simp_all add: files_ok_def)
  show ?thesis unfolding files_ok_def c k
  proof (intro conjI)
    show "\<forall>k \<in> fst ` set (ud_dirs u) \<union> fst ` set (ud_dirs v). S k \<or> T k" using u(1) v(1) by auto
    show "\<forall>r \<in> set (ud_files u) \<union> set (ud_files v). (S r \<or> T r) \<and> unt r" using u(2) v(2) by auto
    show "\<forall>r. file r \<longrightarrow> covered u r \<or> covered v r \<longrightarrow> unt r" using u(3) v(3) by blast
    show "\<forall>r. S r \<or> T r \<longrightarrow> unt r \<longrightarrow> covered u r \<or> covered v r" using u(4) v(4) by blast
    show "(ud_all u \<and> ud_all v) = (\<forall>r. S r \<or> T r \<longrightarrow> file r \<longrightarrow> unt r)" unfolding u(5) v(5) by blast
  qed
qed

lemma reports_merge:
  assumes "reports env staged root w S c" "reports env staged root w T d"
  shows "reports env staged root w (\<lambda>r. S r \<or> T r) (merge_changes c d)"
  using assms files_ok_merge by (auto simp: reports_def merge_changes_def)

lemma reports_nothing: "reports env staged root w (\<lambda>r. False) no_changes"
  by (simp add: reports_def files_ok_def no_changes_def untracked_new_def covered_def)

section \<open>Paths on disk\<close>

lemma disk_prefix:
  assumes "disk_ok env f" "path_exists (se_repo env @ p @ q) f" "q \<noteq> []"
  shows "se_repo env @ p \<in> fs_dirs f"
  using assms(2,3)
proof (induction q rule: rev_induct)
  case (snoc c q)
  have "path_exists (se_repo env @ (p @ q) @ [c]) f" using snoc.prems by simp
  then have "se_repo env @ p @ q \<in> fs_dirs f" using assms(1) unfolding disk_ok_def by force
  then show ?case using snoc.IH by (cases q) (auto simp: path_exists_def)
qed simp

lemma disk_names:
  assumes "disk_ok env f" "path_exists (se_repo env @ p) f"
  shows "name_path p"
  using assms(2)
proof (induction p rule: rev_induct)
  case (snoc c p)
  then have "se_repo env @ p \<in> fs_dirs f \<and> (\<exists>s. c = Normal s \<and> valid_name s)"
    using assms(1) unfolding disk_ok_def by force
  with snoc show ?case by (auto simp: path_exists_def)
qed simp

lemma disk_dir: "disk_ok env f \<Longrightarrow> se_repo env @ p \<in> fs_dirs f \<Longrightarrow> fs_files f (se_repo env @ p) = None"
  by (simp add: disk_ok_def)

lemma disk_listed:
  assumes "disk_ok env f" "se_repo env @ p \<in> fs_dirs f"
  obtains cs where "distinct cs" "set cs = {c. path_exists (se_repo env @ p @ [c]) f}"
    "se_read_dir env f (se_repo env @ p) = Inr (map (\<lambda>c. se_repo env @ p @ [c]) cs)"
  using assms unfolding disk_ok_def by blast

lemma ignored_below: "disk_ok env f \<Longrightarrow> is_ignored env f p True \<Longrightarrow> is_ignored env f (p @ q) b"
  by (simp add: disk_ok_def)

lemma starts_with_iff: "path_starts_with p b \<longleftrightarrow> (\<exists>q. p = b @ q)"
  by (auto simp: path_starts_with_def) (metis append_take_drop_id)

lemma starts_with_below: "path_starts_with p b \<longleftrightarrow> p = b \<or> (\<exists>c. path_starts_with p (b @ [c]))"
  unfolding starts_with_iff by (metis append_Cons append_Nil append_Nil2 append_assoc neq_Nil_conv)

section \<open>A directory on disk and its node\<close>

lemma entry_parent:
  assumes "wf_tree root" "is_dir root" "(p @ [Normal s], x) \<in> set (tree_entries root [])"
  obtains d where "(p, d) \<in> set (tree_entries root [])" "is_dir d" "x \<in> set (kids d)" "child_search_name x = s"
  using entry_has_dir [OF assms] by (auto simp: set_kids)

lemma kid_entry:
  assumes "wf_tree root" "(p, d) \<in> set (tree_entries root [])" "is_dir d" "c \<in> set (kids d)"
  shows "(p @ [Normal (child_search_name c)], c) \<in> set (tree_entries root [])"
  using dir_entry_up [OF assms(1,2,3)] assms(4) by (simp add: set_kids)

text \<open>The directory's own node, and its children by name, when the commit has it.\<close>

definition node_found :: "status_env \<Rightarrow> dir_hash_map \<Rightarrow> path \<Rightarrow> merkle_tree_node \<Rightarrow> merkle_tree_node \<Rightarrow> bool" where
  "node_found env dhs p d node \<longleftrightarrow>
     map_of dhs p = Some (t_hash d) \<and> maybe_get_node env dhs p = Inr (Some node) \<and> t_node node = t_node d \<and>
     (\<exists>m. maybe_get_dir_children (Some node) = Inr (Some m) \<and>
       map_of m = map_of (map (\<lambda>c. ([Normal (child_search_name c)], shallow c)) (kids d))) \<and>
     read_depth (se_store env) (se_fuel env) (t_hash d) 1 = Inr (Some node) \<and>
     list_files_and_folders node = Inr (map shallow (kids d))"

lemma node_of_dir:
  assumes ok: "status_ok env dhs root w" and p: "se_repo env @ p \<in> fs_dirs (wt_fs w)"
  obtains (tracked) d node where "(p, d) \<in> set (tree_entries root [])" "is_dir d" "node_found env dhs p d node"
    | (untracked) "\<not> tracked root p" "map_of dhs p = None" "maybe_get_node env dhs p = Inr None"
proof -
  have h: "wf_tree root" "is_dir root" "stored (se_store env) root" "tree_size root \<le> se_fuel env" "dir_hashes_ok dhs root"
    "\<And>P d. (P, d) \<in> set (tree_entries root []) \<Longrightarrow> is_dir d \<Longrightarrow> bucketed (wk_hash (se_work env)) P d"
    using ok by (auto simp: status_ok_def head_ok_def)
  have nf: "\<not> is_file root" using h(2) by (auto simp: kind_defs split: e_merkle_tree_node.splits)
  show ?thesis
  proof (cases "map_of dhs p")
    case (Some i)
    then obtain d where d: "(p, d) \<in> set (tree_entries root [])" "is_dir d" "t_hash d = i"
      using h(5) by (auto simp: dir_hashes_ok_def)
    have wd: "wf_tree d" "stored (se_store env) d" "tree_size d \<le> se_fuel env"
      using wf_entry [OF h(1) d(1)] stored_entry [OF h(1,3) d(1)] h(4) by auto
    obtain node where n: "read_depth (se_store env) (se_fuel env) (t_hash d) 1 = Inr (Some node)" "t_node node = t_node d"
      "list_files_and_folders node = Inr (map shallow (kids d))"
      "\<exists>m. list_files_and_folders_map node = Inr m \<and>
       map_of m = map_of (map (\<lambda>c. ([Normal (child_search_name c)], shallow c)) (kids d))"
      by (rule read_dir_kids [OF wd(1) d(2) wd(2,3)])
    have "maybe_get_dir_children (Some node) = rbind (list_files_and_folders_map node) (\<lambda>m. Inr (Some m))"
      using d(2) n(2) by (auto simp: maybe_get_dir_children_def is_dir_def split: e_merkle_tree_node.splits)
    then have "node_found env dhs p d node"
      using n Some d(3) by (auto simp: node_found_def maybe_get_node_def)
    with d show ?thesis by (intro tracked)
  next
    case None
    have name: "name_path p" using disk_names [of env "wt_fs w" p] ok p by (simp add: status_ok_def path_exists_def)
    have none: "(p, x) \<notin> set (tree_entries root [])" for x
    proof
      assume x: "(p, x) \<in> set (tree_entries root [])"
      have "\<not> is_file x" using ok x p by (auto simp: status_ok_def files_compare_def)
      moreover have "is_dir x \<or> is_file x" using entry_kind [OF x] by auto
      ultimately have "\<exists>d. (p, d) \<in> set (tree_entries root []) \<and> is_dir d \<and> t_hash d = t_hash x" using x by blast
      then have "map_of dhs p = Some (t_hash x)" using h(5) unfolding dir_hashes_ok_def by blast
      with None show False by simp
    qed
    have g: "get_by_path root p = None"
      using none by (cases "get_by_path root p") (auto simp: get_by_path_entries [OF h(1) nf] map_of_tree_entries [OF h(1)])
    have "p \<noteq> []" using none [of root] tree_entries_root_dir [OF h(2), of "[]"] by auto
    then have "read_file (wk_hash (se_work env)) (se_store env) (se_fuel env) dhs p = Inr None"
      using read_file_search [OF h(1-6) name] g by simp
    with None none show ?thesis by (intro untracked) (auto simp: maybe_get_node_def tracked_def)
  qed
qed

section \<open>One entry of a directory\<close>

definition file_changes :: "status_env \<Rightarrow> (path \<Rightarrow> bool) \<Rightarrow> merkle_tree_node \<Rightarrow> work_tree \<Rightarrow> path \<Rightarrow> changes" where
  "file_changes env staged root w q =
     \<lparr>ch_untracked = \<lparr>ud_dirs = [], ud_files = (if untracked_path env staged root w q then [q] else []),
                      ud_all = untracked_path env staged root w q\<rparr>,
      ch_modified = (if modified_path env staged root w q then {q} else {}), ch_removed = {}\<rparr>"

lemma merge_file_changes:
  "merge_changes c (file_changes env staged root w q) =
     c\<lparr>ch_untracked := (ch_untracked c)\<lparr>ud_files := ud_files (ch_untracked c) @ (if untracked_path env staged root w q then [q] else []),
          ud_all := (ud_all (ch_untracked c) \<and> untracked_path env staged root w q)\<rparr>,
       ch_modified := ch_modified c \<union> (if modified_path env staged root w q then {q} else {})\<rparr>"
  by (cases c; cases "ch_untracked c") (simp add: merge_changes_def merge_untracked_def file_changes_def hm_extend_def)

lemma merge_nothing [simp]: "merge_changes c no_changes = c"
  by (cases c; cases "ch_untracked c")
    (simp add: merge_changes_def merge_untracked_def no_changes_def untracked_new_def hm_extend_def)

lemma disk_file_not_dir:
  assumes "disk_ok env f" "fs_files f (se_repo env @ p) \<noteq> None"
  shows "se_repo env @ p @ q \<notin> fs_dirs f" and "q \<noteq> [] \<Longrightarrow> fs_files f (se_repo env @ p @ q) = None"
proof -
  have n: "se_repo env @ p \<notin> fs_dirs f" using disk_dir [OF assms(1)] assms(2) by auto
  have "path_exists (se_repo env @ p @ q) f \<Longrightarrow> q = []" using disk_prefix [OF assms(1), of p q] n by auto
  then show "se_repo env @ p @ q \<notin> fs_dirs f" "q \<noteq> [] \<Longrightarrow> fs_files f (se_repo env @ p @ q) = None"
    using n by (cases "fs_files f (se_repo env @ p @ q)"; auto simp: path_exists_def)+
qed

lemma reports_file:
  assumes "disk_ok env (wt_fs w)" "disk_file env w q"
  shows "reports env staged root w (\<lambda>r. path_starts_with r q) (file_changes env staged root w q)"
proof -
  have f: "fs_files (wt_fs w) (se_repo env @ q) \<noteq> None" using assms(2) by (simp add: disk_file_def)
  have only: "r = q" if "path_starts_with r q" "disk_file env w r" for r
    using that disk_file_not_dir(2) [OF assms(1) f] by (force simp: starts_with_iff disk_file_def)
  have rem: "\<not> removed_path env root w r" if r: "path_starts_with (butlast r) q" for r
  proof -
    obtain x where "butlast r = q @ x" using r by (auto simp: starts_with_iff)
    then show ?thesis using disk_file_not_dir(1) [OF assms(1) f, of x] by (simp add: removed_path_def)
  qed
  have self: "path_starts_with q q" by (simp add: starts_with_iff)
  have u: "untracked_path env staged root w r \<Longrightarrow> disk_file env w r" "modified_path env staged root w r \<Longrightarrow> disk_file env w r" for r
    by (simp_all add: untracked_path_def modified_path_def)
  have "files_ok (disk_file env w) (untracked_path env staged root w) (\<lambda>r. path_starts_with r q)
      (ch_untracked (file_changes env staged root w q))"
    unfolding files_ok_def covered_def file_changes_def using only u self assms(2) by auto
  then show ?thesis unfolding reports_def file_changes_def using only u self rem by auto
qed

lemma reports_ignored:
  assumes "disk_ok env (wt_fs w)" "is_ignored env (wt_fs w) q d"
    and "d \<longleftrightarrow> se_repo env @ q \<in> fs_dirs (wt_fs w)" "path_exists (se_repo env @ q) (wt_fs w)" "q \<noteq> []"
  shows "reports env staged root w (\<lambda>r. path_starts_with r q) no_changes"
proof -
  have disk: "\<not> disk_file env w r" if r: "path_starts_with r q" for r
  proof -
    obtain x where x: "r = q @ x" using r by (auto simp: starts_with_iff)
    show ?thesis
    proof (cases d)
      case True
      then show ?thesis using ignored_below [OF assms(1)] assms(2) by (simp add: disk_file_def x)
    next
      case False
      then have f: "fs_files (wt_fs w) (se_repo env @ q) \<noteq> None" using assms(3,4) by (auto simp: path_exists_def)
      show ?thesis
        using disk_file_not_dir(2) [OF assms(1) f, of x] assms(2) False by (cases "x = []") (auto simp: disk_file_def x)
    qed
  qed
  have rem: "\<not> removed_path env root w t" if t: "path_starts_with (butlast t) q" for t
  proof -
    obtain x where x: "butlast t = q @ x" using t by (auto simp: starts_with_iff)
    show ?thesis
    proof (cases d)
      case True
      then show ?thesis using ignored_below [OF assms(1)] assms(2,5) by (simp add: removed_path_def x)
    next
      case False
      then have f: "fs_files (wt_fs w) (se_repo env @ q) \<noteq> None" using assms(3,4) by (auto simp: path_exists_def)
      show ?thesis using disk_file_not_dir(1) [OF assms(1) f, of x] by (simp add: removed_path_def x)
    qed
  qed
  have u: "untracked_path env staged root w r \<Longrightarrow> disk_file env w r" "modified_path env staged root w r \<Longrightarrow> disk_file env w r" for r
    by (simp_all add: untracked_path_def modified_path_def)
  have "files_ok (disk_file env w) (untracked_path env staged root w) (\<lambda>r. path_starts_with r q) untracked_new"
    unfolding files_ok_def covered_def untracked_new_def using disk u(1) by auto
  then show ?thesis unfolding reports_def no_changes_def using disk u(2) rem by auto
qed

lemma entries_unique:
  "wf_tree root \<Longrightarrow> is_dir root \<Longrightarrow> (p, x) \<in> set (tree_entries root []) \<Longrightarrow> (p, y) \<in> set (tree_entries root []) \<Longrightarrow> x = y"
  using map_of_tree_entries by (metis option.inject)

text \<open>The node of a directory on disk answers for its files.\<close>

definition dir_node_for :: "status_env \<Rightarrow> dir_hash_map \<Rightarrow> merkle_tree_node \<Rightarrow> path \<Rightarrow> merkle_tree_node option \<Rightarrow> (path, merkle_tree_node) hash_map option \<Rightarrow> bool" where
  "dir_node_for env dhs root p sn dc \<longleftrightarrow>
     maybe_get_node env dhs p = Inr sn \<and> maybe_get_dir_children sn = Inr dc \<and>
     (case sn of None \<Rightarrow> dc = None \<and> \<not> tracked root p \<and> map_of dhs p = None
      | Some node \<Rightarrow> (\<exists>d m. (p, d) \<in> set (tree_entries root []) \<and> is_dir d \<and> node_found env dhs p d node \<and> dc = Some m \<and>
          map_of m = map_of (map (\<lambda>c. ([Normal (child_search_name c)], shallow c)) (kids d))))"

lemma dir_node_exists:
  assumes "status_ok env dhs root w" "se_repo env @ p \<in> fs_dirs (wt_fs w)"
  obtains sn dc where "dir_node_for env dhs root p sn dc"
proof (cases rule: node_of_dir [OF assms])
  case (1 d node)
  then obtain m where "maybe_get_dir_children (Some node) = Inr (Some m)"
    "map_of m = map_of (map (\<lambda>c. ([Normal (child_search_name c)], shallow c)) (kids d))"
    unfolding node_found_def by blast
  with 1 show thesis by (intro that [of "Some node" "Some m"]) (auto simp: dir_node_for_def node_found_def)
next
  case 2
  then show thesis by (intro that [of None None]) (simp add: dir_node_for_def maybe_get_dir_children_def)
qed

lemma check_file_reports:
  assumes ok: "status_ok env dhs root w" and sn: "dir_node_for env dhs root p sn dc" and q: "disk_file env w (p @ [Normal s])"
  shows "\<exists>n'. check_file staged (\<lambda>g. fs_is_modified_from_node (se_work env) (se_repo env @ p @ [Normal s]) g
      (metadata (se_work env) (se_repo env @ p @ [Normal s]) w) w) sn dc (p @ [Normal s]) [Normal s] (c, n) =
    Inr (merge_changes c (file_changes env staged root w (p @ [Normal s])), n')"
proof -
  let ?q = "p @ [Normal s]"
  have h: "wf_tree root" "is_dir root" "files_compare env root w" using ok by (simp_all add: status_ok_def head_ok_def)
  show ?thesis
  proof (cases "staged ?q")
    case True
    then have "\<not> untracked_path env staged root w ?q" "\<not> modified_path env staged root w ?q"
      by (simp_all add: untracked_path_def modified_path_def)
    with True show ?thesis by (simp add: check_file_def merge_file_changes mark_tracked_def)
  next
    case ns: False
    have untracked: ?thesis
      if "\<not> tracked root ?q" "maybe_get_child_node [Normal s] dc = None" "\<And>g. map_option t_node sn \<noteq> Some (EFile g)"
    proof -
      have "untracked_path env staged root w ?q" "\<not> modified_path env staged root w ?q"
        using ns q that(1) by (force simp: untracked_path_def modified_path_def tracked_def)+
      then have "merge_changes c (file_changes env staged root w ?q) =
          c\<lparr>ch_untracked := add_untracked_file ?q (ch_untracked c)\<rparr>"
        by (cases c; cases "ch_untracked c") (simp add: merge_file_changes add_untracked_file_def)
      moreover have "check_file staged modified sn dc ?q [Normal s] (c, n) =
          Inr (c\<lparr>ch_untracked := add_untracked_file ?q (ch_untracked c)\<rparr>, Suc n)" for modified
      proof (cases sn)
        case None
        then show ?thesis using ns that(2) by (simp add: check_file_def)
      next
        case (Some x)
        then have nf: "t_node x \<noteq> EFile g" for g using that(3) [of g] by simp
        show ?thesis
        proof (cases "t_node x")
          case (EFile g)
          then show ?thesis using nf [of g] by blast
        qed (use Some ns that(2) in \<open>simp_all add: check_file_def\<close>)
      qed
      ultimately show ?thesis by simp
    qed
    show ?thesis
    proof (cases sn)
      case None
      then have n: "dc = None" "\<not> tracked root p" using sn by (simp_all add: dir_node_for_def)
      have "\<not> tracked root ?q"
      proof
        assume "tracked root ?q"
        then obtain x where x: "(?q, x) \<in> set (tree_entries root [])" by (auto simp: tracked_def)
        obtain d where "(p, d) \<in> set (tree_entries root [])" by (rule entry_parent [OF h(1,2) x])
        then have "tracked root p" unfolding tracked_def by (rule image_eqI [rotated]) simp
        with n(2) show False by blast
      qed
      then show ?thesis by (rule untracked) (simp_all add: None n maybe_get_child_node_def)
    next
      case (Some node)
      then obtain d m where d: "(p, d) \<in> set (tree_entries root [])" "is_dir d" "node_found env dhs p d node" "dc = Some m"
        "map_of m = map_of (map (\<lambda>c. ([Normal (child_search_name c)], shallow c)) (kids d))"
        using sn by (auto simp: dir_node_for_def)
      have no_file: "map_option t_node sn \<noteq> Some (EFile g)" for g
        using d(2,3) Some by (auto simp: node_found_def is_dir_def)
      show ?thesis
      proof (cases "map_of m [Normal s]")
        case none: None
        have "\<not> tracked root ?q"
        proof
          assume "tracked root ?q"
          then obtain x where x: "(?q, x) \<in> set (tree_entries root [])" by (auto simp: tracked_def)
          obtain d' where d': "(p, d') \<in> set (tree_entries root [])" "x \<in> set (kids d')" "child_search_name x = s"
            by (rule entry_parent [OF h(1,2) x])
          then have "d' = d" using entries_unique [OF h(1,2)] d(1) by blast
          with d' none d(5) show False by (force simp: map_of_eq_None_iff)
        qed
        then show ?thesis by (rule untracked) (use no_file none d(4) in \<open>simp_all add: maybe_get_child_node_def\<close>)
      next
        case some: (Some y)
        then have "([Normal s], y) \<in> set (map (\<lambda>c. ([Normal (child_search_name c)], shallow c)) (kids d))"
          using d(5) map_of_SomeD by metis
        then obtain x where x: "x \<in> set (kids d)" "child_search_name x = s" "y = shallow x" by auto
        then have e: "(?q, x) \<in> set (tree_entries root [])" using kid_entry [OF h(1) d(1,2)] by blast
        have "fs_files (wt_fs w) (se_repo env @ ?q) \<noteq> None" using q by (simp add: disk_file_def)
        then have "\<not> is_dir x" using files_compareD(1) [OF h(3) e] by auto
        then obtain g where g: "t_node x = EFile g" using entry_kind [OF e] by (auto simp: kind_defs split: e_merkle_tree_node.splits)
        obtain b where b: "fs_is_modified_from_node (se_work env) (se_repo env @ ?q) g (metadata (se_work env) (se_repo env @ ?q) w) w = Inr b"
          using files_compareD(3) [OF h(3) e g] by blast
        have "modified_path env staged root w ?q \<longleftrightarrow> b"
        proof
          assume "modified_path env staged root w ?q"
          then obtain x' g' where m: "(?q, x') \<in> set (tree_entries root [])" "t_node x' = EFile g'"
            "fs_is_modified_from_node (se_work env) (se_repo env @ ?q) g' (metadata (se_work env) (se_repo env @ ?q) w) w = Inr True"
            unfolding modified_path_def by blast
          have "x' = x" by (rule entries_unique [OF h(1,2) m(1) e])
          with m g b show b by simp
        next
          assume b
          then have "fs_is_modified_from_node (se_work env) (se_repo env @ ?q) g (metadata (se_work env) (se_repo env @ ?q) w) w = Inr True"
            using b by simp
          with ns q e g show "modified_path env staged root w ?q" unfolding modified_path_def by blast
        qed
        moreover have "\<not> untracked_path env staged root w ?q" using e by (force simp: untracked_path_def tracked_def)
        ultimately have "merge_changes c (file_changes env staged root w ?q) = mark_modified ?q b (mark_tracked c)"
          by (cases c; cases "ch_untracked c") (simp add: merge_file_changes mark_tracked_def mark_modified_def)
        moreover have child: "maybe_get_child_node [Normal s] dc = Some y" "t_node y = EFile g"
          using some d(4) x(3) g by (simp_all add: maybe_get_child_node_def)
        have step: "check_file staged modified sn dc ?q [Normal s] (c, n) = Inr (mark_modified ?q b (mark_tracked c), n)"
          if "modified g = Inr b" for modified
          unfolding check_file_def using ns that by (simp add: child)
        have "check_file staged (\<lambda>g. fs_is_modified_from_node (se_work env) (se_repo env @ ?q) g
            (metadata (se_work env) (se_repo env @ ?q) w) w) sn dc ?q [Normal s] (c, n) =
          Inr (mark_modified ?q b (mark_tracked c), n)" by (rule step) (rule b)
        ultimately show ?thesis by (intro exI [of _ n]) simp
      qed
    qed
  qed
qed

section \<open>The entries of a directory\<close>

definition entry_step ::
  "status_env \<Rightarrow> path set option \<Rightarrow> (path \<Rightarrow> bool) \<Rightarrow> dir_hash_map \<Rightarrow> work_tree \<Rightarrow> nat \<Rightarrow> path \<Rightarrow> merkle_tree_node option \<Rightarrow>
   (path, merkle_tree_node) hash_map option \<Rightarrow> listed_entry \<Rightarrow> changes \<times> nat \<Rightarrow> (changes \<times> nat) res" where
  "entry_step env ignored staged dhs w k p sn dc = (\<lambda>(q, dir, md) (c, n).
     rbind (relative_to env q (se_repo env)) (\<lambda>relative_path.
     rbind (relative_to env relative_path p) (\<lambda>child_key.
       if is_ignored env (wt_fs w) relative_path dir then Inr (c, n)
       else if dir
       then rbind (find_changes env ignored staged dhs w k relative_path) (\<lambda>sub. Inr (merge_changes c sub, n))
       else check_file staged (\<lambda>node. fs_is_modified_from_node (se_work env) q node md w) sn dc relative_path child_key (c, n))))"

definition listed :: "status_env \<Rightarrow> work_tree \<Rightarrow> path \<Rightarrow> listed_entry" where
  "listed env w q = (se_repo env @ q, se_repo env @ q \<in> fs_dirs (wt_fs w), metadata (se_work env) (se_repo env @ q) w)"

lemma entry_reports:
  assumes ok: "status_ok env dhs root w" and sn: "dir_node_for env dhs root p sn dc"
    and c: "path_exists (se_repo env @ p @ [c]) (wt_fs w)"
    and sub: "se_repo env @ p @ [c] \<in> fs_dirs (wt_fs w) \<Longrightarrow> \<not> is_ignored env (wt_fs w) (p @ [c]) True \<Longrightarrow>
      \<exists>d. find_changes env None staged dhs w k (p @ [c]) = Inr d \<and> reports env staged root w (\<lambda>r. path_starts_with r (p @ [c])) d"
  shows "\<exists>sub n'. entry_step env None staged dhs w k p sn dc (listed env w (p @ [c])) (acc, n) = Inr (merge_changes acc sub, n') \<and>
    reports env staged root w (\<lambda>r. path_starts_with r (p @ [c])) sub"
proof -
  let ?q = "p @ [c]" and ?f = "wt_fs w" and ?dir = "se_repo env @ p @ [c] \<in> fs_dirs (wt_fs w)"
  have disk: "disk_ok env ?f" using ok by (simp add: status_ok_def)
  have names: "name_path ?q" by (rule disk_names [OF disk]) (use c in simp)
  then have rel: "relative_to env (se_repo env @ ?q) (se_repo env) = Inr ?q" "relative_to env ?q p = Inr [c]"
    using relative_to_prefix [of ?q] relative_to_prefix [of "[c]"] by (simp_all add: relative_to_def)
  obtain s where s: "c = Normal s" using disk c unfolding disk_ok_def by blast
  show ?thesis
  proof (cases "is_ignored env ?f ?q ?dir")
    case True
    have "reports env staged root w (\<lambda>r. path_starts_with r ?q) no_changes"
      by (rule reports_ignored [OF disk True]) (use c in simp_all)
    with True rel show ?thesis by (intro exI [of _ no_changes] exI [of _ n]) (simp add: entry_step_def listed_def)
  next
    case ni: False
    show ?thesis
    proof (cases ?dir)
      case True
      then obtain d where d: "find_changes env None staged dhs w k ?q = Inr d" "reports env staged root w (\<lambda>r. path_starts_with r ?q) d"
        using sub ni by auto
      with True ni rel show ?thesis by (intro exI [of _ d] exI [of _ n]) (simp add: entry_step_def listed_def)
    next
      case False
      then have q: "disk_file env w ?q" using c ni by (auto simp: disk_file_def path_exists_def)
      obtain n' where "check_file staged (\<lambda>g. fs_is_modified_from_node (se_work env) (se_repo env @ ?q) g
          (metadata (se_work env) (se_repo env @ ?q) w) w) sn dc ?q [c] (acc, n) =
        Inr (merge_changes acc (file_changes env staged root w ?q), n')"
        using check_file_reports [OF ok sn q [unfolded s], of staged acc n] unfolding s by blast
      with False ni rel reports_file [OF disk q] show ?thesis
        by (intro exI [of _ "file_changes env staged root w ?q"] exI [of _ n']) (simp add: entry_step_def listed_def)
    qed
  qed
qed

lemma entries_report:
  assumes ok: "status_ok env dhs root w" and sn: "dir_node_for env dhs root p sn dc"
    and cs: "\<forall>c \<in> set cs. path_exists (se_repo env @ p @ [c]) (wt_fs w)"
    and sub: "\<And>c. se_repo env @ p @ [c] \<in> fs_dirs (wt_fs w) \<Longrightarrow> \<not> is_ignored env (wt_fs w) (p @ [c]) True \<Longrightarrow>
      \<exists>d. find_changes env None staged dhs w k (p @ [c]) = Inr d \<and> reports env staged root w (\<lambda>r. path_starts_with r (p @ [c])) d"
    and "reports env staged root w S acc"
  shows "\<exists>c n'. rfold (entry_step env None staged dhs w k p sn dc) (map (\<lambda>c. listed env w (p @ [c])) cs) (acc, n) = Inr (c, n') \<and>
    reports env staged root w (\<lambda>r. S r \<or> (\<exists>c \<in> set cs. path_starts_with r (p @ [c]))) c"
  using cs assms(5)
proof (induction cs arbitrary: acc n S)
  case (Cons c cs)
  obtain d n1 where d: "entry_step env None staged dhs w k p sn dc (listed env w (p @ [c])) (acc, n) = Inr (merge_changes acc d, n1)"
    "reports env staged root w (\<lambda>r. path_starts_with r (p @ [c])) d"
    using entry_reports [where c = c and acc = acc and n = n, OF ok sn _ sub] Cons.prems(1) by auto
  have "reports env staged root w (\<lambda>r. S r \<or> path_starts_with r (p @ [c])) (merge_changes acc d)"
    by (rule reports_merge [OF Cons.prems(2) d(2)])
  from Cons.IH [OF _ this, of n1] Cons.prems(1) d(1) show ?case by (simp add: disj_assoc)
qed simp

section \<open>A whole directory\<close>

lemma keys_updated: "fst ` set (AList.update k v m) = insert k (fst ` set m)"
  by (simp add: dom_map_of_conv_image_fst [symmetric] update_conv')

lemma keys_deleted: "fst ` set (fold AList.delete ks m) = fst ` set m - set ks"
proof (induction ks arbitrary: m)
  case (Cons k ks)
  have "fst ` set (AList.delete k m) = fst ` set m - {k}"
    by (auto simp: dom_map_of_conv_image_fst [symmetric] delete_conv' split: if_splits)
  then show ?case using Cons [of "AList.delete k m"] by auto
qed simp

lemma collapsed:
  assumes u: "files_ok file unt S u" and all: "ud_all u" and S: "\<And>r. S r \<longleftrightarrow> path_starts_with r p"
    and unt: "\<And>r. unt r \<Longrightarrow> file r"
  shows "files_ok file unt S (u\<lparr>ud_dirs := add_untracked_dir p n (ud_dirs u), ud_files := []\<rparr>)"
proof -
  let ?m = "add_untracked_dir p n (ud_dirs u)"
  have "\<forall>k \<in> fst ` set (ud_dirs u). path_starts_with k p" using u S by (simp add: files_ok_def)
  then have "fst ` set ?m = {p}"
    by (auto simp: add_untracked_dir_def Let_def keys_updated keys_deleted)
  then show ?thesis using u all by (auto simp: files_ok_def covered_def S starts_with_iff)
qed

lemma below_listed:
  assumes "disk_ok env f" "set cs = {c. path_exists (se_repo env @ p @ [c]) f}" "path_exists (se_repo env @ r) f"
    "path_starts_with r p" "r \<noteq> p"
  shows "\<exists>c \<in> set cs. path_starts_with r (p @ [c])"
proof -
  obtain y where y: "r = p @ y" using assms(4) by (auto simp: starts_with_iff)
  then obtain c x where r: "r = (p @ [c]) @ x" using assms(5) by (cases y) auto
  have "path_exists (se_repo env @ p @ [c]) f"
    using disk_prefix [OF assms(1), of "p @ [c]" x] assms(3) by (cases "x = []") (simp_all add: r path_exists_def)
  with assms(2) r show ?thesis by (auto simp: starts_with_iff)
qed

lemma reports_whole:
  assumes disk: "disk_ok env (wt_fs w)" and p: "se_repo env @ p \<in> fs_dirs (wt_fs w)"
    and cs: "set cs = {c. path_exists (se_repo env @ p @ [c]) (wt_fs w)}"
    and c: "reports env staged root w (\<lambda>r. \<exists>c \<in> set cs. path_starts_with r (p @ [c])) c"
  shows "files_ok (disk_file env w) (untracked_path env staged root w) (\<lambda>r. path_starts_with r p) (ch_untracked c)"
    and "ch_modified c = {r. path_starts_with r p \<and> modified_path env staged root w r}"
    and "ch_removed c = {r. path_starts_with (butlast r) p \<and> butlast r \<noteq> p \<and> removed_path env root w r}"
proof -
  let ?S = "\<lambda>r. \<exists>c \<in> set cs. path_starts_with r (p @ [c])"
  have sub: "?S r \<Longrightarrow> path_starts_with r p" for r by (auto simp: starts_with_iff)
  have found: "path_starts_with r p \<Longrightarrow> disk_file env w r \<Longrightarrow> ?S r" for r
  proof -
    assume r: "path_starts_with r p" "disk_file env w r"
    then have "r \<noteq> p" using disk_dir [OF disk p] by (auto simp: disk_file_def)
    moreover have "path_exists (se_repo env @ r) (wt_fs w)" using r(2) by (simp add: disk_file_def path_exists_def)
    ultimately show ?thesis using below_listed [OF disk cs _ r(1)] by blast
  qed
  have u: "untracked_path env staged root w r \<Longrightarrow> disk_file env w r" "modified_path env staged root w r \<Longrightarrow> disk_file env w r" for r
    by (simp_all add: untracked_path_def modified_path_def)
  have fo: "files_ok (disk_file env w) (untracked_path env staged root w) ?S (ch_untracked c)"
    and mo: "ch_modified c = {p. ?S p \<and> modified_path env staged root w p}"
    and re: "ch_removed c = {p. ?S (butlast p) \<and> removed_path env root w p}"
    using c by (simp_all add: reports_def)
  show "files_ok (disk_file env w) (untracked_path env staged root w) (\<lambda>r. path_starts_with r p) (ch_untracked c)"
  proof -
    have k: "\<forall>k \<in> fst ` set (ud_dirs (ch_untracked c)). ?S k" "\<forall>r \<in> set (ud_files (ch_untracked c)). ?S r \<and> untracked_path env staged root w r"
      "\<forall>r. disk_file env w r \<longrightarrow> covered (ch_untracked c) r \<longrightarrow> untracked_path env staged root w r"
      "\<And>r. ?S r \<Longrightarrow> untracked_path env staged root w r \<Longrightarrow> covered (ch_untracked c) r"
      "ud_all (ch_untracked c) \<longleftrightarrow> (\<forall>r. ?S r \<longrightarrow> disk_file env w r \<longrightarrow> untracked_path env staged root w r)"
      using fo unfolding files_ok_def by metis+
    show ?thesis unfolding files_ok_def
    proof (intro conjI)
      show "\<forall>k \<in> fst ` set (ud_dirs (ch_untracked c)). path_starts_with k p" using k(1) sub by metis
      show "\<forall>r \<in> set (ud_files (ch_untracked c)). path_starts_with r p \<and> untracked_path env staged root w r" using k(2) sub by metis
      show "\<forall>r. path_starts_with r p \<longrightarrow> untracked_path env staged root w r \<longrightarrow> covered (ch_untracked c) r"
        using k(4) found u(1) by metis
      show "ud_all (ch_untracked c) = (\<forall>r. path_starts_with r p \<longrightarrow> disk_file env w r \<longrightarrow> untracked_path env staged root w r)"
        unfolding k(5) using sub found by metis
    qed (rule k(3))
  qed
  show "ch_modified c = {r. path_starts_with r p \<and> modified_path env staged root w r}"
    unfolding mo using sub found u(2) by blast
  have "?S (butlast r) \<longleftrightarrow> path_starts_with (butlast r) p \<and> butlast r \<noteq> p" if "removed_path env root w r" for r
  proof -
    have "path_exists (se_repo env @ butlast r) (wt_fs w)" using that by (simp add: removed_path_def path_exists_def)
    moreover have "butlast r \<noteq> p" if "?S (butlast r)" using that by (auto simp: starts_with_iff)
    ultimately show ?thesis using below_listed [OF disk cs] sub by blast
  qed
  then show "ch_removed c = {r. path_starts_with (butlast r) p \<and> butlast r \<noteq> p \<and> removed_path env root w r}"
    unfolding re by blast
qed

lemma removed_here:
  assumes ok: "status_ok env dhs root w" and sn: "dir_node_for env dhs root p sn dc" and p: "se_repo env @ p \<in> fs_dirs (wt_fs w)"
    and vis: "p = [] \<or> \<not> is_ignored env (wt_fs w) p True" and sub: "se_subtrees env = None"
  shows "find_removed env (wt_fs w) dhs (se_repo env @ p) p R =
    Inr (R \<union> {r. r \<noteq> [] \<and> butlast r = p \<and> removed_path env root w r})"
proof -
  have h: "wf_tree root" "is_dir root" "stored (se_store env) root" "tree_size root \<le> se_fuel env"
    using ok by (simp_all add: status_ok_def head_ok_def)
  have kid: "\<exists>d c. (p, d) \<in> set (tree_entries root []) \<and> is_dir d \<and> c \<in> set (kids d) \<and> r = p @ [Normal (child_search_name c)]"
    if r: "r \<noteq> []" "butlast r = p" "removed_path env root w r" for r
  proof -
    obtain x where x: "(r, x) \<in> set (tree_entries root [])" using r(3) by (auto simp: removed_path_def tracked_def)
    have "name_path r" using entry_paths_named [OF h(1,2) _ x] by simp
    then have "\<exists>s. last r = Normal s" using r(1) last_in_set [of r] unfolding name_path_def by blast
    then obtain s where s: "last r = Normal s" by blast
    then have e: "r = p @ [Normal s]" using r(1,2) append_butlast_last_id [of r] by simp
    with x show ?thesis using entry_parent [OF h(1,2), of p s x] by metis
  qed
  show ?thesis
  proof (cases sn)
    case None
    then have n: "\<not> tracked root p" "map_of dhs p = None" using sn by (simp_all add: dir_node_for_def)
    have "{r. r \<noteq> [] \<and> butlast r = p \<and> removed_path env root w r} = {}"
      using kid n(1) by (force simp: tracked_def)
    then show ?thesis using n(2) by (simp only: find_removed_def) simp
  next
    case (Some node)
    then obtain d where d: "(p, d) \<in> set (tree_entries root [])" "is_dir d" "node_found env dhs p d node"
      using sn by (auto simp: dir_node_for_def)
    have wd: "wf_tree d" "stored (se_store env) d" "tree_size d \<le> se_fuel env"
      using wf_entry [OF h(1) d(1)] stored_entry [OF h(1,3) d(1)] h(4) by auto
    have "find_removed env (wt_fs w) dhs (se_repo env @ p) p R =
        rfold (removed_child env (wt_fs w) (se_repo env @ p) p) (map shallow (kids d)) R"
      using d(3) sub by (simp add: find_removed_def over_children_def node_found_def)
    also have "\<dots> = Inr (R \<union> missing_kids (wt_fs w) (se_repo env @ p) p (kids d))"
      by (rule removed_kids [OF wd(1) d(2) wd(2,3)]) simp
    also have "missing_kids (wt_fs w) (se_repo env @ p) p (kids d) = {r. r \<noteq> [] \<and> butlast r = p \<and> removed_path env root w r}"
    proof (rule set_eqI, rule iffI)
      fix r assume "r \<in> missing_kids (wt_fs w) (se_repo env @ p) p (kids d)"
      then obtain c where c: "c \<in> set (kids d)" "r = p @ [Normal (child_search_name c)]" "\<not> path_exists (se_repo env @ r) (wt_fs w)"
        by (auto simp: missing_kids_def)
      have "tracked root r" using kid_entry [OF h(1) d(1,2) c(1)] c(2) by (force simp: tracked_def)
      then show "r \<in> {r. r \<noteq> [] \<and> butlast r = p \<and> removed_path env root w r}"
        using c p vis by (simp add: removed_path_def)
    next
      fix r assume "r \<in> {r. r \<noteq> [] \<and> butlast r = p \<and> removed_path env root w r}"
      then have r: "r \<noteq> []" "butlast r = p" "removed_path env root w r" by simp_all
      obtain d' c where c: "(p, d') \<in> set (tree_entries root [])" "c \<in> set (kids d')" "r = p @ [Normal (child_search_name c)]"
        using kid [OF r] by blast
      have "d' = d" by (rule entries_unique [OF h(1,2) c(1) d(1)])
      with c r(3) show "r \<in> missing_kids (wt_fs w) (se_repo env @ p) p (kids d)"
        by (auto simp: missing_kids_def removed_path_def)
    qed
    finally show ?thesis .
  qed
qed

text \<open>The walk below a directory reports what is below it. It needs as much fuel as directories lie below each other.\<close>

lemma find_changes_reports:
  assumes ok: "status_ok env dhs root w" and sub: "se_subtrees env = None"
  shows "se_repo env @ p \<in> fs_dirs (wt_fs w) \<Longrightarrow> p = [] \<or> \<not> is_ignored env (wt_fs w) p True \<Longrightarrow>
    \<forall>q. se_repo env @ p @ q \<in> fs_dirs (wt_fs w) \<longrightarrow> length q < k \<Longrightarrow>
    \<exists>c. find_changes env None staged dhs w k p = Inr c \<and> reports env staged root w (\<lambda>r. path_starts_with r p) c"
proof (induction k arbitrary: p)
  case 0
  then show ?case by (metis append_Nil2 less_nat_zero_code)
next
  case (Suc k)
  have disk: "disk_ok env (wt_fs w)" using ok by (simp add: status_ok_def)
  have p: "se_repo env @ p \<in> fs_dirs (wt_fs w)" using Suc.prems(1) .
  have "name_path p" by (rule disk_names [OF disk]) (use p in \<open>simp add: path_exists_def\<close>)
  then have full: "path_join (se_repo env) p = se_repo env @ p" by (rule path_join_names)
  obtain cs where cs: "set cs = {c. path_exists (se_repo env @ p @ [c]) (wt_fs w)}"
    "se_read_dir env (wt_fs w) (se_repo env @ p) = Inr (map (\<lambda>c. se_repo env @ p @ [c]) cs)"
    using disk_listed [OF disk p] by metis
  then have scan: "scan_entries env (se_repo env @ p) w = Inr (map (\<lambda>c. listed env w (p @ [c])) cs)"
    using p by (simp add: scan_entries_def listed_def comp_def)
  obtain sn dc where sn: "dir_node_for env dhs root p sn dc" by (rule dir_node_exists [OF ok p])
  have below: "\<exists>d. find_changes env None staged dhs w k (p @ [c]) = Inr d \<and> reports env staged root w (\<lambda>r. path_starts_with r (p @ [c])) d"
    if "se_repo env @ p @ [c] \<in> fs_dirs (wt_fs w)" "\<not> is_ignored env (wt_fs w) (p @ [c]) True" for c
  proof (rule Suc.IH)
    show "\<forall>q. se_repo env @ (p @ [c]) @ q \<in> fs_dirs (wt_fs w) \<longrightarrow> length q < k"
    proof (intro allI impI)
      fix q assume "se_repo env @ (p @ [c]) @ q \<in> fs_dirs (wt_fs w)"
      then show "length q < k" using Suc.prems(3) [rule_format, of "c # q"] by simp
    qed
  qed (use that in simp_all)
  obtain c n where loop: "rfold (entry_step env None staged dhs w k p sn dc) (map (\<lambda>c. listed env w (p @ [c])) cs) (no_changes, 0) = Inr (c, n)"
    and rep: "reports env staged root w (\<lambda>r. False \<or> (\<exists>c \<in> set cs. path_starts_with r (p @ [c]))) c"
    using entries_report [OF ok sn _ below reports_nothing, of cs 0] cs(1) by auto
  note whole = reports_whole [OF disk p cs(1) rep [unfolded simp_thms]]
  let ?u = "collapse_untracked staged (se_repo env @ p \<in> fs_dirs (wt_fs w)) sn p n (ch_untracked c)"
  let ?R = "ch_removed c \<union> {r. r \<noteq> [] \<and> butlast r = p \<and> removed_path env root w r}"
  have run: "find_changes env None staged dhs w (Suc k) p = Inr (c\<lparr>ch_untracked := ?u, ch_removed := ?R\<rparr>)"
    using scan loop [unfolded entry_step_def [abs_def]] sn removed_here [OF ok sn p Suc.prems(2) sub, of "ch_removed c"]
    by (simp add: full dir_node_for_def)
  have u: "files_ok (disk_file env w) (untracked_path env staged root w) (\<lambda>r. path_starts_with r p) ?u"
  proof (cases "ud_all (ch_untracked c) \<and> p \<noteq> [] \<and> \<not> staged p \<and> se_repo env @ p \<in> fs_dirs (wt_fs w) \<and> sn = None")
    case True
    then show ?thesis unfolding collapse_untracked_def
      using collapsed [OF whole(1), of p n] by (simp add: untracked_path_def)
  next
    case False
    then have "?u = ch_untracked c" unfolding collapse_untracked_def by (simp only: if_False)
    with whole(1) show ?thesis by simp
  qed
  have "removed_path env root w r \<Longrightarrow> r \<noteq> []" for r by (simp add: removed_path_def)
  then have "?R = {r. path_starts_with (butlast r) p \<and> removed_path env root w r}"
    unfolding whole(3) by (auto simp: starts_with_iff)
  with u whole(2) have "reports env staged root w (\<lambda>r. path_starts_with r p) (c\<lparr>ch_untracked := ?u, ch_removed := ?R\<rparr>)"
    by (simp add: reports_def)
  with run show ?case by blast
qed

section \<open>The whole working tree\<close>

text \<open>C10: what \<open>status\<close> reports is what is on disk. The walk over the whole working tree of a repository
  that is not a partial clone ends, and then: the modified files are exactly the tracked files on disk
  that are not ignored, not staged and differ from the head commit; the removed paths are exactly the
  paths of the head commit that are gone from a directory that is still there and not ignored; and
  a file on disk that is not ignored is reported as untracked, by itself or with a directory above it,
  exactly when it is neither staged nor in the head commit, so that no tracked or staged file lies
  below a directory that is reported as untracked. Where nothing is staged \<open>status\<close> answers with these
  three. It relies on this: the head commit's tree can be read and no path of it has turned from a
  file into a directory or back, \<open>read_dir\<close> lists what is there, a directory that is ignored ignores
  what is below it, and the times of the tracked files can be compared.\<close>

theorem status_reports_working_tree:
  assumes "dir_hashes (se_store env) hc = Inr dhs" and "status_ok env dhs root w" and "se_subtrees env = None"
    and "se_repo env \<in> fs_dirs (wt_fs w)" and "\<forall>q. se_repo env @ q \<in> fs_dirs (wt_fs w) \<longrightarrow> length q < k"
  shows "\<exists>c. status_walk env \<lparr>so_paths = [se_repo env], so_ignore = None\<rparr> staged dhs w k = Inr c \<and>
    ch_modified c = {p. modified_path env staged root w p} \<and> ch_removed c = {p. removed_path env root w p} \<and>
    set (ud_files (ch_untracked c)) \<subseteq> {p. untracked_path env staged root w p} \<and>
    (\<forall>p. disk_file env w p \<longrightarrow> (covered (ch_untracked c) p \<longleftrightarrow> untracked_path env staged root w p)) \<and>
    (staged = (\<lambda>_. False) \<longrightarrow>
       status_of env sd (Inr (Some hc)) (Inr conflicts) w k None = Inr (staged_data_empty
         \<lparr>sx_untracked_dirs := ud_dirs (ch_untracked c), sx_untracked_files := ud_files (ch_untracked c),
          sx_modified_files := ch_modified c, sx_removed_files := ch_removed c, sx_merge_conflicts := conflicts\<rparr>))"
proof -
  obtain d where d: "find_changes env None staged dhs w k [] = Inr d" "reports env staged root w (\<lambda>r. path_starts_with r []) d"
    using find_changes_reports [OF assms(2,3), of "[]" k staged] assms(4,5) by auto
  let ?c = "merge_changes no_changes d"
  have all: "path_starts_with r []" for r :: path by (simp add: starts_with_iff)
  have rep: "reports env staged root w (\<lambda>r. True) ?c"
    using reports_merge [OF reports_nothing d(2)] by (simp add: all)
  have run: "status_walk env \<lparr>so_paths = [se_repo env], so_ignore = None\<rparr> staged dhs w k = Inr ?c"
    using d(1) relative_to_prefix [of "[]" "se_lower env" "se_repo env"] by (simp add: status_walk_def relative_to_def)
  have stat: "status_of env sd (Inr (Some hc)) (Inr conflicts) w k None = Inr (staged_data_empty
         \<lparr>sx_untracked_dirs := ud_dirs (ch_untracked ?c), sx_untracked_files := ud_files (ch_untracked ?c),
          sx_modified_files := ch_modified ?c, sx_removed_files := ch_removed ?c, sx_merge_conflicts := conflicts\<rparr>)"
    if "staged = (\<lambda>_. False)"
  proof -
    have "is_staged (sd_kv sd) None = staged" by (simp add: that is_staged_def fun_eq_iff)
    then show ?thesis using run assms(1) by (simp add: status_of_def status_from_opts_def get_dir_hashes_def)
  qed
  have u: "files_ok (disk_file env w) (untracked_path env staged root w) (\<lambda>r. True) (ch_untracked ?c)"
    and mr: "ch_modified ?c = {p. modified_path env staged root w p}" "ch_removed ?c = {p. removed_path env root w p}"
    using rep by (simp_all add: reports_def)
  have files: "set (ud_files (ch_untracked ?c)) \<subseteq> {p. untracked_path env staged root w p}"
    and cov: "\<forall>p. disk_file env w p \<longrightarrow> (covered (ch_untracked ?c) p \<longleftrightarrow> untracked_path env staged root w p)"
    using u unfolding files_ok_def by blast+
  from run mr files cov stat show ?thesis by (intro exI [of _ ?c] conjI) (assumption | rule impI, assumption)+
qed

text \<open>The sample commit has \<open>a\<close> and \<open>d/b\<close>; on disk are a longer \<open>a\<close> and the new file \<open>n\<close>.\<close>

definition sample_status_env :: status_env where
  "sample_status_env =
     \<lparr>se_work = \<lparr>wk_repo = [Normal ''r''], wk_store = local_root [Normal ''r''] None, wk_tolerance = 0, wk_now = (9, 9),
        wk_round = (\<lambda>t. t), wk_dir_stat = (\<lambda>_ _. (0, (0, 0))), wk_hash = (\<lambda>_. 0), wk_metadata_hash = (\<lambda>_ _. Inr None)\<rparr>,
      se_store = tree_store sample_tree sample_kvs, se_fuel = 6, se_lower = (\<lambda>s. s),
      se_read_dir = (\<lambda>_ _. Inr [[Normal ''r'', Normal ''a''], [Normal ''r'', Normal ''n'']]),
      se_gitignore = (\<lambda>_ _ _. False), se_subtrees = None, se_schema = (\<lambda>_. None)\<rparr>"

definition sample_working_tree :: work_tree where
  "sample_working_tree =
     \<lparr>wt_fs = \<lparr>fs_dirs = {[], [Normal ''r'']},
        fs_files = [[Normal ''r'', Normal ''a''] \<mapsto> [1], [Normal ''r'', Normal ''n''] \<mapsto> [2]]\<rparr>,
      wt_mtime = (\<lambda>_. (0, 0))\<rparr>"

lemma sample_status_sel [simp]:
  "se_repo sample_status_env = [Normal ''r'']" "se_store sample_status_env = tree_store sample_tree sample_kvs"
  "se_fuel sample_status_env = 6" "wk_hash (se_work sample_status_env) = (\<lambda>_. 0)" "se_subtrees sample_status_env = None"
  "is_ignored sample_status_env f p b \<longleftrightarrow> path_starts_with p [Normal ''.oxen'']"
  "se_read_dir sample_status_env f p = Inr [[Normal ''r'', Normal ''a''], [Normal ''r'', Normal ''n'']]"
  by (simp_all add: sample_status_env_def se_repo_def is_ignored_def)

lemma sample_disk:
  "fs_files (wt_fs sample_working_tree) (Normal ''r'' # p) =
     (if p = [Normal ''a''] then Some [1] else if p = [Normal ''n''] then Some [2] else None)"
  "Normal ''r'' # p \<in> fs_dirs (wt_fs sample_working_tree) \<longleftrightarrow> p = []"
  by (auto simp: sample_working_tree_def)

lemma sample_modified:
  "fs_is_modified_from_node (se_work sample_status_env) [Normal ''r'', Normal ''a''] (sample_file ''a'' 1)
     (metadata (se_work sample_status_env) [Normal ''r'', Normal ''a''] sample_working_tree) sample_working_tree = Inr True"
  by (simp add: fs_is_modified_from_node_def path_exists_def sample_disk metadata_def classify_modified_def sample_file_def
      fn_num_bytes_def file_node_default_def fn_last_modified_def last_modified_time_def fn_last_modified_seconds_def
      fn_last_modified_nanoseconds_def)

lemma sample_status_ok: "status_ok sample_status_env [([], 8), ([Normal ''d''], 5)] (hd (t_children sample_tree)) sample_working_tree"
proof -
  let ?r = "hd (t_children sample_tree)"
  have there: "path_exists (Normal ''r'' # p) (wt_fs sample_working_tree) \<longleftrightarrow> p \<in> {[], [Normal ''a''], [Normal ''n'']}" for p
    by (simp add: path_exists_def sample_disk)
  have "disk_ok sample_status_env (wt_fs sample_working_tree)"
    unfolding disk_ok_def
  proof (intro conjI allI impI)
    fix p assume "se_repo sample_status_env @ p \<in> fs_dirs (wt_fs sample_working_tree)"
    then have p: "p = []" by (simp add: sample_disk)
    show "fs_files (wt_fs sample_working_tree) (se_repo sample_status_env @ p) = None" by (simp add: p sample_disk)
    show "\<exists>cs. distinct cs \<and> set cs = {c. path_exists (se_repo sample_status_env @ p @ [c]) (wt_fs sample_working_tree)} \<and>
        se_read_dir sample_status_env (wt_fs sample_working_tree) (se_repo sample_status_env @ p) =
          Inr (map (\<lambda>c. se_repo sample_status_env @ p @ [c]) cs)"
      by (rule exI [of _ "[Normal ''a'', Normal ''n'']"]) (auto simp: p there)
  next
    fix p q b assume "is_ignored sample_status_env (wt_fs sample_working_tree) p True"
    then show "is_ignored sample_status_env (wt_fs sample_working_tree) (p @ q) b" by (auto simp: starts_with_iff)
  qed (auto simp: there sample_disk append_eq_Cons_conv valid_name_def)
  moreover have "bucketed (\<lambda>_. 0) P d" if "(P, d) \<in> set (tree_entries ?r [])" "is_dir d" for P d
    using that unfolding sample_root_entries by (auto simp: bucketed_def sample_tree_def)
  then have "head_ok sample_status_env [([], 8), ([Normal ''d''], 5)] ?r"
    using sample_root sample_dir_hashes_ok by (simp add: head_ok_def)
  moreover have "files_compare sample_status_env ?r sample_working_tree"
    unfolding files_compare_def
  proof (intro allI impI)
    fix p x assume x: "(p, x) \<in> set (tree_entries ?r [])"
    let ?is = "\<lambda>g. fs_is_modified_from_node (se_work sample_status_env) (se_repo sample_status_env @ p) g
      (metadata (se_work sample_status_env) (se_repo sample_status_env @ p) sample_working_tree) sample_working_tree"
    have "\<exists>b. ?is g = Inr b" if g: "t_node x = EFile g" for g
    proof (cases "p = [Normal ''a'']")
      case True
      with x g have "g = sample_file ''a'' 1" unfolding sample_root_entries by (auto simp: sample_tree_def)
      with True sample_modified show ?thesis by (intro exI [of _ True]) simp
    next
      case False
      then have "\<not> path_exists (Normal ''r'' # p) (wt_fs sample_working_tree)"
        using x g unfolding sample_root_entries by (auto simp: sample_tree_def there)
      then show ?thesis by (intro exI [of _ False]) (simp add: fs_is_modified_from_node_def)
    qed
    then show "(is_dir x \<longrightarrow> fs_files (wt_fs sample_working_tree) (se_repo sample_status_env @ p) = None) \<and>
        (is_file x \<longrightarrow> se_repo sample_status_env @ p \<notin> fs_dirs (wt_fs sample_working_tree)) \<and> (\<forall>g. t_node x = EFile g \<longrightarrow> (\<exists>b. ?is g = Inr b))"
      using x unfolding sample_root_entries by (auto simp: sample_disk sample_tree_def)
  qed
  ultimately show ?thesis by (simp add: status_ok_def)
qed

lemma status_reports_working_tree_witness:
  "\<exists>c. status_walk sample_status_env \<lparr>so_paths = [[Normal ''r'']], so_ignore = None\<rparr> (\<lambda>_. False) [([], 8), ([Normal ''d''], 5)]
      sample_working_tree 1 = Inr c \<and>
     ch_modified c = {[Normal ''a'']} \<and> ch_removed c = {[Normal ''d'']} \<and>
     covered (ch_untracked c) [Normal ''n''] \<and> \<not> covered (ch_untracked c) [Normal ''a'']"
proof -
  let ?r = "hd (t_children sample_tree)" and ?e = sample_status_env and ?w = sample_working_tree
  obtain c where c: "status_walk ?e \<lparr>so_paths = [se_repo ?e], so_ignore = None\<rparr> (\<lambda>_. False) [([], 8), ([Normal ''d''], 5)] ?w 1 = Inr c"
    "ch_modified c = {p. modified_path ?e (\<lambda>_. False) ?r ?w p}" "ch_removed c = {p. removed_path ?e ?r ?w p}"
    "\<forall>p. disk_file ?e ?w p \<longrightarrow> (covered (ch_untracked c) p \<longleftrightarrow> untracked_path ?e (\<lambda>_. False) ?r ?w p)"
  proof -
    have dhs: "dir_hashes (se_store ?e) (commit_node_to_commit (sample_commit 9 [] 0)) = Inr [([], 8), ([Normal ''d''], 5)]"
      by (simp add: sample_dir_hashes)
    have root: "se_repo ?e \<in> fs_dirs (wt_fs ?w)" by (simp add: sample_disk)
    have depth: "\<forall>q. se_repo ?e @ q \<in> fs_dirs (wt_fs ?w) \<longrightarrow> length q < 1" by (simp add: sample_disk)
    show thesis
      by (rule exE [OF status_reports_working_tree [OF dhs sample_status_ok sample_status_sel(5) root depth, of "\<lambda>_. False"]])
        (elim conjE, rule that)
  qed
  have files: "disk_file ?e ?w p \<longleftrightarrow> p = [Normal ''a''] \<or> p = [Normal ''n'']" for p
    by (auto simp: disk_file_def sample_disk path_starts_with_def)
  have "modified_path ?e (\<lambda>_. False) ?r ?w p \<longleftrightarrow> p = [Normal ''a'']" for p
  proof -
    have entry: "([Normal ''a''], x) \<in> set (tree_entries ?r []) \<longleftrightarrow> x = MTNode 1 (EFile (sample_file ''a'' 1)) (Some 7) []"
      "([Normal ''n''], x) \<notin> set (tree_entries ?r [])" for x
      unfolding sample_root_entries by auto
    show ?thesis
      unfolding modified_path_def files using sample_modified by (cases "p = [Normal ''a'']"; cases "p = [Normal ''n'']") (simp_all add: entry)
  qed
  moreover have "removed_path ?e ?r ?w p \<longleftrightarrow> p = [Normal ''d'']" for p
    unfolding removed_path_def tracked_def sample_root_entries by (auto simp: sample_disk path_exists_def)
  moreover have "untracked_path ?e (\<lambda>_. False) ?r ?w p \<longleftrightarrow> p = [Normal ''n'']" for p
    unfolding untracked_path_def files tracked_def sample_root_entries by auto
  ultimately show ?thesis using c files by (intro exI [of _ c]) simp
qed

end
