(* ===== verification/Spec2Isabelle.thy ===== *)
theory Spec2Isabelle
  imports Tree_Lookup_Props Node_Cache Commit_Depth_Props Branches Server_Merge_Props Prune_Props Checkout_Result Status_Props
begin

text \<open>
  Oxen is a version control system for large data sets. A commit is a Merkle tree: a commit node, a
  root directory, and below every directory vnodes, buckets of files and directories that are chosen
  by the hash of a path, so that a change rewrites one bucket of a directory. Each commit, directory
  and vnode has a small database of its own on disk (a \<open>node\<close> and a \<open>children\<close> file); the hashes of the
  directories of a commit are kept in a key-value store, the branches in another. This library models
  that core of the crate \<open>liboxen\<close> (\<open>src/crates/lib/src\<close>) and proves how its parts work together.

  The parts and their theories, in the order they build on each other:

  \<^item> Errors, results and stateful results (\<open>oxen_error\<close>, \<open>rbind\<close>, \<open>sbind\<close>), hash maps as association lists
    (\<open>hash_map\<close>, \<open>hm_wf\<close>), \<open>HashSet\<close>s whose equality and hash may disagree (locales \<open>hash_set\<close> and
    \<open>keyed_hash_set\<close>) and Rust's paths: \<open>Oxen_Prelude\<close>, \<open>Rust_Path\<close>.
  \<^item> Hashes and node types (\<open>model/merkle_tree/merkle_hash.rs\<close>, \<open>node_type.rs\<close>), the versioned data of
    the nodes (\<open>model/merkle_tree/node/*.rs\<close>, \<open>core/v_latest/model\<close>, \<open>core/v_old/v0_19_0/model\<close>) and loaded
    trees with their searches, listings and walks (\<open>merkle_tree_node.rs\<close>): \<open>Merkle_Hash\<close>, \<open>Merkle_Nodes\<close>,
    \<open>Merkle_Tree_Ops\<close>. \<open>Merkle_Tree_Props\<close> defines the shape of committed trees (\<open>wf_tree\<close>) and the reference
    enumeration of their files and directories (\<open>tree_entries\<close>), and proves searches and listings
    against it.
  \<^item> The database of one node (\<open>core/db/merkle_node/merkle_node_db.rs\<close>): opening, appending children,
    closing and reading back, byte for byte: \<open>Node_Db\<close>, \<open>Node_Db_Props\<close>. The caches in front of it
    (\<open>core/v_latest/index/merkle_node_cache.rs\<close>): \<open>Node_Cache\<close>.
  \<^item> Loading the tree of a commit (\<open>core/v_latest/index/commit_merkle_tree.rs\<close>) whole, to a depth or
    without what another tree shares, with the hashes, paths or partial nodes collected on the way, and
    the shortcut to a file through directory hash and vnode: \<open>Tree_Loader\<close>. \<open>Tree_Loader_Props\<close> and
    \<open>Read_File_Props\<close> prove these against a store that holds a tree (\<open>stored\<close>, \<open>prune\<close>, \<open>bucketed\<close>).
  \<^item> Lookups, listings and the node hashes of a transfer (\<open>repositories/tree.rs\<close>): \<open>Tree_Queries\<close> with
    \<open>Tree_Query_Props\<close> and \<open>Tree_Lookup_Props\<close>; writing a tree and reading it back: \<open>Tree_Writer\<close>.
  \<^item> Branches, \<open>HEAD\<close> and revisions (\<open>core/refs/ref_manager.rs\<close>, \<open>repositories/branches.rs\<close>,
    \<open>repositories/revisions.rs\<close>): \<open>Ref_Store\<close> and, with the deletion of branches and the steps of the
    store as a relation, \<open>Branches\<close>.
  \<^item> The history of commits (\<open>core/v_latest/commits.rs\<close>): traversal, pages, the cache of counts, depths and
    the common ancestor: \<open>Commit_History\<close>, with \<open>Commit_History_Props\<close> (the locale \<open>commit_graph\<close> of a history
    that can be read), \<open>Commit_Listing_Props\<close> and \<open>Commit_Depth_Props\<close>.
  \<^item> Making a commit from staged entries (\<open>repositories/commits/commit_writer.rs\<close>): the overlay of a
    directory and its split into vnodes, with the \<open>f32\<close> arithmetic of the number of vnodes
    (\<open>Commit_Split\<close>, \<open>Commit_Split_Props\<close>), and the recursive writing of the nodes, the totals of the
    directories, the ids and the parents (\<open>Commit_Writer\<close>, \<open>Commit_Writer_Props\<close>).
  \<^item> Merging (\<open>core/v_latest/merge.rs\<close>, \<open>repositories/merge.rs\<close>): the analysis of a three-way merge, which
    skips what the trees share (\<open>Three_Way_Merge\<close>), its proof against the merge of the file maps
    (\<open>Three_Way_Merge_Props\<close>), and the merges of a server, which compose it with the commit writer and the
    branches (\<open>Server_Merge\<close>, \<open>Server_Merge_Props\<close>).
  \<^item> The contents of the files by hash (\<open>storage/local.rs\<close>): storing, chunks, listing and cleaning:
    \<open>Version_Store\<close>, \<open>Version_Store_Props\<close> with the locale \<open>version_laws\<close>, the contract of the trait; and
    the garbage collection of nodes and versions (\<open>core/v_latest/prune.rs\<close>), which rests on that contract
    and on the reads of the loader, and leaves the directories that opening a missing node makes:
    \<open>Prune\<close>, \<open>Prune_Props\<close>.
  \<^item> The working tree: files with their times, what counts as modified, restoring files and directories
    (\<open>core/v_latest/index/restore.rs\<close>, \<open>model/repository/local_repository.rs\<close>) and the marker of an interrupted
    merge (\<open>core/v_latest/merge_marker.rs\<close>): \<open>Working_Tree\<close>, \<open>Working_Tree_Props\<close>. The fast-forward merge
    (\<open>core/v_latest/merge.rs\<close>), with its two walks over the trees: \<open>Fast_Forward\<close>; that it keeps local changes
    and its result, first run or resumed: \<open>Fast_Forward_Props\<close>, \<open>Fast_Forward_Result\<close> (concrete commits for
    the witnesses: \<open>Fast_Forward_Sample\<close>).
  \<^item> Checking out commits, branches and subtrees (\<open>core/v_latest/branches.rs\<close>, \<open>repositories/checkout.rs\<close>) and
    abandoning a merge: \<open>Checkout\<close>; that it keeps local changes: \<open>Checkout_Props\<close>; its result, and that of an
    abandoned merge: \<open>Checkout_Result\<close>.
  \<^item> The entries of the staging area (\<open>core/staged/staged_db_manager.rs\<close>, and what \<open>core/v_latest/add.rs\<close> and
    \<open>rm.rs\<close> write into it) and the paths relative to a repository (\<open>util/fs.rs\<close>): \<open>Staging\<close>, \<open>Relative_Path\<close>.
    What \<open>status\<close> finds in the working tree (\<open>core/v_latest/status.rs\<close>): \<open>Status\<close>; that it is exactly what the
    disk, the head commit and the staging area say: \<open>Status_Props\<close>. As much fuel as directories lie below
    each other is enough for its walk.

  How the code is translated. A struct is a record, an enum a datatype, a machine integer a word; a
  function that returns \<open>Result\<close> returns \<open>res\<close>, with \<open>Panic\<close> for \<open>unwrap\<close> and arithmetic that panics; state is
  passed and returned (\<open>st\<close>). Recursion over a tree on disk has fuel, whose lack is the error
  \<open>stack overflow\<close>; the properties show that as much fuel as the tree has nodes is enough
  (\<open>tree_size t \<le> fuel\<close>). Loops over the history are \<open>partial_function (option)\<close>; that they return is proved
  (\<open>pages_partition_history\<close>, \<open>depths_are_distances\<close>). Messages of errors keep their fixed text.

  What is a parameter, because its code is elsewhere: the hash function xxh3, the random UUIDs and the
  clock, MessagePack (\<open>codec\<close>, with \<open>node_codec_ok\<close> as its law), RocksDB (\<open>kv_ops\<close>, \<open>kv_lawful\<close>), the LRU
  caches, the iteration order of \<open>HashMap\<close>s and of directory listings (any permutation), the author in the
  configuration file, what the working tree's file system does with times (\<open>work_env\<close>), and the patterns
  of \<open>.oxenignore\<close> (\<open>status_env\<close>).

  Not modelled: threads and locks (each operation runs alone), failures of the disk, the
  commands that add and remove files (their globs and hashing; the entries they stage are), the files a local three-way merge restores, the transfers over HTTP with client and
  server, data frames (polars, DuckDB), diffs, workspaces, file metadata, the S3 store of file contents,
  repositories of version 0.19.0, migrations, the command line and the Python bindings: they are I/O, glue around libraries or not reached yet.
\<close>

end
